(* ===== verification/Prelude.thy ===== *)
theory Prelude
  imports Complex_Main "HOL-Library.AList" "HOL-Library.Char_ord" "HOL-Library.List_Lexorder"
begin

text \<open>
  The shared ground of the development: Python exceptions as values, asynchronous code as
  actions on an explicit state, Python dictionaries as insertion-ordered association lists,
  and the string operations the packages use.

  Strings are \<open>char list\<close>s; a \<open>char\<close> stands for a code point below 256, and every string
  operation below follows \<open>str\<close>'s on that alphabet.
\<close>

named_theorems action_simps \<open>unfolding rules for actions\<close>
named_theorems dict_simps \<open>lookup and key rules for dictionaries\<close>
named_theorems wire_simps \<open>definitions of the wire documents\<close>

section \<open>Exceptions and actions\<close>

text \<open>
  What Python code may raise: an \<open>Exception\<close> (its class name and \<open>str\<close>), or the
  \<open>BaseException\<close> that cancels a task, which \<open>except Exception\<close> does not catch.
\<close>

datatype pyexn = PyException (exn_class: string) (exn_text: string) | PyCancelled

fun catchable :: "pyexn \<Rightarrow> bool" where
  "catchable (PyException _ _) = True"
| "catchable PyCancelled = False"

type_synonym 'a outcome = "pyexn + 'a"

text \<open>
  An awaited call: it reads and writes the state \<open>'s\<close> and returns or raises. The state is the
  shared mutable world of the Python program (the context object, stores, clocks, whatever the
  application keeps), so effects made before a raise are kept, as in Python.
\<close>

type_synonym ('s, 'a) action = "'s \<Rightarrow> 'a outcome \<times> 's"

definition act_return :: "'a \<Rightarrow> ('s, 'a) action" where
  [action_simps]: "act_return a = (\<lambda>s. (Inr a, s))"

definition act_raise :: "pyexn \<Rightarrow> ('s, 'a) action" where
  [action_simps]: "act_raise e = (\<lambda>s. (Inl e, s))"

definition act_modify :: "('s \<Rightarrow> 's) \<Rightarrow> ('s, unit) action" where
  [action_simps]: "act_modify f = (\<lambda>s. (Inr (), f s))"

definition act_bind :: "('s, 'a) action \<Rightarrow> ('a \<Rightarrow> ('s, 'b) action) \<Rightarrow> ('s, 'b) action" where
  "act_bind m k = (\<lambda>s. case m s of (Inl e, s') \<Rightarrow> (Inl e, s') | (Inr a, s') \<Rightarrow> k a s')"

definition act_except :: "('s, 'a) action \<Rightarrow> (pyexn \<Rightarrow> ('s, 'a) action) \<Rightarrow> ('s, 'a) action" where
  \<comment> \<open>\<open>try: m\<close> followed by \<open>except Exception as e: h e\<close>\<close>
  "act_except m h = (\<lambda>s. case m s of
     (Inl e, s') \<Rightarrow> if catchable e then h e s' else (Inl e, s')
   | (Inr a, s') \<Rightarrow> (Inr a, s'))"

lemma act_bind_simps [simp]:
  "m s = (Inl e, s') \<Longrightarrow> act_bind m k s = (Inl e, s')"
  "m s = (Inr a, s') \<Longrightarrow> act_bind m k s = k a s'"
  by (simp_all add: act_bind_def)

lemma act_bind_return [simp]: "act_bind (act_return a) k = k a"
  by (simp add: act_bind_def act_return_def)

lemma act_bind_raise [simp]: "act_bind (act_raise e) k = act_raise e"
  by (simp add: act_bind_def act_raise_def)

lemma act_bind_return_right [simp]: "act_bind m act_return = m"
  by (rule ext) (auto simp: act_bind_def act_return_def split: prod.splits sum.splits)

lemma act_bind_assoc: "act_bind (act_bind m k) l = act_bind m (\<lambda>a. act_bind (k a) l)"
  by (rule ext) (auto simp: act_bind_def split: prod.splits sum.splits)

lemma act_except_simps [simp]:
  "m s = (Inr a, s') \<Longrightarrow> act_except m h s = (Inr a, s')"
  "m s = (Inl e, s') \<Longrightarrow> catchable e \<Longrightarrow> act_except m h s = h e s'"
  "m s = (Inl e, s') \<Longrightarrow> \<not> catchable e \<Longrightarrow> act_except m h s = (Inl e, s')"
  by (simp_all add: act_except_def)

section \<open>Dictionaries\<close>

text \<open>
  A \<open>dict\<close> is an association list with distinct keys in insertion order: assigning to a key
  that is present keeps its place, a new key goes to the end (\<open>AList.update\<close>).
\<close>

type_synonym ('k, 'v) dict = "('k \<times> 'v) list"

abbreviation dict_get :: "('k, 'v) dict \<Rightarrow> 'k \<Rightarrow> 'v option" where
  "dict_get d k \<equiv> map_of d k"

abbreviation dict_set :: "'k \<Rightarrow> 'v \<Rightarrow> ('k, 'v) dict \<Rightarrow> ('k, 'v) dict" where
  "dict_set k v d \<equiv> AList.update k v d"

abbreviation dict_del :: "'k \<Rightarrow> ('k, 'v) dict \<Rightarrow> ('k, 'v) dict" where
  "dict_del k d \<equiv> AList.delete k d"

definition dict_mem :: "'k \<Rightarrow> ('k, 'v) dict \<Rightarrow> bool" where
  "dict_mem k d \<longleftrightarrow> map_of d k \<noteq> None"

definition dict_keys :: "('k, 'v) dict \<Rightarrow> 'k list" where
  "dict_keys d = map fst d"

definition dict_values :: "('k, 'v) dict \<Rightarrow> 'v list" where
  "dict_values d = map snd d"

definition dict_ok :: "('k, 'v) dict \<Rightarrow> bool" where
  "dict_ok d \<longleftrightarrow> distinct (map fst d)"

text \<open>A dict comprehension, and \<open>{**a, **b}\<close>: later pairs overwrite earlier ones.\<close>

definition dict_of :: "('k \<times> 'v) list \<Rightarrow> ('k, 'v) dict" where
  "dict_of ps = fold (\<lambda>(k, v) d. dict_set k v d) ps []"

definition dict_update :: "('k, 'v) dict \<Rightarrow> ('k, 'v) dict \<Rightarrow> ('k, 'v) dict" where
  "dict_update d ps = fold (\<lambda>(k, v) d. dict_set k v d) ps d"

lemma dict_get_set [simp, dict_simps]: "map_of (dict_set k v d) = (map_of d)(k \<mapsto> v)"
  by (rule update_conv')

lemma dict_get_del [simp, dict_simps]: "map_of (dict_del k d) = (map_of d)(k := None)"
  by (rule delete_conv')

lemma dict_ok_set [simp, dict_simps]: "dict_ok d \<Longrightarrow> dict_ok (dict_set k v d)"
  by (simp add: dict_ok_def distinct_update)

lemma dict_ok_del [simp, dict_simps]: "dict_ok d \<Longrightarrow> dict_ok (dict_del k d)"
  by (simp add: dict_ok_def distinct_delete)

lemma dict_ok_Nil [simp, dict_simps]: "dict_ok []"
  by (simp add: dict_ok_def)

lemma dict_mem_iff [dict_simps]: "dict_mem k d \<longleftrightarrow> k \<in> fst ` set d"
  by (auto simp: dict_mem_def map_of_eq_None_iff)

lemma dict_set_fresh: "map_of d k = None \<Longrightarrow> dict_set k v d = d @ [(k, v)]"
  by (induction d) (auto split: if_splits)

lemma dict_ok_update: "dict_ok d \<Longrightarrow> dict_ok (dict_update d ps)"
  unfolding dict_update_def by (induction ps arbitrary: d) auto

lemma dict_ok_of [simp]: "dict_ok (dict_of ps)"
  using dict_ok_update [of "[]" ps] by (simp add: dict_of_def dict_update_def)

lemma dict_get_update: "map_of (dict_update d ps) = map_of d ++ map_of (rev ps)"
  unfolding dict_update_def
proof (induction ps arbitrary: d)
  case (Cons p ps)
  then show ?case by (cases p) (simp add: fun_eq_iff map_add_def split: option.splits)
qed simp

lemma dict_get_of: "map_of (dict_of ps) = map_of (rev ps)"
  using dict_get_update [of "[]" ps] by (simp add: dict_of_def dict_update_def)

lemma dict_update_fresh: "dict_ok (d @ e) \<Longrightarrow> dict_update d e = d @ e"
  unfolding dict_update_def
proof (induction e arbitrary: d)
  case (Cons p e)
  obtain k v where p: "p = (k, v)" by (cases p)
  from Cons.prems have "map_of d k = None"
    by (auto simp: p dict_ok_def map_of_eq_None_iff)
  then have "dict_set k v d = d @ [p]" by (simp add: p dict_set_fresh)
  with Cons show ?case by (simp add: p)
qed simp

lemma dict_of_ok: "dict_ok d \<Longrightarrow> dict_of d = d"
  using dict_update_fresh [of "[]" d] by (simp add: dict_of_def dict_update_def)

lemma dict_get_rev: "dict_ok d \<Longrightarrow> map_of (rev d) = map_of d"
  by (subst map_of_inject_set) (simp_all add: dict_ok_def rev_map [symmetric])

section \<open>Registering a sequence of entries\<close>

text \<open>A loop that registers entries one after the other stops at the first error.\<close>

fun add_all :: "('v \<Rightarrow> 's \<Rightarrow> 'e + 's) \<Rightarrow> 'v list \<Rightarrow> 's \<Rightarrow> 'e + 's" where
  "add_all add [] s = Inr s"
| "add_all add (v # vs) s = (case add v s of Inl e \<Rightarrow> Inl e | Inr s' \<Rightarrow> add_all add vs s')"

text \<open>
  The contract several start-up registries share (handlers, health checks, in-process
  pipelines, workers, outbound declarations): a key is claimed at most once, and a successful
  registration adds exactly its own entry.
\<close>

locale keyed_registry =
  fixes add :: "'v \<Rightarrow> 's \<Rightarrow> 'e + 's"
    and key :: "'v \<Rightarrow> 'k"
    and lookup :: "'s \<Rightarrow> 'k \<Rightarrow> 'v option"
  assumes add_fresh: "add v s = Inr s' \<Longrightarrow> lookup s (key v) = None"
    and add_lookup: "add v s = Inr s' \<Longrightarrow> lookup s' = (lookup s)(key v \<mapsto> v)"
begin

lemma add_all_fresh:
  "add_all add vs s = Inr s' \<Longrightarrow> v \<in> set vs \<Longrightarrow> lookup s (key v) = None"
proof (induction vs arbitrary: s)
  case (Cons w ws)
  then obtain t where t: "add w s = Inr t" "add_all add ws t = Inr s'"
    by (auto split: sum.splits)
  show ?case
  proof (cases "v = w")
    case True
    with t(1) show ?thesis by (simp add: add_fresh)
  next
    case False
    with Cons.prems(2) have "v \<in> set ws" by simp
    with Cons.IH [OF t(2)] have "lookup t (key v) = None" by simp
    with add_lookup [OF t(1)] show ?thesis by (auto split: if_splits)
  qed
qed simp

lemma add_all_distinct: "add_all add vs s = Inr s' \<Longrightarrow> distinct (map key vs)"
proof (induction vs arbitrary: s)
  case (Cons w ws)
  then obtain t where t: "add w s = Inr t" "add_all add ws t = Inr s'"
    by (auto split: sum.splits)
  have "key v \<noteq> key w" if "v \<in> set ws" for v
    using add_all_fresh [OF t(2) that] add_lookup [OF t(1)] by (auto split: if_splits)
  then have "key w \<notin> key ` set ws" by force
  with Cons.IH [OF t(2)] show ?case by simp
qed simp

lemma add_all_lookup:
  "add_all add vs s = Inr s' \<Longrightarrow> lookup s' = lookup s ++ map_of (map (\<lambda>v. (key v, v)) vs)"
proof (induction vs arbitrary: s)
  case (Cons w ws)
  then obtain t where t: "add w s = Inr t" "add_all add ws t = Inr s'"
    by (auto split: sum.splits)
  have "key w \<notin> key ` set ws"
    using add_all_distinct [OF Cons.prems] by simp
  then have "map_of (map (\<lambda>v. (key v, v)) ws) (key w) = None"
    by (auto simp: map_of_eq_None_iff)
  with Cons.IH [OF t(2)] add_lookup [OF t(1)] show ?case
    by (auto simp: fun_eq_iff map_add_def split: option.splits)
qed (simp add: fun_eq_iff map_add_def)

lemma add_all_duplicate:
  "\<not> distinct (map key vs) \<Longrightarrow> \<exists>e. add_all add vs s = Inl e"
  using add_all_distinct [of vs s] by (cases "add_all add vs s") auto

lemma add_all_finds:
  assumes "add_all add vs s = Inr s'" "v \<in> set vs"
  shows "lookup s' (key v) = Some v"
proof -
  have "map_of (map (\<lambda>v. (key v, v)) vs) (key v) = Some v"
    using add_all_distinct [OF assms(1)] assms(2)
    by (auto intro!: map_of_is_SomeI simp: comp_def)
  then show ?thesis by (simp add: add_all_lookup [OF assms(1)] map_add_def)
qed

end

end
