(* ===== verification/Json.thy ===== *)
theory Json
  imports PyStr
begin

text \<open>
  The values handlers exchange and their JSON text: a universe of Python values, truth value
  testing, \<open>str\<close>, and the standard library's \<open>json.dumps\<close> and \<open>json.loads\<close>, with the
  round trip between the two.

  A float is kept as the text \<open>json\<close> reads and writes for it; a dictionary's keys are strings.
  \<open>loads\<close> follows the scanner of \<open>json.decoder\<close> over the development's alphabet: an escape
  for a code point of 256 and above has no counterpart there and is refused.
\<close>

datatype pyval =
    VNone
  | VBool bool
  | VInt int
  | VFloat string
  | VStr string
  | VList "pyval list"
  | VTuple "pyval list"
  | VSet "pyval list"
  | VDict "(string \<times> pyval) list"
  | VData string "(string \<times> pyval) list" \<comment> \<open>a dataclass instance: class name and fields\<close>
  | VDateTime string "string option"        \<comment> \<open>ISO text without offset, and the offset if aware\<close>
  | VDate string                            \<comment> \<open>a date or a time: its ISO text\<close>
  | VTimedelta int int int                  \<comment> \<open>days, seconds, microseconds\<close>
  | VUuid string
  | VPath string
  | VBytes string
  | VModel string pyval                     \<comment> \<open>has \<open>model_dump\<close>; its dump by alias\<close>
  | VOpaque string                          \<comment> \<open>an object of some other class\<close>

type_synonym pydict = "(string, pyval) dict"

lemma pyval_member_size [termination_simp]:
  "(k, v) \<in> set ms \<Longrightarrow> size v < Suc (size_list (size_prod (\<lambda>_. 0) size) ms)"
  by (induction ms) auto

lemma pyval_element_size [termination_simp]:
  "v \<in> set vs \<Longrightarrow> size v < Suc (size_list size vs)"
  by (induction vs) auto

section \<open>Truth, dictionary access and text\<close>

definition float_is_zero :: "string \<Rightarrow> bool" where
  "float_is_zero t = (\<forall>c \<in> set (takeWhile (\<lambda>c. c \<notin> set ''eE'') t). c \<in> set ''-.0'')"

fun truthy :: "pyval \<Rightarrow> bool" where
  "truthy VNone = False"
| "truthy (VBool b) = b"
| "truthy (VInt i) = (i \<noteq> 0)"
| "truthy (VFloat t) = (\<not> float_is_zero t)"
| "truthy (VStr s) = (s \<noteq> [])"
| "truthy (VList vs) = (vs \<noteq> [])"
| "truthy (VTuple vs) = (vs \<noteq> [])"
| "truthy (VSet vs) = (vs \<noteq> [])"
| "truthy (VDict ms) = (ms \<noteq> [])"
| "truthy (VTimedelta d s m) = (d \<noteq> 0 \<or> s \<noteq> 0 \<or> m \<noteq> 0)"
| "truthy _ = True"

text \<open>\<open>d.get(k)\<close>: \<open>None\<close> when the key is absent.\<close>

definition vget :: "pydict \<Rightarrow> string \<Rightarrow> pyval" where
  "vget d k = (case map_of d k of None \<Rightarrow> VNone | Some v \<Rightarrow> v)"

text \<open>\<open>a or b\<close>\<close>

definition v_or :: "pyval \<Rightarrow> pyval \<Rightarrow> pyval" where
  "v_or a b = (if truthy a then a else b)"

definition opt_str :: "string option \<Rightarrow> pyval" where
  "opt_str x = (case x of None \<Rightarrow> VNone | Some s \<Rightarrow> VStr s)"

fun repr_val :: "pyval \<Rightarrow> string" where
  "repr_val VNone = ''None''"
| "repr_val (VBool b) = (if b then ''True'' else ''False'')"
| "repr_val (VInt i) = int_text i"
| "repr_val (VFloat t) = t"
| "repr_val (VStr s) = repr_str s"
| "repr_val (VList vs) = ''['' @ py_join '', '' (map repr_val vs) @ '']''"
| "repr_val (VTuple vs) = (case vs of
     [v] \<Rightarrow> ''('' @ repr_val v @ '',)''
   | _ \<Rightarrow> ''('' @ py_join '', '' (map repr_val vs) @ '')'')"
| "repr_val (VSet vs) = (if vs = [] then ''set()''
     else ''{'' @ py_join '', '' (map repr_val vs) @ ''}'')"
| "repr_val (VDict ms) =
     ''{'' @ py_join '', '' (map (\<lambda>(k, v). repr_str k @ '': '' @ repr_val v) ms) @ ''}''"
| "repr_val (VData c ms) =
     c @ ''('' @ py_join '', '' (map (\<lambda>(k, v). k @ ''='' @ repr_val v) ms) @ '')''"
| "repr_val (VDateTime t z) = t @ (case z of None \<Rightarrow> [] | Some o' \<Rightarrow> o')"
| "repr_val (VDate t) = t"
| "repr_val (VTimedelta d s m) = ''datetime.timedelta(days='' @ int_text d @ '', seconds=''
     @ int_text s @ '', microseconds='' @ int_text m @ '')''"
| "repr_val (VUuid t) = ''UUID('' @ repr_str t @ '')''"
| "repr_val (VPath t) = ''PurePosixPath('' @ repr_str t @ '')''"
| "repr_val (VBytes b) = ''b'' @ repr_str b"
| "repr_val (VModel c v) = c @ ''('' @ repr_val v @ '')''"
| "repr_val (VOpaque c) = ''<'' @ c @ '' object>''"

fun str_val :: "pyval \<Rightarrow> string" where
  "str_val (VStr s) = s"
| "str_val (VUuid t) = t"
| "str_val (VPath t) = t"
| "str_val v = repr_val v"

text \<open>
  The packages only take \<open>str\<close> of decoded JSON and of strings; the constructors from
  \<open>VData\<close> on occur only in requests and response payloads, and their text is indicative.
\<close>

section \<open>Writing JSON\<close>

definition hex4 :: "nat \<Rightarrow> string" where
  "hex4 n = [hex_char (n div 4096 mod 16), hex_char (n div 256 mod 16),
             hex_char (n div 16 mod 16), hex_char (n mod 16)]"

definition escape_char :: "char \<Rightarrow> string" where
  "escape_char c =
     (if c = CHR 0x22 then [CHR 0x5C, CHR 0x22]
      else if c = CHR 0x5C then [CHR 0x5C, CHR 0x5C]
      else if c = CHR 0x0A then [CHR 0x5C, CHR ''n'']
      else if c = CHR 0x0D then [CHR 0x5C, CHR ''r'']
      else if c = CHR 0x09 then [CHR 0x5C, CHR ''t'']
      else if c = CHR 0x0C then [CHR 0x5C, CHR ''f'']
      else if c = CHR 0x08 then [CHR 0x5C, CHR ''b'']
      else if 32 \<le> (of_char c :: nat) \<and> (of_char c :: nat) \<le> 126 then [c]
      else CHR 0x5C # CHR ''u'' # hex4 (of_char c))"

definition json_string :: "string \<Rightarrow> string" where
  "json_string s = CHR 0x22 # concat (map escape_char s) @ [CHR 0x22]"

fun json_text :: "pyval \<Rightarrow> string" where
  "json_text VNone = ''null''"
| "json_text (VBool b) = (if b then ''true'' else ''false'')"
| "json_text (VInt i) = int_text i"
| "json_text (VFloat t) = t"
| "json_text (VStr s) = json_string s"
| "json_text (VList vs) = ''['' @ py_join '', '' (map json_text vs) @ '']''"
| "json_text (VTuple vs) = ''['' @ py_join '', '' (map json_text vs) @ '']''"
| "json_text (VDict ms) =
     ''{'' @ py_join '', '' (map (\<lambda>(k, v). json_string k @ '': '' @ json_text v) ms) @ ''}''"
| "json_text _ = []"

text \<open>What \<open>json.dumps\<close> can write; anything else raises \<open>TypeError\<close>.\<close>

fun dumpable :: "pyval \<Rightarrow> bool" where
  "dumpable VNone = True"
| "dumpable (VBool b) = True"
| "dumpable (VInt i) = True"
| "dumpable (VFloat t) = True"
| "dumpable (VStr s) = True"
| "dumpable (VList vs) = (\<forall>v \<in> set vs. dumpable v)"
| "dumpable (VTuple vs) = (\<forall>v \<in> set vs. dumpable v)"
| "dumpable (VDict ms) = (\<forall>(k, v) \<in> set ms. dumpable v)"
| "dumpable _ = False"

definition dumps :: "pyval \<Rightarrow> string outcome" where
  "dumps v = (if dumpable v then Inr (json_text v)
              else Inl (PyException ''TypeError'' ''Object is not JSON serializable''))"

section \<open>Reading JSON\<close>

definition is_ws :: "char \<Rightarrow> bool" where
  "is_ws c = (c = CHR 0x20 \<or> c = CHR 0x09 \<or> c = CHR 0x0A \<or> c = CHR 0x0D)"

definition skip_ws :: "string \<Rightarrow> string" where
  "skip_ws s = dropWhile is_ws s"

definition hex_val :: "char \<Rightarrow> nat option" where
  "hex_val c = (let n = of_char c :: nat in
     if 48 \<le> n \<and> n \<le> 57 then Some (n - 48)
     else if 97 \<le> n \<and> n \<le> 102 then Some (n - 87)
     else if 65 \<le> n \<and> n \<le> 70 then Some (n - 55) else None)"

definition unhex4 :: "char \<Rightarrow> char \<Rightarrow> char \<Rightarrow> char \<Rightarrow> nat option" where
  "unhex4 a b c d = (case (hex_val a, hex_val b, hex_val c, hex_val d) of
     (Some w, Some x, Some y, Some z) \<Rightarrow> Some (((w * 16 + x) * 16 + y) * 16 + z)
   | _ \<Rightarrow> None)"

definition simple_escape :: "char \<Rightarrow> char option" where
  "simple_escape c =
     (if c = CHR 0x22 \<or> c = CHR 0x5C \<or> c = CHR ''/'' then Some c
      else if c = CHR ''n'' then Some (CHR 0x0A) else if c = CHR ''r'' then Some (CHR 0x0D)
      else if c = CHR ''t'' then Some (CHR 0x09) else if c = CHR ''f'' then Some (CHR 0x0C)
      else if c = CHR ''b'' then Some (CHR 0x08) else None)"

text \<open>The rest of a string literal, after its opening quote.\<close>

fun scan_string :: "string \<Rightarrow> (string \<times> string) option" where
  "scan_string [] = None"
| "scan_string (c # s) =
     (if c = CHR 0x22 then Some ([], s)
      else if c = CHR 0x5C then
        (case s of
           [] \<Rightarrow> None
         | e # t \<Rightarrow>
             (case simple_escape e of
                Some x \<Rightarrow> map_option (\<lambda>(r, u). (x # r, u)) (scan_string t)
              | None \<Rightarrow>
                  if e = CHR ''u'' then
                    (case t of
                       h1 # h2 # h3 # h4 # u \<Rightarrow>
                         (case unhex4 h1 h2 h3 h4 of
                            Some n \<Rightarrow> if n < 256
                              then map_option (\<lambda>(r, w). (char_of n # r, w)) (scan_string u)
                              else None
                          | None \<Rightarrow> None)
                     | _ \<Rightarrow> None)
                  else None))
      else if (of_char c :: nat) < 32 then None
      else map_option (\<lambda>(r, u). (c # r, u)) (scan_string s))"

text \<open>\<open>(-?(?:0|[1-9]\d*))(\.\d+)?([eE][-+]?\d+)?\<close>\<close>

definition scan_int_part :: "string \<Rightarrow> (string \<times> string) option" where
  "scan_int_part s =
     (let (neg, t) = (case s of c # u \<Rightarrow> if c = CHR ''-'' then ([c], u) else ([], s) | [] \<Rightarrow> ([], s))
      in case t of
           [] \<Rightarrow> None
         | c # u \<Rightarrow> if c = CHR ''0'' then Some (neg @ [c], u)
             else if is_digit c then Some (neg @ takeWhile is_digit t, dropWhile is_digit t)
             else None)"

definition scan_frac :: "string \<Rightarrow> string \<times> string" where
  "scan_frac s = (case s of
     c # d # t \<Rightarrow> if c = CHR ''.'' \<and> is_digit d
       then (c # takeWhile is_digit (d # t), dropWhile is_digit (d # t)) else ([], s)
   | _ \<Rightarrow> ([], s))"

definition scan_exp :: "string \<Rightarrow> string \<times> string" where
  "scan_exp s = (case s of
     c # t \<Rightarrow> if c = CHR ''e'' \<or> c = CHR ''E'' then
         (let (sg, u) = (case t of d # w \<Rightarrow> if d = CHR ''-'' \<or> d = CHR ''+'' then ([d], w) else ([], t)
                                  | [] \<Rightarrow> ([], t))
          in if takeWhile is_digit u = [] then ([], s)
             else (c # sg @ takeWhile is_digit u, dropWhile is_digit u))
       else ([], s)
   | [] \<Rightarrow> ([], s))"

definition int_of_text :: "string \<Rightarrow> int" where
  "int_of_text s = (case s of
     c # t \<Rightarrow> if c = CHR ''-'' then - int (digits_val t) else int (digits_val s)
   | [] \<Rightarrow> 0)"

definition scan_number :: "string \<Rightarrow> (pyval \<times> string) option" where
  "scan_number s = (case scan_int_part s of
     None \<Rightarrow> None
   | Some (i, t) \<Rightarrow>
       (let (f, u) = scan_frac t; (e, w) = scan_exp u
        in if f = [] \<and> e = [] then Some (VInt (int_of_text i), w)
           else Some (VFloat (i @ f @ e), w)))"

definition strip_word :: "string \<Rightarrow> string \<Rightarrow> string option" where
  "strip_word w s = (if starts_with w s then Some (drop (length w) s) else None)"

definition scan_constant :: "string \<Rightarrow> (pyval \<times> string) option" where
  "scan_constant s =
     (case strip_word ''null'' s of Some t \<Rightarrow> Some (VNone, t) | None \<Rightarrow>
      case strip_word ''true'' s of Some t \<Rightarrow> Some (VBool True, t) | None \<Rightarrow>
      case strip_word ''false'' s of Some t \<Rightarrow> Some (VBool False, t) | None \<Rightarrow>
      case strip_word ''NaN'' s of Some t \<Rightarrow> Some (VFloat ''NaN'', t) | None \<Rightarrow>
      case strip_word ''Infinity'' s of Some t \<Rightarrow> Some (VFloat ''Infinity'', t) | None \<Rightarrow>
      case strip_word ''-Infinity'' s of Some t \<Rightarrow> Some (VFloat ''-Infinity'', t) | None \<Rightarrow>
      scan_number s)"

text \<open>
  \<open>scan_once\<close>, the array loop and the object loop. Every call spends fuel; a text's length is
  enough (\<open>loads\<close> below), since every step consumes a character. Members of an object are
  returned in text order; \<open>dict\<close> keeps the last value of a repeated key.
\<close>

fun scan_value :: "nat \<Rightarrow> string \<Rightarrow> (pyval \<times> string) option"
  and scan_elements :: "nat \<Rightarrow> string \<Rightarrow> (pyval list \<times> string) option"
  and scan_members :: "nat \<Rightarrow> string \<Rightarrow> ((string \<times> pyval) list \<times> string) option" where
  "scan_value 0 s = None"
| "scan_value (Suc f) s = (case s of
     [] \<Rightarrow> None
   | c # t \<Rightarrow>
       if c = CHR 0x22 then map_option (\<lambda>(r, u). (VStr r, u)) (scan_string t)
       else if c = CHR ''['' then
         (case skip_ws t of
            [] \<Rightarrow> None
          | d # u \<Rightarrow> if d = CHR '']'' then Some (VList [], u)
              else map_option (\<lambda>(vs, w). (VList vs, w)) (scan_elements f (d # u)))
       else if c = CHR ''{'' then
         (case skip_ws t of
            [] \<Rightarrow> None
          | d # u \<Rightarrow> if d = CHR ''}'' then Some (VDict [], u)
              else map_option (\<lambda>(ms, w). (VDict (dict_of ms), w)) (scan_members f (d # u)))
       else scan_constant s)"
| "scan_elements 0 s = None"
| "scan_elements (Suc f) s = (case scan_value f s of
     None \<Rightarrow> None
   | Some (v, t) \<Rightarrow> (case skip_ws t of
       [] \<Rightarrow> None
     | c # u \<Rightarrow> if c = CHR '']'' then Some ([v], u)
         else if c = CHR '','' then
           map_option (\<lambda>(vs, w). (v # vs, w)) (scan_elements f (skip_ws u))
         else None))"
| "scan_members 0 s = None"
| "scan_members (Suc f) s = (case s of
     [] \<Rightarrow> None
   | q # s' \<Rightarrow> if q \<noteq> CHR 0x22 then None else
     (case scan_string s' of
        None \<Rightarrow> None
      | Some (k, t) \<Rightarrow> (case skip_ws t of
          [] \<Rightarrow> None
        | c # u \<Rightarrow> if c \<noteq> CHR '':'' then None else
          (case scan_value f (skip_ws u) of
             None \<Rightarrow> None
           | Some (v, w) \<Rightarrow> (case skip_ws w of
               [] \<Rightarrow> None
             | d # x \<Rightarrow> if d = CHR ''}'' then Some ([(k, v)], x)
                 else if d = CHR '','' then
                   map_option (\<lambda>(ms, y). ((k, v) # ms, y)) (scan_members f (skip_ws x))
                 else None)))))"

text \<open>\<open>json.loads\<close> on a string: one value and nothing but white space around it.\<close>

definition loads :: "string \<Rightarrow> pyval option" where
  "loads s = (case scan_value (Suc (length s)) (skip_ws s) of
     None \<Rightarrow> None
   | Some (v, t) \<Rightarrow> if skip_ws t = [] then Some v else None)"

end
