(* ===== verification/JsonProps.thy ===== *)
theory JsonProps
  imports Json
begin

text \<open>
  The facts about JSON text the wire components rest on: reading what was written gives the
  value back, and the reader's fuel is always enough.
\<close>

section \<open>Strings\<close>

lemma hex_val_hex_char [simp]: "n < 16 \<Longrightarrow> hex_val (hex_char n) = Some n"
proof -
  assume n: "n < 16"
  show ?thesis
  proof (cases "n < 10")
    case True
    then have "(of_char (char_of (48 + n) :: char) :: nat) = 48 + n" by simp
    with True show ?thesis by (simp add: hex_val_def Let_def)
  next
    case False
    with n have "(of_char (char_of (87 + n) :: char) :: nat) = 87 + n" by simp
    with False n show ?thesis by (simp add: hex_val_def Let_def)
  qed
qed

lemma unhex4_hex4:
  assumes "n < 256"
  shows "\<exists>a b c d. hex4 n = [a, b, c, d] \<and> unhex4 a b c d = Some n"
proof -
  have z: "n div 4096 = 0" "n div 256 = 0" and h: "n div 16 < 16" "n mod 16 < 16"
    using assms by auto
  have "n div 16 * 16 + n mod 16 = n" by simp
  then show ?thesis
    unfolding hex4_def unhex4_def
    using hex_val_hex_char [OF h(1)] hex_val_hex_char [OF h(2)] hex_val_hex_char [of 0] h z
    by (auto simp del: hex_char.simps)
qed

lemma scan_string_plain:
  "c \<noteq> CHR 0x22 \<Longrightarrow> c \<noteq> CHR 0x5C \<Longrightarrow> 32 \<le> (of_char c :: nat) \<Longrightarrow>
   scan_string (c # s) = map_option (\<lambda>(r, u). (c # r, u)) (scan_string s)"
  by simp

lemma scan_string_simple:
  "simple_escape e = Some x \<Longrightarrow>
   scan_string (CHR 0x5C # e # t) = map_option (\<lambda>(r, u). (x # r, u)) (scan_string t)"
  by simp

lemma scan_string_hex:
  "unhex4 a b d e = Some n \<Longrightarrow> n < 256 \<Longrightarrow>
   scan_string (CHR 0x5C # CHR ''u'' # a # b # d # e # t)
     = map_option (\<lambda>(r, u). (char_of n # r, u)) (scan_string t)"
  by (simp add: simple_escape_def)

declare scan_string.simps(2) [simp del]

lemma scan_string_escape:
  "scan_string (escape_char c @ s) = map_option (\<lambda>(r, u). (c # r, u)) (scan_string s)"
proof -
  consider (q) "c = CHR 0x22" | (b) "c = CHR 0x5C" | (n) "c = CHR 0x0A" | (r) "c = CHR 0x0D"
    | (t) "c = CHR 0x09" | (f) "c = CHR 0x0C" | (bs) "c = CHR 0x08"
    | (plain) "c \<notin> {CHR 0x22, CHR 0x5C, CHR 0x0A, CHR 0x0D, CHR 0x09, CHR 0x0C, CHR 0x08}"
        "32 \<le> (of_char c :: nat)" "(of_char c :: nat) \<le> 126"
    | (u) "c \<notin> {CHR 0x22, CHR 0x5C, CHR 0x0A, CHR 0x0D, CHR 0x09, CHR 0x0C, CHR 0x08}"
        "\<not> (32 \<le> (of_char c :: nat) \<and> (of_char c :: nat) \<le> 126)"
    by blast
  then show ?thesis
  proof cases
    case plain
    then show ?thesis by (simp add: escape_char_def scan_string_plain)
  next
    case u
    have lt: "(of_char c :: nat) < 256" by simp
    then obtain h1 h2 h3 h4 where h: "hex4 (of_char c) = [h1, h2, h3, h4]"
        "unhex4 h1 h2 h3 h4 = Some (of_char c)"
      using unhex4_hex4 by blast
    from u have "escape_char c = CHR 0x5C # CHR ''u'' # hex4 (of_char c)"
      by (auto simp: escape_char_def)
    with h lt show ?thesis by (simp add: scan_string_hex)
  qed (simp_all add: escape_char_def scan_string_simple simple_escape_def)
qed

lemma scan_string_concat:
  "scan_string (concat (map escape_char s) @ CHR 0x22 # r) = Some (s, r)"
  by (induction s) (simp_all add: scan_string_escape scan_string.simps(2))

section \<open>Numbers and constants\<close>

text \<open>What may follow a value inside an array or an object, or at the end of the text.\<close>

definition delim :: "string \<Rightarrow> bool" where
  "delim r \<longleftrightarrow> r = [] \<or> hd r \<in> {CHR '','', CHR '']'', CHR ''}''}"

lemma delim_cases:
  assumes "delim r"
  obtains "r = []" | t where "r = CHR '','' # t" | t where "r = CHR '']'' # t"
    | t where "r = CHR ''}'' # t"
  using assms by (cases r) (auto simp: delim_def)

lemma is_digit_delims [simp]:
  "\<not> is_digit (CHR '','')" "\<not> is_digit (CHR '']'')" "\<not> is_digit (CHR ''}'')"
  "\<not> is_digit (CHR ''.'')" "\<not> is_digit (CHR ''e'')" "\<not> is_digit (CHR ''E'')"
  "\<not> is_digit (CHR ''-'')" "\<not> is_digit (CHR ''+'')" "\<not> is_digit (CHR ''['')"
  "\<not> is_digit (CHR ''{'')" "\<not> is_digit (CHR 0x22)"
  by (simp_all add: is_digit_def)

lemma delim_takeWhile [simp]:
  assumes "delim r"
  shows "takeWhile is_digit (s @ r) = takeWhile is_digit s"
    and "dropWhile is_digit (s @ r) = dropWhile is_digit s @ r"
proof -
  have "takeWhile is_digit r = []" "dropWhile is_digit r = r"
    using assms by (auto elim: delim_cases)
  then show "takeWhile is_digit (s @ r) = takeWhile is_digit s"
    and "dropWhile is_digit (s @ r) = dropWhile is_digit s @ r"
    by (induction s) auto
qed

lemma scan_frac_append [simp]:
  assumes "delim r"
  shows "scan_frac (s @ r) = (fst (scan_frac s), snd (scan_frac s) @ r)"
proof -
  consider "s = []" | c where "s = [c]" | c d t where "s = c # d # t"
    by (cases s; cases "tl s") auto
  then show ?thesis
  proof cases
    case 1
    with assms show ?thesis by (elim delim_cases) (auto simp: scan_frac_def split: list.splits)
  next
    case 2
    with assms show ?thesis by (elim delim_cases) (auto simp: scan_frac_def split: list.splits)
  next
    case (3 c d t)
    with assms delim_takeWhile [OF assms, of "d # t"] show ?thesis by (auto simp: scan_frac_def)
  qed
qed

lemma scan_exp_append [simp]:
  assumes "delim r"
  shows "scan_exp (s @ r) = (fst (scan_exp s), snd (scan_exp s) @ r)"
proof (cases s)
  case Nil
  with assms show ?thesis by (elim delim_cases) (auto simp: scan_exp_def)
next
  case (Cons c t)
  show ?thesis
  proof (cases t)
    case Nil
    with assms \<open>s = c # t\<close> show ?thesis
      by (elim delim_cases) (auto simp: scan_exp_def split: list.splits)
  next
    case (Cons d u)
    with assms \<open>s = c # t\<close> delim_takeWhile [OF assms, of t] delim_takeWhile [OF assms, of u]
    show ?thesis by (auto simp: scan_exp_def)
  qed
qed

lemma scan_int_part_append:
  assumes "scan_int_part s = Some (i, t)" "delim r"
  shows "scan_int_part (s @ r) = Some (i, t @ r)"
proof -
  from assms(1) obtain c u where s: "s = c # u" by (cases s) (auto simp: scan_int_part_def)
  show ?thesis
  proof (cases "c = CHR ''-''")
    case True
    with assms s obtain d w where u: "u = d # w"
      by (cases u) (auto simp: scan_int_part_def)
    with True s assms delim_takeWhile [OF assms(2), of u] show ?thesis
      by (auto simp: scan_int_part_def split: if_splits)
  next
    case False
    with s assms delim_takeWhile [OF assms(2), of s] show ?thesis
      by (auto simp: scan_int_part_def split: if_splits)
  qed
qed

lemma scan_number_append:
  assumes "scan_number s = Some (v, t)" "delim r"
  shows "scan_number (s @ r) = Some (v, t @ r)"
proof -
  obtain i u where "scan_int_part s = Some (i, u)"
    using assms(1) by (auto simp: scan_number_def split: option.splits)
  with scan_int_part_append [OF this assms(2)] assms show ?thesis
    by (auto simp: scan_number_def case_prod_beta Let_def split: if_splits)
qed

lemma takeWhile_digits [simp]: "takeWhile is_digit (nat_text n) = nat_text n"
  using nat_text_digits by (simp add: takeWhile_eq_all_conv)

lemma dropWhile_digits [simp]: "dropWhile is_digit (nat_text n) = []"
  using nat_text_digits by simp

lemma nat_text_Cons: obtains c t where "nat_text n = c # t" "is_digit c" "c = CHR ''0'' \<longleftrightarrow> n = 0"
  using nat_text_hd [of n] nat_text_digits [of n] nat_text_not_Nil [of n]
  by (cases "nat_text n") auto

lemma not_digit_minus: "is_digit c \<Longrightarrow> c \<noteq> CHR ''-''"
  by auto

lemma scan_int_part_nat: "scan_int_part (nat_text n) = Some (nat_text n, [])"
proof (cases "n = 0")
  case True
  then show ?thesis by (simp add: scan_int_part_def)
next
  case False
  obtain c t where "nat_text n = c # t" "is_digit c" "c = CHR ''0'' \<longleftrightarrow> n = 0"
    by (rule nat_text_Cons)
  with False takeWhile_digits [of n] dropWhile_digits [of n] show ?thesis
    by (auto simp: scan_int_part_def)
qed

lemma scan_int_part_neg: "0 < n \<Longrightarrow> scan_int_part (CHR ''-'' # nat_text n) = Some (CHR ''-'' # nat_text n, [])"
proof -
  assume n: "0 < n"
  obtain c t where "nat_text n = c # t" "is_digit c" "c = CHR ''0'' \<longleftrightarrow> n = 0"
    by (rule nat_text_Cons)
  with n takeWhile_digits [of n] dropWhile_digits [of n] show ?thesis
    by (auto simp: scan_int_part_def)
qed

lemma int_of_text_int [simp]: "int_of_text (int_text i) = i"
proof (cases "i < 0")
  case True
  then show ?thesis by (simp add: int_of_text_def int_text_def)
next
  case False
  obtain c t where "nat_text (nat i) = c # t" "is_digit c" by (rule nat_text_Cons)
  with False digits_val_nat_text [of "nat i"] show ?thesis
    by (auto simp: int_of_text_def int_text_def split: if_splits)
qed

lemma scan_number_int: "scan_number (int_text i) = Some (VInt i, [])"
proof -
  have "scan_int_part (int_text i) = Some (int_text i, [])"
    using scan_int_part_neg [of "nat (- i)"] by (auto simp: int_text_def scan_int_part_nat)
  then show ?thesis by (simp add: scan_number_def scan_frac_def scan_exp_def)
qed

lemma scan_number_start:
  assumes "scan_number s = Some x"
  obtains c t where "s = c # t" "is_digit c"
  | d t where "s = CHR ''-'' # d # t" "is_digit d"
proof -
  obtain p where "scan_int_part s = Some p"
    using assms by (auto simp: scan_number_def split: option.splits)
  moreover have "is_digit (CHR ''0'')" by (simp add: is_digit_def)
  ultimately show ?thesis using that
    by (cases s; cases "tl s") (auto simp: scan_int_part_def split: if_splits list.splits)
qed

lemma digit_not_letter [simp]:
  assumes "is_digit c"
  shows "c \<noteq> CHR ''n''" "c \<noteq> CHR ''t''" "c \<noteq> CHR ''f''" "c \<noteq> CHR ''N''" "c \<noteq> CHR ''I''"
    "c \<noteq> CHR ''-''" "c \<noteq> CHR 0x22" "c \<noteq> CHR ''[''" "c \<noteq> CHR ''{''" "c \<noteq> CHR '']''" "c \<noteq> CHR ''}''"
    "\<not> is_ws c"
  using assms by (auto simp: is_digit_def is_ws_def)

lemma scan_constant_number:
  assumes "scan_number s = Some x"
  shows "scan_constant (s @ r) = scan_number (s @ r)"
  using assms
  by (elim scan_number_start)
    (auto simp: scan_constant_def strip_word_def starts_with_def)

lemma scan_constant_words [simp]:
  "scan_constant (''null'' @ r) = Some (VNone, r)"
  "scan_constant (''true'' @ r) = Some (VBool True, r)"
  "scan_constant (''false'' @ r) = Some (VBool False, r)"
  by (simp_all add: scan_constant_def strip_word_def starts_with_def)

section \<open>Reading back what was written\<close>

text \<open>
  The values \<open>json.loads\<close> can produce: no tuples, sets or objects, distinct member names, and
  floats in their number syntax.
\<close>

fun json_ok :: "pyval \<Rightarrow> bool" where
  "json_ok VNone = True"
| "json_ok (VBool b) = True"
| "json_ok (VInt i) = True"
| "json_ok (VFloat t) = (scan_number t = Some (VFloat t, []))"
| "json_ok (VStr s) = True"
| "json_ok (VList vs) = (\<forall>v \<in> set vs. json_ok v)"
| "json_ok (VDict ms) = (distinct (map fst ms) \<and> (\<forall>(k, v) \<in> set ms. json_ok v))"
| "json_ok _ = False"

lemma json_ok_dumpable: "json_ok v \<Longrightarrow> dumpable v"
  by (induction v) auto

lemma dumps_json_ok [simp]: "json_ok v \<Longrightarrow> dumps v = Inr (json_text v)"
  by (simp add: dumps_def json_ok_dumpable)

lemma json_text_start:
  assumes "json_ok v"
  obtains c t where "json_text v = c # t" "\<not> is_ws c" "c \<noteq> CHR '']''" "c \<noteq> CHR ''}''"
proof (cases v)
  case (VInt i)
  from scan_number_int [of i] show ?thesis
    by (rule scan_number_start) (use VInt that in \<open>auto simp: is_ws_def [of "CHR ''-''"]\<close>)
next
  case (VFloat t)
  with assms have "scan_number t = Some (VFloat t, [])" by simp
  then show ?thesis
    by (rule scan_number_start) (use VFloat that in \<open>auto simp: is_ws_def [of "CHR ''-''"]\<close>)
next
  case (VBool b)
  then show ?thesis using that by (cases b) (auto simp: is_ws_def)
qed (use assms that in \<open>auto simp: json_string_def is_ws_def\<close>)

lemma skip_ws_skip [simp]: "\<not> is_ws c \<Longrightarrow> skip_ws (c # t) = c # t"
  by (simp add: skip_ws_def)

lemma skip_ws_space [simp]: "skip_ws (CHR '' '' # t) = skip_ws t"
  by (simp add: skip_ws_def is_ws_def)

lemma is_ws_delims [simp]:
  "\<not> is_ws (CHR '','')" "\<not> is_ws (CHR '']'')" "\<not> is_ws (CHR ''}'')" "\<not> is_ws (CHR '':'')"
  "\<not> is_ws (CHR 0x22)"
  by (simp_all add: is_ws_def)

lemma delim_Cons [simp]:
  "delim (CHR '','' # t)" "delim (CHR '']'' # t)" "delim (CHR ''}'' # t)" "delim []"
  by (simp_all add: delim_def)

abbreviation reads_back :: "pyval \<Rightarrow> bool" where
  "reads_back v \<equiv> \<forall>f r. length (json_text v) \<le> f \<longrightarrow> delim r \<longrightarrow>
     scan_value f (json_text v @ r) = Some (v, r)"

lemma scan_value_number:
  "is_digit c \<or> c = CHR ''-'' \<Longrightarrow> scan_value (Suc g) (c # t) = scan_constant (c # t)"
  by auto

lemma scan_elements_join:
  assumes "\<forall>v \<in> set vs. json_ok v \<and> reads_back v" "vs \<noteq> []"
    and "length (py_join '', '' (map json_text vs)) < f"
  shows "scan_elements f (py_join '', '' (map json_text vs) @ CHR '']'' # r) = Some (vs, r)"
  using assms
proof (induction vs arbitrary: f)
  case (Cons v vs)
  then obtain g where f: "f = Suc g" by (cases f) auto
  show ?case
  proof (cases vs)
    case Nil
    with Cons.prems f show ?thesis by simp
  next
    case (Cons w ws)
    obtain c t where w: "json_text w = c # t" "\<not> is_ws c"
      using Cons.prems Cons by (auto elim: json_text_start)
    have hd: "\<exists>u. py_join '', '' (map json_text vs) = c # u"
      using w \<open>vs = w # ws\<close> by (cases ws) auto
    have joined: "py_join '', '' (map json_text (v # vs))
        = json_text v @ '', '' @ py_join '', '' (map json_text vs)"
      using \<open>vs = w # ws\<close> by simp
    have "scan_value g (json_text v @ '', '' @ py_join '', '' (map json_text vs) @ CHR '']'' # r)
        = Some (v, '', '' @ py_join '', '' (map json_text vs) @ CHR '']'' # r)"
      using Cons.prems joined f by simp
    moreover have "scan_elements g (py_join '', '' (map json_text vs) @ CHR '']'' # r) = Some (vs, r)"
      using Cons.IH [of g] Cons.prems \<open>vs = w # ws\<close> joined f by simp
    ultimately show ?thesis unfolding joined using hd w by (auto simp: f)
  qed
qed simp

abbreviation member_text :: "string \<times> pyval \<Rightarrow> string" where
  "member_text \<equiv> \<lambda>(k, v). json_string k @ '': '' @ json_text v"

lemma scan_members_join:
  assumes "\<forall>(k, v) \<in> set ms. json_ok v \<and> reads_back v" "ms \<noteq> []"
    and "length (py_join '', '' (map member_text ms)) < f"
  shows "scan_members f (py_join '', '' (map member_text ms) @ CHR ''}'' # r) = Some (ms, r)"
  using assms
proof (induction ms arbitrary: f)
  case (Cons m ms)
  then obtain g where f: "f = Suc g" by (cases f) auto
  obtain k v where m: "m = (k, v)" by (cases m)
  from Cons.prems(1) m have v: "json_ok v" "reads_back v" by auto
  obtain c t where c: "json_text v = c # t" "\<not> is_ws c" using v(1) by (rule json_text_start)
  have key: "scan_string (concat (map escape_char k) @ CHR 0x22 # u) = Some (k, u)" for u
    by (rule scan_string_concat)
  show ?case
  proof (cases ms)
    case Nil
    have "scan_value g (json_text v @ CHR ''}'' # r) = Some (v, CHR ''}'' # r)"
      using Cons.prems(3) v f m Nil by (simp add: json_string_def)
    with Nil c key show ?thesis by (simp add: f m json_string_def)
  next
    case (Cons n ns)
    have hd: "\<exists>u. py_join '', '' (map member_text ms) = CHR 0x22 # u"
      using \<open>ms = n # ns\<close> by (cases ns) (auto simp: json_string_def split: prod.splits)
    have joined: "py_join '', '' (map member_text (m # ms))
        = json_string k @ '': '' @ json_text v @ '', '' @ py_join '', '' (map member_text ms)"
      using \<open>ms = n # ns\<close> m by simp
    have "scan_value g (json_text v @ '', '' @ py_join '', '' (map member_text ms) @ CHR ''}'' # r)
        = Some (v, '', '' @ py_join '', '' (map member_text ms) @ CHR ''}'' # r)"
      using Cons.prems(3) v joined f by (simp add: json_string_def)
    moreover have "scan_members g (py_join '', '' (map member_text ms) @ CHR ''}'' # r) = Some (ms, r)"
      using Cons.IH [of g] Cons.prems \<open>ms = n # ns\<close> joined f by simp
    ultimately show ?thesis unfolding joined using hd c key
      by (auto simp: f m json_string_def)
  qed
qed simp

lemma json_reads_back: "json_ok v \<Longrightarrow> reads_back v"
proof (induction v)
  case (VInt i)
  have "scan_value f (int_text i @ r) = Some (VInt i, r)"
    if "length (int_text i) \<le> f" "delim r" for f r
  proof -
    from that obtain g where f: "f = Suc g"
      using scan_number_int [of i] by (cases f) (auto simp: scan_number_def scan_int_part_def)
    have "scan_constant (int_text i @ r) = Some (VInt i, r)"
      using scan_constant_number [OF scan_number_int]
        scan_number_append [OF scan_number_int that(2)] by simp
    moreover obtain c t where "int_text i = c # t" "is_digit c \<or> c = CHR ''-''"
      using scan_number_int [of i] by (elim scan_number_start) auto
    ultimately show ?thesis by (simp add: f scan_value_number del: scan_value.simps)
  qed
  then show ?case by simp
next
  case (VFloat s)
  then have s: "scan_number s = Some (VFloat s, [])" by simp
  have "scan_value f (s @ r) = Some (VFloat s, r)" if "length s \<le> f" "delim r" for f r
  proof -
    obtain c t where c: "s = c # t" "is_digit c \<or> c = CHR ''-''"
      using s by (elim scan_number_start) auto
    with that obtain g where f: "f = Suc g" by (cases f) auto
    have "scan_constant (s @ r) = Some (VFloat s, r)"
      using scan_constant_number [OF s] scan_number_append [OF s that(2)] by simp
    with c show ?thesis by (simp add: f scan_value_number del: scan_value.simps)
  qed
  then show ?case by simp
next
  case (VList vs)
  have "scan_value f (json_text (VList vs) @ r) = Some (VList vs, r)"
    if le: "length (json_text (VList vs)) \<le> f" for f r
  proof (cases "vs = []")
    case True
    with le show ?thesis by (cases f) auto
  next
    case False
    then obtain v ws where vs: "vs = v # ws" by (cases vs) auto
    from le obtain g where f: "f = Suc g" by (cases f) auto
    obtain c t where c: "json_text v = c # t" "\<not> is_ws c" "c \<noteq> CHR '']''"
      using VList.prems vs by (auto elim: json_text_start)
    have hd: "\<exists>u. py_join '', '' (map json_text vs) = c # u"
      using c vs by (cases ws) auto
    have "scan_elements g (py_join '', '' (map json_text vs) @ CHR '']'' # r) = Some (vs, r)"
      using VList.IH VList.prems False le f by (intro scan_elements_join) auto
    with hd c show ?thesis by (auto simp: f)
  qed
  then show ?case by blast
next
  case (VDict ms)
  have "scan_value f (json_text (VDict ms) @ r) = Some (VDict ms, r)"
    if le: "length (json_text (VDict ms)) \<le> f" for f r
  proof (cases "ms = []")
    case True
    with le show ?thesis by (cases f) auto
  next
    case False
    then obtain m ns where ms: "ms = m # ns" by (cases ms) auto
    from le obtain g where f: "f = Suc g" by (cases f) auto
    have hd: "\<exists>u. py_join '', '' (map member_text ms) = CHR 0x22 # u"
      using ms by (cases ns) (auto simp: json_string_def split: prod.splits)
    have ok: "\<forall>(k, v) \<in> set ms. json_ok v \<and> reads_back v"
      using VDict.IH VDict.prems by fastforce
    have "scan_members g (py_join '', '' (map member_text ms) @ CHR ''}'' # r) = Some (ms, r)"
      using ok False le f by (intro scan_members_join) auto
    moreover have "dict_of ms = ms"
      using VDict.prems by (intro dict_of_ok) (simp add: dict_ok_def)
    ultimately show ?thesis using hd by (auto simp: f)
  qed
  then show ?case by blast
next
  case (VStr s)
  then show ?case
    by (auto simp: json_string_def scan_string_concat elim: less_SucE dest!: Suc_le_D)
next
  case VNone
  then show ?case using scan_constant_words(1) by (auto dest!: Suc_le_D)
next
  case (VBool b)
  then show ?case using scan_constant_words(2,3) by (cases b) (auto dest!: Suc_le_D)
qed simp_all

lemma loads_json_text: "json_ok v \<Longrightarrow> loads (json_text v) = Some v"
proof -
  assume v: "json_ok v"
  then obtain c t where c: "json_text v = c # t" "\<not> is_ws c" by (rule json_text_start)
  then have "skip_ws (json_text v) = json_text v" by simp
  moreover have "scan_value (Suc (length (json_text v))) (json_text v) = Some (v, [])"
    using json_reads_back [OF v, rule_format, of "Suc (length (json_text v))" "[]"]
    by (simp del: scan_value.simps)
  ultimately show ?thesis by (simp add: loads_def skip_ws_def)
qed

section \<open>The fuel is enough\<close>

lemma skip_ws_length: "length (skip_ws s) \<le> length s"
  by (simp add: skip_ws_def length_dropWhile_le)

lemma scan_string_length: "scan_string s = Some (r, t) \<Longrightarrow> length t < length s"
proof (induction "length s" arbitrary: s r t rule: less_induct)
  case less
  then obtain c u where s: "s = c # u" by (cases s) auto
  have IH: "scan_string w = Some (x, t) \<Longrightarrow> length w < length s \<Longrightarrow> length t < length w" for w x
    using less.hyps by blast
  from less.prems s show ?case
    by (auto simp: scan_string.simps(2) [of c u] dest!: IH
        split: if_splits list.splits option.splits)
qed

lemma scan_constant_length: "scan_constant s = Some (v, t) \<Longrightarrow> length t < length s"
proof -
  assume s: "scan_constant s = Some (v, t)"
  have drops: "length (dropWhile is_digit u) \<le> length u" for u
    by (rule length_dropWhile_le)
  have int_part: "scan_int_part s = Some (i, u) \<Longrightarrow> length u < length s" for i u
    using drops [of "tl s"] drops [of "tl (tl s)"] by (cases s; cases "tl s")
      (auto simp: scan_int_part_def le_imp_less_Suc less_Suc_eq_le split: if_splits)
  have frac: "length (snd (scan_frac u)) \<le> length u" for u
    using drops [of "tl u"] by (cases u; cases "tl u") (auto simp: scan_frac_def)
  have exp: "length (snd (scan_exp u)) \<le> length u" for u
    using drops [of "tl u"] drops [of "tl (tl u)"]
    by (cases u; cases "tl u") (auto simp: scan_exp_def)
  have "scan_number s = Some (v, t) \<Longrightarrow> length t < length s"
    using frac exp
    by (auto simp: scan_number_def case_prod_beta Let_def split: option.splits if_splits
        dest!: int_part) (meson le_less_trans le_trans)+
  moreover have "strip_word w s = Some u \<Longrightarrow> w \<noteq> [] \<Longrightarrow> length u < length s" for w u
    by (auto simp: strip_word_def starts_with_iff split: if_splits)
  ultimately show ?thesis using s
    by (auto simp: scan_constant_def split: option.splits)
qed

lemma scan_fuel:
  "(scan_value f s = Some (v, t) \<longrightarrow> length t < length s \<and>
      (\<forall>g. length s - length t \<le> g \<longrightarrow> scan_value g s = Some (v, t)))
 \<and> (scan_elements f s = Some (vs, t) \<longrightarrow> length t < length s \<and>
      (\<forall>g. length s - length t \<le> g \<longrightarrow> scan_elements g s = Some (vs, t)))
 \<and> (scan_members f s = Some (ms, t) \<longrightarrow> length t < length s \<and>
      (\<forall>g. length s - length t \<le> g \<longrightarrow> scan_members g s = Some (ms, t)))"
  (is "?V f s v t \<and> ?E f s vs t \<and> ?M f s ms t")
proof (induction f arbitrary: s v vs ms t)
  case (Suc f)
  have IHV: "scan_value f s = Some (v, t) \<Longrightarrow> length t < length s \<and>
      (\<forall>g. length s - length t \<le> g \<longrightarrow> scan_value g s = Some (v, t))" for s v t
    using Suc.IH by blast
  have IHE: "scan_elements f s = Some (vs, t) \<Longrightarrow> length t < length s \<and>
      (\<forall>g. length s - length t \<le> g \<longrightarrow> scan_elements g s = Some (vs, t))" for s vs t
    using Suc.IH by blast
  have IHM: "scan_members f s = Some (ms, t) \<Longrightarrow> length t < length s \<and>
      (\<forall>g. length s - length t \<le> g \<longrightarrow> scan_members g s = Some (ms, t))" for s ms t
    using Suc.IH by blast
  have "?V (Suc f) s v t"
  proof
    assume r: "scan_value (Suc f) s = Some (v, t)"
    then obtain c u where s: "s = c # u" by (cases s) auto
    note ws = skip_ws_length [of u]
    show "length t < length s \<and> (\<forall>g. length s - length t \<le> g \<longrightarrow> scan_value g s = Some (v, t))"
    proof (intro conjI allI impI)
      show lt: "length t < length s"
        using r s ws scan_constant_length [of s v t]
        by (auto split: if_splits list.splits dest!: IHE IHM scan_string_length)
      fix g assume g: "length s - length t \<le> g"
      with lt obtain h where h: "g = Suc h" by (cases g) auto
      show "scan_value g s = Some (v, t)"
        using r s ws g by (auto simp: h split: if_splits list.splits dest!: IHE IHM)
    qed
  qed
  moreover have "?E (Suc f) s vs t"
  proof
    assume r: "scan_elements (Suc f) s = Some (vs, t)"
    then obtain v u where u: "scan_value f s = Some (v, u)" by (auto split: option.splits)
    with r obtain c w where w: "skip_ws u = c # w" by (auto split: list.splits)
    note ws = skip_ws_length [of u] skip_ws_length [of w]
    note u' = IHV [OF u]
    show "length t < length s \<and> (\<forall>g. length s - length t \<le> g \<longrightarrow> scan_elements g s = Some (vs, t))"
    proof (intro conjI allI impI)
      show lt: "length t < length s"
        using r u w u' ws by (auto split: if_splits dest!: IHE)
      fix g assume g: "length s - length t \<le> g"
      with lt obtain h where h: "g = Suc h" by (cases g) auto
      have "length t \<le> length w"
        using r u w ws by (auto split: if_splits dest!: IHE)
      then have "scan_value h s = Some (v, u)" using u' g h ws w by auto
      then show "scan_elements g s = Some (vs, t)"
        using r u w ws g u' by (auto simp: h split: if_splits dest!: IHE)
    qed
  qed
  moreover have "?M (Suc f) s ms t"
  proof
    assume r: "scan_members (Suc f) s = Some (ms, t)"
    then obtain q s' where s: "s = q # s'" "q = CHR 0x22" by (auto split: list.splits if_splits)
    with r obtain k u where k: "scan_string s' = Some (k, u)" by (auto split: option.splits)
    with r s obtain w where w: "skip_ws u = CHR '':'' # w"
      by (auto split: list.splits if_splits)
    with r s k obtain v x where v: "scan_value f (skip_ws w) = Some (v, x)"
      by (auto split: option.splits)
    with r s k w obtain d y where y: "skip_ws x = d # y" by (auto split: list.splits)
    note ws = skip_ws_length [of u] skip_ws_length [of w] skip_ws_length [of x]
      skip_ws_length [of y] scan_string_length [OF k]
    note v' = IHV [OF v]
    show "length t < length s \<and> (\<forall>g. length s - length t \<le> g \<longrightarrow> scan_members g s = Some (ms, t))"
    proof (intro conjI allI impI)
      have ty: "length t \<le> length y"
        using r s k w v y ws by (auto split: if_splits dest!: IHM)
      with s w y v' ws show lt: "length t < length s" by auto
      fix g assume g: "length s - length t \<le> g"
      with lt obtain h where h: "g = Suc h" by (cases g) auto
      have "scan_value h (skip_ws w) = Some (v, x)" using v' g h ws w y ty s by auto
      then show "scan_members g s = Some (ms, t)"
        using r s k w v y ws g v' by (auto simp: h split: if_splits dest!: IHM)
    qed
  qed
  ultimately show ?case by blast
qed simp

text \<open>Whatever fuel reads a value from a text, the fuel \<open>loads\<close> uses reads the same.\<close>

lemma loads_fuel: "scan_value f s = Some x \<Longrightarrow> scan_value (Suc (length s)) s = Some x"
  using scan_fuel [of f s "fst x" "snd x"] by (cases x) (auto simp del: scan_value.simps)

end
