(* ===== verification/Results.thy ===== *)
theory Results
  imports JsonProps
begin

text \<open>
  \<open>benzene.results\<close>: the status vocabulary (\<open>status.py\<close>), structured errors, application-authored
  problem documents and \<open>Result\<close> (\<open>result.py\<close>), and the problem-type registry (\<open>problems.py\<close>).
\<close>

section \<open>The status vocabulary\<close>

definition SUCCESS_STATUSES :: "string list" where
  "SUCCESS_STATUSES = [''ok'', ''created'', ''accepted'', ''updated'', ''deleted'', ''ignored'']"

definition FAILURE_STATUSES :: "string list" where
  "FAILURE_STATUSES = [''bad-request'', ''validation-error'', ''unauthorized'', ''forbidden'',
     ''not-found'', ''conflict'', ''too-many-requests'', ''timeout'', ''not-implemented'',
     ''service-unavailable'', ''unexpected-error'']"

definition KNOWN_STATUSES :: "string list" where
  "KNOWN_STATUSES = SUCCESS_STATUSES @ FAILURE_STATUSES"

definition is_successful :: "string \<Rightarrow> bool" where
  "is_successful status = (status \<in> set SUCCESS_STATUSES)"

lemma success_not_failure [simp]: "set SUCCESS_STATUSES \<inter> set FAILURE_STATUSES = {}"
  by (simp add: SUCCESS_STATUSES_def FAILURE_STATUSES_def)

section \<open>Structured errors\<close>

record benzene_error =
  be_message :: string
  be_field :: "string option"
  be_code :: "string option"

text \<open>What a failure factory accepts: a message, a structured error, or a decoded mapping.\<close>

datatype error_like = ErrText string | ErrStruct benzene_error | ErrMap pydict

definition error_to_payload :: "benzene_error \<Rightarrow> pyval" where
  "error_to_payload e = VDict
     ([(''message'', VStr (be_message e))]
      @ (case be_field e of None \<Rightarrow> [] | Some f \<Rightarrow> [(''field'', VStr f)])
      @ (case be_code e of None \<Rightarrow> [] | Some c \<Rightarrow> [(''code'', VStr c)]))"

definition text_or_none :: "pyval \<Rightarrow> string option" where
  \<comment> \<open>\<open>None if v is None else str(v)\<close>\<close>
  "text_or_none v = (if v = VNone then None else Some (str_val v))"

fun coerce_error :: "error_like \<Rightarrow> benzene_error" where
  "coerce_error (ErrStruct e) = e"
| "coerce_error (ErrText s) = \<lparr>be_message = s, be_field = None, be_code = None\<rparr>"
| "coerce_error (ErrMap m) =
     \<lparr>be_message = (if vget m ''message'' = VNone then [] else str_val (vget m ''message'')),
      be_field = text_or_none (vget m ''field''),
      be_code = text_or_none (vget m ''code'')\<rparr>"

definition error_of_item :: "pyval \<Rightarrow> error_like" where
  \<comment> \<open>\<open>item if isinstance(item, (dict, str)) else str(item)\<close>\<close>
  "error_of_item item = (case item of VDict m \<Rightarrow> ErrMap m | VStr s \<Rightarrow> ErrText s
                                     | _ \<Rightarrow> ErrText (str_val item))"

definition problem_errors :: "pydict \<Rightarrow> benzene_error list" where
  "problem_errors document = (case vget document ''errors'' of
     VList items \<Rightarrow> filter (\<lambda>e. be_message e \<noteq> []) (map (coerce_error \<circ> error_of_item) items)
   | _ \<Rightarrow> (let detail = v_or (vget document ''detail'') (VStr [])
           in if truthy detail then [coerce_error (ErrText (str_val detail))] else []))"

definition problem_status :: "pydict \<Rightarrow> string option" where
  "problem_status document = (case vget document ''benzeneStatus'' of
     VStr s \<Rightarrow> if s = [] \<or> is_successful s then None else Some s
   | _ \<Rightarrow> None)"

section \<open>Problem documents\<close>

record problem_details =
  pd_benzene_status :: string
  pd_type :: "string option"
  pd_title :: "string option"
  pd_detail :: "string option"
  pd_instance :: "string option"
  pd_errors :: "benzene_error list"

definition opt_member :: "string \<Rightarrow> string option \<Rightarrow> pydict" where
  "opt_member name value = (case value of None \<Rightarrow> [] | Some v \<Rightarrow> [(name, VStr v)])"

definition problem_to_payload :: "problem_details \<Rightarrow> pydict" where
  "problem_to_payload p =
     opt_member ''type'' (pd_type p) @ opt_member ''title'' (pd_title p)
     @ opt_member ''detail'' (pd_detail p) @ opt_member ''instance'' (pd_instance p)
     @ [(''benzeneStatus'', VStr (pd_benzene_status p))]
     @ (if pd_errors p = [] then [] else [(''errors'', VList (map error_to_payload (pd_errors p)))])"

section \<open>Results\<close>

record result =
  res_status :: string
  res_payload :: pyval
  res_errors :: "benzene_error list"
  res_problem :: "problem_details option"
  res_successful :: "bool option"

text \<open>\<open>Result(...)\<close>: \<open>__post_init__\<close> coerces whatever was given as errors.\<close>

definition mk_result ::
  "string \<Rightarrow> pyval \<Rightarrow> error_like list \<Rightarrow> problem_details option \<Rightarrow> bool option \<Rightarrow> result" where
  "mk_result status payload errs problem succ =
     \<lparr>res_status = status, res_payload = payload, res_errors = map coerce_error errs,
      res_problem = problem, res_successful = succ\<rparr>"

definition result_is_successful :: "result \<Rightarrow> bool" where
  "result_is_successful r = (case res_successful r of
     Some b \<Rightarrow> b
   | None \<Rightarrow> is_successful (res_status r))"

definition messages :: "result \<Rightarrow> string list" where
  "messages r = map be_message (res_errors r)"

definition ok :: "pyval \<Rightarrow> result" where "ok p = mk_result ''ok'' p [] None None"
definition created :: "pyval \<Rightarrow> result" where "created p = mk_result ''created'' p [] None None"
definition accepted :: "pyval \<Rightarrow> result" where "accepted p = mk_result ''accepted'' p [] None None"
definition updated :: "pyval \<Rightarrow> result" where "updated p = mk_result ''updated'' p [] None None"
definition deleted :: "pyval \<Rightarrow> result" where "deleted p = mk_result ''deleted'' p [] None None"
definition ignored :: "pyval \<Rightarrow> result" where "ignored p = mk_result ''ignored'' p [] None None"

definition bool_text :: "bool \<Rightarrow> string" where
  "bool_text b = (if b then ''True'' else ''False'')"

definition set_result :: "string \<Rightarrow> pyval \<Rightarrow> bool option \<Rightarrow> result outcome" where
  "set_result status payload succ = (case succ of
     Some b \<Rightarrow> if status \<in> set KNOWN_STATUSES \<and> b \<noteq> is_successful status
       then Inl (PyException ''ValueError''
         (repr_str status @ '' is '' @ (if is_successful status then ''a success'' else ''a failure'')
          @ '' status, so its isSuccessful is '' @ bool_text (is_successful status)
          @ '' - Result.set(..., successful='' @ bool_text b @ '') would put a contradiction on the wire ''
          @ ''(wire-contracts.md 1.2). Use an application-defined status for an outcome the ''
          @ ''vocabulary does not describe, or drop successful= and keep the status'' @ [CHR 0x27]
          @ ''s class.''))
       else Inr (mk_result status payload [] None succ)
   | None \<Rightarrow> Inr (mk_result status payload [] None succ))"

definition failure :: "string \<Rightarrow> error_like list \<Rightarrow> result" where
  "failure status errs = mk_result status VNone (map (ErrStruct \<circ> coerce_error) errs) None None"

definition problem :: "problem_details \<Rightarrow> result outcome" where
  "problem document =
     (if pd_benzene_status document = [] then
        Inl (PyException ''ValueError'' (''ProblemDetails.benzene_status is required - a problem ''
          @ ''document with no status cannot be classified by anything downstream''))
      else if is_successful (pd_benzene_status document) then
        Inl (PyException ''ValueError'' (''ProblemDetails.benzene_status ''
          @ repr_str (pd_benzene_status document) @ '' is a success status, but a problem document ''
          @ ''is a failure'' @ [CHR 0x27] @ ''s body - use a failure status''))
      else Inr (mk_result (pd_benzene_status document) VNone
        (map ErrStruct (pd_errors document)) (Some document) (Some False)))"

definition bad_request where "bad_request = failure ''bad-request''"
definition validation_error where "validation_error = failure ''validation-error''"
definition unauthorized where "unauthorized = failure ''unauthorized''"
definition forbidden where "forbidden = failure ''forbidden''"
definition not_found where "not_found = failure ''not-found''"
definition conflict where "conflict = failure ''conflict''"
definition too_many_requests where "too_many_requests = failure ''too-many-requests''"
definition timeout where "timeout = failure ''timeout''"
definition not_implemented where "not_implemented = failure ''not-implemented''"
definition service_unavailable where "service_unavailable = failure ''service-unavailable''"
definition unexpected_error where "unexpected_error = failure ''unexpected-error''"

definition result_with_errors :: "string \<Rightarrow> error_like list \<Rightarrow> result" where
  "result_with_errors status errs = mk_result status VNone (map (ErrStruct \<circ> coerce_error) errs) None None"

lemmas success_factories = ok_def created_def accepted_def updated_def deleted_def ignored_def
lemmas failure_factories = bad_request_def validation_error_def unauthorized_def forbidden_def
  not_found_def conflict_def too_many_requests_def timeout_def not_implemented_def
  service_unavailable_def unexpected_error_def

section \<open>The problem-type registry\<close>

definition PROBLEM_REGISTRY :: "(string, string \<times> string \<times> int) dict" where
  "PROBLEM_REGISTRY =
     [(''bad-request'', ''bad-request'', ''Bad request'', 400),
      (''unauthorized'', ''unauthorized'', ''Unauthorized'', 401),
      (''forbidden'', ''forbidden'', ''Forbidden'', 403),
      (''not-found'', ''not-found'', ''Not found'', 404),
      (''conflict'', ''conflict'', ''Conflict'', 409),
      (''validation-error'', ''validation-error'', ''Validation failed'', 422),
      (''too-many-requests'', ''too-many-requests'', ''Too many requests'', 429),
      (''unexpected-error'', ''unexpected-error'', ''Unexpected error'', 500),
      (''not-implemented'', ''not-implemented'', ''Not implemented'', 501),
      (''service-unavailable'', ''service-unavailable'', ''Service unavailable'', 503),
      (''timeout'', ''timeout'', ''Timeout'', 504)]"

definition problem_type :: "string \<Rightarrow> string option" where
  "problem_type status = map_option (\<lambda>row. ''https://benzene.app/problems/'' @ fst row)
     (map_of PROBLEM_REGISTRY status)"

definition problem_title :: "string \<Rightarrow> string option" where
  "problem_title status = map_option (fst \<circ> snd) (map_of PROBLEM_REGISTRY status)"

definition problem_http_status :: "string \<Rightarrow> int" where
  "problem_http_status status = (case map_of PROBLEM_REGISTRY status of
     Some row \<Rightarrow> snd (snd row) | None \<Rightarrow> 500)"

section \<open>Facts\<close>

lemma result_fields [simp]:
  "res_status (mk_result s p es d b) = s" "res_payload (mk_result s p es d b) = p"
  "res_errors (mk_result s p es d b) = map coerce_error es"
  "res_problem (mk_result s p es d b) = d" "res_successful (mk_result s p es d b) = b"
  by (simp_all add: mk_result_def)

lemma failure_fields [simp]:
  "res_status (failure s es) = s" "res_payload (failure s es) = VNone"
  "res_errors (failure s es) = map coerce_error es" "res_problem (failure s es) = None"
  "res_successful (failure s es) = None"
  by (simp_all add: failure_def)

lemma failure_is_successful [simp]: "result_is_successful (failure s es) = is_successful s"
  by (simp add: result_is_successful_def)

lemma vget_simps [simp]:
  "vget ((k, v) # d) k' = (if k = k' then v else vget d k')" "vget [] k = VNone"
  by (simp_all add: vget_def)

lemma vget_append: "vget (d @ e) k = (if k \<in> fst ` set d then vget d k else vget e k)"
proof (cases "map_of d k")
  case None
  then have "k \<notin> fst ` set d" by (simp add: map_of_eq_None_iff)
  with None show ?thesis by (simp add: vget_def map_add_def)
next
  case (Some v)
  then have "k \<in> fst ` set d" by (metis map_of_eq_None_iff option.distinct(1))
  with Some show ?thesis by (simp add: vget_def map_add_def)
qed

lemma is_successful_simps [simp]:
  "is_successful ''ok''" "is_successful ''ignored''" "is_successful ''accepted''"
  "\<not> is_successful ''unexpected-error''" "\<not> is_successful ''service-unavailable''"
  "\<not> is_successful ''too-many-requests''" "\<not> is_successful ''not-found''"
  "\<not> is_successful ''bad-request''" "\<not> is_successful ''validation-error''"
  "\<not> is_successful ''not-implemented''" "\<not> is_successful ''timeout''" "\<not> is_successful ''unauthorized''"
  "\<not> is_successful []"
  by (simp_all add: is_successful_def SUCCESS_STATUSES_def)

lemma ok_fields [simp]:
  "res_status (ok p) = ''ok''" "res_payload (ok p) = p" "res_errors (ok p) = []"
  "res_problem (ok p) = None" "res_successful (ok p) = None" "result_is_successful (ok p)"
  by (simp_all add: ok_def result_is_successful_def)

text \<open>A structured error survives being written and read back.\<close>

lemma coerce_error_payload [simp]: "coerce_error (error_of_item (error_to_payload e)) = e"
  by (cases e) (auto simp: error_to_payload_def error_of_item_def text_or_none_def
      split: option.splits)

lemma problem_errors_payload:
  assumes "vget d ''errors'' = VList (map error_to_payload es)" "\<forall>e \<in> set es. be_message e \<noteq> []"
  shows "problem_errors d = es"
  using assms by (simp add: problem_errors_def comp_def filter_id_conv)

lemma json_ok_error [simp]: "json_ok (error_to_payload e)"
  by (auto simp: error_to_payload_def split: option.splits)

text \<open>
  A result's stated classification never contradicts a vocabulary status
  (\<open>wire-contracts.md\<close> 1.2), the invariant every factory keeps.
\<close>

definition consistent :: "result \<Rightarrow> bool" where
  "consistent r \<longleftrightarrow> (res_status r \<in> set KNOWN_STATUSES \<longrightarrow>
     result_is_successful r = is_successful (res_status r))"

lemma consistent_derived [intro]: "res_successful r = None \<Longrightarrow> consistent r"
  by (simp add: consistent_def result_is_successful_def)

text \<open>
  C14. Every way the package builds a result keeps its success flag in agreement with the
  status vocabulary: \<open>Result.set\<close> and \<open>Result.problem\<close> raise rather than return a result
  whose status is in the vocabulary and whose \<open>isSuccessful\<close> contradicts its class.
\<close>

theorem factories_consistent:
  "(\<forall>status payload succ r. set_result status payload succ = Inr r \<longrightarrow> consistent r) \<and>
   (\<forall>document r. problem document = Inr r \<longrightarrow> consistent r \<and> \<not> result_is_successful r) \<and>
   (\<forall>status es. consistent (failure status es)) \<and>
   (\<forall>p. result_is_successful (ok p) \<and> result_is_successful (created p) \<and>
        result_is_successful (accepted p) \<and> result_is_successful (updated p) \<and>
        result_is_successful (deleted p) \<and> result_is_successful (ignored p))"
proof (intro conjI allI impI)
  fix status payload succ r
  assume "set_result status payload succ = Inr r"
  then show "consistent r"
    by (auto simp: set_result_def consistent_def result_is_successful_def
        split: option.splits if_splits)
next
  fix document r
  assume "problem document = Inr r"
  then show "consistent r" "\<not> result_is_successful r"
    by (auto simp: problem_def consistent_def result_is_successful_def split: if_splits)
qed (auto simp: success_factories result_is_successful_def is_successful_def SUCCESS_STATUSES_def)

theorem factories_consistent_witness:
  "consistent (mk_result ''cache-warm'' VNone [] None (Some True))"
proof -
  have "set_result ''cache-warm'' VNone (Some True) = Inr (mk_result ''cache-warm'' VNone [] None (Some True))"
    by (simp add: set_result_def KNOWN_STATUSES_def SUCCESS_STATUSES_def FAILURE_STATUSES_def)
  then show ?thesis using factories_consistent by blast
qed

text \<open>
  The problem-type registry is exactly the failure half of the vocabulary: a status has a
  registry \<open>type\<close> URI if and only if it is one of the framework's failure statuses, the URI is
  distinct for distinct statuses, and \<open>title\<close> is present exactly when \<open>type\<close> is.
\<close>

lemma problem_registry_is_failure_vocabulary:
  "(problem_type s \<noteq> None) = (s \<in> set FAILURE_STATUSES) \<and>
   (problem_title s \<noteq> None) = (problem_type s \<noteq> None) \<and>
   (problem_type s = problem_type t \<and> problem_type s \<noteq> None) = (s = t \<and> s \<in> set FAILURE_STATUSES)"
proof -
  have rows: "map_of PROBLEM_REGISTRY s = Some r \<Longrightarrow> fst r = s" for s r
    by (auto simp: PROBLEM_REGISTRY_def split: if_splits)
  have dom: "map_of PROBLEM_REGISTRY s \<noteq> None \<longleftrightarrow> s \<in> set FAILURE_STATUSES" for s
    by (simp add: map_of_eq_None_iff PROBLEM_REGISTRY_def FAILURE_STATUSES_def)
  show ?thesis
    using dom [of s] dom [of t] rows [of s] rows [of t]
    by (cases "map_of PROBLEM_REGISTRY s"; cases "map_of PROBLEM_REGISTRY t")
      (auto simp: problem_type_def problem_title_def)
qed

end
