(* ===== verification/PayloadMapping.thy ===== *)
theory PayloadMapping
  imports Results
begin

text \<open>
  \<open>benzene.core.mapping\<close>: the naming policy of payloads on the wire. Fields of a dataclass are
  written in camelCase and read back case- and separator-insensitively.

  Classes are described by \<open>py_type\<close>; the constructor of a class that is neither a builtin nor
  a dataclass is application code and a parameter of \<open>to_request\<close>. The universe of values has
  no \<open>Decimal\<close>, so that branch of \<open>to_jsonable\<close> is left out.
\<close>

section \<open>Names\<close>

fun capitalise :: "string \<Rightarrow> string" where
  "capitalise [] = []"
| "capitalise (c # s) = py_upper [c] @ s"

definition to_camel :: "string \<Rightarrow> string" where
  "to_camel name = (case py_split (CHR ''_'') name of
     h # tail \<Rightarrow> h @ concat (map capitalise tail)
   | [] \<Rightarrow> [])"

definition normalize_name :: "string \<Rightarrow> string" where
  "normalize_name name = py_lower (filter (\<lambda>c. c \<noteq> CHR ''_'') name)"

section \<open>Types and instances\<close>

datatype py_type =
    TBuiltin string
  | TDataclass string "(string \<times> pyval option) list" \<comment> \<open>class name; fields with their defaults\<close>
  | TClass string

fun type_name :: "py_type \<Rightarrow> string" where
  "type_name (TBuiltin n) = n"
| "type_name (TDataclass n _) = n"
| "type_name (TClass n) = n"

fun isinstance_of :: "pyval \<Rightarrow> py_type \<Rightarrow> bool" where
  "isinstance_of v (TBuiltin n) = (case v of
     VDict _ \<Rightarrow> n = ''dict'' | VList _ \<Rightarrow> n = ''list'' | VTuple _ \<Rightarrow> n = ''tuple''
   | VSet _ \<Rightarrow> n = ''set'' | VStr _ \<Rightarrow> n = ''str'' | VFloat _ \<Rightarrow> n = ''float''
   | VInt _ \<Rightarrow> n = ''int'' | VBool _ \<Rightarrow> n = ''bool'' \<or> n = ''int''
   | VBytes _ \<Rightarrow> n = ''bytes'' | VNone \<Rightarrow> n = ''NoneType'' | _ \<Rightarrow> False)"
| "isinstance_of v (TDataclass n _) = (case v of VData m _ \<Rightarrow> m = n | _ \<Rightarrow> False)"
| "isinstance_of v (TClass n) = (case v of
     VData m _ \<Rightarrow> m = n | VModel m _ \<Rightarrow> m = n | VOpaque m \<Rightarrow> m = n | _ \<Rightarrow> False)"

text \<open>\<open>Cls(**kwargs)\<close> for a dataclass: every field without a default is required.\<close>

fun and_list :: "string list \<Rightarrow> string" where
  "and_list [] = []"
| "and_list [a] = a"
| "and_list [a, b] = a @ '' and '' @ b"
| "and_list (a # b # c # ss) = py_join '', '' (butlast (a # b # c # ss)) @ '', and '' @ last (c # ss)"

definition missing_fields :: "(string \<times> pyval option) list \<Rightarrow> pydict \<Rightarrow> string list" where
  "missing_fields fs kwargs =
     map fst (filter (\<lambda>(f, d). d = None \<and> map_of kwargs f = None) fs)"

definition dataclass_new ::
  "string \<Rightarrow> (string \<times> pyval option) list \<Rightarrow> pydict \<Rightarrow> pyval outcome" where
  "dataclass_new n fs kwargs =
     (let missing = missing_fields fs kwargs
      in if missing \<noteq> [] then
           Inl (PyException ''TypeError'' (n @ ''.__init__() missing '' @ nat_text (length missing)
             @ '' required positional argument'' @ (if length missing = 1 then [] else ''s'') @ '': ''
             @ and_list (map repr_str missing)))
         else Inr (VData n (map (\<lambda>(f, d). (f, case map_of kwargs f of
                Some v \<Rightarrow> v | None \<Rightarrow> (case d of Some x \<Rightarrow> x | None \<Rightarrow> VNone))) fs)))"

section \<open>Reading a request\<close>

text \<open>
  \<open>ctor T kwargs\<close> stands for \<open>T(**data)\<close> and \<open>ctor1 T data\<close> for \<open>T(data)\<close> of a class
  that is not a dataclass.
\<close>

definition to_request ::
  "(py_type \<Rightarrow> pydict \<Rightarrow> pyval outcome) \<Rightarrow> (py_type \<Rightarrow> pyval \<Rightarrow> pyval outcome) \<Rightarrow>
   py_type option \<Rightarrow> pyval \<Rightarrow> pyval outcome" where
  "to_request ctor ctor1 request_type data = (case request_type of
     None \<Rightarrow> Inr data
   | Some T \<Rightarrow>
       if isinstance_of data T then Inr data
       else (case (T, data) of
         (TDataclass n fs, VDict d) \<Rightarrow>
           (let by_norm = dict_of (map (\<lambda>(k, v). (normalize_name k, v)) d);
                kwargs = concat (map (\<lambda>(f, _). case map_of by_norm (normalize_name f) of
                  None \<Rightarrow> [] | Some v \<Rightarrow> [(f, v)]) fs)
            in dataclass_new n fs kwargs)
       | (_, VDict d) \<Rightarrow>
           (case ctor T d of
              Inl e \<Rightarrow> if exn_class e = ''TypeError'' \<and> catchable e then ctor1 T data else Inl e
            | Inr v \<Rightarrow> Inr v)
       | _ \<Rightarrow> Inr data))"

section \<open>Writing a payload\<close>

definition pad6 :: "nat \<Rightarrow> string" where
  "pad6 n = (let t = nat_text n in replicate (6 - length t) (CHR ''0'') @ t)"

definition rstrip_zeros :: "string \<Rightarrow> string" where
  "rstrip_zeros s = rev (dropWhile (\<lambda>c. c = CHR ''0'') (rev s))"

definition iso_duration :: "int \<Rightarrow> int \<Rightarrow> int \<Rightarrow> string" where
  "iso_duration days seconds microseconds =
     (let total = (days * 86400 + seconds) * 1000000 + microseconds;
          sign = (if total < 0 then ''-'' else []);
          u0 = \<bar>total\<bar>;
          d = u0 div 86400000000; u1 = u0 mod 86400000000;
          h = u1 div 3600000000; u2 = u1 mod 3600000000;
          m = u2 div 60000000; u3 = u2 mod 60000000;
          s = u3 div 1000000; u4 = u3 mod 1000000;
          clock = (if h \<noteq> 0 then int_text h @ ''H'' else []) @ (if m \<noteq> 0 then int_text m @ ''M'' else []);
          clock' = (if u4 \<noteq> 0 then clock @ rstrip_zeros (int_text s @ ''.'' @ pad6 (nat u4)) @ ''S''
                    else if s \<noteq> 0 \<or> \<not> (d \<noteq> 0 \<or> clock \<noteq> []) then clock @ int_text s @ ''S''
                    else clock)
      in sign @ ''P'' @ (if d \<noteq> 0 then int_text d @ ''D'' else [])
         @ (if clock' \<noteq> [] then ''T'' @ clock' else []))"

text \<open>\<open>base64.b64encode\<close>\<close>

definition b64_char :: "nat \<Rightarrow> char" where
  "b64_char i = (''ABCDEFGHIJKLMNOPQRSTUVWXYZabcdefghijklmnopqrstuvwxyz0123456789+/'') ! (i mod 64)"

fun b64encode :: "string \<Rightarrow> string" where
  "b64encode [] = []"
| "b64encode [a] = (let n = of_char a * 16 :: nat in [b64_char (n div 64), b64_char n] @ ''=='')"
| "b64encode [a, b] = (let n = (of_char a * 256 + of_char b) * 4 :: nat
     in [b64_char (n div 4096), b64_char (n div 64), b64_char n] @ ''='')"
| "b64encode (a # b # c # s) = (let n = (of_char a * 256 + of_char b) * 256 + of_char c :: nat
     in [b64_char (n div 262144), b64_char (n div 4096), b64_char (n div 64), b64_char n]
        @ b64encode s)"

fun to_jsonable :: "pyval \<Rightarrow> pyval" where
  "to_jsonable VNone = VNone"
| "to_jsonable (VData c fs) = VDict (dict_of (map (\<lambda>(f, v). (to_camel f, to_jsonable v)) fs))"
| "to_jsonable (VList vs) = VList (map to_jsonable vs)"
| "to_jsonable (VTuple vs) = VList (map to_jsonable vs)"
| "to_jsonable (VDict ms) = VDict (map (\<lambda>(k, v). (k, to_jsonable v)) ms)"
| "to_jsonable (VDateTime t offset) =
     VStr (t @ (case offset of None \<Rightarrow> ''+00:00'' | Some z \<Rightarrow> z))"
| "to_jsonable (VDate t) = VStr t"
| "to_jsonable (VTimedelta d s m) = VStr (iso_duration d s m)"
| "to_jsonable (VUuid t) = VStr t"
| "to_jsonable (VPath t) = VStr t"
| "to_jsonable (VBytes b) = VStr (b64encode b)"
| "to_jsonable (VModel c dump) = to_jsonable dump"
| "to_jsonable (VSet vs) = VList (map to_jsonable vs)"
| "to_jsonable v = v"

definition encode_body :: "pyval \<Rightarrow> string outcome" where
  "encode_body payload = (case payload of VStr s \<Rightarrow> Inr s | _ \<Rightarrow> dumps (to_jsonable payload))"

section \<open>Facts\<close>

definition ascii :: "string \<Rightarrow> bool" where
  "ascii s \<longleftrightarrow> (\<forall>c \<in> set s. (of_char c :: nat) < 128)"

lemma lower_upper_char:
  assumes "(of_char c :: nat) < 128"
  shows "py_lower (upper_char c) = [lower_char c]"
proof (cases "97 \<le> (of_char c :: nat) \<and> (of_char c :: nat) \<le> 122")
  case True
  define n where "n = (of_char c :: nat)"
  have n: "97 \<le> n" "n \<le> 122" using True by (simp_all add: n_def)
  then have oc: "(of_char (char_of (n - 32) :: char) :: nat) = n - 32" by simp
  have "65 \<le> n - 32" "n - 32 \<le> 90" using n by simp_all
  then have up: "is_upper_char (char_of (n - 32))"
    unfolding is_upper_char_def oc by (simp add: Let_def)
  have "lower_char (char_of (n - 32)) = char_of n"
    using n up oc by (simp add: lower_char_def)
  moreover have "char_of n = c" by (simp add: n_def)
  moreover have "lower_char c = c" using n by (auto simp: lower_char_def is_upper_char_def n_def)
  ultimately show ?thesis using n by (simp add: upper_char_def py_lower_def n_def [symmetric])
next
  case False
  with assms show ?thesis by (auto simp: upper_char_def py_lower_def Let_def)
qed

lemma underscore_lower [simp]: "lower_char (CHR ''_'') = CHR ''_''"
  by (simp add: lower_char_def is_upper_char_def)

lemma lower_capitalise: "ascii s \<Longrightarrow> py_lower (capitalise s) = py_lower s"
  by (cases s) (auto simp: ascii_def py_lower_def py_upper_def
      lower_upper_char [unfolded py_lower_def])

lemma capitalise_no_underscore:
  assumes "CHR ''_'' \<notin> set s" "ascii s"
  shows "CHR ''_'' \<notin> set (capitalise s)"
proof
  assume "CHR ''_'' \<in> set (capitalise s)"
  then have "lower_char (CHR ''_'') \<in> set (py_lower (capitalise s))"
    unfolding py_lower_def set_map by (rule imageI)
  then have "CHR ''_'' \<in> set (py_lower s)" using lower_capitalise [OF assms(2)] by simp
  then obtain c where c: "c \<in> set s" "lower_char c = CHR ''_''" by (auto simp: py_lower_def)
  have "c = CHR ''_''"
  proof (cases "is_upper_char c")
    case True
    then have "(of_char c :: nat) + 32 = 95 \<or> (of_char c :: nat) \<ge> 192"
      using arg_cong [OF c(2), of "of_char :: char \<Rightarrow> nat"]
      by (auto simp: lower_char_def is_upper_char_def Let_def split: if_splits)
    moreover have "(of_char c :: nat) < 128" using c(1) assms(2) by (simp add: ascii_def)
    ultimately show ?thesis using True by (auto simp: is_upper_char_def Let_def)
  qed (use c(2) in \<open>simp add: lower_char_def\<close>)
  with c(1) assms(1) show False by simp
qed

lemma concat_split: "concat (py_split d s) = filter (\<lambda>c. c \<noteq> d) s"
proof (induction s)
  case (Cons c s)
  then show ?case by (cases "py_split d s") auto
qed simp

lemma split_chars: "p \<in> set (py_split d s) \<Longrightarrow> set p \<subseteq> set s"
proof -
  assume "p \<in> set (py_split d s)"
  then have "set p \<subseteq> set (concat (py_split d s))" by auto
  then show ?thesis by (auto simp: concat_split)
qed

text \<open>Folding the camelCase name and folding the original name agree.\<close>

lemma normalize_to_camel:
  assumes "ascii n"
  shows "normalize_name (to_camel n) = normalize_name n"
proof -
  obtain h ps where s: "py_split (CHR ''_'') n = h # ps"
    by (cases "py_split (CHR ''_'') n") auto
  have parts: "ascii p" "CHR ''_'' \<notin> set p" if "p \<in> set (h # ps)" for p
    using that s split_chars [of p "CHR ''_''" n] py_split_parts [of p "CHR ''_''" n] assms
    by (auto simp: ascii_def)
  have "CHR ''_'' \<notin> set (h @ concat (map capitalise ps))"
    using parts capitalise_no_underscore by auto
  then have "filter (\<lambda>c. c \<noteq> CHR ''_'') (h @ concat (map capitalise ps)) = h @ concat (map capitalise ps)"
    by (intro filter_True) auto
  then have "normalize_name (to_camel n) = py_lower (h @ concat (map capitalise ps))"
    by (simp add: normalize_name_def to_camel_def s del: filter_append)
  also have "\<dots> = py_lower h @ concat (map (py_lower \<circ> capitalise) ps)"
    by (simp add: py_lower_def map_concat comp_def)
  also have "\<dots> = py_lower (concat (h # ps))"
    using parts by (simp add: py_lower_def map_concat lower_capitalise [unfolded py_lower_def]
        cong: map_cong)
  also have "\<dots> = normalize_name n"
    by (simp add: normalize_name_def concat_split [symmetric] s)
  finally show ?thesis .
qed

lemma set_dict_set: "set (dict_set k v d) \<subseteq> insert (k, v) (set d)"
  by (induction d) auto

lemma set_dict_of: "set (dict_of ps) \<subseteq> set ps"
proof -
  have "set (fold (\<lambda>(k, v) d. dict_set k v d) ps d) \<subseteq> set ps \<union> set d" for d
  proof (induction ps arbitrary: d)
    case (Cons p ps)
    then show ?case using Cons [of "dict_set (fst p) (snd p) d"] set_dict_set [of "fst p" "snd p" d]
      by (auto simp: case_prod_beta)
  qed simp
  from this [of "[]"] show ?thesis by (simp add: dict_of_def)
qed

text \<open>A payload has a JSON form unless some object in it has none of the forms above.\<close>

fun serializable :: "pyval \<Rightarrow> bool" where
  "serializable (VList vs) = (\<forall>v \<in> set vs. serializable v)"
| "serializable (VTuple vs) = (\<forall>v \<in> set vs. serializable v)"
| "serializable (VSet vs) = (\<forall>v \<in> set vs. serializable v)"
| "serializable (VDict ms) = (\<forall>(k, v) \<in> set ms. serializable v)"
| "serializable (VData c ms) = (\<forall>(k, v) \<in> set ms. serializable v)"
| "serializable (VModel c v) = serializable v"
| "serializable (VOpaque c) = False"
| "serializable _ = True"

lemma to_jsonable_dumpable: "serializable v \<Longrightarrow> dumpable (to_jsonable v)"
proof (induction v)
  case (VData c fs)
  then show ?case
    using set_dict_of [of "map (\<lambda>(f, v). (to_camel f, to_jsonable v)) fs"] by fastforce
qed auto

lemma dumps_opaque: "dumps (to_jsonable (VOpaque c)) = Inl e \<Longrightarrow> exn_class e = ''TypeError''"
  by (auto simp: dumps_def)

text \<open>Looking a folded field name up in the folded wire members.\<close>

lemma folded_lookup:
  assumes "distinct (map (normalize_name \<circ> fst) vals)" "(f, v) \<in> set vals"
  shows "map_of (map (\<lambda>(f, v). (normalize_name f, g v)) vals) (normalize_name f) = Some (g v)"
  using assms by (intro map_of_is_SomeI) (force simp: comp_def case_prod_beta)+

text \<open>A constructor call that passes every field builds the instance with those values.\<close>

lemma dataclass_new_all:
  assumes names: "map fst fs = map fst vals" and dist: "distinct (map fst vals)"
  shows "dataclass_new cls fs vals = Inr (VData cls vals)"
proof -
  let ?arg = "\<lambda>(f, d). (f, case map_of vals f of Some v \<Rightarrow> v
      | None \<Rightarrow> (case d of Some x \<Rightarrow> x | None \<Rightarrow> VNone))"
  have len: "length fs = length vals" using arg_cong [OF names, of length] by simp
  have at: "map_of vals (fst (vals ! i)) = Some (snd (vals ! i))" "fst (fs ! i) = fst (vals ! i)"
    if "i < length fs" for i
  proof -
    show "fst (fs ! i) = fst (vals ! i)" using that len by (metis names nth_map)
    show "map_of vals (fst (vals ! i)) = Some (snd (vals ! i))"
      using that len dist by (intro map_of_is_SomeI) (simp_all add: nth_mem)
  qed
  have "map_of vals f \<noteq> None" if "(f, d) \<in> set fs" for f d
    using that at by (fastforce simp: in_set_conv_nth)
  then have "missing_fields fs vals = []" by (force simp: missing_fields_def filter_empty_conv)
  moreover have "map ?arg fs = vals"
    using len at by (intro nth_equalityI) (simp_all add: case_prod_beta)
  ultimately show ?thesis by (simp add: dataclass_new_def)
qed

text \<open>
  C12. The wire naming policy is lossless: a dataclass instance written with camelCase member
  names is read back into the same class with every field holding the wire form of its value,
  whatever defaults the class declares, provided the class's ASCII field names stay distinct
  when case and underscores are folded away.
\<close>

theorem wire_names_round_trip:
  assumes names: "map fst fs = map fst vals" "\<forall>(f, v) \<in> set vals. ascii f"
    and dist: "distinct (map (normalize_name \<circ> fst) vals)"
  shows "to_request ctor ctor1 (Some (TDataclass cls fs)) (to_jsonable (VData cls vals))
         = Inr (VData cls (map (\<lambda>(f, v). (f, to_jsonable v)) vals))"
proof -
  let ?wire = "map (\<lambda>(f, v). (to_camel f, to_jsonable v)) vals"
  let ?fold = "map (\<lambda>(f, v). (normalize_name f, to_jsonable v)) vals"
  let ?out = "map (\<lambda>(f, v). (f, to_jsonable v)) vals"
  have camel: "normalize_name (to_camel f) = normalize_name f" if "(f, v) \<in> set vals" for f v
    using names(2) that normalize_to_camel by auto
  have folded: "map (\<lambda>(k, v). (normalize_name k, v)) ?wire = ?fold" using camel by auto
  have "map normalize_name (map fst ?wire) = map (normalize_name \<circ> fst) vals"
    using camel by auto
  then have "distinct (map normalize_name (map fst ?wire))" using dist by metis
  then have "distinct (map fst ?wire)" by (simp add: distinct_map del: map_map)
  then have wire: "to_jsonable (VData cls vals) = VDict ?wire"
    by (simp add: dict_of_ok dict_ok_def del: map_map)
  have "dict_ok ?fold" using dist by (simp add: dict_ok_def comp_def case_prod_beta)
  then have fold: "dict_of ?fold = ?fold" by (rule dict_of_ok)
  have "concat (map (\<lambda>(f, _). case map_of ?fold (normalize_name f) of None \<Rightarrow> []
        | Some v \<Rightarrow> [(f, v)]) fs) = concat (map (\<lambda>f. case map_of ?fold (normalize_name f) of
        None \<Rightarrow> [] | Some v \<Rightarrow> [(f, v)]) (map fst vals))"
    unfolding names(1) [symmetric] map_map by (intro arg_cong [of _ _ concat] map_cong) (auto split: option.splits)
  also have "\<dots> = concat (map (\<lambda>(f, v). [(f, to_jsonable v)]) vals)"
    using folded_lookup [OF dist, where g = to_jsonable]
    by (auto intro!: arg_cong [of _ _ concat] split: option.splits)
  also have "concat (map (\<lambda>(f, v). [(f, to_jsonable v)]) vals) = ?out"
    by (induction vals) auto
  finally have kw: "concat (map (\<lambda>(f, _). case map_of ?fold (normalize_name f) of None \<Rightarrow> []
        | Some v \<Rightarrow> [(f, v)]) fs) = ?out" .
  have "distinct (map normalize_name (map fst vals))" using dist by simp
  then have "distinct (map fst vals)" by (simp add: distinct_map del: map_map)
  then have "dataclass_new cls fs ?out = Inr (VData cls ?out)"
    using names(1) by (intro dataclass_new_all) (simp_all add: comp_def case_prod_beta)
  then show ?thesis unfolding to_request_def wire by (simp add: folded fold kw del: map_map)
qed

theorem wire_names_round_trip_witness:
  "to_request (\<lambda>_ _. Inr VNone) (\<lambda>_ _. Inr VNone)
     (Some (TDataclass ''Order'' [(''order_id'', None), (''qty'', Some (VInt 1))]))
     (to_jsonable (VData ''Order'' [(''order_id'', VStr ''a''), (''qty'', VInt 2)]))
   = Inr (VData ''Order'' [(''order_id'', VStr ''a''), (''qty'', VInt 2)])"
  by (subst wire_names_round_trip)
    (simp_all add: ascii_def normalize_name_def py_lower_def lower_char_def is_upper_char_def)

end
