(* ===== verification/Registry.thy ===== *)
theory Registry
  imports PayloadMapping
begin

text \<open>
  \<open>benzene.core.handler\<close> and \<open>benzene.core.registry\<close>: handler definitions, the registry that
  maps a (topic, version) pair to at most one handler, and the version selectors.

  A message's topic and version come out of a decoded envelope, so they are arbitrary values;
  looking up a value that cannot be hashed raises \<open>TypeError\<close>. The handler itself is the
  parameter \<open>'h\<close>. \<open>infer_request_type\<close> reads Python annotations and has no model; a
  registration carries the request type it ended up with.
\<close>

section \<open>Definitions and the registry\<close>

record 'h handler_definition =
  hd_topic :: string
  hd_handler :: 'h
  hd_version :: string
  hd_request_type :: "py_type option"
  hd_response_type :: "py_type option"
  hd_is_default :: bool

text \<open>\<open>Registry._by_key\<close>, the registry's only state.\<close>

type_synonym 'h registry = "(string \<times> string, 'h handler_definition) dict"

definition hd_key :: "'h handler_definition \<Rightarrow> string \<times> string" where
  "hd_key d = (hd_topic d, hd_version d)"

definition versions_of :: "'h registry \<Rightarrow> pyval \<Rightarrow> 'h handler_definition list" where
  "versions_of reg topic = filter (\<lambda>d. VStr (hd_topic d) = topic) (dict_values reg)"

definition definitions :: "'h registry \<Rightarrow> 'h handler_definition list" where
  "definitions reg = dict_values reg"

definition describe :: "'h handler_definition \<Rightarrow> string" where
  "describe d = (if hd_version d \<noteq> [] then ''version '' @ repr_str (hd_version d)
                 else ''the unversioned handler'')"

text \<open>\<open>next((d for d in ds if d.is_default), None)\<close>\<close>

definition declared_default :: "'h handler_definition list \<Rightarrow> 'h handler_definition option" where
  "declared_default ds = find hd_is_default ds"

definition add_definition ::
  "'h handler_definition \<Rightarrow> 'h registry \<Rightarrow> pyexn + 'h registry" where
  "add_definition d reg =
     (if dict_mem (hd_key d) reg then
        Inl (PyException ''DuplicateHandlerError''
          (''A handler is already registered for topic '' @ repr_str (hd_topic d)
           @ (if hd_version d \<noteq> [] then '' version '' @ repr_str (hd_version d) else '' (unversioned)'')
           @ ''. Each (topic, version) pair maps to exactly one handler - remove the duplicate ''
           @ ''registration, or give one handler a distinct version.''))
      else
        (case declared_default (versions_of reg (VStr (hd_topic d))) of
           Some declared \<Rightarrow>
             if hd_is_default d then
               Inl (PyException ''DuplicateHandlerError''
                 (''Topic '' @ repr_str (hd_topic d) @ '' already declares '' @ describe declared
                  @ '' its default handler, so '' @ describe d @ '' cannot be declared default too: ''
                  @ ''a message with no version goes to exactly one handler. Keep default=True on ''
                  @ ''one of them.''))
             else Inr (dict_set (hd_key d) d reg)
         | None \<Rightarrow> Inr (dict_set (hd_key d) d reg)))"

definition register ::
  "string \<Rightarrow> 'h \<Rightarrow> string \<Rightarrow> py_type option \<Rightarrow> py_type option \<Rightarrow> bool \<Rightarrow>
   py_type option \<Rightarrow> 'h registry \<Rightarrow> pyexn + 'h registry" where
  \<comment> \<open>the seventh argument is what \<open>infer_request_type(handler)\<close> returned\<close>
  "register topic handler version request_type response_type is_default inferred reg =
     add_definition
       \<lparr>hd_topic = topic, hd_handler = handler, hd_version = version,
        hd_request_type = (case request_type of None \<Rightarrow> inferred | Some t \<Rightarrow> Some t),
        hd_response_type = response_type, hd_is_default = is_default\<rparr> reg"

text \<open>\<open>Registry.add\<close> on a function whose \<open>@message\<close> tag, if any, is \<open>tag\<close>.\<close>

definition add_tagged ::
  "string \<Rightarrow> 'h handler_definition option \<Rightarrow> 'h registry \<Rightarrow> pyexn + 'h registry" where
  "add_tagged name tag reg = (case tag of
     None \<Rightarrow> Inl (PyException ''ValueError'' (repr_str name @ '' is not a @message-tagged handler; ''
               @ ''use register(topic, fn) for explicit registration.''))
   | Some d \<Rightarrow> add_definition d reg)"

definition from_definitions :: "'h handler_definition list list \<Rightarrow> pyexn + 'h registry" where
  "from_definitions sources = add_all add_definition (concat sources) []"

section \<open>Lookup\<close>

text \<open>What Python can use as a dictionary key, among decoded values.\<close>

fun hashable :: "pyval \<Rightarrow> bool" where
  "hashable (VList _) = False"
| "hashable (VDict _) = False"
| "hashable (VSet _) = False"
| "hashable (VData _ _) = False"
| "hashable (VTuple vs) = (\<forall>v \<in> set vs. hashable v)"
| "hashable _ = True"

definition unhashable_error :: pyexn where
  "unhashable_error = PyException ''TypeError'' ''unhashable type''"

definition find_handler ::
  "'h registry \<Rightarrow> pyval \<Rightarrow> pyval \<Rightarrow> 'h handler_definition option outcome" where
  "find_handler reg topic version =
     (if \<not> (hashable topic \<and> hashable version) then Inl unhashable_error
      else Inr (case (topic, version) of
        (VStr t, VStr v) \<Rightarrow> dict_get reg (t, v)
      | _ \<Rightarrow> None))"

definition default_for ::
  "'h registry \<Rightarrow> pyval \<Rightarrow> 'h handler_definition option outcome" where
  "default_for reg topic = (case find_handler reg topic (VStr []) of
     Inl e \<Rightarrow> Inl e
   | Inr (Some d) \<Rightarrow> Inr (Some d)
   | Inr None \<Rightarrow> Inr (declared_default (versions_of reg topic)))"

definition topics_without_default :: "'h registry \<Rightarrow> string list" where
  "topics_without_default reg =
     filter (\<lambda>t. default_for reg (VStr t) = Inr None)
       (dict_keys (dict_of (map (\<lambda>d. (hd_topic d, ())) (dict_values reg))))"

definition exact_version ::
  "'h registry \<Rightarrow> pyval \<Rightarrow> pyval \<Rightarrow> 'h handler_definition option outcome" where
  "exact_version reg topic version =
     (if \<not> truthy version then default_for reg topic else find_handler reg topic version)"

section \<open>The highest-version selector\<close>

text \<open>
  A run of a version string: \<open>(0, int)\<close> for digits and \<open>(1, str)\<close> for anything else, ordered
  as the tagged tuples are.
\<close>

datatype run = Num nat | Txt string

instantiation run :: linorder
begin

definition less_eq_run :: "run \<Rightarrow> run \<Rightarrow> bool" where
  "less_eq_run a b = (case (a, b) of
     (Num m, Num n) \<Rightarrow> m \<le> n | (Num _, Txt _) \<Rightarrow> True | (Txt _, Num _) \<Rightarrow> False
   | (Txt s, Txt t) \<Rightarrow> s \<le> t)"

definition less_run :: "run \<Rightarrow> run \<Rightarrow> bool" where
  "less_run a b = (a \<le> b \<and> \<not> b \<le> (a :: run))"

instance
  by standard (auto simp: less_eq_run_def less_run_def split: run.splits)

end

text \<open>\<open>re.findall(r"\d+|\D+", version)\<close>: the maximal runs of digits and of non-digits.\<close>

function runs :: "string \<Rightarrow> string list" where
  "runs [] = []"
| "runs (c # s) =
     (let p = (\<lambda>x. is_digit x = is_digit c)
      in (c # takeWhile p s) # runs (dropWhile p s))"
  by pat_completeness auto

termination
  by (relation "measure length") (auto simp: le_imp_less_Suc length_dropWhile_le)

text \<open>
  \<open>str.isdigit\<close> also holds of the superscripts, which \<open>\d\<close> does not match and \<open>int\<close> refuses.
\<close>

definition superscript :: "char \<Rightarrow> bool" where
  "superscript c = ((of_char c :: nat) \<in> {178, 179, 185})"

definition run_key :: "string \<Rightarrow> run outcome" where
  "run_key r =
     (if r \<noteq> [] \<and> list_all (\<lambda>c. is_digit c \<or> superscript c) r
      then (if list_all is_digit r then Inr (Num (digits_val r))
            else Inl (PyException ''ValueError'' (''invalid literal for int() with base 10: '' @ repr_str r)))
      else Inr (Txt r))"

fun collect :: "('a \<Rightarrow> 'b outcome) \<Rightarrow> 'a list \<Rightarrow> 'b list outcome" where
  "collect f [] = Inr []"
| "collect f (x # xs) = (case f x of
     Inl e \<Rightarrow> Inl e
   | Inr y \<Rightarrow> (case collect f xs of Inl e \<Rightarrow> Inl e | Inr ys \<Rightarrow> Inr (y # ys)))"

definition natural_key :: "string \<Rightarrow> run list outcome" where
  "natural_key version = collect run_key (runs version)"

text \<open>\<open>max(xs, key=...)\<close>, the first of the largest.\<close>

fun first_max :: "('b :: linorder \<times> 'a) \<Rightarrow> ('b \<times> 'a) list \<Rightarrow> 'a" where
  "first_max b [] = snd b"
| "first_max b (x # xs) = first_max (if fst b < fst x then x else b) xs"

definition highest_version ::
  "'h registry \<Rightarrow> pyval \<Rightarrow> pyval \<Rightarrow> 'h handler_definition option outcome" where
  "highest_version reg topic version = (case exact_version reg topic version of
     Inl e \<Rightarrow> Inl e
   | Inr (Some d) \<Rightarrow> Inr (Some d)
   | Inr None \<Rightarrow>
       (case versions_of reg topic of
          [] \<Rightarrow> Inr None
        | d # ds \<Rightarrow>
            (case collect (natural_key \<circ> hd_version) (d # ds) of
               Inl e \<Rightarrow> Inl e
             | Inr ks \<Rightarrow> Inr (Some (first_max (hd ks, d) (zip (tl ks) ds))))))"

section \<open>The registry invariant\<close>

text \<open>
  Keys are distinct, each entry is stored under its own (topic, version), and a topic declares
  at most one default handler.
\<close>

definition registry_ok :: "'h registry \<Rightarrow> bool" where
  "registry_ok reg \<longleftrightarrow> dict_ok reg \<and> (\<forall>(k, d) \<in> set reg. k = hd_key d) \<and>
     (\<forall>(k, d) \<in> set reg. \<forall>(k', d') \<in> set reg.
        hd_is_default d \<and> hd_is_default d' \<and> hd_topic d = hd_topic d' \<longrightarrow> d = d')"

lemma add_definition_Inr:
  "add_definition d reg = Inr reg' \<longleftrightarrow>
     dict_get reg (hd_key d) = None \<and> reg' = reg @ [(hd_key d, d)] \<and>
     (hd_is_default d \<longrightarrow> declared_default (versions_of reg (VStr (hd_topic d))) = None)"
  by (auto simp: add_definition_def dict_mem_def dict_set_fresh split: option.splits)

interpretation handlers: keyed_registry add_definition hd_key "\<lambda>reg k. dict_get reg k"
  by unfold_locales (auto simp: add_definition_Inr fun_eq_iff map_add_def split: option.splits)

lemma declared_default_None:
  "declared_default ds = None \<longleftrightarrow> (\<forall>d \<in> set ds. \<not> hd_is_default d)"
  by (auto simp: declared_default_def find_None_iff)

lemma set_versions_of:
  "set (versions_of reg (VStr t)) = {d. d \<in> snd ` set reg \<and> hd_topic d = t}"
  by (auto simp: versions_of_def dict_values_def)

lemma registry_ok_Nil [simp]: "registry_ok []"
  by (simp add: registry_ok_def)

lemma add_definition_ok:
  assumes "registry_ok reg" "add_definition d reg = Inr reg'"
  shows "registry_ok reg'"
proof -
  from assms(2) have new: "hd_key d \<notin> fst ` set reg" "reg' = reg @ [(hd_key d, d)]"
    "hd_is_default d \<Longrightarrow> \<forall>d' \<in> snd ` set reg. hd_topic d' = hd_topic d \<longrightarrow> \<not> hd_is_default d'"
    by (auto simp: add_definition_Inr map_of_eq_None_iff declared_default_None set_versions_of)
  show ?thesis
    unfolding registry_ok_def
  proof (intro conjI)
    show "dict_ok reg'" using assms(1) new(1,2) by (auto simp: registry_ok_def dict_ok_def)
    show "\<forall>(k, d) \<in> set reg'. k = hd_key d" using assms(1) new(2) by (auto simp: registry_ok_def)
    show "\<forall>(k, d) \<in> set reg'. \<forall>(k', d') \<in> set reg'.
        hd_is_default d \<and> hd_is_default d' \<and> hd_topic d = hd_topic d' \<longrightarrow> d = d'"
      using assms(1) new(2,3) by (fastforce simp: registry_ok_def)
  qed
qed

lemma add_all_definitions_ok:
  "add_all add_definition ds reg = Inr reg' \<Longrightarrow> registry_ok reg \<Longrightarrow> registry_ok reg'"
proof (induction ds arbitrary: reg)
  case (Cons d ds)
  then obtain r where "add_definition d reg = Inr r" "add_all add_definition ds r = Inr reg'"
    by (auto split: sum.splits)
  with Cons show ?case using add_definition_ok by blast
qed simp

lemma add_all_definitions_values:
  "add_all add_definition ds reg = Inr reg' \<Longrightarrow> reg' = reg @ map (\<lambda>d. (hd_key d, d)) ds"
proof (induction ds arbitrary: reg)
  case (Cons d ds)
  then obtain r where "add_definition d reg = Inr r" "add_all add_definition ds r = Inr reg'"
    by (auto split: sum.splits)
  with Cons.IH [of r] show ?case by (auto simp: add_definition_Inr)
qed simp

section \<open>Selection\<close>

lemma registry_ok_get:
  "registry_ok reg \<Longrightarrow> dict_get reg (t, v) = Some d \<longleftrightarrow>
     (d \<in> snd ` set reg \<and> hd_topic d = t \<and> hd_version d = v)"
proof -
  assume ok: "registry_ok reg"
  then have "dict_get reg (t, v) = Some d \<longleftrightarrow> ((t, v), d) \<in> set reg"
    by (simp add: registry_ok_def dict_ok_def map_of_eq_Some_iff)
  moreover have "((t, v), d) \<in> set reg \<longleftrightarrow> (\<exists>k. (k, d) \<in> set reg) \<and> hd_key d = (t, v)"
    using ok unfolding registry_ok_def by fastforce
  moreover have "d \<in> snd ` set reg \<longleftrightarrow> (\<exists>k. (k, d) \<in> set reg)" by force
  ultimately show ?thesis by (simp add: hd_key_def)
qed

lemma find_eq_SomeI:
  "x \<in> set xs \<Longrightarrow> P x \<Longrightarrow> (\<And>y. y \<in> set xs \<Longrightarrow> P y \<Longrightarrow> y = x) \<Longrightarrow> find P xs = Some x"
proof (induction xs)
  case (Cons a xs)
  show ?case
  proof (cases "P a")
    case True
    with Cons.prems(3) [of a] show ?thesis by simp
  next
    case False
    with Cons.prems(1,2) have "x \<in> set xs" by auto
    then have "find P xs = Some x"
      by (rule Cons.IH) (rule Cons.prems(2), rule Cons.prems(3), simp_all)
    with False show ?thesis by simp
  qed
qed simp

lemma declared_default_Some:
  assumes "registry_ok reg"
  shows "declared_default (versions_of reg (VStr t)) = Some d \<longleftrightarrow>
    d \<in> snd ` set reg \<and> hd_topic d = t \<and> hd_is_default d" (is "?l \<longleftrightarrow> ?r")
proof
  assume ?l
  then have "d \<in> set (versions_of reg (VStr t)) \<and> hd_is_default d"
    by (auto simp: declared_default_def find_Some_iff)
  then show ?r by (auto simp: set_versions_of)
next
  assume r: ?r
  show ?l
    unfolding declared_default_def
  proof (rule find_eq_SomeI)
    fix y assume "y \<in> set (versions_of reg (VStr t))" "hd_is_default y"
    then show "y = d" using r assms by (fastforce simp: set_versions_of registry_ok_def)
  qed (use r in \<open>auto simp: set_versions_of\<close>)
qed

text \<open>A selection is determined by the set of definitions, so it does not depend on their order.\<close>

lemma option_eq_iff: "(\<And>d. x = Some d \<longleftrightarrow> y = Some d) \<Longrightarrow> x = y"
  by (cases x; cases y) auto

lemma find_handler_set:
  assumes "registry_ok reg" "registry_ok reg'" "snd ` set reg = snd ` set reg'"
  shows "find_handler reg (VStr t) version = find_handler reg' (VStr t) version"
proof -
  have "dict_get reg (t, v) = dict_get reg' (t, v)" for v
    by (rule option_eq_iff) (simp add: registry_ok_get assms)
  then show ?thesis by (simp add: find_handler_def split: pyval.splits)
qed

lemma declared_default_set:
  assumes "registry_ok reg" "registry_ok reg'" "snd ` set reg = snd ` set reg'"
  shows "declared_default (versions_of reg (VStr t)) = declared_default (versions_of reg' (VStr t))"
  by (rule option_eq_iff) (simp add: declared_default_Some assms)

lemma first_max_in: "first_max b xs \<in> snd ` set (b # xs)"
  by (induction xs arbitrary: b) (auto split: if_splits)

lemma first_max_key:
  "\<exists>k. (k, first_max b xs) \<in> set (b # xs) \<and> (\<forall>x \<in> set (b # xs). fst x \<le> k)"
proof (induction xs arbitrary: b)
  case (Cons x xs)
  define m where "m = (if fst b < fst x then x else b)"
  obtain k where k: "(k, first_max m xs) \<in> set (m # xs)" "\<forall>y \<in> set (m # xs). fst y \<le> k"
    using Cons by blast
  have "fst b \<le> fst m" "fst x \<le> fst m" by (auto simp: m_def)
  with k(2) have "fst b \<le> k" "fst x \<le> k" by auto
  moreover have "m \<in> {b, x}" by (simp add: m_def)
  ultimately show ?case using k by (auto simp: m_def [symmetric])
qed (auto intro: exI [of _ "fst _"])

lemma collect_Inr: "collect f xs = Inr ys \<longleftrightarrow> list_all2 (\<lambda>x y. f x = Inr y) xs ys"
  by (induction f xs arbitrary: ys rule: collect.induct)
    (auto simp: list_all2_Cons1 split: sum.splits)

lemma from_definitions_ok:
  assumes "from_definitions sources = Inr reg"
  shows "registry_ok reg" "snd ` set reg = set (concat sources)"
  using assms add_all_definitions_ok [of "concat sources" "[]" reg]
    add_all_definitions_values [of "concat sources" "[]" reg]
  by (force simp: from_definitions_def)+

lemma versions_of_not_str: "(\<And>t. topic \<noteq> VStr t) \<Longrightarrow> versions_of reg topic = []"
  by (auto simp: versions_of_def filter_empty_conv)

lemma default_for_str:
  "default_for reg (VStr t) = Inr (case dict_get reg (t, []) of
     Some d \<Rightarrow> Some d | None \<Rightarrow> declared_default (versions_of reg (VStr t)))"
  by (auto simp: default_for_def find_handler_def split: option.splits)

lemma exact_version_str:
  "exact_version reg (VStr t) (VStr v) = (if v = [] then default_for reg (VStr t)
     else Inr (dict_get reg (t, v)))"
  by (simp add: exact_version_def find_handler_def)

lemma exact_version_not_str:
  assumes "\<And>t. topic \<noteq> VStr t"
  shows "exact_version reg topic version = exact_version reg' topic version"
proof (cases topic)
  case (VStr t)
  with assms [of t] show ?thesis by simp
qed (use versions_of_not_str [OF assms, of reg] versions_of_not_str [OF assms, of reg'] in
  \<open>simp_all add: exact_version_def default_for_def find_handler_def\<close>)

text \<open>
  C4. Version selection, \<open>core-concepts\<close> 2: over a registry built from any list of definitions, a
  message naming a version goes to the handler registered for exactly that (topic, version) and to
  no other; a message naming none goes to the unversioned handler, or else to the one versioned
  handler declared default; and the answer never depends on the order of registration.
\<close>

theorem version_selection:
  assumes "from_definitions sources = Inr reg"
  shows "(v \<noteq> [] \<longrightarrow> exact_version reg (VStr t) (VStr v) = Inr (Some d) \<longleftrightarrow>
            d \<in> set (concat sources) \<and> hd_topic d = t \<and> hd_version d = v) \<and>
         (exact_version reg (VStr t) (VStr []) = Inr (Some d) \<longleftrightarrow>
            d \<in> set (concat sources) \<and> hd_topic d = t \<and>
            (hd_version d = [] \<or> hd_is_default d \<and>
               (\<forall>d' \<in> set (concat sources). hd_topic d' = t \<longrightarrow> hd_version d' \<noteq> []))) \<and>
         (from_definitions sources' = Inr reg' \<and> set (concat sources) = set (concat sources') \<longrightarrow>
            exact_version reg topic version = exact_version reg' topic version)"
proof (intro conjI impI)
  note ok = from_definitions_ok [OF assms]
  show "exact_version reg (VStr t) (VStr v) = Inr (Some d) \<longleftrightarrow>
      d \<in> set (concat sources) \<and> hd_topic d = t \<and> hd_version d = v" if "v \<noteq> []"
    using that by (simp add: exact_version_str registry_ok_get [OF ok(1)] ok(2))
  have none: "dict_get reg (t, []) = None \<longleftrightarrow>
      (\<forall>d' \<in> set (concat sources). hd_topic d' = t \<longrightarrow> hd_version d' \<noteq> [])"
    using registry_ok_get [OF ok(1), of t "[]"] ok(2) by (metis not_None_eq)
  show "exact_version reg (VStr t) (VStr []) = Inr (Some d) \<longleftrightarrow>
      d \<in> set (concat sources) \<and> hd_topic d = t \<and>
      (hd_version d = [] \<or> hd_is_default d \<and>
         (\<forall>d' \<in> set (concat sources). hd_topic d' = t \<longrightarrow> hd_version d' \<noteq> []))"
  proof (cases "dict_get reg (t, [])")
    case None
    then show ?thesis using none ok(2)
      by (auto simp: exact_version_str default_for_str declared_default_Some [OF ok(1)])
  next
    case (Some d0)
    have "Some d0 = Some d \<longleftrightarrow> d \<in> set (concat sources) \<and> hd_topic d = t \<and> hd_version d = []"
      using Some registry_ok_get [OF ok(1), of t "[]" d] ok(2) by simp
    with none Some show ?thesis by (auto simp: exact_version_str default_for_str)
  qed
  show "exact_version reg topic version = exact_version reg' topic version"
    if "from_definitions sources' = Inr reg' \<and> set (concat sources) = set (concat sources')"
  proof (cases "\<exists>t. topic = VStr t")
    case True
    with that show ?thesis
      using ok from_definitions_ok [of sources' reg'] find_handler_set [of reg reg']
        declared_default_set [of reg reg']
      by (auto simp: exact_version_def default_for_def split: sum.splits option.splits)
  qed (use exact_version_not_str in blast)
qed

definition sample_v1 :: "nat handler_definition" where
  "sample_v1 = \<lparr>hd_topic = ''orders:place'', hd_handler = 1, hd_version = ''v1'',
     hd_request_type = None, hd_response_type = None, hd_is_default = True\<rparr>"

definition sample_v2 :: "nat handler_definition" where
  "sample_v2 = \<lparr>hd_topic = ''orders:place'', hd_handler = 2, hd_version = ''v2'',
     hd_request_type = None, hd_response_type = None, hd_is_default = False\<rparr>"

lemma sample_registry:
  "from_definitions [[sample_v1, sample_v2]] =
     Inr [(hd_key sample_v1, sample_v1), (hd_key sample_v2, sample_v2)]"
  by (simp add: from_definitions_def add_definition_def dict_mem_def hd_key_def sample_v1_def
      sample_v2_def versions_of_def dict_values_def declared_default_def)

theorem version_selection_witness:
  "\<exists>reg. from_definitions [[sample_v1, sample_v2]] = Inr reg \<and>
     exact_version reg (VStr ''orders:place'') (VStr ''v2'') = Inr (Some sample_v2) \<and>
     exact_version reg (VStr ''orders:place'') (VStr []) = Inr (Some sample_v1)"
  using version_selection [OF sample_registry, of "''v2''" "''orders:place''" sample_v2]
    version_selection [OF sample_registry, of "''v2''" "''orders:place''" sample_v1] sample_registry
  by (simp add: sample_v1_def sample_v2_def)

text \<open>
  The start-up warning is exact: \<open>topics_without_default\<close> lists precisely the topics that
  have a handler and answer \<open>not-found\<close> to every message carrying no version.
\<close>

lemma topics_without_default_exact:
  "t \<in> set (topics_without_default reg) \<longleftrightarrow>
     versions_of reg (VStr t) \<noteq> [] \<and> exact_version reg (VStr t) (VStr []) = Inr None"
proof -
  have keys: "fst ` set (dict_of (map (\<lambda>d. (hd_topic d, ())) ds)) = hd_topic ` set ds"
    for ds :: "'a handler_definition list"
  proof (rule set_eqI)
    fix t
    have "t \<notin> fst ` set (dict_of (map (\<lambda>d. (hd_topic d, ())) ds)) \<longleftrightarrow> t \<notin> hd_topic ` set ds"
      unfolding map_of_eq_None_iff [symmetric] dict_get_of by (simp add: map_of_eq_None_iff image_image)
    then show "t \<in> fst ` set (dict_of (map (\<lambda>d. (hd_topic d, ())) ds)) \<longleftrightarrow> t \<in> hd_topic ` set ds"
      by blast
  qed
  have "t \<in> set (dict_keys (dict_of (map (\<lambda>d. (hd_topic d, ())) (dict_values reg)))) \<longleftrightarrow>
      versions_of reg (VStr t) \<noteq> []"
    by (auto simp: dict_keys_def keys versions_of_def filter_empty_conv)
  then show ?thesis
    unfolding topics_without_default_def by (auto simp: exact_version_str)
qed

section \<open>Natural order\<close>

lemma runs_same:
  "s \<noteq> [] \<Longrightarrow> (\<forall>c \<in> set s. is_digit c = b) \<Longrightarrow> runs s = [s]"
proof (cases s)
  case (Cons c t)
  assume "\<forall>c \<in> set s. is_digit c = b"
  then have "takeWhile (\<lambda>x. is_digit x = is_digit c) t = t" "dropWhile (\<lambda>x. is_digit x = is_digit c) t = []"
    using Cons by auto
  then show ?thesis by (simp add: Cons Let_def del: takeWhile_eq_all_conv dropWhile_eq_Nil_conv)
qed simp

lemma runs_append:
  assumes "p \<noteq> []" "\<forall>c \<in> set p. is_digit c = b" "d \<noteq> []" "is_digit (hd d) \<noteq> b"
  shows "runs (p @ d) = p # runs d"
proof -
  obtain c t where p: "p = c # t" using assms(1) by (cases p) auto
  obtain e u where d: "d = e # u" using assms(3) by (cases d) auto
  have "\<forall>x \<in> set t. is_digit x = is_digit c" "is_digit e \<noteq> is_digit c"
    using assms(2,4) by (auto simp: p d)
  then show ?thesis by (simp add: p d takeWhile_append2 dropWhile_append2)
qed

lemma natural_key_number:
  assumes "\<forall>c \<in> set p. \<not> is_digit c \<and> \<not> superscript c"
  shows "natural_key (p @ nat_text n) = Inr ((if p = [] then [] else [Txt p]) @ [Num n])"
proof -
  have num: "run_key (nat_text n) = Inr (Num n)" "runs (nat_text n) = [nat_text n]"
    using nat_text_digits [of n] by (auto simp: run_key_def list_all_iff intro: runs_same)
  show ?thesis
  proof (cases "p = []")
    case False
    have "hd (nat_text n) \<in> set (nat_text n)" by simp
    then have "is_digit (hd (nat_text n))" using nat_text_digits [of n] by blast
    then have r: "runs (p @ nat_text n) = [p, nat_text n]"
      using False assms by (subst runs_append [where b = False]) (auto simp: num)
    obtain c t where "p = c # t" using False by (cases p) auto
    then have "run_key p = Inr (Txt p)" using assms by (auto simp: run_key_def)
    then show ?thesis using False by (simp add: natural_key_def r num)
  qed (simp add: natural_key_def num)
qed

lemma run_key_total: "(\<forall>c \<in> set r. \<not> superscript c) \<Longrightarrow> \<exists>k. run_key r = Inr k"
  by (auto simp: run_key_def list_all_iff)

lemma runs_chars: "r \<in> set (runs s) \<Longrightarrow> set r \<subseteq> set s"
proof (induction s rule: runs.induct)
  case (2 c s)
  then show ?case
    by (auto simp: Let_def dest: set_takeWhileD) (meson set_dropWhileD subsetD)
qed simp

lemma collect_total: "(\<And>x. x \<in> set xs \<Longrightarrow> \<exists>y. f x = Inr y) \<Longrightarrow> \<exists>ys. collect f xs = Inr ys"
proof (induction xs)
  case (Cons x xs)
  then obtain y ys where "f x = Inr y" "collect f xs = Inr ys" by (metis list.set_intros)
  then show ?case by simp
qed simp

lemma natural_key_total: "(\<forall>c \<in> set s. \<not> superscript c) \<Longrightarrow> \<exists>k. natural_key s = Inr k"
  unfolding natural_key_def by (rule collect_total) (meson run_key_total runs_chars subsetD)

lemma collect_zip:
  assumes "collect f xs = Inr ys" "x \<in> set xs" "f x = Inr y"
  shows "(y, x) \<in> set (zip ys xs)"
proof -
  from assms(1) have l: "list_all2 (\<lambda>x y. f x = Inr y) xs ys" by (simp add: collect_Inr)
  obtain i where i: "i < length xs" "xs ! i = x" using assms(2) by (auto simp: in_set_conv_nth)
  with l have "i < length ys" "f x = Inr (ys ! i)" by (auto simp: list_all2_conv_all_nth)
  with i assms(3) show ?thesis by (auto simp: in_set_zip)
qed

lemma highest_version_fallback:
  assumes none: "exact_version reg topic version = Inr None"
    and vs: "versions_of reg topic \<noteq> []"
    and plain: "\<forall>d \<in> set (versions_of reg topic). \<forall>c \<in> set (hd_version d). \<not> superscript c"
  shows "\<exists>d k. highest_version reg topic version = Inr (Some d) \<and> d \<in> set (versions_of reg topic) \<and>
     natural_key (hd_version d) = Inr k \<and>
     (\<forall>d' \<in> set (versions_of reg topic). \<exists>k'. natural_key (hd_version d') = Inr k' \<and> k' \<le> k)"
proof -
  let ?key = "natural_key \<circ> hd_version"
  obtain d ds where ds: "versions_of reg topic = d # ds" using vs by (cases "versions_of reg topic") auto
  obtain ks where ks: "collect ?key (d # ds) = Inr ks"
    using collect_total [of "d # ds" ?key] natural_key_total plain ds by fastforce
  then have l: "list_all2 (\<lambda>x y. ?key x = Inr y) (d # ds) ks" by (simp only: collect_Inr)
  obtain k0 ks' where k0: "ks = k0 # ks'" using l by (cases ks) auto
  define m where "m = first_max (hd ks, d) (zip (tl ks) ds)"
  have zips: "set ((hd ks, d) # zip (tl ks) ds) = set (zip ks (d # ds))" by (simp add: k0)
  obtain k where k: "(k, m) \<in> set (zip ks (d # ds))" "\<forall>x \<in> set (zip ks (d # ds)). fst x \<le> k"
    using first_max_key [of "(hd ks, d)" "zip (tl ks) ds"] unfolding zips m_def by blast
  have entry: "?key x = Inr y" if "(y, x) \<in> set (zip ks (d # ds))" for x y
    using l that by (auto simp: list_all2_conv_all_nth in_set_zip simp del: nth_Cons)
  have "\<exists>k'. natural_key (hd_version d') = Inr k' \<and> k' \<le> k" if d': "d' \<in> set (d # ds)" for d'
  proof -
    obtain k' where k': "natural_key (hd_version d') = Inr k'"
      using natural_key_total [of "hd_version d'"] plain ds d' by auto
    then have "(k', d') \<in> set (zip ks (d # ds))" using collect_zip [OF ks d'] by simp
    with k(2) k' show ?thesis by force
  qed
  moreover have "m \<in> set (d # ds)" using k(1) by (meson set_zip_rightD)
  moreover have "highest_version reg topic version = Inr (Some m)"
    using none ks by (simp add: highest_version_def ds m_def del: collect.simps)
  ultimately show ?thesis using entry [OF k(1)] unfolding ds by auto
qed

lemma highest_version_numbers:
  assumes "\<forall>c \<in> set p. \<not> is_digit c \<and> \<not> superscript c"
  shows "\<exists>k l. natural_key (p @ nat_text m) = Inr k \<and> natural_key (p @ nat_text n) = Inr l \<and>
    (k < l \<longleftrightarrow> m < n)"
  unfolding natural_key_number [OF assms]
  by (auto simp: less_run_def less_eq_run_def)

text \<open>
  \<open>highest_version\<close> answers what the exact rule answers when that rule has an answer, and
  otherwise a registered version of the topic whose natural key is the greatest; it answers
  whenever the topic has a handler and no version contains a superscript digit, and the natural
  key orders numbered versions by their number.
\<close>

lemma highest_version_is_highest:
  "((\<forall>c \<in> set p. \<not> is_digit c \<and> \<not> superscript c) \<longrightarrow>
      (\<exists>k l. natural_key (p @ nat_text m) = Inr k \<and> natural_key (p @ nat_text n) = Inr l \<and>
             (k < l \<longleftrightarrow> m < n))) \<and>
   (exact_version reg topic version = Inr (Some d) \<longrightarrow>
      highest_version reg topic version = Inr (Some d)) \<and>
   (exact_version reg topic version = Inr None \<and> versions_of reg topic \<noteq> [] \<and>
    (\<forall>d \<in> set (versions_of reg topic). \<forall>c \<in> set (hd_version d). \<not> superscript c) \<longrightarrow>
      (\<exists>d k. highest_version reg topic version = Inr (Some d) \<and> d \<in> set (versions_of reg topic) \<and>
         natural_key (hd_version d) = Inr k \<and>
         (\<forall>d' \<in> set (versions_of reg topic). \<exists>k'. natural_key (hd_version d') = Inr k' \<and> k' \<le> k)))"
  using highest_version_numbers [of p m n] highest_version_fallback [of reg topic version]
  by (simp add: highest_version_def)

end
