(* ===== verification/Dependencies.thy ===== *)
theory Dependencies
  imports Prelude
begin

text \<open>
  \<open>benzene.core.dependencies\<close>: the service container and the per-invocation scope.

  A factory is application code that may resolve other services through the scope it is given
  and allocate objects; \<open>factory\<close> is the free structure of such code. Objects are addresses
  handed out by an allocation counter, so that \<open>the same instance\<close> is equality of addresses.
  A factory may resolve services in a cycle, in which case Python never returns; resolution
  therefore runs on fuel and yields \<open>None\<close> when the fuel ends.
\<close>

section \<open>Registrations\<close>

datatype service_key = KType string | KName string

datatype lifetime = SINGLETON | SCOPED | TRANSIENT

datatype factory =
    FDone "nat option"                            \<comment> \<open>return an object, or Python's \<open>None\<close>\<close>
  | FRaise pyexn
  | FGet service_key "nat option \<Rightarrow> factory"      \<comment> \<open>\<open>scope.try_get_service(key)\<close>, then go on\<close>
  | FNew "nat \<Rightarrow> factory"                         \<comment> \<open>construct an object, then go on\<close>

record container =
  con_registrations :: "(service_key, factory \<times> lifetime) dict"
  con_singletons :: "(service_key, nat option) dict"
  con_next :: nat

text \<open>\<open>Scope._scoped\<close>; the container it refers to travels in the state.\<close>

type_synonym scope = "(service_key, nat option) dict"

type_synonym dep_state = "container \<times> scope"

definition new_container :: container where
  "new_container = \<lparr>con_registrations = [], con_singletons = [], con_next = 0\<rparr>"

definition create_scope :: scope where
  "create_scope = []"

text \<open>The three ergonomic forms of a registration.\<close>

datatype factory_arg = NoFactory | ZeroArg factory | TakesScope factory

definition as_factory :: "service_key \<Rightarrow> factory_arg \<Rightarrow> factory outcome" where
  "as_factory key arg = (case arg of
     NoFactory \<Rightarrow> (case key of
       KType n \<Rightarrow> Inr (FNew (\<lambda>obj. FDone (Some obj)))
     | KName n \<Rightarrow> Inl (PyException ''TypeError''
         (''add_*/try_add_* without a factory needs a type to construct; got '' @ n)))
   | ZeroArg f \<Rightarrow> Inr f
   | TakesScope f \<Rightarrow> Inr f)"

definition add_registration :: "service_key \<Rightarrow> factory \<Rightarrow> lifetime \<Rightarrow> container \<Rightarrow> container" where
  "add_registration key f lt c =
     c\<lparr>con_registrations := dict_set key (f, lt) (con_registrations c)\<rparr>"

definition add_service ::
  "lifetime \<Rightarrow> service_key \<Rightarrow> factory_arg \<Rightarrow> container \<Rightarrow> pyexn + container" where
  \<comment> \<open>\<open>add_singleton\<close>, \<open>add_scoped\<close> and \<open>add_transient\<close>\<close>
  "add_service lt key arg c = (case as_factory key arg of
     Inl e \<Rightarrow> Inl e
   | Inr f \<Rightarrow> Inr (add_registration key f lt c))"

definition add_instance :: "service_key \<Rightarrow> nat option \<Rightarrow> container \<Rightarrow> container" where
  "add_instance key obj c =
     add_registration key (FDone obj) SINGLETON
       (c\<lparr>con_singletons := dict_set key obj (con_singletons c)\<rparr>)"

definition try_add_service ::
  "lifetime \<Rightarrow> service_key \<Rightarrow> factory_arg \<Rightarrow> container \<Rightarrow> pyexn + container" where
  \<comment> \<open>\<open>try_add_singleton\<close>, \<open>try_add_scoped\<close> and \<open>try_add_transient\<close>\<close>
  "try_add_service lt key arg c =
     (if dict_mem key (con_registrations c) then Inr c else add_service lt key arg c)"

definition use_instance :: "service_key \<Rightarrow> nat option \<Rightarrow> container \<Rightarrow> container" where
  "use_instance key obj = (\<lambda>services. add_instance key obj services)"

section \<open>Resolution\<close>

type_synonym 'a resolution = "dep_state \<Rightarrow> ('a outcome \<times> dep_state) option"

primrec run_factory :: "(service_key \<Rightarrow> nat option resolution) \<Rightarrow> factory \<Rightarrow> nat option resolution" where
  "run_factory get (FDone v) = (\<lambda>s. Some (Inr v, s))"
| "run_factory get (FRaise e) = (\<lambda>s. Some (Inl e, s))"
| "run_factory get (FGet k cont) = (\<lambda>s. case get k s of
     None \<Rightarrow> None
   | Some (Inl e, s') \<Rightarrow> Some (Inl e, s')
   | Some (Inr v, s') \<Rightarrow> run_factory get (cont v) s')"
| "run_factory get (FNew cont) = (\<lambda>(c, sc).
     run_factory get (cont (con_next c)) (c\<lparr>con_next := con_next c + 1\<rparr>, sc))"

definition cached :: "lifetime \<Rightarrow> dep_state \<Rightarrow> (service_key, nat option) dict" where
  "cached lt s = (if lt = SINGLETON then con_singletons (fst s) else snd s)"

definition store_in_cache :: "lifetime \<Rightarrow> service_key \<Rightarrow> nat option \<Rightarrow> dep_state \<Rightarrow> dep_state" where
  "store_in_cache lt key v s =
     (if lt = SINGLETON
      then ((fst s)\<lparr>con_singletons := dict_set key v (con_singletons (fst s))\<rparr>, snd s)
      else (fst s, dict_set key v (snd s)))"

fun try_get_service :: "nat \<Rightarrow> service_key \<Rightarrow> nat option resolution" where
  "try_get_service 0 key s = None"
| "try_get_service (Suc fuel) key s =
     (case dict_get (con_registrations (fst s)) key of
        None \<Rightarrow> Some (Inr None, s)
      | Some (f, lt) \<Rightarrow>
          if lt = TRANSIENT then run_factory (try_get_service fuel) f s
          else (case dict_get (cached lt s) key of
            Some v \<Rightarrow> Some (Inr v, s)
          | None \<Rightarrow> (case run_factory (try_get_service fuel) f s of
              None \<Rightarrow> None
            | Some (Inl e, s') \<Rightarrow> Some (Inl e, s')
            | Some (Inr v, s') \<Rightarrow> Some (Inr v, store_in_cache lt key v s'))))"

definition get_service :: "nat \<Rightarrow> service_key \<Rightarrow> nat resolution" where
  "get_service fuel key s = (case try_get_service fuel key s of
     None \<Rightarrow> None
   | Some (Inl e, s') \<Rightarrow> Some (Inl e, s')
   | Some (Inr None, s') \<Rightarrow>
       Some (Inl (PyException ''ServiceNotRegisteredError'' ''No service registered''), s')
   | Some (Inr (Some v), s') \<Rightarrow> Some (Inr v, s'))"

section \<open>What a resolution keeps\<close>

text \<open>
  Registrations never change, cached objects stay cached, and addresses below the allocation
  counter are not handed out again.
\<close>

definition dep_extends :: "dep_state \<Rightarrow> dep_state \<Rightarrow> bool" where
  "dep_extends s s' \<longleftrightarrow> con_registrations (fst s') = con_registrations (fst s) \<and>
     map_of (con_singletons (fst s)) \<subseteq>\<^sub>m map_of (con_singletons (fst s')) \<and>
     map_of (snd s) \<subseteq>\<^sub>m map_of (snd s') \<and> con_next (fst s) \<le> con_next (fst s')"

lemma dep_extends_refl [simp, intro]: "dep_extends s s"
  by (simp add: dep_extends_def)

lemma dep_extends_trans [trans]: "dep_extends s t \<Longrightarrow> dep_extends t u \<Longrightarrow> dep_extends s u"
  by (auto simp: dep_extends_def intro: map_le_trans)

lemma run_factory_extends:
  assumes "\<And>k s r s'. get k s = Some (r, s') \<Longrightarrow> dep_extends s s'"
  shows "run_factory get f s = Some (r, s') \<Longrightarrow> dep_extends s s'"
proof (induction f arbitrary: s r s')
  case (FGet k cont)
  from FGet.prems consider (raised) e where "get k s = Some (Inl e, s')"
    | (went_on) v t where "get k s = Some (Inr v, t)" "run_factory get (cont v) t = Some (r, s')"
    by (auto split: option.splits prod.splits sum.splits)
  then show ?case
  proof cases
    case went_on
    have "dep_extends s t" using went_on(1) by (rule assms)
    also have "dep_extends t s'" using went_on(2) by (intro FGet.IH) simp_all
    finally show ?thesis .
  qed (rule assms)
next
  case (FNew cont)
  have "dep_extends s ((fst s)\<lparr>con_next := con_next (fst s) + 1\<rparr>, snd s)"
    by (simp add: dep_extends_def)
  also have "dep_extends \<dots> s'"
    using FNew.prems by (intro FNew.IH) (simp_all add: case_prod_beta)
  finally show ?case .
qed simp_all

lemma map_le_update: "m \<subseteq>\<^sub>m m' \<Longrightarrow> m k = None \<Longrightarrow> m \<subseteq>\<^sub>m m'(k \<mapsto> v)"
  by (auto simp: map_le_def)

lemma store_extends:
  assumes "dep_extends s s'" "dict_get (cached lt s) key = None"
  shows "dep_extends s (store_in_cache lt key v s')"
  using assms by (auto simp: dep_extends_def store_in_cache_def cached_def intro: map_le_update
      split: if_splits)

lemma try_get_extends: "try_get_service fuel key s = Some (r, s') \<Longrightarrow> dep_extends s s'"
proof (induction fuel arbitrary: key s r s')
  case (Suc fuel)
  have run: "run_factory (try_get_service fuel) f s = Some (r, s') \<Longrightarrow> dep_extends s s'" for f s r s'
    by (rule run_factory_extends) (rule Suc.IH)
  from Suc.prems show ?case
    by (auto split: option.splits prod.splits sum.splits if_splits dest!: run
        intro: store_extends)
qed simp

lemma try_get_cached:
  assumes "dict_get (con_registrations (fst s)) key = Some (f, lt)" "lt \<noteq> TRANSIENT"
    "dict_get (cached lt s) key = Some v"
  shows "try_get_service (Suc fuel) key s = Some (Inr v, s)"
  using assms by simp

lemma try_get_stores:
  assumes "dict_get (con_registrations (fst s)) key = Some (f, lt)" "lt \<noteq> TRANSIENT"
    "try_get_service fuel key s = Some (Inr v, s')"
  shows "dict_get (cached lt s') key = Some v"
  using assms
  by (cases fuel) (auto simp: cached_def store_in_cache_def split: option.splits prod.splits sum.splits if_splits)

section \<open>Lifetimes\<close>

text \<open>
  The containers a program can reach from one by resolving services, in whatever scopes.
\<close>

inductive resolves :: "container \<Rightarrow> container \<Rightarrow> bool" where
  none: "resolves c c"
| more: "resolves c c' \<Longrightarrow> try_get_service fuel key (c', sc) = Some (r, (c'', sc')) \<Longrightarrow> resolves c c''"

lemma resolves_extends:
  "resolves c c' \<Longrightarrow> con_registrations c' = con_registrations c \<and>
     map_of (con_singletons c) \<subseteq>\<^sub>m map_of (con_singletons c') \<and> con_next c \<le> con_next c'"
proof (induction rule: resolves.induct)
  case (more c c' fuel key sc r c'' sc')
  then show ?case
    using try_get_extends [OF more.hyps(2)] by (auto simp: dep_extends_def intro: map_le_trans)
qed simp

text \<open>
  A singleton is constructed once for the whole container: after one scope has resolved it,
  every later resolution, from that scope or from any other and whatever has been resolved in
  between, returns the same object, constructs nothing and changes nothing.
\<close>

lemma singleton_shared:
  assumes reg: "dict_get (con_registrations c) key = Some (f, SINGLETON)"
    and first: "try_get_service fuel key (c, sc) = Some (Inr v, (c1, sc1))"
    and between: "resolves c1 c2"
  shows "try_get_service (Suc fuel') key (c2, sc2) = Some (Inr v, (c2, sc2))"
proof (rule try_get_cached)
  have "dict_get (cached SINGLETON (c1, sc1)) key = Some v"
    by (rule try_get_stores [OF _ _ first]) (simp_all add: reg)
  then show "dict_get (cached SINGLETON (c2, sc2)) key = Some v"
    using resolves_extends [OF between] by (auto simp: cached_def map_le_def dom_def)
  show "dict_get (con_registrations (fst (c2, sc2))) key = Some (f, SINGLETON)"
    using reg try_get_extends [OF first] resolves_extends [OF between] by (simp add: dep_extends_def)
qed simp

text \<open>A container with one type registered, of each lifetime.\<close>

definition sample_container :: "lifetime \<Rightarrow> container" where
  "sample_container lt = new_container\<lparr>con_registrations :=
     [(KType ''Store'', FNew (\<lambda>obj. FDone (Some obj)), lt)]\<rparr>"

lemma add_service_sample: "add_service lt (KType ''Store'') NoFactory new_container = Inr (sample_container lt)"
  by (simp add: add_service_def as_factory_def add_registration_def sample_container_def new_container_def)

text \<open>
  The other two lifetimes, for a type registered without a factory: a scoped service is one
  object within a scope and a different one in a new scope, a transient one is a new object at
  every resolution, whatever happened in between.
\<close>

lemma scoped_and_transient:
  assumes reg: "dict_get (con_registrations c) key = Some (FNew (\<lambda>obj. FDone (Some obj)), lt)"
    and lt: "lt = SCOPED \<or> lt = TRANSIENT" and fresh: "lt = SCOPED \<Longrightarrow> dict_get sc key = None"
  shows "\<exists>v c1 sc1. try_get_service (Suc fuel) key (c, sc) = Some (Inr (Some v), (c1, sc1)) \<and>
     (\<forall>c2. resolves c1 c2 \<longrightarrow>
        (\<forall>sc2. lt = SCOPED \<and> map_of sc1 \<subseteq>\<^sub>m map_of sc2 \<longrightarrow>
           try_get_service (Suc fuel) key (c2, sc2) = Some (Inr (Some v), (c2, sc2))) \<and>
        (\<forall>sc2. (lt = SCOPED \<longrightarrow> sc2 = create_scope) \<longrightarrow>
           (\<exists>w s. try_get_service (Suc fuel) key (c2, sc2) = Some (Inr (Some w), s) \<and> w \<noteq> v)))"
proof -
  let ?c1 = "c\<lparr>con_next := con_next c + 1\<rparr>"
  let ?sc1 = "if lt = SCOPED then dict_set key (Some (con_next c)) sc else sc"
  have first: "try_get_service (Suc fuel) key (c, sc) = Some (Inr (Some (con_next c)), (?c1, ?sc1))"
    using lt fresh by (auto simp: reg cached_def store_in_cache_def)
  have later: "dict_get (con_registrations c2) key = Some (FNew (\<lambda>obj. FDone (Some obj)), lt)"
    "con_next c < con_next c2" if "resolves ?c1 c2" for c2
    using resolves_extends [OF that] reg by auto
  have same: "try_get_service (Suc fuel) key (c2, sc2) = Some (Inr (Some (con_next c)), (c2, sc2))"
    if "resolves ?c1 c2" "lt = SCOPED" "map_of ?sc1 \<subseteq>\<^sub>m map_of sc2" for c2 sc2
    by (rule try_get_cached) (use later(1) [OF that(1)] that(2,3) in \<open>auto simp: cached_def map_le_def\<close>)
  have other: "\<exists>s. try_get_service (Suc fuel) key (c2, sc2) = Some (Inr (Some (con_next c2)), s)"
    if "resolves ?c1 c2" "lt = SCOPED \<longrightarrow> sc2 = create_scope" for c2 sc2
    using later(1) [OF that(1)] that(2) lt by (auto simp: cached_def create_scope_def)
  have new: "\<exists>w s. try_get_service (Suc fuel) key (c2, sc2) = Some (Inr (Some w), s) \<and> w \<noteq> con_next c"
    if "resolves ?c1 c2" "lt = SCOPED \<longrightarrow> sc2 = create_scope" for c2 sc2
    using other [OF that] later(2) [OF that(1)] by (metis less_irrefl)
  show ?thesis
    by (rule exI [of _ "con_next c"], rule exI [of _ ?c1], rule exI [of _ ?sc1])
      (intro conjI allI impI; (elim conjE)?, (rule first | rule same | rule new); assumption)
qed

text \<open>
  The framework's defaults never displace an application's registration: \<open>try_add_*\<close> keeps the
  container as it is when the key is registered, and otherwise registers exactly like \<open>add_*\<close>.
  \<open>add_*\<close> replaces the registration of its key and no other. An object already cached for the key
  survives the replacement, though: a singleton registered over an \<open>add_instance\<close> is never
  constructed, and resolution keeps answering the earlier instance.
\<close>

lemma registration_overrides:
  "(dict_mem key (con_registrations c) \<longrightarrow> try_add_service lt key arg c = Inr c) \<and>
   (\<not> dict_mem key (con_registrations c) \<longrightarrow> try_add_service lt key arg c = add_service lt key arg c) \<and>
   (add_service lt key arg c = Inr c' \<longrightarrow>
      (\<exists>f. as_factory key arg = Inr f \<and>
           map_of (con_registrations c') = (map_of (con_registrations c))(key \<mapsto> (f, lt)))) \<and>
   (add_service SINGLETON key arg (add_instance key (Some obj) c) = Inr c' \<longrightarrow>
      try_get_service (Suc fuel) key (c', sc) = Some (Inr (Some obj), (c', sc)))"
  by (auto simp: try_add_service_def add_service_def add_instance_def add_registration_def cached_def
      split: sum.splits)

end
