(* ===== verification/Dispatch.thy ===== *)
theory Dispatch
  imports Registry Dependencies
begin

text \<open>
  \<open>benzene.core.context\<close>, \<open>pipeline\<close>, \<open>router\<close> and \<open>metadata\<close>: the invocation context, the chain
  of middleware, the terminal message router, and the reading of a transport's native metadata.

  A middleware is \<open>async def mw(context, next)\<close>: it transforms the action \<open>next\<close> into an action on
  the context and the world \<open>'w\<close> (everything else the application mutates). A handler is
  \<open>async def handle(request) -> Result\<close>, an action on the world. \<open>None\<close> as a handler's answer is
  Python's \<open>None\<close>.
\<close>

section \<open>Context\<close>

record message_context =
  ctx_topic :: pyval
  ctx_version :: pyval
  ctx_request :: pyval
  ctx_headers :: pydict
  ctx_scope :: scope
  ctx_result :: "result option"
  ctx_ignore_unmatched_topic :: bool
  ctx_attributes :: pydict \<comment> \<open>attributes other packages set on the object\<close>

definition lower_keys :: "pydict \<Rightarrow> pydict" where
  "lower_keys h = dict_of (map (\<lambda>(k, v). (py_lower k, v)) h)"

definition mk_context :: "pyval \<Rightarrow> pyval \<Rightarrow> pydict \<Rightarrow> scope \<Rightarrow> pyval \<Rightarrow> message_context" where
  "mk_context topic request headers sc version =
     \<lparr>ctx_topic = topic, ctx_version = version, ctx_request = request,
      ctx_headers = lower_keys headers, ctx_scope = sc, ctx_result = None,
      ctx_ignore_unmatched_topic = False, ctx_attributes = []\<rparr>"

type_synonym 'w step = "(message_context \<times> 'w, unit) action"
type_synonym 'w middleware = "'w step \<Rightarrow> 'w step"
type_synonym 'w handler = "pyval \<Rightarrow> ('w, result option) action"

section \<open>Pipeline\<close>

text \<open>\<open>MiddlewarePipeline._middleware\<close>\<close>

type_synonym 'w pipeline = "'w middleware list"

definition pipeline_use :: "'w middleware \<Rightarrow> 'w pipeline \<Rightarrow> 'w pipeline" where
  "pipeline_use m p = p @ [m]"

function pipeline_invoke :: "'w pipeline \<Rightarrow> nat \<Rightarrow> 'w step" where
  "pipeline_invoke p index =
     (if length p \<le> index then act_return ()
      else (p ! index) (pipeline_invoke p (index + 1)))"
  by pat_completeness auto

termination
  by (relation "measure (\<lambda>(p, i). length p - i)") auto

declare pipeline_invoke.simps [simp del]

definition pipeline_handle :: "'w pipeline \<Rightarrow> 'w step" where
  "pipeline_handle p = pipeline_invoke p 0"

section \<open>The message router\<close>

definition PING_TOPIC :: string where
  "PING_TOPIC = ''benzene:ping''"

type_synonym 'h version_selector = "'h registry \<Rightarrow> pyval \<Rightarrow> pyval \<Rightarrow> 'h handler_definition option outcome"

text \<open>The constructors of application classes, which request mapping calls.\<close>

type_synonym classes = "(py_type \<Rightarrow> pydict \<Rightarrow> pyval outcome) \<times> (py_type \<Rightarrow> pyval \<Rightarrow> pyval outcome)"

definition set_result_of :: "result option \<Rightarrow> message_context \<Rightarrow> message_context" where
  "set_result_of r ctx = ctx\<lparr>ctx_result := r\<rparr>"

definition served_text :: "'h registry \<Rightarrow> pyval \<Rightarrow> string" where
  "served_text reg topic = py_join '', '' (map (\<lambda>d. if hd_version d \<noteq> [] then repr_str (hd_version d)
     else ''unversioned'') (versions_of reg topic))"

definition no_handler :: "'h registry \<Rightarrow> pyval \<Rightarrow> pyval \<Rightarrow> string" where
  "no_handler reg topic version =
     (if versions_of reg topic = [] then ''No handler found for topic '' @ repr_val topic
      else if truthy version then
        ''No handler found for topic '' @ repr_val topic @ '' at version '' @ repr_val version
        @ '' (it serves '' @ served_text reg topic @ '')''
      else ''No default handler for topic '' @ repr_val topic
        @ '': the message carries no version and every handler is versioned (''
        @ served_text reg topic @ ''), none declared default'')"

definition run_handler :: "classes \<Rightarrow> 'w handler handler_definition \<Rightarrow> 'w step" where
  "run_handler ct d = (\<lambda>(ctx, w).
     case to_request (fst ct) (snd ct) (hd_request_type d) (ctx_request ctx) of
       Inl e \<Rightarrow>
         if catchable e then
           (Inr (), (set_result_of (Some (bad_request [ErrText (''Could not map request to ''
              @ (case hd_request_type d of Some t \<Rightarrow> type_name t | None \<Rightarrow> ''the request type'')
              @ '': '' @ exn_text e)])) ctx, w))
         else (Inl e, (ctx, w))
     | Inr request \<Rightarrow>
         (case hd_handler d request w of
            (Inr r, w') \<Rightarrow> (Inr (), (set_result_of r ctx, w'))
          | (Inl e, w') \<Rightarrow>
              if catchable e then
                (Inr (), (set_result_of (Some (service_unavailable [ErrText (exn_text e)])) ctx, w'))
              else (Inl e, (ctx, w'))))"

definition message_router ::
  "classes \<Rightarrow> 'w handler registry \<Rightarrow> 'w handler version_selector \<Rightarrow> 'w middleware" where
  "message_router ct reg selector = (\<lambda>nxt (ctx, w).
     if \<not> truthy (ctx_topic ctx) then
       (Inr (), (set_result_of (Some (validation_error [ErrText ''Topic is required''])) ctx, w))
     else if ctx_topic ctx = VStr PING_TOPIC then
       (Inr (), (set_result_of (Some (ok VNone)) ctx, w))
     else
       (case selector reg (ctx_topic ctx) (ctx_version ctx) of
          Inl e \<Rightarrow> (Inl e, (ctx, w))
        | Inr None \<Rightarrow>
            if ctx_ignore_unmatched_topic ctx \<and> versions_of reg (ctx_topic ctx) = [] then
              (Inr (), (set_result_of (Some (ignored VNone)) ctx, w))
            else
              (Inr (), (set_result_of (Some (not_found
                 [ErrText (no_handler reg (ctx_topic ctx) (ctx_version ctx))])) ctx, w))
        | Inr (Some d) \<Rightarrow> run_handler ct d (ctx, w)))"

text \<open>The texts \<open>message_router\<close> hands to \<open>warnings.warn\<close> when it is built.\<close>

definition warn_about_topics_without_default :: "'h registry \<Rightarrow> string list" where
  "warn_about_topics_without_default reg = map (\<lambda>topic.
     ''Topic '' @ repr_str topic @ '' has only versioned handlers (''
     @ py_join '', '' (map (repr_str \<circ> hd_version) (versions_of reg (VStr topic)))
     @ '') and none is declared its default, so a message to it without a benzene-version header ''
     @ ''answers not-found. Declare one default - @message('' @ repr_str topic
     @ '', version=..., default=True) or registry.register(..., default=True) - or register an ''
     @ ''unversioned handler.'') (topics_without_default reg)"

section \<open>Metadata\<close>

record metadata_keys =
  mk_topic :: string
  mk_version :: string
  mk_headers :: string

definition DEFAULT_METADATA_KEYS :: metadata_keys where
  "DEFAULT_METADATA_KEYS =
     \<lparr>mk_topic = ''topic'', mk_version = ''benzene-version'', mk_headers = ''benzene-headers''\<rparr>"

definition read_message_metadata ::
  "(pyval \<times> pyval) list option \<Rightarrow> metadata_keys \<Rightarrow> string \<times> (string, string) dict" where
  "read_message_metadata metadata keys =
     (let headers = dict_of (map (\<lambda>(k, v). (py_lower (str_val k), str_val v))
            (case metadata of None \<Rightarrow> [] | Some m \<Rightarrow> m));
          key = py_lower (mk_topic keys)
      in ((case dict_get headers key of None \<Rightarrow> [] | Some t \<Rightarrow> t), dict_del key headers))"

section \<open>Facts\<close>

lemma pipeline_invoke_drop: "pipeline_invoke p i = foldr (\<lambda>m nxt. m nxt) (drop i p) (act_return ())"
proof (induction p i rule: pipeline_invoke.induct)
  case (1 p i)
  show ?case
  proof (cases "length p \<le> i")
    case True
    then show ?thesis by (subst pipeline_invoke.simps) simp
  next
    case False
    then have "drop i p = p ! i # drop (Suc i) p" by (simp add: Cons_nth_drop_Suc)
    with 1 False show ?thesis by (subst pipeline_invoke.simps) simp
  qed
qed

text \<open>The chain nests: the first middleware wraps the rest, and an empty chain does nothing.\<close>

lemma pipeline_handle_simps [simp]:
  "pipeline_handle [] = act_return ()"
  "pipeline_handle (m # p) = m (pipeline_handle p)"
  by (simp_all add: pipeline_handle_def pipeline_invoke_drop)

text \<open>
  A middleware that does \<open>before\<close>, awaits \<open>next\<close> and then does \<open>after\<close>, as most do.
\<close>

definition around :: "('w \<Rightarrow> 'w) \<Rightarrow> ('w \<Rightarrow> 'w) \<Rightarrow> 'w middleware" where
  "around before after = (\<lambda>nxt. act_bind (act_modify (\<lambda>(c, w). (c, before w)))
     (\<lambda>_. act_bind nxt (\<lambda>_. act_modify (\<lambda>(c, w). (c, after w)))))"

lemma around_trace:
  assumes "inner (ctx, w @ map fst tags) = (Inr (), (ctx', w'))"
  shows "pipeline_handle (map (\<lambda>(a, b). around (\<lambda>w. w @ [a]) (\<lambda>w. w @ [b])) tags @ [\<lambda>_. inner])
           (ctx, w) = (Inr (), (ctx', w' @ map snd (rev tags)))"
  using assms
proof (induction tags arbitrary: w)
  case (Cons t tags)
  then show ?case
    by (cases t) (auto simp: around_def act_bind_def act_modify_def dest!: Cons.IH)
qed simp

text \<open>
  Middleware runs in registration order, outermost first: on the way in the stages run from the
  first registered to the last, then the terminal stage runs once, and on the way out they run in
  the reverse order. A stage that does not await \<open>next\<close> ends the invocation there: nothing
  registered after it runs.
\<close>

lemma pipeline_order:
  "(inner (ctx, w @ map fst tags) = (Inr (), (ctx', w')) \<longrightarrow>
      pipeline_handle (map (\<lambda>(a, b). around (\<lambda>w. w @ [a]) (\<lambda>w. w @ [b])) tags @ [\<lambda>_. inner]) (ctx, w)
        = (Inr (), (ctx', w' @ map snd (rev tags)))) \<and>
   pipeline_handle (p @ (\<lambda>_. stop) # q) = pipeline_handle (p @ (\<lambda>_. stop) # q')"
proof (intro conjI impI)
  show "pipeline_handle (p @ (\<lambda>_. stop) # q) = pipeline_handle (p @ (\<lambda>_. stop) # q')"
    by (induction p) simp_all
qed (rule around_trace)

text \<open>The router never runs a later stage and touches nothing but the result slot and the world.\<close>

lemma message_router_terminal: "message_router ct reg sel nxt = message_router ct reg sel nxt'"
  by (simp add: message_router_def)

lemma run_handler_frame:
  "run_handler ct d (ctx, w) = (Inr (), (ctx', w')) \<Longrightarrow> \<exists>r. ctx' = ctx\<lparr>ctx_result := r\<rparr>"
  by (auto simp: run_handler_def set_result_of_def split: sum.splits prod.splits if_splits)

lemma message_router_frame:
  "message_router ct reg sel nxt (ctx, w) = (Inr (), (ctx', w')) \<Longrightarrow> \<exists>r. ctx' = ctx\<lparr>ctx_result := r\<rparr>"
  by (auto simp: message_router_def set_result_of_def split: sum.splits option.splits if_splits
      dest!: run_handler_frame)

lemma exact_version_hashable:
  "hashable topic \<Longrightarrow> hashable version \<Longrightarrow> \<exists>d. exact_version reg topic version = Inr d"
  by (auto simp: exact_version_def default_for_def find_handler_def split: sum.splits option.splits)

text \<open>Constructors and handlers that raise only \<open>Exception\<close>s.\<close>

definition classes_ok :: "classes \<Rightarrow> bool" where
  "classes_ok ct \<longleftrightarrow> (\<forall>T d e. fst ct T d = Inl e \<longrightarrow> catchable e) \<and> (\<forall>T v e. snd ct T v = Inl e \<longrightarrow> catchable e)"

definition handler_ok :: "'w handler \<Rightarrow> bool" where
  "handler_ok h \<longleftrightarrow> (\<forall>req w e w'. h req w = (Inl e, w') \<longrightarrow> catchable e)"

lemma to_request_catchable:
  assumes "classes_ok ct" "to_request (fst ct) (snd ct) T v = Inl e"
  shows "catchable e"
  using assms by (auto simp: to_request_def classes_ok_def dataclass_new_def Let_def
      split: option.splits if_splits py_type.splits pyval.splits sum.splits)

lemma run_handler_total:
  assumes "classes_ok ct" "handler_ok (hd_handler d)"
  shows "\<exists>r w'. run_handler ct d (ctx, w) = (Inr (), (ctx\<lparr>ctx_result := r\<rparr>, w'))"
proof (cases "to_request (fst ct) (snd ct) (hd_request_type d) (ctx_request ctx)")
  case (Inl e)
  with to_request_catchable [OF assms(1) this] show ?thesis
    by (auto simp: run_handler_def set_result_of_def)
next
  case (Inr req)
  obtain o' w' where h: "hd_handler d req w = (o', w')" by (cases "hd_handler d req w")
  with assms(2) Inr show ?thesis
    by (cases o') (auto simp: run_handler_def set_result_of_def handler_ok_def)
qed

lemma exact_version_registered:
  "exact_version reg topic version = Inr (Some d) \<Longrightarrow> d \<in> snd ` set reg"
proof -
  have found: "d \<in> snd ` set reg" if "find_handler reg topic v = Inr (Some d)" for v
    using that by (auto simp: find_handler_def split: if_splits pyval.splits dest!: map_of_SomeD
        intro: rev_image_eqI)
  have declared: "d \<in> snd ` set reg" if "declared_default (versions_of reg topic) = Some d"
  proof -
    from that have "d \<in> set (versions_of reg topic)"
      by (auto simp: declared_default_def find_Some_iff)
    then show ?thesis by (auto simp: versions_of_def dict_values_def)
  qed
  assume "exact_version reg topic version = Inr (Some d)"
  then show ?thesis
    by (auto simp: exact_version_def default_for_def split: if_splits sum.splits option.splits
        intro: found declared)
qed

lemma message_router_total:
  assumes "classes_ok ct" "\<forall>d \<in> snd ` set reg. handler_ok (hd_handler d)"
    and "hashable (ctx_topic ctx)" "hashable (ctx_version ctx)"
  shows "\<exists>r w'. message_router ct reg exact_version nxt (ctx, w) = (Inr (), (ctx\<lparr>ctx_result := r\<rparr>, w'))"
proof -
  obtain x where x: "exact_version reg (ctx_topic ctx) (ctx_version ctx) = Inr x"
    using exact_version_hashable assms(3,4) by blast
  show ?thesis
  proof (cases x)
    case None
    with x show ?thesis by (auto simp: message_router_def set_result_of_def)
  next
    case (Some d)
    then have "handler_ok (hd_handler d)" using assms(2) x exact_version_registered by blast
    then show ?thesis using run_handler_total [OF assms(1), of d ctx w] x Some
      by (auto simp: message_router_def set_result_of_def)
  qed
qed

definition router_answers ::
  "classes \<Rightarrow> 'w handler registry \<Rightarrow> message_context \<Rightarrow> 'w \<Rightarrow> result option \<Rightarrow> 'w \<Rightarrow> bool" where
  "router_answers ct reg ctx w r w' \<longleftrightarrow>
     (\<forall>nxt. message_router ct reg exact_version nxt (ctx, w) = (Inr (), (ctx\<lparr>ctx_result := r\<rparr>, w')))"

lemma run_handler_bad_request:
  assumes "classes_ok ct" "to_request (fst ct) (snd ct) (hd_request_type d) (ctx_request ctx) = Inl e"
  shows "\<exists>reason. run_handler ct d (ctx, w) =
    (Inr (), ctx\<lparr>ctx_result := Some (bad_request [ErrText (reason @ exn_text e)])\<rparr>, w)"
  using assms(2) to_request_catchable [OF assms]
  by (intro exI [of _ "''Could not map request to '' @ (case hd_request_type d of
        Some t \<Rightarrow> type_name t | None \<Rightarrow> ''the request type'') @ '': ''"])
    (simp add: run_handler_def set_result_of_def)

lemma run_handler_simps:
  assumes "to_request (fst ct) (snd ct) (hd_request_type d) (ctx_request ctx) = Inr req"
  shows "hd_handler d req w = (Inr r, w') \<Longrightarrow>
      run_handler ct d (ctx, w) = (Inr (), ctx\<lparr>ctx_result := r\<rparr>, w')"
    and "hd_handler d req w = (Inl (PyException c m), w') \<Longrightarrow> run_handler ct d (ctx, w) =
      (Inr (), ctx\<lparr>ctx_result := Some (service_unavailable [ErrText m])\<rparr>, w')"
  using assms by (simp_all add: run_handler_def set_result_of_def)

text \<open>
  C3. The message router classifies every message without running a later stage. With a topic and
  version that can be looked up and a registry with the exact rule: no topic is
  \<open>validation-error\<close>; the probe is \<open>ok\<close>; an unmatched topic is \<open>ignored\<close> only on a binding that
  asked for it and only when no version of the topic is served, and \<open>not-found\<close> otherwise; a payload
  the handler's type refuses is \<open>bad-request\<close> and the handler does not run; an exception of the
  handler is \<open>service-unavailable\<close> with its text, keeping what the handler did before raising.
\<close>

theorem router_classifies:
  fixes ctx :: message_context and reg :: "'w handler registry"
  assumes ct: "classes_ok ct" and t: "ctx_topic ctx = VStr t" and v: "ctx_version ctx = VStr v"
  shows "(t = [] \<longrightarrow> router_answers ct reg ctx w (Some (validation_error [ErrText ''Topic is required''])) w) \<and>
    (t = PING_TOPIC \<longrightarrow> router_answers ct reg ctx w (Some (ok VNone)) w) \<and>
    (t \<noteq> [] \<and> t \<noteq> PING_TOPIC \<longrightarrow>
      (case exact_version reg (VStr t) (VStr v) of
         Inr None \<Rightarrow>
           (if ctx_ignore_unmatched_topic ctx \<and> (\<forall>d \<in> snd ` set reg. hd_topic d \<noteq> t)
            then router_answers ct reg ctx w (Some (ignored VNone)) w
            else \<exists>reason. router_answers ct reg ctx w (Some (not_found [ErrText reason])) w)
       | Inr (Some d) \<Rightarrow>
           (case to_request (fst ct) (snd ct) (hd_request_type d) (ctx_request ctx) of
              Inl e \<Rightarrow> \<exists>reason. router_answers ct reg ctx w
                (Some (bad_request [ErrText (reason @ exn_text e)])) w
            | Inr req \<Rightarrow>
                (\<forall>r w'. hd_handler d req w = (Inr r, w') \<longrightarrow> router_answers ct reg ctx w r w') \<and>
                (\<forall>c m w'. hd_handler d req w = (Inl (PyException c m), w') \<longrightarrow>
                   router_answers ct reg ctx w (Some (service_unavailable [ErrText m])) w'))
       | Inl e \<Rightarrow> False))"
proof -
  have unserved: "versions_of reg (VStr t) = [] \<longleftrightarrow> (\<forall>d \<in> snd ` set reg. hd_topic d \<noteq> t)"
    by (auto simp: versions_of_def dict_values_def filter_empty_conv)
  obtain x where x: "exact_version reg (VStr t) (VStr v) = Inr x"
    using exact_version_hashable [of "VStr t" "VStr v"] by auto
  show ?thesis
  proof (cases x)
    case None
    then show ?thesis using x unfolding unserved [symmetric]
      by (auto simp: router_answers_def message_router_def t v set_result_of_def PING_TOPIC_def)
  next
    case (Some d)
    then show ?thesis using x run_handler_bad_request [OF ct, of d ctx _ w]
      by (auto simp: router_answers_def message_router_def t v set_result_of_def PING_TOPIC_def
          run_handler_simps split: sum.splits)
  qed
qed

theorem router_classifies_witness:
  "router_answers (\<lambda>_ _. Inr VNone, \<lambda>_ _. Inr VNone)
     [((''a'', []), \<lparr>hd_topic = ''a'', hd_handler = (\<lambda>_ w. (Inl (PyException ''ValueError'' ''boom''), w + 1)),
        hd_version = [], hd_request_type = None, hd_response_type = None, hd_is_default = False\<rparr>)]
     (mk_context (VStr ''a'') VNone [] [] (VStr [])) (0 :: nat)
     (Some (service_unavailable [ErrText ''boom''])) 1"
  using router_classifies [of "(\<lambda>_ _. Inr VNone, \<lambda>_ _. Inr VNone)" "mk_context (VStr ''a'') VNone [] [] (VStr [])"
      "''a''" "[]"
      "[((''a'', []), \<lparr>hd_topic = ''a'', hd_handler = (\<lambda>_ w. (Inl (PyException ''ValueError'' ''boom''), w + 1)),
        hd_version = [], hd_request_type = None, hd_response_type = None, hd_is_default = False\<rparr>)]" "0 :: nat"]
  by (simp add: classes_ok_def mk_context_def PING_TOPIC_def exact_version_str default_for_str to_request_def)

end
