(* ===== verification/Envelope.thy ===== *)
theory Envelope
  imports Dispatch
begin

text \<open>
  \<open>benzene.core.envelope\<close>: the transport-neutral entry point \<open>BenzeneMessageApplication\<close>, and the
  encoding of a result into a response envelope and back.

  A request envelope is a decoded JSON object. A response envelope is the record \<open>response\<close>: its
  members are read with \<open>.get\<close>, so a missing one is \<open>None\<close>, and \<open>statusCode\<close> is a string when
  present (\<open>wire-contracts\<close> 1.2).
\<close>

section \<open>The response envelope\<close>

record response =
  rsp_status_code :: "string option"
  rsp_is_successful :: pyval
  rsp_headers :: pydict
  rsp_body :: pyval

definition VERSION_HEADER :: string where
  "VERSION_HEADER = mk_version DEFAULT_METADATA_KEYS"

definition resolve_version :: "pydict \<Rightarrow> string \<Rightarrow> pyval" where
  "resolve_version headers name = v_or (vget headers (py_lower name)) (VStr [])"

definition error_payload :: "result \<Rightarrow> pydict" where
  "error_payload r = (case res_problem r of
     Some document \<Rightarrow> problem_to_payload document
   | None \<Rightarrow>
       (case problem_type (res_status r) of
          None \<Rightarrow> []
        | Some uri \<Rightarrow> [(''type'', VStr uri), (''title'', opt_str (problem_title (res_status r)))])
       @ [(''detail'', VStr (py_join '', '' (messages r))), (''benzeneStatus'', VStr (res_status r))]
       @ (if res_errors r = [] then [] else [(''errors'', VList (map error_to_payload (res_errors r)))]))"

definition encode_response :: "result option \<Rightarrow> response outcome" where
  "encode_response result0 =
     (let r = (case result0 of
            None \<Rightarrow> failure ''unexpected-error'' [ErrText ''The pipeline produced no result'']
          | Some r \<Rightarrow> r);
          envelope = (\<lambda>content_type body.
            \<lparr>rsp_status_code = Some (res_status r), rsp_is_successful = VBool (result_is_successful r),
             rsp_headers = [(''content-type'', VStr content_type)], rsp_body = VStr body\<rparr>)
      in if result_is_successful r then
           (if res_payload r = VNone then Inr (envelope ''application/json'' [])
            else (case dumps (to_jsonable (res_payload r)) of
              Inl e \<Rightarrow> Inl e
            | Inr body \<Rightarrow> Inr (envelope ''application/json'' body)))
         else (case dumps (VDict (error_payload r)) of
              Inl e \<Rightarrow> Inl e
            | Inr body \<Rightarrow> Inr (envelope ''application/problem+json'' body)))"

definition successful_from :: "response \<Rightarrow> bool" where
  "successful_from env = (rsp_is_successful env = VBool True)"

definition looks_like_problem :: "pydict \<Rightarrow> bool" where
  "looks_like_problem parsed =
     (dict_mem ''benzeneStatus'' parsed \<or> dict_mem ''errors'' parsed \<or> dict_mem ''detail'' parsed)"

text \<open>\<open>json.loads\<close> of an envelope's body: only a string can be read.\<close>

definition loads_val :: "pyval \<Rightarrow> pyval option" where
  "loads_val body = (case body of VStr s \<Rightarrow> loads s | _ \<Rightarrow> None)"

definition stated_flag :: "bool \<Rightarrow> string \<Rightarrow> bool option" where
  "stated_flag successful status = (if successful = is_successful status then None else Some successful)"

definition or_text :: "string option \<Rightarrow> string \<Rightarrow> string" where
  "or_text x y = (case x of Some s \<Rightarrow> if s = [] then y else s | None \<Rightarrow> y)"

definition decode_response :: "response \<Rightarrow> result" where
  "decode_response env =
     (let status = or_text (rsp_status_code env) ''unexpected-error'';
          body = v_or (rsp_body env) (VStr []);
          successful = successful_from env;
          stated = stated_flag successful status
      in if \<not> truthy body then mk_result status VNone [] None stated
         else (case loads_val body of
            None \<Rightarrow>
              if \<not> successful then mk_result status VNone [] None stated
              else unexpected_error [ErrText (''response body is not valid JSON: '' @ repr_val body)]
          | Some parsed \<Rightarrow>
              (case parsed of
                 VDict d \<Rightarrow>
                   if \<not> successful \<and> looks_like_problem d then
                     (let status' = (if or_text (rsp_status_code env) [] = []
                            then or_text (problem_status d) status else status);
                          stated' = (if or_text (rsp_status_code env) [] = []
                            then stated_flag successful status' else stated)
                      in mk_result status' VNone (map ErrStruct (problem_errors d)) None stated')
                   else mk_result status parsed [] None stated
               | _ \<Rightarrow> mk_result status parsed [] None stated)))"

section \<open>The application\<close>

record 'w application =
  app_pipeline :: "'w pipeline"
  app_metadata_keys :: metadata_keys
  app_version_header :: string

definition new_application ::
  "classes \<Rightarrow> 'w handler registry \<Rightarrow> 'w pipeline option \<Rightarrow> 'w handler version_selector option \<Rightarrow>
   string option \<Rightarrow> metadata_keys option \<Rightarrow> 'w application outcome" where
  "new_application ct reg pipeline selector version_header metadata =
     (let keys0 = (case metadata of None \<Rightarrow> DEFAULT_METADATA_KEYS | Some k \<Rightarrow> k);
          router = message_router ct reg (case selector of None \<Rightarrow> exact_version | Some s \<Rightarrow> s);
          build = (\<lambda>keys. \<lparr>app_pipeline = pipeline_use router (case pipeline of None \<Rightarrow> [] | Some p \<Rightarrow> p),
                           app_metadata_keys = keys, app_version_header = py_lower (mk_version keys)\<rparr>)
      in case version_header of
           None \<Rightarrow> Inr (build keys0)
         | Some h \<Rightarrow>
             (case metadata of
                Some k \<Rightarrow>
                  if py_lower h \<noteq> py_lower (mk_version k) then
                    Inl (PyException ''ValueError'' (''version_header='' @ repr_str h
                      @ '' contradicts metadata_keys.version='' @ repr_str (mk_version k)
                      @ '': the version header is configured in one place''))
                  else Inr (build (keys0\<lparr>mk_version := h\<rparr>))
              | None \<Rightarrow> Inr (build (keys0\<lparr>mk_version := h\<rparr>))))"

definition no_items_error :: "pyval \<Rightarrow> pyexn" where
  "no_items_error v = PyException ''AttributeError'' ''object has no attribute items''"

definition app_handle :: "'w application \<Rightarrow> pydict \<Rightarrow> bool \<Rightarrow> ('w, response) action" where
  "app_handle app request ignore_unmatched = (\<lambda>w.
     let topic = v_or (vget request ''topic'') (VStr []);
         headers0 = v_or (vget request ''headers'') (VDict []);
         body = v_or (vget request ''body'') (VStr [])
     in case headers0 of
          VDict h0 \<Rightarrow>
            (let headers = lower_keys h0;
                 version = resolve_version headers (app_version_header app)
             in case (if truthy body then loads_val body else Some (VDict [])) of
                  None \<Rightarrow> (encode_response (Some (bad_request [ErrText ''Request body is not valid JSON''])), w)
                | Some parsed \<Rightarrow>
                    (let ctx = (mk_context topic parsed headers create_scope version)
                           \<lparr>ctx_ignore_unmatched_topic := ignore_unmatched\<rparr>
                     in case pipeline_handle (app_pipeline app) (ctx, w) of
                          (Inl e, (_, w')) \<Rightarrow> (Inl e, w')
                        | (Inr _, (ctx', w')) \<Rightarrow>
                            (case encode_response (ctx_result ctx') of
                               Inl e \<Rightarrow> (Inl e, w')
                             | Inr rsp \<Rightarrow>
                                 (Inr (if truthy version
                                       then rsp\<lparr>rsp_headers := dict_set (app_version_header app) version
                                              (rsp_headers rsp)\<rparr>
                                       else rsp), w'))))
        | _ \<Rightarrow> (Inl (no_items_error headers0), w))"

section \<open>Encoding and decoding\<close>

lemma opt_member_keys: "fst ` set (opt_member n v) \<subseteq> {n}"
  by (auto simp: opt_member_def split: option.splits)

lemma json_ok_problem_document: "json_ok (VDict (problem_to_payload p))"
  by (auto simp: problem_to_payload_def opt_member_def split: option.splits)

lemma json_ok_error_payload [simp]: "json_ok (VDict (error_payload r))"
  using json_ok_problem_document
  by (auto simp: error_payload_def opt_str_def split: option.splits)

lemma error_payload_status: "dict_mem ''benzeneStatus'' (error_payload r)"
  by (auto simp: error_payload_def problem_to_payload_def dict_mem_iff split: option.splits)

lemma vget_error_payload:
  assumes "res_problem r = None"
  shows "vget (error_payload r) ''errors'' = (if res_errors r = [] then VNone
           else VList (map error_to_payload (res_errors r)))"
    and "vget (error_payload r) ''detail'' = VStr (py_join '', '' (messages r))"
  using assms by (auto simp: error_payload_def split: option.splits)

lemma problem_errors_error_payload:
  assumes "res_problem r = None" "\<forall>e \<in> set (res_errors r). be_message e \<noteq> []"
  shows "problem_errors (error_payload r) = res_errors r"
proof (cases "res_errors r = []")
  case True
  then show ?thesis using vget_error_payload [OF assms(1)]
    by (simp add: problem_errors_def messages_def v_or_def)
next
  case False
  then show ?thesis using problem_errors_payload [OF _ assms(2)] vget_error_payload(1) [OF assms(1)]
    by simp
qed

lemma truthy_json_text: "json_ok v \<Longrightarrow> json_text v \<noteq> []"
  by (erule json_text_start) auto

lemma encode_failure:
  assumes "\<not> result_is_successful r"
  shows "encode_response (Some r) = Inr \<lparr>rsp_status_code = Some (res_status r),
     rsp_is_successful = VBool False,
     rsp_headers = [(''content-type'', VStr ''application/problem+json'')],
     rsp_body = VStr (json_text (VDict (error_payload r)))\<rparr>"
  using assms dumps_json_ok [OF json_ok_error_payload, of r] by (simp add: encode_response_def)

lemma encode_success:
  assumes "result_is_successful r" "res_payload r = VNone \<or> json_ok (to_jsonable (res_payload r))"
  shows "encode_response (Some r) = Inr \<lparr>rsp_status_code = Some (res_status r),
     rsp_is_successful = VBool True,
     rsp_headers = [(''content-type'', VStr ''application/json'')],
     rsp_body = VStr (if res_payload r = VNone then [] else json_text (to_jsonable (res_payload r)))\<rparr>"
  using assms by (auto simp: encode_response_def)

lemma decode_problem:
  assumes "rsp_is_successful env \<noteq> VBool True" "rsp_body env = VStr (json_text (VDict d))"
    "json_ok (VDict d)" "dict_mem ''benzeneStatus'' d" "rsp_status_code env = Some st" "st \<noteq> []"
  shows "decode_response env = mk_result st VNone (map ErrStruct (problem_errors d)) None
           (stated_flag False st)"
proof -
  have "loads (json_text (VDict d)) = Some (VDict d)" using assms(3) by (rule loads_json_text)
  moreover have "json_text (VDict d) \<noteq> []" using assms(3) by (rule truthy_json_text)
  ultimately show ?thesis
    using assms by (simp add: decode_response_def loads_val_def looks_like_problem_def or_text_def
        v_or_def successful_from_def Let_def del: json_text.simps)
qed

lemma decode_success:
  assumes "rsp_is_successful env = VBool True" "rsp_status_code env = Some st" "st \<noteq> []"
    "rsp_body env = VStr t" "t = [] \<and> p = VNone \<or> t = json_text p \<and> json_ok p"
  shows "decode_response env = mk_result st p [] None (stated_flag True st)"
proof (cases "t = []")
  case False
  with assms(5) have t: "t = json_text p" "loads t = Some p" by (auto intro: loads_json_text)
  with False show ?thesis
    using assms(1-4) by (simp add: decode_response_def loads_val_def or_text_def v_or_def
        successful_from_def Let_def split: pyval.splits)
next
  case True
  with assms(5) truthy_json_text [of p] have "p = VNone" by auto
  with True show ?thesis
    using assms(1-4) by (simp add: decode_response_def or_text_def v_or_def successful_from_def)
qed

lemma stated_flag_successful [simp]:
  "result_is_successful (mk_result st p es d (stated_flag b st)) = b"
  by (simp add: stated_flag_def result_is_successful_def)

text \<open>
  C1. The response envelope is a lossless carrier. A success whose payload has a JSON form decodes
  to the same status, the payload's wire form and the same classification; a failure decodes to
  the same status with every structured error, in order and whole (message, field and code).
  The sender's classification survives even for an application-defined status the receiver's
  vocabulary knows nothing about.
\<close>

theorem envelope_round_trip:
  assumes "res_status r \<noteq> []"
  shows "(result_is_successful r \<and> (res_payload r = VNone \<or> json_ok (to_jsonable (res_payload r))) \<longrightarrow>
            (\<exists>env. encode_response (Some r) = Inr env \<and>
               decode_response env = mk_result (res_status r) (to_jsonable (res_payload r)) [] None
                 (stated_flag True (res_status r)) \<and>
               result_is_successful (decode_response env))) \<and>
         (\<not> result_is_successful r \<longrightarrow>
            (\<exists>env. encode_response (Some r) = Inr env \<and>
               res_status (decode_response env) = res_status r \<and>
               \<not> result_is_successful (decode_response env) \<and>
               (res_problem r = None \<and> (\<forall>e \<in> set (res_errors r). be_message e \<noteq> []) \<longrightarrow>
                  res_errors (decode_response env) = res_errors r)))"
proof (intro conjI impI)
  assume s: "result_is_successful r \<and> (res_payload r = VNone \<or> json_ok (to_jsonable (res_payload r)))"
  then have j: "json_ok (to_jsonable (res_payload r))" by auto
  have "decode_response \<lparr>rsp_status_code = Some (res_status r), rsp_is_successful = VBool True,
      rsp_headers = h, rsp_body = VStr (if res_payload r = VNone then []
        else json_text (to_jsonable (res_payload r)))\<rparr> =
      mk_result (res_status r) (to_jsonable (res_payload r)) [] None (stated_flag True (res_status r))" for h
    by (rule decode_success) (use j assms in \<open>auto split: if_splits\<close>)
  then show "\<exists>env. encode_response (Some r) = Inr env \<and>
      decode_response env = mk_result (res_status r) (to_jsonable (res_payload r)) [] None
        (stated_flag True (res_status r)) \<and> result_is_successful (decode_response env)"
    using encode_success [of r] s by simp
next
  assume f: "\<not> result_is_successful r"
  note enc = encode_failure [OF f]
  have dec: "decode_response \<lparr>rsp_status_code = Some (res_status r), rsp_is_successful = VBool False,
      rsp_headers = h, rsp_body = VStr (json_text (VDict (error_payload r)))\<rparr> =
      mk_result (res_status r) VNone (map ErrStruct (problem_errors (error_payload r))) None
        (stated_flag False (res_status r))" for h
    by (rule decode_problem) (use assms in \<open>simp_all add: error_payload_status del: json_ok.simps json_text.simps\<close>)
  show "\<exists>env. encode_response (Some r) = Inr env \<and> res_status (decode_response env) = res_status r \<and>
      \<not> result_is_successful (decode_response env) \<and>
      (res_problem r = None \<and> (\<forall>e \<in> set (res_errors r). be_message e \<noteq> []) \<longrightarrow>
         res_errors (decode_response env) = res_errors r)"
    by (simp add: enc dec problem_errors_error_payload comp_def del: json_text.simps)
qed

theorem envelope_round_trip_witness:
  "\<exists>env. encode_response (Some (mk_result ''cache-warm'' (VList [VInt 1]) [] None (Some True))) = Inr env \<and>
     decode_response env = mk_result ''cache-warm'' (VList [VInt 1]) [] None (Some True)"
  using envelope_round_trip [of "mk_result ''cache-warm'' (VList [VInt 1]) [] None (Some True)"]
  by (auto simp: result_is_successful_def stated_flag_def is_successful_def SUCCESS_STATUSES_def)

section \<open>Invocations that never raise\<close>

text \<open>
  A result the envelope can carry, the contexts the router accepts, steps that stay within them,
  and middleware that keeps a well-behaved step well behaved: the contract every middleware of
  the packages is to meet.
\<close>

definition result_ok :: "result option \<Rightarrow> bool" where
  "result_ok r \<longleftrightarrow> (case r of None \<Rightarrow> True
     | Some r' \<Rightarrow> result_is_successful r' \<longrightarrow> serializable (res_payload r'))"

definition ctx_ok :: "message_context \<Rightarrow> bool" where
  "ctx_ok ctx \<longleftrightarrow> hashable (ctx_topic ctx) \<and> hashable (ctx_version ctx) \<and> result_ok (ctx_result ctx)"

definition step_ok :: "'w step \<Rightarrow> bool" where
  "step_ok st \<longleftrightarrow> (\<forall>ctx w. ctx_ok ctx \<longrightarrow> (\<exists>ctx' w'. st (ctx, w) = (Inr (), (ctx', w')) \<and> ctx_ok ctx'))"

definition middleware_ok :: "'w middleware \<Rightarrow> bool" where
  "middleware_ok m \<longleftrightarrow> (\<forall>st. step_ok st \<longrightarrow> step_ok (m st))"

definition answers_ok :: "'w handler \<Rightarrow> bool" where
  "answers_ok h \<longleftrightarrow> (\<forall>req w r w'. h req w = (Inr r, w') \<longrightarrow> result_ok r)"

definition handlers_ok :: "'w handler registry \<Rightarrow> bool" where
  "handlers_ok reg \<longleftrightarrow> (\<forall>d \<in> snd ` set reg. handler_ok (hd_handler d) \<and> answers_ok (hd_handler d))"

lemma answers_okD: "answers_ok h \<Longrightarrow> h req w = (Inr r, w') \<Longrightarrow> result_ok r"
  by (simp add: answers_ok_def) blast

lemma result_ok_failure [simp]:
  "result_ok (Some (failure st es))" "result_ok None" "result_ok (Some (ok VNone))"
  "result_ok (Some (ignored VNone))"
  by (simp_all add: result_ok_def ignored_def)

lemma result_ok_factories [simp]:
  "result_ok (Some (bad_request es))" "result_ok (Some (service_unavailable es))"
  "result_ok (Some (not_found es))" "result_ok (Some (validation_error es))"
  by (simp_all add: failure_factories)

lemma step_ok_return [simp]: "step_ok (act_return ())"
  by (auto simp: step_ok_def act_return_def)

lemma run_handler_result_ok:
  assumes "run_handler ct d (ctx, w) = (Inr (), (ctx', w'))"
    and "answers_ok (hd_handler d)"
  shows "result_ok (ctx_result ctx')"
  using assms by (auto simp: run_handler_def set_result_of_def split: sum.splits if_splits prod.splits
      dest: answers_okD)

lemma router_step_ok:
  assumes "classes_ok ct" "handlers_ok reg"
  shows "step_ok (message_router ct reg exact_version nxt)"
  unfolding step_ok_def
proof (intro allI impI)
  fix ctx :: message_context and w
  assume c: "ctx_ok ctx"
  obtain r w' where m: "message_router ct reg exact_version nxt (ctx, w) =
      (Inr (), (ctx\<lparr>ctx_result := r\<rparr>, w'))"
    using message_router_total [OF assms(1), of reg ctx nxt w] assms(2) c
    by (auto simp: handlers_ok_def ctx_ok_def)
  have "result_ok r"
  proof (cases "exact_version reg (ctx_topic ctx) (ctx_version ctx)")
    case (Inr x)
    show ?thesis
    proof (cases "\<exists>d. x = Some d \<and> truthy (ctx_topic ctx) \<and> ctx_topic ctx \<noteq> VStr PING_TOPIC")
      case True
      then obtain d where d: "x = Some d" by blast
      with Inr have "d \<in> snd ` set reg" using exact_version_registered by blast
      with assms(2) have "answers_ok (hd_handler d)" by (auto simp: handlers_ok_def)
      moreover have "run_handler ct d (ctx, w) = (Inr (), (ctx\<lparr>ctx_result := r\<rparr>, w'))"
        using m True Inr d by (simp add: message_router_def)
      ultimately show ?thesis using run_handler_result_ok by fastforce
    qed (use m Inr in \<open>auto simp: message_router_def set_result_of_def message_context.ext_inject
        message_context.update_convs split: if_splits option.splits dest!: arg_cong [of _ _ ctx_result]\<close>)
  qed (use m in \<open>auto simp: message_router_def set_result_of_def split: if_splits
        dest!: arg_cong [of _ _ ctx_result]\<close>)
  with m c show "\<exists>ctx' w'. message_router ct reg exact_version nxt (ctx, w) = (Inr (), ctx', w') \<and> ctx_ok ctx'"
    by (auto simp: ctx_ok_def)
qed

lemma pipeline_step_ok:
  "\<forall>m \<in> set p. middleware_ok m \<Longrightarrow> step_ok last_step \<Longrightarrow> step_ok (pipeline_handle (p @ [\<lambda>_. last_step]))"
  by (induction p) (auto simp: middleware_ok_def)

lemma encode_total: "result_ok r \<Longrightarrow> \<exists>rsp. encode_response r = Inr rsp"
proof -
  assume r: "result_ok r"
  define r' where "r' = (case r of None \<Rightarrow> failure ''unexpected-error'' [ErrText ''The pipeline produced no result'']
      | Some x \<Rightarrow> x)"
  have same: "encode_response r = encode_response (Some r')"
    by (cases r) (simp_all add: r'_def encode_response_def)
  have "result_ok (Some r')" using r by (cases r) (simp_all add: r'_def)
  then show ?thesis
  proof (cases "result_is_successful r'")
    case True
    with \<open>result_ok (Some r')\<close> have "dumpable (to_jsonable (res_payload r'))"
      by (simp add: result_ok_def to_jsonable_dumpable)
    with True show ?thesis unfolding same by (simp add: encode_response_def dumps_def)
  qed (simp add: same encode_failure del: json_text.simps)
qed

lemma handle_total:
  assumes app: "new_application ct reg (Some p) None vh mk = Inr app"
    and ok: "classes_ok ct" "handlers_ok reg" "\<forall>m \<in> set p. middleware_ok m"
    and env: "v_or (vget request ''headers'') (VDict []) = VDict h"
      "hashable (vget request ''topic'')" "\<forall>v \<in> snd ` set h. hashable v"
  shows "\<exists>rsp w'. app_handle app request ignore w = (Inr rsp, w')"
proof -
  let ?router = "message_router ct reg exact_version (act_return ())"
  have pipe: "app_pipeline app = p @ [\<lambda>nxt. message_router ct reg exact_version nxt]"
    using app by (auto simp: new_application_def pipeline_use_def Let_def split: option.splits if_splits)
  have const: "(\<lambda>nxt. message_router ct reg exact_version nxt) = (\<lambda>_. ?router)"
    by (rule ext) (rule message_router_terminal)
  have "app_pipeline app = p @ [\<lambda>_. ?router]"
    by (rule trans [OF pipe]) (rule arg_cong [OF const, of "\<lambda>m. p @ [m]"])
  then have step: "step_ok (pipeline_handle (app_pipeline app))"
    using pipeline_step_ok [OF ok(3) router_step_ok [OF ok(1,2), of "act_return ()"]] by (simp only:)
  have "hashable v" if "(k, v) \<in> set (lower_keys h)" for k v
  proof -
    from that have "(k, v) \<in> set (map (\<lambda>(k, v). (py_lower k, v)) h)"
      unfolding lower_keys_def using set_dict_of by blast
    with env(3) show ?thesis by force
  qed
  then have "hashable (resolve_version (lower_keys h) name)" for name
    by (cases "dict_get (lower_keys h) (py_lower name)")
      (auto simp: resolve_version_def v_or_def vget_def dest: map_of_SomeD)
  moreover have "hashable (v_or (vget request ''topic'') (VStr []))"
    using env(2) by (simp add: v_or_def)
  ultimately have ctx: "ctx_ok ((mk_context (v_or (vget request ''topic'') (VStr [])) parsed (lower_keys h)
      create_scope (resolve_version (lower_keys h) (app_version_header app)))
      \<lparr>ctx_ignore_unmatched_topic := ignore\<rparr>)" for parsed
    by (simp add: ctx_ok_def mk_context_def)
  show ?thesis
  proof (cases "if truthy (v_or (vget request ''body'') (VStr [])) then loads_val (v_or (vget request ''body'') (VStr []))
        else Some (VDict [])")
    case None
    then show ?thesis
      using encode_total [of "Some (bad_request [ErrText ''Request body is not valid JSON''])"] env(1)
      by (simp add: app_handle_def)
  next
    case (Some parsed)
    obtain ctx' w' where p: "pipeline_handle (app_pipeline app)
        ((mk_context (v_or (vget request ''topic'') (VStr [])) parsed (lower_keys h)
      create_scope (resolve_version (lower_keys h) (app_version_header app)))
      \<lparr>ctx_ignore_unmatched_topic := ignore\<rparr>, w) = (Inr (), (ctx', w'))" "ctx_ok ctx'"
      using step ctx [of parsed] unfolding step_ok_def by blast
    obtain rsp where "encode_response (ctx_result ctx') = Inr rsp"
      using p(2) encode_total by (auto simp: ctx_ok_def)
    with p(1) Some env(1) show ?thesis by (simp add: app_handle_def Let_def)
  qed
qed

text \<open>
  C2. The entry point answers every well-typed message: with middleware that meets the contract,
  handlers that raise only \<open>Exception\<close>s and return results with a JSON form, a request envelope
  whose headers are an object (or absent) and whose topic and version can be looked up always
  gets a response envelope, whatever its body is.
\<close>

theorem handle_answers:
  assumes app: "new_application ct reg (Some p) None vh mk = Inr app"
    and ok: "classes_ok ct" "handlers_ok reg" "\<forall>m \<in> set p. middleware_ok m"
    and env: "v_or (vget request ''headers'') (VDict []) = VDict h"
      "hashable (vget request ''topic'')" "\<forall>v \<in> snd ` set h. hashable v"
  shows "\<exists>rsp w'. app_handle app request ignore w = (Inr rsp, w')"
  using assms by (rule handle_total)

definition plain_app :: "'w application" where
  "plain_app = \<lparr>app_pipeline = [message_router (\<lambda>_ _. Inr VNone, \<lambda>_ _. Inr VNone) [] exact_version],
     app_metadata_keys = DEFAULT_METADATA_KEYS, app_version_header = ''benzene-version''\<rparr>"

lemma new_application_plain:
  "new_application (\<lambda>_ _. Inr VNone, \<lambda>_ _. Inr VNone) [] (Some []) None None None = Inr plain_app"
proof -
  have "py_lower ''benzene-version'' = ''benzene-version''" by code_simp
  then show ?thesis
    by (simp add: new_application_def pipeline_use_def plain_app_def DEFAULT_METADATA_KEYS_def)
qed

theorem handle_answers_witness:
  "\<exists>rsp w'. app_handle plain_app [(''topic'', VStr ''orders:place''), (''body'', VStr ''{'')] False () = (Inr rsp, w')"
  using handle_answers [OF new_application_plain,
      of "[(''topic'', VStr ''orders:place''), (''body'', VStr ''{'')]" "[]" False "()"]
  by (simp add: classes_ok_def handlers_ok_def v_or_def)

text \<open>
  These conditions are needed, although \<open>handle\<close> promises never to raise for content: any
  application raises \<open>AttributeError\<close> for a request whose \<open>headers\<close> member is a non-empty list or
  string, before it looks at the body; and one with no further middleware raises \<open>TypeError\<close> for a
  \<open>topic\<close> that is a non-empty list.
\<close>

lemma handle_raises_for_content:
  "app_handle app [(''headers'', VStr (c # s))] ignore w
     = (Inl (PyException ''AttributeError'' ''object has no attribute items''), w) \<and>
   app_handle app [(''headers'', VList (x # xs))] ignore w
     = (Inl (PyException ''AttributeError'' ''object has no attribute items''), w) \<and>
   app_handle plain_app [(''topic'', VList (x # xs))] ignore w = (Inl (PyException ''TypeError'' ''unhashable type''), w)"
  by (simp add: app_handle_def v_or_def no_items_error_def plain_app_def mk_context_def lower_keys_def
      dict_of_def resolve_version_def message_router_def exact_version_def default_for_def
      find_handler_def unhashable_error_def)

end
