(* ===== verification/Settlement.thy ===== *)
theory Settlement
  imports Envelope
begin

text \<open>
  \<open>benzene.core.settlement\<close>: whether a one-way binding (a queue, a topic, a stream) acknowledges
  a message after its invocation. The log lines of \<open>dispatch_one_way\<close> are not modelled.
\<close>

record settlement =
  st_at_most_once :: bool
  st_ignore_unmatched_topics :: bool

definition AT_LEAST_ONCE :: settlement where
  "AT_LEAST_ONCE = \<lparr>st_at_most_once = False, st_ignore_unmatched_topics = False\<rparr>"

definition acknowledges :: "settlement \<Rightarrow> result \<Rightarrow> bool" where
  "acknowledges st r = (st_at_most_once st \<or> result_is_successful r)"

record settlement_defaults =
  sd_binding :: string
  sd_shape :: string
  sd_on_failure :: string
  sd_unmatched_topic :: string

definition redelivers :: "string \<Rightarrow> string \<Rightarrow> settlement_defaults" where
  "redelivers binding shape =
     (if shape = ''request-response''
      then \<lparr>sd_binding = binding, sd_shape = shape, sd_on_failure = ''n/a'', sd_unmatched_topic = ''n/a''\<rparr>
      else \<lparr>sd_binding = binding, sd_shape = shape, sd_on_failure = ''redeliver'',
            sd_unmatched_topic = ''redeliver''\<rparr>)"

record one_way_outcome =
  ow_topic :: string
  ow_result :: result
  ow_response :: "response option"
  ow_acknowledge :: bool
  ow_error :: "pyexn option"

definition exn_repr :: "pyexn \<Rightarrow> string" where
  "exn_repr e = (case e of PyException c t \<Rightarrow> c @ ''('' @ repr_str t @ '')'' | PyCancelled \<Rightarrow> ''CancelledError()'')"

definition one_way_detail :: "one_way_outcome \<Rightarrow> string" where
  "one_way_detail ow = (case ow_response ow of
     Some rsp \<Rightarrow> str_val (v_or (rsp_body rsp) (VStr []))
   | None \<Rightarrow> (case ow_error ow of Some e \<Rightarrow> exn_repr e | None \<Rightarrow> []))"

text \<open>
  \<open>decode(*args)\<close> is the binding's own function from the native message to an envelope; here it
  is \<open>decoded\<close>, the outcome of calling it.
\<close>

definition dispatch_one_way ::
  "'w application \<Rightarrow> settlement \<Rightarrow> pydict outcome \<Rightarrow> ('w, one_way_outcome) action" where
  "dispatch_one_way app st decoded = (\<lambda>w.
     let swallow = (\<lambda>topic e w'. if catchable e \<and> st_at_most_once st
           then (Inr \<lparr>ow_topic = topic,
                      ow_result = unexpected_error [ErrText (exn_class e @ '': '' @ exn_text e)],
                      ow_response = None, ow_acknowledge = True, ow_error = Some e\<rparr>, w')
           else (Inl e, w'))
     in case decoded of
          Inl e \<Rightarrow> swallow [] e w
        | Inr envelope \<Rightarrow>
            (let topic = str_val (v_or (vget envelope ''topic'') (VStr []))
             in case app_handle app envelope (st_ignore_unmatched_topics st) w of
                  (Inl e, w') \<Rightarrow> swallow topic e w'
                | (Inr rsp, w') \<Rightarrow>
                    (let r = decode_response rsp
                     in (Inr \<lparr>ow_topic = topic, ow_result = r, ow_response = Some rsp,
                             ow_acknowledge = acknowledges st r, ow_error = None\<rparr>, w'))))"

section \<open>Facts\<close>

lemma decode_response_successful:
  "result_is_successful (decode_response rsp) \<Longrightarrow> successful_from rsp"
  by (auto simp: decode_response_def unexpected_error_def Let_def
      split: if_splits option.splits pyval.splits)

text \<open>
  C6. At-least-once delivery: without the at-most-once option a message is acknowledged only when
  its invocation returned a response envelope whose own \<open>isSuccessful\<close> is \<open>True\<close>; a failure, a
  missing result or an exception (of the binding's decode step or of the invocation) never
  acknowledges. With the option every message whose invocation ends is acknowledged, an exception
  included, unless the task was cancelled.
\<close>

theorem settlement_rule:
  "(\<not> st_at_most_once st \<and> dispatch_one_way app st decoded w = (Inr ow, w') \<and> ow_acknowledge ow \<longrightarrow>
      (\<exists>env rsp. decoded = Inr env \<and> app_handle app env (st_ignore_unmatched_topics st) w = (Inr rsp, w') \<and>
         rsp_is_successful rsp = VBool True \<and> ow_response ow = Some rsp)) \<and>
   (st_at_most_once st \<and> decoded \<noteq> Inl PyCancelled \<and>
      (\<forall>env w''. decoded = Inr env \<longrightarrow>
         app_handle app env (st_ignore_unmatched_topics st) w \<noteq> (Inl PyCancelled, w'')) \<longrightarrow>
      (\<exists>ow' w''. dispatch_one_way app st decoded w = (Inr ow', w'') \<and> ow_acknowledge ow'))"
proof (intro conjI impI)
  assume a: "\<not> st_at_most_once st \<and> dispatch_one_way app st decoded w = (Inr ow, w') \<and> ow_acknowledge ow"
  then obtain env where env: "decoded = Inr env" by (auto simp: dispatch_one_way_def split: sum.splits)
  obtain x w1 where h: "app_handle app env (st_ignore_unmatched_topics st) w = (x, w1)"
    by (cases "app_handle app env (st_ignore_unmatched_topics st) w")
  with a env obtain rsp where "x = Inr rsp" "w1 = w'" "ow_response ow = Some rsp"
    "ow_acknowledge ow = acknowledges st (decode_response rsp)"
    by (cases x) (auto simp: dispatch_one_way_def Let_def)
  with a env h show "\<exists>env rsp. decoded = Inr env \<and>
      app_handle app env (st_ignore_unmatched_topics st) w = (Inr rsp, w') \<and>
      rsp_is_successful rsp = VBool True \<and> ow_response ow = Some rsp"
    using decode_response_successful by (auto simp: acknowledges_def successful_from_def)
next
  assume a: "st_at_most_once st \<and> decoded \<noteq> Inl PyCancelled \<and>
      (\<forall>env w''. decoded = Inr env \<longrightarrow>
         app_handle app env (st_ignore_unmatched_topics st) w \<noteq> (Inl PyCancelled, w''))"
  have c: "catchable e" if "e \<noteq> PyCancelled" for e using that by (cases e) auto
  show "\<exists>ow' w''. dispatch_one_way app st decoded w = (Inr ow', w'') \<and> ow_acknowledge ow'"
  proof (cases decoded)
    case (Inl e)
    with a c show ?thesis by (auto simp: dispatch_one_way_def)
  next
    case (Inr env)
    obtain x w1 where h: "app_handle app env (st_ignore_unmatched_topics st) w = (x, w1)"
      by (cases "app_handle app env (st_ignore_unmatched_topics st) w")
    with a Inr c show ?thesis by (cases x) (auto simp: dispatch_one_way_def acknowledges_def Let_def)
  qed
qed

theorem settlement_rule_witness:
  "\<exists>ow w'. dispatch_one_way plain_app \<lparr>st_at_most_once = True, st_ignore_unmatched_topics = False\<rparr>
     (Inl (PyException ''ValueError'' ''bad record'')) () = (Inr ow, w') \<and> ow_acknowledge ow"
  using settlement_rule [of "\<lparr>st_at_most_once = True, st_ignore_unmatched_topics = False\<rparr>" plain_app
      "Inl (PyException ''ValueError'' ''bad record'')" "()"] by auto

end
