(* ===== verification/InProcess.thy ===== *)
theory InProcess
  imports Envelope
begin

text \<open>
  \<open>benzene.core.inprocess\<close>: named in-process pipelines and the two senders over them. A sender is
  an action on the world; the log lines of the fan-out are not modelled. \<open>asyncio.gather\<close> runs
  the fan-out's targets in an order the event loop chooses: it is the argument \<open>order\<close>, a list of
  positions, and every target is one step of it.
\<close>

section \<open>Pipelines\<close>

type_synonym 'w pipelines = "(string, 'w application) dict"

definition pipelines_add :: "string \<times> 'w application \<Rightarrow> 'w pipelines \<Rightarrow> pyexn + 'w pipelines" where
  "pipelines_add entry ps =
     (if dict_mem (fst entry) ps then
        Inl (PyException ''DuplicatePipelineError''
          (''Pipeline '' @ repr_str (fst entry) @ '' was already added to this Pipelines set.''))
      else Inr (dict_set (fst entry) (snd entry) ps))"

definition pipelines_names :: "'w pipelines \<Rightarrow> string list" where
  "pipelines_names ps = dict_keys ps"

definition pipelines_get :: "'w pipelines \<Rightarrow> string \<Rightarrow> 'w application outcome" where
  "pipelines_get ps name = (case dict_get ps name of
     Some app \<Rightarrow> Inr app
   | None \<Rightarrow> Inl (PyException ''PipelineNotFoundError''
       (''No pipeline named '' @ repr_str name @ '' is registered in this Pipelines set (registered: ''
        @ repr_val (VList (map VStr (pipelines_names ps))) @ '').'')))"

section \<open>Senders\<close>

type_synonym 'w sender = "string \<Rightarrow> pyval \<Rightarrow> pydict option \<Rightarrow> ('w, result) action"

definition headers_or_empty :: "pydict option \<Rightarrow> pydict" where
  "headers_or_empty h = (case h of None \<Rightarrow> [] | Some d \<Rightarrow> d)"

definition dispatch :: "'w application \<Rightarrow> 'w sender" where
  "dispatch app topic message headers = (\<lambda>w. case encode_body message of
     Inl e \<Rightarrow> (Inl e, w)
   | Inr body \<Rightarrow>
       (case app_handle app [(''topic'', VStr topic), (''headers'', VDict (headers_or_empty headers)),
               (''body'', VStr body)] False w of
          (Inl e, w') \<Rightarrow> (Inl e, w')
        | (Inr rsp, w') \<Rightarrow> (Inr (decode_response rsp), w')))"

definition in_process_sender :: "'w pipelines \<Rightarrow> string \<Rightarrow> 'w sender outcome" where
  "in_process_sender ps name = (case pipelines_get ps name of
     Inl e \<Rightarrow> Inl e
   | Inr app \<Rightarrow> Inr (dispatch app))"

definition dispatch_one :: "'w application \<Rightarrow> string \<Rightarrow> pyval \<Rightarrow> pydict option \<Rightarrow> ('w, unit) action" where
  "dispatch_one app topic message headers = (\<lambda>w. case dispatch app topic message headers w of
     (Inl e, w') \<Rightarrow> if catchable e then (Inr (), w') else (Inl e, w')
   | (Inr _, w') \<Rightarrow> (Inr (), w'))"

fun run_each :: "('w, unit) action list \<Rightarrow> ('w, unit) action" where
  "run_each [] w = (Inr (), w)"
| "run_each (a # as) w = (case a w of (Inl e, w') \<Rightarrow> (Inl e, w') | (Inr _, w') \<Rightarrow> run_each as w')"

definition fan_out_sender :: "'w pipelines \<Rightarrow> string list \<Rightarrow> 'w application list outcome" where
  "fan_out_sender ps names =
     (if names = [] then
        Inl (PyException ''ValueError'' ''InProcessFanOutSender requires at least one pipeline name.'')
      else collect (pipelines_get ps) names)"

definition fan_out_send :: "nat list \<Rightarrow> 'w application list \<Rightarrow> 'w sender" where
  "fan_out_send order apps topic message headers = (\<lambda>w.
     case run_each (map (\<lambda>i. dispatch_one (apps ! i) topic message headers) order) w of
       (Inl e, w') \<Rightarrow> (Inl e, w')
     | (Inr _, w') \<Rightarrow> (Inr (ok VNone), w'))"

section \<open>Facts\<close>

interpretation pipelines: keyed_registry pipelines_add fst
  "\<lambda>ps name. map_option (Pair name) (dict_get ps name)"
  by unfold_locales (auto simp: pipelines_add_def dict_mem_def fun_eq_iff split: if_splits)

lemma pipelines_get_Inr: "pipelines_get ps name = Inr app \<longleftrightarrow> dict_get ps name = Some app"
  by (simp add: pipelines_get_def split: option.splits)

lemma in_process_sender_Inr:
  "in_process_sender ps name = Inr send \<longleftrightarrow> (\<exists>app. dict_get ps name = Some app \<and> send = dispatch app)"
  by (auto simp: in_process_sender_def pipelines_get_def split: option.splits)

text \<open>
  A pipeline set resolves every name it was given to the application it was given, and no
  other name: registering a name twice is refused, and building a sender for an unregistered name
  fails at construction.
\<close>

lemma pipelines_resolve:
  assumes "add_all pipelines_add entries [] = Inr ps"
  shows "distinct (map fst entries) \<and>
    (in_process_sender ps name = Inr send \<longleftrightarrow> (\<exists>app. (name, app) \<in> set entries \<and> send = dispatch app)) \<and>
    (fan_out_sender ps names = Inr apps \<longleftrightarrow>
       names \<noteq> [] \<and> list_all2 (\<lambda>n app. (n, app) \<in> set entries) names apps)"
proof -
  have d: "distinct (map fst entries)" using pipelines.add_all_distinct [OF assms] by simp
  have "map_option (Pair n) (dict_get ps n) = map_of (map (\<lambda>v. (fst v, v)) entries) n" for n
    using fun_cong [OF pipelines.add_all_lookup [OF assms], of n] by (simp add: map_add_def split: option.splits)
  moreover have "map_of (map (\<lambda>v. (fst v, v)) entries) n = map_option (Pair n) (map_of entries n)" for n
    by (induction entries) auto
  ultimately have eq: "map_option (Pair n) (dict_get ps n) = map_option (Pair n) (map_of entries n)" for n
    by simp
  have "dict_get ps n = map_of entries n" for n
    using eq [of n] by (cases "dict_get ps n"; cases "map_of entries n") auto
  then have look: "dict_get ps n = Some app \<longleftrightarrow> (n, app) \<in> set entries" for n app
    using map_of_eq_Some_iff [OF d] by simp
  show ?thesis
    using d by (simp add: in_process_sender_Inr fan_out_sender_def collect_Inr pipelines_get_Inr look)
qed

text \<open>A run whose targets do not get cancelled reaches every target, in order.\<close>

lemma dispatch_one_total:
  assumes "\<And>w w'. dispatch app topic message headers w \<noteq> (Inl PyCancelled, w')"
  shows "dispatch_one app topic message headers w = (Inr (), snd (dispatch app topic message headers w))"
proof -
  obtain x w' where d: "dispatch app topic message headers w = (x, w')"
    by (cases "dispatch app topic message headers w")
  show ?thesis
  proof (cases x)
    case (Inl e)
    with d assms [of w w'] show ?thesis by (cases e) (auto simp: dispatch_one_def)
  qed (simp add: dispatch_one_def d)
qed

lemma run_each_total:
  assumes "\<And>a w. a \<in> set as \<Longrightarrow> fst (a w) = Inr ()"
  shows "run_each as w = (Inr (), fold (\<lambda>a w. snd (a w)) as w)"
  using assms
proof (induction as arbitrary: w)
  case (Cons a as)
  obtain x w' where a: "a w = (x, w')" by (cases "a w")
  with Cons.prems [of a w] Cons.IH [of w'] Cons.prems show ?case by simp
qed simp

text \<open>
  The fan-out isolates its targets: in whatever order the event loop runs them, and whatever
  each of them does (a failed result, an exception), every target runs and the sender answers
  \<open>ok\<close>; the world it leaves is the one the targets' own dispatches leave, one after the other.
\<close>

lemma fan_out_isolated:
  assumes "\<And>app w w'. app \<in> set apps \<Longrightarrow> dispatch app topic message headers w \<noteq> (Inl PyCancelled, w')"
    and "set order \<subseteq> {..< length apps}"
  shows "fan_out_send order apps topic message headers w =
    (Inr (ok VNone), fold (\<lambda>i w. snd (dispatch (apps ! i) topic message headers w)) order w)"
proof -
  let ?act = "\<lambda>i. dispatch_one (apps ! i) topic message headers"
  have one: "?act i w = (Inr (), snd (dispatch (apps ! i) topic message headers w))"
    if "i \<in> set order" for i w
    using that assms(2) by (intro dispatch_one_total assms(1)) auto
  have "run_each (map ?act order) w = (Inr (), fold (\<lambda>a w. snd (a w)) (map ?act order) w)"
    by (rule run_each_total) (auto simp: one)
  also have "fold (\<lambda>a w. snd (a w)) (map ?act order) w =
      fold (\<lambda>i w. snd (dispatch (apps ! i) topic message headers w)) order w"
    unfolding fold_map using one by (intro fold_cong) auto
  finally show ?thesis by (simp add: fan_out_send_def)
qed

lemma plain_app_handle:
  "app_handle plain_app [(''topic'', VStr []), (''headers'', VDict []), (''body'', VStr [])] False w =
     (encode_response (Some (validation_error [ErrText ''Topic is required''])), w)"
  by (auto simp: app_handle_def v_or_def plain_app_def mk_context_def lower_keys_def dict_of_def
      resolve_version_def message_router_def set_result_of_def Let_def split: sum.splits)

end
