(* ===== verification/Outbound.thy ===== *)
theory Outbound
  imports InProcess
begin

text \<open>
  \<open>benzene.core.outbound\<close> (the retry and correlation-id decorators over a sender) and
  \<open>benzene.core.clients\<close> (classifying the exception of a call that never got a reply).

  A sender is the action \<open>InProcess.sender\<close>; the decorators take one and are one.
\<close>

section \<open>Retry\<close>

definition DEFAULT_RETRYABLE :: "string list" where
  "DEFAULT_RETRYABLE = [''service-unavailable'', ''timeout'', ''too-many-requests'']"

definition retryable :: "string list \<Rightarrow> result \<Rightarrow> bool" where
  "retryable retry_on r = (\<not> (result_is_successful r \<or> res_status r \<notin> set retry_on))"

text \<open>The loop body for \<open>attempt\<close>, with \<open>n\<close> attempts left.\<close>

fun retry_loop ::
  "('w, result) action \<Rightarrow> string list \<Rightarrow> (nat \<Rightarrow> ('w, unit) action) option \<Rightarrow> nat \<Rightarrow> nat \<Rightarrow> result \<Rightarrow>
   ('w, result) action" where
  "retry_loop send retry_on backoff 0 attempt r = act_return r"
| "retry_loop send retry_on backoff (Suc n) attempt r =
     (if \<not> retryable retry_on r then act_return r
      else act_bind (case backoff of None \<Rightarrow> act_return () | Some b \<Rightarrow> b attempt)
        (\<lambda>_. act_bind send (\<lambda>r'. retry_loop send retry_on backoff n (attempt + 1) r')))"

definition retrying_sender ::
  "int \<Rightarrow> string list \<Rightarrow> (nat \<Rightarrow> ('w, unit) action) option \<Rightarrow> 'w sender \<Rightarrow> 'w sender" where
  "retrying_sender attempts retry_on backoff inner topic message headers =
     act_bind (inner topic message headers)
       (\<lambda>r. retry_loop (inner topic message headers) retry_on backoff (nat (max 1 attempts) - 1) 1 r)"

section \<open>Correlation ids\<close>

definition correlation_sender :: "string \<Rightarrow> ('w, string) action \<Rightarrow> 'w sender \<Rightarrow> 'w sender" where
  "correlation_sender header new_id inner topic message headers =
     (let out = headers_or_empty headers
      in if \<not> list_ex (\<lambda>k. py_lower k = py_lower header) (dict_keys out)
         then act_bind new_id (\<lambda>i. inner topic message (Some (dict_set header (VStr i) out)))
         else inner topic message (Some out))"

section \<open>Failed calls\<close>

text \<open>
  An exception object: the class names of its MRO, whether it is a \<open>TimeoutError\<close> instance, and
  its links. Objects are positions of the list that holds them, so that identity is position.
\<close>

record err =
  er_class :: string
  er_mro :: "string list"
  er_timeout_instance :: bool
  er_reason :: "nat option"
  er_cause :: "nat option"
  er_context :: "nat option"
  er_text :: string

definition timeout_error :: "err \<Rightarrow> bool" where
  "timeout_error e = (er_timeout_instance e \<or>
     list_ex (\<lambda>cls. list_ex (\<lambda>m. infix_of m cls) [''Timeout'', ''TimedOut'', ''DeadlineExceeded'']) (er_mro e))"

definition links :: "err \<Rightarrow> nat list" where
  "links e = concat (map (\<lambda>x. case x of None \<Rightarrow> [] | Some i \<Rightarrow> [i]) [er_reason e, er_cause e, er_context e])"

text \<open>
  The loop: \<open>pending\<close> is a stack whose top is the end of Python's list. An address outside the
  store stands for no object.
\<close>

function timeout_loop :: "err list \<Rightarrow> nat list \<Rightarrow> nat list \<Rightarrow> nat option \<Rightarrow> bool" where
  "timeout_loop errs seen pending None = False"
| "timeout_loop errs seen pending (Some i) =
     (if i \<in> set seen \<or> length errs \<le> i then False
      else if timeout_error (errs ! i) then True
      else (let stack = rev (links (errs ! i)) @ pending
            in case stack of
                 [] \<Rightarrow> timeout_loop errs (i # seen) [] None
               | j # rest \<Rightarrow> timeout_loop errs (i # seen) rest (Some j)))"
  by pat_completeness auto

termination
proof (relation "measure (\<lambda>(errs, seen, pending, cur).
    2 * card ({..< length errs} - set seen) + (if cur = None then 0 else 1))")
  have less: "card ({..< length errs} - set (i # seen)) < card ({..< length errs} - set seen)"
    if "\<not> (i \<in> set seen \<or> length errs \<le> i)" for errs :: "err list" and seen and i
  proof -
    have "{..< length errs} - set (i # seen) = ({..< length errs} - set seen) - {i}" by auto
    moreover have "i \<in> {..< length errs} - set seen" using that by simp
    ultimately show ?thesis by (simp only: card_Diff1_less finite_Diff finite_lessThan)
  qed
  fix errs :: "err list" and seen pending :: "nat list" and i x j rest
  assume n: "\<not> (i \<in> set seen \<or> length errs \<le> i)"
  show "((errs, i # seen, [], None), errs, seen, pending, Some i) \<in> measure (\<lambda>(errs, seen, pending, cur).
      2 * card ({..< length errs} - set seen) + (if cur = None then 0 else 1))"
    using less [OF n] by simp
  show "((errs, i # seen, rest, Some j), errs, seen, pending, Some i) \<in> measure (\<lambda>(errs, seen, pending, cur).
      2 * card ({..< length errs} - set seen) + (if cur = None then 0 else 1))"
    using less [OF n] by simp
qed simp

definition is_timeout :: "err list \<Rightarrow> nat \<Rightarrow> bool" where
  "is_timeout errs i = timeout_loop errs [] [] (Some i)"

definition failed_call_result :: "err list \<Rightarrow> nat \<Rightarrow> string \<Rightarrow> result" where
  "failed_call_result errs i target =
     (let reason = (if er_text (errs ! i) = [] then er_class (errs ! i) else er_text (errs ! i))
      in failure (if is_timeout errs i then ''timeout'' else ''service-unavailable'')
           [ErrText (if target = [] then reason else target @ '': '' @ reason)])"

section \<open>Facts about retrying\<close>

text \<open>
  The \<open>k\<close>-th attempt of a sender that does not raise, from the world the earlier ones left.
\<close>

fun attempt_world :: "('w, result) action \<Rightarrow> nat \<Rightarrow> 'w \<Rightarrow> 'w" where
  "attempt_world send 0 w = w"
| "attempt_world send (Suc k) w = attempt_world send k (snd (send w))"

definition attempt_result :: "('w, result) action \<Rightarrow> nat \<Rightarrow> 'w \<Rightarrow> result" where
  "attempt_result send k w = projr (fst (send (attempt_world send k w)))"

lemma attempt_result_Suc: "attempt_result send (Suc k) w = attempt_result send k (snd (send w))"
  by (simp add: attempt_result_def)

lemma retry_loop_attempts:
  assumes "\<And>w. \<exists>r w'. send w = (Inr r, w')" "send w = (Inr r, w')"
  shows "\<exists>k \<le> n. retry_loop send retry_on None n a r w' =
      (Inr (attempt_result send k w), attempt_world send (Suc k) w) \<and>
    (\<forall>j < k. retryable retry_on (attempt_result send j w)) \<and>
    (k < n \<longrightarrow> \<not> retryable retry_on (attempt_result send k w))"
  using assms(2)
proof (induction n arbitrary: a r w w')
  case 0
  then show ?case by (auto simp: act_return_def attempt_result_def)
next
  case (Suc n)
  have first: "attempt_result send 0 w = r" using Suc.prems by (simp add: attempt_result_def)
  show ?case
  proof (cases "retryable retry_on r")
    case False
    with Suc.prems first show ?thesis by (intro exI [of _ 0]) (simp add: act_return_def)
  next
    case True
    obtain r2 w2 where s2: "send w' = (Inr r2, w2)" using assms(1) by blast
    obtain k where k: "k \<le> n" "retry_loop send retry_on None n (a + 1) r2 w2 =
        (Inr (attempt_result send k w'), attempt_world send (Suc k) w')"
      "\<forall>j < k. retryable retry_on (attempt_result send j w')"
      "k < n \<longrightarrow> \<not> retryable retry_on (attempt_result send k w')"
      using Suc.IH [OF s2] by blast
    have later: "attempt_result send (Suc j) w = attempt_result send j w'" for j
      using Suc.prems by (simp add: attempt_result_Suc)
    have "retryable retry_on (attempt_result send j w)" if "j < Suc k" for j
      using that True first k(3) later by (cases j) auto
    then show ?thesis
      using k(1,2,4) True Suc.prems s2 later
      by (intro exI [of _ "Suc k"]) (simp add: act_bind_def act_return_def)
  qed
qed

text \<open>
  C13. Retrying sends at least once and at most \<open>max 1 attempts\<close> times. The result returned is that
  of the last send, every send before it failed with one of the retryable statuses, and retrying
  stops before the limit exactly at the first result that is a success or not retryable.
\<close>

theorem retry_bounded:
  assumes "\<And>w. \<exists>r w'. inner topic message headers w = (Inr r, w')"
  shows "\<exists>k. k < nat (max 1 attempts) \<and>
    retrying_sender attempts retry_on None inner topic message headers w =
      (Inr (attempt_result (inner topic message headers) k w),
       attempt_world (inner topic message headers) (Suc k) w) \<and>
    (\<forall>j < k. retryable retry_on (attempt_result (inner topic message headers) j w)) \<and>
    (Suc k < nat (max 1 attempts) \<longrightarrow>
       \<not> retryable retry_on (attempt_result (inner topic message headers) k w))"
proof -
  let ?send = "inner topic message headers"
  obtain r w' where s: "?send w = (Inr r, w')" using assms by blast
  obtain k where k: "k \<le> nat (max 1 attempts) - 1"
    "retry_loop ?send retry_on None (nat (max 1 attempts) - 1) 1 r w' =
      (Inr (attempt_result ?send k w), attempt_world ?send (Suc k) w)"
    "\<forall>j < k. retryable retry_on (attempt_result ?send j w)"
    "k < nat (max 1 attempts) - 1 \<longrightarrow> \<not> retryable retry_on (attempt_result ?send k w)"
    using retry_loop_attempts [of ?send w r w', OF assms s] by blast
  have "k < nat (max 1 attempts)" using k(1) by linarith
  with k s show ?thesis by (intro exI [of _ k]) (auto simp: retrying_sender_def act_bind_def)
qed

theorem retry_bounded_witness:
  "\<exists>k < (3 :: nat). \<exists>r w'. retrying_sender 3 DEFAULT_RETRYABLE None
     (\<lambda>_ _ _ n. (Inr (if n = 0 then timeout [] else ok VNone), n + 1)) ''t'' VNone None (0 :: nat) = (Inr r, w')"
proof -
  let ?inner = "\<lambda>_ _ _ n. (Inr (if n = 0 then timeout [] else ok VNone), n + 1 :: nat)"
  obtain k where "k < nat (max 1 3)" "retrying_sender 3 DEFAULT_RETRYABLE None ?inner ''t'' VNone None 0 =
      (Inr (attempt_result (?inner ''t'' VNone None) k 0), attempt_world (?inner ''t'' VNone None) (Suc k) 0)"
    using retry_bounded [of ?inner "''t''" VNone None 3 DEFAULT_RETRYABLE 0] by auto
  then show ?thesis by (intro exI [of _ k] conjI exI) simp_all
qed

section \<open>Facts about correlation ids\<close>

text \<open>
  Every message sent through the correlation decorator carries exactly one correlation header,
  up to case: the caller's own when there is one, untouched and without drawing an id, and a fresh
  one otherwise; every other header reaches the inner sender unchanged.
\<close>

lemma correlation_header:
  assumes "dict_ok (headers_or_empty headers)" "new_id w = (Inr i, w')"
  shows "correlation_sender header new_id inner topic message headers w =
    (if \<exists>k \<in> fst ` set (headers_or_empty headers). py_lower k = py_lower header
     then inner topic message (Some (headers_or_empty headers)) w
     else inner topic message (Some (headers_or_empty headers @ [(header, VStr i)])) w')"
proof -
  have "dict_set header (VStr i) (headers_or_empty headers) = headers_or_empty headers @ [(header, VStr i)]"
    if "\<not> (\<exists>k \<in> fst ` set (headers_or_empty headers). py_lower k = py_lower header)"
    using that by (intro dict_set_fresh) (force simp: map_of_eq_None_iff)
  then show ?thesis
    using assms(2) by (simp add: correlation_sender_def list_ex_iff dict_keys_def Let_def act_bind_def)
qed

section \<open>Facts about timeouts\<close>

inductive linked :: "err list \<Rightarrow> nat \<Rightarrow> nat \<Rightarrow> bool" where
  self: "i < length errs \<Longrightarrow> linked errs i i"
| link: "linked errs i j \<Longrightarrow> k \<in> set (links (errs ! j)) \<Longrightarrow> k < length errs \<Longrightarrow> linked errs i k"

lemma timeout_loop_sound:
  assumes "timeout_loop errs seen pending cur"
    and "\<forall>j \<in> set pending. j < length errs \<longrightarrow> linked errs i j"
    and "\<forall>j. cur = Some j \<and> j < length errs \<longrightarrow> linked errs i j"
  shows "\<exists>j. linked errs i j \<and> timeout_error (errs ! j)"
  using assms
proof (induction errs seen pending cur rule: timeout_loop.induct)
  case (2 errs seen pending c)
  show ?case
  proof (cases "c \<in> set seen \<or> length errs \<le> c \<or> timeout_error (errs ! c)")
    case True
    with 2(3,5) show ?thesis by (auto split: if_splits)
  next
    case False
    then have c: "linked errs i c" using 2(5) by auto
    have new: "\<forall>j \<in> set (rev (links (errs ! c)) @ pending). j < length errs \<longrightarrow> linked errs i j"
      using 2(4) linked.link [OF c] by auto
    show ?thesis
    proof (cases "rev (links (errs ! c)) @ pending")
      case Nil
      with 2(3) False show ?thesis by (simp add: Let_def)
    next
      case (Cons j rest)
      show ?thesis
        by (rule 2(2) [OF _ _ refl Cons]) (use False 2(3) Cons new in \<open>auto simp: Let_def\<close>)
    qed
  qed
qed simp

text \<open>
  Cause chains: every link of an error leads to one and the same object, as \<open>raise X from Y\<close> in
  the handler of \<open>Y\<close> makes them.
\<close>

definition cause_chains :: "err list \<Rightarrow> bool" where
  "cause_chains errs \<longleftrightarrow> (\<forall>e \<in> set errs. \<forall>k \<in> set (links e). k < length errs \<and> set (links e) = {k})"

lemma chain_stack:
  assumes "set l = {k}"
  obtains r where "rev l @ p = k # r" "set r \<subseteq> insert k (set p)"
proof -
  have "rev l \<noteq> []" using assms by auto
  then obtain x xs where x: "rev l = x # xs" by (cases "rev l") auto
  then have "set (x # xs) = {k}" using assms by (metis set_rev)
  then have "x = k" "set xs \<subseteq> {k}" by auto
  with x that [of "xs @ p"] show ?thesis by auto
qed

lemma timeout_loop_complete:
  assumes "\<not> timeout_loop errs seen pending cur" "cur = Some c" "c < length errs" "cause_chains errs"
    and "\<forall>s \<in> set seen. \<not> timeout_error (errs ! s) \<and> set (links (errs ! s)) \<subseteq> insert c (set seen)"
    and "set pending \<subseteq> insert c (set seen)"
  shows "\<exists>S. insert c (set seen) \<subseteq> S \<and> (\<forall>s \<in> S. \<not> timeout_error (errs ! s) \<and> set (links (errs ! s)) \<subseteq> S)"
  using assms
proof (induction errs seen pending cur arbitrary: c rule: timeout_loop.induct)
  case (2 errs seen pending i)
  note prems = 2(3-8)
  then have i: "i = c" by simp
  show ?case
  proof (cases "c \<in> set seen")
    case True
    with prems(5) show ?thesis by (intro exI [of _ "set seen"]) auto
  next
    case False
    then have go: "\<not> (i \<in> set seen \<or> length errs \<le> i)" and t: "\<not> timeout_error (errs ! i)"
      using prems(1,3) i by auto
    show ?thesis
    proof (cases "links (errs ! c) = []")
      case True
      with t i prems(5) show ?thesis by (intro exI [of _ "insert c (set seen)"]) auto
    next
      case no: False
      then obtain k where "k \<in> set (links (errs ! c))" by (cases "links (errs ! c)") auto
      then have k: "k < length errs" "set (links (errs ! c)) = {k}"
        using prems(3,4) unfolding cause_chains_def by auto
      obtain rest where r: "rev (links (errs ! i)) @ pending = k # rest" "set rest \<subseteq> insert k (set pending)"
        using chain_stack k(2) i by metis
      have "\<exists>S. insert k (set (i # seen)) \<subseteq> S \<and>
          (\<forall>s \<in> S. \<not> timeout_error (errs ! s) \<and> set (links (errs ! s)) \<subseteq> S)"
      proof (rule 2(2) [OF go t refl r(1)])
        show "\<not> timeout_loop errs (i # seen) rest (Some k)" using prems(1) go t r(1) by (simp add: Let_def)
        show "\<forall>s \<in> set (i # seen). \<not> timeout_error (errs ! s) \<and>
            set (links (errs ! s)) \<subseteq> insert k (set (i # seen))"
          using prems(5) k(2) t i by auto
        show "set rest \<subseteq> insert k (set (i # seen))" using r(2) prems(6) i by auto
      qed (use k(1) prems(4) in auto)
      then show ?thesis using i by auto
    qed
  qed
qed simp

lemma linked_closed:
  "linked errs i j \<Longrightarrow> i \<in> S \<Longrightarrow> (\<And>s. s \<in> S \<Longrightarrow> set (links (errs ! s)) \<subseteq> S) \<Longrightarrow> j \<in> S"
  by (induction rule: linked.induct) auto

text \<open>
  \<open>is_timeout\<close> reports a timeout only when the error or one it is linked to (cause, context or
  reason) is one; on cause chains, where an error links to one other object, it finds every such
  timeout and the failed call becomes a \<open>timeout\<close> result exactly then. With three links it can
  miss one: an error whose reason is a timeout and whose cause and context are one other error is
  classified \<open>service-unavailable\<close>, because the walk stops at the object it meets a second time.
\<close>

lemma timeout_classification:
  assumes "i < length errs"
  shows "(is_timeout errs i \<longrightarrow> (\<exists>j. linked errs i j \<and> timeout_error (errs ! j))) \<and>
    (cause_chains errs \<longrightarrow>
       (res_status (failed_call_result errs i target) = ''timeout'' \<longleftrightarrow>
          (\<exists>j. linked errs i j \<and> timeout_error (errs ! j)))) \<and>
    (let plain = \<lparr>er_class = ''ValueError'', er_mro = [''ValueError''], er_timeout_instance = False,
           er_reason = None, er_cause = None, er_context = None, er_text = []\<rparr>;
         store = [plain\<lparr>er_reason := Some 2, er_cause := Some 1, er_context := Some 1\<rparr>, plain,
                  plain\<lparr>er_timeout_instance := True\<rparr>]
     in linked store 0 2 \<and> timeout_error (store ! 2) \<and>
        res_status (failed_call_result store 0 target) = ''service-unavailable'')"
proof (intro conjI impI)
  have sound: "\<exists>j. linked errs i j \<and> timeout_error (errs ! j)" if "is_timeout errs i"
    using timeout_loop_sound [of errs "[]" "[]" "Some i" i] that assms linked.self
    by (auto simp: is_timeout_def)
  then show "\<exists>j. linked errs i j \<and> timeout_error (errs ! j)" if "is_timeout errs i" using that .
  have "\<not> (\<exists>j. linked errs i j \<and> timeout_error (errs ! j))" if "\<not> is_timeout errs i" "cause_chains errs"
    using timeout_loop_complete [of errs "[]" "[]" "Some i" i] that assms linked_closed
    by (auto simp: is_timeout_def)
  with sound show "res_status (failed_call_result errs i target) = ''timeout'' \<longleftrightarrow>
      (\<exists>j. linked errs i j \<and> timeout_error (errs ! j))" if "cause_chains errs"
    using that by (auto simp: failed_call_result_def Let_def)
next
  show "let plain = \<lparr>er_class = ''ValueError'', er_mro = [''ValueError''], er_timeout_instance = False,
           er_reason = None, er_cause = None, er_context = None, er_text = []\<rparr>;
         store = [plain\<lparr>er_reason := Some 2, er_cause := Some 1, er_context := Some 1\<rparr>, plain,
                  plain\<lparr>er_timeout_instance := True\<rparr>]
     in linked store 0 2 \<and> timeout_error (store ! 2) \<and>
        res_status (failed_call_result store 0 target) = ''service-unavailable''"
    by (auto simp: Let_def failed_call_result_def is_timeout_def timeout_error_def links_def starts_with_def
        intro!: linked.link [OF linked.self])
qed

end
