(* ===== verification/Health.thy ===== *)
theory Health
  imports Envelope
begin

text \<open>
  \<open>benzene.core.health\<close>: the registry of health checks, its aggregate report, and the middleware
  that answers the reserved topic. A check is application code, an action on the world.
\<close>

definition HEALTH_TOPIC :: string where
  "HEALTH_TOPIC = ''benzene:healthcheck''"

record health_check_result =
  hc_status :: string
  hc_detail :: "string option"
  hc_type :: "string option"
  hc_data :: "pydict option"

definition hc_is_healthy :: "health_check_result \<Rightarrow> bool" where
  "hc_is_healthy r = (hc_status r \<noteq> ''failed'')"

definition hc_healthy :: "string option \<Rightarrow> string option \<Rightarrow> pydict option \<Rightarrow> health_check_result" where
  "hc_healthy detail ty data = \<lparr>hc_status = ''ok'', hc_detail = detail, hc_type = ty, hc_data = data\<rparr>"

definition hc_warning :: "string option \<Rightarrow> string option \<Rightarrow> pydict option \<Rightarrow> health_check_result" where
  "hc_warning detail ty data = \<lparr>hc_status = ''warning'', hc_detail = detail, hc_type = ty, hc_data = data\<rparr>"

definition hc_unhealthy :: "string option \<Rightarrow> string option \<Rightarrow> pydict option \<Rightarrow> health_check_result" where
  "hc_unhealthy detail ty data = \<lparr>hc_status = ''failed'', hc_detail = detail, hc_type = ty, hc_data = data\<rparr>"

definition hc_to_payload :: "health_check_result \<Rightarrow> pydict" where
  "hc_to_payload r = [(''status'', VStr (hc_status r))] @ opt_member ''type'' (hc_type r)
     @ (case hc_data r of None \<Rightarrow> [] | Some d \<Rightarrow> [(''data'', VDict d)])
     @ opt_member ''detail'' (hc_detail r)"

record health_report =
  hr_is_healthy :: bool
  hr_checks :: "(string, health_check_result) dict"

definition report_to_payload :: "health_report \<Rightarrow> pyval" where
  "report_to_payload rep = VDict [(''isHealthy'', VBool (hr_is_healthy rep)),
     (''healthChecks'', VDict (map (\<lambda>(n, r). (n, VDict (hc_to_payload r))) (hr_checks rep)))]"

definition unhealthy_checks :: "health_report \<Rightarrow> string list" where
  "unhealthy_checks rep = map fst (filter (\<lambda>(n, r). \<not> hc_is_healthy r) (hr_checks rep))"

text \<open>What a check returns: a result or a \<open>bool\<close>.\<close>

datatype check_outcome = CheckResult health_check_result | CheckBool bool

definition coerce_check :: "check_outcome \<Rightarrow> health_check_result" where
  "coerce_check x = (case x of
     CheckResult r \<Rightarrow> r
   | CheckBool b \<Rightarrow> if b then hc_healthy None None None else hc_unhealthy None None None)"

type_synonym 'w health_checks = "(string, ('w, check_outcome) action) dict"

definition health_add ::
  "string \<times> ('w, check_outcome) action \<Rightarrow> 'w health_checks \<Rightarrow> pyexn + 'w health_checks" where
  "health_add entry cs =
     (if dict_mem (fst entry) cs then
        Inl (PyException ''DuplicateHealthCheckError''
          (''A health check named '' @ repr_str (fst entry) @ '' is already registered. Each check ''
           @ ''needs a distinct name - rename one, or remove the duplicate registration.''))
      else Inr (dict_set (fst entry) (snd entry) cs))"

fun run_checks :: "'w health_checks \<Rightarrow> ('w, (string, health_check_result) dict) action" where
  "run_checks [] w = (Inr [], w)"
| "run_checks ((name, check) # cs) w = (case check w of
     (Inr x, w') \<Rightarrow>
       (case run_checks cs w' of (Inl e, w'') \<Rightarrow> (Inl e, w'')
        | (Inr rs, w'') \<Rightarrow> (Inr ((name, coerce_check x) # rs), w''))
   | (Inl e, w') \<Rightarrow>
       if catchable e then
         (case run_checks cs w' of (Inl e, w'') \<Rightarrow> (Inl e, w'')
          | (Inr rs, w'') \<Rightarrow>
              (Inr ((name, hc_unhealthy (Some (''raised '' @ exn_class e @ '': '' @ exn_text e)) None None)
                    # rs), w''))
       else (Inl e, w'))"

definition health_run :: "'w health_checks \<Rightarrow> ('w, health_report) action" where
  "health_run cs = (\<lambda>w. case run_checks cs w of
     (Inl e, w') \<Rightarrow> (Inl e, w')
   | (Inr rs, w') \<Rightarrow>
       (Inr \<lparr>hr_is_healthy = list_all hc_is_healthy (dict_values rs), hr_checks = rs\<rparr>, w'))"

definition health_interception :: "'w health_checks \<Rightarrow> string list \<Rightarrow> 'w middleware" where
  "health_interception cs aliases = (\<lambda>nxt (ctx, w).
     if \<not> hashable (ctx_topic ctx) then (Inl unhashable_error, (ctx, w))
     else if ctx_topic ctx \<in> VStr ` set (HEALTH_TOPIC # aliases) then
       (case health_run cs w of
          (Inl e, w') \<Rightarrow> (Inl e, (ctx, w'))
        | (Inr report, w') \<Rightarrow> (Inr (), (set_result_of (Some (ok (report_to_payload report))) ctx, w')))
     else nxt (ctx, w))"

section \<open>Facts\<close>

interpretation health: keyed_registry health_add fst
  "\<lambda>cs name. map_option (Pair name) (dict_get cs name)"
  by unfold_locales (auto simp: health_add_def dict_mem_def fun_eq_iff split: if_splits)

definition hc_serializable :: "health_check_result \<Rightarrow> bool" where
  "hc_serializable r \<longleftrightarrow> (\<forall>d. hc_data r = Some d \<longrightarrow> serializable (VDict d))"

definition check_ok :: "('w, check_outcome) action \<Rightarrow> bool" where
  "check_ok check \<longleftrightarrow> (\<forall>w w'. check w \<noteq> (Inl PyCancelled, w')) \<and>
     (\<forall>w w' r. check w = (Inr (CheckResult r), w') \<longrightarrow> hc_serializable r)"

definition verdict :: "('w, check_outcome) action \<Rightarrow> 'w \<Rightarrow> health_check_result" where
  "verdict check w = (case fst (check w) of
     Inr x \<Rightarrow> coerce_check x
   | Inl e \<Rightarrow> hc_unhealthy (Some (''raised '' @ exn_class e @ '': '' @ exn_text e)) None None)"

lemma verdict_serializable:
  assumes "check_ok check"
  shows "hc_serializable (verdict check w)"
proof (cases "check w")
  case (Pair x w')
  with assms show ?thesis
    by (cases x) (auto simp: verdict_def check_ok_def coerce_check_def hc_healthy_def hc_unhealthy_def
        hc_serializable_def [of "health_check_result_ext _ _ _ _ _"]
        split: check_outcome.splits)
qed

text \<open>One check after the other, each from the world the previous ones left.\<close>

fun check_worlds :: "'w health_checks \<Rightarrow> 'w \<Rightarrow> 'w list" where
  "check_worlds [] w = []"
| "check_worlds ((n, check) # cs) w = w # check_worlds cs (snd (check w))"

lemma run_checks_total:
  assumes "\<forall>(n, check) \<in> set cs. check_ok check"
  shows "\<exists>w'. run_checks cs w =
    (Inr (map (\<lambda>((n, check), v). (n, verdict check v)) (zip cs (check_worlds cs w))), w')"
  using assms
proof (induction cs arbitrary: w)
  case (Cons c cs)
  obtain n check where c: "c = (n, check)" by (cases c)
  obtain x w1 where x: "check w = (x, w1)" by (cases "check w")
  obtain w2 where "run_checks cs w1 =
      (Inr (map (\<lambda>((n, check), v). (n, verdict check v)) (zip cs (check_worlds cs w1))), w2)"
    using Cons by fastforce
  moreover have "catchable e" if "x = Inl e" for e
    using Cons.prems that x by (cases e) (auto simp: c check_ok_def)
  ultimately show ?case by (cases x) (auto simp: c x verdict_def)
qed simp

lemma check_worlds_length [simp]: "length (check_worlds cs w) = length cs"
  by (induction cs w rule: check_worlds.induct) auto

lemma report_serializable:
  assumes "\<forall>r \<in> snd ` set (hr_checks rep). hc_serializable r"
  shows "serializable (report_to_payload rep)"
proof -
  have "serializable (VDict (hc_to_payload r))" if "hc_serializable r" for r
    using that by (cases "hc_data r"; cases "hc_type r"; cases "hc_detail r")
      (simp_all add: hc_to_payload_def opt_member_def hc_serializable_def)
  with assms show ?thesis by (force simp: report_to_payload_def simp del: serializable.simps(4)
      intro: serializable.simps(4) [THEN iffD2])
qed

lemma health_run_total:
  assumes "\<forall>(n, check) \<in> set cs. check_ok check"
  shows "\<exists>rep w'. health_run cs w = (Inr rep, w') \<and> dict_keys (hr_checks rep) = dict_keys cs \<and>
    serializable (report_to_payload rep) \<and>
    (hr_is_healthy rep \<longleftrightarrow> (\<forall>r \<in> snd ` set (hr_checks rep). hc_status r \<noteq> ''failed''))"
proof -
  let ?rs = "map (\<lambda>((n, check), v). (n, verdict check v)) (zip cs (check_worlds cs w))"
  obtain w' where r: "run_checks cs w = (Inr ?rs, w')" using run_checks_total [OF assms] by blast
  have "map fst ?rs = map fst (map fst (zip cs (check_worlds cs w)))"
    unfolding map_map by (intro map_cong) (auto simp: case_prod_beta)
  also have "\<dots> = map fst cs" by (simp del: map_map)
  finally have keys: "dict_keys ?rs = dict_keys cs" by (simp add: dict_keys_def)
  have "\<forall>r \<in> snd ` set ?rs. hc_serializable r"
    using assms verdict_serializable by (fastforce dest: set_zip_leftD)
  then have "serializable (report_to_payload \<lparr>hr_is_healthy = b, hr_checks = ?rs\<rparr>)" for b
    by (intro report_serializable) simp
  with r keys show ?thesis
    by (auto simp: health_run_def list_all_iff hc_is_healthy_def dict_values_def)
qed

text \<open>
  A health query always gets a full, serialisable report: with checks that may raise any
  exception short of cancellation, the reserved topic or an alias answers \<open>ok\<close> without reaching the
  router, with one entry per registered check in registration order, and \<open>isHealthy\<close> is false
  exactly when some entry is \<open>failed\<close> (a raising check is; a warning is not). Any other topic goes
  to the rest of the pipeline untouched.
\<close>

lemma health_query_answered:
  assumes checks: "\<forall>(n, check) \<in> set cs. check_ok check" and topic: "ctx_topic ctx = VStr t"
  shows "if t = HEALTH_TOPIC \<or> t \<in> set aliases
    then \<exists>rep w'. health_interception cs aliases nxt (ctx, w) =
           (Inr (), (ctx\<lparr>ctx_result := Some (ok (report_to_payload rep))\<rparr>, w')) \<and>
         dict_keys (hr_checks rep) = dict_keys cs \<and> serializable (report_to_payload rep) \<and>
         (hr_is_healthy rep \<longleftrightarrow> (\<forall>r \<in> snd ` set (hr_checks rep). hc_status r \<noteq> ''failed''))
    else health_interception cs aliases nxt (ctx, w) = nxt (ctx, w)"
  using health_run_total [OF checks, of w] topic
  by (auto simp: health_interception_def set_result_of_def)

text \<open>The middleware meets the contract of the pipeline.\<close>

lemma health_middleware_ok:
  assumes "\<forall>(n, check) \<in> set cs. check_ok check"
  shows "middleware_ok (health_interception cs aliases)"
  unfolding middleware_ok_def step_ok_def
proof (intro allI impI)
  fix st :: "'a step" and ctx :: message_context and w
  assume st: "\<forall>ctx w. ctx_ok ctx \<longrightarrow> (\<exists>ctx' w'. st (ctx, w) = (Inr (), ctx', w') \<and> ctx_ok ctx')"
    and c: "ctx_ok ctx"
  obtain rep w' where rep: "health_run cs w = (Inr rep, w')" "serializable (report_to_payload rep)"
    using health_run_total [OF assms] by blast
  show "\<exists>ctx' w'. health_interception cs aliases st (ctx, w) = (Inr (), ctx', w') \<and> ctx_ok ctx'"
    using st c rep by (auto simp: health_interception_def ctx_ok_def set_result_of_def result_ok_def)
qed

end
