(* ===== verification/Guard.thy ===== *)
theory Guard
  imports InProcess
begin

text \<open>
  The seam the breaker, the bulkhead and the rate limiter share: an object with one
  \<open>execute(run)\<close> that runs a \<open>Result\<close>-returning call or rejects it, wrapped once as a middleware
  (\<open>circuit_breaker_interception\<close>, \<open>bulkhead_interception\<close>, \<open>rate_limit_interception\<close>: the same
  text) and once as a sender (\<open>CircuitBreakingMessageSender\<close>, \<open>BulkheadMessageSender\<close>,
  \<open>RateLimitingMessageSender\<close>).

  A guard's own state and the clock are read from and written to the world through functions, so
  that the same guard can sit in an application's world and, with the context beside it, in the
  state of a pipeline step.
\<close>

type_synonym 's guard = "('s, result) action \<Rightarrow> ('s, result) action"

definition intercepted_run :: "'w step \<Rightarrow> (message_context \<times> 'w, result) action" where
  "intercepted_run nxt = (\<lambda>s. case nxt s of
     (Inl e, s') \<Rightarrow> (Inl e, s')
   | (Inr _, s') \<Rightarrow> (Inr (case ctx_result (fst s') of Some r \<Rightarrow> r | None \<Rightarrow> ok VNone), s'))"

definition guard_interception :: "(message_context \<times> 'w) guard \<Rightarrow> 'w middleware" where
  "guard_interception exec = (\<lambda>nxt s. case exec (intercepted_run nxt) s of
     (Inl e, s') \<Rightarrow> (Inl e, s')
   | (Inr r, (ctx', w')) \<Rightarrow> (Inr (), (set_result_of (Some r) ctx', w')))"

definition guarded_sender :: "'w guard \<Rightarrow> 'w sender \<Rightarrow> 'w sender" where
  "guarded_sender exec inner topic message headers = exec (inner topic message headers)"

text \<open>Accessors of the world, lifted to the state of a pipeline step.\<close>

definition in_step :: "('w \<Rightarrow> 'g) \<Rightarrow> message_context \<times> 'w \<Rightarrow> 'g" where
  "in_step get s = get (snd s)"

definition into_step :: "('g \<Rightarrow> 'w \<Rightarrow> 'w) \<Rightarrow> 'g \<Rightarrow> message_context \<times> 'w \<Rightarrow> message_context \<times> 'w" where
  "into_step put g s = (fst s, put g (snd s))"

lemma into_step_fst [simp]: "fst (into_step put g s) = fst s"
  by (simp add: into_step_def)

section \<open>The contract of a guard\<close>

text \<open>
  A guard decides before anything runs: it either admits the call, does its own bookkeeping and
  passes on whatever the call does, or rejects it with a fixed failure.
\<close>

locale guarded =
  fixes exec :: "'s guard"
    and admit :: "'s \<Rightarrow> bool"
    and enter :: "'s \<Rightarrow> 's"
    and leave :: "result outcome \<Rightarrow> 's \<Rightarrow> 's"
    and rejection :: result
  assumes exec_admits: "admit s \<Longrightarrow> exec run s = (fst (run (enter s)), leave (fst (run (enter s))) (snd (run (enter s))))"
    and exec_rejects: "\<not> admit s \<Longrightarrow> exec run s = (Inr rejection, enter s)"
    and rejection_fails: "\<not> result_is_successful rejection"
begin

lemma exec_transparent: "admit s \<Longrightarrow> fst (exec run s) = fst (run (enter s))"
  by (simp add: exec_admits)

lemma exec_shed_independent: "\<not> admit s \<Longrightarrow> exec run s = exec run' s"
  by (simp add: exec_rejects)

lemma exec_total:
  assumes "\<And>s. \<exists>r s'. run s = (Inr r, s')"
  shows "\<exists>r s'. exec run s = (Inr r, s')"
proof (cases "admit s")
  case True
  obtain r s' where "run (enter s) = (Inr r, s')" using assms by blast
  with True show ?thesis by (simp add: exec_admits)
qed (simp add: exec_rejects)

end

locale guarded_step = guarded exec admit enter leave rejection
  for exec :: "(message_context \<times> 'w) guard" and admit enter leave rejection +
  assumes enter_ctx: "fst (enter s) = fst s"
    and leave_ctx: "fst (leave x s) = fst s"
    and rejection_ok: "result_ok (Some rejection)"
begin

text \<open>A rejected invocation never reaches the rest of the pipeline.\<close>

lemma interception_rejects:
  assumes "\<not> admit (ctx, w)"
  shows "guard_interception exec nxt (ctx, w) = (Inr (), (ctx\<lparr>ctx_result := Some rejection\<rparr>, snd (enter (ctx, w))))"
proof -
  obtain c w' where e: "enter (ctx, w) = (c, w')" by (cases "enter (ctx, w)")
  with enter_ctx [of "(ctx, w)"] have "c = ctx" by simp
  with assms e show ?thesis by (simp add: guard_interception_def exec_rejects set_result_of_def)
qed

lemma interception_admits:
  assumes "admit (ctx, w)" "nxt (enter (ctx, w)) = (Inr (), (ctx', w'))"
  shows "\<exists>w''. guard_interception exec nxt (ctx, w) =
    (Inr (), (ctx'\<lparr>ctx_result := Some (case ctx_result ctx' of Some r \<Rightarrow> r | None \<Rightarrow> ok VNone)\<rparr>, w''))"
proof -
  let ?r = "Inr (case ctx_result ctx' of Some r \<Rightarrow> r | None \<Rightarrow> ok VNone)"
  have run: "intercepted_run nxt (enter (ctx, w)) = (?r, (ctx', w'))"
    using assms(2) by (simp add: intercepted_run_def)
  have "leave ?r (ctx', w') = (ctx', snd (leave ?r (ctx', w')))"
    using leave_ctx [of ?r "(ctx', w')"] by (cases "leave ?r (ctx', w')") simp
  then show ?thesis
    using exec_admits [OF assms(1), of "intercepted_run nxt"]
    by (simp add: run guard_interception_def set_result_of_def)
      (metis (no_types, lifting) case_prod_conv)
qed

lemma interception_raises:
  assumes "admit (ctx, w)" "nxt (enter (ctx, w)) = (Inl e, s')"
  shows "\<exists>s''. guard_interception exec nxt (ctx, w) = (Inl e, s'')"
  using exec_admits [OF assms(1), of "intercepted_run nxt"] assms(2)
  by (simp add: guard_interception_def intercepted_run_def)

text \<open>The middleware meets the contract of the pipeline, and always leaves a result.\<close>

lemma interception_middleware_ok: "middleware_ok (guard_interception exec)"
  unfolding middleware_ok_def step_ok_def
proof (intro allI impI)
  fix st :: "'w step" and ctx w
  assume st: "\<forall>ctx w. ctx_ok ctx \<longrightarrow> (\<exists>ctx' w'. st (ctx, w) = (Inr (), ctx', w') \<and> ctx_ok ctx')"
    and c: "ctx_ok ctx"
  show "\<exists>ctx' w'. guard_interception exec st (ctx, w) = (Inr (), ctx', w') \<and> ctx_ok ctx'"
  proof (cases "admit (ctx, w)")
    case True
    have "enter (ctx, w) = (ctx, snd (enter (ctx, w)))"
      using enter_ctx [of "(ctx, w)"] by (cases "enter (ctx, w)") simp
    then obtain ctx' w' where n: "st (enter (ctx, w)) = (Inr (), ctx', w')" "ctx_ok ctx'"
      using st c by metis
    from interception_admits [of ctx w st, OF True n(1)] n(2) show ?thesis
      by (cases "ctx_result ctx'") (auto simp: ctx_ok_def)
  next
    case False
    from interception_rejects [OF False] c rejection_ok show ?thesis by (simp add: ctx_ok_def)
  qed
qed

lemma interception_sets_result:
  "guard_interception exec nxt s = (Inr (), (ctx', w')) \<Longrightarrow> ctx_result ctx' \<noteq> None"
  by (auto simp: guard_interception_def set_result_of_def split: prod.splits sum.splits)

end

end
