(* ===== verification/CircuitBreaker.thy ===== *)
theory CircuitBreaker
  imports Guard
begin

text \<open>
  \<open>benzene.resilience.circuit_breaker\<close>: the breaker as a state machine, its \<open>execute\<close> seam, and
  the runs of several calls that share one breaker. Times are rational numbers; a clock is read
  from the state, so it does not move between two reads without an \<open>await\<close>.
\<close>

section \<open>The state machine\<close>

definition DEFAULT_TRIP_ON :: "string list" where
  "DEFAULT_TRIP_ON = [''service-unavailable'', ''timeout'', ''too-many-requests'', ''unexpected-error'']"

datatype circuit_state = CLOSED | OPEN | HALF_OPEN

record breaker =
  cb_failure_threshold :: int
  cb_reset_timeout :: rat
  cb_trip_on :: "string list"
  cb_state :: circuit_state
  cb_consecutive_failures :: int
  cb_opened_at :: rat
  cb_probing :: bool

definition new_breaker :: "int \<Rightarrow> rat \<Rightarrow> string list \<Rightarrow> breaker" where
  "new_breaker failure_threshold reset_timeout trip_on =
     \<lparr>cb_failure_threshold = max 1 failure_threshold, cb_reset_timeout = reset_timeout,
      cb_trip_on = trip_on, cb_state = CLOSED, cb_consecutive_failures = 0, cb_opened_at = 0,
      cb_probing = False\<rparr>"

definition reset_elapsed :: "rat \<Rightarrow> breaker \<Rightarrow> bool" where
  "reset_elapsed now b = (now - cb_opened_at b \<ge> cb_reset_timeout b)"

definition state_of :: "rat \<Rightarrow> breaker \<Rightarrow> circuit_state" where
  "state_of now b = (if cb_state b = OPEN \<and> reset_elapsed now b then HALF_OPEN else cb_state b)"

definition breaker_admit :: "rat \<Rightarrow> breaker \<Rightarrow> bool \<times> breaker" where
  "breaker_admit now b = (case cb_state b of
     OPEN \<Rightarrow> if \<not> reset_elapsed now b then (False, b)
             else (True, b\<lparr>cb_state := HALF_OPEN, cb_probing := True\<rparr>)
   | HALF_OPEN \<Rightarrow> if cb_probing b then (False, b) else (True, b\<lparr>cb_probing := True\<rparr>)
   | CLOSED \<Rightarrow> (True, b))"

definition trip :: "rat \<Rightarrow> breaker \<Rightarrow> breaker" where
  "trip now b = b\<lparr>cb_state := OPEN, cb_opened_at := now\<rparr>"

definition on_success :: "breaker \<Rightarrow> breaker" where
  "on_success b = b\<lparr>cb_consecutive_failures := 0, cb_probing := False, cb_state := CLOSED\<rparr>"

definition on_failure :: "rat \<Rightarrow> breaker \<Rightarrow> breaker" where
  "on_failure now b =
     (let b1 = b\<lparr>cb_probing := False\<rparr>
      in if cb_state b1 = HALF_OPEN then trip now b1
         else (let b2 = b1\<lparr>cb_consecutive_failures := cb_consecutive_failures b1 + 1\<rparr>
               in if cb_consecutive_failures b2 \<ge> cb_failure_threshold b2 then trip now b2 else b2))"

definition trips :: "breaker \<Rightarrow> result \<Rightarrow> bool" where
  "trips b r = (\<not> (result_is_successful r \<or> res_status r \<notin> set (cb_trip_on b)))"

definition breaker_record :: "rat \<Rightarrow> result \<Rightarrow> breaker \<Rightarrow> breaker" where
  "breaker_record now r b = (if \<not> trips b r then on_success b else on_failure now b)"

definition open_rejection :: result where
  "open_rejection = service_unavailable [ErrText ''circuit breaker is open'']"

definition breaker_execute :: "('s \<Rightarrow> breaker) \<Rightarrow> (breaker \<Rightarrow> 's \<Rightarrow> 's) \<Rightarrow> ('s \<Rightarrow> rat) \<Rightarrow> 's guard" where
  "breaker_execute get put clock run = (\<lambda>s.
     let (admitted, b1) = breaker_admit (clock s) (get s); s1 = put b1 s
     in if \<not> admitted then (Inr open_rejection, s1)
        else (case run s1 of
          (Inl e, s2) \<Rightarrow> (Inl e, if catchable e then put (on_failure (clock s2) (get s2)) s2 else s2)
        | (Inr r, s2) \<Rightarrow> (Inr r, put (breaker_record (clock s2) r (get s2)) s2)))"

definition circuit_breaker_interception ::
  "('w \<Rightarrow> breaker) \<Rightarrow> (breaker \<Rightarrow> 'w \<Rightarrow> 'w) \<Rightarrow> ('w \<Rightarrow> rat) \<Rightarrow> 'w middleware" where
  "circuit_breaker_interception get put clock =
     guard_interception (breaker_execute (in_step get) (into_step put) (in_step clock))"

definition circuit_breaking_sender ::
  "('w \<Rightarrow> breaker) \<Rightarrow> (breaker \<Rightarrow> 'w \<Rightarrow> 'w) \<Rightarrow> ('w \<Rightarrow> rat) \<Rightarrow> 'w sender \<Rightarrow> 'w sender" where
  "circuit_breaking_sender get put clock = guarded_sender (breaker_execute get put clock)"

section \<open>The breaker is a guard\<close>

definition breaker_leave ::
  "('s \<Rightarrow> breaker) \<Rightarrow> (breaker \<Rightarrow> 's \<Rightarrow> 's) \<Rightarrow> ('s \<Rightarrow> rat) \<Rightarrow> result outcome \<Rightarrow> 's \<Rightarrow> 's" where
  "breaker_leave get put clock x s = (case x of
     Inl e \<Rightarrow> if catchable e then put (on_failure (clock s) (get s)) s else s
   | Inr r \<Rightarrow> put (breaker_record (clock s) r (get s)) s)"

interpretation breaker: guarded "breaker_execute get put clock" "\<lambda>s. fst (breaker_admit (clock s) (get s))"
  "\<lambda>s. put (snd (breaker_admit (clock s) (get s))) s" "breaker_leave get put clock" open_rejection
  for get put clock
  by unfold_locales (auto simp: breaker_execute_def breaker_leave_def open_rejection_def
      service_unavailable_def Let_def case_prod_beta split: sum.splits prod.splits)

interpretation breaker_step: guarded_step
  "breaker_execute (in_step get) (into_step put) (in_step clock)"
  "\<lambda>s. fst (breaker_admit (in_step clock s) (in_step get s))"
  "\<lambda>s. into_step put (snd (breaker_admit (in_step clock s) (in_step get s))) s"
  "breaker_leave (in_step get) (into_step put) (in_step clock)" open_rejection
  for get put clock
  by unfold_locales (auto simp: breaker_leave_def open_rejection_def split: sum.splits)

section \<open>Calls that share a breaker\<close>

text \<open>
  The calls of a program interleave at their awaits. A state is the breaker, the number of admitted
  calls that have not ended, and the time; each event is one synchronous piece of \<open>execute\<close> (the
  admission, or what follows \<open>await run()\<close>), or the passing of time. A cancelled call ends
  without \<open>except Exception\<close> seeing it.
\<close>

datatype cb_event =
    CallAdmitted | CallRejected | CallReturned result | CallRaised | CallCancelled | TimePasses rat

inductive cb_step :: "breaker \<times> nat \<times> rat \<Rightarrow> cb_event \<Rightarrow> breaker \<times> nat \<times> rat \<Rightarrow> bool" where
  admitted: "breaker_admit t b = (True, b') \<Longrightarrow> cb_step (b, n, t) CallAdmitted (b', Suc n, t)"
| rejected: "breaker_admit t b = (False, b') \<Longrightarrow> cb_step (b, n, t) CallRejected (b', n, t)"
| returned: "cb_step (b, Suc n, t) (CallReturned r) (breaker_record t r b, n, t)"
| raised: "cb_step (b, Suc n, t) CallRaised (on_failure t b, n, t)"
| cancelled: "cb_step (b, Suc n, t) CallCancelled (b, n, t)"
| passes: "0 \<le> d \<Longrightarrow> cb_step (b, n, t) (TimePasses d) (b, n, t + d)"

inductive cb_run :: "breaker \<times> nat \<times> rat \<Rightarrow> cb_event list \<Rightarrow> breaker \<times> nat \<times> rat \<Rightarrow> bool" where
  nothing: "cb_run s [] s"
| further: "cb_step s e s' \<Longrightarrow> cb_run s' es s'' \<Longrightarrow> cb_run s (e # es) s''"

text \<open>Runs, one event at a time and forwards.\<close>

lemma cb_run_forwards:
  "fst (breaker_admit t b) \<Longrightarrow> cb_run (snd (breaker_admit t b), Suc n, t) es s \<Longrightarrow>
     cb_run (b, n, t) (CallAdmitted # es) s"
  "\<not> fst (breaker_admit t b) \<Longrightarrow> cb_run (snd (breaker_admit t b), n, t) es s \<Longrightarrow>
     cb_run (b, n, t) (CallRejected # es) s"
  "cb_run (breaker_record t r b, n, t) es s \<Longrightarrow> cb_run (b, Suc n, t) (CallReturned r # es) s"
  "cb_run (on_failure t b, n, t) es s \<Longrightarrow> cb_run (b, Suc n, t) (CallRaised # es) s"
  "cb_run (b, n, t) es s \<Longrightarrow> cb_run (b, Suc n, t) (CallCancelled # es) s"
  "0 \<le> d \<Longrightarrow> cb_run (b, n, t + d) es s \<Longrightarrow> cb_run (b, n, t) (TimePasses d # es) s"
  "s = s' \<Longrightarrow> cb_run s [] s'"
  by (cases "breaker_admit t b"; auto intro: cb_run.intros cb_step.intros)+

definition breaker_ok :: "breaker \<Rightarrow> bool" where
  "breaker_ok b \<longleftrightarrow> 1 \<le> cb_failure_threshold b \<and> 0 \<le> cb_consecutive_failures b \<and>
     (cb_state b = HALF_OPEN \<longleftrightarrow> cb_probing b) \<and>
     (cb_state b = CLOSED \<longrightarrow> cb_consecutive_failures b < cb_failure_threshold b)"

lemma breaker_ok_new: "breaker_ok (new_breaker n d trip_on)"
  by (simp add: breaker_ok_def new_breaker_def)

lemma breaker_ok_admit: "breaker_ok b \<Longrightarrow> breaker_admit t b = (x, b') \<Longrightarrow> breaker_ok b'"
  by (auto simp: breaker_ok_def breaker_admit_def split: circuit_state.splits if_splits)

lemma breaker_ok_success: "breaker_ok b \<Longrightarrow> breaker_ok (on_success b)"
  by (auto simp: breaker_ok_def on_success_def)

lemma breaker_ok_failure: "breaker_ok b \<Longrightarrow> breaker_ok (on_failure t b)"
  by (auto simp: breaker_ok_def on_failure_def trip_def Let_def)

lemma breaker_ok_record: "breaker_ok b \<Longrightarrow> breaker_ok (breaker_record t r b)"
  by (simp add: breaker_record_def breaker_ok_success breaker_ok_failure)

lemma breaker_ok_step: "cb_step s e s' \<Longrightarrow> breaker_ok (fst s) \<Longrightarrow> breaker_ok (fst s')"
  by (induction rule: cb_step.induct)
    (auto intro: breaker_ok_admit breaker_ok_record breaker_ok_failure)

text \<open>
  C11. In every interleaving of calls, returns, exceptions, cancellations and passing time, a breaker
  keeps its invariant: the circuit is half-open exactly while a probe is marked in flight,
  a closed circuit has counted fewer failures than the threshold, and counters never go negative.
\<close>

theorem breaker_invariant:
  assumes "cb_run (new_breaker threshold reset trip_on, 0, t0) es (b, n, t)"
  shows "breaker_ok b"
proof -
  have "breaker_ok (fst s)" if "cb_run s0 es s" "breaker_ok (fst s0)" for s0 s
    using that by (induction rule: cb_run.induct) (auto dest: breaker_ok_step)
  from this [OF assms] breaker_ok_new show ?thesis by simp
qed

theorem breaker_invariant_witness:
  "breaker_ok (on_failure 0 (new_breaker 1 30 DEFAULT_TRIP_ON))"
proof (rule breaker_invariant)
  show "cb_run (new_breaker 1 30 DEFAULT_TRIP_ON, 0, 0) [CallAdmitted, CallRaised]
      (on_failure 0 (new_breaker 1 30 DEFAULT_TRIP_ON), 0, 0)"
    by (intro cb_run_forwards) (simp_all add: breaker_admit_def new_breaker_def)
qed

section \<open>One call after the other\<close>

text \<open>
  Calls made one at a time: each has the time of its admission, and the time and outcome of its end.
  \<open>True\<close> marks the calls that ran.
\<close>

type_synonym timed_call = "rat \<times> rat \<times> result outcome"

definition breaker_after :: "rat \<Rightarrow> result outcome \<Rightarrow> breaker \<Rightarrow> breaker" where
  "breaker_after t x b = (case x of
     Inl e \<Rightarrow> if catchable e then on_failure t b else b
   | Inr r \<Rightarrow> breaker_record t r b)"

fun serial_calls :: "timed_call list \<Rightarrow> breaker \<Rightarrow> bool list \<times> breaker" where
  "serial_calls [] b = ([], b)"
| "serial_calls ((t, t', x) # cs) b =
     (let (admitted, b1) = breaker_admit t b;
          (rest, b2) = serial_calls cs (if admitted then breaker_after t' x b1 else b1)
      in (admitted # rest, b2))"

definition tripping :: "breaker \<Rightarrow> result outcome \<Rightarrow> bool" where
  "tripping b x = (case x of Inl e \<Rightarrow> catchable e | Inr r \<Rightarrow> trips b r)"

lemma tripping_after: "tripping b x \<Longrightarrow> breaker_after t x b = on_failure t b"
  by (auto simp: tripping_def breaker_after_def breaker_record_def split: sum.splits)

lemma tripping_config: "cb_trip_on b = cb_trip_on b' \<Longrightarrow> tripping b x = tripping b' x"
  by (simp add: tripping_def trips_def split: sum.splits)

lemma closed_failures:
  assumes "cb_state b = CLOSED" "\<forall>(t, t', x) \<in> set cs. tripping b x"
    "cb_consecutive_failures b + int (length cs) < cb_failure_threshold b"
  shows "serial_calls cs b = (replicate (length cs) True,
    if cs = [] then b else b\<lparr>cb_probing := False,
      cb_consecutive_failures := cb_consecutive_failures b + int (length cs)\<rparr>)"
  using assms
proof (induction cs arbitrary: b)
  case (Cons c cs)
  obtain t t' x where c: "c = (t, t', x)" by (cases c)
  define b1 where "b1 = b\<lparr>cb_probing := False, cb_consecutive_failures := cb_consecutive_failures b + 1\<rparr>"
  have adm: "breaker_admit t b = (True, b)" using Cons.prems(1) by (simp add: breaker_admit_def)
  have "breaker_after t' x b = b1"
    using Cons.prems c by (simp add: tripping_after on_failure_def b1_def Let_def)
  moreover have "serial_calls cs b1 = (replicate (length cs) True, if cs = [] then b1
      else b1\<lparr>cb_probing := False, cb_consecutive_failures := cb_consecutive_failures b1 + int (length cs)\<rparr>)"
    using Cons.prems tripping_config [of b1 b] by (intro Cons.IH) (auto simp: b1_def)
  ultimately show ?case using adm by (auto simp: c b1_def)
qed simp

lemma serial_append:
  "serial_calls (cs @ ds) b = (fst (serial_calls cs b) @ fst (serial_calls ds (snd (serial_calls cs b))),
     snd (serial_calls ds (snd (serial_calls cs b))))"
  by (induction cs arbitrary: b) (auto simp: case_prod_beta Let_def)

lemma open_rejects:
  assumes "cb_state b = OPEN" "\<forall>(t, t', x) \<in> set cs. t - cb_opened_at b < cb_reset_timeout b"
  shows "serial_calls cs b = (replicate (length cs) False, b)"
  using assms by (induction cs) (auto simp: breaker_admit_def reset_elapsed_def)

lemma closed_trips:
  assumes "breaker_ok b" "cb_state b = CLOSED" "\<forall>(t, t', x) \<in> set (cs @ [(u, u', y)]). tripping b x"
    "cb_consecutive_failures b + int (length cs) + 1 = cb_failure_threshold b"
  shows "\<exists>b'. serial_calls (cs @ [(u, u', y)]) b = (replicate (Suc (length cs)) True, b') \<and>
    cb_state b' = OPEN \<and> cb_opened_at b' = u' \<and> cb_reset_timeout b' = cb_reset_timeout b \<and>
    cb_failure_threshold b' = cb_failure_threshold b \<and> cb_trip_on b' = cb_trip_on b \<and> \<not> cb_probing b'"
proof -
  define b1 where "b1 = snd (serial_calls cs b)"
  have s: "serial_calls cs b = (replicate (length cs) True, b1)"
    and b1: "cb_state b1 = CLOSED" "cb_consecutive_failures b1 = cb_consecutive_failures b + int (length cs)"
      "cb_failure_threshold b1 = cb_failure_threshold b" "cb_reset_timeout b1 = cb_reset_timeout b"
      "cb_trip_on b1 = cb_trip_on b"
    using closed_failures [of b cs] assms by (auto simp: b1_def)
  have "breaker_after u' y b1 = trip u' (b1\<lparr>cb_probing := False,
      cb_consecutive_failures := cb_consecutive_failures b1 + 1\<rparr>)"
    using assms(3,4) b1 tripping_config [of b1 b] by (simp add: tripping_after on_failure_def Let_def)
  then show ?thesis
    using b1 by (auto simp: serial_append s breaker_admit_def trip_def replicate_append_same)
qed

text \<open>
  C5. The breaker's behaviour over calls made one at a time, from a closed circuit one short run of
  failures below the threshold. Every call runs until the threshold of consecutive tripping
  outcomes is reached, and the last of them opens the circuit; every call made before the reset
  timeout has elapsed is then rejected without running; the first call after it runs as a probe:
  an outcome that does not trip closes the circuit with a clean count, a tripping one opens it
  again from the moment the probe ended.
\<close>

theorem breaker_cycle:
  assumes ok: "breaker_ok b" "cb_state b = CLOSED"
    and fails: "\<forall>(t, t', x) \<in> set (cs @ [(u, u', y)]). tripping b x"
      "cb_consecutive_failures b + int (length cs) + 1 = cb_failure_threshold b"
    and early: "\<forall>(t, t', x) \<in> set ds. t - u' < cb_reset_timeout b"
    and late: "p - u' \<ge> cb_reset_timeout b" and seen: "\<forall>e. z = Inl e \<longrightarrow> catchable e"
  shows "\<exists>b'. serial_calls (cs @ [(u, u', y)] @ ds @ [(p, p', z)]) b =
      (replicate (Suc (length cs)) True @ replicate (length ds) False @ [True], b') \<and>
    (if tripping b z then cb_state b' = OPEN \<and> cb_opened_at b' = p'
     else cb_state b' = CLOSED \<and> cb_consecutive_failures b' = 0)"
proof -
  obtain b1 where s: "serial_calls (cs @ [(u, u', y)]) b = (replicate (Suc (length cs)) True, b1)"
    and b1: "cb_state b1 = OPEN" "cb_opened_at b1 = u'" "cb_reset_timeout b1 = cb_reset_timeout b"
      "cb_trip_on b1 = cb_trip_on b"
    using closed_trips [OF ok fails] by blast
  have d: "serial_calls ds b1 = (replicate (length ds) False, b1)"
    using open_rejects early b1 by simp
  define b2 where "b2 = b1\<lparr>cb_state := HALF_OPEN, cb_probing := True\<rparr>"
  have "breaker_admit p b1 = (True, b2)"
    using late b1 by (simp add: breaker_admit_def reset_elapsed_def b2_def)
  then have run: "serial_calls ((cs @ [(u, u', y)]) @ ds @ [(p, p', z)]) b =
      (replicate (Suc (length cs)) True @ replicate (length ds) False @ [True], breaker_after p' z b2)"
    unfolding serial_append [of "cs @ [(u, u', y)]"] s serial_append [of ds] by (simp add: d)
  have t: "tripping b z = tripping b2 z" using b1 by (intro tripping_config) (simp add: b2_def)
  have "if tripping b z then cb_state (breaker_after p' z b2) = OPEN \<and> cb_opened_at (breaker_after p' z b2) = p'
     else cb_state (breaker_after p' z b2) = CLOSED \<and> cb_consecutive_failures (breaker_after p' z b2) = 0"
    using seen unfolding t by (cases z) (auto simp: tripping_after tripping_def breaker_after_def
        breaker_record_def on_failure_def on_success_def trip_def b2_def Let_def)
  with run show ?thesis by auto
qed

theorem breaker_cycle_witness:
  "\<exists>b'. serial_calls [(0, 1, Inl (PyException ''OSError'' [])), (2, 3, Inr (timeout [])),
       (5, 5, Inr (ok VNone)), (40, 41, Inr (ok VNone))] (new_breaker 2 30 DEFAULT_TRIP_ON) =
     ([True, True, False, True], b') \<and> cb_state b' = CLOSED"
proof -
  let ?b = "new_breaker 2 30 DEFAULT_TRIP_ON"
  have trip: "tripping ?b (Inr (timeout []))" "\<not> tripping ?b (Inr (ok VNone))"
    "tripping ?b (Inl (PyException ''OSError'' []))"
    by (simp_all add: tripping_def trips_def timeout_def new_breaker_def DEFAULT_TRIP_ON_def)
  have b: "cb_state ?b = CLOSED" "cb_consecutive_failures ?b = 0" "cb_failure_threshold ?b = 2"
    "cb_reset_timeout ?b = 30" by (simp_all add: new_breaker_def)
  show ?thesis
    using breaker_cycle [of ?b "[(0, 1, Inl (PyException ''OSError'' []))]" 2 3 "Inr (timeout [])"
        "[(5, 5, Inr (ok VNone))]" 40 "Inr (ok VNone)" 41] trip breaker_ok_new [of 2 30 DEFAULT_TRIP_ON] b
    by (auto simp del: serial_calls.simps)
qed

section \<open>A probe that never ends\<close>

text \<open>
  A cancelled probe disables its breaker for good. \<open>except Exception\<close> does not see
  \<open>asyncio.CancelledError\<close>, so a probe whose task is cancelled leaves the circuit half-open with the
  probe still marked in flight: such a state is reachable, and from it, with no call in flight, no
  later call is ever admitted, however much time passes.
\<close>

lemma cancelled_probe_sticks:
  "(\<exists>es t. cb_run (new_breaker 1 30 DEFAULT_TRIP_ON, 0, 0) es
      ((on_failure 0 (new_breaker 1 30 DEFAULT_TRIP_ON))\<lparr>cb_state := HALF_OPEN, cb_probing := True\<rparr>, 0, t)) \<and>
   (cb_state b = HALF_OPEN \<and> cb_probing b \<and> cb_run (b, 0, t) es (b', n', t') \<longrightarrow>
      b' = b \<and> n' = 0 \<and> CallAdmitted \<notin> set es)"
proof (intro conjI impI)
  let ?b = "new_breaker 1 30 DEFAULT_TRIP_ON"
  have "cb_run (?b, 0, 0) [CallAdmitted, CallRaised, TimePasses 30, CallAdmitted, CallCancelled]
      ((on_failure 0 ?b)\<lparr>cb_state := HALF_OPEN, cb_probing := True\<rparr>, 0, 0 + 30)"
    by (intro cb_run_forwards)
      (simp_all add: breaker_admit_def new_breaker_def on_failure_def trip_def Let_def reset_elapsed_def)
  then show "\<exists>es t. cb_run (?b, 0, 0) es
      ((on_failure 0 ?b)\<lparr>cb_state := HALF_OPEN, cb_probing := True\<rparr>, 0, t)" by blast
next
  assume a: "cb_state b = HALF_OPEN \<and> cb_probing b \<and> cb_run (b, 0, t) es (b', n', t')"
  have stuck: "fst s' = b \<and> fst (snd s') = 0 \<and> CallAdmitted \<notin> set es"
    if "cb_run s es s'" "fst s = b" "fst (snd s) = 0" for s s' es
    using that
  proof (induction rule: cb_run.induct)
    case (further s e s' es s'')
    from further.hyps(1) further.prems a have "fst s' = b \<and> fst (snd s') = 0 \<and> e \<noteq> CallAdmitted"
      by (cases rule: cb_step.cases) (auto simp: breaker_admit_def)
    with further show ?case by auto
  qed simp
  then show "b' = b" "n' = 0" "CallAdmitted \<notin> set es" using a by fastforce+
qed

section \<open>The middleware\<close>

text \<open>
  The breaker as a middleware and as a sender: while the circuit is open nothing behind it runs
  and the answer is \<open>service-unavailable\<close>; otherwise the result and any exception of what it guards
  pass through unchanged. A guarded pipeline that ends without a result, however, is answered
  \<open>ok\<close>: the failure a binding would redeliver becomes a success.
\<close>

lemma breaker_guards:
  "(cb_state (get w) = OPEN \<and> \<not> reset_elapsed (clock w) (get w) \<longrightarrow>
      circuit_breaking_sender get put clock inner topic message headers w = (Inr open_rejection, put (get w) w) \<and>
      circuit_breaker_interception get put clock nxt (ctx, w) =
        (Inr (), (ctx\<lparr>ctx_result := Some open_rejection\<rparr>, put (get w) w))) \<and>
   (cb_state (get w) = CLOSED \<longrightarrow>
      fst (circuit_breaking_sender get put clock inner topic message headers w) =
        fst (inner topic message headers (put (get w) w)) \<and>
      (\<forall>ctx' w'. nxt (ctx, put (get w) w) = (Inr (), (ctx', w')) \<longrightarrow>
         (\<exists>w''. circuit_breaker_interception get put clock nxt (ctx, w) =
            (Inr (), (ctx'\<lparr>ctx_result :=
               Some (case ctx_result ctx' of Some r \<Rightarrow> r | None \<Rightarrow> ok VNone)\<rparr>, w'')))))"
proof (intro conjI impI allI)
  assume o: "cb_state (get w) = OPEN \<and> \<not> reset_elapsed (clock w) (get w)"
  show "circuit_breaking_sender get put clock inner topic message headers w = (Inr open_rejection, put (get w) w)"
    using o by (simp add: circuit_breaking_sender_def guarded_sender_def breaker.exec_rejects breaker_admit_def)
  show "circuit_breaker_interception get put clock nxt (ctx, w) =
      (Inr (), (ctx\<lparr>ctx_result := Some open_rejection\<rparr>, put (get w) w))"
    using o breaker_step.interception_rejects [of clock ctx w get put nxt]
    by (simp add: circuit_breaker_interception_def breaker_admit_def in_step_def into_step_def)
next
  assume c: "cb_state (get w) = CLOSED"
  show "fst (circuit_breaking_sender get put clock inner topic message headers w) =
      fst (inner topic message headers (put (get w) w))"
    using c by (simp add: circuit_breaking_sender_def guarded_sender_def breaker.exec_transparent breaker_admit_def)
  fix ctx' w'
  assume "nxt (ctx, put (get w) w) = (Inr (), (ctx', w'))"
  with c show "\<exists>w''. circuit_breaker_interception get put clock nxt (ctx, w) =
      (Inr (), (ctx'\<lparr>ctx_result := Some (case ctx_result ctx' of Some r \<Rightarrow> r | None \<Rightarrow> ok VNone)\<rparr>, w''))"
    using breaker_step.interception_admits [of clock ctx w get nxt put ctx' w']
    by (simp add: circuit_breaker_interception_def breaker_admit_def in_step_def into_step_def)
qed

end
