(* ===== verification/Bulkhead.thy ===== *)
theory Bulkhead
  imports Guard
begin

text \<open>
  \<open>benzene.resilience.bulkhead\<close>: the concurrency limiter. \<open>execute\<close> is stated over the two halves of
  \<open>async with self._semaphore\<close>; the runs of concurrent calls below model the semaphore itself
  (\<open>asyncio.Semaphore\<close>: first come, first served, a released slot goes to the longest waiter).
\<close>

record bulkhead =
  bh_max_concurrency :: int
  bh_max_queue :: int
  bh_in_flight :: int

definition new_bulkhead :: "int \<Rightarrow> int \<Rightarrow> bulkhead" where
  "new_bulkhead max_concurrency max_queue =
     \<lparr>bh_max_concurrency = max 1 max_concurrency, bh_max_queue = max 0 max_queue, bh_in_flight = 0\<rparr>"

definition bulkhead_full :: "bulkhead \<Rightarrow> bool" where
  "bulkhead_full b = (bh_in_flight b \<ge> bh_max_concurrency b + bh_max_queue b)"

definition bulkhead_enter :: "bulkhead \<Rightarrow> bulkhead" where
  "bulkhead_enter b = b\<lparr>bh_in_flight := bh_in_flight b + 1\<rparr>"

definition bulkhead_leave :: "bulkhead \<Rightarrow> bulkhead" where
  "bulkhead_leave b = b\<lparr>bh_in_flight := bh_in_flight b - 1\<rparr>"

definition full_rejection :: result where
  "full_rejection = too_many_requests [ErrText ''bulkhead is full'']"

definition bulkhead_execute ::
  "('s \<Rightarrow> bulkhead) \<Rightarrow> (bulkhead \<Rightarrow> 's \<Rightarrow> 's) \<Rightarrow> ('s, unit) action \<Rightarrow> ('s \<Rightarrow> 's) \<Rightarrow> 's guard" where
  "bulkhead_execute get put acquire release run = (\<lambda>s.
     if bulkhead_full (get s) then (Inr full_rejection, s)
     else (let s1 = put (bulkhead_enter (get s)) s;
               (x, s2) = (case acquire s1 of
                  (Inl e, t) \<Rightarrow> (Inl e, t)
                | (Inr _, t) \<Rightarrow> (case run t of (y, t') \<Rightarrow> (y, release t')))
           in (x, put (bulkhead_leave (get s2)) s2)))"

definition bulkhead_interception ::
  "('w \<Rightarrow> bulkhead) \<Rightarrow> (bulkhead \<Rightarrow> 'w \<Rightarrow> 'w) \<Rightarrow> (message_context \<times> 'w, unit) action \<Rightarrow>
   (message_context \<times> 'w \<Rightarrow> message_context \<times> 'w) \<Rightarrow> 'w middleware" where
  "bulkhead_interception get put acquire release =
     guard_interception (bulkhead_execute (in_step get) (into_step put) acquire release)"

definition bulkhead_sender ::
  "('w \<Rightarrow> bulkhead) \<Rightarrow> (bulkhead \<Rightarrow> 'w \<Rightarrow> 'w) \<Rightarrow> ('w, unit) action \<Rightarrow> ('w \<Rightarrow> 'w) \<Rightarrow>
   'w sender \<Rightarrow> 'w sender" where
  "bulkhead_sender get put acquire release = guarded_sender (bulkhead_execute get put acquire release)"

text \<open>With a slot that is granted, the bulkhead is a guard.\<close>

interpretation bulkhead: guarded "bulkhead_execute get put (\<lambda>s. (Inr (), acq s)) release"
  "\<lambda>s. \<not> bulkhead_full (get s)"
  "\<lambda>s. if bulkhead_full (get s) then s else acq (put (bulkhead_enter (get s)) s)"
  "\<lambda>_ s. put (bulkhead_leave (get (release s))) (release s)" full_rejection
  for get put acq release
  by unfold_locales (auto simp: bulkhead_execute_def full_rejection_def too_many_requests_def
      case_prod_beta Let_def)

interpretation bulkhead_step: guarded_step
  "bulkhead_execute (in_step get) (into_step put) (\<lambda>s. (Inr (), (fst s, acq (snd s)))) (\<lambda>s. (fst s, release (snd s)))"
  "\<lambda>s. \<not> bulkhead_full (in_step get s)"
  "\<lambda>s. if bulkhead_full (in_step get s) then s else
     (fst (into_step put (bulkhead_enter (in_step get s)) s), acq (snd (into_step put (bulkhead_enter (in_step get s)) s)))"
  "\<lambda>_ s. into_step put (bulkhead_leave (in_step get (fst s, release (snd s)))) (fst s, release (snd s))" full_rejection
  for get put acq release
  by unfold_locales (auto simp: full_rejection_def too_many_requests_def)

section \<open>Concurrent calls\<close>

text \<open>
  The bulkhead, the calls that hold a slot and the calls that wait for one. A call that ends
  (returns, raises or is cancelled) releases its slot; a call cancelled while it waits leaves the
  queue.
\<close>

record bh_world =
  bw_bulkhead :: bulkhead
  bw_running :: nat
  bw_waiting :: nat

datatype bh_event = CallShed | CallStarts | CallQueues | CallEnds | CallGivesUp

inductive bh_step :: "bh_world \<Rightarrow> bh_event \<Rightarrow> bh_world \<Rightarrow> bool" where
  shed: "bulkhead_full (bw_bulkhead w) \<Longrightarrow> bh_step w CallShed w"
| starts: "\<not> bulkhead_full (bw_bulkhead w) \<Longrightarrow>
    int (bw_running w) < bh_max_concurrency (bw_bulkhead w) \<and> bw_waiting w = 0 \<Longrightarrow>
    bh_step w CallStarts (w\<lparr>bw_bulkhead := bulkhead_enter (bw_bulkhead w), bw_running := bw_running w + 1\<rparr>)"
| queues: "\<not> bulkhead_full (bw_bulkhead w) \<Longrightarrow>
    \<not> (int (bw_running w) < bh_max_concurrency (bw_bulkhead w) \<and> bw_waiting w = 0) \<Longrightarrow>
    bh_step w CallQueues (w\<lparr>bw_bulkhead := bulkhead_enter (bw_bulkhead w), bw_waiting := bw_waiting w + 1\<rparr>)"
| ends: "0 < bw_running w \<Longrightarrow> bw_waiting w = 0 \<Longrightarrow>
    bh_step w CallEnds (w\<lparr>bw_bulkhead := bulkhead_leave (bw_bulkhead w), bw_running := bw_running w - 1\<rparr>)"
| ends_handing_over: "0 < bw_running w \<Longrightarrow> 0 < bw_waiting w \<Longrightarrow>
    bh_step w CallEnds (w\<lparr>bw_bulkhead := bulkhead_leave (bw_bulkhead w), bw_waiting := bw_waiting w - 1\<rparr>)"
| gives_up: "0 < bw_waiting w \<Longrightarrow>
    bh_step w CallGivesUp (w\<lparr>bw_bulkhead := bulkhead_leave (bw_bulkhead w), bw_waiting := bw_waiting w - 1\<rparr>)"

inductive bh_reachable :: "bulkhead \<Rightarrow> bh_world \<Rightarrow> bool" for b where
  start: "bh_reachable b \<lparr>bw_bulkhead = b, bw_running = 0, bw_waiting = 0\<rparr>"
| step: "bh_reachable b w \<Longrightarrow> bh_step w e w' \<Longrightarrow> bh_reachable b w'"

inductive_simps bh_shed_iff: "bh_step w CallShed w'"

definition bh_ok :: "bulkhead \<Rightarrow> bh_world \<Rightarrow> bool" where
  "bh_ok b w \<longleftrightarrow> bh_max_concurrency (bw_bulkhead w) = bh_max_concurrency b \<and>
     bh_max_queue (bw_bulkhead w) = bh_max_queue b \<and>
     bh_in_flight (bw_bulkhead w) = int (bw_running w) + int (bw_waiting w) \<and>
     int (bw_running w) \<le> bh_max_concurrency b \<and> int (bw_waiting w) \<le> bh_max_queue b \<and>
     (0 < bw_waiting w \<longrightarrow> int (bw_running w) = bh_max_concurrency b)"

lemma bh_ok_step: "bh_step w e w' \<Longrightarrow> bh_ok b w \<Longrightarrow> bh_ok b w'"
  by (induction rule: bh_step.induct)
    (auto simp: bh_ok_def bulkhead_full_def bulkhead_enter_def bulkhead_leave_def)

text \<open>
  C10. The bulkhead's limits hold in every interleaving of arrivals, ends and cancellations: at most
  \<open>max_concurrency\<close> calls run and at most \<open>max_queue\<close> wait, \<open>in_flight\<close> is exactly their number, no
  call waits while a slot is free, and a call is shed only when every slot is taken and the queue
  is full.
\<close>

theorem bulkhead_bounds:
  assumes "bh_reachable (new_bulkhead c q) w"
  shows "int (bw_running w) \<le> max 1 c \<and> int (bw_waiting w) \<le> max 0 q \<and>
    bh_in_flight (bw_bulkhead w) = int (bw_running w) + int (bw_waiting w) \<and>
    (0 < bw_waiting w \<longrightarrow> int (bw_running w) = max 1 c) \<and>
    (bh_step w CallShed w' \<longrightarrow> int (bw_running w) = max 1 c \<and> int (bw_waiting w) = max 0 q)"
proof -
  from assms have "bh_ok (new_bulkhead c q) w"
  proof (induction rule: bh_reachable.induct)
    case start
    then show ?case by (simp add: bh_ok_def new_bulkhead_def)
  qed (rule bh_ok_step)
  then show ?thesis
    by (auto simp: bh_ok_def new_bulkhead_def bh_shed_iff bulkhead_full_def)
qed

theorem bulkhead_bounds_witness:
  "int (bw_running \<lparr>bw_bulkhead = bulkhead_enter (new_bulkhead 1 0), bw_running = 0 + 1, bw_waiting = 0\<rparr>) \<le> max 1 1"
proof -
  have "bh_reachable (new_bulkhead 1 0)
      \<lparr>bw_bulkhead = bulkhead_enter (new_bulkhead 1 0), bw_running = 0 + 1, bw_waiting = 0\<rparr>"
    using bh_reachable.step [OF bh_reachable.start bh_step.starts, of "new_bulkhead 1 0"]
    by (simp add: bulkhead_full_def new_bulkhead_def)
  then show ?thesis using bulkhead_bounds by blast
qed

text \<open>
  The \<open>finally\<close> clause never leaks a place: whatever a guarded call does to the bulkhead's count
  is matched by its exit, so a call that leaves \<open>in_flight\<close> as it found it (returning, raising or
  being cancelled, also while it waits for its slot) leaves the count unchanged overall, and a full
  bulkhead sheds without running anything.
\<close>

lemma bulkhead_no_leak:
  assumes laws: "\<And>b s. get (put b s) = b"
    and acq: "\<And>s. get (snd (acquire s)) = get s" and rel: "\<And>s. get (release s) = get s"
    and run: "\<And>s. get (snd (run s)) = get s"
  shows "get (snd (bulkhead_execute get put acquire release run s)) = get s \<and>
    (bulkhead_full (get s) \<longrightarrow> bulkhead_execute get put acquire release run s = (Inr full_rejection, s))"
proof (cases "bulkhead_full (get s)")
  case False
  define s1 where "s1 = put (bulkhead_enter (get s)) s"
  obtain x t where a: "acquire s1 = (x, t)" by (cases "acquire s1")
  then have t: "get t = bulkhead_enter (get s)" using acq [of s1] laws by (simp add: s1_def)
  obtain y t' where r: "run t = (y, t')" by (cases "run t")
  then have t': "get (release t') = bulkhead_enter (get s)" using run [of t] rel t by simp
  have undoes: "bulkhead_leave (bulkhead_enter b) = b" for b
    by (simp add: bulkhead_leave_def bulkhead_enter_def)
  show ?thesis
    using False a r t t' by (cases x) (simp_all add: bulkhead_execute_def s1_def [symmetric] laws undoes)
qed (simp add: bulkhead_execute_def)

end
