(* ===== verification/RateLimit.thy ===== *)
theory RateLimit
  imports Guard
begin

text \<open>
  \<open>benzene.resilience.rate_limit\<close>: the token bucket and its \<open>execute\<close> seam. Token counts and times
  are rational numbers where Python computes with floats, so rounding is not modelled.
\<close>

record limiter =
  rl_refill_rate :: rat
  rl_burst :: int
  rl_tokens :: rat
  rl_updated_at :: rat

definition new_limiter :: "rat \<Rightarrow> int \<Rightarrow> rat \<Rightarrow> limiter outcome" where
  \<comment> \<open>the third argument is the clock's reading at construction\<close>
  "new_limiter refill_rate burst now =
     (if refill_rate \<le> 0 then Inl (PyException ''ValueError'' ''refill_rate must be positive'')
      else Inr \<lparr>rl_refill_rate = refill_rate, rl_burst = max 1 burst,
                rl_tokens = of_int (max 1 burst), rl_updated_at = now\<rparr>)"

definition refill :: "rat \<Rightarrow> limiter \<Rightarrow> limiter" where
  "refill now l =
     (let elapsed = now - rl_updated_at l
      in if elapsed > 0
         then l\<lparr>rl_tokens := min (of_int (rl_burst l)) (rl_tokens l + elapsed * rl_refill_rate l),
                rl_updated_at := now\<rparr>
         else l)"

definition available :: "rat \<Rightarrow> limiter \<Rightarrow> rat \<times> limiter" where
  "available now l = (rl_tokens (refill now l), refill now l)"

definition try_acquire :: "rat \<Rightarrow> limiter \<Rightarrow> bool \<times> limiter" where
  "try_acquire now l =
     (let l1 = refill now l
      in if rl_tokens l1 \<ge> 1 then (True, l1\<lparr>rl_tokens := rl_tokens l1 - 1\<rparr>) else (False, l1))"

definition limit_rejection :: result where
  "limit_rejection = too_many_requests [ErrText ''rate limit exceeded'']"

definition limiter_execute :: "('s \<Rightarrow> limiter) \<Rightarrow> (limiter \<Rightarrow> 's \<Rightarrow> 's) \<Rightarrow> ('s \<Rightarrow> rat) \<Rightarrow> 's guard" where
  "limiter_execute get put clock run = (\<lambda>s.
     let (acquired, l1) = try_acquire (clock s) (get s); s1 = put l1 s
     in if \<not> acquired then (Inr limit_rejection, s1) else run s1)"

definition rate_limit_interception ::
  "('w \<Rightarrow> limiter) \<Rightarrow> (limiter \<Rightarrow> 'w \<Rightarrow> 'w) \<Rightarrow> ('w \<Rightarrow> rat) \<Rightarrow> 'w middleware" where
  "rate_limit_interception get put clock =
     guard_interception (limiter_execute (in_step get) (into_step put) (in_step clock))"

definition rate_limiting_sender ::
  "('w \<Rightarrow> limiter) \<Rightarrow> (limiter \<Rightarrow> 'w \<Rightarrow> 'w) \<Rightarrow> ('w \<Rightarrow> rat) \<Rightarrow> 'w sender \<Rightarrow> 'w sender" where
  "rate_limiting_sender get put clock = guarded_sender (limiter_execute get put clock)"

interpretation limiter: guarded "limiter_execute get put clock" "\<lambda>s. fst (try_acquire (clock s) (get s))"
  "\<lambda>s. put (snd (try_acquire (clock s) (get s))) s" "\<lambda>_ s. s" limit_rejection
  for get put clock
  by unfold_locales (auto simp: limiter_execute_def limit_rejection_def too_many_requests_def Let_def
      case_prod_beta)

interpretation limiter_step: guarded_step
  "limiter_execute (in_step get) (into_step put) (in_step clock)"
  "\<lambda>s. fst (try_acquire (in_step clock s) (in_step get s))"
  "\<lambda>s. into_step put (snd (try_acquire (in_step clock s) (in_step get s))) s" "\<lambda>_ s. s" limit_rejection
  for get put clock
  by unfold_locales (simp_all add: limit_rejection_def too_many_requests_def)

section \<open>Facts\<close>

definition limiter_ok :: "limiter \<Rightarrow> bool" where
  "limiter_ok l \<longleftrightarrow> 0 < rl_refill_rate l \<and> 1 \<le> rl_burst l \<and> 0 \<le> rl_tokens l \<and> rl_tokens l \<le> of_int (rl_burst l)"

lemma new_limiter_ok: "new_limiter r b now = Inr l \<Longrightarrow> limiter_ok l"
  by (auto simp: new_limiter_def limiter_ok_def split: if_splits)

lemma refill_ok: "limiter_ok l \<Longrightarrow> limiter_ok (refill now l)"
  by (auto simp: limiter_ok_def refill_def Let_def)

lemma acquire_ok: "limiter_ok l \<Longrightarrow> limiter_ok (snd (try_acquire now l))"
  using refill_ok [of l now] by (auto simp: limiter_ok_def try_acquire_def Let_def)

lemma refill_fields [simp]:
  "rl_refill_rate (refill now l) = rl_refill_rate l" "rl_burst (refill now l) = rl_burst l"
  "rl_updated_at (refill now l) = max now (rl_updated_at l)"
  by (auto simp: refill_def Let_def max_def)

lemma acquire_fields [simp]:
  "rl_refill_rate (snd (try_acquire now l)) = rl_refill_rate l"
  "rl_burst (snd (try_acquire now l)) = rl_burst l"
  "rl_updated_at (snd (try_acquire now l)) = max now (rl_updated_at l)"
  by (simp_all add: try_acquire_def Let_def)

lemma refill_tokens:
  assumes "rl_updated_at l \<le> now"
  shows "rl_tokens (refill now l) \<le> rl_tokens l + (now - rl_updated_at l) * rl_refill_rate l"
  using assms by (auto simp: refill_def Let_def min_def)

lemma acquire_tokens:
  assumes "rl_updated_at l \<le> now"
  shows "rl_tokens (snd (try_acquire now l)) + of_bool (fst (try_acquire now l)) \<le>
    rl_tokens l + (now - rl_updated_at l) * rl_refill_rate l"
  using refill_tokens [OF assms] by (simp add: try_acquire_def Let_def)

text \<open>Calls at the times of a list, one after the other; \<open>True\<close> marks the ones admitted.\<close>

fun acquire_all :: "rat list \<Rightarrow> limiter \<Rightarrow> bool list \<times> limiter" where
  "acquire_all [] l = ([], l)"
| "acquire_all (t # ts) l =
     (let (a, l1) = try_acquire t l; (as, l2) = acquire_all ts l1 in (a # as, l2))"

definition admitted_count :: "bool list \<Rightarrow> nat" where
  "admitted_count as = length (filter id as)"

lemma acquire_all_tokens:
  assumes "sorted (rl_updated_at l # ts)"
  shows "rl_tokens (snd (acquire_all ts l)) + of_nat (admitted_count (fst (acquire_all ts l))) \<le>
    rl_tokens l + (last (rl_updated_at l # ts) - rl_updated_at l) * rl_refill_rate l"
  using assms
proof (induction ts arbitrary: l)
  case (Cons t ts)
  define l1 where "l1 = snd (try_acquire t l)"
  have u: "rl_updated_at l1 = t" using Cons.prems by (simp add: l1_def max_def)
  have "sorted (rl_updated_at l1 # ts)" using Cons.prems by (simp add: u)
  from Cons.IH [OF this] have "rl_tokens (snd (acquire_all ts l1)) +
      of_nat (admitted_count (fst (acquire_all ts l1))) \<le>
      rl_tokens l1 + (last (t # ts) - t) * rl_refill_rate l"
    unfolding u by (simp add: l1_def)
  moreover have "rl_tokens l1 + of_bool (fst (try_acquire t l)) \<le>
      rl_tokens l + (t - rl_updated_at l) * rl_refill_rate l"
    unfolding l1_def by (rule acquire_tokens) (use Cons.prems in simp)
  moreover have "(last (t # ts) - t) * rl_refill_rate l + (t - rl_updated_at l) * rl_refill_rate l =
      (last (t # ts) - rl_updated_at l) * rl_refill_rate l" by (simp add: algebra_simps)
  ultimately have "rl_tokens (snd (acquire_all ts l1)) + of_nat (admitted_count (fst (acquire_all ts l1))) +
      of_bool (fst (try_acquire t l)) \<le> rl_tokens l + (last (t # ts) - rl_updated_at l) * rl_refill_rate l"
    by linarith
  moreover have "of_nat (admitted_count (fst (acquire_all (t # ts) l))) =
      (of_nat (admitted_count (fst (acquire_all ts l1))) :: rat) + of_bool (fst (try_acquire t l))"
    by (simp add: admitted_count_def l1_def case_prod_beta)
  moreover have "snd (acquire_all (t # ts) l) = snd (acquire_all ts l1)"
    by (simp add: l1_def case_prod_beta)
  moreover have "last (rl_updated_at l # t # ts) = last (t # ts)" by simp
  ultimately show ?case by (simp only: add.assoc)
qed (simp add: admitted_count_def)

lemma acquire_all_ok: "limiter_ok l \<Longrightarrow> limiter_ok (snd (acquire_all ts l))"
  by (induction ts arbitrary: l) (auto simp: case_prod_beta Let_def acquire_ok)

lemma acquire_all_rate: "rl_refill_rate (snd (acquire_all ts l)) = rl_refill_rate l"
  by (induction ts arbitrary: l) (auto simp: case_prod_beta Let_def)

text \<open>
  C9. The token bucket bounds the admitted rate: from a fresh limiter, whatever calls are made at
  non-decreasing times, no more than \<open>burst + refill_rate * T\<close> of them are admitted in a span of
  \<open>T\<close> seconds; the bucket stays between empty and its ceiling; and a call that comes at least
  \<open>1 / refill_rate\<close> seconds after the previous one is always admitted.
\<close>

theorem rate_bounded:
  assumes new: "new_limiter rate burst now = Inr l" and times: "sorted (now # ts)"
  shows "of_nat (admitted_count (fst (acquire_all ts l))) \<le>
      of_int (max 1 burst) + rate * (last (now # ts) - now) \<and>
    limiter_ok (snd (acquire_all ts l)) \<and>
    (1 / rate \<le> t - rl_updated_at (snd (acquire_all ts l)) \<longrightarrow>
       fst (try_acquire t (snd (acquire_all ts l))))"
proof (intro conjI impI)
  from new have l: "rl_tokens l = of_int (max 1 burst)" "rl_updated_at l = now" "rl_refill_rate l = rate"
    by (auto simp: new_limiter_def split: if_splits)
  show ok: "limiter_ok (snd (acquire_all ts l))" using acquire_all_ok new_limiter_ok [OF new] by blast
  then have "0 \<le> rl_tokens (snd (acquire_all ts l))" by (simp add: limiter_ok_def)
  with acquire_all_tokens [of l ts] times l show "of_nat (admitted_count (fst (acquire_all ts l))) \<le>
      of_int (max 1 burst) + rate * (last (now # ts) - now)" by (simp add: mult.commute)
  assume gap: "1 / rate \<le> t - rl_updated_at (snd (acquire_all ts l))"
  let ?l = "snd (acquire_all ts l)"
  have r: "rl_refill_rate ?l = rate" using acquire_all_rate l by simp
  with ok have "0 < rate" by (simp add: limiter_ok_def)
  then have "0 < 1 / rate" by simp
  with gap have pos: "0 < t - rl_updated_at ?l" by linarith
  from gap \<open>0 < rate\<close> have "1 \<le> (t - rl_updated_at ?l) * rate" by (simp add: field_simps)
  with pos ok r show "fst (try_acquire t ?l)"
    by (auto simp: try_acquire_def refill_def Let_def limiter_ok_def min_def)
qed

theorem rate_bounded_witness:
  "of_nat (admitted_count (fst (acquire_all [0, 0, 1]
      \<lparr>rl_refill_rate = 1, rl_burst = 1, rl_tokens = 1, rl_updated_at = 0\<rparr>))) \<le> (2 :: rat)"
  using rate_bounded [of 1 1 0 "\<lparr>rl_refill_rate = 1, rl_burst = 1, rl_tokens = 1, rl_updated_at = 0\<rparr>" "[0, 0, 1]"]
  by (simp add: new_limiter_def)

end
