(* ===== verification/Idempotency.thy ===== *)
theory Idempotency
  imports Envelope
begin

text \<open>
  \<open>benzene.resilience.idempotency\<close>: the middleware that replays the first result of a repeated key,
  the contract of its store, and the in-memory store. A key is a header's value, so it may be any
  decoded value; the in-memory store raises \<open>TypeError\<close> for one that cannot be hashed.
\<close>

section \<open>The middleware\<close>

definition DEFAULT_KEY_HEADERS :: "string list" where
  "DEFAULT_KEY_HEADERS = [''idempotency-key'', ''message-id'']"

fun key_of :: "pydict \<Rightarrow> string list \<Rightarrow> pyval option" where
  "key_of headers [] = None"
| "key_of headers (name # names) =
     (let value = vget headers (py_lower name)
      in if truthy value then Some value else key_of headers names)"

type_synonym 'w store_get = "pyval \<Rightarrow> ('w, result option) action"
type_synonym 'w store_put = "pyval \<Rightarrow> result \<Rightarrow> ('w, unit) action"

definition idempotency ::
  "'w store_get \<Rightarrow> 'w store_put \<Rightarrow> string list \<Rightarrow> (result \<Rightarrow> bool) option \<Rightarrow> 'w middleware" where
  "idempotency sget sput key_headers remember_when = (\<lambda>nxt (ctx, w).
     case key_of (ctx_headers ctx) key_headers of
       None \<Rightarrow> nxt (ctx, w)
     | Some key \<Rightarrow>
         (case sget key w of
            (Inl e, w') \<Rightarrow> (Inl e, (ctx, w'))
          | (Inr (Some r), w') \<Rightarrow> (Inr (), (set_result_of (Some r) ctx, w'))
          | (Inr None, w') \<Rightarrow>
              (case nxt (ctx, w') of
                 (Inl e, s) \<Rightarrow> (Inl e, s)
               | (Inr _, (ctx', w'')) \<Rightarrow>
                   (case ctx_result ctx' of
                      None \<Rightarrow> (Inr (), (ctx', w''))
                    | Some r \<Rightarrow>
                        if (case remember_when of None \<Rightarrow> result_is_successful r | Some p \<Rightarrow> p r) then
                          (case sput key r w'' of (x, w3) \<Rightarrow> (x, (ctx', w3)))
                        else (Inr (), (ctx', w''))))))"

section \<open>The contract of a store\<close>

text \<open>
  \<open>keeps key r w\<close>: in the world \<open>w\<close> the store remembers \<open>r\<close> under \<open>key\<close>; \<open>usable w\<close>: what the store
  puts now it will still have when asked at once.
\<close>

locale idempotency_store =
  fixes sget :: "'w store_get" and sput :: "'w store_put"
    and keeps :: "pyval \<Rightarrow> result \<Rightarrow> 'w \<Rightarrow> bool" and usable :: "'w \<Rightarrow> bool"
  assumes get_kept: "keeps key r w \<Longrightarrow> sget key w = (Inr (Some r), w)"
    and get_unkept: "sget key w = (Inr (Some r), w') \<Longrightarrow> keeps key r w"
    and put_keeps: "usable w \<Longrightarrow> sput key r w = (Inr (), w') \<Longrightarrow> keeps key r w'"
    and keeps_unique: "keeps key r w \<Longrightarrow> keeps key r' w \<Longrightarrow> r = r'"
begin

text \<open>A repeated delivery is answered from the store, whatever is behind the middleware.\<close>

lemma replays:
  assumes "key_of (ctx_headers ctx) hs = Some key" "keeps key r w"
  shows "idempotency sget sput hs rw nxt (ctx, w) = (Inr (), (ctx\<lparr>ctx_result := Some r\<rparr>, w))"
  using assms get_kept [OF assms(2)] by (simp add: idempotency_def set_result_of_def)

lemma first_delivery:
  assumes "key_of (ctx_headers ctx) hs = Some key" "\<And>r. \<not> keeps key r w"
    and "idempotency sget sput hs rw nxt (ctx, w) = (Inr (), (ctx', w'))"
  shows "\<exists>w1 w2. sget key w = (Inr None, w1) \<and> nxt (ctx, w1) = (Inr (), (ctx', w2)) \<and>
    (case ctx_result ctx' of
       Some r \<Rightarrow> if (case rw of None \<Rightarrow> result_is_successful r | Some p \<Rightarrow> p r)
                 then usable w2 \<longrightarrow> keeps key r w' else w' = w2
     | None \<Rightarrow> w' = w2)"
proof -
  obtain x w1 where g: "sget key w = (x, w1)" by (cases "sget key w")
  with assms have x: "x = Inr None"
    by (cases x) (auto simp: idempotency_def split: option.splits dest: get_unkept)
  obtain y ctx2 w2 where n: "nxt (ctx, w1) = (y, (ctx2, w2))" by (cases "nxt (ctx, w1)") auto
  with assms(1,3) g x have y: "y = Inr ()" by (cases y) (auto simp: idempotency_def)
  show ?thesis
    using assms(1,3) g x n y put_keeps [of w2 key]
    by (intro exI [of _ w1] exI [of _ w2])
      (auto simp: idempotency_def split: option.splits if_splits prod.splits)
qed

end

section \<open>The in-memory store\<close>

record mem_store =
  ms_ttl :: "rat option"
  ms_entries :: "(pyval, result \<times> rat option) dict"

definition new_mem_store :: "rat option \<Rightarrow> mem_store" where
  "new_mem_store ttl = \<lparr>ms_ttl = ttl, ms_entries = []\<rparr>"

definition mem_get :: "('w \<Rightarrow> mem_store) \<Rightarrow> (mem_store \<Rightarrow> 'w \<Rightarrow> 'w) \<Rightarrow> ('w \<Rightarrow> rat) \<Rightarrow> 'w store_get" where
  "mem_get get put clock key = (\<lambda>w.
     if \<not> hashable key then (Inl unhashable_error, w)
     else (case dict_get (ms_entries (get w)) key of
        None \<Rightarrow> (Inr None, w)
      | Some (r, expires_at) \<Rightarrow>
          (case expires_at of
             Some t \<Rightarrow> if clock w \<ge> t
               then (Inr None, put ((get w)\<lparr>ms_entries := dict_del key (ms_entries (get w))\<rparr>) w)
               else (Inr (Some r), w)
           | None \<Rightarrow> (Inr (Some r), w))))"

definition mem_put :: "('w \<Rightarrow> mem_store) \<Rightarrow> (mem_store \<Rightarrow> 'w \<Rightarrow> 'w) \<Rightarrow> ('w \<Rightarrow> rat) \<Rightarrow> 'w store_put" where
  "mem_put get put clock key r = (\<lambda>w.
     if \<not> hashable key then (Inl unhashable_error, w)
     else (let expires_at = (case ms_ttl (get w) of None \<Rightarrow> None | Some ttl \<Rightarrow> Some (clock w + ttl))
           in (Inr (), put ((get w)\<lparr>ms_entries := dict_set key (r, expires_at) (ms_entries (get w))\<rparr>) w)))"

definition mem_keeps :: "('w \<Rightarrow> mem_store) \<Rightarrow> ('w \<Rightarrow> rat) \<Rightarrow> pyval \<Rightarrow> result \<Rightarrow> 'w \<Rightarrow> bool" where
  "mem_keeps get clock key r w \<longleftrightarrow> hashable key \<and>
     (\<exists>x. dict_get (ms_entries (get w)) key = Some (r, x) \<and> (\<forall>t. x = Some t \<longrightarrow> clock w < t))"

definition mem_usable :: "('w \<Rightarrow> mem_store) \<Rightarrow> 'w \<Rightarrow> bool" where
  "mem_usable get w \<longleftrightarrow> (\<forall>ttl. ms_ttl (get w) = Some ttl \<longrightarrow> 0 < ttl)"

text \<open>Where an application keeps its store and its clock.\<close>

locale in_memory =
  fixes get :: "'w \<Rightarrow> mem_store" and put :: "mem_store \<Rightarrow> 'w \<Rightarrow> 'w" and clock :: "'w \<Rightarrow> rat"
  assumes get_put: "get (put m w) = m" and clock_put: "clock (put m w) = clock w"

sublocale in_memory \<subseteq> idempotency_store "mem_get get put clock" "mem_put get put clock"
  "mem_keeps get clock" "mem_usable get"
  by unfold_locales (auto simp: mem_get_def mem_put_def mem_keeps_def mem_usable_def get_put clock_put
      Let_def split: option.splits if_splits)

record 'a process =
  pr_store :: mem_store
  pr_now :: rat
  pr_app :: 'a

definition set_store :: "mem_store \<Rightarrow> 'a process \<Rightarrow> 'a process" where
  "set_store m p = p\<lparr>pr_store := m\<rparr>"

interpretation process: in_memory pr_store set_store pr_now
  by unfold_locales (simp_all add: set_store_def)

section \<open>Facts\<close>

text \<open>
  What may happen to the process between two deliveries of one key: time passes and the application
  works, and the middleware looks up any key, this one included, and puts results under other keys, in
  any number and order.
\<close>

inductive meanwhile :: "pyval \<Rightarrow> 'a process \<Rightarrow> 'a process \<Rightarrow> bool" for key where
  nothing: "meanwhile key p p"
| passes: "meanwhile key p q \<Longrightarrow> pr_store q' = pr_store q \<Longrightarrow> pr_now q \<le> pr_now q' \<Longrightarrow> meanwhile key p q'"
| looks_up: "meanwhile key p q \<Longrightarrow> mem_get pr_store set_store pr_now k q = (x, q') \<Longrightarrow> meanwhile key p q'"
| puts: "meanwhile key p q \<Longrightarrow> k \<noteq> key \<Longrightarrow> mem_put pr_store set_store pr_now k r q = (y, q') \<Longrightarrow> meanwhile key p q'"

lemma meanwhile_trans: "meanwhile key q q' \<Longrightarrow> meanwhile key p q \<Longrightarrow> meanwhile key p q'"
proof (induction rule: meanwhile.induct)
  case (passes q q' q'')
  from meanwhile.passes [OF passes.IH [OF passes.prems] passes.hyps(2,3)] show ?case .
next
  case (looks_up q q' k x q'')
  from meanwhile.looks_up [OF looks_up.IH [OF looks_up.prems] looks_up.hyps(2)] show ?case .
next
  case (puts q q' k r y q'')
  from meanwhile.puts [OF puts.IH [OF puts.prems] puts.hyps(2,3)] show ?case .
qed

lemma delivery_world:
  assumes "key_of (ctx_headers ctx) hs = Some k" "sget k w = (y, w1)" "nxt (ctx, w1) = (z, (ctx2, w2))"
    and "idempotency sget sput hs rw nxt (ctx, w) = (x, (ctx', w'))"
  shows "w' = w1 \<or> w' = w2 \<or> (\<exists>r v. sput k r w2 = (v, w'))"
proof (cases y)
  case (Inr found)
  with assms show ?thesis
    by (cases found; cases z; cases "ctx_result ctx2")
      (auto simp: idempotency_def split: option.splits if_splits prod.splits)
qed (use assms in \<open>auto simp: idempotency_def\<close>)

text \<open>So any deliveries of other keys may come between, whatever is behind the middleware, as long as that is such a history itself.\<close>

lemma other_delivery:
  assumes "key_of (ctx_headers ctx) hs \<noteq> Some key" "\<And>s. meanwhile key (snd s) (snd (snd (nxt s)))"
    and "idempotency (mem_get pr_store set_store pr_now) (mem_put pr_store set_store pr_now) hs rw nxt (ctx, q) = (x, (ctx', q'))"
  shows "meanwhile key q q'"
proof (cases "key_of (ctx_headers ctx) hs")
  case None
  with assms(2) [of "(ctx, q)"] assms(3) show ?thesis by (simp add: idempotency_def)
next
  case (Some k)
  obtain y q1 where g: "mem_get pr_store set_store pr_now k q = (y, q1)"
    by (cases "mem_get pr_store set_store pr_now k q")
  from meanwhile.looks_up [OF meanwhile.nothing this] have m1: "meanwhile key q q1" .
  obtain z ctx2 q2 where n: "nxt (ctx, q1) = (z, (ctx2, q2))" by (cases "nxt (ctx, q1)") auto
  then have m2: "meanwhile key q q2" using meanwhile_trans [OF _ m1] assms(2) [of "(ctx, q1)"] by simp
  have m3: "meanwhile key q q3" if "mem_put pr_store set_store pr_now k r q2 = (v, q3)" for r v q3
    using meanwhile.puts [OF m2 _ that] Some assms(1) by auto
  from delivery_world [OF Some g n assms(3)] show ?thesis
    by (elim disjE exE) (simp add: m1, simp add: m2, rule m3)
qed

text \<open>An entry outlives whatever happens meanwhile, until it expires.\<close>

lemma put_elsewhere:
  assumes "mem_put pr_store set_store pr_now k r q = (y, q')" "k \<noteq> key"
  shows "pr_now q' = pr_now q \<and> dict_get (ms_entries (pr_store q')) key = dict_get (ms_entries (pr_store q)) key"
  using assms by (cases "hashable k") (auto simp: mem_put_def set_store_def Let_def)

lemma get_unexpired:
  assumes "mem_get pr_store set_store pr_now k q = (y, q')"
    and "dict_get (ms_entries (pr_store q)) key = Some (r, x)" "\<And>t. x = Some t \<Longrightarrow> pr_now q < t"
  shows "dict_get (ms_entries (pr_store q')) key = Some (r, x)"
  using assms by (cases "k = key") (auto simp: mem_get_def set_store_def split: option.splits if_splits)

lemma get_clock: "mem_get pr_store set_store pr_now k q = (y, q') \<Longrightarrow> pr_now q' = pr_now q"
  by (auto simp: mem_get_def set_store_def split: option.splits if_splits)

lemma entry_stays:
  assumes "meanwhile key p q" "dict_get (ms_entries (pr_store p)) key = Some (r, x)" "\<And>t. x = Some t \<Longrightarrow> pr_now q < t"
  shows "dict_get (ms_entries (pr_store q)) key = Some (r, x)"
  using assms
proof (induction rule: meanwhile.induct)
  case (passes p q q')
  have "dict_get (ms_entries (pr_store q)) key = Some (r, x)"
    using passes.IH [OF passes.prems(1)] passes.prems(2) passes.hyps(3) order_le_less_trans by blast
  with passes.hyps(2) show ?case by simp
next
  case (looks_up p q k y q')
  note clock = get_clock [OF looks_up.hyps(2)]
  from looks_up.IH [OF looks_up.prems(1)] looks_up.prems(2) clock
  have "dict_get (ms_entries (pr_store q)) key = Some (r, x)" by simp
  with get_unexpired [OF looks_up.hyps(2)] looks_up.prems(2) clock show ?case by simp
next
  case (puts p q k r' y q')
  note world = put_elsewhere [OF puts.hyps(3,2)]
  from puts.IH [OF puts.prems(1)] puts.prems(2) world show ?case by simp
qed simp

text \<open>
  C8. A message delivered twice is handled once. After a first delivery whose handler answered a
  success, with an in-memory store that keeps entries for ever or for \<open>ttl > 0\<close> seconds, a second
  delivery with the same idempotency key is answered with the first result, and nothing behind the
  middleware runs, whatever came between that leaves time for the entry: any number of deliveries with
  other keys that looked up and put results of their own, lookups of this key, and other work of the
  application.
\<close>

theorem redelivery_replays:
  fixes p :: "'a process"
  assumes key: "key_of (ctx_headers ctx) hs = Some key" "key_of (ctx_headers ctx2) hs = Some key"
    and first: "idempotency (mem_get pr_store set_store pr_now) (mem_put pr_store set_store pr_now) hs None
        nxt (ctx, p) = (Inr (), (ctx', p'))"
      "\<And>r. \<not> mem_keeps pr_store pr_now key r p" "ctx_result ctx' = Some r" "result_is_successful r"
      "\<And>p1 p2. mem_get pr_store set_store pr_now key p = (Inr None, p1) \<Longrightarrow>
         nxt (ctx, p1) = (Inr (), (ctx', p2)) \<Longrightarrow> mem_usable pr_store p2"
    and later: "meanwhile key p' q"
      "\<And>t. dict_get (ms_entries (pr_store p')) key = Some (r, Some t) \<Longrightarrow> pr_now q < t"
  shows "idempotency (mem_get pr_store set_store pr_now) (mem_put pr_store set_store pr_now) hs None
    nxt' (ctx2, q) = (Inr (), (ctx2\<lparr>ctx_result := Some r\<rparr>, q))"
proof (rule process.replays [OF key(2)])
  have "mem_keeps pr_store pr_now key r p'"
    using process.first_delivery [OF key(1) first(2,1)] first(3-5) by auto
  then show "mem_keeps pr_store pr_now key r q"
    using entry_stays [OF later(1)] later(2) unfolding mem_keeps_def by blast
qed

definition sample_context :: message_context where
  "sample_context = (mk_context (VStr ''t'') VNone [] [] VNone)\<lparr>ctx_headers := [(''idempotency-key'', VStr ''k'')]\<rparr>"

definition counting_step :: "nat process step" where
  "counting_step = (\<lambda>(ctx, p). (Inr (), (ctx\<lparr>ctx_result := Some (ok VNone)\<rparr>, p\<lparr>pr_app := pr_app p + 1\<rparr>)))"

lemma sample_key: "key_of (ctx_headers sample_context) DEFAULT_KEY_HEADERS = Some (VStr ''k'')"
proof -
  have "py_lower ''idempotency-key'' = ''idempotency-key''" by code_simp
  then show ?thesis by (simp add: sample_context_def DEFAULT_KEY_HEADERS_def)
qed

theorem redelivery_replays_witness:
  "\<exists>q :: nat process. length (ms_entries (pr_store q)) = 2 \<and>
     idempotency (mem_get pr_store set_store pr_now) (mem_put pr_store set_store pr_now)
      DEFAULT_KEY_HEADERS None (act_raise PyCancelled) (sample_context, q) =
    (Inr (), (sample_context\<lparr>ctx_result := Some (ok VNone)\<rparr>, q)) \<and> pr_app q = 1"
proof -
  let ?p = "\<lparr>pr_store = new_mem_store None, pr_now = 0, pr_app = 0 :: nat\<rparr>"
  let ?p' = "\<lparr>pr_store = \<lparr>ms_ttl = None, ms_entries = [(VStr ''k'', ok VNone, None)]\<rparr>, pr_now = 0, pr_app = 1 :: nat\<rparr>"
  let ?q = "\<lparr>pr_store = \<lparr>ms_ttl = None, ms_entries = [(VStr ''k'', ok VNone, None), (VStr ''j'', ok (VBool True), None)]\<rparr>,
    pr_now = 0, pr_app = 1 :: nat\<rparr>"
  have first: "idempotency (mem_get pr_store set_store pr_now) (mem_put pr_store set_store pr_now)
      DEFAULT_KEY_HEADERS None counting_step (sample_context, ?p) =
      (Inr (), (sample_context\<lparr>ctx_result := Some (ok VNone)\<rparr>, ?p'))"
    by (simp add: idempotency_def sample_key mem_get_def mem_put_def new_mem_store_def counting_step_def set_store_def)
  have "mem_put pr_store set_store pr_now (VStr ''j'') (ok (VBool True)) ?p' = (Inr (), ?q)"
    by (simp add: mem_put_def set_store_def)
  then have between: "meanwhile (VStr ''k'') ?p' ?q"
    using meanwhile.puts [OF meanwhile.nothing, of "VStr ''j''" "VStr ''k''"] by simp
  have "idempotency (mem_get pr_store set_store pr_now) (mem_put pr_store set_store pr_now)
      DEFAULT_KEY_HEADERS None (act_raise PyCancelled) (sample_context, ?q) =
    (Inr (), (sample_context\<lparr>ctx_result := Some (ok VNone)\<rparr>, ?q))"
  proof (rule redelivery_replays [OF sample_key sample_key first _ _ _ _ between])
    fix p1 p2
    assume "mem_get pr_store set_store pr_now (VStr ''k'') ?p = (Inr None, p1)"
      "counting_step (sample_context, p1) = (Inr (), sample_context\<lparr>ctx_result := Some (ok VNone)\<rparr>, p2)"
    then show "mem_usable pr_store p2"
      by (auto simp: mem_usable_def mem_get_def new_mem_store_def counting_step_def)
  qed (simp_all add: mem_keeps_def new_mem_store_def)
  then show ?thesis by (intro exI [of _ ?q]) simp
qed

text \<open>
  A failure is never pinned: a delivery that ends without a result, or with one that is not to
  be remembered, leaves the store exactly as the handler left it, so a redelivery with the same
  key runs the handler again; and a message without a key passes through untouched.
\<close>

lemma failures_not_remembered:
  "(key_of (ctx_headers ctx) hs = None \<longrightarrow> idempotency sget sput hs rw nxt (ctx, w) = nxt (ctx, w)) \<and>
   (key_of (ctx_headers ctx) hs = Some key \<and> sget key w = (Inr None, w1) \<and>
    nxt (ctx, w1) = (Inr (), (ctx', w2)) \<and>
    (\<forall>r. ctx_result ctx' = Some r \<longrightarrow> \<not> (case rw of None \<Rightarrow> result_is_successful r | Some p \<Rightarrow> p r)) \<longrightarrow>
      idempotency sget sput hs rw nxt (ctx, w) = (Inr (), (ctx', w2)))"
  by (auto simp: idempotency_def split: option.splits)

end
