(* ===== verification/Saga.thy ===== *)
theory Saga
  imports Results "HOL-Library.Multiset"
begin

text \<open>
  \<open>benzene.resilience.saga\<close>: a sequence of steps with compensations. The state of an execution is the
  saga's working dictionary together with the world the actions and compensations touch.
\<close>

type_synonym 'w saga_action = "(pydict \<times> 'w, result option) action"
type_synonym 'w saga_compensation = "(pydict \<times> 'w, unit) action"

record 'w saga_step =
  ss_name :: string
  ss_action :: "'w saga_action"
  ss_compensation :: "'w saga_compensation option"

record saga_result =
  sr_result :: result
  sr_state :: pydict
  sr_completed :: "string list"
  sr_compensated :: "string list"
  sr_compensation_failures :: "string list"
  sr_failed_step :: "string option"

definition saga_is_successful :: "saga_result \<Rightarrow> bool" where
  "saga_is_successful r = result_is_successful (sr_result r)"

text \<open>\<open>Saga._steps\<close> and its builder.\<close>

type_synonym 'w saga = "'w saga_step list"

definition saga_step_add :: "string \<Rightarrow> 'w saga_action \<Rightarrow> 'w saga_compensation option \<Rightarrow> 'w saga \<Rightarrow> 'w saga" where
  "saga_step_add name act undo steps =
     steps @ [\<lparr>ss_name = name, ss_action = act, ss_compensation = undo\<rparr>]"

definition saga_add :: "'w saga_step \<Rightarrow> 'w saga \<Rightarrow> 'w saga" where
  "saga_add st steps = steps @ [st]"

text \<open>The loop over \<open>reversed(completed)\<close>: the names rolled back and the names whose rollback raised.\<close>

fun compensate :: "'w saga_step list \<Rightarrow> (pydict \<times> 'w, string list \<times> string list) action" where
  "compensate [] s = (Inr ([], []), s)"
| "compensate (st # sts) s = (case ss_compensation st of
     None \<Rightarrow> compensate sts s
   | Some undo \<Rightarrow>
       (case undo s of
          (Inr _, s') \<Rightarrow>
            (case compensate sts s' of (Inl e, s'') \<Rightarrow> (Inl e, s'')
             | (Inr (undone, bad), s'') \<Rightarrow> (Inr (ss_name st # undone, bad), s''))
        | (Inl e, s') \<Rightarrow>
            if catchable e then
              (case compensate sts s' of (Inl e, s'') \<Rightarrow> (Inl e, s'')
               | (Inr (undone, bad), s'') \<Rightarrow> (Inr (undone, ss_name st # bad), s''))
            else (Inl e, s')))"

definition rollback ::
  "string \<Rightarrow> result \<Rightarrow> 'w saga_step list \<Rightarrow> (pydict \<times> 'w, saga_result) action" where
  "rollback failed_step failure_result completed = (\<lambda>s.
     case compensate (rev completed) s of
       (Inl e, s') \<Rightarrow> (Inl e, s')
     | (Inr (undone, bad), s') \<Rightarrow>
         (Inr \<lparr>sr_result = failure_result, sr_state = fst s', sr_completed = map ss_name completed,
               sr_compensated = undone, sr_compensation_failures = bad, sr_failed_step = Some failed_step\<rparr>, s'))"

fun saga_loop :: "'w saga_step list \<Rightarrow> 'w saga_step list \<Rightarrow> (pydict \<times> 'w, saga_result) action" where
  "saga_loop completed [] s =
     (Inr \<lparr>sr_result = ok (VDict (fst s)), sr_state = fst s, sr_completed = map ss_name completed,
           sr_compensated = [], sr_compensation_failures = [], sr_failed_step = None\<rparr>, s)"
| "saga_loop completed (st # sts) s = (case ss_action st s of
     (Inl e, s') \<Rightarrow>
       if catchable e then
         rollback (ss_name st) (failure ''unexpected-error'' [ErrText (ss_name st @ '': '' @ exn_text e)])
           completed s'
       else (Inl e, s')
   | (Inr r, s') \<Rightarrow>
       (case r of
          Some r' \<Rightarrow> if \<not> result_is_successful r' then rollback (ss_name st) r' completed s'
                    else saga_loop (completed @ [st]) sts s'
        | None \<Rightarrow> saga_loop (completed @ [st]) sts s'))"

definition saga_execute :: "'w saga \<Rightarrow> pydict option \<Rightarrow> ('w, saga_result) action" where
  "saga_execute steps initial = (\<lambda>w.
     case saga_loop [] steps ((case initial of None \<Rightarrow> [] | Some d \<Rightarrow> d), w) of (x, s) \<Rightarrow> (x, snd s))"

section \<open>Facts\<close>

definition succeeds :: "'w saga_step \<Rightarrow> pydict \<times> 'w \<Rightarrow> bool" where
  "succeeds st s = (case fst (ss_action st s) of
     Inr None \<Rightarrow> True | Inr (Some r) \<Rightarrow> result_is_successful r | Inl e \<Rightarrow> False)"

fun forward :: "'w saga_step list \<Rightarrow> pydict \<times> 'w \<Rightarrow> pydict \<times> 'w" where
  "forward [] s = s"
| "forward (st # sts) s = forward sts (snd (ss_action st s))"

fun all_succeed :: "'w saga_step list \<Rightarrow> pydict \<times> 'w \<Rightarrow> bool" where
  "all_succeed [] s = True"
| "all_succeed (st # sts) s = (succeeds st s \<and> all_succeed sts (snd (ss_action st s)))"

definition never_cancelled :: "'w saga_step list \<Rightarrow> bool" where
  "never_cancelled sts \<longleftrightarrow> (\<forall>st \<in> set sts. (\<forall>s s'. ss_action st s \<noteq> (Inl PyCancelled, s')) \<and>
     (\<forall>c s s'. ss_compensation st = Some c \<longrightarrow> c s \<noteq> (Inl PyCancelled, s')))"

lemma never_cancelled_subset: "never_cancelled sts \<Longrightarrow> set ts \<subseteq> set sts \<Longrightarrow> never_cancelled ts"
  unfolding never_cancelled_def by blast

lemma never_cancelled_action:
  assumes "never_cancelled sts" "st \<in> set sts" "ss_action st s = (Inl e, s')"
  shows "catchable e"
  using assms by (cases e; cases s; cases s') (auto simp: never_cancelled_def)

lemma never_cancelled_compensation:
  assumes "never_cancelled sts" "st \<in> set sts" "ss_compensation st = Some c" "c s = (Inl e, s')"
  shows "catchable e"
  using assms by (cases e; cases s; cases s') (auto simp: never_cancelled_def)

lemma saga_loop_forward:
  "all_succeed pre s \<Longrightarrow> saga_loop prior (pre @ rest) s = saga_loop (prior @ pre) rest (forward pre s)"
proof (induction pre arbitrary: prior s)
  case (Cons st pre)
  obtain x s' where x: "ss_action st s = (x, s')" by (cases "ss_action st s")
  with Cons.prems have "\<exists>r. x = Inr r \<and> (\<forall>r'. r = Some r' \<longrightarrow> result_is_successful r')"
    by (auto simp: succeeds_def split: sum.splits option.splits)
  with Cons.IH [of s'] Cons.prems x show ?case by (auto split: option.splits)
qed simp

text \<open>Compensation attempts every completed step that has one, in the order given.\<close>

fun undo_world :: "'w saga_step list \<Rightarrow> pydict \<times> 'w \<Rightarrow> pydict \<times> 'w" where
  "undo_world [] s = s"
| "undo_world (st # sts) s = undo_world sts (case ss_compensation st of None \<Rightarrow> s | Some c \<Rightarrow> snd (c s))"

fun undo_split :: "'w saga_step list \<Rightarrow> pydict \<times> 'w \<Rightarrow> string list \<times> string list" where
  "undo_split [] s = ([], [])"
| "undo_split (st # sts) s = (case ss_compensation st of
     None \<Rightarrow> undo_split sts s
   | Some c \<Rightarrow> (let (undone, bad) = undo_split sts (snd (c s))
       in if isl (fst (c s)) then (undone, ss_name st # bad) else (ss_name st # undone, bad)))"

lemma compensate_total:
  "never_cancelled sts \<Longrightarrow> compensate sts s = (Inr (undo_split sts s), undo_world sts s)"
proof (induction sts arbitrary: s)
  case (Cons st sts)
  have IH: "compensate sts t = (Inr (undo_split sts t), undo_world sts t)" for t
    using Cons by (auto simp: never_cancelled_def)
  show ?case
  proof (cases "ss_compensation st")
    case (Some c)
    obtain x s' where x: "c s = (x, s')" by (cases "c s")
    have "catchable e" if "x = Inl e" for e
      using never_cancelled_compensation [OF Cons.prems _ Some, of s e s'] that x by simp
    then show ?thesis using Some x by (cases x) (auto simp: IH case_prod_beta split: prod.splits)
  qed (simp add: IH)
qed simp

lemma undo_split_names:
  "mset (fst (undo_split sts s)) + mset (snd (undo_split sts s)) =
     mset (map ss_name (filter (\<lambda>st. ss_compensation st \<noteq> None) sts))"
  by (induction sts arbitrary: s) (auto simp: case_prod_beta Let_def split: option.splits)

lemma failing_step:
  assumes "\<not> succeeds st s" "never_cancelled (prior @ [st])"
  shows "\<exists>r. saga_loop prior (st # rest) s = rollback (ss_name st) r prior (snd (ss_action st s)) \<and>
    \<not> result_is_successful r"
proof -
  obtain x s' where x: "ss_action st s = (x, s')" by (cases "ss_action st s")
  show ?thesis
  proof (cases x)
    case (Inl e)
    then have "catchable e" using never_cancelled_action [OF assms(2), of st s e s'] x by simp
    with Inl x show ?thesis by auto
  next
    case (Inr r)
    with assms(1) x show ?thesis by (auto simp: succeeds_def split: option.splits)
  qed
qed

text \<open>
  C7. A saga either completes or rolls back. When every step succeeds the result is \<open>ok\<close> with the
  final working state and every step listed. Otherwise let \<open>st\<close> be the first step that fails (a
  failed result or any exception short of cancellation): no later step runs, the result is a
  failure naming \<open>st\<close>, and exactly the steps before it are compensated, in reverse order and every
  one of them, each listed once as compensated or as a failed compensation.
\<close>

theorem saga_completes_or_rolls_back:
  assumes nc: "never_cancelled steps"
  shows "(all_succeed steps (d, w) \<longrightarrow> (\<exists>w'. saga_execute steps (Some d) w =
      (Inr \<lparr>sr_result = ok (VDict (fst (forward steps (d, w)))), sr_state = fst (forward steps (d, w)),
            sr_completed = map ss_name steps, sr_compensated = [], sr_compensation_failures = [],
            sr_failed_step = None\<rparr>, w'))) \<and>
    (steps = pre @ st # rest \<and> all_succeed pre (d, w) \<and> \<not> succeeds st (forward pre (d, w)) \<longrightarrow>
      (\<exists>r. saga_execute steps (Some d) w = (Inr r,
             snd (undo_world (rev pre) (snd (ss_action st (forward pre (d, w)))))) \<and>
           \<not> saga_is_successful r \<and> sr_failed_step r = Some (ss_name st) \<and>
           sr_completed r = map ss_name pre \<and>
           (sr_compensated r, sr_compensation_failures r) =
             undo_split (rev pre) (snd (ss_action st (forward pre (d, w)))) \<and>
           mset (sr_compensated r) + mset (sr_compensation_failures r) =
             mset (map ss_name (filter (\<lambda>st. ss_compensation st \<noteq> None) pre))))"
proof (intro conjI impI)
  assume "all_succeed steps (d, w)"
  from saga_loop_forward [OF this, of "[]" "[]"]
  show "\<exists>w'. saga_execute steps (Some d) w =
      (Inr \<lparr>sr_result = ok (VDict (fst (forward steps (d, w)))), sr_state = fst (forward steps (d, w)),
            sr_completed = map ss_name steps, sr_compensated = [], sr_compensation_failures = [],
            sr_failed_step = None\<rparr>, w')"
    by (simp add: saga_execute_def)
next
  assume a: "steps = pre @ st # rest \<and> all_succeed pre (d, w) \<and> \<not> succeeds st (forward pre (d, w))"
  let ?s = "snd (ss_action st (forward pre (d, w)))"
  have nc': "never_cancelled (pre @ [st])" "never_cancelled (rev pre)"
    using a by (auto intro!: never_cancelled_subset [OF nc])
  obtain r where r: "saga_loop pre (st # rest) (forward pre (d, w)) = rollback (ss_name st) r pre ?s"
    "\<not> result_is_successful r"
    using failing_step [of st "forward pre (d, w)" pre rest] a nc'(1) by blast
  have "saga_loop [] steps (d, w) = rollback (ss_name st) r pre ?s"
    using saga_loop_forward [of pre "(d, w)" "[]" "st # rest"] a r(1) by simp
  then show "\<exists>r. saga_execute steps (Some d) w = (Inr r, snd (undo_world (rev pre) ?s)) \<and>
      \<not> saga_is_successful r \<and> sr_failed_step r = Some (ss_name st) \<and> sr_completed r = map ss_name pre \<and>
      (sr_compensated r, sr_compensation_failures r) = undo_split (rev pre) ?s \<and>
      mset (sr_compensated r) + mset (sr_compensation_failures r) =
        mset (map ss_name (filter (\<lambda>st. ss_compensation st \<noteq> None) pre))"
    using compensate_total [OF nc'(2), of ?s] r(2) undo_split_names [of "rev pre" ?s]
    by (auto simp: saga_execute_def rollback_def saga_is_successful_def case_prod_beta rev_map [symmetric]
        rev_filter [symmetric] split: prod.splits)
qed

definition reserve_stock :: "string list saga_step" where
  "reserve_stock = \<lparr>ss_name = ''reserve'', ss_action = (\<lambda>(d, w). (Inr None, (d, w @ [''reserve'']))),
     ss_compensation = Some (\<lambda>(d, w). (Inr (), (d, w @ [''release''])))\<rparr>"

definition take_payment :: "string list saga_step" where
  "take_payment = \<lparr>ss_name = ''pay'', ss_action = (\<lambda>s. (Inr (Some (conflict [])), s)),
     ss_compensation = None\<rparr>"

theorem saga_completes_or_rolls_back_witness:
  "\<exists>r. saga_execute [reserve_stock, take_payment] (Some []) [] = (Inr r, [''reserve'', ''release'']) \<and>
     sr_failed_step r = Some ''pay''"
proof -
  have "never_cancelled [reserve_stock, take_payment]"
    by (auto simp: never_cancelled_def reserve_stock_def take_payment_def)
  moreover have "\<not> is_successful ''conflict''" by (simp add: is_successful_def SUCCESS_STATUSES_def)
  ultimately show ?thesis
    using saga_completes_or_rolls_back [of "[reserve_stock, take_payment]" "[]" "[]" "[reserve_stock]" take_payment "[]"]
    by (auto simp: succeeds_def reserve_stock_def take_payment_def conflict_def)
qed

end
