(* ===== verification/Cache.thy ===== *)
theory Cache
  imports PayloadMapping
begin

text \<open>
  \<open>benzene.cache\<close>: the cache port, cache-aside over it, the in-memory backend and the Redis backend.
  The Redis client is third-party: its operations are parameters.
\<close>

section \<open>The port and cache-aside\<close>

text \<open>A cache's \<open>get\<close> answers Python's \<open>None\<close> on a miss; that is \<open>VNone\<close> here, as a value is.\<close>

type_synonym 'w cache_get = "string \<Rightarrow> ('w, pyval) action"
type_synonym 'w cache_set = "string \<Rightarrow> pyval \<Rightarrow> rat option \<Rightarrow> ('w, unit) action"

definition get_or_load ::
  "'w cache_get \<Rightarrow> 'w cache_set \<Rightarrow> string \<Rightarrow> ('w, pyval) action \<Rightarrow> rat option \<Rightarrow> ('w, pyval) action" where
  "get_or_load cget cset key loader ttl =
     act_bind (cget key) (\<lambda>cached.
       if cached \<noteq> VNone then act_return cached
       else act_bind loader (\<lambda>loaded. act_bind (cset key loaded ttl) (\<lambda>_. act_return loaded)))"

definition cache_aside_get_or_load ::
  "'w cache_get \<Rightarrow> 'w cache_set \<Rightarrow> rat option \<Rightarrow> string \<Rightarrow> ('w, pyval) action \<Rightarrow> rat option \<Rightarrow> ('w, pyval) action" where
  "cache_aside_get_or_load cget cset default_ttl key loader ttl =
     get_or_load cget cset key loader (if ttl = None then default_ttl else ttl)"

text \<open>
  What a backend promises: a value it can store with a lifetime that is not over at once is found
  by the next \<open>get\<close>, in the form the backend gives back.
\<close>

locale cache_port =
  fixes cget :: "'w cache_get" and cset :: "'w cache_set"
    and holds :: "string \<Rightarrow> pyval \<Rightarrow> 'w \<Rightarrow> bool"
    and storable :: "pyval \<Rightarrow> rat option \<Rightarrow> bool" and form :: "pyval \<Rightarrow> pyval"
  assumes get_holds: "holds key v w \<Longrightarrow> cget key w = (Inr v, w)"
    and set_holds: "storable v ttl \<Longrightarrow> cset key v ttl w = (Inr (), w') \<Longrightarrow> holds key (form v) w'"
begin

lemma hit_skips_loader:
  "holds key v w \<Longrightarrow> v \<noteq> VNone \<Longrightarrow> get_or_load cget cset key loader ttl w = (Inr v, w)"
  by (simp add: get_or_load_def act_bind_def get_holds act_return_def)

lemma loads_once:
  assumes "get_or_load cget cset key loader ttl w = (Inr v, w')"
    and "cget key w = (Inr VNone, w1)" "loader w1 = (Inr v, w2)"
    and "storable v ttl" "form v \<noteq> VNone"
  shows "get_or_load cget cset key loader' ttl' w' = (Inr (form v), w')"
proof -
  obtain x w3 where s: "cset key v ttl w2 = (x, w3)" by (cases "cset key v ttl w2")
  with assms(1-3) have "x = Inr ()" "w3 = w'"
    by (cases x; auto simp: get_or_load_def act_bind_def act_return_def)+
  with s assms(4) have "holds key (form v) w'" using set_holds by blast
  with assms(5) show ?thesis using hit_skips_loader by blast
qed

end

section \<open>The in-memory cache\<close>

type_synonym mem_cache = "(string, pyval \<times> rat option) dict"

definition cache_get :: "('w \<Rightarrow> mem_cache) \<Rightarrow> (mem_cache \<Rightarrow> 'w \<Rightarrow> 'w) \<Rightarrow> ('w \<Rightarrow> rat) \<Rightarrow> 'w cache_get" where
  "cache_get get put clock key = (\<lambda>w. case dict_get (get w) key of
     None \<Rightarrow> (Inr VNone, w)
   | Some (v, expires_at) \<Rightarrow>
       (case expires_at of
          Some t \<Rightarrow> if clock w \<ge> t then (Inr VNone, put (dict_del key (get w)) w) else (Inr v, w)
        | None \<Rightarrow> (Inr v, w)))"

definition cache_set :: "('w \<Rightarrow> mem_cache) \<Rightarrow> (mem_cache \<Rightarrow> 'w \<Rightarrow> 'w) \<Rightarrow> ('w \<Rightarrow> rat) \<Rightarrow> 'w cache_set" where
  "cache_set get put clock key v ttl = (\<lambda>w.
     (Inr (), put (dict_set key (v, map_option (\<lambda>d. clock w + d) ttl) (get w)) w))"

definition cache_delete :: "('w \<Rightarrow> mem_cache) \<Rightarrow> (mem_cache \<Rightarrow> 'w \<Rightarrow> 'w) \<Rightarrow> string \<Rightarrow> ('w, unit) action" where
  "cache_delete get put key = (\<lambda>w. (Inr (), put (dict_del key (get w)) w))"

definition cache_holds :: "('w \<Rightarrow> mem_cache) \<Rightarrow> ('w \<Rightarrow> rat) \<Rightarrow> string \<Rightarrow> pyval \<Rightarrow> 'w \<Rightarrow> bool" where
  "cache_holds get clock key v w \<longleftrightarrow>
     (\<exists>x. dict_get (get w) key = Some (v, x) \<and> (\<forall>t. x = Some t \<longrightarrow> clock w < t))"

definition lasting :: "pyval \<Rightarrow> rat option \<Rightarrow> bool" where
  "lasting v ttl \<longleftrightarrow> (\<forall>d. ttl = Some d \<longrightarrow> 0 < d)"

locale caching =
  fixes get :: "'w \<Rightarrow> mem_cache" and put :: "mem_cache \<Rightarrow> 'w \<Rightarrow> 'w" and clock :: "'w \<Rightarrow> rat"
  assumes get_put: "get (put m w) = m" and clock_put: "clock (put m w) = clock w"

sublocale caching \<subseteq> cache_port "cache_get get put clock" "cache_set get put clock" "cache_holds get clock"
  lasting "\<lambda>v. v"
  by unfold_locales (auto simp: cache_get_def cache_set_def cache_holds_def lasting_def get_put clock_put
      split: option.splits)

record 'a cache_world =
  cw_cache :: mem_cache
  cw_now :: rat
  cw_app :: 'a

definition set_cache :: "mem_cache \<Rightarrow> 'a cache_world \<Rightarrow> 'a cache_world" where
  "set_cache m w = w\<lparr>cw_cache := m\<rparr>"

interpretation world_cache: caching cw_cache set_cache cw_now
  by unfold_locales (simp_all add: set_cache_def)

section \<open>The Redis cache\<close>

text \<open>
  \<open>client.get\<close> and \<open>client.set\<close>, the latter with its expiry option: none, milliseconds or seconds.
\<close>

datatype redis_expiry = NoExpiry | ExpireMs int | ExpireSec int

type_synonym 'w redis_get = "string \<Rightarrow> ('w, string option) action"
type_synonym 'w redis_set = "string \<Rightarrow> string \<Rightarrow> redis_expiry \<Rightarrow> ('w, unit) action"

definition json_error :: pyexn where
  "json_error = PyException ''JSONDecodeError'' ''Expecting value''"

definition redis_cache_get :: "'w redis_get \<Rightarrow> 'w cache_get" where
  "redis_cache_get rget key = act_bind (rget key) (\<lambda>raw. case raw of
     None \<Rightarrow> act_return VNone
   | Some t \<Rightarrow> (case loads t of Some v \<Rightarrow> act_return v | None \<Rightarrow> act_raise json_error))"

definition redis_expiry_of :: "rat option \<Rightarrow> redis_expiry" where
  \<comment> \<open>\<open>int\<close> truncates towards zero\<close>
  "redis_expiry_of ttl = (case ttl of
     None \<Rightarrow> NoExpiry
   | Some d \<Rightarrow> if d < 1 then ExpireMs (if 0 \<le> d then floor (d * 1000) else ceiling (d * 1000)) else ExpireSec (floor d))"

definition redis_cache_set :: "'w redis_set \<Rightarrow> 'w cache_set" where
  "redis_cache_set rset key v ttl = (\<lambda>w. case encode_body v of
     Inl e \<Rightarrow> (Inl e, w)
   | Inr payload \<Rightarrow> rset key payload (redis_expiry_of ttl) w)"

definition redis_cache_delete :: "(string \<Rightarrow> ('w, unit) action) \<Rightarrow> string \<Rightarrow> ('w, unit) action" where
  "redis_cache_delete rdelete key = rdelete key"

section \<open>Facts\<close>

text \<open>
  Cache-aside over the in-memory cache: after a miss has loaded and stored a value with no
  lifetime or a positive one, and as long as the entry is neither replaced nor expired, the next
  caller gets that value and the loader does not run; a hit changes nothing.
\<close>

lemma cache_aside_loads_once:
  assumes first: "get_or_load (cache_get cw_cache set_cache cw_now) (cache_set cw_cache set_cache cw_now)
      key loader ttl w = (Inr v, w')"
    and miss: "cache_get cw_cache set_cache cw_now key w = (Inr VNone, w1)" "loader w1 = (Inr v, w2)"
    and v: "lasting v ttl" "v \<noteq> VNone"
    and later: "cw_cache u = cw_cache w'" "\<And>d. ttl = Some d \<Longrightarrow> cw_now u < cw_now w2 + d"
  shows "get_or_load (cache_get cw_cache set_cache cw_now) (cache_set cw_cache set_cache cw_now)
    key loader' ttl' u = (Inr v, u)"
proof (rule world_cache.hit_skips_loader)
  have "cw_cache w' = dict_set key (v, map_option (\<lambda>d. cw_now w2 + d) ttl) (cw_cache w2)"
    using first miss by (auto simp: get_or_load_def act_bind_def act_return_def cache_set_def set_cache_def)
  then show "cache_holds cw_cache cw_now key v u"
    using later by (cases ttl) (auto simp: cache_holds_def)
qed (rule v(2))

text \<open>
  The Redis cache gives back the wire form of what was stored, for every value with a JSON form
  that is not a string, given a client whose \<open>get\<close> returns what \<open>set\<close> stored. Strings are written
  unencoded, so they do not come back: storing \<open>hello\<close> makes the next \<open>get\<close> raise, and storing
  \<open>123\<close> gives back the number.
\<close>

lemma redis_round_trip:
  assumes client: "\<And>k t x w w'. rset k t x w = (Inr (), w') \<Longrightarrow> rget k w' = (Inr (Some t), w')"
  shows "((\<forall>s. v \<noteq> VStr s) \<and> json_ok (to_jsonable v) \<and> redis_cache_set rset key v ttl w = (Inr (), w') \<longrightarrow>
            redis_cache_get rget key w' = (Inr (to_jsonable v), w')) \<and>
         (redis_cache_set rset key (VStr ''hello'') ttl w = (Inr (), w') \<longrightarrow>
            redis_cache_get rget key w' = (Inl json_error, w')) \<and>
         (redis_cache_set rset key (VStr ''123'') ttl w = (Inr (), w') \<longrightarrow>
            redis_cache_get rget key w' = (Inr (VInt 123), w'))"
proof (intro conjI impI)
  assume a: "(\<forall>s. v \<noteq> VStr s) \<and> json_ok (to_jsonable v) \<and> redis_cache_set rset key v ttl w = (Inr (), w')"
  then have "encode_body v = Inr (json_text (to_jsonable v))"
    by (cases v) (simp_all add: encode_body_def)
  with a have "rget key w' = (Inr (Some (json_text (to_jsonable v))), w')"
    by (intro client [of key _ "redis_expiry_of ttl" w]) (simp add: redis_cache_set_def)
  with a show "redis_cache_get rget key w' = (Inr (to_jsonable v), w')"
    by (simp add: redis_cache_get_def act_bind_def act_return_def loads_json_text)
next
  assume "redis_cache_set rset key (VStr ''hello'') ttl w = (Inr (), w')"
  then have "rget key w' = (Inr (Some ''hello''), w')"
    by (intro client [of key _ "redis_expiry_of ttl" w]) (simp add: redis_cache_set_def encode_body_def)
  moreover have "loads ''hello'' = None" by code_simp
  ultimately show "redis_cache_get rget key w' = (Inl json_error, w')"
    by (simp add: redis_cache_get_def act_bind_def act_raise_def)
next
  assume "redis_cache_set rset key (VStr ''123'') ttl w = (Inr (), w')"
  then have "rget key w' = (Inr (Some ''123''), w')"
    by (intro client [of key _ "redis_expiry_of ttl" w]) (simp add: redis_cache_set_def encode_body_def)
  moreover have "loads ''123'' = Some (VInt 123)" by code_simp
  ultimately show "redis_cache_get rget key w' = (Inr (VInt 123), w')"
    by (simp add: redis_cache_get_def act_bind_def act_return_def)
qed

end
