(* ===== verification/Pointer.thy ===== *)
theory Pointer
  imports PyStr
begin

text \<open>
  \<open>benzene.core.pointer\<close>: JSON Pointers for the \<open>field\<close> of a structured error, and their dotted form
  in gRPC. A path's segments are texts; an array index is its decimal text, as \<open>str\<close> makes it.
\<close>

section \<open>str.replace\<close>

definition replace_char :: "char \<Rightarrow> string \<Rightarrow> string \<Rightarrow> string" where
  "replace_char c r s = concat (map (\<lambda>x. if x = c then r else [x]) s)"

fun replace_pair :: "char \<Rightarrow> char \<Rightarrow> string \<Rightarrow> string \<Rightarrow> string" where
  "replace_pair a b r (x # y # s) =
     (if x = a \<and> y = b then r @ replace_pair a b r s else x # replace_pair a b r (y # s))"
| "replace_pair a b r s = s"

section \<open>Pointers\<close>

definition escape_segment :: "string \<Rightarrow> string" where
  "escape_segment s = replace_char (CHR ''/'') ''~1'' (replace_char (CHR ''~'') ''~0'' s)"

definition unescape_segment :: "string \<Rightarrow> string" where
  "unescape_segment s = replace_pair (CHR ''~'') (CHR ''0'') ''~'' (replace_pair (CHR ''~'') (CHR ''1'') ''/'' s)"

definition json_pointer :: "string list \<Rightarrow> string" where
  "json_pointer segments = concat (map (\<lambda>s. CHR ''/'' # escape_segment s) segments)"

definition pointer_segments :: "string \<Rightarrow> string list outcome" where
  "pointer_segments pointer = (case pointer of
     [] \<Rightarrow> Inr []
   | c # rest \<Rightarrow>
       if c \<noteq> CHR ''/'' then
         Inl (PyException ''ValueError'' (repr_str pointer @ '' is not a JSON Pointer: a non-empty ''
           @ ''pointer starts with '' @ repr_str ''/''))
       else Inr (map unescape_segment (py_split (CHR ''/'') rest)))"

section \<open>The dotted form\<close>

definition decimal :: "string \<Rightarrow> bool" where
  \<comment> \<open>\<open>segment.isdigit() and segment.isascii()\<close>\<close>
  "decimal s = (s \<noteq> [] \<and> list_all is_digit s)"

definition dotted_add :: "string \<Rightarrow> string \<Rightarrow> string" where
  "dotted_add dotted segment =
     (if decimal segment then dotted @ ''['' @ segment @ '']''
      else if dotted \<noteq> [] then dotted @ ''.'' @ segment else dotted @ segment)"

definition pointer_to_dotted :: "string \<Rightarrow> string outcome" where
  "pointer_to_dotted field =
     (if \<not> starts_with ''/'' field then Inr field
      else (case pointer_segments field of
        Inl e \<Rightarrow> Inl e
      | Inr segments \<Rightarrow> Inr (foldl dotted_add [] segments)))"

definition name_char :: "char \<Rightarrow> bool" where
  "name_char c = (c \<noteq> CHR ''.'' \<and> c \<noteq> CHR ''['' \<and> c \<noteq> CHR '']'')"

lemma dropWhile_shorter: "dropWhile p s = d # rest \<Longrightarrow> length rest < length s"
  using length_dropWhile_le [of p s] by simp

text \<open>\<open>findall\<close> of \<open>\[(\d+)\]|([^.\[\]]+)\<close>, each match reduced to \<open>name or index\<close>.\<close>

function dotted_tokens :: "string \<Rightarrow> string list" where
  "dotted_tokens [] = []"
| "dotted_tokens (c # s) =
     (if c = CHR ''['' then
        (case dropWhile is_digit s of
           d # rest \<Rightarrow> if takeWhile is_digit s \<noteq> [] \<and> d = CHR '']''
             then takeWhile is_digit s # dotted_tokens rest else dotted_tokens s
         | [] \<Rightarrow> dotted_tokens s)
      else if \<not> name_char c then dotted_tokens s
      else (c # takeWhile name_char s) # dotted_tokens (dropWhile name_char s))"
  by pat_completeness auto

termination
  by (relation "measure length") (auto simp: le_imp_less_Suc length_dropWhile_le dest: dropWhile_shorter)

definition dotted_to_pointer :: "string \<Rightarrow> string" where
  "dotted_to_pointer path = (if path = [] \<or> starts_with ''/'' path then path
     else json_pointer (dotted_tokens path))"

section \<open>Facts\<close>

definition esc :: "char \<Rightarrow> string" where
  "esc c = (if c = CHR ''~'' then ''~0'' else if c = CHR ''/'' then ''~1'' else [c])"

lemma escape_concat: "escape_segment s = concat (map esc s)"
  by (induction s) (auto simp: escape_segment_def replace_char_def esc_def)

lemma escape_no_slash: "CHR ''/'' \<notin> set (escape_segment s)"
  by (induction s) (auto simp: escape_concat esc_def)

lemma replace_pair_skip: "x \<noteq> a \<Longrightarrow> replace_pair a b r (x # s) = x # replace_pair a b r s"
  by (cases s) auto

lemma unescape_first:
  "replace_pair (CHR ''~'') (CHR ''1'') ''/'' (concat (map esc s)) =
     concat (map (\<lambda>c. if c = CHR ''~'' then ''~0'' else [c]) s)"
  by (induction s) (auto simp: esc_def replace_pair_skip)

lemma unescape_second:
  "replace_pair (CHR ''~'') (CHR ''0'') ''~'' (concat (map (\<lambda>c. if c = CHR ''~'' then ''~0'' else [c]) s)) = s"
  by (induction s) (auto simp: replace_pair_skip)

lemma unescape_escape [simp]: "unescape_segment (escape_segment s) = s"
  by (simp add: unescape_segment_def escape_concat unescape_first unescape_second)

lemma pointer_join:
  "segs \<noteq> [] \<Longrightarrow> json_pointer segs = CHR ''/'' # py_join ''/'' (map escape_segment segs)"
proof (induction segs)
  case (Cons s segs)
  then show ?case by (cases segs) (auto simp: json_pointer_def)
qed simp

lemma pointer_segments_pointer: "pointer_segments (json_pointer segs) = Inr segs"
proof (cases "segs = []")
  case False
  have "py_split (CHR ''/'') (py_join ''/'' (map escape_segment segs)) = map escape_segment segs"
    using False by (intro py_split_join) (auto simp: escape_no_slash)
  then show ?thesis using False by (simp add: pointer_segments_def pointer_join comp_def)
qed (simp add: pointer_segments_def json_pointer_def)

text \<open>Segments the dotted form can express.\<close>

definition dotted_segment :: "string \<Rightarrow> bool" where
  "dotted_segment s \<longleftrightarrow> s \<noteq> [] \<and> list_all name_char s"

fun dotted_rest :: "string list \<Rightarrow> string" where
  "dotted_rest [] = []"
| "dotted_rest (s # ss) = (if decimal s then ''['' @ s @ '']'' else ''.'' @ s) @ dotted_rest ss"

lemma foldl_dotted: "d \<noteq> [] \<Longrightarrow> foldl dotted_add d ss = d @ dotted_rest ss"
  by (induction ss arbitrary: d) (auto simp: dotted_add_def)

lemma dotted_rest_start: "dotted_rest ss = [] \<or> (\<exists>c t. dotted_rest ss = c # t \<and> \<not> name_char c)"
  by (cases ss) (auto simp: name_char_def)

lemma takeWhile_stop:
  assumes "list_all P s" "t = [] \<or> (\<exists>c u. t = c # u \<and> \<not> P c)"
  shows "takeWhile P (s @ t) = s" "dropWhile P (s @ t) = t"
  using assms by (induction s) auto

lemma tokens_name:
  assumes "dotted_segment s" "t = [] \<or> (\<exists>c u. t = c # u \<and> \<not> name_char c)"
  shows "dotted_tokens (s @ t) = s # dotted_tokens t"
proof -
  obtain c r where s: "s = c # r" using assms(1) by (cases s) (auto simp: dotted_segment_def)
  then have "name_char c" "list_all name_char r" using assms(1) by (auto simp: dotted_segment_def)
  then show ?thesis
    using takeWhile_stop [of name_char r t] assms(2) by (auto simp: s name_char_def)
qed

lemma tokens_index:
  assumes "decimal s"
  shows "dotted_tokens (CHR ''['' # s @ CHR '']'' # t) = s # dotted_tokens t"
proof -
  have "list_all is_digit s" "s \<noteq> []" using assms by (auto simp: decimal_def)
  moreover have "\<not> is_digit (CHR '']'')" by (simp add: is_digit_def)
  ultimately show ?thesis using takeWhile_stop [of is_digit s "CHR '']'' # t"] by auto
qed

lemma tokens_rest: "\<forall>s \<in> set ss. dotted_segment s \<Longrightarrow> dotted_tokens (dotted_rest ss) = ss"
proof (induction ss)
  case (Cons s ss)
  show ?case
  proof (cases "decimal s")
    case True
    with Cons show ?thesis by (simp add: tokens_index del: dotted_tokens.simps)
  next
    case False
    have "dotted_tokens (CHR ''.'' # s @ dotted_rest ss) = dotted_tokens (s @ dotted_rest ss)"
      by (simp add: name_char_def)
    with False Cons show ?thesis
      using tokens_name [OF _ dotted_rest_start] by (simp del: dotted_tokens.simps)
  qed
qed simp

lemma dotted_tokens_fold:
  assumes "\<forall>s \<in> set ss. dotted_segment s"
  shows "dotted_tokens (foldl dotted_add [] ss) = ss"
proof (cases ss)
  case (Cons s rest)
  have s: "dotted_segment s" "\<forall>s \<in> set rest. dotted_segment s" using assms Cons by auto
  then have ne: "dotted_add [] s \<noteq> []" by (auto simp: dotted_add_def dotted_segment_def)
  show ?thesis
  proof (cases "decimal s")
    case True
    then show ?thesis
      using s tokens_rest by (simp add: Cons foldl_dotted [OF ne])
        (simp add: dotted_add_def tokens_index del: dotted_tokens.simps)
  next
    case False
    then show ?thesis
      using s tokens_rest tokens_name [OF s(1) dotted_rest_start]
      by (simp add: Cons foldl_dotted [OF ne]) (simp add: dotted_add_def)
  qed
qed simp

text \<open>
  Error locations survive their encodings: the segments of a pointer are read back exactly as
  they were written, whatever characters they contain; and the dotted form converts back to the
  same pointer for non-empty paths of segments free of dots and brackets whose first one does not
  start with a slash.
\<close>

lemma pointer_round_trip:
  "pointer_segments (json_pointer segs) = Inr segs \<and>
   (segs \<noteq> [] \<and> (\<forall>s \<in> set segs. dotted_segment s) \<and> hd (hd segs) \<noteq> CHR ''/'' \<longrightarrow>
      (\<exists>path. pointer_to_dotted (json_pointer segs) = Inr path \<and> dotted_to_pointer path = json_pointer segs))"
proof (intro conjI impI)
  show "pointer_segments (json_pointer segs) = Inr segs" by (rule pointer_segments_pointer)
  assume a: "segs \<noteq> [] \<and> (\<forall>s \<in> set segs. dotted_segment s) \<and> hd (hd segs) \<noteq> CHR ''/''"
  let ?path = "foldl dotted_add [] segs"
  have to: "pointer_to_dotted (json_pointer segs) = Inr ?path"
    using a pointer_join [of segs] pointer_segments_pointer [of segs]
    by (simp add: pointer_to_dotted_def starts_with_def)
  obtain s ss where ss: "segs = s # ss" using a by (cases segs) auto
  obtain c t where s: "s = c # t" "c \<noteq> CHR ''/''" using a ss by (cases s) (auto simp: dotted_segment_def)
  have "dotted_add [] s \<noteq> []" by (simp add: dotted_add_def s)
  then have "?path = dotted_add [] s @ dotted_rest ss" by (simp add: ss foldl_dotted)
  then have "?path \<noteq> []" "\<not> starts_with ''/'' ?path"
    using s by (auto simp: dotted_add_def starts_with_def)
  with a to show "\<exists>path. pointer_to_dotted (json_pointer segs) = Inr path \<and>
      dotted_to_pointer path = json_pointer segs"
    by (auto simp: dotted_to_pointer_def dotted_tokens_fold)
qed

end
