(* ===== verification/Casting.thy ===== *)
theory Casting
  imports Dispatch
begin

text \<open>
  \<open>benzene.core.casting\<close>: one-step casts between payload types, chained by a breadth-first search,
  and the handler that serves an older version through them. A type is its class name; subclasses
  are not modelled, except that a \<open>bool\<close> is an \<open>int\<close>.
\<close>

section \<open>Casts\<close>

type_synonym cast = "pyval \<Rightarrow> pyval outcome"

text \<open>\<open>SchemaCasters._edges\<close>: from_type to to_type to cast.\<close>

type_synonym ('t, 'c) casters = "('t, ('t, 'c) dict) dict"

definition edges_of :: "('t, 'c) casters \<Rightarrow> 't \<Rightarrow> ('t, 'c) dict" where
  "edges_of es t = (case dict_get es t of None \<Rightarrow> [] | Some d \<Rightarrow> d)"

definition cast_between :: "'t \<Rightarrow> 't \<Rightarrow> 'c \<Rightarrow> ('t, 'c) casters \<Rightarrow> ('t, 'c) casters" where
  "cast_between from_type to_type c es = dict_set from_type (dict_set to_type c (edges_of es from_type)) es"

text \<open>The inner loop over the steps out of the current type: a finished chain, or the new search state.\<close>

fun scan_steps ::
  "'t \<Rightarrow> 'c list \<Rightarrow> ('t \<times> 'c) list \<Rightarrow> 't list \<Rightarrow> ('t \<times> 'c list) list \<Rightarrow>
   'c list + ('t list \<times> ('t \<times> 'c list) list)" where
  "scan_steps to taken [] seen queue = Inr (seen, queue)"
| "scan_steps to taken ((nxt, c) # steps) seen queue =
     (if nxt = to then Inl (taken @ [c])
      else if nxt \<notin> set seen
        then scan_steps to taken steps (nxt # seen) (queue @ [(nxt, taken @ [c])])
        else scan_steps to taken steps seen queue)"

definition targets :: "('t, 'c) casters \<Rightarrow> 't set" where
  "targets es = (\<Union>(t, d) \<in> set es. fst ` set d)"

lemma finite_targets [simp]: "finite (targets es)"
  by (auto simp: targets_def)

lemma edges_targets: "fst ` set (edges_of es t) \<subseteq> targets es"
proof
  fix x assume "x \<in> fst ` set (edges_of es t)"
  then obtain d where d: "dict_get es t = Some d" "x \<in> fst ` set d"
    by (cases "dict_get es t") (auto simp: edges_of_def)
  then show "x \<in> targets es"
    unfolding targets_def by (intro UN_I [of "(t, d)"]) (auto dest: map_of_SomeD)
qed

lemma scan_measure:
  "scan_steps to taken steps seen queue = Inr (seen', queue') \<Longrightarrow> fst ` set steps \<subseteq> T \<Longrightarrow> finite T \<Longrightarrow>
     2 * card (T - set seen') + length queue' \<le> 2 * card (T - set seen) + length queue"
proof (induction to taken steps seen queue rule: scan_steps.induct)
  case (2 to taken nxt c steps seen queue)
  show ?case
  proof (cases "nxt \<in> set seen")
    case False
    then have "nxt \<in> T - set seen" using 2(4) by auto
    then have "card (T - set (nxt # seen)) < card (T - set seen)"
      using 2(5) by (metis Diff_insert card_Diff1_less finite_Diff list.simps(15))
    with 2 False show ?thesis by (fastforce split: if_splits)
  qed (use 2 in \<open>auto split: if_splits\<close>)
qed auto

function path_loop :: "('t, 'c) casters \<Rightarrow> 't \<Rightarrow> ('t \<times> 'c list) list \<Rightarrow> 't list \<Rightarrow> 'c list option" where
  "path_loop es to [] seen = None"
| "path_loop es to ((current, taken) # queue) seen =
     (case scan_steps to taken (edges_of es current) seen queue of
        Inl chain \<Rightarrow> Some chain
      | Inr (seen', queue') \<Rightarrow> path_loop es to queue' seen')"
  by pat_completeness auto

termination
proof (relation "measure (\<lambda>(es, to, queue, seen). 2 * card (targets es - set seen) + length queue)")
  fix es :: "('t, 'c) casters" and to current :: 't and taken queue seen x seen' queue'
  assume "scan_steps to taken (edges_of es current) seen queue = Inr x" "(seen', queue') = x"
  then have "2 * card (targets es - set seen') + length queue' \<le> 2 * card (targets es - set seen) + length queue"
    by (intro scan_measure [of to taken "edges_of es current"] edges_targets finite_targets) simp
  then show "((es, to, queue', seen'), es, to, (current, taken) # queue, seen) \<in>
      measure (\<lambda>(es, to, queue, seen). 2 * card (targets es - set seen) + length queue)" by simp
qed simp

definition cast_path :: "('t, 'c) casters \<Rightarrow> 't \<Rightarrow> 't \<Rightarrow> 'c list option" where
  "cast_path es from_type to_type =
     (if from_type = to_type then Some [] else path_loop es to_type [(from_type, [])] [from_type])"

text \<open>The class of a value.\<close>

fun class_name :: "pyval \<Rightarrow> string" where
  "class_name VNone = ''NoneType''"
| "class_name (VBool _) = ''bool''"
| "class_name (VInt _) = ''int''"
| "class_name (VFloat _) = ''float''"
| "class_name (VStr _) = ''str''"
| "class_name (VList _) = ''list''"
| "class_name (VTuple _) = ''tuple''"
| "class_name (VSet _) = ''set''"
| "class_name (VDict _) = ''dict''"
| "class_name (VData c _) = c"
| "class_name (VDateTime _ _) = ''datetime''"
| "class_name (VDate _) = ''date''"
| "class_name (VTimedelta _ _ _) = ''timedelta''"
| "class_name (VUuid _) = ''UUID''"
| "class_name (VPath _) = ''PurePosixPath''"
| "class_name (VBytes _) = ''bytes''"
| "class_name (VModel c _) = c"
| "class_name (VOpaque c) = c"

fun apply_casts :: "cast list \<Rightarrow> pyval \<Rightarrow> pyval outcome" where
  "apply_casts [] v = Inr v"
| "apply_casts (c # cs) v = (case c v of Inl e \<Rightarrow> Inl e | Inr v' \<Rightarrow> apply_casts cs v')"

definition cast_value :: "(string, cast) casters \<Rightarrow> pyval \<Rightarrow> string \<Rightarrow> pyval outcome" where
  "cast_value es v to =
     (if class_name v = to \<or> (class_name v = ''bool'' \<and> to = ''int'') then Inr v
      else (case cast_path es (class_name v) to of
        None \<Rightarrow> Inl (PyException ''NoCastPathError''
          (''No cast path from '' @ class_name v @ '' to '' @ to @ ''. Register the missing step with ''
           @ ''casters.cast_between(...) - steps compose, so you usually only need a cast from the ''
           @ ''immediately preceding version.''))
      | Some chain \<Rightarrow> apply_casts chain v))"

definition casting_handler ::
  "'w handler \<Rightarrow> (string, cast) casters \<Rightarrow> string \<Rightarrow> string option \<Rightarrow> 'w handler" where
  "casting_handler target es to response_to = (\<lambda>request w. case cast_value es request to of
     Inl e \<Rightarrow> (Inl e, w)
   | Inr request' \<Rightarrow>
       (case target request' w of
          (Inl e, w') \<Rightarrow> (Inl e, w')
        | (Inr r, w') \<Rightarrow>
            (case response_to of
               None \<Rightarrow> (Inr r, w')
             | Some older \<Rightarrow>
                 (case r of
                    None \<Rightarrow> (Inl (PyException ''AttributeError'' ''NoneType object has no attribute is_successful''), w')
                  | Some r' \<Rightarrow>
                      if result_is_successful r' \<and> res_payload r' \<noteq> VNone then
                        (case cast_value es (res_payload r') older of
                           Inl e \<Rightarrow> (Inl e, w')
                         | Inr p \<Rightarrow> (Inr (Some (r'\<lparr>res_payload := p\<rparr>)), w'))
                      else (Inr (Some r'), w')))))"

section \<open>Chains\<close>

inductive chain :: "('t, 'c) casters \<Rightarrow> 't \<Rightarrow> 'c list \<Rightarrow> 't \<Rightarrow> bool" for es where
  here: "chain es a [] a"
| step: "(m, c) \<in> set (edges_of es a) \<Longrightarrow> chain es m cs b \<Longrightarrow> chain es a (c # cs) b"

inductive_cases chain_NilE: "chain es a [] b"
inductive_cases chain_ConsE: "chain es a (c # cs) b"

lemma chain_snoc: "chain es a cs m \<Longrightarrow> (b, c) \<in> set (edges_of es m) \<Longrightarrow> chain es a (cs @ [c]) b"
  by (induction rule: chain.induct) (auto intro: chain.intros)

definition shortest :: "('t, 'c) casters \<Rightarrow> 't \<Rightarrow> 'c list \<Rightarrow> 't \<Rightarrow> bool" where
  "shortest es a cs b \<longleftrightarrow> chain es a cs b \<and> (\<forall>ds. chain es a ds b \<longrightarrow> length cs \<le> length ds)"

text \<open>The state of the search: the types expanded so far, the queue and the types met.\<close>

definition search_ok ::
  "('t, 'c) casters \<Rightarrow> 't \<Rightarrow> 't \<Rightarrow> 't set \<Rightarrow> ('t \<times> 'c list) list \<Rightarrow> 't list \<Rightarrow> bool" where
  "search_ok es a b expanded queue seen \<longleftrightarrow>
     set seen = expanded \<union> fst ` set queue \<and> a \<in> set seen \<and> b \<notin> set seen \<and>
     (\<forall>u \<in> expanded. fst ` set (edges_of es u) \<subseteq> set seen) \<and>
     (\<forall>(n, t) \<in> set queue. shortest es a t n) \<and>
     (\<forall>i < length queue. \<forall>j < length queue. i \<le> j \<longrightarrow>
        length (snd (queue ! i)) \<le> length (snd (queue ! j)) \<and>
        length (snd (queue ! j)) \<le> length (snd (queue ! i)) + 1)"

text \<open>A chain to a type not met yet passes through the queue.\<close>

lemma frontier:
  assumes ok: "search_ok es a b expanded queue seen"
    and "chain es x ds n" "chain es a ps x" "x \<in> set seen" "n \<notin> set seen"
  shows "\<exists>(u, t) \<in> set queue. length t + 1 \<le> length ps + length ds"
  using assms(2-5)
proof (induction arbitrary: ps rule: chain.induct)
  case (step m c x cs n)
  show ?case
  proof (cases "x \<in> expanded")
    case True
    with ok have "fst ` set (edges_of es x) \<subseteq> set seen" unfolding search_ok_def by blast
    with step.hyps(1) have "m \<in> set seen" by force
    with step.IH [OF chain_snoc [OF step.prems(1) step.hyps(1)]] step.prems(3) show ?thesis by simp
  next
    case False
    with ok step.prems(2) obtain t where t: "(x, t) \<in> set queue" by (auto simp: search_ok_def)
    with ok step.prems(1) have "length t \<le> length ps" by (auto simp: search_ok_def shortest_def)
    with t show ?thesis by (intro bexI [of _ "(x, t)"]) simp_all
  qed
qed simp

lemma frontier_head:
  assumes ok: "search_ok es a b expanded ((cur, taken) # queue) seen"
    and "chain es a ds n" "n \<notin> set seen"
  shows "length taken + 1 \<le> length ds"
proof -
  have "a \<in> set seen" using ok unfolding search_ok_def by blast
  then obtain u t where ut: "(u, t) \<in> set ((cur, taken) # queue)" "length t + 1 \<le> length ds"
    using frontier [OF ok assms(2) chain.here _ assms(3)] by force
  then obtain j where "j < length ((cur, taken) # queue)" "((cur, taken) # queue) ! j = (u, t)"
    by (meson in_set_conv_nth)
  with ok have "length taken \<le> length t"
    unfolding search_ok_def by (metis le0 length_greater_0_conv list.discI nth_Cons_0 snd_conv)
  with ut(2) show ?thesis by simp
qed

lemma search_ok_push:
  assumes ok: "search_ok es a b expanded ((cur, taken) # queue) seen"
    and "(n, c) \<in> set (edges_of es cur)" "n \<notin> set seen" "n \<noteq> b"
  shows "search_ok es a b expanded ((cur, taken) # queue @ [(n, taken @ [c])]) (n # seen)"
proof -
  let ?q = "(cur, taken) # queue" and ?new = "(n, taken @ [c])"
  have tc: "chain es a taken cur" using ok by (auto simp: search_ok_def shortest_def)
  have "shortest es a (taken @ [c]) n"
    unfolding shortest_def using chain_snoc [OF tc assms(2)] frontier_head [OF ok _ assms(3)] by auto
  moreover have "length (snd ((?q @ [?new]) ! i)) \<le> length (snd ((?q @ [?new]) ! j)) \<and>
      length (snd ((?q @ [?new]) ! j)) \<le> length (snd ((?q @ [?new]) ! i)) + 1"
    if "i \<le> j" "j < length (?q @ [?new])" for i j
  proof -
    have old: "length (snd (?q ! i)) \<le> length (snd (?q ! j)) \<and> length (snd (?q ! j)) \<le> length (snd (?q ! i)) + 1"
      if "i \<le> j" "j < length ?q" for i j
      using ok that unfolding search_ok_def by simp
    have head: "length taken \<le> length (snd (?q ! i)) \<and> length (snd (?q ! i)) \<le> length taken + 1"
      if "i < length ?q" for i
      using old [of 0 i] that by simp
    show ?thesis
    proof (cases "j < length ?q")
      case True
      with old [OF that(1) True] that show ?thesis by (simp only: nth_append) simp
    next
      case False
      then have j: "j = length ?q" using that by simp
      show ?thesis
      proof (cases "i < length ?q")
        case True
        with head [OF True] j show ?thesis by (simp only: nth_append) simp
      qed (use j that in \<open>simp add: nth_append\<close>)
    qed
  qed
  moreover have "\<forall>u \<in> expanded. fst ` set (edges_of es u) \<subseteq> set (n # seen)"
    using ok unfolding search_ok_def by (meson set_subset_Cons subset_trans)
  ultimately show ?thesis
    using ok assms(4) unfolding search_ok_def by (intro conjI) (assumption | auto)+
qed

lemma scan_finds:
  assumes "scan_steps b taken steps seen queue = x" "search_ok es a b expanded ((cur, taken) # queue) seen"
    and "set steps \<subseteq> set (edges_of es cur)"
  shows "case x of
      Inl p \<Rightarrow> shortest es a p b
    | Inr (seen', queue') \<Rightarrow> search_ok es a b expanded ((cur, taken) # queue') seen' \<and>
        set seen \<subseteq> set seen' \<and> fst ` set steps \<subseteq> set seen'"
  using assms
proof (induction b taken steps seen queue rule: scan_steps.induct)
  case (2 b taken nxt c steps seen queue)
  have e: "(nxt, c) \<in> set (edges_of es cur)" using 2(5) by simp
  consider "nxt = b" | "nxt \<noteq> b" "nxt \<notin> set seen" | "nxt \<noteq> b" "nxt \<in> set seen" by blast
  then show ?case
  proof cases
    case 1
    have "chain es a taken cur" "b \<notin> set seen" using 2(4) by (auto simp: search_ok_def shortest_def)
    with e 1 have "shortest es a (taken @ [c]) b"
      using chain_snoc frontier_head [OF 2(4)] unfolding shortest_def by fastforce
    with 1 2(3) show ?thesis by auto
  next
    case 2
    note push = search_ok_push [OF "2.prems"(2) e 2(2,1)]
    show ?thesis
      using "2.IH"(1) [OF 2 _ push] "2.prems"(1,3) 2 by (fastforce split: sum.splits)
  next
    case 3
    then show ?thesis
      using "2.IH"(2) [OF 3(1) _ _ "2.prems"(2)] "2.prems"(1,3) by (fastforce split: sum.splits)
  qed
qed auto

lemma search_ok_pop:
  assumes "search_ok es a b expanded ((cur, taken) # queue) seen" "fst ` set (edges_of es cur) \<subseteq> set seen"
  shows "search_ok es a b (insert cur expanded) queue seen"
proof -
  have "length (snd (queue ! i)) \<le> length (snd (queue ! j)) \<and>
      length (snd (queue ! j)) \<le> length (snd (queue ! i)) + 1"
    if "i < length queue" "j < length queue" "i \<le> j" for i j
    using assms(1) that unfolding search_ok_def
    by (metis Suc_le_mono Suc_less_eq length_Cons nth_Cons_Suc)
  moreover have "\<forall>u \<in> insert cur expanded. fst ` set (edges_of es u) \<subseteq> set seen"
    using assms unfolding search_ok_def by blast
  ultimately show ?thesis
    using assms unfolding search_ok_def by (intro conjI) (assumption | auto)+
qed

lemma path_loop_correct:
  "search_ok es a b expanded queue seen \<Longrightarrow> case path_loop es b queue seen of
     Some p \<Rightarrow> shortest es a p b
   | None \<Rightarrow> \<forall>ds. \<not> chain es a ds b"
proof (induction es b queue seen arbitrary: expanded rule: path_loop.induct)
  case (1 es b seen)
  then have "a \<in> set seen" "b \<notin> set seen" by (auto simp: search_ok_def)
  with frontier [OF 1 _ chain.here] show ?case by fastforce
next
  case (2 es b cur taken queue seen)
  note scan = scan_finds [OF refl "2.prems" order_refl]
  show ?case
  proof (cases "scan_steps b taken (edges_of es cur) seen queue")
    case (Inl p)
    with scan show ?thesis by simp
  next
    case (Inr x)
    obtain seen' queue' where x: "x = (seen', queue')" by (cases x)
    with scan Inr have "search_ok es a b (insert cur expanded) queue' seen'"
      by (auto intro: search_ok_pop)
    from "2.IH" [OF Inr x [symmetric] this] Inr x show ?thesis by simp
  qed
qed

lemma cast_path_correct:
  "case cast_path es a b of Some p \<Rightarrow> shortest es a p b | None \<Rightarrow> \<forall>ds. \<not> chain es a ds b"
proof (cases "a = b")
  case True
  then show ?thesis by (auto simp: cast_path_def shortest_def intro: chain.here)
next
  case False
  have "search_ok es a b {} [(a, [])] [a]"
    using False by (auto simp: search_ok_def shortest_def intro: chain.here)
  from path_loop_correct [OF this] False show ?thesis by (simp add: cast_path_def)
qed

text \<open>
  The cast search always ends, and it finds a chain of registered casts exactly when there is
  one; the chain it finds is a shortest one, so a direct cast is preferred to any longer chain.
  \<open>cast\<close> raises \<open>NoCastPathError\<close> only when no chain exists.
\<close>

lemma cast_path_shortest:
  "(cast_path es a b = None \<longleftrightarrow> (\<forall>ds. \<not> chain es a ds b)) \<and>
   (cast_path es a b = Some p \<longrightarrow> chain es a p b \<and> (\<forall>ds. chain es a ds b \<longrightarrow> length p \<le> length ds)) \<and>
   ((b, c) \<in> set (edges_of es a) \<and> a \<noteq> b \<longrightarrow> (\<exists>c'. cast_path es a b = Some [c'] \<and> (b, c') \<in> set (edges_of es a)))"
proof (intro conjI impI)
  note cp = cast_path_correct [of es a b]
  show "cast_path es a b = None \<longleftrightarrow> (\<forall>ds. \<not> chain es a ds b)"
    using cp by (auto simp: shortest_def split: option.splits)
  show "chain es a p b" "\<forall>ds. chain es a ds b \<longrightarrow> length p \<le> length ds" if "cast_path es a b = Some p"
    using cp that by (auto simp: shortest_def)
  assume d: "(b, c) \<in> set (edges_of es a) \<and> a \<noteq> b"
  then have one: "chain es a [c] b" by (auto intro: chain.intros)
  with cp obtain q where q: "cast_path es a b = Some q" "chain es a q b" "length q \<le> 1"
    by (fastforce simp: shortest_def split: option.splits)
  then show "\<exists>c'. cast_path es a b = Some [c'] \<and> (b, c') \<in> set (edges_of es a)"
    using d by (cases q) (auto elim!: chain_NilE chain_ConsE)
qed

end
