(* ===== verification/HttpRouting.thy ===== *)
theory HttpRouting
  imports Registry
begin

text \<open>
  \<open>benzene.http.routing\<close>: route templates with \<open>{name}\<close> placeholders, the endpoints compiled from
  them, and the registration-ordered router. A compiled regular expression is the list of the
  pieces \<open>_compile\<close> joins, and matching it is the backtracking search of \<open>re\<close> over those pieces.
\<close>

section \<open>Templates\<close>

definition param_start :: "char \<Rightarrow> bool" where
  "param_start c \<longleftrightarrow> (let n = of_char c :: nat in 65 \<le> n \<and> n \<le> 90 \<or> 97 \<le> n \<and> n \<le> 122) \<or> c = CHR ''_''"

definition param_char :: "char \<Rightarrow> bool" where
  "param_char c \<longleftrightarrow> param_start c \<or> is_digit c"

text \<open>\<open>_PARAM_RE\<close> at the start of a text: the name and the text after the closing brace.\<close>

definition match_param :: "string \<Rightarrow> (string \<times> string) option" where
  "match_param s = (case s of
     [] \<Rightarrow> None
   | c # t \<Rightarrow>
       (let name = takeWhile param_char t; rest = dropWhile param_char t
        in if c = CHR ''{'' \<and> name \<noteq> [] \<and> param_start (hd name) \<and> rest \<noteq> [] \<and> hd rest = CHR ''}''
           then Some (name, tl rest) else None))"

datatype piece = Lit string | Param string

text \<open>The literal text before the next placeholder, kept apart while \<open>finditer\<close> scans.\<close>

lemma match_param_length: "match_param s = Some (n, r) \<Longrightarrow> length r < length s"
  by (auto simp: match_param_def Let_def split: list.splits if_splits)
    (metis One_nat_def diff_le_self le_imp_less_Suc length_dropWhile_le length_tl order_trans)

function route_pieces :: "string \<Rightarrow> string \<Rightarrow> piece list" where
  "route_pieces lit [] = [Lit lit]"
| "route_pieces lit (c # s) = (case match_param (c # s) of
     Some (name, rest) \<Rightarrow> Lit lit # Param name # route_pieces [] rest
   | None \<Rightarrow> route_pieces (lit @ [c]) s)"
  by pat_completeness auto

termination
  by (relation "measure (\<lambda>(lit, s). length s)") (auto dest: match_param_length)

fun piece_params :: "piece list \<Rightarrow> string list" where
  "piece_params [] = []"
| "piece_params (Lit _ # ps) = piece_params ps"
| "piece_params (Param n # ps) = n # piece_params ps"

text \<open>\<open>re.compile\<close> refuses a group name that is used twice.\<close>

definition compile_route :: "string \<Rightarrow> (piece list \<times> string list) outcome" where
  "compile_route path =
     (let ps = route_pieces [] path
      in if distinct (piece_params ps) then Inr (ps, piece_params ps)
         else Inl (PyException ''error'' ''redefinition of group name''))"

text \<open>
  \<open>Pattern.match\<close>: a literal must be next; \<open>[^/]+\<close> is tried at its longest first; and \<open>$\<close> holds at
  the end and before a final newline.
\<close>

primrec first_match :: "(nat \<Rightarrow> 'a option) \<Rightarrow> nat \<Rightarrow> 'a option" where
  "first_match f 0 = None"
| "first_match f (Suc k) = (case f (Suc k) of Some x \<Rightarrow> Some x | None \<Rightarrow> first_match f k)"

fun match_pieces :: "piece list \<Rightarrow> string \<Rightarrow> (string, string) dict option" where
  "match_pieces [] s = (if s = [] \<or> s = [CHR 0x0A] then Some [] else None)"
| "match_pieces (Lit l # ps) s = (if starts_with l s then match_pieces ps (drop (length l) s) else None)"
| "match_pieces (Param n # ps) s =
     first_match (\<lambda>k. map_option (\<lambda>b. (n, take k s) # b) (match_pieces ps (drop k s)))
       (length (takeWhile (\<lambda>c. c \<noteq> CHR ''/'') s))"

section \<open>Endpoints and the router\<close>

record http_endpoint =
  ep_method :: string
  ep_path :: string
  ep_topic :: string
  ep_version :: string
  ep_regex :: "piece list"
  ep_params :: "string list"

definition mk_endpoint :: "string \<Rightarrow> string \<Rightarrow> string \<Rightarrow> string \<Rightarrow> http_endpoint outcome" where
  "mk_endpoint method path topic version = (case compile_route path of
     Inl e \<Rightarrow> Inl e
   | Inr (regex, params) \<Rightarrow>
       Inr \<lparr>ep_method = method, ep_path = path, ep_topic = topic, ep_version = version,
            ep_regex = regex, ep_params = params\<rparr>)"

definition endpoint_match :: "http_endpoint \<Rightarrow> string \<Rightarrow> string \<Rightarrow> (string, string) dict option" where
  "endpoint_match ep method path =
     (if py_upper method \<noteq> ep_method ep then None else match_pieces (ep_regex ep) path)"

text \<open>The routes stacked on a function by \<open>@http_endpoint\<close>; decorators apply from the bottom up.\<close>

definition tag_route :: "string \<Rightarrow> string \<Rightarrow> (string \<times> string) list \<Rightarrow> (string \<times> string) list" where
  "tag_route method path routes = routes @ [(py_upper method, path)]"

record 'h http_router =
  hr_endpoints :: "http_endpoint list"
  hr_definitions :: "(string \<times> string, 'h handler_definition) dict"

definition new_router :: "'h http_router" where
  "new_router = \<lparr>hr_endpoints = [], hr_definitions = []\<rparr>"

definition register_route :: "string \<Rightarrow> string \<Rightarrow> 'h handler_definition \<Rightarrow> ('h http_router, unit) action" where
  "register_route method path d = (\<lambda>r. case mk_endpoint method path (hd_topic d) (hd_version d) of
     Inl e \<Rightarrow> (Inl e, r)
   | Inr ep \<Rightarrow> (Inr (), \<lparr>hr_endpoints = hr_endpoints r @ [ep],
       hr_definitions = dict_set (hd_topic d, hd_version d) d (hr_definitions r)\<rparr>))"

fun register_routes :: "(string \<times> string) list \<Rightarrow> 'h handler_definition \<Rightarrow> ('h http_router, unit) action" where
  "register_routes [] d r = (Inr (), r)"
| "register_routes ((method, path) # routes) d r = (case register_route method path d r of
     (Inl e, r') \<Rightarrow> (Inl e, r')
   | (Inr _, r') \<Rightarrow> register_routes routes d r')"

text \<open>\<open>HttpRouter.add\<close> on a function named \<open>name\<close> with its \<open>@message\<close> record and its routes, if any.\<close>

definition router_add ::
  "string \<Rightarrow> 'h handler_definition option \<Rightarrow> (string \<times> string) list \<Rightarrow> ('h http_router, unit) action" where
  "router_add name tag routes = (\<lambda>r. case tag of
     None \<Rightarrow> (Inl (PyException ''ValueError'' (repr_str name @ '' is not a @message-tagged handler; ''
               @ ''use register(method, path, topic, fn) for explicit registration.'')), r)
   | Some d \<Rightarrow>
       if routes = [] then
         (Inl (PyException ''ValueError'' (repr_str name @ '' has no @http_endpoint route; ''
               @ ''add one, or use register(method, path, topic, fn).'')), r)
       else register_routes routes d r)"

text \<open>\<open>infer_request_type\<close> reads the handler's annotations; its answer is \<open>inferred\<close>.\<close>

definition router_register ::
  "py_type option \<Rightarrow> string \<Rightarrow> string \<Rightarrow> string \<Rightarrow> 'h \<Rightarrow> string \<Rightarrow> py_type option \<Rightarrow> py_type option \<Rightarrow> bool \<Rightarrow>
   ('h http_router, unit) action" where
  "router_register inferred method path topic handler version request_type response_type is_default =
     register_route method path
       \<lparr>hd_topic = topic, hd_handler = handler, hd_version = version,
        hd_request_type = (case request_type of None \<Rightarrow> inferred | Some t \<Rightarrow> Some t),
        hd_response_type = response_type, hd_is_default = is_default\<rparr>"

fun match_first :: "http_endpoint list \<Rightarrow> string \<Rightarrow> string \<Rightarrow> (http_endpoint \<times> (string, string) dict) option" where
  "match_first [] method path = None"
| "match_first (ep # eps) method path = (case endpoint_match ep method path of
     Some params \<Rightarrow> Some (ep, params)
   | None \<Rightarrow> match_first eps method path)"

definition router_match :: "'h http_router \<Rightarrow> string \<Rightarrow> string \<Rightarrow> (http_endpoint \<times> (string, string) dict) option" where
  "router_match r method path = match_first (hr_endpoints r) method path"

definition router_definitions :: "'h http_router \<Rightarrow> 'h handler_definition list" where
  "router_definitions r = dict_values (hr_definitions r)"

text \<open>An \<open>HttpMapping\<close> is its method and path.\<close>

definition http_mappings :: "'h http_router \<Rightarrow> (string \<times> string, (string \<times> string) list) dict" where
  "http_mappings r = fold (\<lambda>ep m. dict_set (ep_topic ep, ep_version ep)
       ((case dict_get m (ep_topic ep, ep_version ep) of None \<Rightarrow> [] | Some ms \<Rightarrow> ms)
        @ [(ep_method ep, ep_path ep)]) m) (hr_endpoints r) []"

section \<open>Matching\<close>

text \<open>The text of a route with values for its placeholders, one value per placeholder.\<close>

fun fill :: "piece list \<Rightarrow> string list \<Rightarrow> string" where
  "fill [] vs = []"
| "fill (Lit l # ps) vs = l @ fill ps vs"
| "fill (Param n # ps) (v # vs) = v @ fill ps vs"
| "fill (Param n # ps) [] = []"

definition segment :: "string \<Rightarrow> bool" where
  "segment v \<longleftrightarrow> v \<noteq> [] \<and> CHR ''/'' \<notin> set v"

lemma first_match_Some:
  "first_match f n = Some x \<Longrightarrow> \<exists>k. 1 \<le> k \<and> k \<le> n \<and> f k = Some x \<and> (\<forall>j. k < j \<and> j \<le> n \<longrightarrow> f j = None)"
proof (induction n)
  case (Suc n)
  then show ?case
  proof (cases "f (Suc n)")
    case None
    with Suc obtain k where "1 \<le> k" "k \<le> n" "f k = Some x" "\<forall>j. k < j \<and> j \<le> n \<longrightarrow> f j = None" by auto
    with None show ?thesis by (intro exI [of _ k]) (auto simp: le_Suc_eq)
  qed (use Suc.prems in \<open>auto intro!: exI [of _ "Suc n"]\<close>)
qed simp

lemma first_match_None: "first_match f n = None \<longleftrightarrow> (\<forall>k. 1 \<le> k \<and> k \<le> n \<longrightarrow> f k = None)"
  by (induction n) (auto split: option.splits simp: le_Suc_eq)

lemma segment_take:
  assumes "1 \<le> k" "k \<le> length (takeWhile (\<lambda>c. c \<noteq> CHR ''/'') s)"
  shows "segment (take k s)"
proof -
  have "take k s = take k (takeWhile (\<lambda>c. c \<noteq> CHR ''/'') s)"
    using assms(2) by (metis min.absorb1 take_take take_append takeWhile_eq_take)
  then have "set (take k s) \<subseteq> set (takeWhile (\<lambda>c. c \<noteq> CHR ''/'') s)" by (metis set_take_subset)
  then have "CHR ''/'' \<notin> set (take k s)" by (auto dest: set_takeWhileD)
  moreover have "s \<noteq> []" using assms by auto
  ultimately show ?thesis using assms(1) by (simp add: segment_def)
qed

lemma match_sound:
  "match_pieces ps s = Some b \<Longrightarrow> map fst b = piece_params ps \<and> (\<forall>v \<in> snd ` set b. segment v) \<and>
     (s = fill ps (map snd b) \<or> s = fill ps (map snd b) @ [CHR 0x0A])"
proof (induction ps s arbitrary: b rule: match_pieces.induct)
  case (2 l ps s)
  then show ?case by (auto simp: starts_with_iff split: if_splits)
next
  case (3 n ps s)
  then obtain k b' where k: "1 \<le> k" "k \<le> length (takeWhile (\<lambda>c. c \<noteq> CHR ''/'') s)"
    and b: "match_pieces ps (drop k s) = Some b'" "b = (n, take k s) # b'"
    by (auto dest!: first_match_Some)
  from "3.IH" [OF b(1)] segment_take [OF k] b(2) show ?case
    by auto (metis append_take_drop_id append.assoc)+
qed (auto split: if_splits)

lemma match_complete:
  "length vs = length (piece_params ps) \<Longrightarrow> \<forall>v \<in> set vs. segment v \<Longrightarrow> \<exists>b. match_pieces ps (fill ps vs) = Some b"
proof (induction ps vs rule: fill.induct)
  case (3 n ps v vs)
  have v: "segment v" using 3 by simp
  have "length v \<le> length (takeWhile (\<lambda>c. c \<noteq> CHR ''/'') (v @ fill ps vs))"
    using v takeWhile_append2 [of v "\<lambda>c. c \<noteq> CHR ''/''"] unfolding segment_def
    by (metis length_append le_add1)
  moreover have "1 \<le> length v" using v by (cases v) (simp_all add: segment_def)
  moreover have "match_pieces ps (drop (length v) (v @ fill ps vs)) \<noteq> None" using 3 by simp
  ultimately have "match_pieces (Param n # ps) (v @ fill ps vs) \<noteq> None"
    unfolding match_pieces.simps first_match_None by (metis (no_types, lifting) option.map_disc_iff)
  then show ?case by auto
qed auto

text \<open>Every placeholder is a whole path segment's end: a slash or nothing follows it.\<close>

fun separated :: "piece list \<Rightarrow> bool" where
  "separated [] = True"
| "separated (Lit l # ps) = separated ps"
| "separated (Param n # ps) = (separated ps \<and>
     (case ps of [] \<Rightarrow> True | Lit [] # qs \<Rightarrow> qs = [] | Lit (c # l) # qs \<Rightarrow> c = CHR ''/'' | Param m # qs \<Rightarrow> False))"

lemma first_match_longest: "f n = Some x \<Longrightarrow> 1 \<le> n \<Longrightarrow> first_match f n = Some x"
  by (cases n) simp_all

lemma separated_fill:
  assumes "separated (Param n # ps)" "segment v"
  shows "takeWhile (\<lambda>c. c \<noteq> CHR ''/'') (v @ fill ps vs) = v"
proof -
  have "takeWhile (\<lambda>c. c \<noteq> CHR ''/'') (fill ps vs) = []"
    using assms(1) by (auto split: list.splits piece.splits)
  moreover have "takeWhile (\<lambda>c. c \<noteq> CHR ''/'') (v @ fill ps vs) = v @ takeWhile (\<lambda>c. c \<noteq> CHR ''/'') (fill ps vs)"
    using assms(2) by (intro takeWhile_append2) (auto simp: segment_def)
  ultimately show ?thesis by simp
qed

lemma match_fill:
  "length vs = length (piece_params ps) \<Longrightarrow> \<forall>v \<in> set vs. segment v \<Longrightarrow> separated ps \<Longrightarrow>
     match_pieces ps (fill ps vs) = Some (zip (piece_params ps) vs)"
proof (induction ps vs rule: fill.induct)
  case (3 n ps v vs)
  have v: "segment v" "1 \<le> length v" using 3 by (auto simp: segment_def Suc_le_eq)
  have "match_pieces ps (fill ps vs) = Some (zip (piece_params ps) vs)"
    using 3 by (auto simp del: separated.simps elim: separated.elims(2) simp: separated.simps(3))
  then show ?case
    using separated_fill [OF "3.prems"(3) v(1)] v(2) by (simp add: first_match_longest)
qed auto

text \<open>The pieces of a template spell it, with the placeholders in braces.\<close>

fun piece_text :: "piece \<Rightarrow> string" where
  "piece_text (Lit l) = l"
| "piece_text (Param n) = CHR ''{'' # n @ ''}''"

lemma match_param_text:
  assumes "match_param s = Some (n, r)"
  shows "s = CHR ''{'' # n @ CHR ''}'' # r"
proof (cases s)
  case (Cons c t)
  let ?rest = "dropWhile param_char t"
  have "c = CHR ''{''" "n = takeWhile param_char t" "?rest \<noteq> []" "hd ?rest = CHR ''}''" "r = tl ?rest"
    using assms by (auto simp: match_param_def Cons Let_def split: if_splits)
  then have "c = CHR ''{''" "n = takeWhile param_char t" "?rest = CHR ''}'' # r" by (metis list.collapse)+
  then show ?thesis using takeWhile_dropWhile_id [of param_char t] by (simp add: Cons)
qed (use assms in \<open>simp add: match_param_def\<close>)

lemma route_pieces_text: "concat (map piece_text (route_pieces lit s)) = lit @ s"
  by (induction lit s rule: route_pieces.induct) (auto split: option.splits dest: match_param_text)

lemma match_first_Some:
  "match_first eps method path = Some (ep, b) \<Longrightarrow>
     \<exists>before after. eps = before @ ep # after \<and> endpoint_match ep method path = Some b \<and>
        (\<forall>e \<in> set before. endpoint_match e method path = None)"
proof (induction eps)
  case (Cons e eps)
  show ?case
  proof (cases "endpoint_match e method path")
    case None
    with Cons obtain before after where "eps = before @ ep # after" "endpoint_match ep method path = Some b"
      "\<forall>e \<in> set before. endpoint_match e method path = None" by auto
    with None show ?thesis by (intro exI [of _ "e # before"] exI [of _ after]) simp
  next
    case (Some x)
    with Cons.prems show ?thesis by (intro exI [of _ "[]"] exI [of _ eps]) simp
  qed
qed simp

lemma match_first_None:
  "match_first eps method path = None \<longleftrightarrow> (\<forall>e \<in> set eps. endpoint_match e method path = None)"
  by (induction eps) (auto split: option.splits)

text \<open>
  A route matches exactly the paths that spell its template with a non-empty, slash-free value
  in each placeholder, and the values it captures are such values in template order; when every
  placeholder ends its segment they are the values the path was made from, so building a path and
  matching it loses nothing. A path with one newline more matches as well, since \<open>$\<close> accepts it.
\<close>

lemma route_match_exact:
  assumes "compile_route path = Inr (ps, params)"
  shows "(match_pieces ps s = Some b \<longrightarrow> map fst b = params \<and> distinct (map fst b) \<and> (\<forall>v \<in> snd ` set b. segment v) \<and>
            (s = fill ps (map snd b) \<or> s = fill ps (map snd b) @ [CHR 0x0A])) \<and>
         (length vs = length params \<and> (\<forall>v \<in> set vs. segment v) \<longrightarrow> match_pieces ps (fill ps vs) \<noteq> None \<and>
            (separated ps \<longrightarrow> match_pieces ps (fill ps vs) = Some (zip params vs))) \<and>
         concat (map piece_text ps) = path \<and>
         (params = [] \<longrightarrow> match_pieces ps (path @ [CHR 0x0A]) = Some [])"
proof (intro conjI impI)
  have c: "ps = route_pieces [] path" "params = piece_params ps" "distinct params"
    using assms by (auto simp: compile_route_def Let_def split: if_splits)
  show "concat (map piece_text ps) = path" using c(1) route_pieces_text [of "[]" path] by simp
  show "map fst b = params" "distinct (map fst b)" "\<forall>v \<in> snd ` set b. segment v"
    "s = fill ps (map snd b) \<or> s = fill ps (map snd b) @ [CHR 0x0A]" if "match_pieces ps s = Some b"
    using match_sound [OF that] c(2,3) by simp_all
  show "match_pieces ps (fill ps vs) \<noteq> None" if "length vs = length params \<and> (\<forall>v \<in> set vs. segment v)"
    using match_complete [of vs ps] that c(2) by auto
  show "match_pieces ps (fill ps vs) = Some (zip params vs)"
    if "length vs = length params \<and> (\<forall>v \<in> set vs. segment v)" "separated ps"
    using match_fill [of vs ps] that c(2) by simp
  show "match_pieces ps (path @ [CHR 0x0A]) = Some []" if "params = []"
  proof -
    have "piece_params qs = [] \<Longrightarrow> match_pieces qs (concat (map piece_text qs) @ [CHR 0x0A]) = Some []" for qs
      by (induction qs) (auto elim: piece_params.elims)
    with that c(2) \<open>concat (map piece_text ps) = path\<close> show ?thesis by metis
  qed
qed

lemma upper_char_fixed: "d \<in> set (upper_char c) \<Longrightarrow> upper_char d = [d]"
proof -
  assume d: "d \<in> set (upper_char c)"
  define n where "n = (of_char c :: nat)"
  consider "(97 \<le> n \<and> n \<le> 122) \<or> (224 \<le> n \<and> n \<le> 254 \<and> n \<noteq> 247)" | "n = 223"
    | "\<not> ((97 \<le> n \<and> n \<le> 122) \<or> (224 \<le> n \<and> n \<le> 254 \<and> n \<noteq> 247))" "n \<noteq> 223" by blast
  then show ?thesis
  proof cases
    case 1
    then have "d = char_of (n - 32)" "(of_char (char_of (n - 32) :: char) :: nat) = n - 32"
      using d by (auto simp: upper_char_def n_def [symmetric] Let_def)
    with 1 show ?thesis by (auto simp: upper_char_def Let_def)
  next
    case 2
    then have "d = CHR ''S''" using d by (simp add: upper_char_def n_def [symmetric])
    then show ?thesis by (simp add: upper_char_def)
  next
    case 3
    then have "upper_char c = [c]" unfolding upper_char_def n_def [symmetric] by (simp only: Let_def if_False)
    with d show ?thesis by simp
  qed
qed

lemma py_upper_idem [simp]: "py_upper (py_upper s) = py_upper s"
proof -
  have "concat (map upper_char t) = t" if "\<forall>d \<in> set t. upper_char d = [d]" for t
    using that by (induction t) simp_all
  then show ?thesis using upper_char_fixed by (auto simp: py_upper_def)
qed

text \<open>
  The first registered route that matches wins, whatever comes after it, and only when no
  route matches is there no answer. The comparison of methods ignores case only on the request's
  side: a route that \<open>register\<close> took under a method not in upper case is never matched, so a router with
  that route alone answers nothing.
\<close>

lemma first_route_wins:
  "(router_match r method path = Some (ep, b) \<longrightarrow>
      (\<exists>before after. hr_endpoints r = before @ ep # after \<and> endpoint_match ep method path = Some b \<and>
         (\<forall>e \<in> set before. endpoint_match e method path = None))) \<and>
   (router_match r method path = None \<longleftrightarrow> (\<forall>e \<in> set (hr_endpoints r). endpoint_match e method path = None)) \<and>
   (py_upper m \<noteq> m \<and> router_register ty m p topic h v rq rs dflt new_router = (Inr (), r') \<longrightarrow>
      router_match r' method path = None)"
proof (intro conjI impI)
  show "\<exists>before after. hr_endpoints r = before @ ep # after \<and> endpoint_match ep method path = Some b \<and>
      (\<forall>e \<in> set before. endpoint_match e method path = None)" if "router_match r method path = Some (ep, b)"
    using match_first_Some that unfolding router_match_def by blast
  show "router_match r method path = None \<longleftrightarrow> (\<forall>e \<in> set (hr_endpoints r). endpoint_match e method path = None)"
    by (simp add: router_match_def match_first_None)
  assume a: "py_upper m \<noteq> m \<and> router_register ty m p topic h v rq rs dflt new_router = (Inr (), r')"
  then have "py_upper method \<noteq> m" by auto
  with a show "router_match r' method path = None"
    by (auto simp: router_match_def router_register_def register_route_def mk_endpoint_def new_router_def
        endpoint_match_def split: sum.splits)
qed

end
