(* ===== verification/StatusMaps.thy ===== *)
theory StatusMaps
  imports Results
begin

text \<open>
  \<open>benzene.http.status\<close> and \<open>benzene.grpc.status\<close>: the tables between the Benzene status vocabulary
  and HTTP status codes or gRPC code names (\<open>wire-contracts\<close> 4.1 and 4.2). The keyword argument
  \<open>is_successful\<close> is an option, \<open>None\<close> when it is left out.
\<close>

section \<open>HTTP\<close>

definition BENZENE_TO_HTTP :: "(string, int) dict" where
  "BENZENE_TO_HTTP =
     [(''ok'', 200), (''ignored'', 200), (''created'', 201), (''accepted'', 202), (''updated'', 204),
      (''deleted'', 204), (''bad-request'', 400), (''unauthorized'', 401), (''forbidden'', 403),
      (''not-found'', 404), (''conflict'', 409), (''validation-error'', 422),
      (''too-many-requests'', 429), (''unexpected-error'', 500), (''not-implemented'', 501),
      (''service-unavailable'', 503), (''timeout'', 504)]"

definition HTTP_TO_BENZENE :: "(int, string) dict" where
  "HTTP_TO_BENZENE =
     [(200, ''ok''), (201, ''created''), (202, ''accepted''), (204, ''deleted''), (400, ''bad-request''),
      (401, ''unauthorized''), (403, ''forbidden''), (404, ''not-found''), (408, ''timeout''),
      (409, ''conflict''), (422, ''validation-error''), (429, ''too-many-requests''),
      (501, ''not-implemented''), (502, ''service-unavailable''), (503, ''service-unavailable''),
      (504, ''timeout'')]"

definition to_http :: "string \<Rightarrow> bool option \<Rightarrow> int" where
  "to_http status successful = (case dict_get BENZENE_TO_HTTP status of
     Some code \<Rightarrow> code
   | None \<Rightarrow> if successful = Some True then 200 else 500)"

definition from_http :: "int \<Rightarrow> string" where
  "from_http code = (case dict_get HTTP_TO_BENZENE code of Some s \<Rightarrow> s | None \<Rightarrow> ''unexpected-error'')"

section \<open>gRPC\<close>

definition BENZENE_STATUS_TRAILER :: string where
  "BENZENE_STATUS_TRAILER = ''benzene-status''"

definition GRPC_FORWARD :: "(string, string) dict" where
  "GRPC_FORWARD =
     [(''bad-request'', ''InvalidArgument''), (''validation-error'', ''InvalidArgument''),
      (''unauthorized'', ''Unauthenticated''), (''forbidden'', ''PermissionDenied''),
      (''not-found'', ''NotFound''), (''conflict'', ''AlreadyExists''),
      (''not-implemented'', ''Unimplemented''), (''service-unavailable'', ''Unavailable''),
      (''too-many-requests'', ''ResourceExhausted''), (''timeout'', ''DeadlineExceeded''),
      (''unexpected-error'', ''Internal'')]"

definition GRPC_REVERSE :: "(string, string) dict" where
  "GRPC_REVERSE =
     [(''OK'', ''ok''), (''InvalidArgument'', ''bad-request''), (''Unauthenticated'', ''unauthorized''),
      (''PermissionDenied'', ''forbidden''), (''NotFound'', ''not-found''),
      (''AlreadyExists'', ''conflict''), (''Unimplemented'', ''not-implemented''),
      (''Unavailable'', ''service-unavailable''), (''Cancelled'', ''service-unavailable''),
      (''ResourceExhausted'', ''too-many-requests''), (''DeadlineExceeded'', ''timeout''),
      (''DataLoss'', ''unexpected-error''), (''Internal'', ''unexpected-error'')]"

definition to_grpc :: "string \<Rightarrow> bool option \<Rightarrow> string" where
  "to_grpc status successful =
     (if is_successful status then ''OK''
      else (case dict_get GRPC_FORWARD status of
        Some code \<Rightarrow> code
      | None \<Rightarrow> if successful = Some True then ''OK'' else ''Internal''))"

definition from_grpc :: "string \<Rightarrow> string option \<Rightarrow> string" where
  "from_grpc code trailer = (case trailer of
     Some (c # t) \<Rightarrow> c # t
   | _ \<Rightarrow> (case dict_get GRPC_REVERSE code of Some s \<Rightarrow> s | None \<Rightarrow> ''unexpected-error''))"

section \<open>The tables carry the classification\<close>

lemmas status_tables = BENZENE_TO_HTTP_def HTTP_TO_BENZENE_def GRPC_FORWARD_def GRPC_REVERSE_def
  KNOWN_STATUSES_def SUCCESS_STATUSES_def FAILURE_STATUSES_def

lemma http_row: "dict_get BENZENE_TO_HTTP s \<noteq> None \<longleftrightarrow> s \<in> set KNOWN_STATUSES"
  by (auto simp: status_tables split: if_splits)

lemma to_http_unknown: "s \<notin> set KNOWN_STATUSES \<Longrightarrow> to_http s f = (if f = Some True then 200 else 500)"
  using http_row [of s] by (simp add: to_http_def)

lemma to_http_known: "s \<in> set KNOWN_STATUSES \<Longrightarrow> to_http s f = to_http s None"
  using http_row [of s] by (auto simp: to_http_def)

lemma known_round_trip:
  "list_all (\<lambda>s. from_http (to_http s None) = (if s = ''ignored'' then ''ok'' else if s = ''updated'' then ''deleted'' else s))
     KNOWN_STATUSES"
  by (simp add: to_http_def from_http_def status_tables)

lemma known_codes: "list_all (\<lambda>s. 200 \<le> to_http s None \<and> to_http s None < 600 \<and>
    (to_http s None < 300 \<longleftrightarrow> is_successful s) \<and> (to_http s None < 400 \<longleftrightarrow> is_successful s)) KNOWN_STATUSES"
  by (simp add: to_http_def status_tables is_successful_def)

lemma is_successful_known: "is_successful s \<Longrightarrow> s \<in> set KNOWN_STATUSES"
  by (simp add: is_successful_def KNOWN_STATUSES_def)

lemma to_http_range: "to_http s f \<in> {200 ..< 600}"
proof (cases "s \<in> set KNOWN_STATUSES")
  case True
  with known_codes show ?thesis unfolding to_http_known [OF True, of f] by (auto simp: list_all_iff)
qed (simp add: to_http_unknown)

text \<open>What a result's status and flag say: a vocabulary status by itself, another one by the flag.\<close>

definition reported_success :: "string \<Rightarrow> bool option \<Rightarrow> bool" where
  "reported_success s f \<longleftrightarrow> (if s \<in> set KNOWN_STATUSES then is_successful s else f = Some True)"

lemma to_http_success: "to_http s f < 300 \<longleftrightarrow> reported_success s f"
proof (cases "s \<in> set KNOWN_STATUSES")
  case True
  with known_codes show ?thesis
    unfolding to_http_known [OF True, of f] by (auto simp: list_all_iff reported_success_def)
qed (simp add: to_http_unknown reported_success_def)

lemma from_to_http_success: "is_successful (from_http (to_http s f)) \<longleftrightarrow> reported_success s f"
proof (cases "s \<in> set KNOWN_STATUSES")
  case True
  with known_round_trip have "from_http (to_http s None) =
      (if s = ''ignored'' then ''ok'' else if s = ''updated'' then ''deleted'' else s)" by (simp add: list_all_iff)
  with True show ?thesis
    unfolding to_http_known [OF True, of f]
    by (auto simp: reported_success_def is_successful_def SUCCESS_STATUSES_def)
next
  case False
  have "is_successful (from_http 200)" "\<not> is_successful (from_http 500)"
    by (simp_all add: from_http_def status_tables is_successful_def)
  with False show ?thesis by (simp add: to_http_unknown reported_success_def)
qed

lemma grpc_known: "list_all (\<lambda>s. (to_grpc s f = ''OK'' \<longleftrightarrow> is_successful s) \<and>
    (\<not> is_successful s \<longrightarrow> from_grpc (to_grpc s f) None =
       (if s = ''validation-error'' then ''bad-request'' else s))) KNOWN_STATUSES"
  by (simp add: to_grpc_def from_grpc_def status_tables is_successful_def)

lemma grpc_row: "dict_get GRPC_FORWARD s \<noteq> None \<Longrightarrow> s \<in> set KNOWN_STATUSES"
  by (auto simp: status_tables split: if_splits)

lemma to_grpc_unknown: "s \<notin> set KNOWN_STATUSES \<Longrightarrow> to_grpc s f = (if f = Some True then ''OK'' else ''Internal'')"
  using grpc_row [of s] is_successful_known [of s] by (auto simp: to_grpc_def split: option.splits)

lemma to_grpc_success: "to_grpc s f = ''OK'' \<longleftrightarrow> reported_success s f"
proof (cases "s \<in> set KNOWN_STATUSES")
  case True
  with grpc_known [of f] show ?thesis by (auto simp: list_all_iff reported_success_def)
qed (simp add: to_grpc_unknown reported_success_def)

text \<open>
  The two transports' status tables never disagree about success: a status with its flag is a
  2xx code exactly when it is the gRPC code OK, the HTTP codes are all within 200..599, and a
  receiver that reads only the code back keeps the classification. What the code alone loses is exactly
  this: over HTTP, \<open>ignored\<close> reads back as \<open>ok\<close> and \<open>updated\<close> as \<open>deleted\<close>; over gRPC every
  success reads as \<open>ok\<close> and \<open>validation-error\<close> as \<open>bad-request\<close>; the gRPC trailer keeps any status.
\<close>

lemma status_tables_agree:
  "(to_http s f < 300 \<longleftrightarrow> to_grpc s f = ''OK'') \<and> to_http s f \<in> {200 ..< 600} \<and>
   is_successful (from_http (to_http s f)) = (to_grpc s f = ''OK'') \<and>
   (s \<in> set KNOWN_STATUSES \<longrightarrow>
      from_http (to_http s f) = (if s = ''ignored'' then ''ok'' else if s = ''updated'' then ''deleted'' else s) \<and>
      from_grpc (to_grpc s f) None =
        (if is_successful s then ''ok'' else if s = ''validation-error'' then ''bad-request'' else s)) \<and>
   (s \<noteq> [] \<longrightarrow> from_grpc code (Some s) = s)"
proof (intro conjI impI)
  show "from_http (to_http s f) = (if s = ''ignored'' then ''ok'' else if s = ''updated'' then ''deleted'' else s)"
    if "s \<in> set KNOWN_STATUSES"
    using known_round_trip that unfolding to_http_known [OF that, of f] by (simp add: list_all_iff)
  show "from_grpc (to_grpc s f) None =
      (if is_successful s then ''ok'' else if s = ''validation-error'' then ''bad-request'' else s)"
    if k: "s \<in> set KNOWN_STATUSES"
  proof (cases "is_successful s")
    case True
    then have "to_grpc s f = ''OK''" by (simp add: to_grpc_def)
    with True show ?thesis by (simp add: from_grpc_def GRPC_REVERSE_def)
  next
    case False
    with k grpc_known [of f] show ?thesis by (simp add: list_all_iff)
  qed
  show "from_grpc code (Some s) = s" if "s \<noteq> []"
    using that by (cases s) (simp_all add: from_grpc_def)
qed (simp_all only: to_http_success to_grpc_success from_to_http_success to_http_range)

end
