(* ===== verification/HttpApp.thy ===== *)
theory HttpApp
  imports HttpRouting StatusMaps Health
begin

text \<open>
  \<open>benzene.http.app\<close> and \<open>benzene.http.standard\<close>: the inbound HTTP binding \<open>BenzeneHttpApp.handle\<close>, its
  well-known surfaces, and the rendering of envelopes and failures as HTTP responses. The ASGI
  call around \<open>handle\<close>, which only decodes octets, is not modelled.
\<close>

section \<open>Query strings\<close>

text \<open>
  \<open>urllib.parse.unquote\<close>: percent escapes give octets, and the octets are read as UTF-8. A code
  point the alphabet does not have, like the replacement character, is written as a question mark.
\<close>

fun unquote_octets :: "string \<Rightarrow> (nat + char) list" where
  "unquote_octets [] = []"
| "unquote_octets (c # s) =
     (if c = CHR ''%'' then
        (case s of
           a # b # t \<Rightarrow>
             (case (hex_val a, hex_val b) of
                (Some x, Some y) \<Rightarrow> Inl (16 * x + y) # unquote_octets t
              | _ \<Rightarrow> Inl (of_char c) # unquote_octets s)
         | _ \<Rightarrow> Inl (of_char c) # unquote_octets s)
      else (if of_char c < (128 :: nat) then Inl (of_char c) else Inr c) # unquote_octets s)"

fun read_octets :: "(nat + char) list \<Rightarrow> string" where
  "read_octets [] = []"
| "read_octets (Inr c # os) = c # read_octets os"
| "read_octets (Inl n # os) =
     (if n < 128 then char_of n # read_octets os
      else (case os of
        Inl m # os' \<Rightarrow>
          if n \<in> {194, 195} \<and> 128 \<le> m \<and> m < 192 then char_of (64 * (n - 192) + (m - 128)) # read_octets os'
          else CHR ''?'' # read_octets os
      | _ \<Rightarrow> CHR ''?'' # read_octets os))"

definition unquote_plus :: "string \<Rightarrow> string" where
  "unquote_plus s = read_octets (unquote_octets (map (\<lambda>c. if c = CHR ''+'' then CHR '' '' else c) s))"

text \<open>\<open>urllib.parse.parse_qsl\<close> with its default arguments: a field without a value is dropped.\<close>

definition parse_field :: "string \<Rightarrow> (string \<times> string) list" where
  "parse_field field =
     (let name = takeWhile (\<lambda>c. c \<noteq> CHR ''='') field; val = drop (Suc (length name)) field
      in if val = [] then [] else [(unquote_plus name, unquote_plus val)])"

definition parse_qsl :: "string \<Rightarrow> (string \<times> string) list" where
  "parse_qsl qs = (if qs = [] then [] else concat (map parse_field (py_split (CHR ''&'') qs)))"

text \<open>\<open>dict(parse_qsl(query_string))\<close>, its values as request members.\<close>

definition query_data :: "string \<Rightarrow> pydict" where
  "query_data qs = dict_of (map (\<lambda>(k, v). (k, VStr v)) (parse_qsl qs))"

section \<open>Responses\<close>

record http_response =
  hrsp_status :: int
  hrsp_headers :: pydict
  hrsp_body :: string

definition http_problem_response :: "result \<Rightarrow> http_response outcome" where
  "http_problem_response r =
     (let http_status = to_http (res_status r) (Some (result_is_successful r));
          payload = dict_set ''status'' (VInt http_status) (error_payload r)
      in case dumps (VDict payload) of
           Inl e \<Rightarrow> Inl e
         | Inr body \<Rightarrow> Inr \<lparr>hrsp_status = http_status,
             hrsp_headers = [(''content-type'', VStr ''application/problem+json'')], hrsp_body = body\<rparr>)"

definition http_error :: "string \<Rightarrow> string \<Rightarrow> http_response outcome" where
  "http_error status detail = http_problem_response (failure status [ErrText detail])"

text \<open>The body of an envelope the application returned is a string.\<close>

definition body_text :: "response \<Rightarrow> string" where
  "body_text env = (case rsp_body env of VStr s \<Rightarrow> s | _ \<Rightarrow> [])"

definition to_http_response :: "response \<Rightarrow> http_response outcome" where
  "to_http_response env =
     (let successful = successful_from env;
          http_status = to_http (or_text (rsp_status_code env) []) (Some successful);
          body = body_text env;
          plain = \<lparr>hrsp_status = http_status, hrsp_headers = rsp_headers env, hrsp_body = body\<rparr>
      in if successful \<or> body = [] then Inr plain
         else (case loads body of
            Some (VDict doc) \<Rightarrow>
              (case dumps (VDict (dict_set ''status'' (VInt http_status) doc)) of
                 Inl e \<Rightarrow> Inl e
               | Inr text \<Rightarrow> Inr (plain\<lparr>hrsp_headers := dict_set ''content-type'' (VStr ''application/problem+json'') (rsp_headers env),
                                    hrsp_body := text\<rparr>))
          | _ \<Rightarrow> Inr plain))"

section \<open>The well-known surfaces\<close>

text \<open>\<open>StandardPaths\<close>; \<open>invoke_topics\<close> is any object with \<open>in\<close>, which may raise.\<close>

record 'w standard_paths =
  sp_prefix :: string
  sp_invoke :: bool
  sp_invoke_topics :: "(pyval \<Rightarrow> bool outcome) option"
  sp_health :: "'w health_checks option"
  sp_spec :: bool

definition DEFAULT_PREFIX :: string where
  "DEFAULT_PREFIX = ''/benzene''"

definition invoke_path :: "'w standard_paths \<Rightarrow> string" where
  "invoke_path std = sp_prefix std @ ''/invoke''"

definition health_path :: "'w standard_paths \<Rightarrow> string" where
  "health_path std = sp_prefix std @ ''/health''"

definition spec_path :: "'w standard_paths \<Rightarrow> string" where
  "spec_path std = sp_prefix std @ ''/spec''"

definition message_endpoint :: "'w standard_paths \<Rightarrow> string option" where
  "message_endpoint std = (if sp_invoke std then Some (invoke_path std) else None)"

definition SPEC_TOPIC :: string where
  "SPEC_TOPIC = ''benzene:spec''"

definition json_headers :: pydict where
  "json_headers = [(''content-type'', VStr ''application/json'')]"

text \<open>A response envelope as the dictionary it is.\<close>

definition envelope_dict :: "response \<Rightarrow> pydict" where
  "envelope_dict env = [(''statusCode'', opt_str (rsp_status_code env)),
     (''isSuccessful'', rsp_is_successful env), (''headers'', VDict (rsp_headers env)),
     (''body'', rsp_body env)]"

definition json_reply :: "int \<Rightarrow> pyval \<Rightarrow> http_response outcome" where
  "json_reply code v = (case dumps v of
     Inl e \<Rightarrow> Inl e
   | Inr body \<Rightarrow> Inr \<lparr>hrsp_status = code, hrsp_headers = json_headers, hrsp_body = body\<rparr>)"

text \<open>\<open>/benzene/invoke\<close>: the body is a message envelope.\<close>

definition handle_invoke ::
  "'w application \<Rightarrow> 'w standard_paths \<Rightarrow> string \<Rightarrow> ('w, http_response) action" where
  "handle_invoke app std body = (\<lambda>w.
     case (if body = [] then Some (VDict []) else loads body) of
       Some (VDict envelope) \<Rightarrow>
         (let topic = v_or (vget envelope ''topic'') (VStr []);
              run = (\<lambda>w. case app_handle app [(''topic'', topic),
                        (''headers'', v_or (vget envelope ''headers'') (VDict [])),
                        (''body'', v_or (vget envelope ''body'') (VStr []))] False w of
                   (Inl e, w') \<Rightarrow> (Inl e, w')
                 | (Inr rsp, w') \<Rightarrow> (json_reply 200 (VDict (envelope_dict rsp)), w'))
          in case (if truthy topic then sp_invoke_topics std else None) of
               None \<Rightarrow> run w
             | Some served \<Rightarrow>
                 (case served topic of
                    Inl e \<Rightarrow> (Inl e, w)
                  | Inr True \<Rightarrow> run w
                  | Inr False \<Rightarrow>
                      (case encode_response (Some (not_found [ErrText (''No handler found for topic '' @ repr_val topic)])) of
                         Inl e \<Rightarrow> (Inl e, w)
                       | Inr rsp \<Rightarrow> (json_reply 200 (VDict (envelope_dict rsp)), w))))
     | _ \<Rightarrow> (http_error ''bad-request''
               ''Request body must be a JSON message envelope: {topic, headers, body}'', w))"

definition handle_health :: "'w health_checks \<Rightarrow> ('w, http_response) action" where
  "handle_health checks = (\<lambda>w. case health_run checks w of
     (Inl e, w') \<Rightarrow> (Inl e, w')
   | (Inr report, w') \<Rightarrow> (json_reply (if hr_is_healthy report then 200 else 503) (report_to_payload report), w'))"

definition spec_request :: "string \<Rightarrow> pydict" where
  "spec_request query_string =
     (let query = query_data query_string
      in concat (map (\<lambda>key. case dict_get query key of None \<Rightarrow> [] | Some v \<Rightarrow> [(key, v)]) [''type'', ''format'']))"

definition render :: "('w, response) action \<Rightarrow> ('w, http_response) action" where
  "render act = (\<lambda>w. case act w of (Inl e, w') \<Rightarrow> (Inl e, w') | (Inr rsp, w') \<Rightarrow> (to_http_response rsp, w'))"

definition handle_spec :: "'w application \<Rightarrow> string \<Rightarrow> pydict \<Rightarrow> ('w, http_response) action" where
  "handle_spec app query_string headers =
     (let request = spec_request query_string
      in case (if request = [] then Inr [] else dumps (VDict request)) of
           Inl e \<Rightarrow> act_raise e
         | Inr body \<Rightarrow> render (app_handle app [(''topic'', VStr SPEC_TOPIC),
             (''headers'', VDict (lower_keys headers)), (''body'', VStr body)] False))"

text \<open>\<open>_handle_standard\<close>: \<open>None\<close> when the request is for none of the surfaces.\<close>

definition handle_standard ::
  "'w application \<Rightarrow> 'w standard_paths \<Rightarrow> string \<Rightarrow> string \<Rightarrow> string \<Rightarrow> pydict \<Rightarrow> string \<Rightarrow>
   ('w, http_response) action option" where
  "handle_standard app std method path query_string headers body =
     (let verb = py_upper method
      in if sp_invoke std \<and> verb = ''POST'' \<and> path = invoke_path std then Some (handle_invoke app std body)
         else (case (if verb = ''GET'' \<and> path = health_path std then sp_health std else None) of
            Some checks \<Rightarrow> Some (handle_health checks)
          | None \<Rightarrow>
              if sp_spec std \<and> verb = ''GET'' \<and> path = spec_path std
              then Some (handle_spec app query_string headers)
              else None))"

section \<open>The application\<close>

record 'w http_app =
  ha_router :: "'w handler http_router"
  ha_application :: "'w application"
  ha_standard :: "'w standard_paths option"

definition new_http_app ::
  "classes \<Rightarrow> 'w handler http_router \<Rightarrow> 'w application option \<Rightarrow> 'w pipeline option \<Rightarrow> 'w standard_paths option \<Rightarrow>
   'w http_app outcome" where
  "new_http_app ct router app pipeline std =
     (case (case app of
          Some a \<Rightarrow> Inr a
        | None \<Rightarrow> (case from_definitions [router_definitions router] of
            Inl e \<Rightarrow> Inl e
          | Inr reg \<Rightarrow> new_application ct reg pipeline None None None)) of
        Inl e \<Rightarrow> Inl e
      | Inr a \<Rightarrow> Inr \<lparr>ha_router = router, ha_application = a, ha_standard = std\<rparr>)"

text \<open>The request a handler sees: body, then query string, then path parameters.\<close>

definition merge_request :: "pyval \<Rightarrow> pydict \<Rightarrow> pydict \<Rightarrow> pyval" where
  "merge_request parsed query params =
     (if query = [] \<and> params = [] then parsed
      else (let base = (case parsed of VDict d \<Rightarrow> d | _ \<Rightarrow> [])
            in VDict (dict_update (dict_update base query) params)))"

definition route_headers :: "string \<Rightarrow> http_endpoint \<Rightarrow> string option \<Rightarrow> pydict \<Rightarrow> pydict" where
  "route_headers version_header ep route_version headers =
     (case route_version of
        Some v \<Rightarrow> dict_set version_header (VStr v) headers
      | None \<Rightarrow>
          if ep_version ep \<noteq> [] \<and> \<not> truthy (resolve_version headers version_header)
          then dict_set version_header (VStr (ep_version ep)) headers
          else headers)"

definition http_route ::
  "'w http_app \<Rightarrow> string \<Rightarrow> string \<Rightarrow> string \<Rightarrow> pydict \<Rightarrow> string \<Rightarrow> ('w, http_response) action" where
  "http_route ha method path query_string headers body = (\<lambda>w.
     case router_match (ha_router ha) method path of
       None \<Rightarrow> (http_error ''not-found'' (''No route for '' @ py_upper method @ '' '' @ path), w)
     | Some (ep, path_params) \<Rightarrow>
         (case (if body = [] then Some (VDict []) else loads body) of
            None \<Rightarrow> (http_error ''bad-request'' ''Request body is not valid JSON'', w)
          | Some parsed \<Rightarrow>
              (let params = map (\<lambda>(k, v). (k, VStr v)) (dict_del ''version'' path_params);
                   request_data = merge_request parsed (query_data query_string) params;
                   request_headers = route_headers (app_version_header (ha_application ha)) ep
                     (dict_get path_params ''version'') (lower_keys headers)
               in case dumps request_data of
                    Inl e \<Rightarrow> (Inl e, w)
                  | Inr text \<Rightarrow>
                      render (app_handle (ha_application ha) [(''topic'', VStr (ep_topic ep)),
                        (''headers'', VDict request_headers), (''body'', VStr text)] False) w)))"

definition http_handle ::
  "'w http_app \<Rightarrow> string \<Rightarrow> string \<Rightarrow> string \<Rightarrow> pydict \<Rightarrow> string \<Rightarrow> ('w, http_response) action" where
  "http_handle ha method path query_string headers body =
     (case (case ha_standard ha of
          None \<Rightarrow> None
        | Some std \<Rightarrow> handle_standard (ha_application ha) std method path query_string headers body) of
        Some act \<Rightarrow> act
      | None \<Rightarrow> http_route ha method path query_string headers body)"

section \<open>Every request is answered\<close>

lemma scan_constant_dumpable: "scan_constant s = Some (v, t) \<Longrightarrow> dumpable v"
  by (auto simp: scan_constant_def scan_number_def split: option.splits if_splits prod.splits)

lemma dumpable_dict_of: "list_all (dumpable \<circ> snd) ms \<Longrightarrow> dumpable (VDict (dict_of ms))"
  using set_dict_of [of ms] by (fastforce simp: list_all_iff)

lemma scan_dumpable:
  "scan_value f s = Some (v, t) \<Longrightarrow> dumpable v"
  "scan_elements f s = Some (vs, t) \<Longrightarrow> \<forall>v \<in> set vs. dumpable v"
  "scan_members f s = Some (ms, t) \<Longrightarrow> list_all (dumpable \<circ> snd) ms"
proof (induction f s and f s and f s arbitrary: v t and vs t and ms t
    rule: scan_value_scan_elements_scan_members.induct)
  case (2 f s)
  show ?case
  proof (cases s)
    case (Cons c u)
    show ?thesis
    proof (cases "c = CHR ''{'' \<and> (\<exists>d x. skip_ws u = d # x \<and> d \<noteq> CHR ''}'')")
      case True
      then obtain d x ms where m: "skip_ws u = d # x" "d \<noteq> CHR ''}''" "scan_members f (d # x) = Some (ms, t)"
        "v = VDict (dict_of ms)"
        using 2(3) Cons by (auto split: if_splits)
      with 2(2) [OF Cons _ _ _ m(1,2,3)] True have "list_all (dumpable \<circ> snd) ms" by (simp add: comp_def)
      then show ?thesis unfolding m(4) by (rule dumpable_dict_of)
    qed (use 2(1,3) Cons in \<open>auto intro: scan_constant_dumpable split: if_splits list.splits\<close>)
  qed (use 2 in simp)
next
  case (4 f s)
  then show ?case by (auto split: option.splits list.splits if_splits)
next
  case (6 f s)
  then show ?case by (auto split: option.splits list.splits if_splits)
qed auto

lemma loads_dumpable: "loads s = Some v \<Longrightarrow> dumpable v"
  by (auto simp: loads_def simp del: scan_value.simps split: option.splits if_splits dest: scan_dumpable(1))

lemma set_dict_update: "set (dict_update d ps) \<subseteq> set d \<union> set ps"
proof (induction ps arbitrary: d)
  case (Cons p ps)
  obtain k v where p: "p = (k, v)" by (cases p)
  from set_dict_set [of k v d] Cons [of "dict_set k v d"] show ?case by (auto simp: dict_update_def p)
qed (simp add: dict_update_def)

lemma dumpable_merge:
  assumes "dumpable parsed" "\<forall>(k, v) \<in> set query. dumpable v" "\<forall>(k, v) \<in> set params. dumpable v"
  shows "dumpable (merge_request parsed query params)"
  using assms set_dict_update [of "dict_update d query" params for d] set_dict_update [of _ query]
  by (fastforce simp: merge_request_def Let_def split: pyval.splits)

lemma dumpable_error_document: "dumpable (VDict (dict_set ''status'' (VInt n) (error_payload r)))"
proof -
  have "dumpable (VDict (error_payload r))" by (rule json_ok_dumpable [OF json_ok_error_payload])
  then show ?thesis using set_dict_update [of "error_payload r" "[(''status'', VInt n)]"]
    by (fastforce simp: dict_update_def)
qed

lemma http_problem_total:
  "\<exists>body. http_problem_response r = Inr \<lparr>hrsp_status = to_http (res_status r) (Some (result_is_successful r)),
     hrsp_headers = [(''content-type'', VStr ''application/problem+json'')], hrsp_body = body\<rparr>"
  using dumpable_error_document by (simp add: http_problem_response_def dumps_def Let_def del: dumpable.simps json_text.simps)

lemma http_error_total:
  "\<exists>rsp. http_error status detail = Inr rsp \<and> hrsp_status rsp = to_http status (Some (is_successful status))"
  using http_problem_total [of "failure status [ErrText detail]"]
  by (auto simp: http_error_def result_is_successful_def failure_def)

lemma to_http_response_total: "\<exists>rsp. to_http_response env = Inr rsp \<and>
    hrsp_status rsp = to_http (or_text (rsp_status_code env) []) (Some (successful_from env))"
proof -
  have "dumpable (VDict (dict_set k (VInt n) d))" if "loads t = Some (VDict d)" for k n d t
    using loads_dumpable [OF that] set_dict_update [of d "[(k, VInt n)]"] by (fastforce simp: dict_update_def)
  then show ?thesis
    by (auto simp: to_http_response_def Let_def dumps_def simp del: dumpable.simps
        split: option.splits pyval.splits)
qed

lemma dumpable_query: "\<forall>(k, v) \<in> set (query_data qs). dumpable v"
  using set_dict_of [of "map (\<lambda>(k, v). (k, VStr v)) (parse_qsl qs)"] by (fastforce simp: query_data_def)

lemma render_total:
  "act w = (Inr env, w') \<Longrightarrow> \<exists>rsp. render act w = (Inr rsp, w') \<and> hrsp_status rsp \<in> {200 ..< 600}"
  using to_http_response_total [of env] to_http_range by (auto simp: render_def)

lemma hashable_route_headers:
  assumes "\<forall>v \<in> snd ` set headers. hashable v"
  shows "\<forall>v \<in> snd ` set (route_headers vh ep rv (lower_keys headers)). hashable v"
proof -
  have "\<forall>v \<in> snd ` set (lower_keys headers). hashable v"
    using assms set_dict_of [of "map (\<lambda>(k, v). (py_lower k, v)) headers"] by (fastforce simp: lower_keys_def)
  then have "\<forall>v \<in> snd ` set (dict_set vh (VStr t) (lower_keys headers)). hashable v" for t
    using set_dict_set [of vh "VStr t" "lower_keys headers"] by fastforce
  with \<open>\<forall>v \<in> snd ` set (lower_keys headers). hashable v\<close> show ?thesis
    unfolding route_headers_def by (cases rv) (simp_all only: option.simps split: if_split, simp_all)
qed

text \<open>
  C15. The HTTP binding answers every request its routes get with a response whose code is within
  200..599: with an application that meets the contract of the entry point, no method, path, query
  string or body makes \<open>handle\<close> raise. An unmatched path is answered 404 and an unreadable body 400,
  and neither runs anything.
\<close>

theorem http_answers:
  assumes built: "from_definitions [router_definitions router] = Inr reg"
      "new_http_app ct router None (Some p) std = Inr ha"
    and ok: "classes_ok ct" "handlers_ok reg" "\<forall>m \<in> set p. middleware_ok m"
      "\<forall>v \<in> snd ` set headers. hashable v"
    and routed: "\<forall>std'. std = Some std' \<longrightarrow>
        handle_standard (ha_application ha) std' method path query headers body = None"
  shows "(\<exists>rsp w'. http_handle ha method path query headers body w = (Inr rsp, w') \<and>
            hrsp_status rsp \<in> {200 ..< 600}) \<and>
         (router_match router method path = None \<longrightarrow>
            (\<exists>rsp. http_handle ha method path query headers body w = (Inr rsp, w) \<and> hrsp_status rsp = 404)) \<and>
         (router_match router method path \<noteq> None \<and> body \<noteq> [] \<and> loads body = None \<longrightarrow>
            (\<exists>rsp. http_handle ha method path query headers body w = (Inr rsp, w) \<and> hrsp_status rsp = 400))"
proof -
  obtain app where app: "new_application ct reg (Some p) None None None = Inr app"
    and ha: "ha = \<lparr>ha_router = router, ha_application = app, ha_standard = std\<rparr>"
    using built by (auto simp: new_http_app_def split: sum.splits)
  have h: "http_handle ha method path query headers body = http_route ha method path query headers body"
    using routed by (auto simp: http_handle_def ha split: option.splits)
  have codes: "to_http ''not-found'' (Some (is_successful ''not-found'')) = 404"
    "to_http ''bad-request'' (Some (is_successful ''bad-request'')) = 400"
    by (simp_all add: to_http_def BENZENE_TO_HTTP_def)
  have n404: "\<exists>rsp. http_handle ha method path query headers body w = (Inr rsp, w) \<and> hrsp_status rsp = 404"
    if "router_match router method path = None"
    using that http_error_total [of "''not-found''"] codes unfolding h by (auto simp: http_route_def ha)
  have n400: "\<exists>rsp. http_handle ha method path query headers body w = (Inr rsp, w) \<and> hrsp_status rsp = 400"
    if "router_match router method path \<noteq> None" "body \<noteq> []" "loads body = None"
    using that http_error_total [of "''bad-request''"] codes unfolding h by (auto simp: http_route_def ha)
  have "\<exists>rsp w'. http_handle ha method path query headers body w = (Inr rsp, w') \<and> hrsp_status rsp \<in> {200 ..< 600}"
  proof (cases "router_match router method path = None \<or> body \<noteq> [] \<and> loads body = None")
    case True
    with n404 n400 show ?thesis by fastforce
  next
    case False
    then obtain ep b where m: "router_match router method path = Some (ep, b)" by auto
    obtain parsed where j: "(if body = [] then Some (VDict []) else loads body) = Some parsed"
      using False by (cases "body = []"; cases "loads body") auto
    let ?params = "map (\<lambda>(k, v). (k, VStr v)) (dict_del ''version'' b)"
    let ?data = "merge_request parsed (query_data query) ?params"
    let ?headers = "route_headers (app_version_header app) ep (dict_get b ''version'') (lower_keys headers)"
    let ?env = "[(''topic'', VStr (ep_topic ep)), (''headers'', VDict ?headers), (''body'', VStr (json_text ?data))]"
    have "dumpable parsed" using j loads_dumpable by (auto split: if_splits)
    then have "dumpable ?data" using dumpable_query by (intro dumpable_merge) auto
    then have run: "http_handle ha method path query headers body w = render (app_handle app ?env False) w"
      unfolding h using m j by (simp add: http_route_def ha dumps_def)
    have "v_or (vget ?env ''headers'') (VDict []) = VDict ?headers" "hashable (vget ?env ''topic'')"
      by (auto simp: v_or_def)
    from handle_total [OF app ok(1-3) this hashable_route_headers [OF ok(4)]]
    obtain rsp w' where "app_handle app ?env False w = (Inr rsp, w')" by blast
    from render_total [of "app_handle app ?env False" w, OF this] show ?thesis unfolding run by blast
  qed
  with n404 n400 show ?thesis by blast
qed

theorem http_answers_witness:
  "\<exists>rsp. http_handle \<lparr>ha_router = new_router, ha_application = plain_app, ha_standard = None\<rparr>
     ''get'' ''/orders'' ''page=2'' [] ''{'' () = (Inr rsp, ()) \<and> hrsp_status rsp = 404"
proof -
  have d: "from_definitions [router_definitions (new_router :: unit handler http_router)] = Inr []"
    by (simp add: from_definitions_def router_definitions_def new_router_def dict_values_def)
  then have n: "new_http_app (\<lambda>_ _. Inr VNone, \<lambda>_ _. Inr VNone) (new_router :: unit handler http_router) None (Some []) None =
      Inr \<lparr>ha_router = new_router, ha_application = plain_app, ha_standard = None\<rparr>"
    by (simp add: new_http_app_def new_application_plain)
  show ?thesis
    using http_answers [OF d n, of "[]" "''get''" "''/orders''" "''page=2''" "''{''" "()"]
    by (simp add: classes_ok_def handlers_ok_def router_match_def new_router_def)
qed

section \<open>What the handler sees\<close>

lemma vget_update: "dict_ok q \<Longrightarrow> vget (dict_update d q) k = (if dict_mem k q then vget q k else vget d k)"
  by (auto simp: vget_def dict_get_update dict_get_rev dict_mem_def map_add_def split: option.splits)

lemma dict_ok_query: "dict_ok (query_data qs)"
  by (simp add: query_data_def)

text \<open>
  A matched request reaches the application as one envelope: the route's topic, and a body
  object in which a path parameter overrides a query field and a query field overrides a member of
  the JSON body; the parameter \<open>version\<close> is not a member but the version header, where it overrides
  the caller's, which in turn overrides the route's own version.
\<close>

lemma http_request_merged:
  assumes m: "router_match (ha_router ha) method path = Some (ep, b)"
    and std: "ha_standard ha = None" and keys: "dict_ok b"
    and json: "(if body = [] then Some (VDict []) else loads body) = Some (VDict d)"
  shows "\<exists>hs fields. http_handle ha method path query headers body =
           render (app_handle (ha_application ha) [(''topic'', VStr (ep_topic ep)), (''headers'', VDict hs),
             (''body'', VStr (json_text (VDict fields)))] False) \<and>
         (\<forall>k. vget fields k =
            (if k \<noteq> ''version'' \<and> dict_mem k b then VStr (the (dict_get b k))
             else if dict_mem k (query_data query) then vget (query_data query) k
             else vget d k)) \<and>
         (\<forall>v. app_version_header (ha_application ha) = py_lower v \<longrightarrow>
            (dict_get b ''version'' = Some x \<and> x \<noteq> [] \<longrightarrow> resolve_version hs v = VStr x) \<and>
            (dict_get b ''version'' = None \<longrightarrow> resolve_version hs v =
               (if truthy (resolve_version (lower_keys headers) v) then resolve_version (lower_keys headers) v
                else VStr (ep_version ep))))"
proof (intro exI conjI allI impI)
  let ?params = "map (\<lambda>(k, v). (k, VStr v)) (dict_del ''version'' b)"
  define fields where "fields = dict_update (dict_update d (query_data query)) ?params"
  define hs where "hs = route_headers (app_version_header (ha_application ha)) ep (dict_get b ''version'') (lower_keys headers)"
  show "http_handle ha method path query headers body =
      render (app_handle (ha_application ha) [(''topic'', VStr (ep_topic ep)), (''headers'', VDict hs),
        (''body'', VStr (json_text (VDict fields)))] False)"
  proof -
    have merged: "merge_request (VDict d) (query_data query) ?params = VDict fields"
      by (auto simp: merge_request_def fields_def dict_update_def)
    have "dumpable (VDict d)" using json loads_dumpable [of body "VDict d"] by (cases "body = []") auto
    then have "dumpable (VDict fields)" unfolding merged [symmetric]
      using dumpable_query by (intro dumpable_merge) auto
    then show ?thesis
      using m json by (simp add: http_handle_def std http_route_def merged dumps_def hs_def [symmetric] fun_eq_iff
          del: json_text.simps dumpable.simps)
  qed
  have get: "dict_get ?params k = (if k = ''version'' then None else map_option VStr (dict_get b k))" for k
    by (simp add: map_of_map)
  show "vget fields k = (if k \<noteq> ''version'' \<and> dict_mem k b then VStr (the (dict_get b k))
      else if dict_mem k (query_data query) then vget (query_data query) k else vget d k)" for k
  proof -
    have "dict_ok ?params" using keys by (simp add: dict_ok_def comp_def case_prod_beta distinct_delete)
    then have "vget fields k = (if dict_mem k ?params then vget ?params k
        else if dict_mem k (query_data query) then vget (query_data query) k else vget d k)"
      unfolding fields_def by (simp only: vget_update dict_ok_query)
    moreover have "dict_mem k ?params \<longleftrightarrow> k \<noteq> ''version'' \<and> dict_mem k b" unfolding dict_mem_def get by simp
    moreover have "vget ?params k = VStr (the (dict_get b k))" if "k \<noteq> ''version''" "dict_mem k b"
      using that unfolding vget_def dict_mem_def get by auto
    ultimately show ?thesis by presburger
  qed
  show "resolve_version hs v = VStr x"
    if "app_version_header (ha_application ha) = py_lower v" "dict_get b ''version'' = Some x \<and> x \<noteq> []" for v
    using that by (simp add: hs_def route_headers_def resolve_version_def vget_def v_or_def)
  show "resolve_version hs v = (if truthy (resolve_version (lower_keys headers) v)
      then resolve_version (lower_keys headers) v else VStr (ep_version ep))"
    if "app_version_header (ha_application ha) = py_lower v" "dict_get b ''version'' = None" for v
    using that by (auto simp: hs_def route_headers_def resolve_version_def vget_def v_or_def split: if_splits)
qed

definition order_route :: http_endpoint where
  "order_route = \<lparr>ep_method = ''GET'', ep_path = ''/orders/{id}'', ep_topic = ''orders:get'', ep_version = ''v2'',
     ep_regex = [Lit ''/orders/'', Param ''id'', Lit []], ep_params = [''id'']\<rparr>"

section \<open>The envelope endpoint\<close>

lemma encode_shape:
  "encode_response r = Inr rsp \<Longrightarrow> (\<exists>st b t c. rsp = \<lparr>rsp_status_code = Some st, rsp_is_successful = VBool b,
     rsp_headers = [(''content-type'', VStr c)], rsp_body = VStr t\<rparr>)"
  by (cases r) (auto simp: encode_response_def Let_def split: if_splits sum.splits)

lemma encode_dumpable: "encode_response r = Inr rsp \<Longrightarrow> dumpable (VDict (envelope_dict rsp))"
  by (drule encode_shape) (auto simp: envelope_dict_def opt_str_def)

lemma lower_keys_dumpable: "dumpable (VDict h) \<Longrightarrow> dumpable (vget (lower_keys h) k)"
  using set_dict_of [of "map (\<lambda>(k, v). (py_lower k, v)) h"]
  by (fastforce simp: vget_def lower_keys_def split: option.splits dest: map_of_SomeD)

lemma app_handle_dumpable:
  assumes "app_handle app request ign w = (Inr rsp, w')" "dumpable (VDict request)"
  shows "dumpable (VDict (envelope_dict rsp))"
proof -
  obtain h where h: "v_or (vget request ''headers'') (VDict []) = VDict h"
    using assms(1) by (auto simp: app_handle_def Let_def split: pyval.splits)
  have "dumpable (vget request ''headers'')"
    using assms(2) by (fastforce simp: vget_def split: option.splits dest: map_of_SomeD)
  with h have "dumpable (VDict h)" unfolding v_or_def by (metis dumpable.simps(8) empty_iff empty_set)
  then have v: "dumpable (resolve_version (lower_keys h) n)" for n
    using lower_keys_dumpable by (simp add: resolve_version_def v_or_def)
  obtain r rsp0 where r: "encode_response r = Inr rsp0"
    "rsp = rsp0 \<or> rsp = rsp0\<lparr>rsp_headers := dict_set (app_version_header app)
        (resolve_version (lower_keys h) (app_version_header app)) (rsp_headers rsp0)\<rparr>"
    using assms(1) h by (auto simp: app_handle_def Let_def split: option.splits prod.splits sum.splits if_splits)
  show ?thesis
    using r(2)
  proof
    assume "rsp = rsp0"
    with encode_dumpable [OF r(1)] show ?thesis by simp
  next
    assume "rsp = rsp0\<lparr>rsp_headers := dict_set (app_version_header app)
        (resolve_version (lower_keys h) (app_version_header app)) (rsp_headers rsp0)\<rparr>"
    with encode_shape [OF r(1)] v show ?thesis
      by (auto simp: envelope_dict_def opt_str_def split: if_splits)
  qed
qed

lemma json_reply_dumpable:
  "dumpable v \<Longrightarrow> json_reply code v = Inr \<lparr>hrsp_status = code, hrsp_headers = json_headers, hrsp_body = json_text v\<rparr>"
  by (simp add: json_reply_def dumps_def)

text \<open>
  The envelope endpoint answers 400 only for a body that is not a JSON object, and 200 for every
  envelope the application answered, whatever the status inside, with that envelope as the body. A
  topic outside \<open>invoke_topics\<close> gets a not-found envelope and reaches no code. It can still raise
  although the binding promises that request content never crashes the host: an envelope whose
  \<open>headers\<close> member is a list does.
\<close>

lemma invoke_endpoint:
  "((\<nexists>d. loads body = Some (VDict d)) \<and> body \<noteq> [] \<longrightarrow>
      (\<exists>rsp. handle_invoke app std body w = (Inr rsp, w) \<and> hrsp_status rsp = 400)) \<and>
   (loads body = Some (VDict d) \<and> body \<noteq> [] \<and> sp_invoke_topics std = None \<and>
      app_handle app [(''topic'', v_or (vget d ''topic'') (VStr [])),
        (''headers'', v_or (vget d ''headers'') (VDict [])), (''body'', v_or (vget d ''body'') (VStr []))] False w
        = (Inr env, w') \<longrightarrow>
      handle_invoke app std body w =
        (Inr \<lparr>hrsp_status = 200, hrsp_headers = json_headers, hrsp_body = json_text (VDict (envelope_dict env))\<rparr>, w')) \<and>
   (loads body = Some (VDict d) \<and> body \<noteq> [] \<and> truthy (vget d ''topic'') \<and>
      sp_invoke_topics std = Some served \<and> served (vget d ''topic'') = Inr False \<longrightarrow>
      (\<exists>env. encode_response (Some (not_found [ErrText (''No handler found for topic '' @ repr_val (vget d ''topic''))])) = Inr env \<and>
         handle_invoke app std body w =
           (Inr \<lparr>hrsp_status = 200, hrsp_headers = json_headers, hrsp_body = json_text (VDict (envelope_dict env))\<rparr>, w))) \<and>
   (sp_invoke_topics std = None \<longrightarrow>
      handle_invoke app std (json_text (VDict [(''headers'', VList [VInt 1])])) w =
        (Inl (PyException ''AttributeError'' ''object has no attribute items''), w))"
proof (intro conjI impI)
  show "\<exists>rsp. handle_invoke app std body w = (Inr rsp, w) \<and> hrsp_status rsp = 400"
    if "(\<nexists>d. loads body = Some (VDict d)) \<and> body \<noteq> []"
    using that http_error_total [of "''bad-request''"]
    by (auto simp: handle_invoke_def to_http_def BENZENE_TO_HTTP_def split: option.splits pyval.splits)
  show "handle_invoke app std body w = (Inr \<lparr>hrsp_status = 200, hrsp_headers = json_headers,
      hrsp_body = json_text (VDict (envelope_dict env))\<rparr>, w')"
    if a: "loads body = Some (VDict d) \<and> body \<noteq> [] \<and> sp_invoke_topics std = None \<and>
      app_handle app [(''topic'', v_or (vget d ''topic'') (VStr [])),
        (''headers'', v_or (vget d ''headers'') (VDict [])), (''body'', v_or (vget d ''body'') (VStr []))] False w
        = (Inr env, w')"
  proof -
    have "dumpable (VDict d)" using a loads_dumpable by blast
    then have "dumpable (vget d k)" for k
      by (fastforce simp: vget_def split: option.splits dest: map_of_SomeD)
    then have "dumpable (VDict (envelope_dict env))"
      using a by (intro app_handle_dumpable [of app _ False w env w']) (auto simp: v_or_def)
    from json_reply_dumpable [OF this, of 200] a show ?thesis
      by (simp add: handle_invoke_def Let_def del: json_text.simps)
  qed
  show "\<exists>env. encode_response (Some (not_found [ErrText (''No handler found for topic '' @ repr_val (vget d ''topic''))])) = Inr env \<and>
      handle_invoke app std body w = (Inr \<lparr>hrsp_status = 200, hrsp_headers = json_headers,
        hrsp_body = json_text (VDict (envelope_dict env))\<rparr>, w)"
    if a: "loads body = Some (VDict d) \<and> body \<noteq> [] \<and> truthy (vget d ''topic'') \<and>
      sp_invoke_topics std = Some served \<and> served (vget d ''topic'') = Inr False"
  proof -
    obtain env where e: "encode_response (Some (not_found [ErrText (''No handler found for topic '' @ repr_val (vget d ''topic''))])) = Inr env"
      using encode_total result_ok_factories(3) by blast
    from json_reply_dumpable [OF encode_dumpable [OF e], of 200] e a show ?thesis
      by (simp add: handle_invoke_def v_or_def Let_def del: json_text.simps)
  qed
  show "handle_invoke app std (json_text (VDict [(''headers'', VList [VInt 1])])) w =
      (Inl (PyException ''AttributeError'' ''object has no attribute items''), w)"
    if "sp_invoke_topics std = None"
  proof -
    have j: "json_ok (VDict [(''headers'', VList [VInt 1])])" by simp
    show ?thesis
      using that truthy_json_text [OF j] loads_json_text [OF j]
      by (simp add: handle_invoke_def Let_def v_or_def app_handle_def no_items_error_def del: json_text.simps)
  qed
qed

end
