(* ===== verification/HttpClient.thy ===== *)
theory HttpClient
  imports HttpApp Outbound
begin

text \<open>
  \<open>benzene.http.client\<close>: the outbound HTTP sender. The HTTP call itself is the injectable transport, a
  parameter; \<open>stdlib_transport\<close> over \<open>urllib\<close> and the optional deadline of a whole call are not modelled.
\<close>

text \<open>
  What a transport does: a reply, an \<open>OSError\<close> or \<open>asyncio.TimeoutError\<close> (the exception object with
  its links, as \<open>is_timeout\<close> reads them), or any other exception.
\<close>

datatype transport_outcome = HttpReply (reply_status: int) (reply_body: string)
  | NoReply "err list" nat
  | TransportRaises pyexn

type_synonym 'w http_transport = "string \<Rightarrow> pydict \<Rightarrow> string \<Rightarrow> 'w \<Rightarrow> transport_outcome \<times> 'w"

datatype url_for = BaseUrl string | UrlMap "(string, string) dict" | UrlFunction "string \<Rightarrow> string outcome"

definition rstrip_slash :: "string \<Rightarrow> string" where
  "rstrip_slash s = rev (dropWhile (\<lambda>c. c = CHR ''/'') (rev s))"

definition resolve_url :: "url_for \<Rightarrow> string \<Rightarrow> string outcome" where
  "resolve_url target topic = (case target of
     UrlFunction f \<Rightarrow> f topic
   | UrlMap m \<Rightarrow> (case dict_get m topic of
       None \<Rightarrow> Inl (PyException ''KeyError'' (repr_str (''No URL configured for topic '' @ repr_str topic
                 @ '' in the HttpMessageSender map'')))
     | Some url \<Rightarrow> Inr url)
   | BaseUrl base \<Rightarrow> Inr (rstrip_slash base @ ''/'' @ topic))"

definition parse_reply :: "string \<Rightarrow> pyval" where
  "parse_reply body = (if body = [] then VNone else (case loads body of None \<Rightarrow> VStr body | Some v \<Rightarrow> v))"

definition reply_to_result :: "int \<Rightarrow> string \<Rightarrow> result" where
  "reply_to_result code body =
     (let status = from_http code; parsed = parse_reply body
      in if is_successful status then mk_result status parsed [] None None
         else (case parsed of
            VDict d \<Rightarrow> failure (or_text (problem_status d) status) (map ErrStruct (problem_errors d))
          | _ \<Rightarrow> failure status []))"

definition http_sender :: "url_for \<Rightarrow> 'w http_transport \<Rightarrow> string \<Rightarrow> 'w sender" where
  "http_sender target transport topic_header topic message headers = (\<lambda>w.
     case resolve_url target topic of
       Inl e \<Rightarrow> (Inl e, w)
     | Inr url \<Rightarrow>
         (let out_headers = dict_set ''content-type'' (VStr ''application/json'')
                (dict_set topic_header (VStr topic) (headers_or_empty headers))
          in case encode_body message of
               Inl e \<Rightarrow> (Inl e, w)
             | Inr body \<Rightarrow>
                 (case transport url out_headers body w of
                    (HttpReply code text, w') \<Rightarrow> (Inr (reply_to_result code text), w')
                  | (NoReply errs i, w') \<Rightarrow> (Inr (failed_call_result errs i (''POST '' @ url)), w')
                  | (TransportRaises e, w') \<Rightarrow> (Inl e, w'))))"

section \<open>Both ends of a call\<close>

lemma json_ok_dict_set:
  assumes "json_ok (VDict d)" "json_ok v"
  shows "json_ok (VDict (dict_set k v d))"
  using assms set_dict_set [of k v d] by (fastforce simp: distinct_update)

lemma vget_dict_set: "vget (dict_set k v d) n = (if n = k then v else vget d n)"
  by (simp add: vget_def)

lemma problem_errors_dict_set: "k \<noteq> ''errors'' \<Longrightarrow> k \<noteq> ''detail'' \<Longrightarrow> problem_errors (dict_set k v d) = problem_errors d"
  unfolding problem_errors_def vget_dict_set by simp

lemma problem_status_dict_set: "k \<noteq> ''benzeneStatus'' \<Longrightarrow> problem_status (dict_set k v d) = problem_status d"
  by (simp add: problem_status_def vget_dict_set)

lemma problem_status_error_payload:
  "res_problem r = None \<Longrightarrow> res_status r \<noteq> [] \<Longrightarrow> \<not> is_successful (res_status r) \<Longrightarrow>
     problem_status (error_payload r) = Some (res_status r)"
  by (auto simp: problem_status_def error_payload_def split: option.splits)

text \<open>A failure is rendered in one way, whether the binding or the pipeline failed.\<close>

lemma failure_rendered:
  assumes "\<not> result_is_successful r" "encode_response (Some r) = Inr env"
  shows "to_http_response env = http_problem_response r"
proof -
  let ?d = "error_payload r"
  have l: "loads (json_text (VDict ?d)) = Some (VDict ?d)" by (rule loads_json_text [OF json_ok_error_payload])
  have n: "json_text (VDict ?d) \<noteq> []" by (rule truthy_json_text [OF json_ok_error_payload])
  show ?thesis
    using assms l n by (simp add: encode_failure to_http_response_def http_problem_response_def successful_from_def
        body_text_def or_text_def Let_def del: json_text.simps split: sum.splits) (auto simp: to_http_def)
qed

text \<open>
  C16. A call over HTTP delivers the handler's answer: what the server renders from a result, the
  client reads back as the same failure status, even one the code table has no row for, with every
  structured error in order; or as a success with the payload's wire form and the status the code
  stands for. Whatever the transport does short of an unrelated exception, the sender returns a
  result, and a call without a reply is \<open>timeout\<close> or \<open>service-unavailable\<close>.
\<close>

theorem http_call_round_trip:
  assumes "encode_response (Some r) = Inr env" "to_http_response env = Inr rsp"
    and "res_problem r = None" "consistent r" "res_status r \<noteq> []"
    and url: "resolve_url target topic = Inr url" "encode_body message = Inr body"
  shows "(\<not> result_is_successful r \<longrightarrow>
            res_status (reply_to_result (hrsp_status rsp) (hrsp_body rsp)) = res_status r \<and>
            \<not> result_is_successful (reply_to_result (hrsp_status rsp) (hrsp_body rsp)) \<and>
            ((\<forall>e \<in> set (res_errors r). be_message e \<noteq> []) \<longrightarrow>
               res_errors (reply_to_result (hrsp_status rsp) (hrsp_body rsp)) = res_errors r)) \<and>
         (result_is_successful r \<and> json_ok (to_jsonable (res_payload r)) \<longrightarrow>
            reply_to_result (hrsp_status rsp) (hrsp_body rsp) =
              mk_result (from_http (to_http (res_status r) (Some True))) (to_jsonable (res_payload r)) [] None None) \<and>
         (fst (transport url (dict_set ''content-type'' (VStr ''application/json'')
               (dict_set ''topic'' (VStr topic) (headers_or_empty headers))) body w) = NoReply errs i \<longrightarrow>
            (\<exists>res w'. http_sender target transport ''topic'' topic message headers w = (Inr res, w') \<and>
               res_status res = (if is_timeout errs i then ''timeout'' else ''service-unavailable'')))"
proof (intro conjI impI)
  let ?d = "error_payload r" and ?code = "to_http (res_status r) (Some False)"
  let ?d' = "dict_set ''status'' (VInt ?code) ?d"
  assume f: "\<not> result_is_successful r"
  have j: "json_ok (VDict ?d')" by (intro json_ok_dict_set json_ok_error_payload) simp
  have rsp: "hrsp_status rsp = ?code" "hrsp_body rsp = json_text (VDict ?d')"
    using assms(2) failure_rendered [OF f assms(1)] dumps_json_ok [OF j] f
    by (auto simp: http_problem_response_def Let_def simp del: json_text.simps)
  have ns: "\<not> is_successful (res_status r)"
    using assms(4) f is_successful_known by (auto simp: consistent_def)
  have "\<not> reported_success (res_status r) (Some False)" using ns by (simp add: reported_success_def)
  then have rd: "reply_to_result (hrsp_status rsp) (hrsp_body rsp) =
      failure (res_status r) (map ErrStruct (problem_errors ?d))"
    unfolding rsp using truthy_json_text [OF j] loads_json_text [OF j] assms(3,5) ns
    by (simp add: reply_to_result_def from_to_http_success parse_reply_def Let_def problem_status_dict_set
        problem_errors_dict_set problem_status_error_payload or_text_def del: json_text.simps)
  show "res_status (reply_to_result (hrsp_status rsp) (hrsp_body rsp)) = res_status r"
    "\<not> result_is_successful (reply_to_result (hrsp_status rsp) (hrsp_body rsp))"
    using ns by (simp_all add: rd failure_def result_is_successful_def)
  show "res_errors (reply_to_result (hrsp_status rsp) (hrsp_body rsp)) = res_errors r"
    if "\<forall>e \<in> set (res_errors r). be_message e \<noteq> []"
    using that assms(3) by (simp add: rd failure_def problem_errors_error_payload comp_def)
next
  assume s: "result_is_successful r \<and> json_ok (to_jsonable (res_payload r))"
  then have e: "env = \<lparr>rsp_status_code = Some (res_status r), rsp_is_successful = VBool True,
      rsp_headers = [(''content-type'', VStr ''application/json'')],
      rsp_body = VStr (if res_payload r = VNone then [] else json_text (to_jsonable (res_payload r)))\<rparr>"
    using encode_success [of r] assms(1) by simp
  then have rsp: "hrsp_status rsp = to_http (res_status r) (Some True)"
    "hrsp_body rsp = (if res_payload r = VNone then [] else json_text (to_jsonable (res_payload r)))"
    using assms(2,5) by (auto simp: to_http_response_def successful_from_def body_text_def or_text_def Let_def)
  have "reported_success (res_status r) (Some True)"
    using s assms(4) by (auto simp: reported_success_def consistent_def)
  moreover have "parse_reply (hrsp_body rsp) = to_jsonable (res_payload r)"
    unfolding rsp parse_reply_def using s loads_json_text truthy_json_text by (auto simp del: json_text.simps)
  ultimately show "reply_to_result (hrsp_status rsp) (hrsp_body rsp) =
      mk_result (from_http (to_http (res_status r) (Some True))) (to_jsonable (res_payload r)) [] None None"
    by (simp add: reply_to_result_def rsp(1) from_to_http_success)
next
  assume "fst (transport url (dict_set ''content-type'' (VStr ''application/json'')
      (dict_set ''topic'' (VStr topic) (headers_or_empty headers))) body w) = NoReply errs i"
  then show "\<exists>res w'. http_sender target transport ''topic'' topic message headers w = (Inr res, w') \<and>
      res_status res = (if is_timeout errs i then ''timeout'' else ''service-unavailable'')"
    using url by (auto simp: http_sender_def Let_def failed_call_result_def failure_def split: prod.splits)
qed

theorem http_call_round_trip_witness:
  "\<exists>env rsp. encode_response (Some (failure ''stock-frozen'' [ErrText ''held''])) = Inr env \<and>
     to_http_response env = Inr rsp \<and>
     res_status (reply_to_result (hrsp_status rsp) (hrsp_body rsp)) = ''stock-frozen''"
proof -
  let ?r = "failure ''stock-frozen'' [ErrText ''held'']"
  have f: "\<not> result_is_successful ?r" "consistent ?r" "res_problem ?r = None" "res_status ?r \<noteq> []"
    by (simp_all add: failure_def result_is_successful_def is_successful_def SUCCESS_STATUSES_def consistent_def)
  obtain env rsp where e: "encode_response (Some ?r) = Inr env" "to_http_response env = Inr rsp"
    using encode_failure [OF f(1)] to_http_response_total by metis
  have "res_status ?r = ''stock-frozen''" by (simp add: failure_def)
  with http_call_round_trip [OF e f(3,2,4), of "BaseUrl ''http://stock''" "''stock:get''" "''http://stock/stock:get''" "VStr []" "[]"
      "\<lambda>_ _ _ w. (HttpReply 200 [], w)" None "()" "[]" 0]
  have "res_status (reply_to_result (hrsp_status rsp) (hrsp_body rsp)) = ''stock-frozen''"
    using f(1) by (simp add: resolve_url_def rstrip_slash_def encode_body_def)
  with e show ?thesis by blast
qed

end
