(* ===== verification/Polling.thy ===== *)
theory Polling
  imports Settlement
begin

text \<open>
  The shape the three self-hosted consumers share (\<open>benzene.aws.sqs_consumer\<close>,
  \<open>benzene.kafka.consumer\<close>, \<open>benzene.rabbitmq.consumer\<close>): poll the client, dispatch each message,
  settle it, until told to stop. The client SDK is a parameter, actions on the world; its contract
  is the locale \<open>polling_client\<close>. The abstract loop below is what the concrete loops are shown to
  refine.
\<close>

section \<open>The abstract consumer\<close>

text \<open>Dispatch and settle messages in order; an exception ends the batch.\<close>

fun settle_all ::
  "('m \<Rightarrow> ('w, result) action) \<Rightarrow> ('m \<Rightarrow> result \<Rightarrow> ('w, unit) action) \<Rightarrow> 'm list \<Rightarrow> ('w, unit) action" where
  "settle_all handle settle [] = act_return ()"
| "settle_all handle settle (m # ms) =
     act_bind (handle m) (\<lambda>r. act_bind (settle m r) (\<lambda>_. settle_all handle settle ms))"

text \<open>
  The loop for at most \<open>n\<close> polls: \<open>None\<close> when it has not ended by then, else how it ended.
\<close>

fun poll_loop ::
  "nat \<Rightarrow> ('w \<Rightarrow> bool) \<Rightarrow> ('w, 'm list) action \<Rightarrow> ('m \<Rightarrow> ('w, result) action) \<Rightarrow>
   ('m \<Rightarrow> result \<Rightarrow> ('w, unit) action) \<Rightarrow> 'w \<Rightarrow> unit outcome option \<times> 'w" where
  "poll_loop 0 continue receive handle settle w = (None, w)"
| "poll_loop (Suc n) continue receive handle settle w =
     (if \<not> continue w then (Some (Inr ()), w)
      else (case act_bind receive (settle_all handle settle) w of
        (Inl e, w') \<Rightarrow> (Some (Inl e), w')
      | (Inr _, w') \<Rightarrow> poll_loop n continue receive handle settle w'))"

section \<open>The contract of a client\<close>

text \<open>
  \<open>queue\<close> is what the client has yet to deliver and \<open>told\<close> what it was told about deliveries:
  receiving takes messages from the front of the one and leaves the other alone.
\<close>

locale polling_client =
  fixes receive :: "('w, 'm list) action"
    and queue :: "'w \<Rightarrow> 'm list"
    and told :: "'w \<Rightarrow> 'e list"
  assumes receive_Inr: "receive w = (Inr ms, w') \<Longrightarrow> queue w = ms @ queue w' \<and> told w' = told w"
    and receive_Inl: "receive w = (Inl e, w') \<Longrightarrow> queue w' = queue w \<and> told w' = told w"

locale settling_consumer = polling_client receive queue told
  for receive :: "('w, 'm list) action" and queue :: "'w \<Rightarrow> 'm list" and told :: "'w \<Rightarrow> 'e list" +
  fixes handle :: "'m \<Rightarrow> ('w, result) action"
    and settle :: "'m \<Rightarrow> result \<Rightarrow> ('w, unit) action"
    and entry :: "'m \<Rightarrow> result \<Rightarrow> 'e list"
    and settles :: "'m \<Rightarrow> result \<Rightarrow> bool"
  assumes handle_frame: "handle m w = (x, w') \<Longrightarrow> queue w' = queue w \<and> told w' = told w"
    and settle_Inr: "settle m r w = (Inr (), w') \<Longrightarrow>
      settles m r \<and> queue w' = queue w \<and> told w' = told w @ entry m r"
    and settle_Inl: "settle m r w = (Inl e, w') \<Longrightarrow> queue w' = queue w \<and> told w' = told w"
begin

text \<open>
  What a run did: \<open>rs\<close> are the results of the messages \<open>ps\<close>, each returned by an invocation of
  its message, and the told grew by exactly their entries.
\<close>

definition settled :: "'m list \<Rightarrow> result list \<Rightarrow> 'w \<Rightarrow> 'w \<Rightarrow> bool" where
  "settled ps rs w w' \<longleftrightarrow> length rs = length ps \<and> told w' = told w @ concat (map2 entry ps rs) \<and>
     (\<forall>(m, r) \<in> set (zip ps rs). settles m r \<and> (\<exists>w1 w2. handle m w1 = (Inr r, w2)))"

lemma settled_Nil: "settled [] [] w w' \<longleftrightarrow> told w' = told w"
  by (simp add: settled_def)

lemma settled_append:
  assumes "settled ps rs w w1" "settled qs ss w1 w2"
  shows "settled (ps @ qs) (rs @ ss) w w2"
  using assms by (auto simp: settled_def)

lemma settle_all_runs:
  "settle_all handle settle ms w = (x, w') \<Longrightarrow> \<exists>ps rs rest. ms = ps @ rest \<and> settled ps rs w w' \<and>
     queue w' = queue w \<and> (x = Inr () \<longrightarrow> rest = []) \<and> (rest \<noteq> [] \<longrightarrow> (\<exists>e. x = Inl e))"
proof (induction ms arbitrary: w)
  case Nil
  then show ?case by (intro exI [of _ "[]"]) (auto simp: act_return_def settled_Nil)
next
  case (Cons m ms)
  show ?case
  proof (cases "handle m w")
    case (Pair y w1)
    note h = handle_frame [OF Pair]
    show ?thesis
    proof (cases y)
      case (Inl e)
      with Cons.prems Pair h show ?thesis
        by (intro exI [of _ "[]"] exI [of _ "m # ms"]) (auto simp: settled_Nil)
    next
      case (Inr r)
      obtain z w2 where s: "settle m r w1 = (z, w2)" by (cases "settle m r w1")
      show ?thesis
      proof (cases z)
        case (Inl e)
        with Cons.prems Pair Inr h s settle_Inl [of m r w1 e w2] show ?thesis
          by (intro exI [of _ "[]"] exI [of _ "m # ms"]) (auto simp: settled_Nil)
      next
        case z: (Inr u)
        with s have s': "settle m r w1 = (Inr (), w2)" by simp
        have "settled [m] [r] w w2"
          using settle_Inr [OF s'] h Pair Inr by (auto simp: settled_def)
        moreover have "settle_all handle settle ms w2 = (x, w')" using Cons.prems Pair Inr s' by simp
        then obtain ps rs rest where "ms = ps @ rest" "settled ps rs w2 w'" "queue w' = queue w2"
          "x = Inr () \<longrightarrow> rest = []" "rest \<noteq> [] \<longrightarrow> (\<exists>e. x = Inl e)"
          using Cons.IH by blast
        moreover have "queue w2 = queue w" using settle_Inr [OF s'] h by simp
        ultimately show ?thesis
          using settled_append [of "[m]" "[r]" w w2 ps rs w']
          by (intro exI [of _ "m # ps"] exI [of _ "r # rs"] exI [of _ rest]) simp
      qed
    qed
  qed
qed

lemma poll_loop_runs:
  "poll_loop n continue receive handle settle w = (x, w') \<Longrightarrow> \<exists>ps rs rest. queue w = ps @ rest @ queue w' \<and>
     settled ps rs w w' \<and> (rest \<noteq> [] \<longrightarrow> (\<exists>e. x = Some (Inl e)))"
proof (induction n arbitrary: w)
  case 0
  then show ?case by (intro exI [of _ "[]"]) (auto simp: settled_Nil)
next
  case (Suc n)
  show ?case
  proof (cases "continue w")
    case False
    with Suc.prems show ?thesis by (intro exI [of _ "[]"]) (auto simp: settled_Nil)
  next
    case True
    obtain y w1 where r: "receive w = (y, w1)" by (cases "receive w")
    show ?thesis
    proof (cases y)
      case (Inl e)
      with Suc.prems True r receive_Inl [of w e w1] show ?thesis
        by (intro exI [of _ "[]"]) (auto simp: settled_Nil)
    next
      case (Inr ms)
      note rc = receive_Inr [OF r [unfolded Inr]]
      obtain z w2 where s: "settle_all handle settle ms w1 = (z, w2)" by (cases "settle_all handle settle ms w1")
      obtain ps rs rest where p: "ms = ps @ rest" "settled ps rs w1 w2" "queue w2 = queue w1"
        "z = Inr () \<longrightarrow> rest = []" "rest \<noteq> [] \<longrightarrow> (\<exists>e. z = Inl e)"
        using settle_all_runs [OF s] by blast
      have pw: "settled ps rs w w2" using p(2) rc by (simp add: settled_def)
      show ?thesis
      proof (cases z)
        case (Inl e)
        with Suc.prems True r Inr s have "x = Some (Inl e)" "w' = w2" by auto
        with p pw rc show ?thesis by (intro exI [of _ ps] exI [of _ rs] exI [of _ rest]) simp
      next
        case z: (Inr u)
        with Suc.prems True r Inr s have "poll_loop n continue receive handle settle w2 = (x, w')" by simp
        then obtain qs ss rest' where q: "queue w2 = qs @ rest' @ queue w'" "settled qs ss w2 w'"
          "rest' \<noteq> [] \<longrightarrow> (\<exists>e. x = Some (Inl e))" using Suc.IH by blast
        with z p pw rc settled_append [OF pw q(2)] show ?thesis
          by (intro exI [of _ "ps @ qs"] exI [of _ "rs @ ss"] exI [of _ rest']) simp
      qed
    qed
  qed
qed

end

end
