(* ===== verification/Consumers.thy ===== *)
theory Consumers
  imports Polling
begin

text \<open>
  The self-hosted consumers \<open>benzene.aws.sqs_consumer\<close>, \<open>benzene.kafka.consumer\<close> and
  \<open>benzene.rabbitmq.consumer\<close>: how each decodes a native message into an envelope, dispatches it, and
  settles it with its client. The recording clients of the packages' \<open>testing\<close> modules are the
  concrete clients.
\<close>

section \<open>Native values\<close>

text \<open>
  A byte string as decoding sees it: the UTF-8 form of a text, or one that is not UTF-8, with the
  text \<open>errors="replace"\<close> makes of it. A header or a body is such bytes, \<open>None\<close> or another value.
\<close>

datatype wire_bytes = Utf8 string | NotUtf8 string

datatype wire_value = WNone | WBytes wire_bytes | WOther pyval

definition decode_replace :: "wire_bytes \<Rightarrow> string" where
  "decode_replace b = (case b of Utf8 s \<Rightarrow> s | NotUtf8 s \<Rightarrow> s)"

definition decode_strict :: "wire_bytes \<Rightarrow> string outcome" where
  "decode_strict b = (case b of Utf8 s \<Rightarrow> Inr s
     | NotUtf8 _ \<Rightarrow> Inl (PyException ''UnicodeDecodeError'' ''invalid start byte''))"

definition wire_text :: "wire_value \<Rightarrow> string" where
  "wire_text v = (case v of WNone \<Rightarrow> [] | WBytes b \<Rightarrow> decode_replace b | WOther x \<Rightarrow> str_val x)"

definition wire_body :: "wire_value \<Rightarrow> string outcome" where
  "wire_body v = (case v of WNone \<Rightarrow> Inr [] | WBytes b \<Rightarrow> decode_strict b | WOther x \<Rightarrow> Inr (str_val x))"

definition envelope_of :: "string \<Rightarrow> (string, string) dict \<Rightarrow> pyval \<Rightarrow> pydict" where
  "envelope_of topic headers body = [(''topic'', VStr topic),
     (''headers'', VDict (map (\<lambda>(k, v). (k, VStr v)) headers)), (''body'', body)]"

definition text_metadata :: "(string, string) dict \<Rightarrow> (pyval \<times> pyval) list option" where
  "text_metadata d = Some (map (\<lambda>(k, v). (VStr k, VStr v)) d)"

text \<open>A callback the caller passes to a loop, if any.\<close>

type_synonym ('w, 'm) on_result = "('m \<Rightarrow> result \<Rightarrow> ('w, unit) action) option"

definition call_back :: "('w, 'm) on_result \<Rightarrow> 'm \<Rightarrow> result \<Rightarrow> ('w, unit) action" where
  "call_back cb m r = (case cb of None \<Rightarrow> act_return () | Some f \<Rightarrow> f m r)"

definition message_handling_error :: "string \<Rightarrow> string \<Rightarrow> string \<Rightarrow> pyexn" where
  "message_handling_error topic status detail = PyException ''MessageHandlingError''
     (''Handler for topic '' @ repr_str topic @ '' failed with status '' @ repr_str status
      @ (if detail = [] then [] else '': '' @ detail))"

definition one_way_result :: "'w application \<Rightarrow> settlement \<Rightarrow> pydict outcome \<Rightarrow> ('w, result) action" where
  "one_way_result app st decoded = act_bind (dispatch_one_way app st decoded) (\<lambda>ow. act_return (ow_result ow))"

section \<open>SQS\<close>

text \<open>A message of \<open>receive_message\<close>: its attributes, body and receipt handle.\<close>

record sqs_message =
  sm_attributes :: "(string, pydict) dict option"
  sm_body :: pyval
  sm_receipt :: "string option"

definition decode_attributes :: "(string, pydict) dict option \<Rightarrow> (pyval \<times> pyval) list" where
  "decode_attributes raw = dict_of (map (\<lambda>(k, v). (VStr k, v_or (vget v ''StringValue'') (VStr [])))
     (case raw of None \<Rightarrow> [] | Some d \<Rightarrow> d))"

definition decode_sqs_message :: "metadata_keys \<Rightarrow> sqs_message \<Rightarrow> pydict outcome" where
  "decode_sqs_message keys m =
     (let (topic, headers) = read_message_metadata (Some (decode_attributes (sm_attributes m))) keys
      in Inr (envelope_of topic headers (v_or (sm_body m) (VStr []))))"

definition sqs_handle_message :: "'w application \<Rightarrow> settlement \<Rightarrow> sqs_message \<Rightarrow> ('w, result) action" where
  "sqs_handle_message app st m = one_way_result app st (decode_sqs_message (app_metadata_keys app) m)"

text \<open>\<open>message["ReceiptHandle"]\<close>, evaluated only when the message is deleted.\<close>

definition delete_received ::
  "(string \<Rightarrow> ('w, unit) action) \<Rightarrow> sqs_message \<Rightarrow> ('w, unit) action" where
  "delete_received delete_message m = (case sm_receipt m of
     None \<Rightarrow> act_raise (PyException ''KeyError'' (repr_str ''ReceiptHandle''))
   | Some rc \<Rightarrow> delete_message rc)"

fun sqs_messages ::
  "'w application \<Rightarrow> settlement \<Rightarrow> (string \<Rightarrow> ('w, unit) action) \<Rightarrow> bool \<Rightarrow> ('w, sqs_message) on_result \<Rightarrow>
   sqs_message list \<Rightarrow> ('w, unit) action" where
  "sqs_messages app st delete_message delete cb [] = act_return ()"
| "sqs_messages app st delete_message delete cb (m # ms) =
     act_bind (sqs_handle_message app st m) (\<lambda>r.
     act_bind (call_back cb m r) (\<lambda>_.
     act_bind (if delete \<and> acknowledges st r then delete_received delete_message m else act_return ()) (\<lambda>_.
     sqs_messages app st delete_message delete cb ms)))"

text \<open>\<open>run_sqs_consumer_loop\<close> for at most \<open>n\<close> polls.\<close>

fun sqs_loop ::
  "nat \<Rightarrow> 'w application \<Rightarrow> settlement \<Rightarrow> ('w, sqs_message list) action \<Rightarrow> (string \<Rightarrow> ('w, unit) action) \<Rightarrow>
   ('w \<Rightarrow> bool) \<Rightarrow> bool \<Rightarrow> ('w, sqs_message) on_result \<Rightarrow> 'w \<Rightarrow> unit outcome option \<times> 'w" where
  "sqs_loop 0 app st receive delete_message continue delete cb w = (None, w)"
| "sqs_loop (Suc n) app st receive delete_message continue delete cb w =
     (if \<not> continue w then (Some (Inr ()), w)
      else (case receive w of
        (Inl e, w') \<Rightarrow> (Some (Inl e), w')
      | (Inr ms, w') \<Rightarrow>
          (case sqs_messages app st delete_message delete cb ms w' of
             (Inl e, w'') \<Rightarrow> (Some (Inl e), w'')
           | (Inr _, w'') \<Rightarrow> sqs_loop n app st receive delete_message continue delete cb w'')))"

section \<open>Kafka\<close>

record kafka_message =
  km_headers :: "(string \<times> wire_value) list option"
  km_value :: wire_value
  km_topic :: wire_value
  km_error :: "pyval option"

text \<open>The headers of Kafka and AMQP: a later header of a name replaces an earlier one.\<close>

definition decode_headers :: "(string \<times> wire_value) list option \<Rightarrow> (string, string) dict" where
  "decode_headers raw = dict_of (map (\<lambda>(k, v). (k, wire_text v)) (case raw of None \<Rightarrow> [] | Some d \<Rightarrow> d))"

definition decode_kafka_message :: "metadata_keys \<Rightarrow> kafka_message \<Rightarrow> pydict outcome" where
  "decode_kafka_message keys m =
     (let (topic, headers) = read_message_metadata (text_metadata (decode_headers (km_headers m))) keys;
          topic' = (if topic = [] then wire_text (km_topic m) else topic)
      in case wire_body (km_value m) of
           Inl e \<Rightarrow> Inl e
         | Inr body \<Rightarrow> Inr (envelope_of topic' headers (VStr body)))"

definition kafka_handle_message :: "'w application \<Rightarrow> settlement \<Rightarrow> kafka_message \<Rightarrow> ('w, result) action" where
  "kafka_handle_message app st m = one_way_result app st (decode_kafka_message (app_metadata_keys app) m)"

definition stop_at :: "kafka_message \<Rightarrow> result \<Rightarrow> ('w, unit) action" where
  "stop_at m r = (case decode_kafka_message DEFAULT_METADATA_KEYS m of
     Inl e \<Rightarrow> act_raise e
   | Inr env \<Rightarrow> act_raise (message_handling_error (str_val (vget env ''topic'')) (res_status r)
       (py_join '', '' (messages r))))"

definition kafka_settle ::
  "settlement \<Rightarrow> (kafka_message \<Rightarrow> ('w, unit) action) \<Rightarrow> bool \<Rightarrow> bool \<Rightarrow> kafka_message \<Rightarrow> result \<Rightarrow>
   ('w, unit) action" where
  "kafka_settle st commit_message commit stop_on_failure m r =
     (if acknowledges st r then (if commit then commit_message m else act_return ())
      else if stop_on_failure then stop_at m r
      else act_return ())"

fun kafka_loop ::
  "nat \<Rightarrow> 'w application \<Rightarrow> settlement \<Rightarrow> ('w, kafka_message option) action \<Rightarrow>
   (kafka_message \<Rightarrow> ('w, unit) action) \<Rightarrow> ('w \<Rightarrow> bool) \<Rightarrow> bool \<Rightarrow> bool \<Rightarrow> ('w, kafka_message) on_result \<Rightarrow>
   'w \<Rightarrow> unit outcome option \<times> 'w" where
  "kafka_loop 0 app st poll commit_message continue commit stop_on_failure cb w = (None, w)"
| "kafka_loop (Suc n) app st poll commit_message continue commit stop_on_failure cb w =
     (if \<not> continue w then (Some (Inr ()), w)
      else (case poll w of
        (Inl e, w') \<Rightarrow> (Some (Inl e), w')
      | (Inr None, w') \<Rightarrow> kafka_loop n app st poll commit_message continue commit stop_on_failure cb w'
      | (Inr (Some m), w') \<Rightarrow>
          if km_error m \<noteq> None
          then kafka_loop n app st poll commit_message continue commit stop_on_failure cb w'
          else (case act_bind (kafka_handle_message app st m) (\<lambda>r. act_bind (call_back cb m r)
                   (\<lambda>_. kafka_settle st commit_message commit stop_on_failure m r)) w' of
             (Inl e, w'') \<Rightarrow> (Some (Inl e), w'')
           | (Inr _, w'') \<Rightarrow> kafka_loop n app st poll commit_message continue commit stop_on_failure cb w'')))"

section \<open>RabbitMQ\<close>

text \<open>A delivery: the \<open>(method, properties, body)\<close> triple of \<open>basic_get\<close>.\<close>

record rabbitmq_delivery =
  rd_delivery_tag :: int
  rd_routing_key :: wire_value
  rd_headers :: "(string \<times> wire_value) list option"
  rd_body :: wire_value

definition decode_rabbitmq_message :: "metadata_keys \<Rightarrow> rabbitmq_delivery \<Rightarrow> pydict outcome" where
  "decode_rabbitmq_message keys d =
     (let (topic, headers) = read_message_metadata (text_metadata (decode_headers (rd_headers d))) keys;
          topic' = (if topic = [] then wire_text (rd_routing_key d) else topic)
      in case wire_body (rd_body d) of
           Inl e \<Rightarrow> Inl e
         | Inr body \<Rightarrow> Inr (envelope_of topic' headers (VStr body)))"

definition rabbitmq_handle_message :: "'w application \<Rightarrow> settlement \<Rightarrow> rabbitmq_delivery \<Rightarrow> ('w, result) action" where
  "rabbitmq_handle_message app st d = one_way_result app st (decode_rabbitmq_message (app_metadata_keys app) d)"

definition rabbitmq_settle ::
  "settlement \<Rightarrow> (int \<Rightarrow> ('w, unit) action) \<Rightarrow> (int \<Rightarrow> bool \<Rightarrow> ('w, unit) action) \<Rightarrow> bool \<Rightarrow> bool \<Rightarrow>
   rabbitmq_delivery \<Rightarrow> result \<Rightarrow> ('w, unit) action" where
  "rabbitmq_settle st basic_ack basic_nack ack requeue d r =
     (if \<not> ack then act_return ()
      else if acknowledges st r then basic_ack (rd_delivery_tag d)
      else basic_nack (rd_delivery_tag d) requeue)"

fun rabbitmq_loop ::
  "nat \<Rightarrow> 'w application \<Rightarrow> settlement \<Rightarrow> ('w, rabbitmq_delivery option) action \<Rightarrow> (int \<Rightarrow> ('w, unit) action) \<Rightarrow>
   (int \<Rightarrow> bool \<Rightarrow> ('w, unit) action) \<Rightarrow> ('w \<Rightarrow> bool) \<Rightarrow> bool \<Rightarrow> bool \<Rightarrow> ('w, rabbitmq_delivery) on_result \<Rightarrow>
   'w \<Rightarrow> unit outcome option \<times> 'w" where
  "rabbitmq_loop 0 app st get basic_ack basic_nack continue ack requeue cb w = (None, w)"
| "rabbitmq_loop (Suc n) app st get basic_ack basic_nack continue ack requeue cb w =
     (if \<not> continue w then (Some (Inr ()), w)
      else (case get w of
        (Inl e, w') \<Rightarrow> (Some (Inl e), w')
      | (Inr None, w') \<Rightarrow> rabbitmq_loop n app st get basic_ack basic_nack continue ack requeue cb w'
      | (Inr (Some d), w') \<Rightarrow>
          (case act_bind (rabbitmq_handle_message app st d) (\<lambda>r. act_bind (call_back cb d r)
                  (\<lambda>_. rabbitmq_settle st basic_ack basic_nack ack requeue d r)) w' of
             (Inl e, w'') \<Rightarrow> (Some (Inl e), w'')
           | (Inr _, w'') \<Rightarrow> rabbitmq_loop n app st get basic_ack basic_nack continue ack requeue cb w'')))"

section \<open>The recording clients\<close>

text \<open>
  \<open>RecordingSqsClient\<close>, \<open>RecordingKafkaConsumer\<close> and \<open>RecordingRabbitMqChannel\<close>, in a world that also
  holds whatever the handlers use.
\<close>

record 'a sqs_world =
  sw_messages :: "sqs_message list"
  sw_deleted :: "string list"
  sw_rest :: 'a

definition recording_receive :: "('a sqs_world, sqs_message list) action" where
  "recording_receive w = (Inr (sw_messages w), w\<lparr>sw_messages := []\<rparr>)"

definition recording_delete :: "string \<Rightarrow> ('a sqs_world, unit) action" where
  "recording_delete rc w = (Inr (), w\<lparr>sw_deleted := sw_deleted w @ [rc]\<rparr>)"

record 'a kafka_world =
  kw_records :: "kafka_message list"
  kw_committed :: "kafka_message list"
  kw_rest :: 'a

definition recording_poll :: "('a kafka_world, kafka_message option) action" where
  "recording_poll w = (case kw_records w of
     [] \<Rightarrow> (Inr None, w)
   | m # ms \<Rightarrow> (Inr (Some m), w\<lparr>kw_records := ms\<rparr>))"

definition recording_commit :: "kafka_message \<Rightarrow> ('a kafka_world, unit) action" where
  "recording_commit m w = (Inr (), w\<lparr>kw_committed := kw_committed w @ [m]\<rparr>)"

record 'a rabbitmq_world =
  rw_deliveries :: "rabbitmq_delivery list"
  rw_acked :: "int list"
  rw_nacked :: "int list"
  rw_rest :: 'a

definition recording_get :: "('a rabbitmq_world, rabbitmq_delivery option) action" where
  "recording_get w = (case rw_deliveries w of
     [] \<Rightarrow> (Inr None, w)
   | d # ds \<Rightarrow> (Inr (Some d), w\<lparr>rw_deliveries := ds\<rparr>))"

definition recording_ack :: "int \<Rightarrow> ('a rabbitmq_world, unit) action" where
  "recording_ack tag w = (Inr (), w\<lparr>rw_acked := rw_acked w @ [tag]\<rparr>)"

definition recording_nack :: "int \<Rightarrow> bool \<Rightarrow> ('a rabbitmq_world, unit) action" where
  "recording_nack tag requeue w = (Inr (), w\<lparr>rw_nacked := rw_nacked w @ [tag]\<rparr>)"

section \<open>Refinement of the abstract consumer\<close>

definition sqs_settle ::
  "settlement \<Rightarrow> (string \<Rightarrow> ('w, unit) action) \<Rightarrow> bool \<Rightarrow> ('w, sqs_message) on_result \<Rightarrow> sqs_message \<Rightarrow> result \<Rightarrow>
   ('w, unit) action" where
  "sqs_settle st delete_message delete cb m r = act_bind (call_back cb m r)
     (\<lambda>_. if delete \<and> acknowledges st r then delete_received delete_message m else act_return ())"

definition one_at_a_time :: "('m \<Rightarrow> bool) \<Rightarrow> ('w, 'm option) action \<Rightarrow> ('w, 'm list) action" where
  "one_at_a_time usable poll = act_bind poll (\<lambda>x. act_return (case x of None \<Rightarrow> [] | Some m \<Rightarrow> if usable m then [m] else []))"

definition after_call_back ::
  "('w, 'm) on_result \<Rightarrow> ('m \<Rightarrow> result \<Rightarrow> ('w, unit) action) \<Rightarrow> 'm \<Rightarrow> result \<Rightarrow> ('w, unit) action" where
  "after_call_back cb settle m r = act_bind (call_back cb m r) (\<lambda>_. settle m r)"

lemma sqs_messages_settle:
  "sqs_messages app st del delete cb ms = settle_all (sqs_handle_message app st) (sqs_settle st del delete cb) ms"
  by (induction ms) (simp_all add: sqs_settle_def act_bind_assoc)

lemma settle_one: "settle_all handle settle [m] = act_bind (handle m) (settle m)"
proof -
  have "(\<lambda>_ :: unit. act_return ()) = act_return" by (simp add: fun_eq_iff)
  then show ?thesis by simp
qed

lemma sqs_loop_refines:
  "sqs_loop n app st receive del continue delete cb w =
     poll_loop n continue receive (sqs_handle_message app st) (sqs_settle st del delete cb) w"
  by (induction n arbitrary: w)
    (auto simp: sqs_messages_settle act_bind_def split: prod.splits sum.splits)

lemma one_at_a_time_settle:
  "act_bind (one_at_a_time usable poll) (settle_all h s) w =
     (case poll w of (Inl e, w') \<Rightarrow> (Inl e, w') | (Inr None, w') \<Rightarrow> (Inr (), w')
      | (Inr (Some m), w') \<Rightarrow> if usable m then act_bind (h m) (s m) w' else (Inr (), w'))"
proof (cases "poll w")
  case (Pair x w')
  show ?thesis
  proof (cases x)
    case (Inr y)
    with Pair have "one_at_a_time usable poll w =
        (Inr (case y of None \<Rightarrow> [] | Some m \<Rightarrow> if usable m then [m] else []), w')"
      by (simp add: one_at_a_time_def act_return_def)
    with Pair Inr show ?thesis
      by (cases y) (simp_all add: settle_one act_return_def del: settle_all.simps(2))
  qed (use Pair in \<open>simp add: one_at_a_time_def\<close>)
qed

lemma kafka_loop_refines:
  "kafka_loop n app st poll com continue commit stop cb w =
     poll_loop n continue (one_at_a_time (\<lambda>m. km_error m = None) poll) (kafka_handle_message app st)
       (after_call_back cb (kafka_settle st com commit stop)) w"
  by (induction n arbitrary: w)
    (auto simp: one_at_a_time_settle after_call_back_def [abs_def] split: sum.splits option.splits prod.splits)

lemma rabbitmq_loop_refines:
  "rabbitmq_loop n app st get ack_tag nack_tag continue ack requeue cb w =
     poll_loop n continue (one_at_a_time (\<lambda>_. True) get) (rabbitmq_handle_message app st)
       (after_call_back cb (rabbitmq_settle st ack_tag nack_tag ack requeue)) w"
  by (induction n arbitrary: w)
    (auto simp: one_at_a_time_settle after_call_back_def [abs_def] split: sum.splits option.splits prod.splits)

text \<open>
  The three workers are one consumer: for every client, callback, option and bound on the polls,
  the SQS, Kafka and RabbitMQ loops do step for step what the abstract poll, dispatch and settle loop
  does, an SQS receive being a batch, and a Kafka poll or RabbitMQ get being a batch of at most one
  message, empty for a record the broker marks as an error. They differ only in how a message is decoded
  and in how a result is settled.
\<close>

lemma consumers_refine_polling:
  "sqs_loop n app st receive del continue delete scb w =
     poll_loop n continue receive (sqs_handle_message app st) (sqs_settle st del delete scb) w
   \<and> kafka_loop n app st poll com continue commit stop kcb w =
     poll_loop n continue (one_at_a_time (\<lambda>m. km_error m = None) poll) (kafka_handle_message app st)
       (after_call_back kcb (kafka_settle st com commit stop)) w
   \<and> rabbitmq_loop n app st get ack_tag nack_tag continue ack requeue rcb w =
     poll_loop n continue (one_at_a_time (\<lambda>_. True) get) (rabbitmq_handle_message app st)
       (after_call_back rcb (rabbitmq_settle st ack_tag nack_tag ack requeue)) w"
  by (intro conjI sqs_loop_refines kafka_loop_refines rabbitmq_loop_refines)

section \<open>What each consumer settles\<close>

text \<open>An application that leaves the client alone.\<close>

definition client_untouched :: "'w application \<Rightarrow> ('w \<Rightarrow> 'q) \<Rightarrow> ('w \<Rightarrow> 'l) \<Rightarrow> bool" where
  "client_untouched app queue told \<longleftrightarrow> (\<forall>env ig w x w'. app_handle app env ig w = (x, w') \<longrightarrow>
     queue w' = queue w \<and> told w' = told w)"

lemma one_way_frame:
  assumes "client_untouched app queue told" "one_way_result app st decoded w = (x, w')"
  shows "queue w' = queue w \<and> told w' = told w"
proof (cases decoded)
  case (Inl e)
  with assms(2) show ?thesis
    by (auto simp: one_way_result_def dispatch_one_way_def act_bind_def act_return_def split: if_splits)
next
  case (Inr env)
  obtain y w1 where h: "app_handle app env (st_ignore_unmatched_topics st) w = (y, w1)"
    by (cases "app_handle app env (st_ignore_unmatched_topics st) w")
  with assms(1) have "queue w1 = queue w \<and> told w1 = told w" by (simp add: client_untouched_def)
  with assms(2) Inr h show ?thesis
    by (auto simp: one_way_result_def dispatch_one_way_def act_bind_def act_return_def Let_def
        split: if_splits sum.splits)
qed

text \<open>A client call that records one entry when it returns and nothing when it raises.\<close>

definition records_call :: "('w, unit) action \<Rightarrow> ('w \<Rightarrow> 'q) \<Rightarrow> ('w \<Rightarrow> 'e list) \<Rightarrow> 'e list \<Rightarrow> bool" where
  "records_call act queue told es \<longleftrightarrow> (\<forall>w x w'. act w = (x, w') \<longrightarrow>
     queue w' = queue w \<and> told w' = told w @ (case x of Inr _ \<Rightarrow> es | Inl _ \<Rightarrow> []))"

lemma records_return [simp]: "records_call (act_return ()) queue told es \<longleftrightarrow> es = []"
  by (auto simp: records_call_def act_return_def)

lemma records_raise [simp]: "records_call (act_raise e) queue told es"
  by (auto simp: records_call_def act_raise_def)

lemma settling_consumerI:
  assumes "polling_client receive queue told"
    and "\<And>m w x w'. handle m w = (x, w') \<Longrightarrow> queue w' = queue w \<and> told w' = told w"
    and "\<And>m r. records_call (settle m r) queue told (entry m r)"
    and "\<And>m r w w'. settle m r w = (Inr (), w') \<Longrightarrow> settles m r"
  shows "settling_consumer receive queue told handle settle entry settles"
  using assms(1)
proof (rule settling_consumer.intro)
  show "settling_consumer_axioms queue told handle settle entry settles"
    using assms(2-4) unfolding records_call_def by unfold_locales fastforce+
qed

text \<open>
  C17. The SQS worker deletes exactly what it may: whatever the queue delivers and however the loop
  ends, the receipts deleted are those of the acknowledged messages, in delivery order, each
  settled once on a result its own invocation returned. Without the at-most-once option an
  acknowledged result is a successful one, so a message whose handling failed, or that an exception
  kept from being settled, is still on the queue.
\<close>

theorem sqs_deletes_acknowledged:
  assumes client: "polling_client receive queue gone"
      "\<And>rc. records_call (delete_message rc) queue gone [rc]"
    and app: "client_untouched app queue gone"
    and run: "sqs_loop n app st receive delete_message continue True None w = (x, w')"
  shows "\<exists>ps rs rest. queue w = ps @ rest @ queue w' \<and> length rs = length ps \<and>
     gone w' = gone w @ map (the \<circ> sm_receipt \<circ> fst) (filter (acknowledges st \<circ> snd) (zip ps rs)) \<and>
     (\<forall>(m, r) \<in> set (zip ps rs). \<exists>w1 w2. sqs_handle_message app st m w1 = (Inr r, w2)) \<and>
     (rest \<noteq> [] \<longrightarrow> (\<exists>e. x = Some (Inl e))) \<and>
     (\<not> st_at_most_once st \<longrightarrow> (\<forall>r. acknowledges st r = result_is_successful r))"
proof -
  let ?entry = "\<lambda>m r. if acknowledges st r then [the (sm_receipt m)] else []"
  have sc: "settling_consumer receive queue gone (sqs_handle_message app st) (sqs_settle st delete_message True None)
      ?entry (\<lambda>_ _. True)"
  proof (rule settling_consumerI [OF client(1)])
    show "records_call (sqs_settle st delete_message True None m r) queue gone (?entry m r)" for m r
      using client(2) by (auto simp: sqs_settle_def call_back_def delete_received_def split: option.splits)
  qed (use one_way_frame [OF app] in \<open>auto simp: sqs_handle_message_def\<close>)
  have c: "concat (map2 ?entry ps rs) = map (the \<circ> sm_receipt \<circ> fst) (filter (acknowledges st \<circ> snd) (zip ps rs))" for ps rs
    by (induction ps rs rule: list_induct2') auto
  from settling_consumer.poll_loop_runs [OF sc run [unfolded sqs_loop_refines]] show ?thesis
    unfolding settling_consumer.settled_def [OF sc] c by (fastforce simp: acknowledges_def)
qed

text \<open>
  C18. The Kafka worker commits exactly the acknowledged records, in poll order, and skips records
  the broker marks as errors; without the at-most-once option an acknowledged result is a successful one. With \<open>stop_on_failure\<close> no record is committed behind one that was not
  acknowledged: the committed records are all the records dispatched before the worker stopped,
  so a restart resumes at the first unacknowledged one. Without it an unacknowledged record is passed
  over, and the worker goes on.
\<close>

theorem kafka_commits_acknowledged:
  assumes client: "polling_client (one_at_a_time (\<lambda>m. km_error m = None) poll) queue committed"
      "\<And>m. records_call (commit_message m) queue committed [m]"
    and app: "client_untouched app queue committed"
    and run: "kafka_loop n app st poll commit_message continue True stop None w = (x, w')"
  shows "\<exists>ps rs rest. queue w = ps @ rest @ queue w' \<and> length rs = length ps \<and>
     committed w' = committed w @ map fst (filter (acknowledges st \<circ> snd) (zip ps rs)) \<and>
     (\<forall>(m, r) \<in> set (zip ps rs). \<exists>w1 w2. kafka_handle_message app st m w1 = (Inr r, w2)) \<and>
     (stop \<longrightarrow> committed w' = committed w @ ps \<and> (\<forall>r \<in> set rs. acknowledges st r)) \<and>
     (rest \<noteq> [] \<longrightarrow> (\<exists>e. x = Some (Inl e))) \<and>
     (\<not> st_at_most_once st \<longrightarrow> (\<forall>r. acknowledges st r = result_is_successful r))"
proof -
  let ?entry = "\<lambda>m r. if acknowledges st r then [m] else []" and ?settles = "\<lambda>m r. stop \<longrightarrow> acknowledges st r"
  have sc: "settling_consumer (one_at_a_time (\<lambda>m. km_error m = None) poll) queue committed
      (kafka_handle_message app st) (after_call_back None (kafka_settle st commit_message True stop)) ?entry ?settles"
  proof (rule settling_consumerI [OF client(1)])
    show "records_call (after_call_back None (kafka_settle st commit_message True stop) m r) queue committed (?entry m r)" for m r
      using client(2) by (auto simp: after_call_back_def call_back_def kafka_settle_def stop_at_def split: sum.splits)
    show "?settles m r" if "after_call_back None (kafka_settle st commit_message True stop) m r v = (Inr (), v')" for m r v v'
      using that by (auto simp: after_call_back_def call_back_def kafka_settle_def stop_at_def act_raise_def
          split: sum.splits if_splits)
  qed (use one_way_frame [OF app] in \<open>auto simp: kafka_handle_message_def\<close>)
  have c: "concat (map2 ?entry ps rs) = map fst (filter (acknowledges st \<circ> snd) (zip ps rs))" for ps rs
    by (induction ps rs rule: list_induct2') auto
  obtain ps rs rest where q: "queue w = ps @ rest @ queue w'" "length rs = length ps"
    "committed w' = committed w @ map fst (filter (acknowledges st \<circ> snd) (zip ps rs))"
    "\<forall>(m, r) \<in> set (zip ps rs). ?settles m r \<and> (\<exists>w1 w2. kafka_handle_message app st m w1 = (Inr r, w2))"
    "rest \<noteq> [] \<longrightarrow> (\<exists>e. x = Some (Inl e))"
    using settling_consumer.poll_loop_runs [OF sc run [unfolded kafka_loop_refines]]
    unfolding settling_consumer.settled_def [OF sc] c by blast
  have acked: "\<forall>r \<in> set rs. acknowledges st r" if stop
    using that q(2,4) by (auto simp: in_set_conv_nth all_set_conv_all_nth)
  have "filter (acknowledges st \<circ> snd) (zip ps rs) = zip ps rs" if stop
    using acked [OF that] by (auto simp: filter_id_conv dest: set_zip_rightD)
  with q acked show ?thesis
    by (intro exI [of _ ps] exI [of _ rs] exI [of _ rest]) (auto simp: acknowledges_def)
qed

text \<open>
  The RabbitMQ worker answers every delivery it dispatched exactly once, in order: an
  acknowledgement for an acknowledged result and a negative one, with the configured \<open>requeue\<close>, for any
  other. What the calls leave behind is \<open>acks\<close> and \<open>nacks\<close>.
\<close>

lemma rabbitmq_answers_deliveries:
  assumes client: "polling_client (one_at_a_time (\<lambda>_. True) get) queue told"
      "\<And>t. records_call (basic_ack t) queue told (acks t)"
      "\<And>t b. records_call (basic_nack t b) queue told (nacks t b)"
    and app: "client_untouched app queue told"
    and run: "rabbitmq_loop n app st get basic_ack basic_nack continue True requeue None w = (x, w')"
  shows "\<exists>ps rs rest. queue w = ps @ rest @ queue w' \<and> length rs = length ps \<and>
     told w' = told w @ concat (map2 (\<lambda>d r. if acknowledges st r then acks (rd_delivery_tag d)
       else nacks (rd_delivery_tag d) requeue) ps rs) \<and>
     (\<forall>(d, r) \<in> set (zip ps rs). \<exists>w1 w2. rabbitmq_handle_message app st d w1 = (Inr r, w2)) \<and>
     (rest \<noteq> [] \<longrightarrow> (\<exists>e. x = Some (Inl e)))"
proof -
  let ?entry = "\<lambda>d r. if acknowledges st r then acks (rd_delivery_tag d) else nacks (rd_delivery_tag d) requeue"
  have sc: "settling_consumer (one_at_a_time (\<lambda>_. True) get) queue told (rabbitmq_handle_message app st)
      (after_call_back None (rabbitmq_settle st basic_ack basic_nack True requeue)) ?entry (\<lambda>_ _. True)"
  proof (rule settling_consumerI [OF client(1)])
    show "records_call (after_call_back None (rabbitmq_settle st basic_ack basic_nack True requeue) d r) queue told (?entry d r)"
      for d r
      using client(2,3) by (auto simp: after_call_back_def call_back_def rabbitmq_settle_def)
  qed (use one_way_frame [OF app] in \<open>auto simp: rabbitmq_handle_message_def\<close>)
  from settling_consumer.poll_loop_runs [OF sc run [unfolded rabbitmq_loop_refines]] show ?thesis
    unfolding settling_consumer.settled_def [OF sc] by fastforce
qed

section \<open>The recording clients meet the contract\<close>

interpretation recording_sqs: polling_client recording_receive sw_messages sw_deleted
  by unfold_locales (auto simp: recording_receive_def)

lemma one_at_a_time_cases:
  "one_at_a_time usable poll w = (Inr ms, w') \<longleftrightarrow>
     (\<exists>y. poll w = (Inr y, w') \<and> ms = (case y of None \<Rightarrow> [] | Some m \<Rightarrow> if usable m then [m] else []))"
  "one_at_a_time usable poll w = (Inl e, w') \<longleftrightarrow> poll w = (Inl e, w')"
  by (auto simp: one_at_a_time_def act_bind_def act_return_def split: prod.splits sum.splits)

interpretation recording_kafka: polling_client "one_at_a_time (\<lambda>m. km_error m = None) recording_poll"
    "\<lambda>w. filter (\<lambda>m. km_error m = None) (kw_records w)" kw_committed
  by unfold_locales (auto simp: one_at_a_time_cases recording_poll_def split: list.splits)

interpretation recording_rabbitmq: polling_client "one_at_a_time (\<lambda>_. True) recording_get" rw_deliveries rw_acked
  by unfold_locales (auto simp: one_at_a_time_cases recording_get_def split: list.splits)

lemma recording_calls:
  "records_call (recording_delete rc) sw_messages sw_deleted [rc]"
  "records_call (recording_commit m) (\<lambda>w. filter (\<lambda>m. km_error m = None) (kw_records w)) kw_committed [m]"
  "records_call (recording_ack t) rw_deliveries rw_acked [t]"
  "records_call (recording_nack t b) rw_deliveries rw_acked []"
  by (auto simp: records_call_def recording_delete_def recording_commit_def recording_ack_def recording_nack_def)

lemma app_handle_world:
  assumes "\<And>ctx. snd (snd (pipeline_handle (app_pipeline app) (ctx, w))) = w"
  shows "snd (app_handle app env ig w) = w"
proof (cases "\<exists>h. v_or (vget env ''headers'') (VDict []) = VDict h")
  case True
  then obtain h where h: "v_or (vget env ''headers'') (VDict []) = VDict h" by blast
  let ?body = "v_or (vget env ''body'') (VStr [])"
  show ?thesis
  proof (cases "if truthy ?body then loads_val ?body else Some (VDict [])")
    case None
    with h show ?thesis by (simp add: app_handle_def)
  next
    case (Some parsed)
    let ?ctx = "(mk_context (v_or (vget env ''topic'') (VStr [])) parsed (lower_keys h) create_scope
      (resolve_version (lower_keys h) (app_version_header app)))\<lparr>ctx_ignore_unmatched_topic := ig\<rparr>"
    obtain y ctx' w' where p: "pipeline_handle (app_pipeline app) (?ctx, w) = (y, ctx', w')"
      by (metis prod_cases3)
    with assms [of ?ctx] have "w' = w" by simp
    moreover have "snd (app_handle app env ig w) = w'"
      unfolding app_handle_def Let_def h pyval.case Some option.case p prod.case
      by (cases y; cases "encode_response (ctx_result ctx')") (simp_all only: sum.case prod.case snd_conv)
    ultimately show ?thesis by simp
  qed
next
  case False
  then show ?thesis by (cases "v_or (vget env ''headers'') (VDict [])") (simp_all add: app_handle_def)
qed

lemma empty_router_world:
  fixes w :: 'w
  shows "snd (snd (message_router ct [] exact_version nxt (ctx, w))) = w"
proof (cases "exact_version ([] :: 'w handler registry) (ctx_topic ctx) (ctx_version ctx)")
  case (Inr x)
  then have "x = None" using exact_version_registered [of "[]"] by (cases x) auto
  with Inr show ?thesis by (simp add: message_router_def)
qed (simp add: message_router_def)

lemma plain_app_untouched: "client_untouched plain_app queue told"
proof -
  have "snd (app_handle plain_app env ig w) = w" for env ig and w :: 'w
    by (rule app_handle_world) (simp add: plain_app_def pipeline_handle_simps empty_router_world)
  then show ?thesis unfolding client_untouched_def by (metis snd_conv)
qed

interpretation recording_sqs_worker: settling_consumer recording_receive sw_messages sw_deleted
    "sqs_handle_message plain_app AT_LEAST_ONCE" "sqs_settle AT_LEAST_ONCE recording_delete True None"
    "\<lambda>m r. if acknowledges AT_LEAST_ONCE r then [the (sm_receipt m)] else []" "\<lambda>_ _. True"
proof (rule settling_consumerI [OF recording_sqs.polling_client_axioms])
  show "records_call (sqs_settle AT_LEAST_ONCE recording_delete True None m r) sw_messages sw_deleted
      (if acknowledges AT_LEAST_ONCE r then [the (sm_receipt m)] else [])" for m r
    using recording_calls(1) by (auto simp: sqs_settle_def call_back_def delete_received_def split: option.splits)
  show "sw_messages w' = sw_messages w \<and> sw_deleted w' = sw_deleted w"
    if "sqs_handle_message plain_app AT_LEAST_ONCE m w = (x, w')" for m w x w'
    by (rule one_way_frame [OF plain_app_untouched that [unfolded sqs_handle_message_def]])
qed simp

definition sample_world :: "unit sqs_world" where
  "sample_world = \<lparr>sw_messages = [\<lparr>sm_attributes = None, sm_body = VStr [], sm_receipt = Some ''r1''\<rparr>],
     sw_deleted = [], sw_rest = ()\<rparr>"

theorem sqs_deletes_acknowledged_witness:
  "\<exists>ps rs rest. let (x, w') = sqs_loop 2 plain_app AT_LEAST_ONCE recording_receive recording_delete
       (\<lambda>w. sw_messages w \<noteq> []) True None sample_world in
     sw_messages sample_world = ps @ rest @ sw_messages w' \<and>
     sw_deleted w' = map (the \<circ> sm_receipt \<circ> fst) (filter (acknowledges AT_LEAST_ONCE \<circ> snd) (zip ps rs))"
proof -
  define run where "run = sqs_loop 2 plain_app AT_LEAST_ONCE recording_receive recording_delete
    (\<lambda>w. sw_messages w \<noteq> []) True None sample_world"
  then have r: "sqs_loop 2 plain_app AT_LEAST_ONCE recording_receive recording_delete
    (\<lambda>w. sw_messages w \<noteq> []) True None sample_world = (fst run, snd run)" by simp
  have "sw_deleted sample_world = []" by (simp add: sample_world_def)
  with sqs_deletes_acknowledged [OF recording_sqs.polling_client_axioms recording_calls(1) plain_app_untouched r]
  show ?thesis unfolding run_def [symmetric] by (auto simp: case_prod_beta)
qed

definition sample_records :: "unit kafka_world" where
  "sample_records = \<lparr>kw_records = [\<lparr>km_headers = None, km_value = WNone, km_topic = WNone, km_error = None\<rparr>],
     kw_committed = [], kw_rest = ()\<rparr>"

theorem kafka_commits_acknowledged_witness:
  "\<exists>ps rest. let (x, w') = kafka_loop 2 plain_app AT_LEAST_ONCE recording_poll recording_commit
       (\<lambda>w. kw_records w \<noteq> []) True True None sample_records in
     kw_records sample_records = ps @ rest @ filter (\<lambda>m. km_error m = None) (kw_records w') \<and> kw_committed w' = ps"
proof -
  define run where "run = kafka_loop 2 plain_app AT_LEAST_ONCE recording_poll recording_commit
    (\<lambda>w. kw_records w \<noteq> []) True True None sample_records"
  then have r: "kafka_loop 2 plain_app AT_LEAST_ONCE recording_poll recording_commit
    (\<lambda>w. kw_records w \<noteq> []) True True None sample_records = (fst run, snd run)" by simp
  have "kw_committed sample_records = []" "filter (\<lambda>m. km_error m = None) (kw_records sample_records) = kw_records sample_records"
    by (simp_all add: sample_records_def)
  with kafka_commits_acknowledged [OF recording_kafka.polling_client_axioms recording_calls(2) plain_app_untouched r]
  show ?thesis unfolding run_def [symmetric] by (auto simp: case_prod_beta)
qed

end
