(* ===== verification/Dynamic.thy ===== *)
theory Dynamic
  imports Json
begin

text \<open>
  What untyped Python code does with a decoded value: member access, iteration, membership, equality,
  order, and conversion to a number, each with the exception it raises on a value of another type.

  A float stands for the decimal its text denotes, so arithmetic on floats is exact here; a decimal
  past the range of a double is infinite, as it is in Python.
\<close>

section \<open>Reading members\<close>

definition and_then :: "'a outcome \<Rightarrow> ('a \<Rightarrow> 'b outcome) \<Rightarrow> 'b outcome" where
  "and_then x f = (case x of Inl e \<Rightarrow> Inl e | Inr a \<Rightarrow> f a)"

lemma and_then_simps [simp]: "and_then (Inr a) f = f a" "and_then (Inl e) f = Inl e"
  by (simp_all add: and_then_def)

definition attribute_error :: "string \<Rightarrow> pyexn" where
  "attribute_error name = PyException ''AttributeError'' (''object has no attribute '' @ repr_str name)"

text \<open>\<open>v.get(key, default)\<close>\<close>

definition get_or :: "pyval \<Rightarrow> string \<Rightarrow> pyval \<Rightarrow> pyval outcome" where
  "get_or v key d = (case v of
     VDict ms \<Rightarrow> Inr (case dict_get ms key of None \<Rightarrow> d | Some x \<Rightarrow> x)
   | _ \<Rightarrow> Inl (attribute_error ''get''))"

definition items_of :: "pyval \<Rightarrow> pydict outcome" where
  "items_of v = (case v of VDict ms \<Rightarrow> Inr ms | _ \<Rightarrow> Inl (attribute_error ''items''))"

text \<open>\<open>key in v\<close>\<close>

definition is_dict :: "pyval \<Rightarrow> bool" where
  "is_dict v = (case v of VDict _ \<Rightarrow> True | _ \<Rightarrow> False)"

definition py_in :: "string \<Rightarrow> pyval \<Rightarrow> bool outcome" where
  "py_in key v = (case v of
     VDict ms \<Rightarrow> Inr (dict_mem key ms)
   | VStr s \<Rightarrow> Inr (infix_of key s)
   | VList vs \<Rightarrow> Inr (VStr key \<in> set vs)
   | _ \<Rightarrow> Inl (PyException ''TypeError'' ''argument is not iterable''))"

text \<open>\<open>for x in v\<close> and \<open>v[0]\<close>, of a decoded value.\<close>

definition elements_of :: "pyval \<Rightarrow> pyval list outcome" where
  "elements_of v = (case v of
     VList vs \<Rightarrow> Inr vs
   | VDict ms \<Rightarrow> Inr (map (VStr \<circ> fst) ms)
   | VStr s \<Rightarrow> Inr (map (\<lambda>c. VStr [c]) s)
   | _ \<Rightarrow> Inl (PyException ''TypeError'' ''object is not iterable''))"

definition first_of :: "pyval \<Rightarrow> pyval outcome" where
  "first_of v = (case v of
     VList (x # _) \<Rightarrow> Inr x
   | VList [] \<Rightarrow> Inl (PyException ''IndexError'' ''list index out of range'')
   | VStr (c # _) \<Rightarrow> Inr (VStr [c])
   | VStr [] \<Rightarrow> Inl (PyException ''IndexError'' ''string index out of range'')
   | VDict _ \<Rightarrow> Inl (PyException ''KeyError'' ''0'')
   | _ \<Rightarrow> Inl (PyException ''TypeError'' ''object is not subscriptable''))"

fun each :: "('a \<Rightarrow> 'b outcome) \<Rightarrow> 'a list \<Rightarrow> 'b list outcome" where
  "each f [] = Inr []"
| "each f (x # xs) = and_then (f x) (\<lambda>y. and_then (each f xs) (\<lambda>ys. Inr (y # ys)))"

section \<open>Numbers\<close>

text \<open>The value of a float text, \<open>None\<close> for \<open>NaN\<close> and the infinities.\<close>

definition ten_to :: "int \<Rightarrow> rat" where
  "ten_to e = (if 0 \<le> e then 10 ^ nat e else 1 / 10 ^ nat (- e))"

definition exponent_of :: "string \<Rightarrow> int" where
  "exponent_of t = (case t of
     _ # CHR ''+'' # ds \<Rightarrow> int (digits_val ds)
   | _ # CHR ''-'' # ds \<Rightarrow> - int (digits_val ds)
   | _ # ds \<Rightarrow> int (digits_val ds)
   | [] \<Rightarrow> 0)"

definition decimal_value :: "string \<Rightarrow> rat" where
  "decimal_value t =
     (let m = takeWhile (\<lambda>c. c \<notin> set ''eE'') t;
          whole = takeWhile (\<lambda>c. c \<noteq> CHR ''.'') m;
          frac = drop (Suc (length whole)) m
      in of_nat (digits_val (whole @ frac)) *
           ten_to (exponent_of (drop (length m) t) - int (length frac)))"

definition double_limit :: rat where "double_limit = 2 ^ 1024"

definition float_value :: "string \<Rightarrow> rat option" where
  "float_value t =
     (let (neg, u) = (case t of c # u \<Rightarrow> if c = CHR ''-'' then (True, u) else (False, t) | [] \<Rightarrow> (False, t));
          v = decimal_value u
      in if u = ''Infinity'' \<or> u = ''NaN'' \<or> double_limit \<le> v then None
         else Some (if neg then - v else v))"

lemma digits_no_mark: "is_digit c \<Longrightarrow> c \<notin> set ''eE.-''"
  by (auto simp: is_digit_def Let_def)

lemma whole_value:
  assumes "\<forall>c \<in> set ds. is_digit c"
  shows "decimal_value (ds @ ''.0'') = of_nat (digits_val ds)"
proof -
  have e: "takeWhile (\<lambda>c. c \<notin> set ''eE'') (ds @ ''.0'') = ds @ ''.0''"
    using assms digits_no_mark by (auto simp: takeWhile_eq_all_conv)
  have w: "takeWhile (\<lambda>c. c \<noteq> CHR ''.'') (ds @ ''.0'') = ds"
    using assms digits_no_mark by (subst takeWhile_append2) auto
  have "digits_val (ds @ ''0'') = 10 * digits_val ds" by (simp add: digits_val_def digit_val_def)
  then show ?thesis
    unfolding decimal_value_def e Let_def w by (simp add: exponent_of_def ten_to_def)
qed

text \<open>The text \<open>float(i)\<close> prints for a natural number in range denotes it.\<close>

lemma float_value_nat:
  assumes "of_nat n < double_limit"
  shows "float_value (nat_text n @ ''.0'') = Some (of_nat n)"
proof -
  obtain c t where t: "nat_text n = c # t" by (cases "nat_text n") simp_all
  have "is_digit c" using nat_text_digits [of n] by (simp add: t)
  then have "c \<noteq> CHR ''-''" "c # t @ ''.0'' \<noteq> ''Infinity''" "c # t @ ''.0'' \<noteq> ''NaN''" by (auto simp: is_digit_def)
  moreover have "digits_val (c # t) = n" using digits_val_nat_text [of n] by (simp add: t)
  ultimately show ?thesis
    using whole_value [OF nat_text_digits, of n] assms by (simp add: float_value_def t Let_def)
qed

definition number_of :: "pyval \<Rightarrow> rat option" where
  "number_of v = (case v of
     VBool b \<Rightarrow> Some (if b then 1 else 0)
   | VInt i \<Rightarrow> Some (of_int i)
   | VFloat t \<Rightarrow> float_value t
   | _ \<Rightarrow> None)"

section \<open>Equality and order\<close>

lemma zip_element_size [termination_simp]:
  "(x, y) \<in> set (zip xs ys) \<Longrightarrow> size (x :: pyval) < Suc (size_list size xs)"
  by (rule pyval_element_size) (rule set_zip_leftD)

text \<open>\<open>a == b\<close>: numbers by value, lists by elements, objects by members in any order.\<close>

fun py_eq :: "pyval \<Rightarrow> pyval \<Rightarrow> bool" where
  "py_eq (VList xs) b = (case b of
     VList ys \<Rightarrow> length xs = length ys \<and> list_all (\<lambda>(x, y). py_eq x y) (zip xs ys)
   | _ \<Rightarrow> False)"
| "py_eq (VDict ms) b = (case b of
     VDict ns \<Rightarrow> length ms = length ns \<and>
       list_all (\<lambda>(k, x). case dict_get ns k of None \<Rightarrow> False | Some y \<Rightarrow> py_eq x y) ms
   | _ \<Rightarrow> False)"
| "py_eq a b = (case (number_of a, number_of b) of
     (Some x, Some y) \<Rightarrow> x = y
   | _ \<Rightarrow> a = b)"

text \<open>\<open>a < b\<close>\<close>

fun first_difference :: "pyval list \<Rightarrow> pyval list \<Rightarrow> (pyval \<times> pyval) option" where
  "first_difference (x # xs) (y # ys) = (if py_eq x y then first_difference xs ys else Some (x, y))"
| "first_difference _ _ = None"

lemma first_difference_smaller [termination_simp]:
  "first_difference xs ys = Some (x, y) \<Longrightarrow> size x < Suc (size_list size xs)"
  by (induction xs ys rule: first_difference.induct) (auto split: if_splits)

fun py_less :: "pyval \<Rightarrow> pyval \<Rightarrow> bool outcome" where
  "py_less (VStr s) b = (case b of
     VStr t \<Rightarrow> Inr (s < t)
   | _ \<Rightarrow> Inl (PyException ''TypeError'' ''not supported between instances''))"
| "py_less (VList xs) b = (case b of
     VList ys \<Rightarrow> (case first_difference xs ys of
       None \<Rightarrow> Inr (length xs < length ys)
     | Some (x, y) \<Rightarrow> py_less x y)
   | _ \<Rightarrow> Inl (PyException ''TypeError'' ''not supported between instances''))"
| "py_less a b = (case (number_of a, number_of b) of
     (Some x, Some y) \<Rightarrow> Inr (x < y)
   | _ \<Rightarrow> Inl (PyException ''TypeError'' ''not supported between instances''))"

text \<open>\<open>min(a, b)\<close> and \<open>max(a, b)\<close>: the second only if it is strictly smaller or greater.\<close>

definition py_min :: "pyval \<Rightarrow> pyval \<Rightarrow> pyval outcome" where
  "py_min a b = and_then (py_less b a) (\<lambda>l. Inr (if l then b else a))"

definition py_max :: "pyval \<Rightarrow> pyval \<Rightarrow> pyval outcome" where
  "py_max a b = and_then (py_less a b) (\<lambda>l. Inr (if l then b else a))"

section \<open>Integers\<close>

definition is_space :: "char \<Rightarrow> bool" where
  "is_space c = (let n = of_char c :: nat in (9 \<le> n \<and> n \<le> 13) \<or> (28 \<le> n \<and> n \<le> 32) \<or> n = 133 \<or> n = 160)"

definition py_strip :: "string \<Rightarrow> string" where
  "py_strip s = rev (dropWhile is_space (rev (dropWhile is_space s)))"

text \<open>Digits with single underscores between them.\<close>

fun digit_groups :: "string \<Rightarrow> string option" where
  "digit_groups [] = None"
| "digit_groups [c] = (if is_digit c then Some [c] else None)"
| "digit_groups (c # d # s) =
     (if \<not> is_digit c then None
      else map_option ((#) c) (if d = CHR ''_'' then digit_groups s else digit_groups (d # s)))"

text \<open>\<open>int(s)\<close> of a string; \<open>None\<close> is the \<open>ValueError\<close>, raised also past 4300 digits.\<close>

definition int_of_str :: "string \<Rightarrow> int option" where
  "int_of_str s =
     (let t = py_strip s;
          (neg, u) = (case t of c # w \<Rightarrow> if c = CHR ''-'' then (True, w) else if c = CHR ''+'' then (False, w)
                        else (False, t) | [] \<Rightarrow> (False, t))
      in case digit_groups u of
           None \<Rightarrow> None
         | Some ds \<Rightarrow> if 4300 < length ds then None
             else Some (if neg then - int (digits_val ds) else int (digits_val ds)))"

definition truncate_rat :: "rat \<Rightarrow> int" where
  "truncate_rat x = (if x < 0 then - \<lfloor>- x\<rfloor> else \<lfloor>x\<rfloor>)"

text \<open>\<open>xs[-n:]\<close>\<close>

definition last_n :: "nat \<Rightarrow> 'a list \<Rightarrow> 'a list" where
  "last_n n xs = drop (length xs - n) xs"

lemma length_last_n [simp]: "length (last_n n xs) = min n (length xs)"
  by (simp add: last_n_def)

end
