(* ===== verification/AwsEvents.thy ===== *)
theory AwsEvents
  imports Consumers HttpClient Dynamic
begin

text \<open>
  \<open>benzene.aws.events\<close>: classifying a Lambda event by its shape and mapping its records to
  envelopes. An event is a decoded JSON value; reading a member of something that is not an object
  raises. Decoding base64 octets to text is the argument \<open>b64\<close>.
\<close>

section \<open>Classification\<close>

definition is_api_gateway :: "pydict \<Rightarrow> bool outcome" where
  "is_api_gateway event =
     (if dict_mem ''httpMethod'' event then Inr True
      else py_in ''http'' (v_or (vget event ''requestContext'') (VDict [])))"

definition records_source :: "pyval \<Rightarrow> string option outcome" where
  "records_source records = and_then (first_of records) (\<lambda>first.
     and_then (get_or first ''eventSource'' VNone) (\<lambda>source.
       if source = VStr ''aws:sqs'' then Inr (Some ''sqs'')
       else if source = VStr ''aws:s3'' then Inr (Some ''s3'')
       else if source = VStr ''aws:dynamodb'' then Inr (Some ''dynamodb'')
       else if source = VStr ''aws:kinesis'' then Inr (Some ''kinesis'')
       else and_then (get_or first ''EventSource'' VNone) (\<lambda>upper.
         if upper = VStr ''aws:sns'' then Inr (Some ''sns'')
         else and_then (py_in ''Sns'' first) (\<lambda>sns. Inr (if sns then Some ''sns'' else None)))))"

definition event_source :: "pydict \<Rightarrow> string option outcome" where
  "event_source event = and_then (is_api_gateway event) (\<lambda>gateway.
     if gateway then Inr (Some ''apigateway'')
     else if dict_mem ''detail-type'' event then Inr (Some ''eventbridge'')
     else if vget event ''eventSource'' = VStr ''aws:kafka'' \<or> is_dict (vget event ''records'')
       then Inr (Some ''kafka'')
     else and_then (if truthy (vget event ''Records'') then records_source (vget event ''Records'') else Inr None)
       (\<lambda>found. Inr (if found \<noteq> None then found
          else if dict_mem ''topic'' event then Some ''invoke'' else None)))"

section \<open>Decoders\<close>

definition DEFAULT_S3_TOPIC :: string where "DEFAULT_S3_TOPIC = ''s3:object-created''"
definition DEFAULT_KINESIS_TOPIC :: string where "DEFAULT_KINESIS_TOPIC = ''kinesis:record''"
definition DEFAULT_EVENTBRIDGE_TOPIC :: string where "DEFAULT_EVENTBRIDGE_TOPIC = ''eventbridge:event''"

text \<open>\<open>{k: v.get(member, "") for k, v in attributes.items()}\<close>\<close>

definition attribute_values :: "string \<Rightarrow> pyval \<Rightarrow> (pyval \<times> pyval) list outcome" where
  "attribute_values member attributes = and_then (items_of attributes)
     (each (\<lambda>(k, v). and_then (get_or v member (VStr [])) (\<lambda>x. Inr (VStr k, x))))"

definition with_metadata :: "metadata_keys \<Rightarrow> (pyval \<times> pyval) list \<Rightarrow> pyval \<Rightarrow> pydict" where
  "with_metadata keys metadata body =
     (let (topic, headers) = read_message_metadata (Some metadata) keys in envelope_of topic headers body)"

definition sqs_record_envelope :: "metadata_keys \<Rightarrow> pyval \<Rightarrow> pydict outcome" where
  "sqs_record_envelope keys record = and_then (get_or record ''messageAttributes'' VNone) (\<lambda>raw.
     and_then (attribute_values ''stringValue'' (v_or raw (VDict []))) (\<lambda>metadata.
     and_then (get_or record ''body'' VNone) (\<lambda>body.
       Inr (with_metadata keys metadata (v_or body (VStr []))))))"

definition sns_record_envelope :: "metadata_keys \<Rightarrow> pyval \<Rightarrow> pydict outcome" where
  "sns_record_envelope keys record = and_then (get_or record ''Sns'' VNone) (\<lambda>raw.
     let sns = v_or raw (VDict [])
     in and_then (get_or sns ''MessageAttributes'' VNone) (\<lambda>attributes.
        and_then (attribute_values ''Value'' (v_or attributes (VDict []))) (\<lambda>metadata.
        and_then (get_or sns ''Message'' VNone) (\<lambda>body.
          Inr (with_metadata keys metadata (v_or body (VStr [])))))))"

definition body_envelope :: "string \<Rightarrow> pydict \<Rightarrow> string \<Rightarrow> pydict" where
  "body_envelope topic headers body = [(''topic'', VStr topic), (''headers'', VDict headers), (''body'', VStr body)]"

definition s3_record_envelope :: "string \<Rightarrow> pyval \<Rightarrow> pydict outcome" where
  "s3_record_envelope topic record = and_then (get_or record ''s3'' VNone) (\<lambda>raw.
     let s3 = v_or raw (VDict [])
     in and_then (get_or s3 ''bucket'' VNone) (\<lambda>b. and_then (get_or (v_or b (VDict [])) ''name'' (VStr [])) (\<lambda>bucket.
        and_then (get_or s3 ''object'' VNone) (\<lambda>ob. and_then (get_or (v_or ob (VDict [])) ''key'' (VStr [])) (\<lambda>key.
        and_then (get_or record ''eventName'' (VStr [])) (\<lambda>name.
        and_then (encode_body (VDict [(''bucket'', bucket), (''key'', key), (''eventName'', name)])) (\<lambda>body.
          Inr (body_envelope topic [] body))))))))"

definition eventbridge_headers :: "metadata_keys \<Rightarrow> pydict \<Rightarrow> pydict" where
  "eventbridge_headers keys event =
     (let native = concat (map (\<lambda>(key, v). if truthy v then [(key, VStr (str_val v))] else [])
            [(''eventbridge-id'', vget event ''id''), (''eventbridge-source'', vget event ''source''),
             (''eventbridge-account'', vget event ''account''), (''eventbridge-region'', vget event ''region''),
             (''eventbridge-time'', vget event ''time''), (''eventbridge-detail-type'', vget event ''detail-type'')]);
          embedded = (case vget event ''detail'' of
            VDict detail \<Rightarrow> (case vget detail (mk_headers keys) of
              VDict hs \<Rightarrow> filter (\<lambda>(k, v). case v of VStr _ \<Rightarrow> True | _ \<Rightarrow> False) hs
            | _ \<Rightarrow> [])
          | _ \<Rightarrow> [])
      in dict_update native embedded)"

definition eventbridge_envelope :: "metadata_keys \<Rightarrow> string \<Rightarrow> pydict \<Rightarrow> pydict outcome" where
  "eventbridge_envelope keys default_topic event =
     (let detail = vget event ''detail'';
          topic = v_or (vget event ''detail-type'') (VStr default_topic)
      in and_then (case detail of
            VStr s \<Rightarrow> Inr s
          | VNone \<Rightarrow> encode_body (VDict [])
          | _ \<Rightarrow> encode_body detail) (\<lambda>body.
         Inr [(''topic'', topic), (''headers'', VDict (eventbridge_headers keys event)), (''body'', VStr body)]))"

text \<open>\<open>split(sep, n)\<close>: at the first \<open>n\<close> separators.\<close>

fun split_at_most :: "char \<Rightarrow> nat \<Rightarrow> string \<Rightarrow> string list" where
  "split_at_most c 0 s = [s]"
| "split_at_most c (Suc n) s =
     (let part = takeWhile (\<lambda>x. x \<noteq> c) s
      in if length part = length s then [s] else part # split_at_most c n (drop (Suc (length part)) s))"

definition dynamodb_table_name :: "string \<Rightarrow> string" where
  "dynamodb_table_name arn =
     (let parts = split_at_most (CHR '':'') 5 arn
      in if length parts < 6 then []
         else (let resource = py_split (CHR ''/'') (parts ! 5)
               in if length resource < 2 \<or> resource ! 0 \<noteq> ''table'' then [] else resource ! 1))"

text \<open>The ARN of a record is a string when it is present.\<close>

definition arn_of :: "pyval \<Rightarrow> string outcome" where
  "arn_of v = (case v_or v (VStr []) of VStr s \<Rightarrow> Inr s | _ \<Rightarrow> Inl (attribute_error ''split''))"

definition dynamodb_record_envelope :: "string option \<Rightarrow> pyval \<Rightarrow> pydict outcome" where
  "dynamodb_record_envelope topic record =
     and_then (case topic of
         Some t \<Rightarrow> Inr t
       | None \<Rightarrow> and_then (get_or record ''eventName'' (VStr [])) (\<lambda>name.
           and_then (get_or record ''eventSourceARN'' VNone) (\<lambda>arn. and_then (arn_of arn) (\<lambda>a.
             let table = dynamodb_table_name a
             in Inr (if table \<noteq> [] then table @ '':'' @ str_val name else str_val name))))) (\<lambda>t.
     and_then (get_or record ''dynamodb'' VNone) (\<lambda>d.
     and_then (encode_body (v_or d (VDict []))) (\<lambda>body. Inr (body_envelope t [] body))))"

definition kinesis_record_envelope :: "(pyval \<Rightarrow> string outcome) \<Rightarrow> string \<Rightarrow> pyval \<Rightarrow> pydict outcome" where
  "kinesis_record_envelope b64 topic record = and_then (get_or record ''kinesis'' VNone) (\<lambda>k.
     and_then (get_or (v_or k (VDict [])) ''data'' VNone) (\<lambda>data.
     and_then (if truthy data then b64 data else Inr []) (\<lambda>body. Inr (body_envelope topic [] body))))"

text \<open>\<open>str(v)\<close> of a header value; byte arrays are read as UTF-8 by \<open>octets\<close>.\<close>

definition decode_kafka_header :: "(pyval list \<Rightarrow> string outcome) \<Rightarrow> string \<times> pyval \<Rightarrow> (pyval \<times> pyval) outcome" where
  "decode_kafka_header octets kv = (case snd kv of
     VList bs \<Rightarrow> and_then (octets bs) (\<lambda>s. Inr (VStr (fst kv), VStr s))
   | VNone \<Rightarrow> Inr (VStr (fst kv), VStr [])
   | v \<Rightarrow> Inr (VStr (fst kv), VStr (str_val v)))"

definition kafka_record_envelope ::
  "(pyval \<Rightarrow> string outcome) \<Rightarrow> (pyval list \<Rightarrow> string outcome) \<Rightarrow> metadata_keys \<Rightarrow> pyval \<Rightarrow> pydict outcome" where
  "kafka_record_envelope b64 octets keys record = and_then (get_or record ''headers'' VNone) (\<lambda>raw.
     and_then (elements_of (v_or raw (VList []))) (\<lambda>hs.
     and_then (each items_of hs) (\<lambda>items.
     and_then (each (decode_kafka_header octets) (concat items)) (\<lambda>pairs.
       let (topic, headers) = read_message_metadata (Some (dict_of pairs)) keys
       in and_then (get_or record ''topic'' (VStr [])) (\<lambda>t.
          and_then (get_or record ''value'' VNone) (\<lambda>v.
          and_then (if truthy v then b64 v else Inr []) (\<lambda>body.
            Inr (envelope_of (if topic = [] then str_val t else topic) headers (VStr body)))))))))"

text \<open>\<open>flat.extend(group or [])\<close> over the groups of topic-partitions.\<close>

definition kafka_records :: "pydict \<Rightarrow> pyval list outcome" where
  "kafka_records event = and_then (items_of (v_or (vget event ''records'') (VDict []))) (\<lambda>groups.
     and_then (each (\<lambda>(_, g). elements_of (v_or g (VList []))) groups) (\<lambda>gs. Inr (concat gs)))"

definition invoke_envelope :: "pydict \<Rightarrow> pydict" where
  "invoke_envelope event = [(''topic'', v_or (vget event ''topic'') (VStr [])),
     (''headers'', v_or (vget event ''headers'') (VDict [])), (''body'', v_or (vget event ''body'') (VStr []))]"

end
