(* ===== verification/AwsLambda.thy ===== *)
theory AwsLambda
  imports AwsEvents
begin

text \<open>
  \<open>benzene.aws.app\<close>: one Lambda function behind every event source. Each source settles in its own
  way: SQS, DynamoDB streams and Kinesis report the failed records, the others fail the
  invocation, and API Gateway and a direct invoke respond.
\<close>

section \<open>The host\<close>

record 'w lambda_app =
  la_application :: "'w application"
  la_settlement :: settlement
  la_event_invocation :: bool
  la_s3_topic :: string
  la_eventbridge_topic :: string
  la_kinesis_topic :: string
  la_dynamodb_topic :: "string option"
  la_http_app :: "'w http_app option"

text \<open>
  \<open>AwsLambdaApp.__init__\<close>; the topics are given, and \<open>invocation_type\<close> is its text.
\<close>

definition new_lambda_app ::
  "classes \<Rightarrow> 'w handler http_router option \<Rightarrow> 'w handler registry option \<Rightarrow> 'w application option \<Rightarrow>
   'w standard_paths option \<Rightarrow> string \<Rightarrow> string \<Rightarrow> string \<Rightarrow> string option \<Rightarrow> settlement \<Rightarrow> string \<Rightarrow>
   'w lambda_app outcome" where
  "new_lambda_app ct router reg app std s3 eventbridge kinesis dynamodb st invocation_type =
     and_then (case app of
         Some a \<Rightarrow> Inr a
       | None \<Rightarrow> and_then (case reg of
             Some r \<Rightarrow> Inr r
           | None \<Rightarrow> (case router of None \<Rightarrow> Inr [] | Some rt \<Rightarrow> from_definitions [router_definitions rt]))
           (\<lambda>r. new_application ct r None None None None)) (\<lambda>a.
     if invocation_type \<notin> {''RequestResponse'', ''Event''} then
       Inl (PyException ''ValueError'' (''invocation_type='' @ repr_str invocation_type
         @ '': a direct invoke is '' @ repr_str ''RequestResponse'' @ '' (the caller waits for the envelope) or ''
         @ repr_str ''Event'' @ '' (asynchronous - a failure raises so Lambda retries it)''))
     else
       Inr \<lparr>la_application = a, la_settlement = st, la_event_invocation = (invocation_type = ''Event''),
            la_s3_topic = s3, la_eventbridge_topic = eventbridge, la_kinesis_topic = kinesis,
            la_dynamodb_topic = dynamodb,
            la_http_app = map_option (\<lambda>rt. \<lparr>ha_router = rt, ha_application = a, ha_standard = std\<rparr>) router\<rparr>)"

section \<open>Settling records\<close>

text \<open>
  The loop of the sources with a partial-batch response: every record is dispatched, and the
  identifiers of those not acknowledged are collected.
\<close>

fun batch_failures ::
  "'w application \<Rightarrow> settlement \<Rightarrow> (pyval \<Rightarrow> pydict outcome) \<Rightarrow> (pyval \<Rightarrow> pyval outcome) \<Rightarrow> pyval list \<Rightarrow>
   ('w, pyval list) action" where
  "batch_failures app st decode ident [] w = (Inr [], w)"
| "batch_failures app st decode ident (r # rs) w = (case dispatch_one_way app st (decode r) w of
     (Inl e, w') \<Rightarrow> (Inl e, w')
   | (Inr ow, w') \<Rightarrow>
       (case (if ow_acknowledge ow then Inr [] else and_then (ident r) (\<lambda>i. Inr [VDict [(''itemIdentifier'', i)]])) of
          Inl e \<Rightarrow> (Inl e, w')
        | Inr fs \<Rightarrow>
            (case batch_failures app st decode ident rs w' of
               (Inl e, w'') \<Rightarrow> (Inl e, w'')
             | (Inr gs, w'') \<Rightarrow> (Inr (fs @ gs), w''))))"

definition partial_batch ::
  "'w application \<Rightarrow> settlement \<Rightarrow> (pyval \<Rightarrow> pydict outcome) \<Rightarrow> (pyval \<Rightarrow> pyval outcome) \<Rightarrow> pyval list outcome \<Rightarrow>
   ('w, pyval) action" where
  "partial_batch app st decode ident records = (\<lambda>w. case records of
     Inl e \<Rightarrow> (Inl e, w)
   | Inr rs \<Rightarrow> (case batch_failures app st decode ident rs w of
       (Inl e, w') \<Rightarrow> (Inl e, w')
     | (Inr fs, w') \<Rightarrow> (Inr (VDict [(''batchItemFailures'', VList fs)]), w')))"

definition settle_or_raise ::
  "'w application \<Rightarrow> settlement \<Rightarrow> pydict outcome \<Rightarrow> ('w, response option) action" where
  "settle_or_raise app st decoded = (\<lambda>w. case dispatch_one_way app st decoded w of
     (Inl e, w') \<Rightarrow> (Inl e, w')
   | (Inr ow, w') \<Rightarrow>
       if ow_acknowledge ow then (Inr (ow_response ow), w')
       else (Inl (message_handling_error (ow_topic ow) (res_status (ow_result ow)) (one_way_detail ow)), w'))"

fun settle_each ::
  "'w application \<Rightarrow> settlement \<Rightarrow> ('m \<Rightarrow> pydict outcome) \<Rightarrow> 'm list \<Rightarrow> ('w, unit) action" where
  "settle_each app st decode [] w = (Inr (), w)"
| "settle_each app st decode (r # rs) w = (case settle_or_raise app st (decode r) w of
     (Inl e, w') \<Rightarrow> (Inl e, w')
   | (Inr _, w') \<Rightarrow> settle_each app st decode rs w')"

definition settle_records ::
  "'w application \<Rightarrow> settlement \<Rightarrow> (pyval \<Rightarrow> pydict outcome) \<Rightarrow> pyval list outcome \<Rightarrow> ('w, pyval) action" where
  "settle_records app st decode records = (\<lambda>w. case records of
     Inl e \<Rightarrow> (Inl e, w)
   | Inr rs \<Rightarrow> (case settle_each app st decode rs w of
       (Inl e, w') \<Rightarrow> (Inl e, w') | (Inr _, w') \<Rightarrow> (Inr VNone, w')))"

section \<open>The sources\<close>

text \<open>\<open>event.get("Records", [])\<close>, iterated.\<close>

definition event_records :: "pydict \<Rightarrow> pyval list outcome" where
  "event_records event = elements_of (case dict_get event ''Records'' of None \<Rightarrow> VList [] | Some v \<Rightarrow> v)"

definition la_keys :: "'w lambda_app \<Rightarrow> metadata_keys" where
  "la_keys la = app_metadata_keys (la_application la)"

definition handle_sqs :: "'w lambda_app \<Rightarrow> pydict \<Rightarrow> ('w, pyval) action" where
  "handle_sqs la event = partial_batch (la_application la) (la_settlement la) (sqs_record_envelope (la_keys la))
     (\<lambda>r. get_or r ''messageId'' (VStr [])) (event_records event)"

definition sequence_number :: "string \<Rightarrow> string \<Rightarrow> pyval \<Rightarrow> pyval outcome" where
  "sequence_number section key record = and_then (get_or record section VNone)
     (\<lambda>d. get_or (v_or d (VDict [])) key (VStr []))"

definition handle_dynamodb :: "'w lambda_app \<Rightarrow> pydict \<Rightarrow> ('w, pyval) action" where
  "handle_dynamodb la event = partial_batch (la_application la) (la_settlement la)
     (dynamodb_record_envelope (la_dynamodb_topic la)) (sequence_number ''dynamodb'' ''SequenceNumber'')
     (event_records event)"

definition handle_kinesis :: "(pyval \<Rightarrow> string outcome) \<Rightarrow> 'w lambda_app \<Rightarrow> pydict \<Rightarrow> ('w, pyval) action" where
  "handle_kinesis b64 la event = partial_batch (la_application la) (la_settlement la)
     (kinesis_record_envelope b64 (la_kinesis_topic la)) (sequence_number ''kinesis'' ''sequenceNumber'')
     (event_records event)"

definition handle_sns :: "'w lambda_app \<Rightarrow> pydict \<Rightarrow> ('w, pyval) action" where
  "handle_sns la event = settle_records (la_application la) (la_settlement la)
     (sns_record_envelope (la_keys la)) (event_records event)"

definition handle_s3 :: "'w lambda_app \<Rightarrow> pydict \<Rightarrow> ('w, pyval) action" where
  "handle_s3 la event = settle_records (la_application la) (la_settlement la)
     (s3_record_envelope (la_s3_topic la)) (event_records event)"

definition handle_eventbridge :: "'w lambda_app \<Rightarrow> pydict \<Rightarrow> ('w, pyval) action" where
  "handle_eventbridge la event = settle_records (la_application la) (la_settlement la)
     (\<lambda>_. eventbridge_envelope (la_keys la) (la_eventbridge_topic la) event) (Inr [VDict event])"

definition handle_kafka ::
  "(pyval \<Rightarrow> string outcome) \<Rightarrow> (pyval list \<Rightarrow> string outcome) \<Rightarrow> 'w lambda_app \<Rightarrow> pydict \<Rightarrow> ('w, pyval) action" where
  "handle_kafka b64 octets la event = settle_records (la_application la) (la_settlement la)
     (kafka_record_envelope b64 octets (la_keys la)) (kafka_records event)"

definition handle_direct :: "'w lambda_app \<Rightarrow> pydict \<Rightarrow> ('w, pyval) action" where
  "handle_direct la event = (\<lambda>w.
     if la_event_invocation la then
       (case settle_or_raise (la_application la) (la_settlement la) (Inr (invoke_envelope event)) w of
          (Inl e, w') \<Rightarrow> (Inl e, w')
        | (Inr None, w') \<Rightarrow> (Inr (VDict []), w')
        | (Inr (Some rsp), w') \<Rightarrow> (Inr (VDict (envelope_dict rsp)), w'))
     else (case app_handle (la_application la) (invoke_envelope event) False w of
          (Inl e, w') \<Rightarrow> (Inl e, w')
        | (Inr rsp, w') \<Rightarrow> (Inr (VDict (envelope_dict rsp)), w')))"

text \<open>
  \<open>_handle_api_gateway\<close>; extracting the request from the proxy event (\<open>api_gateway_request\<close>) is the
  argument \<open>request\<close>.
\<close>

definition handle_api_gateway ::
  "(pydict \<Rightarrow> (string \<times> string \<times> string \<times> pydict \<times> string) outcome) \<Rightarrow> 'w lambda_app \<Rightarrow> pydict \<Rightarrow> ('w, pyval) action" where
  "handle_api_gateway request la event = (\<lambda>w. case la_http_app la of
     None \<Rightarrow> (Inr (VDict [(''statusCode'', VInt 501), (''headers'', VDict json_headers),
                 (''body'', VStr ''{\"status\": \"not-implemented\"}'')]), w)
   | Some ha \<Rightarrow>
       (case request event of
          Inl e \<Rightarrow> (Inl e, w)
        | Inr (method, path, query, headers, body) \<Rightarrow>
            (case http_handle ha method path query headers body w of
               (Inl e, w') \<Rightarrow> (Inl e, w')
             | (Inr rsp, w') \<Rightarrow> (Inr (VDict [(''statusCode'', VInt (hrsp_status rsp)),
                   (''headers'', VDict (hrsp_headers rsp)), (''body'', VStr (hrsp_body rsp))]), w'))))"

definition lambda_handle ::
  "(pyval \<Rightarrow> string outcome) \<Rightarrow> (pyval list \<Rightarrow> string outcome) \<Rightarrow>
   (pydict \<Rightarrow> (string \<times> string \<times> string \<times> pydict \<times> string) outcome) \<Rightarrow> 'w lambda_app \<Rightarrow> pydict \<Rightarrow> ('w, pyval) action" where
  "lambda_handle b64 octets request la event = (case event_source event of
     Inl e \<Rightarrow> act_raise e
   | Inr source \<Rightarrow>
       if source = Some ''apigateway'' then handle_api_gateway request la event
       else if source = Some ''sqs'' then handle_sqs la event
       else if source = Some ''dynamodb'' then handle_dynamodb la event
       else if source = Some ''kinesis'' then handle_kinesis b64 la event
       else if source = Some ''sns'' then handle_sns la event
       else if source = Some ''s3'' then handle_s3 la event
       else if source = Some ''eventbridge'' then handle_eventbridge la event
       else if source = Some ''kafka'' then handle_kafka b64 octets la event
       else if source = Some ''invoke'' then handle_direct la event
       else act_raise (PyException ''ValueError'' (''Unrecognised Lambda event: not API Gateway, SQS, SNS, S3, ''
         @ ''EventBridge, DynamoDB, Kinesis, Kafka, or a direct invoke (a bare {topic, headers, body} Payload)'')))"

section \<open>What a source reports\<close>

definition dispatched :: "'w application \<Rightarrow> settlement \<Rightarrow> ('m \<Rightarrow> pydict outcome) \<Rightarrow> 'm \<Rightarrow> one_way_outcome \<Rightarrow> bool" where
  "dispatched app st decode r ow \<longleftrightarrow> (\<exists>w1 w2. dispatch_one_way app st (decode r) w1 = (Inr ow, w2))"

definition unacknowledged :: "(pyval \<times> one_way_outcome) list \<Rightarrow> pyval list" where
  "unacknowledged rows = map fst (filter (Not \<circ> ow_acknowledge \<circ> snd) rows)"

lemma batch_failures_runs:
  "batch_failures app st decode ident rs w = (Inr fs, w') \<Longrightarrow> \<exists>ows ids. list_all2 (dispatched app st decode) rs ows \<and>
     each ident (unacknowledged (zip rs ows)) = Inr ids \<and> fs = map (\<lambda>i. VDict [(''itemIdentifier'', i)]) ids"
proof (induction rs arbitrary: w fs w')
  case (Cons r rs)
  from Cons.prems obtain ow w1 gs hs w2 where d: "dispatch_one_way app st (decode r) w = (Inr ow, w1)"
    and i: "(if ow_acknowledge ow then Inr [] else and_then (ident r) (\<lambda>i. Inr [VDict [(''itemIdentifier'', i)]])) = Inr gs"
    and b: "batch_failures app st decode ident rs w1 = (Inr hs, w2)" "fs = gs @ hs"
    by (auto split: prod.splits sum.splits)
  from Cons.IH [OF b(1)] obtain ows ids where o: "list_all2 (dispatched app st decode) rs ows"
    "each ident (unacknowledged (zip rs ows)) = Inr ids" "hs = map (\<lambda>i. VDict [(''itemIdentifier'', i)]) ids" by blast
  have "dispatched app st decode r ow" using d by (auto simp: dispatched_def)
  with o i b(2) show ?case
    by (cases "ow_acknowledge ow"; cases "ident r")
      (auto simp: unacknowledged_def intro!: exI [of _ "ow # ows"])
qed (auto simp: unacknowledged_def)

text \<open>A record not reported was answered by a response its sender calls successful.\<close>

lemma acknowledged_response:
  assumes "dispatched app st decode r ow" "ow_acknowledge ow" "\<not> st_at_most_once st"
  shows "\<exists>rsp. ow_response ow = Some rsp \<and> rsp_is_successful rsp = VBool True"
proof -
  obtain w1 w2 where d: "dispatch_one_way app st (decode r) w1 = (Inr ow, w2)"
    using assms(1) by (auto simp: dispatched_def)
  then obtain env where env: "decode r = Inr env"
    using assms(3) by (cases "decode r") (auto simp: dispatch_one_way_def)
  obtain x w3 where h: "app_handle app env (st_ignore_unmatched_topics st) w1 = (x, w3)" by fastforce
  with d env assms(2,3) obtain rsp where "x = Inr rsp" "ow_response ow = Some rsp"
    "result_is_successful (decode_response rsp)"
    by (cases x) (auto simp: dispatch_one_way_def acknowledges_def Let_def)
  then show ?thesis using decode_response_successful by (auto simp: successful_from_def)
qed

text \<open>
  C19. A Lambda behind SQS reports exactly the messages to redeliver: when the invocation returns,
  every record of the event was dispatched, \<open>batchItemFailures\<close> lists the \<open>messageId\<close> of each record
  not acknowledged, in order and nothing else, and by default every record not listed was answered
  by a successful response.
\<close>

theorem lambda_reports_failures:
  assumes event: "event_source event = Inr (Some ''sqs'')" "event_records event = Inr rs"
    and run: "lambda_handle b64 octets request la event w = (Inr v, w')"
  shows "\<exists>ows ids. list_all2 (dispatched (la_application la) (la_settlement la) (sqs_record_envelope (la_keys la))) rs ows \<and>
     v = VDict [(''batchItemFailures'', VList (map (\<lambda>i. VDict [(''itemIdentifier'', i)]) ids))] \<and>
     each (\<lambda>r. get_or r ''messageId'' (VStr [])) (unacknowledged (zip rs ows)) = Inr ids \<and>
     (\<not> st_at_most_once (la_settlement la) \<longrightarrow> (\<forall>ow \<in> set ows. ow_acknowledge ow \<longrightarrow>
        (\<exists>rsp. ow_response ow = Some rsp \<and> rsp_is_successful rsp = VBool True)))"
proof -
  let ?app = "la_application la" and ?st = "la_settlement la" and ?dec = "sqs_record_envelope (la_keys la)"
  have "partial_batch ?app ?st ?dec (\<lambda>r. get_or r ''messageId'' (VStr [])) (Inr rs) w = (Inr v, w')"
    using run event by (simp add: lambda_handle_def handle_sqs_def)
  then obtain fs where f: "batch_failures ?app ?st ?dec (\<lambda>r. get_or r ''messageId'' (VStr [])) rs w = (Inr fs, w')"
    "v = VDict [(''batchItemFailures'', VList fs)]"
    by (auto simp: partial_batch_def split: prod.splits sum.splits)
  from batch_failures_runs [OF f(1)] obtain ows ids where o: "list_all2 (dispatched ?app ?st ?dec) rs ows"
    "each (\<lambda>r. get_or r ''messageId'' (VStr [])) (unacknowledged (zip rs ows)) = Inr ids"
    "fs = map (\<lambda>i. VDict [(''itemIdentifier'', i)]) ids" by blast
  have "\<exists>r. dispatched ?app ?st ?dec r ow" if "ow \<in> set ows" for ow
    using o(1) that by (auto simp: list_all2_conv_all_nth in_set_conv_nth)
  then have "\<exists>rsp. ow_response ow = Some rsp \<and> rsp_is_successful rsp = VBool True"
    if "ow \<in> set ows" "ow_acknowledge ow" "\<not> st_at_most_once ?st" for ow
    using that acknowledged_response [of ?app ?st ?dec _ ow] by blast
  with f(2) o show ?thesis by (intro exI [of _ ows] exI [of _ ids]) simp
qed

text \<open>
  The sources without a partial-batch channel. \<open>acknowledged_run rs w w'\<close>: dispatching the records one after the
  other, each acknowledged, takes the world from \<open>w\<close> to \<open>w'\<close>. \<open>refused\<close>: one record that raised, or that was not
  acknowledged, with the error its invocation ends with.
\<close>

inductive acknowledged_run :: "'w application \<Rightarrow> settlement \<Rightarrow> ('m \<Rightarrow> pydict outcome) \<Rightarrow> 'm list \<Rightarrow> 'w \<Rightarrow> 'w \<Rightarrow> bool"
  for app st decode where
  no_record: "acknowledged_run app st decode [] w w"
| one_more: "\<lbrakk>dispatch_one_way app st (decode r) w = (Inr ow, w1); ow_acknowledge ow;
     acknowledged_run app st decode rs w1 w'\<rbrakk> \<Longrightarrow> acknowledged_run app st decode (r # rs) w w'"

inductive_simps acknowledged_run_simps [simp]:
  "acknowledged_run app st decode [] w w'" "acknowledged_run app st decode (r # rs) w w'"

definition refused :: "'w application \<Rightarrow> settlement \<Rightarrow> ('m \<Rightarrow> pydict outcome) \<Rightarrow> 'm \<Rightarrow> 'w \<Rightarrow> pyexn \<Rightarrow> 'w \<Rightarrow> bool" where
  "refused app st decode r w e w' \<longleftrightarrow> dispatch_one_way app st (decode r) w = (Inl e, w') \<or>
     (\<exists>ow. dispatch_one_way app st (decode r) w = (Inr ow, w') \<and> \<not> ow_acknowledge ow \<and>
        e = message_handling_error (ow_topic ow) (res_status (ow_result ow)) (one_way_detail ow))"

lemma settle_or_raise_Inl: "settle_or_raise app st (decode r) w = (Inl e, w') \<Longrightarrow> refused app st decode r w e w'"
  by (auto simp: settle_or_raise_def refused_def split: prod.splits sum.splits if_splits)

lemma settle_or_raise_Inr:
  "settle_or_raise app st (decode r) w = (Inr y, w') \<Longrightarrow>
     \<exists>ow. dispatch_one_way app st (decode r) w = (Inr ow, w') \<and> ow_acknowledge ow"
  by (auto simp: settle_or_raise_def split: prod.splits sum.splits if_splits)

text \<open>The loop ends at the first record refused, in the world that record left: nothing behind it has run.\<close>

lemma settle_each_runs:
  "settle_each app st decode rs w = (x, w') \<Longrightarrow>
     x = Inr () \<and> acknowledged_run app st decode rs w w' \<or>
     (\<exists>e ps r qs w1. x = Inl e \<and> rs = ps @ r # qs \<and> acknowledged_run app st decode ps w w1 \<and> refused app st decode r w1 e w')"
proof (induction rs arbitrary: w)
  case (Cons r rs)
  obtain y w1 where y: "settle_or_raise app st (decode r) w = (y, w1)" by fastforce
  show ?case
  proof (cases y)
    case (Inl e)
    with y Cons.prems settle_or_raise_Inl [of app st decode r w e w1] have "x = Inl e" "refused app st decode r w e w'" by auto
    then show ?thesis by (intro disjI2 exI [of _ e] exI [of _ "[]"] exI [of _ r] exI [of _ rs] exI [of _ w]) simp
  next
    case (Inr z)
    with y settle_or_raise_Inr [of app st decode r w z w1] obtain ow where
      ow: "dispatch_one_way app st (decode r) w = (Inr ow, w1)" "ow_acknowledge ow" by auto
    from Inr y Cons.prems have "settle_each app st decode rs w1 = (x, w')" by simp
    from Cons.IH [OF this] show ?thesis
    proof (elim disjE exE conjE)
      fix e ps r' qs w2
      assume "x = Inl e" "rs = ps @ r' # qs" "acknowledged_run app st decode ps w1 w2" "refused app st decode r' w2 e w'"
      with ow show ?thesis
        by (intro disjI2 exI [of _ e] exI [of _ "r # ps"] exI [of _ r'] exI [of _ qs] exI [of _ w2]) auto
    qed (use ow in auto)
  qed
qed simp

definition whole_event_decoder ::
  "(pyval \<Rightarrow> string outcome) \<Rightarrow> (pyval list \<Rightarrow> string outcome) \<Rightarrow> 'w lambda_app \<Rightarrow> string \<Rightarrow> pyval \<Rightarrow> pydict outcome" where
  "whole_event_decoder b64 octets la src =
     (if src = ''sns'' then sns_record_envelope (la_keys la)
      else if src = ''s3'' then s3_record_envelope (la_s3_topic la)
      else kafka_record_envelope b64 octets (la_keys la))"

text \<open>
  C20. A Lambda behind SNS, S3 or Kafka answers for the whole invocation. Either it returns, and then every
  record was dispatched, in order, and acknowledged; or it fails at the first record that was not, with
  that record's error: the records before it were dispatched and acknowledged, it raised or was not acknowledged,
  and the world is the one it left, so that no record behind it has run and the platform redelivers the event.
\<close>

theorem lambda_fails_whole_event:
  assumes "event_source event = Inr (Some src)" "src \<in> {''sns'', ''s3'', ''kafka''}"
    and "(src = ''kafka'' \<longrightarrow> kafka_records event = Inr rs) \<and> (src \<noteq> ''kafka'' \<longrightarrow> event_records event = Inr rs)"
    and "lambda_handle b64 octets request la event w = (x, w')"
    and "app = la_application la" "st = la_settlement la" "decode = whole_event_decoder b64 octets la src"
  shows "x = Inr VNone \<and> acknowledged_run app st decode rs w w' \<or>
    (\<exists>e ps r qs w1. x = Inl e \<and> rs = ps @ r # qs \<and> acknowledged_run app st decode ps w w1 \<and>
       (dispatch_one_way app st (decode r) w1 = (Inl e, w') \<or>
        (\<exists>ow. dispatch_one_way app st (decode r) w1 = (Inr ow, w') \<and> \<not> ow_acknowledge ow \<and>
           e = message_handling_error (ow_topic ow) (res_status (ow_result ow)) (one_way_detail ow))))"
proof -
  have "settle_records app st decode (Inr rs) w = (x, w')"
    using assms by (auto simp: lambda_handle_def handle_sns_def handle_s3_def handle_kafka_def whole_event_decoder_def)
  then obtain y where y: "settle_each app st decode rs w = (y, w')" "x = (case y of Inl e \<Rightarrow> Inl e | Inr _ \<Rightarrow> Inr VNone)"
    by (auto simp: settle_records_def split: prod.splits sum.splits)
  from settle_each_runs [OF y(1)] y(2) show ?thesis unfolding refused_def by (elim disjE exE conjE) auto
qed

definition plain_lambda :: "'w lambda_app" where
  "plain_lambda = \<lparr>la_application = plain_app, la_settlement = AT_LEAST_ONCE, la_event_invocation = False,
     la_s3_topic = DEFAULT_S3_TOPIC, la_eventbridge_topic = DEFAULT_EVENTBRIDGE_TOPIC,
     la_kinesis_topic = DEFAULT_KINESIS_TOPIC, la_dynamodb_topic = None, la_http_app = None\<rparr>"

definition sqs_event :: pydict where
  "sqs_event = [(''Records'', VList [VDict [(''eventSource'', VStr ''aws:sqs''), (''messageId'', VStr ''m1'')]])]"

lemma sqs_event_source: "event_source sqs_event = Inr (Some ''sqs'')"
  by (simp add: event_source_def is_api_gateway_def sqs_event_def py_in_def v_or_def records_source_def first_of_def
      get_or_def is_dict_def dict_mem_def)

lemma plain_topic_required:
  "\<exists>rsp. app_handle plain_app [(''topic'', VStr []), (''headers'', VDict []), (''body'', VStr [])] False w = (Inr rsp, w)"
proof -
  obtain rsp where "encode_response (Some (validation_error [ErrText ''Topic is required''])) = Inr rsp"
    using encode_total [of "Some (validation_error [ErrText ''Topic is required''])"] by auto
  then show ?thesis using plain_app_handle [of w] by simp
qed

lemma sqs_event_decoded:
  "sqs_record_envelope keys (VDict [(''eventSource'', VStr ''aws:sqs''), (''messageId'', VStr ''m1'')]) =
     Inr [(''topic'', VStr []), (''headers'', VDict []), (''body'', VStr [])]"
  by (simp add: sqs_record_envelope_def get_or_def attribute_values_def items_of_def v_or_def with_metadata_def
      read_message_metadata_def envelope_of_def dict_of_def)

lemma dispatch_answered:
  "app_handle app env (st_ignore_unmatched_topics st) w = (Inr rsp, w') \<Longrightarrow>
     \<exists>ow. dispatch_one_way app st (Inr env) w = (Inr ow, w')"
  by (simp add: dispatch_one_way_def Let_def)

lemma sqs_event_runs:
  fixes w :: 'w
  shows "\<exists>v. lambda_handle b64 octets request plain_lambda sqs_event w = (Inr v, w)"
proof -
  let ?rec = "VDict [(''eventSource'', VStr ''aws:sqs''), (''messageId'', VStr ''m1'')]"
  let ?keys = "app_metadata_keys (plain_app :: 'w application)"
  obtain rsp where "app_handle plain_app [(''topic'', VStr []), (''headers'', VDict []), (''body'', VStr [])] False w
      = (Inr rsp, w)" using plain_topic_required [of w] by (elim exE)
  then have "app_handle plain_app [(''topic'', VStr []), (''headers'', VDict []), (''body'', VStr [])]
      (st_ignore_unmatched_topics AT_LEAST_ONCE) w = (Inr rsp, w)" by (simp only: AT_LEAST_ONCE_def settlement.select_convs)
  from dispatch_answered [of plain_app _ AT_LEAST_ONCE, OF this] obtain ow where
    "dispatch_one_way plain_app AT_LEAST_ONCE (sqs_record_envelope ?keys ?rec) w = (Inr ow, w)"
    unfolding sqs_event_decoded by (elim exE)
  then have "\<exists>fs. batch_failures plain_app AT_LEAST_ONCE (sqs_record_envelope ?keys) (\<lambda>r. get_or r ''messageId'' (VStr [])) [?rec] w
      = (Inr fs, w)"
    by (cases "ow_acknowledge ow") (simp_all add: get_or_def)
  then obtain fs where "batch_failures plain_app AT_LEAST_ONCE (sqs_record_envelope ?keys) (\<lambda>r. get_or r ''messageId'' (VStr [])) [?rec] w
      = (Inr fs, w)" by (elim exE)
  moreover have "event_records sqs_event = Inr [?rec]" by (simp add: event_records_def sqs_event_def elements_of_def)
  ultimately show ?thesis
    by (simp add: lambda_handle_def sqs_event_source handle_sqs_def partial_batch_def plain_lambda_def la_keys_def
        del: batch_failures.simps)
qed

definition no_text :: "'a \<Rightarrow> string outcome" where
  "no_text v = Inr []"

definition no_request :: "pydict \<Rightarrow> (string \<times> string \<times> string \<times> pydict \<times> string) outcome" where
  "no_request event = Inr (''GET'', ''/'', [], [], [])"

theorem lambda_reports_failures_witness:
  "\<exists>v ows ids. lambda_handle no_text no_text no_request plain_lambda sqs_event () = (Inr v, ()) \<and>
     length (ows :: one_way_outcome list) = 1 \<and>
     v = VDict [(''batchItemFailures'', VList (map (\<lambda>i. VDict [(''itemIdentifier'', i)]) ids))]"
proof -
  let ?la = "plain_lambda :: unit lambda_app"
  obtain v where v: "lambda_handle no_text no_text no_request plain_lambda sqs_event () = (Inr v, ())"
    using sqs_event_runs [of no_text no_text no_request "()"] by (elim exE)
  have "event_records sqs_event = Inr [VDict [(''eventSource'', VStr ''aws:sqs''), (''messageId'', VStr ''m1'')]]"
    by (simp add: event_records_def sqs_event_def elements_of_def)
  from lambda_reports_failures [OF sqs_event_source this v] obtain ows ids where
    o: "list_all2 (dispatched (la_application ?la) (la_settlement ?la) (sqs_record_envelope (la_keys ?la)))
      [VDict [(''eventSource'', VStr ''aws:sqs''), (''messageId'', VStr ''m1'')]] ows"
    "v = VDict [(''batchItemFailures'', VList (map (\<lambda>i. VDict [(''itemIdentifier'', i)]) ids))]" by blast
  from list_all2_lengthD [OF o(1)] have "length ows = 1" by simp
  with v o(2) show ?thesis by blast
qed

definition sns_event :: pydict where
  "sns_event = [(''Records'', VList [VDict [(''Sns'', VDict [])]])]"

theorem lambda_fails_whole_event_witness:
  "\<exists>rec. event_records sns_event = Inr [rec] \<and>
     (\<exists>e w1. fst (lambda_handle no_text no_text no_request plain_lambda sns_event ()) = Inl e \<and>
        acknowledged_run plain_app AT_LEAST_ONCE (sns_record_envelope (la_keys (plain_lambda :: unit lambda_app))) [] () w1 \<or>
      acknowledged_run plain_app AT_LEAST_ONCE (sns_record_envelope (la_keys (plain_lambda :: unit lambda_app))) [rec] () w1)"
proof -
  let ?rec = "VDict [(''Sns'', VDict [])]"
  have src: "event_source sns_event = Inr (Some ''sns'')"
    by (simp add: event_source_def is_api_gateway_def sns_event_def py_in_def v_or_def records_source_def first_of_def
        get_or_def is_dict_def dict_mem_def)
  have er: "event_records sns_event = Inr [?rec]" by (simp add: event_records_def sns_event_def elements_of_def)
  then have rs: "(''sns'' = ''kafka'' \<longrightarrow> kafka_records sns_event = Inr [?rec]) \<and>
      (''sns'' \<noteq> ''kafka'' \<longrightarrow> event_records sns_event = Inr [?rec])" by simp
  define run where "run = lambda_handle no_text no_text no_request plain_lambda sns_event ()"
  have r: "lambda_handle no_text no_text no_request plain_lambda sns_event () = (fst run, snd run)"
    unfolding run_def by (rule surjective_pairing)
  have p: "plain_app = la_application (plain_lambda :: unit lambda_app)"
    "AT_LEAST_ONCE = la_settlement (plain_lambda :: unit lambda_app)"
    "sns_record_envelope (la_keys (plain_lambda :: unit lambda_app)) =
      whole_event_decoder no_text no_text (plain_lambda :: unit lambda_app) ''sns''"
    by (simp_all add: plain_lambda_def whole_event_decoder_def)
  have m: "''sns'' \<in> {''sns'', ''s3'', ''kafka''}" by simp
  from lambda_fails_whole_event [OF src m rs r p] show ?thesis unfolding run_def [symmetric]
    by (elim disjE exE conjE) (use er in \<open>blast intro: acknowledged_run.no_record\<close>)+
qed

end
