(* ===== verification/Producers.thy ===== *)
theory Producers
  imports AwsLambda
begin

text \<open>
  The outbound clients \<open>benzene.aws.clients\<close>, \<open>benzene.kafka.producer\<close> and
  \<open>benzene.rabbitmq.producer\<close>: what each writes for a topic, a message and headers, and how the
  outcome of the client call becomes a result. The SDK's call is a parameter; creating the SDK client on
  first use and moving the call to a thread belong to it.
\<close>

section \<open>Client calls\<close>

text \<open>
  The end of a call: a value, an exception object (with its links, as \<open>is_timeout\<close> reads them), or
  the cancellation of the task, which \<open>except Exception\<close> does not catch.
\<close>

datatype 'a called = Returned 'a | Raised "err list" nat | CallStopped

type_synonym ('w, 'q, 'r) client_call = "'q \<Rightarrow> 'w \<Rightarrow> 'r called \<times> 'w"

type_synonym serializer = "pyval \<Rightarrow> string called"

definition plain_err :: "string \<Rightarrow> string \<Rightarrow> err" where
  "plain_err cls message = \<lparr>er_class = cls, er_mro = [cls, ''Exception'', ''BaseException'', ''object''],
     er_timeout_instance = False, er_reason = None, er_cause = None, er_context = None, er_text = message\<rparr>"

definition called_of :: "'a outcome \<Rightarrow> 'a called" where
  "called_of x = (case x of Inr a \<Rightarrow> Returned a
     | Inl (PyException cls message) \<Rightarrow> Raised [plain_err cls message] 0
     | Inl PyCancelled \<Rightarrow> CallStopped)"

definition default_serializer :: serializer where
  "default_serializer message = called_of (encode_body message)"

text \<open>An exception that nothing catches, and \<open>except Exception as ex: return failed_call_result(ex)\<close>.\<close>

definition raised :: "err list \<Rightarrow> nat \<Rightarrow> pyexn" where
  "raised errs i = PyException (er_class (errs ! i)) (er_text (errs ! i))"

definition caught :: "('a \<Rightarrow> result) \<Rightarrow> 'a called \<Rightarrow> result outcome" where
  "caught answer c = (case c of
     Returned a \<Rightarrow> Inr (answer a)
   | Raised errs i \<Rightarrow> Inr (failed_call_result errs i [])
   | CallStopped \<Rightarrow> Inl PyCancelled)"

text \<open>
  The \<open>try\<close> block the AWS publishers share: the arguments are evaluated, then the client is called;
  whatever it returns, the answer is \<open>Result.ok()\<close>.
\<close>

definition try_publish :: "'q called \<Rightarrow> ('w, 'q, 'r) client_call \<Rightarrow> ('w, result) action" where
  "try_publish arguments call = (\<lambda>w. case arguments of
     Returned q \<Rightarrow> (case call q w of (c, w') \<Rightarrow> (caught (\<lambda>_. ok VNone) c, w'))
   | Raised errs i \<Rightarrow> (Inr (failed_call_result errs i []), w)
   | CallStopped \<Rightarrow> (Inl PyCancelled, w))"

definition called_map :: "('a \<Rightarrow> 'b) \<Rightarrow> 'a called \<Rightarrow> 'b called" where
  "called_map f c = (case c of Returned a \<Rightarrow> Returned (f a) | Raised errs i \<Rightarrow> Raised errs i | CallStopped \<Rightarrow> CallStopped)"

lemma called_map_simps [simp]:
  "called_map f (Returned a) = Returned (f a)" "called_map f (Raised errs i) = Raised errs i"
  "called_map f CallStopped = CallStopped"
  by (simp_all add: called_map_def)

lemma called_map_Returned:
  "(\<exists>q a. called_map f c = Returned q \<and> P q a) \<longleftrightarrow> (\<exists>b a. c = Returned b \<and> P (f b) a)"
  by (cases c) auto

section \<open>SNS and SQS\<close>

definition string_attribute :: "string \<Rightarrow> pydict" where
  "string_attribute value = [(''DataType'', VStr ''String''), (''StringValue'', VStr value)]"

definition string_attributes :: "string \<Rightarrow> pydict option \<Rightarrow> metadata_keys \<Rightarrow> (string, pydict) dict" where
  "string_attributes topic headers keys = dict_set (mk_topic keys) (string_attribute topic)
     (dict_of (map (\<lambda>(k, v). (k, string_attribute (str_val v))) (headers_or_empty headers)))"

record sns_publish =
  sp_topic_arn :: string
  sp_message :: string
  sp_message_attributes :: "(string, pydict) dict"

definition sns_send :: "metadata_keys \<Rightarrow> string \<Rightarrow> serializer \<Rightarrow> ('w, sns_publish, 'r) client_call \<Rightarrow> 'w sender" where
  "sns_send keys topic_arn serialize publish topic message headers =
     try_publish (called_map (\<lambda>body. \<lparr>sp_topic_arn = topic_arn, sp_message = body,
         sp_message_attributes = string_attributes topic headers keys\<rparr>) (serialize message)) publish"

record sqs_send_message =
  sq_queue_url :: string
  sq_message_body :: string
  sq_message_attributes :: "(string, pydict) dict"

definition sqs_send :: "metadata_keys \<Rightarrow> string \<Rightarrow> serializer \<Rightarrow> ('w, sqs_send_message, 'r) client_call \<Rightarrow> 'w sender" where
  "sqs_send keys queue_url serialize send_message topic message headers =
     try_publish (called_map (\<lambda>body. \<lparr>sq_queue_url = queue_url, sq_message_body = body,
         sq_message_attributes = string_attributes topic headers keys\<rparr>) (serialize message)) send_message"

section \<open>EventBridge and Kinesis\<close>

definition embed_headers :: "pyval \<Rightarrow> pydict option \<Rightarrow> serializer \<Rightarrow> string \<Rightarrow> string called" where
  "embed_headers message headers serialize key = (case serialize message of
     Returned body \<Rightarrow>
       if headers_or_empty headers = [] then Returned body
       else (case loads body of
          Some (VDict parsed) \<Rightarrow>
            called_of (dumps (VDict (dict_set key (VDict (headers_or_empty headers)) parsed)))
        | _ \<Rightarrow> Returned body)
   | c \<Rightarrow> c)"

record put_events_entry =
  pe_event_bus_name :: string
  pe_source :: string
  pe_detail_type :: string
  pe_detail :: string

definition eventbridge_send ::
  "metadata_keys \<Rightarrow> string \<Rightarrow> string \<Rightarrow> string option \<Rightarrow> serializer \<Rightarrow> ('w, put_events_entry list, 'r) client_call \<Rightarrow>
   'w sender" where
  "eventbridge_send keys event_bus_name source detail_type serialize put_events topic message headers =
     try_publish (called_map (\<lambda>detail. [\<lparr>pe_event_bus_name = event_bus_name, pe_source = source,
         pe_detail_type = or_text detail_type topic, pe_detail = detail\<rparr>])
       (embed_headers message headers serialize (mk_headers keys))) put_events"

record put_record =
  pr_stream_name :: string
  pr_data :: string
  pr_partition_key :: pyval

definition partition_key :: "string \<Rightarrow> string \<Rightarrow> pydict option \<Rightarrow> pyval" where
  "partition_key header topic headers =
     (if header \<noteq> [] \<and> headers_or_empty headers \<noteq> [] \<and> truthy (vget (headers_or_empty headers) header)
      then vget (headers_or_empty headers) header
      else VStr topic)"

definition kinesis_send ::
  "metadata_keys \<Rightarrow> string \<Rightarrow> string \<Rightarrow> serializer \<Rightarrow> ('w, put_record, 'r) client_call \<Rightarrow> 'w sender" where
  "kinesis_send keys stream_name partition_key_header serialize call topic message headers =
     try_publish (called_map (\<lambda>data. \<lparr>pr_stream_name = stream_name, pr_data = data,
         pr_partition_key = partition_key partition_key_header topic headers\<rparr>)
       (embed_headers message headers serialize (mk_headers keys))) call"

section \<open>Lambda\<close>

record invoke_request =
  iq_function_name :: string
  iq_invocation_type :: string
  iq_payload :: string
  iq_qualifier :: "string option"

text \<open>The response of \<open>invoke\<close>: \<open>FunctionError\<close> (\<open>None\<close> when absent) and the bytes of \<open>Payload\<close>.\<close>

record invoke_response =
  ir_function_error :: pyval
  ir_payload :: wire_bytes

definition read_payload :: "invoke_response \<Rightarrow> pyval outcome" where
  "read_payload response = and_then (decode_strict (ir_payload response)) (\<lambda>raw.
     Inr (if raw = [] then VNone else (case loads raw of None \<Rightarrow> VStr raw | Some v \<Rightarrow> v)))"

definition invoke_error_detail :: "invoke_response \<Rightarrow> string outcome" where
  "invoke_error_detail response = and_then (read_payload response) (\<lambda>payload.
     case payload of
       VDict d \<Rightarrow> Inr (if truthy (vget d ''errorMessage'') then str_val (vget d ''errorMessage'')
                     else if truthy payload then str_val payload else str_val (ir_function_error response))
     | _ \<Rightarrow> Inr (if truthy payload then str_val payload else str_val (ir_function_error response)))"

text \<open>
  The members of a payload that \<open>decode_response\<close> reads; \<open>statusCode\<close> is a string when present, as in
  every response envelope.
\<close>

definition response_of :: "pydict \<Rightarrow> response" where
  "response_of d = \<lparr>rsp_status_code = (case vget d ''statusCode'' of VStr s \<Rightarrow> Some s
       | v \<Rightarrow> if truthy v then Some (str_val v) else None),
     rsp_is_successful = vget d ''isSuccessful'',
     rsp_headers = (case vget d ''headers'' of VDict h \<Rightarrow> h | _ \<Rightarrow> []),
     rsp_body = vget d ''body''\<rparr>"

definition invoke_result :: "string \<Rightarrow> invoke_response \<Rightarrow> result outcome" where
  "invoke_result invocation_type response =
     (if invocation_type \<noteq> ''RequestResponse'' then Inr (accepted VNone)
      else if truthy (ir_function_error response)
        then and_then (invoke_error_detail response) (\<lambda>detail. Inr (failure ''service-unavailable'' [ErrText detail]))
      else and_then (read_payload response) (\<lambda>payload. case payload of
        VDict d \<Rightarrow> Inr (decode_response (response_of d))
      | _ \<Rightarrow> Inr (failure ''service-unavailable'' [ErrText (''Unexpected invoke response: '' @ repr_val payload)])))"

definition lambda_send ::
  "string \<Rightarrow> string \<Rightarrow> string option \<Rightarrow> serializer \<Rightarrow> ('w, invoke_request, invoke_response) client_call \<Rightarrow> 'w sender" where
  "lambda_send function_name invocation_type qualifier serialize invoke topic message headers = (\<lambda>w.
     case serialize message of
       Raised errs i \<Rightarrow> (Inl (raised errs i), w)
     | CallStopped \<Rightarrow> (Inl PyCancelled, w)
     | Returned body \<Rightarrow>
         (case dumps (VDict [(''topic'', VStr topic), (''headers'', VDict (headers_or_empty headers)), (''body'', VStr body)]) of
            Inl e \<Rightarrow> (Inl e, w)
          | Inr payload \<Rightarrow>
              (case invoke \<lparr>iq_function_name = function_name, iq_invocation_type = invocation_type, iq_payload = payload,
                      iq_qualifier = (if or_text qualifier [] = [] then None else qualifier)\<rparr> w of
                 (Raised errs i, w') \<Rightarrow> (Inr (failed_call_result errs i []), w')
               | (CallStopped, w') \<Rightarrow> (Inl PyCancelled, w')
               | (Returned response, w') \<Rightarrow> (invoke_result invocation_type response, w'))))"

section \<open>Kafka and RabbitMQ\<close>

record kafka_produce =
  kp_topic :: string
  kp_value :: wire_value
  kp_headers :: "(string \<times> wire_value) list"

definition header_bytes :: "string \<Rightarrow> pydict option \<Rightarrow> string \<Rightarrow> (string \<times> wire_value) list" where
  "header_bytes topic_key headers topic =
     map (\<lambda>(k, v). (k, WBytes (Utf8 (str_val v)))) (headers_or_empty headers) @ [(topic_key, WBytes (Utf8 topic))]"

text \<open>
  Producing and flushing, as one call: it answers with the delivery reports that arrived before
  \<open>flush\<close> returned (an error's text, or \<open>None\<close> for a delivered record) and the number of records still
  queued, which the sender does not read.
\<close>

type_synonym delivery = "string option list \<times> nat"

definition delivery_errors :: "string option list \<Rightarrow> string list" where
  "delivery_errors reports = concat (map (\<lambda>r. case r of None \<Rightarrow> [] | Some e \<Rightarrow> [e]) reports)"

definition delivery_result :: "delivery \<Rightarrow> result" where
  "delivery_result d = (case delivery_errors (fst d) of
     [] \<Rightarrow> ok VNone
   | e # _ \<Rightarrow> failure ''service-unavailable'' [ErrText e])"

definition kafka_send ::
  "metadata_keys \<Rightarrow> string \<Rightarrow> serializer \<Rightarrow> ('w, kafka_produce, delivery) client_call \<Rightarrow> 'w sender" where
  "kafka_send keys kafka_topic serialize produce_and_flush topic message headers = (\<lambda>w.
     case serialize message of
       Raised errs i \<Rightarrow> (Inl (raised errs i), w)
     | CallStopped \<Rightarrow> (Inl PyCancelled, w)
     | Returned body \<Rightarrow>
         (case produce_and_flush \<lparr>kp_topic = kafka_topic, kp_value = WBytes (Utf8 body),
                 kp_headers = header_bytes (mk_topic keys) headers topic\<rparr> w of
            (c, w') \<Rightarrow> (caught delivery_result c, w')))"

record basic_publish =
  bp_exchange :: string
  bp_routing_key :: string
  bp_body :: wire_value
  bp_headers :: "(string, string) dict"

definition amqp_headers :: "string \<Rightarrow> pydict option \<Rightarrow> string \<Rightarrow> (string, string) dict" where
  "amqp_headers topic_key headers topic =
     dict_set topic_key topic (dict_of (map (\<lambda>(k, v). (k, str_val v)) (headers_or_empty headers)))"

definition rabbitmq_send ::
  "metadata_keys \<Rightarrow> string \<Rightarrow> string \<Rightarrow> serializer \<Rightarrow> ('w, basic_publish, 'r) client_call \<Rightarrow> 'w sender" where
  "rabbitmq_send keys exchange routing_key serialize publish topic message headers = (\<lambda>w.
     case serialize message of
       Raised errs i \<Rightarrow> (Inl (raised errs i), w)
     | CallStopped \<Rightarrow> (Inl PyCancelled, w)
     | Returned body \<Rightarrow>
         (case publish \<lparr>bp_exchange = exchange, bp_routing_key = routing_key, bp_body = WBytes (Utf8 body),
                 bp_headers = amqp_headers (mk_topic keys) headers topic\<rparr> w of
            (c, w') \<Rightarrow> (caught (\<lambda>_. ok VNone) c, w')))"

section \<open>What a one-way publisher reports\<close>

lemma failed_call_no_success [simp]: "\<not> result_is_successful (failed_call_result errs i target)"
  by (simp add: failed_call_result_def failure_def result_is_successful_def is_successful_def SUCCESS_STATUSES_def Let_def)

lemma caught_success:
  "(\<exists>r. caught answer c = Inr r \<and> result_is_successful r) \<longleftrightarrow> (\<exists>a. c = Returned a \<and> result_is_successful (answer a))"
  by (cases c) (auto simp: caught_def)

text \<open>
  The contract of a publisher: it makes at most one call, whose arguments are fixed by the topic, the
  message and the headers, and its result tells how that call ended.
\<close>

locale publisher =
  fixes send :: "'w sender"
    and arguments :: "string \<Rightarrow> pyval \<Rightarrow> pydict option \<Rightarrow> 'q called"
    and call :: "('w, 'q, 'r) client_call"
  assumes publishes: "send topic message headers = try_publish (arguments topic message headers) call"
begin

lemma success_exact:
  "(\<exists>r. fst (send topic message headers w) = Inr r \<and> result_is_successful r) \<longleftrightarrow>
     (\<exists>q a. arguments topic message headers = Returned q \<and> fst (call q w) = Returned a)"
  by (cases "arguments topic message headers")
    (auto simp: publishes try_publish_def caught_success split: prod.splits)

lemma never_raises: "fst (send topic message headers w) \<noteq> Inl (PyException cls message')"
  by (auto simp: publishes try_publish_def caught_def split: called.splits prod.splits)

end

interpretation sns: publisher "sns_send keys arn serialize publish"
  "\<lambda>topic message headers. called_map (\<lambda>body. \<lparr>sp_topic_arn = arn, sp_message = body,
     sp_message_attributes = string_attributes topic headers keys\<rparr>) (serialize message)" publish
  for keys arn serialize publish
  by unfold_locales (simp add: sns_send_def)

interpretation sqs: publisher "sqs_send keys url serialize call"
  "\<lambda>topic message headers. called_map (\<lambda>body. \<lparr>sq_queue_url = url, sq_message_body = body,
     sq_message_attributes = string_attributes topic headers keys\<rparr>) (serialize message)" call
  for keys url serialize call
  by unfold_locales (simp add: sqs_send_def)

interpretation eventbridge: publisher "eventbridge_send keys bus source detail_type serialize put_events"
  "\<lambda>topic message headers. called_map (\<lambda>detail. [\<lparr>pe_event_bus_name = bus, pe_source = source,
     pe_detail_type = or_text detail_type topic, pe_detail = detail\<rparr>])
     (embed_headers message headers serialize (mk_headers keys))" put_events
  for keys bus source detail_type serialize put_events
  by unfold_locales (simp add: eventbridge_send_def)

interpretation kinesis: publisher "kinesis_send keys stream header serialize call"
  "\<lambda>topic message headers. called_map (\<lambda>data. \<lparr>pr_stream_name = stream, pr_data = data,
     pr_partition_key = partition_key header topic headers\<rparr>)
     (embed_headers message headers serialize (mk_headers keys))" call
  for keys stream header serialize call
  by unfold_locales (simp add: kinesis_send_def)

section \<open>From a sender to a consumer\<close>

text \<open>
  Headers a binding carries unchanged: text values, names that stay distinct in lower case, and none of
  them the topic's own.
\<close>

definition sendable_headers :: "metadata_keys \<Rightarrow> pydict \<Rightarrow> bool" where
  "sendable_headers keys h \<longleftrightarrow> distinct (map (\<lambda>(k, v). py_lower k) h) \<and>
     py_lower (mk_topic keys) \<notin> set (map (\<lambda>(k, v). py_lower k) h) \<and> list_all (\<lambda>(k, v). v = VStr (str_val v)) h"

definition texts :: "pydict \<Rightarrow> (string, string) dict" where
  "texts h = map (\<lambda>(k, v). (k, str_val v)) h"

lemma sendable_names:
  assumes "sendable_headers keys h"
  shows "distinct (map fst (texts h @ [(mk_topic keys, topic)]))"
    and "distinct (map (\<lambda>(k, v). py_lower k) (texts h @ [(mk_topic keys, topic)]))"
    and "map_of (texts h) (mk_topic keys) = None"
proof -
  show l: "distinct (map (\<lambda>(k, v). py_lower k) (texts h @ [(mk_topic keys, topic)]))"
    using assms by (auto simp: sendable_headers_def texts_def comp_def case_prod_unfold)
  then have "distinct (map py_lower (map fst (texts h @ [(mk_topic keys, topic)])))"
    by (simp add: comp_def case_prod_unfold)
  then show d: "distinct (map fst (texts h @ [(mk_topic keys, topic)]))" by (simp only: distinct_map)
  then show "map_of (texts h) (mk_topic keys) = None" by (auto simp: map_of_eq_None_iff)
qed

lemma delete_append: "dict_del k (d @ e) = dict_del k d @ dict_del k e"
  by (simp add: AList.delete_eq)

lemma read_text_metadata:
  "read_message_metadata (text_metadata d) keys =
     (let headers = dict_of (map (\<lambda>(k, v). (py_lower k, v)) d); key = py_lower (mk_topic keys)
      in ((case dict_get headers key of None \<Rightarrow> [] | Some t \<Rightarrow> t), dict_del key headers))"
proof -
  have "map (\<lambda>(k, v). (py_lower (str_val k), str_val v)) (map (\<lambda>(k, v). (VStr k, VStr v)) d) =
      map (\<lambda>(k, v). (py_lower k, v)) d"
    by (simp add: comp_def case_prod_unfold)
  then show ?thesis by (simp only: read_message_metadata_def text_metadata_def Let_def option.case)
qed

lemma read_sent_metadata:
  assumes "sendable_headers keys h"
  shows "read_message_metadata (text_metadata (texts h @ [(mk_topic keys, topic)])) keys =
     (topic, map (\<lambda>(k, v). (py_lower k, v)) (texts h))"
proof -
  define low where "low = map (\<lambda>(k, v). (py_lower k, v)) (texts h)"
  have "dict_ok (low @ [(py_lower (mk_topic keys), topic)])"
    using sendable_names(2) [OF assms, of topic] by (simp add: low_def dict_ok_def comp_def case_prod_unfold)
  with dict_of_ok [OF this] show ?thesis
    by (simp add: read_text_metadata Let_def delete_append map_of_append map_of_eq_None_iff
        map_add_def dict_ok_def option.case_eq_if flip: low_def)
qed

text \<open>The three wire forms, decoded to the same dictionary.\<close>

lemma decode_sent_attributes:
  assumes "sendable_headers keys h"
  shows "Some (decode_attributes (Some (string_attributes topic (Some h) keys))) =
     text_metadata (texts h @ [(mk_topic keys, topic)])"
proof -
  let ?rows = "map (\<lambda>(k, v). (k, string_attribute v)) (texts h)"
  have "dict_ok ?rows" "map_of ?rows (mk_topic keys) = None"
    using sendable_names(1) [OF assms, of topic] sendable_names(3) [OF assms]
    by (simp_all add: dict_ok_def map_of_eq_None_iff comp_def case_prod_unfold image_image)
  then have a: "string_attributes topic (Some h) keys = map (\<lambda>(k, v). (k, string_attribute v)) (texts h @ [(mk_topic keys, topic)])"
    by (simp add: string_attributes_def headers_or_empty_def texts_def comp_def case_prod_unfold dict_of_ok dict_set_fresh)
  have v: "v_or (vget (string_attribute x) ''StringValue'') (VStr []) = VStr x" for x
    by (simp add: string_attribute_def vget_def v_or_def)
  have "dict_ok (map (\<lambda>(k, v). (VStr k, VStr v)) (texts h @ [(mk_topic keys, topic)]))"
    using sendable_names(1) [OF assms, of topic] by (auto simp: dict_ok_def distinct_map inj_on_def comp_def case_prod_unfold)
  then show ?thesis
    unfolding a decode_attributes_def text_metadata_def by (simp add: v comp_def case_prod_unfold dict_of_ok)
qed

lemma decode_sent_bytes:
  assumes "sendable_headers keys h"
  shows "decode_headers (Some (header_bytes (mk_topic keys) (Some h) topic)) = texts h @ [(mk_topic keys, topic)]"
proof -
  have "map (\<lambda>(k, v). (k, wire_text v)) (header_bytes (mk_topic keys) (Some h) topic) = texts h @ [(mk_topic keys, topic)]"
    by (simp add: header_bytes_def headers_or_empty_def wire_text_def decode_replace_def texts_def comp_def case_prod_unfold)
  then show ?thesis
    using sendable_names(1) [OF assms, of topic] dict_of_ok [of "texts h @ [(mk_topic keys, topic)]"]
    by (simp add: decode_headers_def dict_ok_def)
qed

lemma sent_amqp_headers:
  assumes "sendable_headers keys h"
  shows "amqp_headers (mk_topic keys) (Some h) topic = texts h @ [(mk_topic keys, topic)]"
  using sendable_names(1) [OF assms, of topic] sendable_names(3) [OF assms] dict_of_ok [of "texts h"]
  by (simp add: amqp_headers_def headers_or_empty_def dict_ok_def dict_set_fresh flip: texts_def)

lemma decode_amqp_headers:
  assumes "sendable_headers keys h"
  shows "decode_headers (Some (map (\<lambda>(k, v). (k, WOther (VStr v))) (texts h @ [(mk_topic keys, topic)]))) =
     texts h @ [(mk_topic keys, topic)]"
proof -
  have "map (\<lambda>(k, v). (k, wire_text v)) (map (\<lambda>(k, v). (k, WOther (VStr v))) ps) = ps" for ps :: "(string, string) dict"
    by (simp add: wire_text_def comp_def case_prod_unfold)
  then show ?thesis
    using sendable_names(1) [OF assms, of topic] dict_of_ok [of "texts h @ [(mk_topic keys, topic)]"]
    by (simp add: decode_headers_def dict_ok_def del: map_map map_append)
qed

text \<open>An application does not see the case of header names, so the lowered headers are as good as the sent ones.\<close>

lemma lowered_headers:
  assumes "sendable_headers keys h"
  shows "lower_keys (map (\<lambda>(k, v). (k, VStr v)) (map (\<lambda>(k, v). (py_lower k, v)) (texts h))) = lower_keys h"
proof -
  have "map (\<lambda>(k, v). (py_lower k, v)) (map (\<lambda>(k, v). (k, VStr v)) (map (\<lambda>(k, v). (py_lower k, v)) (texts h))) =
      map (\<lambda>(k, v). (py_lower k, v)) h"
    using assms by (auto simp: sendable_headers_def texts_def list_all_iff)
  then show ?thesis by (simp only: lower_keys_def)
qed

lemma app_handle_lowered:
  assumes "lower_keys d = lower_keys h"
  shows "dispatch_one_way app st (Inr [(''topic'', VStr topic), (''headers'', VDict d), (''body'', VStr body)]) =
     dispatch_one_way app st (Inr [(''topic'', VStr topic), (''headers'', VDict h), (''body'', VStr body)])"
proof -
  have v: "v_or (VDict d) (VDict []) = VDict d" for d by (simp add: v_or_def)
  have "app_handle app [(''topic'', VStr topic), (''headers'', VDict d), (''body'', VStr body)] ig w =
      app_handle app [(''topic'', VStr topic), (''headers'', VDict h), (''body'', VStr body)] ig w" for ig w
    by (simp add: app_handle_def vget_def v assms Let_def)
  then show ?thesis by (intro ext) (simp add: dispatch_one_way_def Let_def vget_def)
qed

lemma handles_as_sent:
  assumes "sendable_headers keys h"
  shows "one_way_result app st (Inr (envelope_of topic (map (\<lambda>(k, v). (py_lower k, v)) (texts h)) (VStr body))) =
     one_way_result app st (Inr [(''topic'', VStr topic), (''headers'', VDict h), (''body'', VStr body)])"
  unfolding one_way_result_def envelope_of_def app_handle_lowered [OF lowered_headers [OF assms]] ..

text \<open>A client that accepts every call and keeps the arguments, as the recording clients of the tests do.\<close>

definition record_call :: "'r \<Rightarrow> ('q list, 'q, 'r) client_call" where
  "record_call reply q calls = (Returned reply, calls @ [q])"

lemma sqs_delivery:
  assumes "sendable_headers (app_metadata_keys app) h" "serialize message = Returned body"
  shows "\<exists>q. sqs_send (app_metadata_keys app) url serialize (record_call reply) topic message (Some h) [] = (Inr (ok VNone), [q]) \<and>
     sqs_handle_message app st \<lparr>sm_attributes = Some (sq_message_attributes q), sm_body = VStr (sq_message_body q), sm_receipt = rc\<rparr> =
       one_way_result app st (Inr [(''topic'', VStr topic), (''headers'', VDict h), (''body'', VStr body)])"
proof -
  let ?keys = "app_metadata_keys app"
  have "decode_sqs_message ?keys \<lparr>sm_attributes = Some (string_attributes topic (Some h) ?keys), sm_body = VStr body, sm_receipt = rc\<rparr>
      = Inr (envelope_of topic (map (\<lambda>(k, v). (py_lower k, v)) (texts h)) (VStr body))"
    using decode_sent_attributes [OF assms(1), of topic] read_sent_metadata [OF assms(1), of topic]
    by (simp add: decode_sqs_message_def v_or_def)
  with handles_as_sent [OF assms(1), of app st topic body] show ?thesis
    by (simp add: sqs_send_def try_publish_def caught_def record_call_def assms(2) sqs_handle_message_def)
qed

lemma kafka_delivery:
  assumes "sendable_headers (app_metadata_keys app) h" "serialize message = Returned body" "topic \<noteq> []"
  shows "\<exists>q. kafka_send (app_metadata_keys app) physical serialize (record_call ([None], 0)) topic message (Some h) [] =
       (Inr (ok VNone), [q]) \<and>
     kafka_handle_message app st \<lparr>km_headers = Some (kp_headers q), km_value = kp_value q,
         km_topic = WOther (VStr (kp_topic q)), km_error = None\<rparr> =
       one_way_result app st (Inr [(''topic'', VStr topic), (''headers'', VDict h), (''body'', VStr body)])"
proof -
  let ?keys = "app_metadata_keys app"
  have "decode_kafka_message ?keys \<lparr>km_headers = Some (header_bytes (mk_topic ?keys) (Some h) topic),
      km_value = WBytes (Utf8 body), km_topic = t, km_error = None\<rparr>
      = Inr (envelope_of topic (map (\<lambda>(k, v). (py_lower k, v)) (texts h)) (VStr body))" for t
    using read_sent_metadata [OF assms(1), of topic] assms(3)
    by (simp add: decode_kafka_message_def decode_sent_bytes [OF assms(1)] wire_body_def decode_strict_def Let_def)
  with handles_as_sent [OF assms(1), of app st topic body] show ?thesis
    by (simp add: kafka_send_def caught_def record_call_def delivery_result_def delivery_errors_def assms(2) kafka_handle_message_def)
qed

lemma rabbitmq_delivered:
  assumes "sendable_headers (app_metadata_keys app) h" "serialize message = Returned body" "topic \<noteq> []"
  shows "\<exists>q. rabbitmq_send (app_metadata_keys app) exchange routing serialize (record_call reply) topic message (Some h) [] =
       (Inr (ok VNone), [q]) \<and>
     rabbitmq_handle_message app st \<lparr>rd_delivery_tag = tag, rd_routing_key = WOther (VStr (bp_routing_key q)),
         rd_headers = Some (map (\<lambda>(k, v). (k, WOther (VStr v))) (bp_headers q)), rd_body = bp_body q\<rparr> =
       one_way_result app st (Inr [(''topic'', VStr topic), (''headers'', VDict h), (''body'', VStr body)])"
proof -
  let ?keys = "app_metadata_keys app"
  have "decode_rabbitmq_message ?keys \<lparr>rd_delivery_tag = tag, rd_routing_key = t,
      rd_headers = Some (map (\<lambda>(k, v). (k, WOther (VStr v))) (amqp_headers (mk_topic ?keys) (Some h) topic)),
      rd_body = WBytes (Utf8 body)\<rparr>
      = Inr (envelope_of topic (map (\<lambda>(k, v). (py_lower k, v)) (texts h)) (VStr body))" for t
    unfolding sent_amqp_headers [OF assms(1)] decode_rabbitmq_message_def rabbitmq_delivery.select_convs
      decode_amqp_headers [OF assms(1)] read_sent_metadata [OF assms(1), of topic]
    using assms(3) by (simp add: wire_body_def decode_strict_def Let_def)
  with handles_as_sent [OF assms(1), of app st topic body] show ?thesis
    by (simp add: rabbitmq_send_def caught_def record_call_def assms(2) rabbitmq_handle_message_def)
qed

text \<open>
  C21. What a sender writes, the consumer of the same transport handles as the message that was sent. Over
  SQS, Kafka and RabbitMQ the sender makes one client call and answers \<open>ok\<close> when it is accepted; a
  delivered message that carries the attributes or headers and the body of that call is dispatched exactly
  like an in-process message with the sender's topic, headers and serialized body.
\<close>

theorem broker_round_trip:
  assumes "sendable_headers (app_metadata_keys app) h" "serialize message = Returned body" "topic \<noteq> []"
  shows "(\<exists>q. sqs_send (app_metadata_keys app) url serialize (record_call reply) topic message (Some h) [] =
            (Inr (ok VNone), [q]) \<and>
          sqs_handle_message app st \<lparr>sm_attributes = Some (sq_message_attributes q), sm_body = VStr (sq_message_body q),
              sm_receipt = rc\<rparr> =
            one_way_result app st (Inr [(''topic'', VStr topic), (''headers'', VDict h), (''body'', VStr body)])) \<and>
         (\<exists>q. kafka_send (app_metadata_keys app) physical serialize (record_call ([None], 0)) topic message (Some h) [] =
            (Inr (ok VNone), [q]) \<and>
          kafka_handle_message app st \<lparr>km_headers = Some (kp_headers q), km_value = kp_value q,
              km_topic = WOther (VStr (kp_topic q)), km_error = None\<rparr> =
            one_way_result app st (Inr [(''topic'', VStr topic), (''headers'', VDict h), (''body'', VStr body)])) \<and>
         (\<exists>q. rabbitmq_send (app_metadata_keys app) exchange routing serialize (record_call reply) topic message (Some h) [] =
            (Inr (ok VNone), [q]) \<and>
          rabbitmq_handle_message app st \<lparr>rd_delivery_tag = tag, rd_routing_key = WOther (VStr (bp_routing_key q)),
              rd_headers = Some (map (\<lambda>(k, v). (k, WOther (VStr v))) (bp_headers q)), rd_body = bp_body q\<rparr> =
            one_way_result app st (Inr [(''topic'', VStr topic), (''headers'', VDict h), (''body'', VStr body)]))"
  using sqs_delivery [where serialize = serialize and message = message, OF assms(1,2)]
    kafka_delivery [where serialize = serialize and message = message, OF assms]
    rabbitmq_delivered [where serialize = serialize and message = message, OF assms] by (intro conjI)

theorem broker_round_trip_witness:
  "\<exists>q. kafka_send DEFAULT_METADATA_KEYS ''bus'' default_serializer (record_call ([None], 0)) ''order:create'' (VDict [(''id'', VInt 1)])
       (Some [(''X-Correlation-Id'', VStr ''c1'')]) [] = (Inr (ok VNone), [q]) \<and>
     kafka_handle_message (plain_app :: unit application) AT_LEAST_ONCE \<lparr>km_headers = Some (kp_headers q), km_value = kp_value q,
         km_topic = WOther (VStr (kp_topic q)), km_error = None\<rparr> =
       one_way_result plain_app AT_LEAST_ONCE (Inr [(''topic'', VStr ''order:create''),
         (''headers'', VDict [(''X-Correlation-Id'', VStr ''c1'')]), (''body'', VStr ''{\"id\": 1}'')])"
proof -
  have k: "app_metadata_keys (plain_app :: unit application) = DEFAULT_METADATA_KEYS" by (simp add: plain_app_def)
  have h: "sendable_headers DEFAULT_METADATA_KEYS [(''X-Correlation-Id'', VStr ''c1'')]"
    by code_simp
  have s: "default_serializer (VDict [(''id'', VInt 1)]) = Returned ''{\"id\": 1}''"
    by code_simp
  have "''order:create'' \<noteq> []" by simp
  show ?thesis
    by (rule broker_round_trip [of "plain_app :: unit application" _ default_serializer "VDict [(''id'', VInt 1)]", unfolded k,
        OF h s \<open>''order:create'' \<noteq> []\<close>, THEN conjunct2, THEN conjunct1])
qed

section \<open>A function that calls a function\<close>

text \<open>
  The documented behaviour of a synchronous \<open>Invoke\<close>, for a function whose handler is \<open>handler\<close>: the
  payload is read as JSON, the handler runs on it, and what it returns comes back as the JSON payload, with
  no \<open>FunctionError\<close>.
\<close>

definition invokes :: "('w, invoke_request, invoke_response) client_call \<Rightarrow> (pydict \<Rightarrow> ('w, pyval) action) \<Rightarrow> bool" where
  "invokes invoke handler \<longleftrightarrow> (\<forall>q event w v w'. loads (iq_payload q) = Some (VDict event) \<and>
     iq_invocation_type q = ''RequestResponse'' \<and> handler event w = (Inr v, w') \<and> json_ok v \<longrightarrow>
     invoke q w = (Returned \<lparr>ir_function_error = VNone, ir_payload = Utf8 (json_text v)\<rparr>, w'))"

lemma envelope_source:
  "event_source [(''topic'', t), (''headers'', h), (''body'', b)] = Inr (Some ''invoke'')"
  by (simp add: event_source_def is_api_gateway_def py_in_def v_or_def vget_def is_dict_def dict_mem_def)

lemma response_of_envelope:
  "rsp_body rsp = VStr body \<Longrightarrow> response_of (envelope_dict rsp) = rsp"
  by (cases rsp) (auto simp: response_of_def envelope_dict_def vget_def opt_str_def split: option.splits)

text \<open>The response of the application, as a JSON document.\<close>

definition wire_response :: "response \<Rightarrow> bool" where
  "wire_response rsp \<longleftrightarrow> json_ok (VDict (envelope_dict rsp)) \<and> (\<exists>body. rsp_body rsp = VStr body)"

lemma encode_response_json: "encode_response r = Inr rsp \<Longrightarrow> wire_response rsp"
  by (auto simp: wire_response_def encode_response_def envelope_dict_def opt_str_def Let_def split: if_splits sum.splits)

lemma json_ok_lookup: "json_ok (VDict d) \<Longrightarrow> json_ok (vget d k)"
  by (auto simp: vget_def split: option.splits dest!: map_of_SomeD)

lemma json_ok_lower_keys:
  assumes "json_ok (VDict h)"
  shows "json_ok (VDict (lower_keys h))"
proof -
  have "\<forall>v \<in> snd ` set h. json_ok v" using assms by auto
  then have "\<forall>v \<in> snd ` set (lower_keys h). json_ok v"
    using set_dict_of [of "map (\<lambda>(k, v). (py_lower k, v)) h"] by (fastforce simp: lower_keys_def)
  then show ?thesis using dict_ok_of [of "map (\<lambda>(k, v). (py_lower k, v)) h"] by (auto simp: lower_keys_def dict_ok_def)
qed

lemma version_header_json:
  assumes "wire_response rsp" "json_ok v"
  shows "wire_response (rsp\<lparr>rsp_headers := dict_set k v (rsp_headers rsp)\<rparr>)"
  using assms json_ok_dict_set [of "rsp_headers rsp" v k] by (auto simp: wire_response_def envelope_dict_def)

lemma app_response_json:
  assumes "app_handle app [(''topic'', t), (''headers'', VDict h), (''body'', b)] ig w = (Inr rsp, w')" "json_ok (VDict h)"
  shows "wire_response rsp"
proof -
  have v: "v_or (VDict h) (VDict []) = VDict h" by (simp add: v_or_def)
  have "json_ok (resolve_version (lower_keys h) n)" for n
    using json_ok_lookup [OF json_ok_lower_keys [OF assms(2)]] by (simp add: resolve_version_def v_or_def)
  then show ?thesis
    using assms(1) encode_response_json version_header_json
    by (auto simp: app_handle_def vget_def v Let_def split: option.splits prod.splits sum.splits if_splits)
qed

text \<open>
  C23. A call from function to function is a call in process. When \<open>LambdaMessageSender\<close> invokes a function
  that hosts an application, and the platform runs the function as documented, the sender returns exactly
  what dispatching the message to that application in process returns, and leaves the world as that does.
\<close>

theorem lambda_call_is_dispatch:
  assumes "invokes invoke (lambda_handle b64 octets request la)" "\<not> la_event_invocation la"
    and "json_ok (VDict (headers_or_empty headers))"
    and "dispatch (la_application la) topic message headers w = (Inr r, w')"
  shows "lambda_send name ''RequestResponse'' qualifier default_serializer invoke topic message headers w = (Inr r, w')"
proof -
  obtain body where body: "encode_body message = Inr body"
    using assms(4) by (auto simp: dispatch_def split: sum.splits)
  let ?h = "headers_or_empty headers"
  let ?event = "[(''topic'', VStr topic), (''headers'', VDict ?h), (''body'', VStr body)]"
  have v: "v_or (VDict d) (VDict []) = VDict d" "v_or (VStr s) (VStr []) = VStr s" for d s by (simp_all add: v_or_def)
  have env: "invoke_envelope ?event = ?event" by (simp add: invoke_envelope_def vget_def v)
  obtain rsp where rsp: "app_handle (la_application la) ?event False w = (Inr rsp, w')" "r = decode_response rsp"
    using assms(4) body by (auto simp: dispatch_def split: prod.splits sum.splits)
  have wire: "wire_response rsp" by (rule app_response_json [OF rsp(1) assms(3)])
  then have j: "json_ok (VDict (envelope_dict rsp))" by (simp add: wire_response_def)
  have run: "lambda_handle b64 octets request la ?event w = (Inr (VDict (envelope_dict rsp)), w')"
    using rsp(1) assms(2) by (simp add: lambda_handle_def envelope_source handle_direct_def env)
  have jp: "json_ok (VDict ?event)" using assms(3) by simp
  have reply: "invoke q w = (Returned \<lparr>ir_function_error = VNone, ir_payload = Utf8 (json_text (VDict (envelope_dict rsp)))\<rparr>, w')"
    if "iq_payload q = json_text (VDict ?event)" "iq_invocation_type q = ''RequestResponse''" for q
    using assms(1) that run j loads_json_text [OF jp] unfolding invokes_def by metis
  have "read_payload \<lparr>ir_function_error = VNone, ir_payload = Utf8 (json_text (VDict (envelope_dict rsp)))\<rparr> =
      Inr (VDict (envelope_dict rsp))"
    using loads_json_text [OF j] truthy_json_text [OF j]
    by (simp add: read_payload_def decode_strict_def del: json_text.simps)
  moreover have "response_of (envelope_dict rsp) = rsp" using wire response_of_envelope by (auto simp: wire_response_def)
  ultimately show ?thesis
    using dumps_json_ok [OF jp]
    by (simp add: lambda_send_def default_serializer_def called_of_def body reply invoke_result_def rsp(2)
        del: json_text.simps json_ok.simps)
qed

definition run_function :: "(pydict \<Rightarrow> ('w, pyval) action) \<Rightarrow> ('w, invoke_request, invoke_response) client_call" where
  "run_function handler q w = (case loads (iq_payload q) of
     Some (VDict event) \<Rightarrow>
       (case handler event w of
          (Inr v, w') \<Rightarrow> (Returned \<lparr>ir_function_error = VNone, ir_payload = Utf8 (json_text v)\<rparr>, w')
        | (Inl e, w') \<Rightarrow> (Returned \<lparr>ir_function_error = VStr ''Unhandled'', ir_payload = Utf8 []\<rparr>, w'))
   | _ \<Rightarrow> (CallStopped, w))"

theorem lambda_call_is_dispatch_witness:
  "\<exists>r. dispatch (plain_app :: unit application) [] (VStr []) None () = (Inr r, ()) \<and>
     lambda_send ''stock'' ''RequestResponse'' None default_serializer
       (run_function (lambda_handle no_text no_text no_request plain_lambda)) [] (VStr []) None () = (Inr r, ())"
proof -
  have i: "invokes (run_function hd) hd" for hd :: "pydict \<Rightarrow> (unit, pyval) action"
    by (simp add: invokes_def run_function_def)
  obtain rsp where "app_handle (plain_app :: unit application)
      [(''topic'', VStr []), (''headers'', VDict []), (''body'', VStr [])] False () = (Inr rsp, ())"
    using plain_topic_required [of "()"] by (elim exE)
  then have d: "dispatch (plain_app :: unit application) [] (VStr []) None () = (Inr (decode_response rsp), ())"
    by (simp add: dispatch_def encode_body_def headers_or_empty_def)
  then have "dispatch (la_application (plain_lambda :: unit lambda_app)) [] (VStr []) None () = (Inr (decode_response rsp), ())"
    by (simp add: plain_lambda_def)
  from lambda_call_is_dispatch [OF i _ _ this, where name = "''stock''" and qualifier = None] d show ?thesis
    by (auto simp: plain_lambda_def headers_or_empty_def)
qed

section \<open>Headers inside a body\<close>

lemma to_jsonable_json: "json_ok v \<Longrightarrow> to_jsonable v = v"
proof (induction v)
  case (VDict ms)
  then have "\<forall>(k, v) \<in> set ms. to_jsonable v = v" by fastforce
  then show ?case by (auto intro!: map_idI)
qed (auto intro!: map_idI)

lemma embedded_detail:
  assumes "json_ok (VDict p)" "serialize message = Returned (json_text (VDict p))" "json_ok (VDict h)" "h \<noteq> []"
  shows "embed_headers message (Some h) serialize key = Returned (json_text (VDict (dict_set key (VDict h) p)))"
proof -
  have "json_ok (VDict (dict_set key (VDict h) p))" by (rule json_ok_dict_set [OF assms(1,3)])
  then show ?thesis
    using loads_json_text [OF assms(1)] assms(2,4)
    by (simp add: embed_headers_def headers_or_empty_def called_of_def del: json_text.simps json_ok.simps)
qed

lemma detail_headers:
  assumes "vget event ''detail'' = VDict d" "vget d (mk_headers keys) = VDict h"
    and "list_all (\<lambda>(k, v). v = VStr (str_val v)) h" "dict_ok h" "map_of h k = Some v"
  shows "vget (eventbridge_headers keys event) k = v"
proof -
  have "filter (\<lambda>(k, v). case v of VStr _ \<Rightarrow> True | _ \<Rightarrow> False) h = h"
    using assms(3) by (force simp: list_all_iff filter_id_conv split: pyval.splits)
  then show ?thesis
    using assms by (simp add: eventbridge_headers_def Let_def vget_def [of "dict_update a b" for a b] dict_get_update
        dict_get_rev map_add_def)
qed

text \<open>
  A message published to EventBridge arrives with its topic, its headers and its payload. Embedding
  the headers in the body changes no member of the payload but the reserved one, and a rule target that
  receives the entry's detail as the bus delivers it reads back the topic and every header, whatever
  metadata the bus adds.
\<close>

lemma eventbridge_round_trip:
  assumes "json_ok (VDict p)" "encode_body message = Inr (json_text (VDict p))" "topic \<noteq> []"
    and "json_ok (VDict h)" "h \<noteq> []" "list_all (\<lambda>(k, v). v = VStr (str_val v)) h"
  shows "\<exists>entry detail. eventbridge_send keys bus source None default_serializer (record_call reply) topic message (Some h) [] =
       (Inr (ok VNone), [[entry]]) \<and> loads (pe_detail entry) = Some (VDict detail) \<and>
     (\<forall>k. k \<noteq> mk_headers keys \<longrightarrow> vget detail k = vget p k) \<and>
     (\<forall>event. vget event ''detail-type'' = VStr (pe_detail_type entry) \<and> vget event ''detail'' = VDict detail \<longrightarrow>
        (\<exists>hs. eventbridge_envelope keys default_topic event =
             Inr [(''topic'', VStr topic), (''headers'', VDict hs), (''body'', VStr (pe_detail entry))] \<and>
           (\<forall>k v. map_of h k = Some v \<longrightarrow> vget hs k = v)))"
proof -
  define detail where "detail = dict_set (mk_headers keys) (VDict h) p"
  let ?entry = "\<lparr>pe_event_bus_name = bus, pe_source = source, pe_detail_type = topic, pe_detail = json_text (VDict detail)\<rparr>"
  have j: "json_ok (VDict detail)" unfolding detail_def by (rule json_ok_dict_set [OF assms(1,4)])
  have "default_serializer message = Returned (json_text (VDict p))"
    by (simp add: default_serializer_def called_of_def assms(2))
  from embedded_detail [of p default_serializer message, OF assms(1) this assms(4,5), of "mk_headers keys"]
  have sent: "eventbridge_send keys bus source None default_serializer (record_call reply) topic message (Some h) [] =
      (Inr (ok VNone), [[?entry]])"
    by (simp add: eventbridge_send_def try_publish_def caught_def record_call_def or_text_def detail_def del: json_text.simps)
  have body: "encode_body (VDict detail) = Inr (json_text (VDict detail))"
    using to_jsonable_json [OF j] dumps_json_ok [OF j] by (simp add: encode_body_def del: json_text.simps json_ok.simps to_jsonable.simps)
  have "eventbridge_envelope keys default_topic event =
      Inr [(''topic'', VStr topic), (''headers'', VDict (eventbridge_headers keys event)), (''body'', VStr (json_text (VDict detail)))]"
    if "vget event ''detail-type'' = VStr topic" "vget event ''detail'' = VDict detail" for event
    using that body assms(3) by (simp add: eventbridge_envelope_def v_or_def Let_def del: json_text.simps)
  moreover have "vget (eventbridge_headers keys event) k = v"
    if "vget event ''detail'' = VDict detail" "map_of h k = Some v" for event k v
    by (rule detail_headers [OF that(1) _ assms(6) _ that(2)]) (use assms(4) in \<open>simp_all add: detail_def vget_def dict_ok_def\<close>)
  moreover have "vget detail k = vget p k" if "k \<noteq> mk_headers keys" for k using that by (simp add: detail_def vget_def)
  ultimately show ?thesis
    using sent loads_json_text [OF j]
    by (intro exI [of _ ?entry] exI [of _ detail]) (auto simp del: json_text.simps)
qed

section \<open>What an accepted call tells\<close>

lemma no_delivery_errors: "delivery_errors reports = [] \<longleftrightarrow> set reports \<subseteq> {None}"
  by (induction reports) (auto simp: delivery_errors_def split: option.splits)

lemma delivery_success: "result_is_successful (delivery_result d) \<longleftrightarrow> set (fst d) \<subseteq> {None}"
  by (auto simp: delivery_result_def failure_def result_is_successful_def is_successful_def SUCCESS_STATUSES_def
      simp flip: no_delivery_errors split: list.splits)

text \<open>
  A success of a publisher is the acceptance of its call, no more. The SNS, SQS, EventBridge and Kinesis
  senders answer a success exactly when their arguments could be evaluated and the call returned, whatever it
  returned: for \<open>put_events\<close>, also a response that counts the entry as failed. The Kafka sender answers one
  exactly when producing and flushing returned and no delivery error had been reported by then, also when no
  report had arrived and the record was still queued. Those four never raise an \<open>Exception\<close>; the Kafka sender
  raises exactly the serializer's. (The RabbitMQ and Lambda senders serialize outside their guard too.)
\<close>

lemma publish_success_exact:
  "((\<exists>r. fst (sns_send keys arn serialize sns_call topic message headers w) = Inr r \<and> result_is_successful r) \<longleftrightarrow>
      (\<exists>body a. serialize message = Returned body \<and> fst (sns_call \<lparr>sp_topic_arn = arn, sp_message = body,
         sp_message_attributes = string_attributes topic headers keys\<rparr> w) = Returned a)) \<and>
   ((\<exists>r. fst (sqs_send keys url serialize sqs_call topic message headers w) = Inr r \<and> result_is_successful r) \<longleftrightarrow>
      (\<exists>body a. serialize message = Returned body \<and> fst (sqs_call \<lparr>sq_queue_url = url, sq_message_body = body,
         sq_message_attributes = string_attributes topic headers keys\<rparr> w) = Returned a)) \<and>
   ((\<exists>r. fst (eventbridge_send keys bus source detail_type serialize put_events topic message headers w) = Inr r \<and>
        result_is_successful r) \<longleftrightarrow>
      (\<exists>detail a. embed_headers message headers serialize (mk_headers keys) = Returned detail \<and>
         fst (put_events [\<lparr>pe_event_bus_name = bus, pe_source = source, pe_detail_type = or_text detail_type topic,
           pe_detail = detail\<rparr>] w) = Returned a)) \<and>
   ((\<exists>r. fst (kinesis_send keys stream header serialize kinesis_call topic message headers w) = Inr r \<and> result_is_successful r) \<longleftrightarrow>
      (\<exists>data a. embed_headers message headers serialize (mk_headers keys) = Returned data \<and>
         fst (kinesis_call \<lparr>pr_stream_name = stream, pr_data = data, pr_partition_key = partition_key header topic headers\<rparr> w)
           = Returned a)) \<and>
   ((\<exists>r. fst (kafka_send keys physical serialize kafka_call topic message headers w) = Inr r \<and> result_is_successful r) \<longleftrightarrow>
      (\<exists>body reports queued. serialize message = Returned body \<and> fst (kafka_call \<lparr>kp_topic = physical,
         kp_value = WBytes (Utf8 body), kp_headers = header_bytes (mk_topic keys) headers topic\<rparr> w) = Returned (reports, queued) \<and>
         set reports \<subseteq> {None})) \<and>
   fst (sns_send keys arn serialize sns_call topic message headers w) \<noteq> Inl (PyException cls detail) \<and>
   fst (sqs_send keys url serialize sqs_call topic message headers w) \<noteq> Inl (PyException cls detail) \<and>
   fst (eventbridge_send keys bus source detail_type serialize put_events topic message headers w) \<noteq> Inl (PyException cls detail) \<and>
   fst (kinesis_send keys stream header serialize kinesis_call topic message headers w) \<noteq> Inl (PyException cls detail) \<and>
   (fst (kafka_send keys physical serialize kafka_call topic message headers w) = Inl (PyException cls detail) \<longleftrightarrow>
      (\<exists>errs i. serialize message = Raised errs i \<and> raised errs i = PyException cls detail))"
proof (intro conjI)
  show "(\<exists>r. fst (kafka_send keys physical serialize kafka_call topic message headers w) = Inr r \<and> result_is_successful r) \<longleftrightarrow>
      (\<exists>body reports queued. serialize message = Returned body \<and> fst (kafka_call \<lparr>kp_topic = physical,
         kp_value = WBytes (Utf8 body), kp_headers = header_bytes (mk_topic keys) headers topic\<rparr> w) = Returned (reports, queued) \<and>
         set reports \<subseteq> {None})"
    by (cases "serialize message") (simp_all add: kafka_send_def caught_success delivery_success split: prod.splits)
  show "fst (kafka_send keys physical serialize kafka_call topic message headers w) = Inl (PyException cls detail) \<longleftrightarrow>
      (\<exists>errs i. serialize message = Raised errs i \<and> raised errs i = PyException cls detail)"
    by (auto simp: kafka_send_def caught_def split: called.splits prod.splits)
qed (simp_all only: sns.success_exact sqs.success_exact eventbridge.success_exact kinesis.success_exact called_map_Returned
    sns.never_raises sqs.never_raises eventbridge.never_raises kinesis.never_raises not_False_eq_True)

end
