(* ===== verification/Codecs.thy ===== *)
theory Codecs
  imports PayloadMapping
begin

text \<open>
  The standard library's octet encodings, over strings whose characters stand for bytes:
  \<open>base64.b64decode\<close>, the inverse of \<open>PayloadMapping.b64encode\<close>, and UTF-8 on the code points below 256.
\<close>

section \<open>Base64\<close>

definition b64_alphabet :: string where
  "b64_alphabet = ''ABCDEFGHIJKLMNOPQRSTUVWXYZabcdefghijklmnopqrstuvwxyz0123456789+/''"

fun index_of :: "'a \<Rightarrow> 'a list \<Rightarrow> nat option" where
  "index_of x [] = None"
| "index_of x (y # ys) = (if x = y then Some 0 else map_option Suc (index_of x ys))"

definition b64_digit :: "char \<Rightarrow> nat option" where
  "b64_digit c = index_of c b64_alphabet"

text \<open>The 24 bits of a group of four digits, as \<open>n\<close> bytes.\<close>

definition group_bytes :: "nat \<Rightarrow> nat \<Rightarrow> string" where
  "group_bytes n bits = take n [char_of (bits div 65536), char_of (bits div 256), char_of bits]"

definition b64_bits :: "char list \<Rightarrow> nat option" where
  "b64_bits cs = foldl (\<lambda>acc c. case (acc, b64_digit c) of (Some n, Some d) \<Rightarrow> Some (n * 64 + d) | _ \<Rightarrow> None) (Some 0) cs"

text \<open>Padding ends the text; anything else outside the alphabet, or a text of another length, is an error.\<close>

fun b64decode :: "string \<Rightarrow> string option" where
  "b64decode [] = Some []"
| "b64decode (a # b # c # d # s) =
     (if d = CHR ''='' then
        (if s \<noteq> [] then None
         else if c = CHR ''='' then map_option (\<lambda>n. group_bytes 1 (n * 4096)) (b64_bits [a, b])
         else map_option (\<lambda>n. group_bytes 2 (n * 64)) (b64_bits [a, b, c]))
      else (case (b64_bits [a, b, c, d], b64decode s) of
          (Some n, Some bytes) \<Rightarrow> Some (group_bytes 3 n @ bytes)
        | _ \<Rightarrow> None))"
| "b64decode _ = None"

lemma index_of_nth: "distinct xs \<Longrightarrow> i < length xs \<Longrightarrow> index_of (xs ! i) xs = Some i"
  by (induction xs arbitrary: i) (auto simp: nth_Cons split: nat.splits)

lemma b64_digit_char [simp]: "b64_digit (b64_char i) = Some (i mod 64)"
proof -
  have "index_of (b64_alphabet ! (i mod 64)) b64_alphabet = Some (i mod 64)"
    by (rule index_of_nth) (simp_all add: b64_alphabet_def)
  moreover have "b64_char i = b64_alphabet ! (i mod 64)" by (simp only: b64_char_def b64_alphabet_def)
  ultimately show ?thesis by (simp only: b64_digit_def)
qed

lemma b64_char_not_pad [simp]: "b64_char i \<noteq> CHR ''=''"
proof
  assume "b64_char i = CHR ''=''"
  then have "b64_digit (CHR ''='') = Some (i mod 64)" by (metis b64_digit_char)
  then show False by (simp add: b64_digit_def b64_alphabet_def)
qed

lemma char_of_mod [simp]: "char_of (n mod 256 :: nat) = char_of n"
  by (metis char_of_mod_256)

lemma digits_join:
  fixes n :: nat
  shows "n div 64 * 64 + n mod 64 = n" "n div 4096 * 64 + n div 64 mod 64 = n div 64"
    "n div 262144 * 64 + n div 4096 mod 64 = n div 4096"
  using div_mult_mod_eq [of "n div 64" 64] div_mult_mod_eq [of "n div 4096" 64]
  by (simp_all flip: div_mult2_eq)

lemma of_char_lt [simp]: "of_char (c :: char) < (256 :: nat)"
  by (rule nat_of_char_less_256)

lemma of_char_le: "of_char (c :: char) \<le> (255 :: nat)"
  using of_char_lt [of c] by linarith

lemma top_digit: "n < 64 * k \<Longrightarrow> (n div k) mod 64 = (n div k :: nat)"
  by (metis less_mult_imp_div_less mod_less)

lemma bytes_of_group:
  fixes a b c :: nat
  assumes "b < 256" "c < 256"
  shows "((a * 256 + b) * 256 + c) div 65536 = a" "((a * 256 + b) * 256 + c) div 256 = a * 256 + b"
  using assms by simp_all

lemma b64_bits_digits:
  "n < 16777216 \<Longrightarrow> b64_bits [b64_char (n div 262144), b64_char (n div 4096), b64_char (n div 64), b64_char n] = Some n"
  "n < 262144 \<Longrightarrow> b64_bits [b64_char (n div 4096), b64_char (n div 64), b64_char n] = Some n"
  "n < 4096 \<Longrightarrow> b64_bits [b64_char (n div 64), b64_char n] = Some n"
  using top_digit [of n 262144] top_digit [of n 4096] top_digit [of n 64] digits_join [of n]
  by (simp_all add: b64_bits_def)

lemma group_bytes_chars:
  fixes a b c :: char
  shows "group_bytes 3 ((of_char a * 256 + of_char b) * 256 + of_char c) = [a, b, c]"
    "group_bytes 2 ((of_char a * 256 + of_char b) * 256) = [a, b]"
    "group_bytes 1 (of_char a * 65536) = [a]"
proof -
  have c: "char_of n = x" if "n = k * 256 + of_char x" for n k :: nat and x :: char
    using char_of_mod [of n] by (simp add: that mod_less)
  have "char_of ((of_char a * 256 + of_char b) * 256 + of_char c :: nat) = c" "char_of (of_char a * 256 + of_char b :: nat) = b"
    by (rule c, rule refl)+
  with bytes_of_group [OF of_char_lt [of b] of_char_lt [of c], of "of_char a"]
  show "group_bytes 3 ((of_char a * 256 + of_char b) * 256 + of_char c) = [a, b, c]"
    by (simp only: group_bytes_def numeral_3_eq_3 take_Suc_Cons take_0 char_of_char)
  show "group_bytes 2 ((of_char a * 256 + of_char b) * 256) = [a, b]" "group_bytes 1 (of_char a * 65536) = [a]"
    using bytes_of_group [OF of_char_lt [of b], of 0 "of_char a"] \<open>char_of (of_char a * 256 + of_char b :: nat) = b\<close>
    by (simp_all only: group_bytes_def numeral_2_eq_2 One_nat_def take_Suc_Cons take_0 char_of_char add_0_right) simp_all
qed

lemma b64decode_encode: "b64decode (b64encode s) = Some s"
proof (induction s rule: b64encode.induct)
  case (2 a)
  have "of_char a * 16 < (4096 :: nat)" using of_char_lt [of a] by linarith
  from b64_bits_digits(3) [OF this] group_bytes_chars(3) [of a] show ?case
    by (simp add: Let_def mult.commute)
next
  case (3 a b)
  have "(of_char a * 256 + of_char b) * 4 < (262144 :: nat)" using of_char_le [of a] of_char_le [of b] by simp
  from b64_bits_digits(2) [OF this] group_bytes_chars(2) [of a b] show ?case
    by (simp add: Let_def mult.commute)
next
  case (4 a b c s)
  have "(of_char a * 256 + of_char b) * 256 + of_char c < (16777216 :: nat)"
    using of_char_le [of a] of_char_le [of b] of_char_le [of c] by simp
  from b64_bits_digits(1) [OF this] group_bytes_chars(1) [of a b c] 4 show ?case
    by (simp add: Let_def)
qed simp

lemma b64decode_foreign: "b64_digit a = None \<Longrightarrow> b64decode (a # s) = None"
  by (induction "a # s" rule: b64decode.induct) (auto simp: b64_bits_def split: option.splits)

section \<open>UTF-8\<close>

definition utf8_encode :: "string \<Rightarrow> string" where
  "utf8_encode s = concat (map (\<lambda>c. let n = of_char c :: nat in
     if n < 128 then [c] else [char_of (192 + n div 64), char_of (128 + n mod 64)]) s)"

text \<open>\<open>None\<close> is a byte sequence that is not UTF-8, or that has a code point of 256 or above.\<close>

fun utf8_decode :: "string \<Rightarrow> string option" where
  "utf8_decode [] = Some []"
| "utf8_decode (a # s) =
     (if of_char a < (128 :: nat) then map_option (Cons a) (utf8_decode s)
      else (case s of
        [] \<Rightarrow> None
      | b # t \<Rightarrow>
          if of_char a \<in> {194, 195 :: nat} \<and> of_char b div 64 = (2 :: nat)
          then map_option (Cons (char_of ((of_char a - 192) * 64 + of_char b mod 64 :: nat))) (utf8_decode t)
          else None))"

lemma utf8_decode_encode: "utf8_decode (utf8_encode s) = Some s"
proof (induction s)
  case (Cons c s)
  let ?n = "of_char c :: nat"
  show ?case
  proof (cases "?n < 128")
    case True
    then show ?thesis using Cons by (simp add: utf8_encode_def)
  next
    case False
    have n: "?n < 256" by simp
    then have q: "?n div 64 = 2 \<or> ?n div 64 = 3" using False by linarith
    have m: "(128 + ?n mod 64) div 64 = 2" "(128 + ?n mod 64) mod 64 = ?n mod 64"
      using mod_mult_self1 [of "?n mod 64" 2 64] by (simp_all add: add.commute)
    have s: "192 + ?n div 64 < 256" "128 + ?n mod 64 < 256" using q by auto
    have join: "char_of (?n div 64 * 64 + ?n mod 64) = c" by simp
    from q show ?thesis
    proof
      assume "?n div 64 = 2"
      with False m s join Cons show ?thesis by (simp add: utf8_encode_def Let_def)
    next
      assume "?n div 64 = 3"
      with False m s join Cons show ?thesis by (simp add: utf8_encode_def Let_def)
    qed
  qed
qed (simp add: utf8_encode_def)

end
