(* ===== verification/Azure.thy ===== *)
theory Azure
  imports Producers Codecs
begin

text \<open>
  \<open>benzene.azure\<close>: the decoders of the Functions triggers (\<open>events.py\<close>) and the host (\<open>app.py\<close>). A
  trigger input read by field name, be it a dictionary or an SDK object, is the dictionary of its fields.
\<close>

section \<open>Messages with properties\<close>

text \<open>A native body; a sequence of byte chunks is the bytes they join to.\<close>

datatype native_body = BodyNone | BodyText string | BodyBytes wire_bytes | BodyOther string

definition body_to_text :: "native_body \<Rightarrow> string outcome" where
  "body_to_text body = (case body of
     BodyNone \<Rightarrow> Inr []
   | BodyText s \<Rightarrow> Inr s
   | BodyBytes b \<Rightarrow> decode_strict b
   | BodyOther shown \<Rightarrow> Inr shown)"

record azure_message =
  am_application_properties :: "(wire_value \<times> wire_value) list option"
  am_properties :: "(wire_value \<times> wire_value) list option"
  am_body :: native_body

definition native_str :: "wire_value \<Rightarrow> string outcome" where
  "native_str v = (case v of WNone \<Rightarrow> Inr ''None'' | WBytes b \<Rightarrow> decode_strict b | WOther x \<Rightarrow> Inr (str_val x))"

text \<open>The first of the attributes that is set and not empty.\<close>

fun message_properties :: "(wire_value \<times> wire_value) list option list \<Rightarrow> (string, string) dict outcome" where
  "message_properties [] = Inr []"
| "message_properties (None # rest) = message_properties rest"
| "message_properties (Some [] # rest) = message_properties rest"
| "message_properties (Some (p # ps) # rest) =
     and_then (each (\<lambda>(k, v). and_then (native_str k) (\<lambda>key. and_then (native_str v) (\<lambda>value. Inr (key, value)))) (p # ps))
       (\<lambda>rows. Inr (dict_of rows))"

definition decode_service_bus :: "metadata_keys \<Rightarrow> azure_message \<Rightarrow> pydict outcome" where
  "decode_service_bus keys m =
     and_then (message_properties [am_application_properties m, am_properties m]) (\<lambda>metadata.
       let (topic, headers) = read_message_metadata (text_metadata metadata) keys
       in and_then (body_to_text (am_body m)) (\<lambda>body. Inr (envelope_of topic headers (VStr body))))"

definition decode_event_hub_event :: "metadata_keys \<Rightarrow> azure_message \<Rightarrow> pydict outcome" where
  "decode_event_hub_event keys event =
     and_then (message_properties [am_properties event, am_application_properties event]) (\<lambda>metadata.
       let (topic, headers) = read_message_metadata (text_metadata metadata) keys
       in and_then (body_to_text (am_body event)) (\<lambda>body. Inr (envelope_of topic headers (VStr body))))"

section \<open>Event-shaped triggers\<close>

definition DEFAULT_BLOB_TOPIC :: string where "DEFAULT_BLOB_TOPIC = ''blob:created''"
definition DEFAULT_COSMOS_TOPIC :: string where "DEFAULT_COSMOS_TOPIC = ''cosmos:change''"
definition DEFAULT_TIMER_TOPIC :: string where "DEFAULT_TIMER_TOPIC = ''timer:tick''"

definition CLOUD_EVENT_ATTRIBUTES :: "string list" where
  "CLOUD_EVENT_ATTRIBUTES = [''specversion'', ''id'', ''source'', ''type'', ''subject'', ''time'',
     ''datacontenttype'', ''dataschema'', ''data'', ''data_base64'']"

fun first_field :: "pydict \<Rightarrow> string list \<Rightarrow> pyval" where
  "first_field source [] = VNone"
| "first_field source (key # keys) =
     (if vget source key \<noteq> VNone then vget source key else first_field source keys)"

definition topic_or :: "pyval \<Rightarrow> string \<Rightarrow> string" where
  "topic_or value default_topic = (if truthy value then str_val value else default_topic)"

text \<open>\<open>dict(raw)\<close> of a decoded value: an object, or a sequence of pairs.\<close>

definition pair_of_value :: "pyval \<Rightarrow> (pyval \<times> pyval) outcome" where
  "pair_of_value v = and_then (elements_of v) (\<lambda>xs. case xs of
     [k, x] \<Rightarrow> if hashable k then Inr (k, x) else Inl (PyException ''TypeError'' ''unhashable type'')
   | _ \<Rightarrow> Inl (PyException ''ValueError'' ''dictionary update sequence element has the wrong length''))"

definition dict_of_value :: "pyval \<Rightarrow> (pyval \<times> pyval) list outcome" where
  "dict_of_value v = (case v of
     VDict ms \<Rightarrow> Inr (map (\<lambda>(k, x). (VStr k, x)) ms)
   | _ \<Rightarrow> and_then (elements_of v) (\<lambda>xs. and_then (each pair_of_value xs) (\<lambda>ps. Inr (dict_of ps))))"

definition header_channel :: "pyval \<Rightarrow> (string, string) dict outcome" where
  "header_channel raw =
     (if \<not> truthy raw then Inr []
      else and_then (dict_of_value raw) (\<lambda>ps. Inr (dict_of (map (\<lambda>(k, v). (py_lower (str_val k), str_val v)) ps))))"

definition payload_text :: "pyval \<Rightarrow> string outcome" where
  "payload_text body = (case body of VNone \<Rightarrow> Inr [] | VStr s \<Rightarrow> Inr s | _ \<Rightarrow> encode_body body)"

definition decode_queue_text :: "string \<Rightarrow> string" where
  "decode_queue_text t = (case b64decode t of
     None \<Rightarrow> t
   | Some decoded \<Rightarrow>
       if b64encode decoded \<noteq> t then t
       else (case utf8_decode decoded of None \<Rightarrow> t | Some s \<Rightarrow> s))"

definition benzene_envelope :: "string \<Rightarrow> pydict option" where
  "benzene_envelope t = (case loads t of
     Some (VDict parsed) \<Rightarrow> if dict_mem ''topic'' parsed then Some parsed else None
   | _ \<Rightarrow> None)"

definition decode_queue_storage :: "string \<Rightarrow> azure_message \<Rightarrow> pydict outcome" where
  "decode_queue_storage default_topic m = and_then (body_to_text (am_body m)) (\<lambda>raw.
     let t = decode_queue_text raw
     in case benzene_envelope t of
          None \<Rightarrow> Inr (envelope_of default_topic [] (VStr t))
        | Some envelope \<Rightarrow>
            and_then (header_channel (vget envelope ''headers'')) (\<lambda>headers.
            and_then (payload_text (vget envelope ''body'')) (\<lambda>body.
              Inr (envelope_of (topic_or (vget envelope ''topic'') default_topic) headers (VStr body)))))"

text \<open>The fields of a source that are set.\<close>

definition set_fields :: "pydict \<Rightarrow> string list \<Rightarrow> pydict" where
  "set_fields source keys = concat (map (\<lambda>key. if vget source key \<noteq> VNone then [(key, vget source key)] else []) keys)"

definition decode_blob_created :: "string \<Rightarrow> pydict \<Rightarrow> pydict outcome" where
  "decode_blob_created default_topic blob =
     and_then (encode_body (VDict (set_fields blob [''name'', ''uri'', ''length'', ''metadata'', ''content_type''])))
       (\<lambda>body. Inr (envelope_of default_topic [] (VStr body)))"

definition decode_cosmos_document :: "string \<Rightarrow> pyval \<Rightarrow> pydict outcome" where
  "decode_cosmos_document default_topic document =
     and_then (encode_body document) (\<lambda>body. Inr (envelope_of default_topic [] (VStr body)))"

definition decode_timer :: "string \<Rightarrow> pydict \<Rightarrow> pydict outcome" where
  "decode_timer default_topic timer =
     and_then (encode_body (VDict ((''isPastDue'', VBool (truthy (first_field timer [''past_due'', ''is_past_due''])))
         # set_fields timer [''schedule_status'', ''schedule''])))
       (\<lambda>body. Inr (envelope_of default_topic [] (VStr body)))"

definition is_cloud_event :: "pydict \<Rightarrow> bool" where
  "is_cloud_event event \<longleftrightarrow> vget event ''specversion'' \<noteq> VNone"

definition cloud_event_headers :: "pydict \<Rightarrow> (string, string) dict" where
  "cloud_event_headers event = dict_of (map (\<lambda>(key, value). (py_lower key, str_val value))
     (filter (\<lambda>(key, value). py_lower key \<notin> set CLOUD_EVENT_ATTRIBUTES) event))"

definition decode_event_grid :: "string \<Rightarrow> pydict \<Rightarrow> pydict outcome" where
  "decode_event_grid default_topic event =
     (let data = vget event ''data''
      in if is_cloud_event event then
           and_then (payload_text data) (\<lambda>body.
             Inr (envelope_of (topic_or (vget event ''type'') default_topic) (cloud_event_headers event) (VStr body)))
         else and_then (header_channel (vget event ''headers'')) (\<lambda>headers.
           and_then (payload_text data) (\<lambda>body.
             Inr (envelope_of (topic_or (first_field event [''eventType'', ''event_type'']) default_topic) headers (VStr body)))))"

section \<open>The host\<close>

record 'w azure_app =
  az_application :: "'w application"
  az_settlement :: settlement
  az_http_app :: "'w http_app option"

definition new_azure_app ::
  "classes \<Rightarrow> 'w handler http_router option \<Rightarrow> 'w handler registry option \<Rightarrow> 'w application option \<Rightarrow>
   'w standard_paths option \<Rightarrow> settlement \<Rightarrow> 'w azure_app outcome" where
  "new_azure_app ct router reg app std st =
     and_then (case app of
         Some a \<Rightarrow> Inr a
       | None \<Rightarrow> and_then (case reg of
             Some r \<Rightarrow> Inr r
           | None \<Rightarrow> (case router of None \<Rightarrow> Inr [] | Some rt \<Rightarrow> from_definitions [router_definitions rt]))
           (\<lambda>r. new_application ct r None None None None)) (\<lambda>a.
     Inr \<lparr>az_application = a, az_settlement = st,
          az_http_app = map_option (\<lambda>rt. \<lparr>ha_router = rt, ha_application = a, ha_standard = std\<rparr>) router\<rparr>)"

definition az_handle_http ::
  "'w azure_app \<Rightarrow> string \<Rightarrow> string \<Rightarrow> string \<Rightarrow> pydict option \<Rightarrow> string \<Rightarrow> ('w, http_response) action" where
  "az_handle_http az verb path query headers body = (case az_http_app az of
     None \<Rightarrow> act_return \<lparr>hrsp_status = 501, hrsp_headers = json_headers, hrsp_body = ''{\"status\": \"not-implemented\"}''\<rparr>
   | Some ha \<Rightarrow> http_handle ha verb path query (headers_or_empty headers) body)"

text \<open>One input, or the list a trigger of cardinality \<open>many\<close> delivers.\<close>

datatype 'm trigger_input = One 'm | Many "'m list"

definition inputs :: "'m trigger_input \<Rightarrow> 'm list" where
  "inputs i = (case i of One m \<Rightarrow> [m] | Many ms \<Rightarrow> ms)"

text \<open>\<open>_settle_or_raise\<close> for each input in turn; the first that is not acknowledged ends the invocation.\<close>

definition settle_inputs :: "'w azure_app \<Rightarrow> ('m \<Rightarrow> pydict outcome) \<Rightarrow> 'm list \<Rightarrow> ('w, unit) action" where
  "settle_inputs az decode ms = settle_each (az_application az) (az_settlement az) decode ms"

definition az_keys :: "'w azure_app \<Rightarrow> metadata_keys" where
  "az_keys az = app_metadata_keys (az_application az)"

definition handle_service_bus :: "'w azure_app \<Rightarrow> azure_message \<Rightarrow> ('w, unit) action" where
  "handle_service_bus az m = settle_inputs az (decode_service_bus (az_keys az)) [m]"

definition handle_event_hub :: "'w azure_app \<Rightarrow> azure_message trigger_input \<Rightarrow> ('w, unit) action" where
  "handle_event_hub az events = settle_inputs az (decode_event_hub_event (az_keys az)) (inputs events)"

definition handle_queue_storage :: "'w azure_app \<Rightarrow> string \<Rightarrow> azure_message \<Rightarrow> ('w, unit) action" where
  "handle_queue_storage az default_topic m = settle_inputs az (decode_queue_storage default_topic) [m]"

definition handle_blob :: "'w azure_app \<Rightarrow> string \<Rightarrow> pydict \<Rightarrow> ('w, unit) action" where
  "handle_blob az default_topic blob = settle_inputs az (decode_blob_created default_topic) [blob]"

definition handle_cosmos :: "'w azure_app \<Rightarrow> string \<Rightarrow> pyval trigger_input \<Rightarrow> ('w, unit) action" where
  "handle_cosmos az default_topic documents = settle_inputs az (decode_cosmos_document default_topic) (inputs documents)"

definition handle_timer :: "'w azure_app \<Rightarrow> string \<Rightarrow> pydict \<Rightarrow> ('w, unit) action" where
  "handle_timer az default_topic timer = settle_inputs az (decode_timer default_topic) [timer]"

definition handle_event_grid :: "'w azure_app \<Rightarrow> string \<Rightarrow> pydict trigger_input \<Rightarrow> ('w, unit) action" where
  "handle_event_grid az default_topic event = settle_inputs az (decode_event_grid default_topic) (inputs event)"

end
