(* ===== verification/AzureClients.thy ===== *)
theory AzureClients
  imports Azure
begin

text \<open>
  \<open>benzene.azure.clients\<close>: the Service Bus, Event Hub, Queue Storage and Event Grid senders, their start-up
  checks, and what reaches a handler behind the trigger at the other end. Building an SDK message or batch
  belongs to the client call; the id and the time of an event are drawn from the world.
\<close>

section \<open>Start-up checks\<close>

definition require_config :: "string \<Rightarrow> string \<Rightarrow> bool \<Rightarrow> (string \<times> string option) list \<Rightarrow> unit outcome" where
  "require_config sender injected present required =
     (let missing = map fst (filter (\<lambda>(name, value). value = None) required);
          needed = py_join '', '' (map (\<lambda>name. name @ ''='') (sort missing))
      in if present \<or> missing = [] then Inr ()
         else Inl (PyException ''ValueError'' (sender @ '' is missing '' @ needed @ '' and no '' @ injected
           @ ''= was injected, so it cannot build a client. Pass the missing argument(s) - if they come from ''
           @ ''environment variables, check those are actually set - or inject an already-built client with ''
           @ injected @ ''=.'')))"

definition service_bus_config :: "string option \<Rightarrow> string option \<Rightarrow> bool \<Rightarrow> unit outcome" where
  "service_bus_config connection_string entity_name present = require_config ''ServiceBusMessageSender'' ''sender'' present
     [(''connection_string'', connection_string), (''entity_name'', entity_name)]"

definition event_hub_config :: "string option \<Rightarrow> bool \<Rightarrow> unit outcome" where
  "event_hub_config connection_string present = require_config ''EventHubMessageSender'' ''producer'' present
     [(''connection_string'', connection_string)]"

definition queue_storage_config :: "string option \<Rightarrow> string option \<Rightarrow> string option \<Rightarrow> bool \<Rightarrow> unit outcome" where
  "queue_storage_config queue_url queue_name connection_string present =
     (if \<not> present \<and> queue_url = None \<and> \<not> (or_text connection_string [] \<noteq> [] \<and> or_text queue_name [] \<noteq> [])
      then Inl (PyException ''ValueError'' (''QueueStorageMessageSender needs either queue_url=, or both ''
        @ ''connection_string= and queue_name=, and no client= was injected, so it cannot build a client. If ''
        @ ''these come from environment variables, check those are actually set.''))
      else Inr ())"

definition event_grid_config :: "string option \<Rightarrow> string option \<Rightarrow> bool \<Rightarrow> unit outcome" where
  "event_grid_config topic_endpoint key present = require_config ''EventGridMessageSender'' ''client'' present
     [(''topic_endpoint'', topic_endpoint), (''key'', key)]"

section \<open>The senders\<close>

text \<open>A message with a native property channel, as Service Bus and Event Hub have.\<close>

record property_message =
  sb_properties :: "(string, string) dict"
  sb_body :: string

definition text_properties :: "metadata_keys \<Rightarrow> string \<Rightarrow> pydict option \<Rightarrow> (string, string) dict" where
  "text_properties keys topic headers =
     dict_set (mk_topic keys) topic (dict_of (map (\<lambda>(k, v). (k, str_val v)) (headers_or_empty headers)))"

definition service_bus_send ::
  "metadata_keys \<Rightarrow> serializer \<Rightarrow> ('w, property_message, 'r) client_call \<Rightarrow> 'w sender" where
  "service_bus_send keys serialize send_messages topic message headers =
     try_publish (called_map (\<lambda>body. \<lparr>sb_properties = text_properties keys topic headers, sb_body = body\<rparr>)
       (serialize message)) send_messages"

definition event_hub_send ::
  "metadata_keys \<Rightarrow> serializer \<Rightarrow> ('w, property_message, 'r) client_call \<Rightarrow> 'w sender" where
  "event_hub_send keys serialize send_batch topic message headers =
     try_publish (called_map (\<lambda>body. \<lparr>sb_properties = text_properties keys topic headers, sb_body = body\<rparr>)
       (serialize message)) send_batch"

definition queue_message :: "bool \<Rightarrow> string \<Rightarrow> pydict option \<Rightarrow> string \<Rightarrow> string" where
  "queue_message base64_encode topic headers body =
     (let t = json_text (VDict [(''topic'', VStr topic),
            (''headers'', VDict (dict_of (map (\<lambda>(k, v). (k, VStr (str_val v))) (headers_or_empty headers)))),
            (''body'', VStr body)])
      in if base64_encode then b64encode (utf8_encode t) else t)"

definition queue_storage_send :: "bool \<Rightarrow> serializer \<Rightarrow> ('w, string, 'r) client_call \<Rightarrow> 'w sender" where
  "queue_storage_send base64_encode serialize send_message topic message headers =
     try_publish (called_map (queue_message base64_encode topic headers) (serialize message)) send_message"

record event_grid_options =
  eg_subject :: string
  eg_source :: string
  eg_data_version :: string
  eg_cloud_events :: bool

definition make_event :: "event_grid_options \<Rightarrow> string \<Rightarrow> string \<Rightarrow> string \<Rightarrow> pyval \<Rightarrow> pydict option \<Rightarrow> pydict" where
  "make_event opts event_id now topic message headers =
     (if eg_cloud_events opts then
        dict_update [(''specversion'', VStr ''1.0''), (''id'', VStr event_id), (''source'', VStr (eg_source opts)),
            (''type'', VStr topic), (''subject'', VStr (eg_subject opts)), (''time'', VStr now),
            (''data'', to_jsonable message)]
          (dict_of (map (\<lambda>(k, v). (py_lower k, VStr (str_val v))) (headers_or_empty headers)))
      else [(''id'', VStr event_id), (''eventType'', VStr topic), (''subject'', VStr (eg_subject opts)),
            (''eventTime'', VStr now), (''dataVersion'', VStr (eg_data_version opts)), (''data'', to_jsonable message),
            (''headers'', VDict (dict_of (map (\<lambda>(k, v). (k, VStr (str_val v))) (headers_or_empty headers))))])"

definition event_grid_send ::
  "event_grid_options \<Rightarrow> ('w \<Rightarrow> (string \<times> string) \<times> 'w) \<Rightarrow> ('w, pydict, 'r) client_call \<Rightarrow> 'w sender" where
  "event_grid_send opts stamp call topic message headers = (\<lambda>w.
     let ((event_id, now), w') = stamp w
     in try_publish (Returned (make_event opts event_id now topic message headers)) call w')"

interpretation service_bus: publisher "service_bus_send keys serialize call"
  "\<lambda>topic message headers. called_map (\<lambda>body. \<lparr>sb_properties = text_properties keys topic headers, sb_body = body\<rparr>)
     (serialize message)" call
  for keys serialize call
  by unfold_locales (simp add: service_bus_send_def)

interpretation event_hub: publisher "event_hub_send keys serialize call"
  "\<lambda>topic message headers. called_map (\<lambda>body. \<lparr>sb_properties = text_properties keys topic headers, sb_body = body\<rparr>)
     (serialize message)" call
  for keys serialize call
  by unfold_locales (simp add: event_hub_send_def)

interpretation queue_storage: publisher "queue_storage_send b64 serialize call"
  "\<lambda>topic message headers. called_map (queue_message b64 topic headers) (serialize message)" call
  for b64 serialize call
  by unfold_locales (simp add: queue_storage_send_def)

section \<open>From a sender to a trigger\<close>

text \<open>The properties of a message, delivered as text.\<close>

definition delivered_properties :: "(string, string) dict \<Rightarrow> (wire_value \<times> wire_value) list option" where
  "delivered_properties d = Some (map (\<lambda>(k, v). (WOther (VStr k), WOther (VStr v))) d)"

lemma each_rows:
  "each (\<lambda>(k, v). and_then (native_str k) (\<lambda>key. and_then (native_str v) (\<lambda>value. Inr (key, value))))
     (map (\<lambda>(k, v). (WOther (VStr k), WOther (VStr v))) d) = Inr d"
  by (induction d) (auto simp: native_str_def)

lemma message_properties_delivered:
  assumes "d \<noteq> []" "dict_ok d"
  shows "message_properties (delivered_properties d # rest) = Inr d"
proof -
  obtain p ps where d: "d = p # ps" using assms(1) by (cases d) auto
  have "message_properties (delivered_properties d # rest) = and_then (each (\<lambda>(k, v). and_then (native_str k)
      (\<lambda>key. and_then (native_str v) (\<lambda>value. Inr (key, value)))) (map (\<lambda>(k, v). (WOther (VStr k), WOther (VStr v))) d))
      (\<lambda>rows. Inr (dict_of rows))"
    by (simp add: d delivered_properties_def)
  then show ?thesis using dict_of_ok [OF assms(2)] by (simp only: each_rows and_then_simps)
qed

lemma sent_properties:
  assumes "sendable_headers keys h"
  shows "text_properties keys topic (Some h) = texts h @ [(mk_topic keys, topic)]"
  using sent_amqp_headers [OF assms, of topic] by (simp add: text_properties_def amqp_headers_def)

lemma properties_decoded:
  fixes topic body :: string
  assumes "sendable_headers keys h"
  defines "env \<equiv> envelope_of topic (map (\<lambda>(k, v). (py_lower k, v)) (texts h)) (VStr body)"
  shows "decode_service_bus keys \<lparr>am_application_properties = delivered_properties (text_properties keys topic (Some h)),
      am_properties = other, am_body = BodyText body\<rparr> = Inr env"
    "decode_event_hub_event keys \<lparr>am_application_properties = other,
      am_properties = delivered_properties (text_properties keys topic (Some h)), am_body = BodyText body\<rparr> = Inr env"
proof -
  have "message_properties (delivered_properties (text_properties keys topic (Some h)) # rest) =
      Inr (texts h @ [(mk_topic keys, topic)])" for rest
    unfolding sent_properties [OF assms(1)]
    by (rule message_properties_delivered) (use sendable_names(1) [OF assms(1), of topic] in \<open>simp_all add: dict_ok_def\<close>)
  then show "decode_service_bus keys \<lparr>am_application_properties = delivered_properties (text_properties keys topic (Some h)),
      am_properties = other, am_body = BodyText body\<rparr> = Inr env"
    "decode_event_hub_event keys \<lparr>am_application_properties = other,
      am_properties = delivered_properties (text_properties keys topic (Some h)), am_body = BodyText body\<rparr> = Inr env"
    using read_sent_metadata [OF assms(1), of topic]
    by (simp_all add: decode_service_bus_def decode_event_hub_event_def body_to_text_def env_def)
qed

text \<open>Header rows in either spelling are read as the lowered text headers.\<close>

lemma header_channel_sent:
  assumes "sendable_headers keys h"
  shows "header_channel (VDict (map (\<lambda>(k, v). (k, VStr (str_val v))) h)) = Inr (map (\<lambda>(k, v). (py_lower k, v)) (texts h))"
proof -
  have low: "map (\<lambda>(k, v). (py_lower (str_val k), str_val v)) (map (\<lambda>(k, x). (VStr k, x)) (map (\<lambda>(k, v). (k, VStr (str_val v))) h))
      = map (\<lambda>(k, v). (py_lower k, v)) (texts h)"
    by (simp add: texts_def comp_def case_prod_unfold)
  have "dict_ok (map (\<lambda>(k, v). (py_lower k, v)) (texts h))"
    using sendable_names(2) [OF assms, of "[]"] by (simp add: dict_ok_def comp_def case_prod_unfold)
  from dict_of_ok [OF this] show ?thesis
    unfolding header_channel_def dict_of_value_def pyval.case and_then_simps low by (simp add: texts_def)
qed

lemma sent_rows:
  assumes "sendable_headers keys h"
  shows "dict_of (map (\<lambda>(k, v). (k, VStr (str_val v))) h) = map (\<lambda>(k, v). (k, VStr (str_val v))) h"
  using sendable_names(1) [OF assms, of "[]"]
  by (intro dict_of_ok) (simp add: dict_ok_def texts_def comp_def case_prod_unfold)

lemma decode_queue_text_sent:
  assumes "t = json_text (VDict d)"
  shows "decode_queue_text (if b64 then b64encode (utf8_encode t) else t) = t"
proof -
  obtain r where r: "t = CHR ''{'' # r" using assms by simp
  have "b64_digit (CHR ''{'') = None" by (simp add: b64_digit_def b64_alphabet_def)
  then have "b64decode t = None" unfolding r by (rule b64decode_foreign)
  then show ?thesis
    by (simp add: decode_queue_text_def b64decode_encode utf8_decode_encode)
qed

lemma queue_decoded:
  fixes topic body :: string
  assumes "sendable_headers keys h" "topic \<noteq> []"
  shows "decode_queue_storage default_topic \<lparr>am_application_properties = a, am_properties = p,
      am_body = BodyText (queue_message b64 topic (Some h) body)\<rparr> =
    Inr (envelope_of topic (map (\<lambda>(k, v). (py_lower k, v)) (texts h)) (VStr body))"
proof -
  let ?rows = "map (\<lambda>(k, v). (k, VStr (str_val v))) h"
  define d where "d = [(''topic'', VStr topic), (''headers'', VDict ?rows), (''body'', VStr body)]"
  have "distinct (map fst ?rows)"
    using sendable_names(1) [OF assms(1), of "[]"] by (simp add: texts_def comp_def case_prod_unfold)
  then have j: "json_ok (VDict d)" by (auto simp: d_def)
  have q: "queue_message b64 topic (Some h) body = (if b64 then b64encode (utf8_encode (json_text (VDict d))) else json_text (VDict d))"
    by (simp only: queue_message_def headers_or_empty_def option.case sent_rows [OF assms(1)] Let_def d_def)
  have "benzene_envelope (json_text (VDict d)) = Some d"
    unfolding benzene_envelope_def loads_json_text [OF j] by (simp add: d_def dict_mem_def)
  then have "decode_queue_storage default_topic \<lparr>am_application_properties = a, am_properties = p,
      am_body = BodyText (queue_message b64 topic (Some h) body)\<rparr> =
      and_then (header_channel (vget d ''headers'')) (\<lambda>headers. and_then (payload_text (vget d ''body'')) (\<lambda>body.
        Inr (envelope_of (topic_or (vget d ''topic'') default_topic) headers (VStr body))))"
    unfolding q decode_queue_storage_def azure_message.select_convs body_to_text_def native_body.case and_then_simps
      decode_queue_text_sent [OF refl] Let_def by simp
  then show ?thesis
    using assms(2) header_channel_sent [OF assms(1)]
    by (simp add: d_def vget_def payload_text_def topic_or_def)
qed

lemma payload_text_object:
  assumes "to_jsonable message = VDict p" "json_ok (VDict p)"
  shows "payload_text (VDict p) = encode_body message" "encode_body message = Inr (json_text (VDict p))"
proof -
  show "encode_body message = Inr (json_text (VDict p))"
    using assms(1) dumps_json_ok [OF assms(2)]
    by (cases message) (simp_all add: encode_body_def del: json_text.simps json_ok.simps)
  then show "payload_text (VDict p) = encode_body message"
    using to_jsonable_json [OF assms(2)] dumps_json_ok [OF assms(2)]
    by (simp add: payload_text_def encode_body_def [of "VDict p"] del: json_text.simps json_ok.simps to_jsonable.simps)
qed

lemma attributes_lower: "k \<in> set CLOUD_EVENT_ATTRIBUTES \<Longrightarrow> py_lower k = k"
proof -
  have "list_all (\<lambda>k. py_lower k = k) CLOUD_EVENT_ATTRIBUTES" by code_simp
  then show "k \<in> set CLOUD_EVENT_ATTRIBUTES \<Longrightarrow> py_lower k = k" by (simp add: list_all_iff)
qed

lemma event_grid_decoded:
  fixes topic :: string
  assumes "sendable_headers keys h" "topic \<noteq> []" "to_jsonable message = VDict p" "json_ok (VDict p)"
    and "eg_cloud_events opts \<Longrightarrow> \<forall>(k, v) \<in> set h. py_lower k \<notin> set CLOUD_EVENT_ATTRIBUTES"
  shows "decode_event_grid default_topic (make_event opts i now topic message (Some h)) =
    Inr (envelope_of topic (map (\<lambda>(k, v). (py_lower k, v)) (texts h)) (VStr (json_text (VDict p))))"
proof (cases "eg_cloud_events opts")
  case False
  have "payload_text (VDict p) = Inr (json_text (VDict p))" using payload_text_object [OF assms(3,4)] by simp
  with False assms(2,3) header_channel_sent [OF assms(1)] sent_rows [OF assms(1)] show ?thesis
    by (simp add: decode_event_grid_def make_event_def headers_or_empty_def vget_def is_cloud_event_def topic_or_def
        del: json_text.simps)
next
  case True
  let ?low = "map (\<lambda>(k, v). (py_lower k, VStr (str_val v))) h"
  let ?base = "[(''specversion'', VStr ''1.0''), (''id'', VStr i), (''source'', VStr (eg_source opts)), (''type'', VStr topic),
      (''subject'', VStr (eg_subject opts)), (''time'', VStr now), (''data'', VDict p)]"
  have low: "dict_ok (map (\<lambda>(k, v). (py_lower k, v)) (texts h))" "dict_ok ?low"
    using sendable_names(2) [OF assms(1), of "[]"] by (simp_all add: dict_ok_def texts_def comp_def case_prod_unfold)
  have out: "fst ` set ?low \<inter> set CLOUD_EVENT_ATTRIBUTES = {}" using assms(5) True by auto
  have c: "fst ` set ?base \<subseteq> set CLOUD_EVENT_ATTRIBUTES" "dict_ok ?base"
    by (simp_all add: CLOUD_EVENT_ATTRIBUTES_def dict_ok_def)
  then have "dict_ok (?base @ ?low)" using out low(2) unfolding dict_ok_def map_append distinct_append set_map by blast
  then have ev: "make_event opts i now topic message (Some h) = ?base @ ?low"
    using True assms(3) dict_of_ok [OF low(2)] dict_update_fresh [of ?base ?low]
    by (simp add: make_event_def headers_or_empty_def)
  have f: "filter (\<lambda>(key, value). py_lower key \<notin> set CLOUD_EVENT_ATTRIBUTES) (?base @ ?low) = ?low"
  proof -
    have "filter (\<lambda>(key, value). py_lower key \<notin> set CLOUD_EVENT_ATTRIBUTES) ?base = []"
      unfolding filter_empty_conv using c(1) attributes_lower by fastforce
    moreover have "filter (\<lambda>(key, value). py_lower key \<notin> set CLOUD_EVENT_ATTRIBUTES) ?low = ?low"
      unfolding filter_id_conv using assms(5) True by auto
    ultimately show ?thesis unfolding filter_append by simp
  qed
  have "map (\<lambda>(key, value). (py_lower key, str_val value)) ?low = map (\<lambda>(k, v). (py_lower k, v)) (texts h)"
    by (simp add: texts_def comp_def case_prod_unfold)
  with dict_of_ok [OF low(1)] have hs: "cloud_event_headers (?base @ ?low) = map (\<lambda>(k, v). (py_lower k, v)) (texts h)"
    unfolding cloud_event_headers_def f by simp
  have "payload_text (VDict p) = Inr (json_text (VDict p))" using payload_text_object [OF assms(3,4)] by simp
  with assms(2) show ?thesis
    unfolding ev decode_event_grid_def hs by (simp add: vget_def is_cloud_event_def topic_or_def del: json_text.simps)
qed

lemma settles_as_sent:
  assumes "decode m = Inr (envelope_of topic (map (\<lambda>(k, v). (py_lower k, v)) (texts h)) (VStr body))" "sendable_headers keys h"
  shows "settle_inputs az decode [m] =
     settle_inputs az (\<lambda>_. Inr [(''topic'', VStr topic), (''headers'', VDict h), (''body'', VStr body)]) [()]"
  using assms(1) app_handle_lowered [OF lowered_headers [OF assms(2)], of "az_application az" "az_settlement az" topic body]
  by (simp add: settle_inputs_def fun_eq_iff settle_or_raise_def envelope_of_def split: prod.splits sum.splits)

text \<open>
  C22. What an Azure sender writes, the trigger at the other end settles as the message that was sent. Over
  Service Bus, Event Hub, a storage queue (plain or base64) and Event Grid (native or CloudEvents) the
  sender makes one client call and answers \<open>ok\<close>; the trigger that receives what was sent dispatches and
  settles it exactly like an in-process message with the sender's topic, headers and serialized body. In
  CloudEvents mode that needs header names that are not context attributes: a header named \<open>type\<close> replaces
  the topic.
\<close>

theorem azure_round_trip:
  assumes "sendable_headers (az_keys az) h" "topic \<noteq> []"
    and "to_jsonable message = VDict p" "json_ok (VDict p)" "encode_body message = Inr body"
    and "eg_cloud_events opts \<Longrightarrow> \<forall>(k, v) \<in> set h. py_lower k \<notin> set CLOUD_EVENT_ATTRIBUTES"
  defines "sent \<equiv> settle_inputs az (\<lambda>_. Inr [(''topic'', VStr topic), (''headers'', VDict h), (''body'', VStr body)]) [()]"
  shows "(\<exists>q. service_bus_send (az_keys az) default_serializer (record_call reply) topic message (Some h) [] = (Inr (ok VNone), [q]) \<and>
            handle_service_bus az \<lparr>am_application_properties = delivered_properties (sb_properties q), am_properties = None,
              am_body = BodyText (sb_body q)\<rparr> = sent) \<and>
         (\<exists>q. event_hub_send (az_keys az) default_serializer (record_call reply) topic message (Some h) [] = (Inr (ok VNone), [q]) \<and>
            handle_event_hub az (One \<lparr>am_application_properties = None, am_properties = delivered_properties (sb_properties q),
              am_body = BodyText (sb_body q)\<rparr>) = sent) \<and>
         (\<exists>q. queue_storage_send b64 default_serializer (record_call reply) topic message (Some h) [] = (Inr (ok VNone), [q]) \<and>
            handle_queue_storage az default_topic \<lparr>am_application_properties = None, am_properties = None, am_body = BodyText q\<rparr> = sent) \<and>
         (\<exists>q. event_grid_send opts (\<lambda>w. ((event_id, now), w)) (record_call reply) topic message (Some h) [] = (Inr (ok VNone), [q]) \<and>
            handle_event_grid az default_topic (One q) = sent)"
proof (intro conjI)
  have ser: "default_serializer message = Returned body"
    by (simp add: default_serializer_def called_of_def assms(5))
  have b: "body = json_text (VDict p)" using payload_text_object(2) [OF assms(3,4)] assms(5) by simp
  note settled = settles_as_sent [where az = az, OF _ assms(1), of _ _ topic body, folded sent_def]
  note wires = service_bus_send_def event_hub_send_def queue_storage_send_def event_grid_send_def
    try_publish_def caught_def record_call_def ser inputs_def
  show "\<exists>q. service_bus_send (az_keys az) default_serializer (record_call reply) topic message (Some h) [] = (Inr (ok VNone), [q]) \<and>
      handle_service_bus az \<lparr>am_application_properties = delivered_properties (sb_properties q), am_properties = None,
        am_body = BodyText (sb_body q)\<rparr> = sent"
    using settled [where decode = "decode_service_bus (az_keys az)", OF properties_decoded(1) [OF assms(1)]] by (simp add: wires handle_service_bus_def)
  show "\<exists>q. event_hub_send (az_keys az) default_serializer (record_call reply) topic message (Some h) [] = (Inr (ok VNone), [q]) \<and>
      handle_event_hub az (One \<lparr>am_application_properties = None, am_properties = delivered_properties (sb_properties q),
        am_body = BodyText (sb_body q)\<rparr>) = sent"
    using settled [where decode = "decode_event_hub_event (az_keys az)", OF properties_decoded(2) [OF assms(1)]] by (simp add: wires handle_event_hub_def)
  show "\<exists>q. queue_storage_send b64 default_serializer (record_call reply) topic message (Some h) [] = (Inr (ok VNone), [q]) \<and>
      handle_queue_storage az default_topic \<lparr>am_application_properties = None, am_properties = None, am_body = BodyText q\<rparr> = sent"
    using settled [where decode = "decode_queue_storage default_topic", OF queue_decoded [OF assms(1,2)]] by (simp add: wires handle_queue_storage_def)
  show "\<exists>q. event_grid_send opts (\<lambda>w. ((event_id, now), w)) (record_call reply) topic message (Some h) [] = (Inr (ok VNone), [q]) \<and>
      handle_event_grid az default_topic (One q) = sent"
    using settled [where decode = "decode_event_grid default_topic", OF event_grid_decoded [OF assms(1-4,6), folded b]] by (simp add: wires handle_event_grid_def)
qed

definition plain_azure :: "'w azure_app" where
  "plain_azure = \<lparr>az_application = plain_app, az_settlement = AT_LEAST_ONCE, az_http_app = None\<rparr>"

definition cloud_options :: event_grid_options where
  "cloud_options = \<lparr>eg_subject = ''benzene'', eg_source = ''benzene'', eg_data_version = ''1.0'', eg_cloud_events = True\<rparr>"

theorem azure_round_trip_witness:
  "\<exists>q. event_grid_send cloud_options (\<lambda>w. ((''e1'', ''2024-01-01T00:00:00+00:00''), w)) (record_call ()) ''order:created''
       (VDict [(''id'', VInt 1)]) (Some [(''X-Correlation-Id'', VStr ''c1'')]) [] = (Inr (ok VNone), [q]) \<and>
     handle_event_grid (plain_azure :: unit azure_app) [] (One q) =
       settle_inputs plain_azure (\<lambda>_. Inr [(''topic'', VStr ''order:created''),
         (''headers'', VDict [(''X-Correlation-Id'', VStr ''c1'')]), (''body'', VStr ''{\"id\": 1}'')]) [()]"
proof -
  let ?h = "[(''X-Correlation-Id'', VStr ''c1'')]" and ?p = "[(''id'', VInt 1)]"
  have k: "az_keys (plain_azure :: unit azure_app) = DEFAULT_METADATA_KEYS"
    by (simp add: az_keys_def plain_azure_def plain_app_def)
  have h: "sendable_headers (az_keys (plain_azure :: unit azure_app)) ?h" unfolding k by code_simp
  have b: "encode_body (VDict ?p) = Inr ''{\"id\": 1}''" by code_simp
  have "list_all (\<lambda>(k, v). py_lower k \<notin> set CLOUD_EVENT_ATTRIBUTES) ?h" by code_simp
  then have c: "\<forall>(k, v) \<in> set ?h. py_lower k \<notin> set CLOUD_EVENT_ATTRIBUTES" by (simp add: list_all_iff)
  have p: "to_jsonable (VDict ?p) = VDict ?p" "json_ok (VDict ?p)" "''order:created'' \<noteq> []" by simp_all
  show ?thesis
    by (rule azure_round_trip [where az = "plain_azure :: unit azure_app" and message = "VDict ?p" and p = ?p,
        OF h p(3,1,2) b c, THEN conjunct2, THEN conjunct2, THEN conjunct2])
qed

text \<open>The header that replaces the topic of a CloudEvent.\<close>

lemma cloud_event_type_header:
  assumes "eg_cloud_events opts" "other \<noteq> []" "to_jsonable message = VDict p" "json_ok (VDict p)"
  shows "\<exists>env. decode_event_grid default_topic (make_event opts i now topic message (Some [(''type'', VStr other)])) = Inr env \<and>
    vget env ''topic'' = VStr other"
proof -
  have "py_lower ''type'' = ''type''" by code_simp
  with assms payload_text_object [OF assms(3,4)] show ?thesis
    by (simp add: make_event_def headers_or_empty_def dict_of_def dict_update_def decode_event_grid_def is_cloud_event_def
        vget_def topic_or_def envelope_of_def del: json_text.simps)
qed

section \<open>Settling at the trigger\<close>

text \<open>
  An Azure function answers for all the inputs of its invocation: a trigger that delivers a batch either
  returns, with every input dispatched in order and acknowledged, or fails at the first that is refused, in the
  world that input left, so that nothing behind it has run and the platform redelivers.
\<close>

lemma azure_settles_in_order:
  assumes "handle_event_hub az (Many events) w = (x, w')"
    and "handle_cosmos az cosmos_topic (Many documents) v = (y, v')"
    and app: "app = az_application az" "st = az_settlement az"
  shows "x = Inr () \<and> acknowledged_run app st (decode_event_hub_event (az_keys az)) events w w' \<or>
      (\<exists>e ps m qs w1. x = Inl e \<and> events = ps @ m # qs \<and>
         acknowledged_run app st (decode_event_hub_event (az_keys az)) ps w w1 \<and>
         refused app st (decode_event_hub_event (az_keys az)) m w1 e w')"
    and "y = Inr () \<and> acknowledged_run app st (decode_cosmos_document cosmos_topic) documents v v' \<or>
      (\<exists>e ps m qs v1. y = Inl e \<and> documents = ps @ m # qs \<and>
         acknowledged_run app st (decode_cosmos_document cosmos_topic) ps v v1 \<and>
         refused app st (decode_cosmos_document cosmos_topic) m v1 e v')"
  using settle_each_runs [of app st "decode_event_hub_event (az_keys az)" events w x w']
    settle_each_runs [of app st "decode_cosmos_document cosmos_topic" documents v y v'] assms
  by (simp_all add: handle_event_hub_def handle_cosmos_def settle_inputs_def inputs_def)

end
