(* ===== verification/Gcp.thy ===== *)
theory Gcp
  imports Producers
begin

text \<open>
  \<open>benzene.gcp\<close>: the Pub/Sub trigger of the Functions host (\<open>functions.py\<close>) and the Pub/Sub binding
  (\<open>pubsub.py\<close>). Reading \<open>data\<close> leniently as base64 and then as UTF-8 is the argument \<open>unb64\<close>, \<open>None\<close> where
  Python raises \<open>ValueError\<close>; the message has been taken out of its CloudEvent.
\<close>

datatype pubsub_data = PubNone | PubBytes wire_bytes | PubText string

record pubsub_message =
  pm_attributes :: "(pyval \<times> pyval) list option"
  pm_data :: pubsub_data

definition decode_pubsub_message ::
  "(string \<Rightarrow> string option) \<Rightarrow> metadata_keys \<Rightarrow> pubsub_message \<Rightarrow> pydict outcome" where
  "decode_pubsub_message unb64 keys m =
     (let (topic, headers) = read_message_metadata (pm_attributes m) keys
      in and_then (case pm_data m of
            PubNone \<Rightarrow> Inr []
          | PubBytes b \<Rightarrow> decode_strict b
          | PubText raw \<Rightarrow> Inr (case unb64 raw of None \<Rightarrow> raw | Some s \<Rightarrow> s)) (\<lambda>body.
         Inr (envelope_of topic headers (VStr body))))"

definition handle_pubsub ::
  "(string \<Rightarrow> string option) \<Rightarrow> 'w application \<Rightarrow> settlement \<Rightarrow> pubsub_message \<Rightarrow> ('w, unit) action" where
  "handle_pubsub unb64 app st m = settle_each app st (decode_pubsub_message unb64 (app_metadata_keys app)) [m]"

record pubsub_publish =
  pp_topic_path :: string
  pp_data :: wire_bytes
  pp_attributes :: "(string, string) dict"

definition pubsub_send ::
  "metadata_keys \<Rightarrow> string \<Rightarrow> serializer \<Rightarrow> ('w, pubsub_publish, 'r) client_call \<Rightarrow> 'w sender" where
  "pubsub_send keys topic_path serialize publish topic message headers = (\<lambda>w.
     case serialize message of
       Raised errs i \<Rightarrow> (Inl (raised errs i), w)
     | CallStopped \<Rightarrow> (Inl PyCancelled, w)
     | Returned body \<Rightarrow>
         (case publish \<lparr>pp_topic_path = topic_path, pp_data = Utf8 body,
                 pp_attributes = amqp_headers (mk_topic keys) headers topic\<rparr> w of
            (c, w') \<Rightarrow> (caught (\<lambda>_. ok VNone) c, w')))"

section \<open>From the sender to the trigger\<close>

lemma pubsub_decoded:
  assumes "sendable_headers keys h"
  shows "decode_pubsub_message unb64 keys \<lparr>pm_attributes = text_metadata (amqp_headers (mk_topic keys) (Some h) topic),
      pm_data = PubBytes (Utf8 body)\<rparr> = Inr (envelope_of topic (map (\<lambda>(k, v). (py_lower k, v)) (texts h)) (VStr body))"
  using read_sent_metadata [OF assms, of topic]
  by (simp add: decode_pubsub_message_def sent_amqp_headers [OF assms] decode_strict_def)

text \<open>
  A published message is settled by the trigger exactly like an in-process message with the sender's
  topic, headers and serialized body, and the trigger raises unless it was acknowledged.
\<close>

lemma pubsub_round_trip:
  assumes "sendable_headers (app_metadata_keys app) h" "serialize message = Returned body"
  shows "\<exists>q. pubsub_send (app_metadata_keys app) path serialize (record_call reply) topic message (Some h) [] = (Inr (ok VNone), [q]) \<and>
     handle_pubsub unb64 app st \<lparr>pm_attributes = text_metadata (pp_attributes q), pm_data = PubBytes (pp_data q)\<rparr> =
       settle_each app st (\<lambda>_. Inr [(''topic'', VStr topic), (''headers'', VDict h), (''body'', VStr body)]) [()]"
  using app_handle_lowered [OF lowered_headers [OF assms(1)], of app st topic body] pubsub_decoded [OF assms(1)]
  by (simp add: pubsub_send_def assms(2) caught_def record_call_def handle_pubsub_def fun_eq_iff settle_or_raise_def
      envelope_of_def split: prod.splits sum.splits)

lemma pubsub_acknowledges:
  assumes "handle_pubsub unb64 app st m w = (Inr (), w')"
  shows "\<exists>ow. dispatched app st (decode_pubsub_message unb64 (app_metadata_keys app)) m ow \<and> ow_acknowledge ow"
  using settle_each_runs [OF assms [unfolded handle_pubsub_def]] by (auto simp: dispatched_def)

end
