(* ===== verification/Grpc.thy ===== *)
theory Grpc
  imports HttpClient Codecs Pointer Dynamic
begin

text \<open>
  \<open>benzene.grpc\<close>: the status codes, the error details, the server binding and the sender
  (\<open>codes.py\<close>, \<open>details.py\<close>, \<open>server.py\<close>, \<open>client.py\<close>) and the in-memory host of \<open>testing.py\<close>. The
  \<open>google.rpc\<close> messages are given by their members; writing them to bytes and reading them back is
  protobuf's and an argument, as is the call over a channel.
\<close>

section \<open>Status codes\<close>

text \<open>The members of \<open>grpc.StatusCode\<close>, in the order of their numbers.\<close>

datatype status_code = OK | CANCELLED | UNKNOWN | INVALID_ARGUMENT | DEADLINE_EXCEEDED | NOT_FOUND
  | ALREADY_EXISTS | PERMISSION_DENIED | RESOURCE_EXHAUSTED | FAILED_PRECONDITION | ABORTED | OUT_OF_RANGE
  | UNIMPLEMENTED | INTERNAL | UNAVAILABLE | DATA_LOSS | UNAUTHENTICATED

fun code_number :: "status_code \<Rightarrow> int" where
  "code_number OK = 0"
| "code_number CANCELLED = 1"
| "code_number UNKNOWN = 2"
| "code_number INVALID_ARGUMENT = 3"
| "code_number DEADLINE_EXCEEDED = 4"
| "code_number NOT_FOUND = 5"
| "code_number ALREADY_EXISTS = 6"
| "code_number PERMISSION_DENIED = 7"
| "code_number RESOURCE_EXHAUSTED = 8"
| "code_number FAILED_PRECONDITION = 9"
| "code_number ABORTED = 10"
| "code_number OUT_OF_RANGE = 11"
| "code_number UNIMPLEMENTED = 12"
| "code_number INTERNAL = 13"
| "code_number UNAVAILABLE = 14"
| "code_number DATA_LOSS = 15"
| "code_number UNAUTHENTICATED = 16"

definition NAME_TO_CODE :: "(string, status_code) dict" where
  "NAME_TO_CODE =
     [(''OK'', OK), (''InvalidArgument'', INVALID_ARGUMENT), (''Unauthenticated'', UNAUTHENTICATED),
      (''PermissionDenied'', PERMISSION_DENIED), (''NotFound'', NOT_FOUND), (''AlreadyExists'', ALREADY_EXISTS),
      (''Unimplemented'', UNIMPLEMENTED), (''Unavailable'', UNAVAILABLE), (''ResourceExhausted'', RESOURCE_EXHAUSTED),
      (''DeadlineExceeded'', DEADLINE_EXCEEDED), (''Internal'', INTERNAL), (''Cancelled'', CANCELLED),
      (''DataLoss'', DATA_LOSS)]"

definition CODE_TO_NAME :: "(status_code, string) dict" where
  "CODE_TO_NAME = dict_of (map (\<lambda>(name, code). (code, name)) NAME_TO_CODE)"

definition status_to_code :: "string \<Rightarrow> bool option \<Rightarrow> status_code" where
  "status_to_code status succ = (case dict_get NAME_TO_CODE (to_grpc status succ) of
     None \<Rightarrow> INTERNAL | Some code \<Rightarrow> code)"

definition code_to_status :: "status_code \<Rightarrow> string" where
  "code_to_status code = from_grpc (case dict_get CODE_TO_NAME code of None \<Rightarrow> [] | Some name \<Rightarrow> name) None"

section \<open>Error details\<close>

definition GRPC_DETAILS_TRAILER :: string where
  "GRPC_DETAILS_TRAILER = ''grpc-status-details-bin''"

text \<open>
  \<open>BadRequest.FieldViolation\<close>, an unset text being empty; the details of a \<open>google.rpc.Status\<close>, of
  which only \<open>BadRequest\<close> matters here. \<open>protos\<close> are the message modules when they are installed.
\<close>

record violation =
  fv_description :: string
  fv_field :: string
  fv_reason :: string

datatype detail = BadRequest "violation list" | OtherDetail string

record rich_status =
  rs_code :: int
  rs_message :: string
  rs_details :: "detail list"

record protos =
  pr_serialize :: "rich_status \<Rightarrow> string"
  pr_parse :: "string \<Rightarrow> rich_status option"
  pr_reason_supported :: bool

text \<open>A metadata value is bytes under a key that ends in \<open>-bin\<close> and text otherwise.\<close>

datatype md_value = MdText (md_text: string) | MdBytes (md_text: string)

type_synonym metadata = "(string \<times> md_value) list"

definition md_str :: "md_value \<Rightarrow> string" where
  "md_str v = (case v of MdText s \<Rightarrow> s | MdBytes s \<Rightarrow> str_val (VBytes s))"

definition field_violation :: "bool \<Rightarrow> benzene_error \<Rightarrow> violation outcome" where
  "field_violation reason e =
     (let v = \<lparr>fv_description = be_message e, fv_field = [],
               fv_reason = (if reason then or_text (be_code e) [] else [])\<rparr>
      in case be_field e of
           Some (c # f) \<Rightarrow> and_then (pointer_to_dotted (c # f)) (\<lambda>path. Inr (v\<lparr>fv_field := path\<rparr>))
         | _ \<Rightarrow> Inr v)"

definition details_trailer ::
  "protos option \<Rightarrow> int \<Rightarrow> string \<Rightarrow> benzene_error list \<Rightarrow> (string \<times> md_value) option outcome" where
  "details_trailer protos code message errs = (case protos of
     None \<Rightarrow> Inr None
   | Some p \<Rightarrow> and_then (each (field_violation (pr_reason_supported p)) errs) (\<lambda>vs.
       Inr (Some (GRPC_DETAILS_TRAILER, MdBytes (pr_serialize p
         \<lparr>rs_code = code, rs_message = message, rs_details = (if errs = [] then [] else [BadRequest vs])\<rparr>)))))"

definition error_of_violation :: "bool \<Rightarrow> violation \<Rightarrow> benzene_error" where
  "error_of_violation reason v =
     \<lparr>be_message = fv_description v,
      be_field = (let f = dotted_to_pointer (fv_field v) in if f = [] then None else Some f),
      be_code = (if reason \<and> fv_reason v \<noteq> [] then Some (fv_reason v) else None)\<rparr>"

definition violations :: "bool \<Rightarrow> rich_status \<Rightarrow> benzene_error list" where
  "violations reason s = concat (map (\<lambda>d. case d of
     BadRequest vs \<Rightarrow> map (error_of_violation reason) vs | OtherDetail _ \<Rightarrow> []) (rs_details s))"

fun trailing_errors :: "protos \<Rightarrow> metadata \<Rightarrow> benzene_error list" where
  "trailing_errors p [] = []"
| "trailing_errors p ((key, value) # rest) = (case value of
     MdBytes bytes \<Rightarrow>
       if key \<noteq> GRPC_DETAILS_TRAILER then trailing_errors p rest
       else (case pr_parse p bytes of None \<Rightarrow> [] | Some s \<Rightarrow> violations (pr_reason_supported p) s)
   | MdText _ \<Rightarrow> trailing_errors p rest)"

definition errors_from_trailers :: "protos option \<Rightarrow> metadata \<Rightarrow> benzene_error list" where
  "errors_from_trailers protos trailing = (case protos of None \<Rightarrow> [] | Some p \<Rightarrow> trailing_errors p trailing)"

section \<open>The server\<close>

definition METHOD_PREFIX :: string where "METHOD_PREFIX = ''/benzene.Benzene/''"

definition method_for :: "string \<Rightarrow> string" where
  "method_for topic = METHOD_PREFIX @ topic"

definition topic_for :: "string \<Rightarrow> string" where
  "topic_for path =
     (if starts_with METHOD_PREFIX path then drop (length METHOD_PREFIX) path
      else rev (takeWhile (\<lambda>c. c \<noteq> CHR ''/'') (rev path)))"

text \<open>What the servicer context and the returned bytes hold when a call ends.\<close>

record grpc_reply =
  gr_body :: string
  gr_code :: "status_code option"
  gr_details :: "string option"
  gr_trailers :: metadata

definition response_problem :: "response \<Rightarrow> pydict" where
  "response_problem rsp =
     (let body = v_or (rsp_body rsp) (VStr [])
      in if \<not> truthy body then [] else (case loads_val body of Some (VDict d) \<Rightarrow> d | _ \<Rightarrow> []))"

definition response_detail :: "string \<Rightarrow> pydict \<Rightarrow> string" where
  "response_detail status document =
     (if truthy (vget document ''detail'') then str_val (vget document ''detail'') else status)"

definition grpc_reply_of :: "protos option \<Rightarrow> response \<Rightarrow> grpc_reply outcome" where
  "grpc_reply_of protos rsp = (case (rsp_status_code rsp, rsp_body rsp) of
     (Some status, VStr body) \<Rightarrow>
       (let code = status_to_code status (Some (successful_from rsp));
            trailers = [(BENZENE_STATUS_TRAILER, MdText status)];
            reply = \<lparr>gr_body = utf8_encode body, gr_code = None, gr_details = None, gr_trailers = trailers\<rparr>
        in if code = OK then Inr reply
           else (let document = response_problem rsp; detail = response_detail status document
                 in and_then (details_trailer protos (code_number code) detail (problem_errors document)) (\<lambda>rich.
                      Inr (reply\<lparr>gr_code := Some code, gr_details := Some detail,
                             gr_trailers := trailers @ (case rich of None \<Rightarrow> [] | Some t \<Rightarrow> [t])\<rparr>))))
   | (None, _) \<Rightarrow> Inl (PyException ''KeyError'' (repr_str ''statusCode''))
   | _ \<Rightarrow> Inl (attribute_error ''encode''))"

definition unicode_error :: pyexn where
  "unicode_error = PyException ''UnicodeDecodeError'' ''invalid utf-8''"

definition grpc_invoke :: "protos option \<Rightarrow> 'w application \<Rightarrow> string \<Rightarrow> string \<Rightarrow> metadata \<Rightarrow> ('w, grpc_reply) action" where
  "grpc_invoke protos app topic request invocation = (\<lambda>w.
     let headers = dict_of (map (\<lambda>(key, value). (key, VStr (md_str value))) invocation)
     in case utf8_decode request of
          None \<Rightarrow> (Inl unicode_error, w)
        | Some body \<Rightarrow>
            (case app_handle app [(''topic'', VStr topic), (''headers'', VDict headers), (''body'', VStr body)] False w of
               (Inl e, w') \<Rightarrow> (Inl e, w')
             | (Inr rsp, w') \<Rightarrow> (grpc_reply_of protos rsp, w')))"

definition grpc_service :: "protos option \<Rightarrow> 'w application \<Rightarrow> string \<Rightarrow> string \<Rightarrow> metadata \<Rightarrow> ('w, grpc_reply) action" where
  "grpc_service protos app path = grpc_invoke protos app (topic_for path)"

section \<open>The sender\<close>

text \<open>
  How a unary call over a channel ends: with a reply and its trailers; with a \<open>grpc.RpcError\<close>, which may
  carry a code, trailers and details (the exception object with its links, as \<open>is_timeout\<close> reads them);
  with a \<open>ValueError\<close>; or with any other exception.
\<close>

datatype call_outcome = CallReply string metadata
  | RpcError "err list" nat "status_code option" metadata "string option"
  | CallValueError "err list" nat
  | CallRaises pyexn

type_synonym 'w grpc_channel = "string \<Rightarrow> string \<Rightarrow> metadata \<Rightarrow> 'w \<Rightarrow> call_outcome \<times> 'w"

fun trailer_status :: "metadata \<Rightarrow> string option" where
  "trailer_status [] = None"
| "trailer_status ((key, value) # rest) = (if key = BENZENE_STATUS_TRAILER then Some (md_text value) else trailer_status rest)"

definition grpc_successful :: "string \<Rightarrow> bool option" where
  "grpc_successful status = (if status \<in> set KNOWN_STATUSES then None else Some True)"

definition rpc_error_result :: "protos option \<Rightarrow> status_code \<Rightarrow> metadata \<Rightarrow> string option \<Rightarrow> result" where
  "rpc_error_result protos code trailers detail =
     (let status = or_text (trailer_status trailers) (code_to_status code);
          errs = errors_from_trailers protos trailers
      in if errs \<noteq> [] then failure status (map ErrStruct errs)
         else if or_text detail [] \<noteq> [] then failure status [ErrText (or_text detail [])]
         else failure status [])"

definition reply_result :: "string \<Rightarrow> metadata \<Rightarrow> result outcome" where
  "reply_result bytes trailers =
     (let status = or_text (trailer_status trailers) ''ok''
      in case utf8_decode bytes of
           None \<Rightarrow> Inl unicode_error
         | Some body \<Rightarrow> Inr (mk_result status (parse_reply body) [] None (grpc_successful status)))"

definition call_result :: "protos option \<Rightarrow> string \<Rightarrow> call_outcome \<Rightarrow> result outcome" where
  "call_result protos path ending = (case ending of
     CallReply bytes trailers \<Rightarrow> reply_result bytes trailers
   | RpcError errs i code trailers detail \<Rightarrow> (case code of
       None \<Rightarrow> Inr (failed_call_result errs i path)
     | Some c \<Rightarrow> Inr (rpc_error_result protos c trailers detail))
   | CallValueError errs i \<Rightarrow>
       if infix_of ''closed channel'' (er_text (errs ! i)) then Inr (failed_call_result errs i path)
       else Inl (PyException (er_class (errs ! i)) (er_text (errs ! i)))
   | CallRaises e \<Rightarrow> Inl e)"

definition header_metadata :: "pydict option \<Rightarrow> metadata" where
  "header_metadata headers = map (\<lambda>(key, value). (key, MdText (str_val value))) (headers_or_empty headers)"

definition grpc_sender :: "protos option \<Rightarrow> 'w grpc_channel \<Rightarrow> 'w sender" where
  "grpc_sender protos channel topic message headers = (\<lambda>w.
     case encode_body message of
       Inl e \<Rightarrow> (Inl e, w)
     | Inr body \<Rightarrow>
         (case channel (method_for topic) (utf8_encode body) (header_metadata headers) w of
            (ending, w') \<Rightarrow> (call_result protos (method_for topic) ending, w')))"

section \<open>The in-memory host\<close>

record grpc_response =
  gt_status :: string
  gt_payload :: pyval
  gt_code :: "status_code option"
  gt_details :: "string option"

definition send_grpc ::
  "protos option \<Rightarrow> 'w application \<Rightarrow> string \<Rightarrow> pyval \<Rightarrow> pydict option \<Rightarrow> ('w, grpc_response) action" where
  "send_grpc protos app topic body headers = (\<lambda>w.
     case encode_body (if body = VNone then VDict [] else body) of
       Inl e \<Rightarrow> (Inl e, w)
     | Inr text \<Rightarrow>
         (case grpc_service protos app (method_for topic) (utf8_encode text) (header_metadata headers) w of
            (Inl e, w') \<Rightarrow> (Inl e, w')
          | (Inr reply, w') \<Rightarrow>
              (case utf8_decode (gr_body reply) of
                 None \<Rightarrow> (Inl unicode_error, w')
               | Some out \<Rightarrow>
                   (Inr \<lparr>gt_status = (case trailer_status (gr_trailers reply) of None \<Rightarrow> ''ok'' | Some s \<Rightarrow> s),
                         gt_payload = parse_reply out, gt_code = gr_code reply, gt_details = gr_details reply\<rparr>, w'))))"

section \<open>Both ends of a call\<close>

lemma topic_for_method [simp]: "topic_for (method_for topic) = topic"
  by (simp add: topic_for_def method_for_def starts_with_def)

lemma status_to_code_OK: "status_to_code s f = OK \<longleftrightarrow> reported_success s f"
proof -
  have "dict_get NAME_TO_CODE name = Some OK \<longleftrightarrow> name = ''OK''" for name
    by (simp add: NAME_TO_CODE_def)
  from this [of "to_grpc s f"] show ?thesis
    unfolding status_to_code_def to_grpc_success [symmetric] by (auto split: option.split)
qed

text \<open>The errors gRPC's error model can carry whole: texts that are set, and a field the dotted form can express.\<close>

definition carried_error :: "benzene_error \<Rightarrow> bool" where
  "carried_error e \<longleftrightarrow> be_message e \<noteq> [] \<and> be_code e \<noteq> Some [] \<and>
     (case be_field e of
        None \<Rightarrow> True
      | Some f \<Rightarrow> (case pointer_segments f of
          Inl _ \<Rightarrow> False
        | Inr segs \<Rightarrow> segs \<noteq> [] \<and> list_all dotted_segment segs \<and> hd (hd segs) \<noteq> CHR ''/'' \<and> json_pointer segs = f))"

lemma field_carried:
  assumes "carried_error e"
  shows "\<exists>v. field_violation True e = Inr v \<and> error_of_violation True v = e"
proof (cases "be_field e")
  case None
  then show ?thesis using assms
    by (cases e) (auto simp: carried_error_def field_violation_def error_of_violation_def dotted_to_pointer_def or_text_def
        Let_def split: option.splits)
next
  case (Some f)
  then obtain segs where s: "segs \<noteq> []" "\<forall>s \<in> set segs. dotted_segment s" "hd (hd segs) \<noteq> CHR ''/''" "f = json_pointer segs"
    using assms by (auto simp: carried_error_def list_all_iff split: sum.splits)
  obtain path where p: "pointer_to_dotted f = Inr path" "dotted_to_pointer path = f"
    using pointer_round_trip [of segs] s by blast
  obtain c g where c: "f = c # g" using s pointer_join [of segs] by simp
  show ?thesis using assms p Some
    by (cases e) (auto simp: carried_error_def field_violation_def error_of_violation_def c or_text_def Let_def split: option.splits)
qed

lemma fields_carried:
  "\<forall>e \<in> set es. carried_error e \<Longrightarrow>
     \<exists>vs. each (field_violation True) es = Inr vs \<and> map (error_of_violation True) vs = es"
proof (induction es)
  case (Cons e es)
  then obtain v vs where "field_violation True e = Inr v" "error_of_violation True v = e"
      "each (field_violation True) es = Inr vs" "map (error_of_violation True) vs = es"
    using field_carried [of e] by auto
  then show ?case by simp
qed simp

lemma details_carried:
  assumes "\<forall>e \<in> set es. carried_error e" "pr_reason_supported p" "\<And>s. pr_parse p (pr_serialize p s) = Some s"
  shows "\<exists>t. details_trailer (Some p) code message es = Inr (Some t) \<and> fst t = GRPC_DETAILS_TRAILER \<and>
           trailing_errors p [t] = es"
proof -
  obtain vs where "each (field_violation True) es = Inr vs" "map (error_of_violation True) vs = es"
    using fields_carried [OF assms(1)] by blast
  then show ?thesis using assms(2,3) by (auto simp: details_trailer_def violations_def)
qed

text \<open>
  What gRPC documents of a unary call: the caller gets the bytes and trailers of a call whose code was not
  set, and an \<open>RpcError\<close> with the code, the trailers and the details of one whose code was.
\<close>

definition carries :: "grpc_reply \<Rightarrow> call_outcome \<Rightarrow> bool" where
  "carries reply ending = (case gr_code reply of
     None \<Rightarrow> ending = CallReply (gr_body reply) (gr_trailers reply)
   | Some code \<Rightarrow> (case ending of
       RpcError _ _ c trailers details \<Rightarrow> c = Some code \<and> trailers = gr_trailers reply \<and> details = gr_details reply
     | _ \<Rightarrow> False))"

definition same_answer :: "response \<Rightarrow> response \<Rightarrow> bool" where
  \<comment> \<open>equal up to the headers, to which the application may add the version\<close>
  "same_answer env env' \<longleftrightarrow> rsp_status_code env = rsp_status_code env' \<and>
     rsp_is_successful env = rsp_is_successful env' \<and> rsp_body env = rsp_body env'"

lemma success_read_back:
  assumes "encode_response (Some r) = Inr env0" "same_answer env env0" "res_status r \<noteq> []" "consistent r"
    and s: "result_is_successful r" "json_ok (to_jsonable (res_payload r))"
    and reply: "grpc_reply_of protos env = Inr reply" "carries reply ending"
  shows "call_result protos' path ending =
    Inr (mk_result (res_status r) (to_jsonable (res_payload r)) [] None (grpc_successful (res_status r)))"
proof -
  let ?body = "if res_payload r = VNone then [] else json_text (to_jsonable (res_payload r))"
  have e: "rsp_status_code env = Some (res_status r)" "rsp_is_successful env = VBool True" "rsp_body env = VStr ?body"
    using encode_success [OF s(1)] s(2) assms(1,2) by (simp_all add: same_answer_def)
  have "status_to_code (res_status r) (Some True) = OK"
    using s(1) assms(4) by (auto simp: status_to_code_OK reported_success_def consistent_def)
  then have "reply = \<lparr>gr_body = utf8_encode ?body, gr_code = None, gr_details = None,
      gr_trailers = [(BENZENE_STATUS_TRAILER, MdText (res_status r))]\<rparr>"
    using reply(1) e by (simp add: grpc_reply_of_def successful_from_def Let_def del: json_text.simps)
  moreover have "parse_reply ?body = to_jsonable (res_payload r)"
    unfolding parse_reply_def using s(2) loads_json_text truthy_json_text by (auto simp del: json_text.simps)
  ultimately show ?thesis using reply(2) assms(3)
    by (simp add: carries_def call_result_def reply_result_def or_text_def utf8_decode_encode Let_def del: json_text.simps)
qed

lemma failure_replied:
  assumes "encode_response (Some r) = Inr env0" "same_answer env env0" "consistent r"
    and f: "\<not> result_is_successful r"
    and reply: "grpc_reply_of protos env = Inr reply" "carries reply ending"
  defines "detail \<equiv> response_detail (res_status r) (error_payload r)"
  shows "\<exists>code rich. call_result protos path ending = Inr (rpc_error_result protos code
             ((BENZENE_STATUS_TRAILER, MdText (res_status r)) # (case rich of None \<Rightarrow> [] | Some t \<Rightarrow> [t])) (Some detail)) \<and>
           details_trailer protos (code_number code) detail (problem_errors (error_payload r)) = Inr rich"
proof -
  let ?code = "status_to_code (res_status r) (Some False)"
  have e: "rsp_status_code env = Some (res_status r)" "rsp_is_successful env = VBool False"
    "rsp_body env = VStr (json_text (VDict (error_payload r)))"
    using encode_failure [OF f] assms(1,2) by (simp_all add: same_answer_def del: json_text.simps)
  have "?code \<noteq> OK"
    using f assms(3) by (auto simp: status_to_code_OK reported_success_def consistent_def)
  moreover have "response_problem env = error_payload r"
    using e(3) loads_json_text [OF json_ok_error_payload, of r] truthy_json_text [OF json_ok_error_payload, of r]
    by (simp add: response_problem_def loads_val_def v_or_def Let_def del: json_text.simps)
  ultimately show ?thesis using reply e detail_def
    by (fastforce simp: grpc_reply_of_def successful_from_def Let_def and_then_def carries_def call_result_def
        simp del: json_text.simps split: sum.splits call_outcome.splits)
qed

lemma py_join_nonempty: "\<exists>s \<in> set ss. s \<noteq> [] \<Longrightarrow> py_join sep ss \<noteq> []"
  by (induction sep ss rule: py_join.induct) auto

text \<open>Protobuf's promise about the messages it writes.\<close>

definition protos_ok :: "protos option \<Rightarrow> bool" where
  "protos_ok protos \<longleftrightarrow> (\<forall>p s. protos = Some p \<longrightarrow> pr_parse p (pr_serialize p s) = Some s)"

lemma trailers_read_back:
  fixes status :: string
  assumes "details_trailer protos code detail es = Inr rich" "protos_ok protos"
  defines "read \<equiv> errors_from_trailers protos ((BENZENE_STATUS_TRAILER, MdText status) # (case rich of None \<Rightarrow> [] | Some t \<Rightarrow> [t]))"
  shows "es = [] \<or> protos = None \<Longrightarrow> read = []"
    "protos = Some p \<Longrightarrow> pr_reason_supported p \<Longrightarrow> \<forall>e \<in> set es. carried_error e \<Longrightarrow> read = es"
proof -
  show "read = []" if "es = [] \<or> protos = None"
    using that assms(1,2)
    by (cases protos) (auto simp: read_def errors_from_trailers_def details_trailer_def protos_ok_def violations_def)
  show "read = es" if "protos = Some p" "pr_reason_supported p" "\<forall>e \<in> set es. carried_error e"
    using details_carried [OF that(3,2), of code detail] assms(1,2) that(1)
    by (auto simp: read_def errors_from_trailers_def protos_ok_def)
qed

lemma failure_read_back:
  assumes "encode_response (Some r) = Inr env0" "same_answer env env0" "res_status r \<noteq> []" "consistent r" "res_problem r = None"
    and "protos_ok protos" and f: "\<not> result_is_successful r"
    and reply: "grpc_reply_of protos env = Inr reply" "carries reply ending"
  shows "\<exists>es. call_result protos path ending = Inr (failure (res_status r) (map ErrStruct es)) \<and>
    (res_errors r = [] \<longrightarrow> map be_message es = [res_status r]) \<and>
    (protos = None \<and> (\<exists>e \<in> set (res_errors r). be_message e \<noteq> []) \<longrightarrow> map be_message es = [py_join '', '' (messages r)]) \<and>
    (\<forall>p. protos = Some p \<and> pr_reason_supported p \<and> res_errors r \<noteq> [] \<and> (\<forall>e \<in> set (res_errors r). carried_error e) \<longrightarrow>
       es = res_errors r)"
proof -
  let ?detail = "response_detail (res_status r) (error_payload r)"
  obtain code rich where
    c: "call_result protos path ending = Inr (rpc_error_result protos code
             ((BENZENE_STATUS_TRAILER, MdText (res_status r)) # (case rich of None \<Rightarrow> [] | Some t \<Rightarrow> [t])) (Some ?detail))"
    and t: "details_trailer protos (code_number code) ?detail (problem_errors (error_payload r)) = Inr rich"
    using failure_replied [OF assms(1,2,4) f reply] by blast
  define es where "es = errors_from_trailers protos ((BENZENE_STATUS_TRAILER, MdText (res_status r)) # (case rich of None \<Rightarrow> [] | Some t \<Rightarrow> [t]))"
  note es = trailers_read_back [OF t assms(6), where status = "res_status r", folded es_def]
  have d: "?detail = (if py_join '', '' (messages r) = [] then res_status r else py_join '', '' (messages r))"
    by (simp add: response_detail_def vget_error_payload(2) [OF assms(5)])
  have "call_result protos path ending = Inr (failure (res_status r) (map ErrStruct (if es = [] then [coerce_error (ErrText ?detail)] else es)))"
    using assms(3) d by (simp add: c rpc_error_result_def es_def [symmetric] or_text_def Let_def failure_def comp_def)
  moreover have "es = [] \<and> py_join '', '' (messages r) = []" if "res_errors r = []"
    using es(1) problem_errors_error_payload [OF assms(5)] that by (simp add: messages_def)
  moreover have "es = [] \<and> py_join '', '' (messages r) \<noteq> []" if "protos = None" "\<exists>e \<in> set (res_errors r). be_message e \<noteq> []"
    using es(1) py_join_nonempty [of "messages r" "'', ''"] that by (auto simp: messages_def)
  moreover have "es = res_errors r" if "protos = Some p" "pr_reason_supported p" "\<forall>e \<in> set (res_errors r). carried_error e" for p
    using es(2) [OF that(1,2)] problem_errors_error_payload [OF assms(5)] that(3) by (simp add: carried_error_def)
  ultimately show ?thesis using d
    by (intro exI [of _ "if es = [] then [coerce_error (ErrText ?detail)] else es"]) auto
qed

text \<open>
  C29. A call over gRPC delivers the handler's answer. What the server makes of a result, the sender reads back with
  the same status, whatever the status, and the same classification: a success with its payload's wire form; a failure
  with every structured error (message, field and code), in order, when the error messages are installed on both
  sides and can express them, and with the joined messages when they are not installed. A failure that has no error comes back
  with its status as its one error.
\<close>

theorem grpc_call_round_trip:
  assumes "encode_body message = Inr body"
    and "app_handle app [(''topic'', VStr topic),
           (''headers'', VDict (dict_of (map (\<lambda>(key, value). (key, VStr (str_val value))) (headers_or_empty headers)))),
           (''body'', VStr body)] False w = (Inr env, w')"
    and "encode_response (Some r) = Inr env0" "same_answer env env0"
    and "res_status r \<noteq> []" "consistent r" "res_problem r = None" "protos_ok protos"
    and "grpc_service protos app (method_for topic) (utf8_encode body) (header_metadata headers) w = (Inr reply, w')"
    and "channel (method_for topic) (utf8_encode body) (header_metadata headers) w = (ending, w')" "carries reply ending"
  shows "(result_is_successful r \<and> json_ok (to_jsonable (res_payload r)) \<longrightarrow>
            grpc_sender protos channel topic message headers w =
              (Inr (mk_result (res_status r) (to_jsonable (res_payload r)) [] None (grpc_successful (res_status r))), w')) \<and>
         (\<not> result_is_successful r \<longrightarrow>
            (\<exists>es. grpc_sender protos channel topic message headers w = (Inr (failure (res_status r) (map ErrStruct es)), w') \<and>
               (res_errors r = [] \<longrightarrow> map be_message es = [res_status r]) \<and>
               (protos = None \<and> (\<exists>e \<in> set (res_errors r). be_message e \<noteq> []) \<longrightarrow>
                  map be_message es = [py_join '', '' (messages r)]) \<and>
               (\<forall>p. protos = Some p \<and> pr_reason_supported p \<and> res_errors r \<noteq> [] \<and> (\<forall>e \<in> set (res_errors r). carried_error e) \<longrightarrow>
                  es = res_errors r)))"
proof -
  have h: "map (\<lambda>(key, value). (key, VStr (md_str value))) (header_metadata headers) =
      map (\<lambda>(key, value). (key, VStr (str_val value))) (headers_or_empty headers)"
    by (simp add: header_metadata_def md_str_def case_prod_beta)
  have reply: "grpc_reply_of protos env = Inr reply"
    using assms(2,9) by (simp add: grpc_service_def grpc_invoke_def h utf8_decode_encode Let_def)
  have send: "grpc_sender protos channel topic message headers w = (call_result protos (method_for topic) ending, w')"
    using assms(1,10) by (simp add: grpc_sender_def)
  show ?thesis
    using success_read_back [OF assms(3,4,5,6) _ _ reply assms(11), of protos "method_for topic"]
      failure_read_back [OF assms(3-8) _ reply assms(11), of "method_for topic"]
    unfolding send by auto
qed

text \<open>
  An instance: messages written as JSON, an application that always answers one failure, and a channel that
  does with its reply what gRPC documents.
\<close>

definition detail_json :: "detail \<Rightarrow> pyval" where
  "detail_json d = (case d of
     BadRequest vs \<Rightarrow> VList (map (\<lambda>v. VList [VStr (fv_description v), VStr (fv_field v), VStr (fv_reason v)]) vs)
   | OtherDetail t \<Rightarrow> VStr t)"

definition json_violation :: "pyval \<Rightarrow> violation" where
  "json_violation v = (case v of
     VList [VStr d, VStr f, VStr r] \<Rightarrow> \<lparr>fv_description = d, fv_field = f, fv_reason = r\<rparr>
   | _ \<Rightarrow> \<lparr>fv_description = [], fv_field = [], fv_reason = []\<rparr>)"

definition json_detail :: "pyval \<Rightarrow> detail" where
  "json_detail d = (case d of VList vs \<Rightarrow> BadRequest (map json_violation vs) | _ \<Rightarrow> OtherDetail (str_val d))"

definition json_protos :: protos where
  "json_protos = \<lparr>
     pr_serialize = (\<lambda>s. json_text (VList [VInt (rs_code s), VStr (rs_message s), VList (map detail_json (rs_details s))])),
     pr_parse = (\<lambda>t. case loads t of
       Some (VList [VInt c, VStr m, VList ds]) \<Rightarrow> Some \<lparr>rs_code = c, rs_message = m, rs_details = map json_detail ds\<rparr>
     | _ \<Rightarrow> None),
     pr_reason_supported = True\<rparr>"

lemma json_detail_read: "json_detail (detail_json d) = d"
  by (cases d) (simp_all add: json_detail_def detail_json_def json_violation_def comp_def map_idI)

lemma json_protos_ok: "protos_ok (Some json_protos)"
proof -
  have "json_ok (VList [VInt (rs_code s), VStr (rs_message s), VList (map detail_json (rs_details s))])" for s :: rich_status
    by (auto simp: detail_json_def split: detail.splits)
  from loads_json_text [OF this] show ?thesis
    by (simp add: protos_ok_def json_protos_def json_detail_read comp_def del: json_text.simps)
qed

definition frozen :: result where
  "frozen = failure ''stock-frozen'' [ErrStruct \<lparr>be_message = ''held'', be_field = Some ''/items/0/sku'', be_code = Some ''HOLD''\<rparr>]"

definition frozen_app :: "unit application" where
  "frozen_app = plain_app\<lparr>app_pipeline := [\<lambda>next (ctx, w). (Inr (), (set_result_of (Some frozen) ctx, w))]\<rparr>"

definition local_channel :: "protos option \<Rightarrow> 'w application \<Rightarrow> 'w grpc_channel" where
  "local_channel protos app path request invocation = (\<lambda>w.
     case grpc_service protos app path request invocation w of
       (Inl e, w') \<Rightarrow> (CallRaises e, w')
     | (Inr reply, w') \<Rightarrow>
         (case gr_code reply of
            None \<Rightarrow> (CallReply (gr_body reply) (gr_trailers reply), w')
          | Some c \<Rightarrow> (RpcError [] 0 (Some c) (gr_trailers reply) (gr_details reply), w')))"

theorem grpc_call_round_trip_witness:
  "grpc_sender (Some json_protos) (local_channel (Some json_protos) frozen_app) ''stock:take'' (VDict []) None () = (Inr frozen, ())"
proof -
  let ?ps = "Some json_protos"
  have f: "\<not> result_is_successful frozen" "consistent frozen" "res_problem frozen = None" "res_status frozen \<noteq> []"
    by (simp_all add: frozen_def failure_def result_is_successful_def is_successful_def SUCCESS_STATUSES_def consistent_def)
  obtain env where e: "encode_response (Some frozen) = Inr env" using encode_failure [OF f(1)] by blast
  have b: "encode_body (VDict []) = Inr ''{}''" by (simp add: encode_body_def dumps_def)
  have a: "app_handle frozen_app [(''topic'', VStr ''stock:take''), (''headers'', VDict (dict_of (map (\<lambda>(key, value).
      (key, VStr (str_val value))) (headers_or_empty None)))), (''body'', VStr ''{}'')] False () = (Inr env, ())"
    using e loads_json_text [of "VDict []"]
    by (simp add: app_handle_def frozen_app_def plain_app_def set_result_of_def v_or_def loads_val_def resolve_version_def
        headers_or_empty_def dict_of_def lower_keys_def vget_def Let_def)
  obtain reply where r: "grpc_service ?ps frozen_app (method_for ''stock:take'') (utf8_encode ''{}'') (header_metadata None) () = (Inr reply, ())"
  proof -
    have "case encode_response (Some frozen) of Inl _ \<Rightarrow> False | Inr env \<Rightarrow> \<not> isl (grpc_reply_of ?ps env)" by code_simp
    then obtain reply where "grpc_reply_of ?ps env = Inr reply" using e by (cases "grpc_reply_of ?ps env") auto
    then show ?thesis using that [of reply] a
      by (simp add: grpc_service_def grpc_invoke_def utf8_decode_encode header_metadata_def headers_or_empty_def Let_def)
  qed
  obtain ending where c: "local_channel ?ps frozen_app (method_for ''stock:take'') (utf8_encode ''{}'') (header_metadata None) () = (ending, ())"
      "carries reply ending"
    using that r by (cases "gr_code reply") (simp_all add: local_channel_def carries_def)
  have "res_errors frozen \<noteq> []" "\<forall>e \<in> set (res_errors frozen). carried_error e" by code_simp+
  then show ?thesis
    using grpc_call_round_trip [where channel = "local_channel ?ps frozen_app", OF b a e _ f(4,2,3) json_protos_ok r c] f(1)
    by (auto simp: same_answer_def json_protos_def frozen_def failure_def)
qed

end
