(* ===== verification/Auth.thy ===== *)
theory Auth
  imports Envelope Codecs Dynamic
begin

text \<open>
  \<open>benzene.auth\<close>: the principal and its place on the context, Basic and bearer authentication as
  middleware, the token validators, and the API Gateway authorizer. Verifying a credential is the
  application's own action; decoding a JWT is the argument \<open>decode\<close>.
\<close>

section \<open>The principal\<close>

record principal =
  pl_name :: string
  pl_claims :: pydict

definition PRINCIPAL_ATTR :: string where
  "PRINCIPAL_ATTR = ''_benzene_auth_principal''"

definition principal_claim :: "principal \<Rightarrow> string \<Rightarrow> pyval \<Rightarrow> pyval" where
  "principal_claim p key d = (case dict_get (pl_claims p) key of None \<Rightarrow> d | Some v \<Rightarrow> v)"

text \<open>The principal as a value of the context's attributes, and back.\<close>

definition principal_object :: "principal \<Rightarrow> pyval" where
  "principal_object p = VData ''Principal'' [(''name'', VStr (pl_name p)), (''claims'', VDict (pl_claims p))]"

definition set_principal :: "principal \<Rightarrow> message_context \<Rightarrow> message_context" where
  "set_principal p ctx = ctx\<lparr>ctx_attributes := dict_set PRINCIPAL_ATTR (principal_object p) (ctx_attributes ctx)\<rparr>"

definition get_principal :: "message_context \<Rightarrow> pyval" where
  "get_principal ctx = vget (ctx_attributes ctx) PRINCIPAL_ATTR"

section \<open>Credentials\<close>

text \<open>\<open>s.partition(c)\<close>: the text before the separator, whether there is one, and the text after it.\<close>

definition py_partition :: "char \<Rightarrow> string \<Rightarrow> string \<times> bool \<times> string" where
  "py_partition c s = (let p = takeWhile (\<lambda>x. x \<noteq> c) s
     in (p, c \<in> set s, drop (Suc (length p)) s))"

definition read_basic_credentials :: "pyval \<Rightarrow> (string \<times> string) option outcome" where
  "read_basic_credentials header =
     (if \<not> truthy header then Inr None
      else (case header of
        VStr h \<Rightarrow>
          (let (scheme, _, encoded) = py_partition (CHR '' '') h
           in if py_lower scheme \<noteq> ''basic'' \<or> encoded = [] then Inr None
              else (case b64decode encoded of
                None \<Rightarrow> Inr None
              | Some bytes \<Rightarrow> (case utf8_decode bytes of
                  None \<Rightarrow> Inr None
                | Some decoded \<Rightarrow>
                    (let (username, found, password) = py_partition (CHR '':'') decoded
                     in Inr (if found then Some (username, password) else None)))))
      | _ \<Rightarrow> Inl (attribute_error ''partition'')))"

definition read_bearer_token :: "pyval \<Rightarrow> string \<Rightarrow> string option outcome" where
  "read_bearer_token header scheme =
     (if \<not> truthy header then Inr None
      else (case header of
        VStr h \<Rightarrow>
          (let (prefix, _, token) = py_partition (CHR '' '') h
           in Inr (if py_lower prefix \<noteq> py_lower scheme \<or> py_strip token = [] then None else Some (py_strip token)))
      | _ \<Rightarrow> Inl (attribute_error ''partition'')))"

text \<open>What a verifier may answer: a principal, claims, a truth value, or something else such as \<open>None\<close>.\<close>

datatype verdict = IsPrincipal principal | IsClaims pydict | IsBool bool | IsOther

definition resolve_basic :: "verdict \<Rightarrow> string \<Rightarrow> principal option" where
  "resolve_basic v username = (case v of
     IsPrincipal p \<Rightarrow> Some p
   | IsBool True \<Rightarrow> Some \<lparr>pl_name = username, pl_claims = []\<rparr>
   | _ \<Rightarrow> None)"

definition DEFAULT_PRINCIPAL_CLAIM :: string where
  "DEFAULT_PRINCIPAL_CLAIM = ''sub''"

definition resolve_principal :: "verdict \<Rightarrow> principal option" where
  "resolve_principal v = (case v of
     IsPrincipal p \<Rightarrow> Some p
   | IsClaims claims \<Rightarrow> Some \<lparr>pl_name = str_val (case dict_get claims DEFAULT_PRINCIPAL_CLAIM of None \<Rightarrow> VStr [] | Some x \<Rightarrow> x),
                              pl_claims = claims\<rparr>
   | _ \<Rightarrow> None)"

section \<open>The middleware\<close>

definition basic_auth_interception :: "(string \<Rightarrow> string \<Rightarrow> ('w, verdict) action) \<Rightarrow> string \<Rightarrow> 'w middleware" where
  "basic_auth_interception verify realm = (\<lambda>nxt (ctx, w).
     case read_basic_credentials (vget (ctx_headers ctx) ''authorization'') of
       Inl e \<Rightarrow> (Inl e, (ctx, w))
     | Inr None \<Rightarrow> (Inr (), (set_result_of (Some (unauthorized
           [ErrText (''missing or malformed Basic credentials ('' @ realm @ '')'')])) ctx, w))
     | Inr (Some (username, password)) \<Rightarrow>
         (case verify username password w of
            (Inl e, w') \<Rightarrow> (Inl e, (ctx, w'))
          | (Inr outcome, w') \<Rightarrow>
              (case resolve_basic outcome username of
                 None \<Rightarrow> (Inr (), (set_result_of (Some (unauthorized [ErrText (''invalid credentials ('' @ realm @ '')'')])) ctx, w'))
               | Some p \<Rightarrow> nxt (set_principal p ctx, w'))))"

definition bearer_token_interception :: "(string \<Rightarrow> ('w, verdict) action) \<Rightarrow> string \<Rightarrow> 'w middleware" where
  "bearer_token_interception validate scheme = (\<lambda>nxt (ctx, w).
     case read_bearer_token (vget (ctx_headers ctx) ''authorization'') scheme of
       Inl e \<Rightarrow> (Inl e, (ctx, w))
     | Inr None \<Rightarrow> (Inr (), (set_result_of (Some (unauthorized [ErrText (''missing or malformed '' @ scheme @ '' token'')])) ctx, w))
     | Inr (Some token) \<Rightarrow>
         (case validate token w of
            (Inl e, w') \<Rightarrow> (Inl e, (ctx, w'))
          | (Inr outcome, w') \<Rightarrow>
              (case resolve_principal outcome of
                 None \<Rightarrow> (Inr (), (set_result_of (Some (unauthorized [ErrText ''invalid token''])) ctx, w'))
               | Some p \<Rightarrow> nxt (set_principal p ctx, w'))))"

section \<open>Validators\<close>

definition import_error :: "pyexn \<Rightarrow> bool" where
  "import_error e \<longleftrightarrow> exn_class e \<in> {''ImportError'', ''ModuleNotFoundError''}"

definition jwt_validate :: "(string \<Rightarrow> pydict outcome) \<Rightarrow> string \<Rightarrow> string \<Rightarrow> verdict outcome" where
  "jwt_validate decode claim_name token = (case decode token of
     Inl e \<Rightarrow> if \<not> catchable e \<or> import_error e then Inl e else Inr IsOther
   | Inr claims \<Rightarrow> Inr (IsPrincipal \<lparr>pl_name = str_val (case dict_get claims claim_name of None \<Rightarrow> VStr [] | Some x \<Rightarrow> x),
                                     pl_claims = claims\<rparr>))"

definition static_token_validator :: "(string, verdict) dict \<Rightarrow> string \<Rightarrow> verdict" where
  "static_token_validator tokens token = (case dict_get tokens token of
     None \<Rightarrow> IsOther
   | Some entry \<Rightarrow> (case resolve_principal entry of None \<Rightarrow> IsOther | Some p \<Rightarrow> IsPrincipal p))"

section \<open>The API Gateway authorizer\<close>

definition extract_token :: "pydict \<Rightarrow> string \<Rightarrow> string option outcome" where
  "extract_token event scheme =
     and_then (if truthy (vget event ''authorizationToken'') then Inr (vget event ''authorizationToken'')
       else and_then (items_of (v_or (vget event ''headers'') (VDict []))) (\<lambda>h.
         Inr (vget (lower_keys h) ''authorization''))) (\<lambda>raw.
     if \<not> truthy raw then Inr None
     else (let (prefix, sep, rest) = py_partition (CHR '' '') (str_val raw);
               token = (if sep \<and> py_lower prefix = py_lower scheme then py_strip rest else py_strip (str_val raw))
           in Inr (if token = [] then None else Some token)))"

definition auth_context :: "pydict \<Rightarrow> pydict" where
  "auth_context claims = map (\<lambda>(k, v). (k, case v of
     VStr _ \<Rightarrow> v | VInt _ \<Rightarrow> v | VFloat _ \<Rightarrow> v | VBool _ \<Rightarrow> v | _ \<Rightarrow> VStr (str_val v))) claims"

definition policy :: "string \<Rightarrow> string \<Rightarrow> pyval \<Rightarrow> pydict \<Rightarrow> pydict" where
  "policy principal_id effect resource context = [
     (''principalId'', VStr principal_id),
     (''policyDocument'', VDict [(''Version'', VStr ''2012-10-17''),
        (''Statement'', VList [VDict [(''Action'', VStr ''execute-api:Invoke''), (''Effect'', VStr effect), (''Resource'', resource)]])]),
     (''context'', VDict context)]"

definition api_gateway_authorizer ::
  "(string \<Rightarrow> ('w, verdict) action) \<Rightarrow> string \<Rightarrow> string \<Rightarrow> pydict \<Rightarrow> ('w, pydict) action" where
  "api_gateway_authorizer validate principal_id_claim scheme event = (\<lambda>w.
     let method_arn = v_or (v_or (vget event ''methodArn'') (vget event ''routeArn'')) (VStr ''*'');
         deny = policy ''unauthorized'' ''Deny'' method_arn []
     in case extract_token event scheme of
          Inl e \<Rightarrow> (Inl e, w)
        | Inr None \<Rightarrow> (Inr deny, w)
        | Inr (Some token) \<Rightarrow>
            (case validate token w of
               (Inl e, w') \<Rightarrow> (Inl e, w')
             | (Inr outcome, w') \<Rightarrow>
                 (case resolve_principal outcome of
                    None \<Rightarrow> (Inr deny, w')
                  | Some p \<Rightarrow>
                      (Inr (policy (str_val (v_or (principal_claim p principal_id_claim (VStr (pl_name p))) (VStr (pl_name p))))
                         ''Allow'' method_arn (auth_context (pl_claims p))), w'))))"

section \<open>The contract of an authenticating middleware\<close>

text \<open>
  An authenticator decides on the context before anything else runs: it accepts with a principal or
  rejects with a detail; \<open>decide\<close> is its decision.
\<close>

locale authenticator =
  fixes middleware :: "'w middleware"
    and decide :: "message_context \<Rightarrow> ('w, string + principal) action"
  assumes accepts: "decide ctx w = (Inr (Inr p), w') \<Longrightarrow> middleware nxt (ctx, w) = nxt (set_principal p ctx, w')"
    and rejects: "decide ctx w = (Inr (Inl detail), w') \<Longrightarrow>
      middleware nxt (ctx, w) = (Inr (), (set_result_of (Some (unauthorized [ErrText detail])) ctx, w'))"
    and raises: "decide ctx w = (Inl e, w') \<Longrightarrow> middleware nxt (ctx, w) = (Inl e, (ctx, w'))"
begin

lemma gate:
  "(\<exists>p w'. decide ctx w = (Inr (Inr p), w') \<and>
      pipeline_handle (middleware # rest) (ctx, w) = pipeline_handle rest (set_principal p ctx, w')) \<or>
   (\<exists>detail w'. decide ctx w = (Inr (Inl detail), w') \<and> pipeline_handle (middleware # rest) (ctx, w) =
      (Inr (), (set_result_of (Some (unauthorized [ErrText detail])) ctx, w'))) \<or>
   (\<exists>e w'. decide ctx w = (Inl e, w') \<and> pipeline_handle (middleware # rest) (ctx, w) = (Inl e, (ctx, w')))"
proof (cases "decide ctx w")
  case (Pair d w')
  then show ?thesis by (cases d; cases "projr d") (auto simp: accepts rejects raises)
qed

text \<open>A caller that is not accepted reaches nothing behind the gate.\<close>

lemma closed:
  "(\<nexists>p w'. decide ctx w = (Inr (Inr p), w')) \<Longrightarrow>
     pipeline_handle (middleware # rest) (ctx, w) = pipeline_handle (middleware # rest') (ctx, w)"
  using gate [of ctx w rest] gate [of ctx w rest'] by (elim disjE exE conjE) auto

end

definition basic_decision ::
  "(string \<Rightarrow> string \<Rightarrow> ('w, verdict) action) \<Rightarrow> string \<Rightarrow> message_context \<Rightarrow> ('w, string + principal) action" where
  "basic_decision verify realm ctx = (\<lambda>w.
     case read_basic_credentials (vget (ctx_headers ctx) ''authorization'') of
       Inl e \<Rightarrow> (Inl e, w)
     | Inr None \<Rightarrow> (Inr (Inl (''missing or malformed Basic credentials ('' @ realm @ '')'')), w)
     | Inr (Some (user, password)) \<Rightarrow> (case verify user password w of
         (Inl e, w') \<Rightarrow> (Inl e, w')
       | (Inr v, w') \<Rightarrow> (Inr (case resolve_basic v user of None \<Rightarrow> Inl (''invalid credentials ('' @ realm @ '')'') | Some p \<Rightarrow> Inr p), w')))"

definition bearer_decision ::
  "(string \<Rightarrow> ('w, verdict) action) \<Rightarrow> string \<Rightarrow> message_context \<Rightarrow> ('w, string + principal) action" where
  "bearer_decision validate scheme ctx = (\<lambda>w.
     case read_bearer_token (vget (ctx_headers ctx) ''authorization'') scheme of
       Inl e \<Rightarrow> (Inl e, w)
     | Inr None \<Rightarrow> (Inr (Inl (''missing or malformed '' @ scheme @ '' token'')), w)
     | Inr (Some token) \<Rightarrow> (case validate token w of
         (Inl e, w') \<Rightarrow> (Inl e, w')
       | (Inr v, w') \<Rightarrow> (Inr (case resolve_principal v of None \<Rightarrow> Inl ''invalid token'' | Some p \<Rightarrow> Inr p), w')))"

interpretation basic: authenticator "basic_auth_interception verify realm" "basic_decision verify realm"
  for verify realm
  by unfold_locales
    (auto simp: basic_auth_interception_def basic_decision_def split: sum.splits option.splits prod.splits)

interpretation bearer: authenticator "bearer_token_interception validate scheme" "bearer_decision validate scheme"
  for validate scheme
  by unfold_locales
    (auto simp: bearer_token_interception_def bearer_decision_def split: sum.splits option.splits prod.splits)

section \<open>Facts\<close>

lemma get_set_principal [simp]: "get_principal (set_principal p ctx) = principal_object p"
  by (simp add: get_principal_def set_principal_def vget_def)

lemma unauthorized_plain: "res_status (unauthorized es) = ''unauthorized'' \<and> \<not> result_is_successful (unauthorized es)"
  by (simp add: unauthorized_def failure_def result_is_successful_def)

lemma principal_object_inject [simp]: "principal_object p = principal_object q \<longleftrightarrow> p = q"
  by (cases p; cases q) (simp add: principal_object_def)

lemma py_partition_append:
  assumes "c \<notin> set s"
  shows "py_partition c (s @ c # t) = (s, True, t)"
proof -
  have "takeWhile (\<lambda>x. x \<noteq> c) (s @ c # t) = s" using assms by (subst takeWhile_append2) auto
  then show ?thesis by (simp add: py_partition_def)
qed

lemma b64encode_not_Nil [simp]: "b64encode s = [] \<longleftrightarrow> s = []"
  by (cases s rule: b64encode.cases) (simp_all add: Let_def)

lemma utf8_encode_append: "utf8_encode (s @ t) = utf8_encode s @ utf8_encode t"
  by (simp add: utf8_encode_def)

text \<open>A header written as RFC 7617 says is read back as the user and the password.\<close>

lemma basic_credentials_read:
  assumes "CHR '':'' \<notin> set user"
  shows "read_basic_credentials (VStr (''Basic '' @ b64encode (utf8_encode (user @ '':'' @ password)))) = Inr (Some (user, password))"
proof -
  have "utf8_encode (user @ '':'' @ password) \<noteq> []" by (simp add: utf8_encode_def)
  moreover have "py_partition (CHR '' '') (''Basic '' @ b) = (''Basic'', True, b)" for b
    using py_partition_append [of "CHR '' ''" "''Basic''" b] by simp
  moreover have "py_lower ''Basic'' = ''basic''" by code_simp
  moreover have "py_partition (CHR '':'') (user @ '':'' @ password) = (user, True, password)"
    using py_partition_append [OF assms, of password] by simp
  ultimately show ?thesis
    by (simp add: read_basic_credentials_def b64decode_encode utf8_decode_encode del: append.simps)
qed

text \<open>
  What a well-formed header is, said without reference to the readers: a scheme in any letter case, one
  space, and for Basic the base64 and UTF-8 form of a user without a colon, a colon and a password, for a
  bearer scheme a token that is not blank.
\<close>

definition basic_header :: "pyval \<Rightarrow> string \<Rightarrow> string \<Rightarrow> bool" where
  "basic_header h user password \<longleftrightarrow> (\<exists>scheme encoded bytes. h = VStr (scheme @ '' '' @ encoded) \<and> CHR '' '' \<notin> set scheme \<and>
     py_lower scheme = ''basic'' \<and> b64decode encoded = Some bytes \<and> utf8_decode bytes = Some (user @ '':'' @ password) \<and>
     CHR '':'' \<notin> set user)"

definition bearer_header :: "pyval \<Rightarrow> string \<Rightarrow> string \<Rightarrow> bool" where
  "bearer_header h scheme token \<longleftrightarrow> (\<exists>prefix value. h = VStr (prefix @ '' '' @ value) \<and> CHR '' '' \<notin> set prefix \<and>
     py_lower prefix = py_lower scheme \<and> token = py_strip value \<and> token \<noteq> [])"

lemma py_partition_found: "py_partition c s = (a, True, b) \<longleftrightarrow> s = a @ c # b \<and> c \<notin> set a"
proof
  assume p: "py_partition c s = (a, True, b)"
  then have a: "a = takeWhile (\<lambda>x. x \<noteq> c) s" "c \<in> set s" "b = drop (Suc (length a)) s" by (auto simp: py_partition_def Let_def)
  obtain xs ys where "s = xs @ c # ys" "c \<notin> set xs" using split_list_first [OF a(2)] by blast
  with p py_partition_append show "s = a @ c # b \<and> c \<notin> set a" by (metis prod.inject)
qed (use py_partition_append in blast)

lemma py_partition_unfound: "c \<notin> set s \<Longrightarrow> py_partition c s = (s, False, [])"
proof -
  assume "c \<notin> set s"
  then have all: "takeWhile (\<lambda>x. x \<noteq> c) s = s" by (auto simp: takeWhile_eq_all_conv)
  show ?thesis unfolding py_partition_def Let_def all using \<open>c \<notin> set s\<close> by simp
qed

lemma partition_cases:
  obtains "c \<notin> set s" "py_partition c s = (s, False, [])"
  | a b where "s = a @ c # b" "c \<notin> set a" "py_partition c s = (a, True, b)"
  using split_list_first [of c s] py_partition_append py_partition_unfound by metis

lemma read_basic_iff: "read_basic_credentials h = Inr (Some (user, password)) \<longleftrightarrow> basic_header h user password"
proof
  assume a: "read_basic_credentials h = Inr (Some (user, password))"
  then obtain t where t: "h = VStr t" by (cases h) (auto simp: read_basic_credentials_def split: if_splits)
  obtain scheme sep encoded where p: "py_partition (CHR '' '') t = (scheme, sep, encoded)" by (cases "py_partition (CHR '' '') t")
  from a t p obtain bytes decoded where b: "py_lower scheme = ''basic''" "encoded \<noteq> []" "b64decode encoded = Some bytes"
      "utf8_decode bytes = Some decoded" "py_partition (CHR '':'') decoded = (user, True, password)"
    by (auto simp: read_basic_credentials_def split: if_splits option.splits prod.splits)
  have "sep" using b(2) p partition_cases [of "CHR '' ''" t] by (metis prod.inject)
  with p have "t = scheme @ CHR '' '' # encoded \<and> CHR '' '' \<notin> set scheme" by (simp add: py_partition_found)
  moreover have "decoded = user @ CHR '':'' # password \<and> CHR '':'' \<notin> set user" using b(5) by (simp add: py_partition_found)
  ultimately show "basic_header h user password" using t b unfolding basic_header_def by auto
next
  assume "basic_header h user password"
  then obtain scheme encoded bytes where b: "h = VStr (scheme @ CHR '' '' # encoded)" "CHR '' '' \<notin> set scheme"
      "py_lower scheme = ''basic''" "b64decode encoded = Some bytes" "utf8_decode bytes = Some (user @ CHR '':'' # password)"
      "CHR '':'' \<notin> set user" unfolding basic_header_def by auto
  then have "encoded \<noteq> []" by auto
  with b py_partition_append [OF b(2)] py_partition_append [OF b(6)]
  show "read_basic_credentials h = Inr (Some (user, password))" by (simp add: read_basic_credentials_def)
qed

lemma read_bearer_iff: "read_bearer_token h scheme = Inr (Some token) \<longleftrightarrow> bearer_header h scheme token"
proof
  assume a: "read_bearer_token h scheme = Inr (Some token)"
  then obtain t where t: "h = VStr t" by (cases h) (auto simp: read_bearer_token_def split: if_splits)
  obtain prefix sep decoded where p: "py_partition (CHR '' '') t = (prefix, sep, decoded)" by (cases "py_partition (CHR '' '') t")
  from a t p have b: "py_lower prefix = py_lower scheme" "token = py_strip decoded" "token \<noteq> []"
    by (auto simp: read_bearer_token_def split: if_splits)
  have "py_strip [] = []" by code_simp
  then have "sep" using b(2,3) p partition_cases [of "CHR '' ''" t] by (metis prod.inject)
  with p have "t = prefix @ CHR '' '' # decoded \<and> CHR '' '' \<notin> set prefix" by (simp add: py_partition_found)
  with t b show "bearer_header h scheme token" unfolding bearer_header_def by auto
next
  assume "bearer_header h scheme token"
  then obtain prefix decoded where b: "h = VStr (prefix @ CHR '' '' # decoded)" "CHR '' '' \<notin> set prefix"
      "py_lower prefix = py_lower scheme" "token = py_strip decoded" "token \<noteq> []" unfolding bearer_header_def by auto
  with py_partition_append [OF b(2)] show "read_bearer_token h scheme = Inr (Some token)"
    by (simp add: read_bearer_token_def)
qed

text \<open>
  \<open>admits\<close>: whatever is behind the gate runs, with the principal on the context. \<open>turns_away\<close>: the invocation
  is answered \<open>unauthorized\<close>, whatever is behind the gate, and only the verifier has run.
\<close>

definition admits :: "'w middleware \<Rightarrow> message_context \<Rightarrow> 'w \<Rightarrow> principal \<Rightarrow> 'w \<Rightarrow> bool" where
  "admits gate ctx w p w' \<longleftrightarrow> get_principal (set_principal p ctx) = principal_object p \<and>
     (\<forall>rest. pipeline_handle (gate # rest) (ctx, w) = pipeline_handle rest (set_principal p ctx, w'))"

definition turns_away :: "'w middleware \<Rightarrow> message_context \<Rightarrow> 'w \<Rightarrow> 'w \<Rightarrow> bool" where
  "turns_away gate ctx w w' \<longleftrightarrow> (\<exists>r. res_status r = ''unauthorized'' \<and> \<not> result_is_successful r \<and>
     (\<forall>rest. pipeline_handle (gate # rest) (ctx, w) = (Inr (), (ctx\<lparr>ctx_result := Some r\<rparr>, w'))))"

context authenticator
begin

lemma admitted: "decide ctx w = (Inr (Inr p), w') \<Longrightarrow> admits middleware ctx w p w'"
  by (simp add: admits_def accepts)

lemma turned_away: "decide ctx w = (Inr (Inl detail), w') \<Longrightarrow> turns_away middleware ctx w w'"
  unfolding turns_away_def
  by (rule exI [of _ "unauthorized [ErrText detail]"]) (simp add: rejects set_result_of_def unauthorized_plain)

end

lemma read_basic_text: "h = VNone \<or> (\<exists>t. h = VStr t) \<Longrightarrow> \<exists>c. read_basic_credentials h = Inr c"
  by (auto simp: read_basic_credentials_def split: prod.split option.split)

lemma read_bearer_text: "h = VNone \<or> (\<exists>t. h = VStr t) \<Longrightarrow> \<exists>c. read_bearer_token h scheme = Inr c"
  by (auto simp: read_bearer_token_def split: prod.split)

text \<open>What the gates do, by the header and the verdict.\<close>

lemma basic_decides:
  assumes h: "h = vget (ctx_headers ctx) ''authorization''" "h = VNone \<or> (\<exists>t. h = VStr t)"
  shows "\<nexists>user password. basic_header h user password \<Longrightarrow> turns_away (basic_auth_interception verify realm) ctx w w"
    and "basic_header h user password \<Longrightarrow> verify user password w = (Inl e, w') \<Longrightarrow>
      pipeline_handle (basic_auth_interception verify realm # rest) (ctx, w) = (Inl e, (ctx, w'))"
    and "basic_header h user password \<Longrightarrow> verify user password w = (Inr v, w') \<Longrightarrow>
      v = IsPrincipal p \<or> v = IsBool True \<and> p = \<lparr>pl_name = user, pl_claims = []\<rparr> \<Longrightarrow>
      admits (basic_auth_interception verify realm) ctx w p w'"
    and "basic_header h user password \<Longrightarrow> verify user password w = (Inr v, w') \<Longrightarrow>
      v \<in> {IsBool False, IsOther} \<union> range IsClaims \<Longrightarrow> turns_away (basic_auth_interception verify realm) ctx w w'"
proof -
  show "turns_away (basic_auth_interception verify realm) ctx w w" if "\<nexists>user password. basic_header h user password"
  proof -
    have "read_basic_credentials h = Inr None"
      using read_basic_text [OF h(2)] that read_basic_iff [of h] by (metis option.exhaust surj_pair)
    then show ?thesis using basic.turned_away [of verify realm ctx w _ w] h(1) by (simp add: basic_decision_def)
  qed
  assume "basic_header h user password"
  then have r: "read_basic_credentials (vget (ctx_headers ctx) ''authorization'') = Inr (Some (user, password))"
    using h(1) read_basic_iff by simp
  show "pipeline_handle (basic_auth_interception verify realm # rest) (ctx, w) = (Inl e, (ctx, w'))"
    if "verify user password w = (Inl e, w')"
    using that r by (simp add: basic.raises basic_decision_def)
  show "admits (basic_auth_interception verify realm) ctx w p w'" if "verify user password w = (Inr v, w')"
    "v = IsPrincipal p \<or> v = IsBool True \<and> p = \<lparr>pl_name = user, pl_claims = []\<rparr>"
    by (rule basic.admitted) (use that r in \<open>auto simp: basic_decision_def resolve_basic_def\<close>)
  show "turns_away (basic_auth_interception verify realm) ctx w w'" if "verify user password w = (Inr v, w')"
    "v \<in> {IsBool False, IsOther} \<union> range IsClaims"
    by (rule basic.turned_away [of _ _ _ _ "''invalid credentials ('' @ realm @ '')''"])
      (use that r in \<open>auto simp: basic_decision_def resolve_basic_def\<close>)
qed

lemma bearer_decides:
  assumes h: "h = vget (ctx_headers ctx) ''authorization''" "h = VNone \<or> (\<exists>t. h = VStr t)"
  shows "\<nexists>token. bearer_header h scheme token \<Longrightarrow> turns_away (bearer_token_interception validate scheme) ctx w w"
    and "bearer_header h scheme token \<Longrightarrow> validate token w = (Inl e, w') \<Longrightarrow>
      pipeline_handle (bearer_token_interception validate scheme # rest) (ctx, w) = (Inl e, (ctx, w'))"
    and "bearer_header h scheme token \<Longrightarrow> validate token w = (Inr v, w') \<Longrightarrow>
      v = IsPrincipal p \<or> v = IsClaims (pl_claims p) \<and>
        pl_name p = str_val (case dict_get (pl_claims p) ''sub'' of None \<Rightarrow> VStr [] | Some x \<Rightarrow> x) \<Longrightarrow>
      admits (bearer_token_interception validate scheme) ctx w p w'"
    and "bearer_header h scheme token \<Longrightarrow> validate token w = (Inr v, w') \<Longrightarrow>
      v \<in> {IsOther} \<union> range IsBool \<Longrightarrow> turns_away (bearer_token_interception validate scheme) ctx w w'"
proof -
  show "turns_away (bearer_token_interception validate scheme) ctx w w" if "\<nexists>token. bearer_header h scheme token"
  proof -
    have "read_bearer_token h scheme = Inr None"
      using read_bearer_text [OF h(2)] that read_bearer_iff [of h scheme] by (metis option.exhaust)
    then show ?thesis using bearer.turned_away [of validate scheme ctx w _ w] h(1) by (simp add: bearer_decision_def)
  qed
  assume "bearer_header h scheme token"
  then have r: "read_bearer_token (vget (ctx_headers ctx) ''authorization'') scheme = Inr (Some token)"
    using h(1) read_bearer_iff by simp
  show "pipeline_handle (bearer_token_interception validate scheme # rest) (ctx, w) = (Inl e, (ctx, w'))"
    if "validate token w = (Inl e, w')"
    using that r by (simp add: bearer.raises bearer_decision_def)
  show "admits (bearer_token_interception validate scheme) ctx w p w'" if "validate token w = (Inr v, w')"
    "v = IsPrincipal p \<or> v = IsClaims (pl_claims p) \<and>
      pl_name p = str_val (case dict_get (pl_claims p) ''sub'' of None \<Rightarrow> VStr [] | Some x \<Rightarrow> x)"
    by (rule bearer.admitted) (use that r in \<open>auto simp: bearer_decision_def resolve_principal_def DEFAULT_PRINCIPAL_CLAIM_def\<close>)
  show "turns_away (bearer_token_interception validate scheme) ctx w w'" if "validate token w = (Inr v, w')"
    "v \<in> {IsOther} \<union> range IsBool"
    by (rule bearer.turned_away [of _ _ _ _ "''invalid token''"])
      (use that r in \<open>auto simp: bearer_decision_def resolve_principal_def\<close>)
qed

text \<open>
  C30. Authentication gates the pipeline. A well-formed Basic header reaches the verifier with its user and
  password, and the rest of the pipeline runs, with the principal on the context, exactly if the verifier answers with a
  principal or with \<open>True\<close>, which names the user; every other verdict, and a header that is missing or in any
  way malformed, is answered \<open>unauthorized\<close>, and nothing behind the gate runs, whatever it is. A bearer token is
  passed to its validator in the same way, which must answer with a principal or with claims. A verifier that
  raises ends the invocation with its exception. And a header written as the standard says is well-formed.
\<close>

theorem authentication_gates:
  fixes verify :: "string \<Rightarrow> string \<Rightarrow> ('w, verdict) action" and validate :: "string \<Rightarrow> ('w, verdict) action"
  assumes h: "h = vget (ctx_headers ctx) ''authorization''" "h = VNone \<or> (\<exists>t. h = VStr t)"
    and gates: "basic_gate = basic_auth_interception verify realm" "bearer_gate = bearer_token_interception validate scheme"
  shows "(\<forall>user password v w'. basic_header h user password \<and> verify user password w = (Inr v, w') \<longrightarrow>
       (\<forall>p. v = IsPrincipal p \<or> v = IsBool True \<and> p = \<lparr>pl_name = user, pl_claims = []\<rparr> \<longrightarrow> admits basic_gate ctx w p w') \<and>
       (v \<in> {IsBool False, IsOther} \<union> range IsClaims \<longrightarrow> turns_away basic_gate ctx w w')) \<and>
     ((\<nexists>user password. basic_header h user password) \<longrightarrow> turns_away basic_gate ctx w w) \<and>
     (\<forall>token v w'. bearer_header h scheme token \<and> validate token w = (Inr v, w') \<longrightarrow>
       (\<forall>p. v = IsPrincipal p \<or> v = IsClaims (pl_claims p) \<and>
            pl_name p = str_val (case dict_get (pl_claims p) ''sub'' of None \<Rightarrow> VStr [] | Some x \<Rightarrow> x) \<longrightarrow>
          admits bearer_gate ctx w p w') \<and>
       (v \<in> {IsOther} \<union> range IsBool \<longrightarrow> turns_away bearer_gate ctx w w')) \<and>
     ((\<nexists>token. bearer_header h scheme token) \<longrightarrow> turns_away bearer_gate ctx w w) \<and>
     (\<forall>user password e w' rest. basic_header h user password \<and> verify user password w = (Inl e, w') \<longrightarrow>
       pipeline_handle (basic_gate # rest) (ctx, w) = (Inl e, (ctx, w'))) \<and>
     (\<forall>token e w' rest. bearer_header h scheme token \<and> validate token w = (Inl e, w') \<longrightarrow>
       pipeline_handle (bearer_gate # rest) (ctx, w) = (Inl e, (ctx, w'))) \<and>
     (CHR '':'' \<notin> set user \<longrightarrow>
       basic_header (VStr (''Basic '' @ b64encode (utf8_encode (user @ '':'' @ password)))) user password)"
proof -
  have standard: "CHR '':'' \<notin> set user \<Longrightarrow> basic_header (VStr (''Basic '' @ b64encode (utf8_encode (user @ '':'' @ password)))) user password"
    using basic_credentials_read read_basic_iff by blast
  show ?thesis unfolding gates
    by (intro conjI allI impI; (elim conjE)?; (rule standard basic_decides [OF h] bearer_decides [OF h]; assumption))
qed

definition one_user :: "string \<Rightarrow> string \<Rightarrow> ('w, verdict) action" where
  "one_user user password = act_return (IsBool (user = ''ann'' \<and> password = ''s3:cret''))"

theorem authentication_gates_witness:
  "pipeline_handle [basic_auth_interception one_user ''benzene'', \<lambda>_ (ctx, w). (Inr (), (ctx, Suc w))]
     (mk_context (VStr ''t'') VNone [(''Authorization'', VStr (''Basic '' @ b64encode (utf8_encode ''ann:s3:cret'')))] create_scope (VStr []), 0)
   = (Inr (), (set_principal \<lparr>pl_name = ''ann'', pl_claims = []\<rparr>
       (mk_context (VStr ''t'') VNone [(''Authorization'', VStr (''Basic '' @ b64encode (utf8_encode ''ann:s3:cret'')))] create_scope (VStr [])), Suc 0))"
proof -
  let ?ctx = "mk_context (VStr ''t'') VNone [(''Authorization'', VStr (''Basic '' @ b64encode (utf8_encode ''ann:s3:cret'')))] create_scope (VStr [])"
  have l: "py_lower ''Authorization'' = ''authorization''" by code_simp
  have h: "vget (ctx_headers ?ctx) ''authorization'' = VStr (''Basic '' @ b64encode (utf8_encode ''ann:s3:cret''))"
    by (simp add: mk_context_def lower_keys_def dict_of_def l vget_def)
  have "read_basic_credentials (VStr (''Basic '' @ b64encode (utf8_encode ''ann:s3:cret''))) = Inr (Some (''ann'', ''s3:cret''))"
    using basic_credentials_read [of "''ann''" "''s3:cret''"] by simp
  then have b: "basic_header (vget (ctx_headers ?ctx) ''authorization'') ''ann'' ''s3:cret''"
    unfolding h read_basic_iff .
  have v: "one_user ''ann'' ''s3:cret'' (0 :: nat) = (Inr (IsBool True), 0)" by (simp add: one_user_def act_return_def)
  have t: "vget (ctx_headers ?ctx) ''authorization'' = VNone \<or> (\<exists>t. vget (ctx_headers ?ctx) ''authorization'' = VStr t)"
    unfolding h by blast
  have "admits (basic_auth_interception one_user ''benzene'') ?ctx 0 \<lparr>pl_name = ''ann'', pl_claims = []\<rparr> (0 :: nat)"
    by (rule authentication_gates [OF refl t refl refl, where verify = one_user and w = 0, THEN conjunct1, THEN spec, THEN spec, THEN spec, THEN spec, THEN mp,
          OF conjI [OF b v], THEN conjunct1, THEN spec, THEN mp]) simp
  from this [unfolded admits_def, THEN conjunct2, THEN spec, of "[\<lambda>_ (ctx, w). (Inr (), (ctx, Suc w))]"]
  show ?thesis by (simp only: pipeline_handle_simps prod.case)
qed

text \<open>
  The authorizer answers with a policy for every event whose headers are an object and every validator
  that does not raise: \<open>Allow\<close> exactly when the validator accepts the extracted token.
\<close>

lemma authorizer_allows_exactly:
  assumes "extract_token event scheme = Inr t" "\<And>token. \<exists>v w'. validate token w = (Inr v, w')"
  shows "\<exists>doc w'. api_gateway_authorizer validate claim scheme event w = (Inr doc, w') \<and>
    (\<exists>pid eff arn context. doc = policy pid eff arn context \<and>
      (eff = ''Allow'' \<longleftrightarrow> (\<exists>token v p w'. t = Some token \<and> validate token w = (Inr v, w') \<and> resolve_principal v = Some p)) \<and>
      (eff \<noteq> ''Allow'' \<longrightarrow> eff = ''Deny''))"
proof (cases t)
  case (Some token)
  obtain v w' where v: "validate token w = (Inr v, w')" using assms(2) by blast
  show ?thesis
  proof (cases "resolve_principal v")
    case None
    with assms(1) Some v show ?thesis by (fastforce simp: api_gateway_authorizer_def Let_def)
  next
    case (Some p)
    with assms(1) \<open>t = Some token\<close> v show ?thesis by (fastforce simp: api_gateway_authorizer_def Let_def)
  qed
qed (use assms(1) in \<open>fastforce simp: api_gateway_authorizer_def Let_def\<close>)

end
