(* ===== verification/SpecDoc.thy ===== *)
theory SpecDoc
  imports Dynamic
begin

text \<open>
  \<open>benzene.mesh.specdoc\<close>: reading a Contract Document. A document is a decoded JSON object of which only
  \<open>service\<close> is required; \<open>resolve_schema\<close> inlines the references of a schema.
\<close>

definition RESERVED_TOPIC_PREFIX :: string where "RESERVED_TOPIC_PREFIX = ''benzene:''"
definition SCHEMA_DIALECT :: string where "SCHEMA_DIALECT = ''openapi-3.0''"
definition MEMBERS :: "string list" where "MEMBERS = [''requests'', ''events'', ''sends'']"
definition SCHEMA_REF_PREFIX :: string where "SCHEMA_REF_PREFIX = ''#/components/schemas/''"

definition is_reserved_topic :: "string \<Rightarrow> bool" where
  "is_reserved_topic topic = starts_with RESERVED_TOPIC_PREFIX topic"

definition is_list :: "pyval \<Rightarrow> bool" where
  "is_list v = (case v of VList _ \<Rightarrow> True | _ \<Rightarrow> False)"

definition is_contract_document :: "pydict \<Rightarrow> bool" where
  "is_contract_document document = (vget document ''schemaDialect'' = VStr SCHEMA_DIALECT \<and>
     truthy (vget document ''service'') \<and> is_list (vget document ''requests''))"

text \<open>\<open>str(v) if v else None\<close>, the reading of the optional texts.\<close>

definition text_if_any :: "pyval \<Rightarrow> string option" where
  "text_if_any v = (if truthy v then Some (str_val v) else None)"

definition spec_service :: "pydict \<Rightarrow> string \<Rightarrow> string" where
  "spec_service document d = (case text_if_any (vget document ''service'') of Some s \<Rightarrow> s | None \<Rightarrow> d)"

definition spec_service_version :: "pydict \<Rightarrow> string option" where
  "spec_service_version document = text_if_any (vget document ''serviceVersion'')"

definition spec_registration_hash :: "pydict \<Rightarrow> string option" where
  "spec_registration_hash document = text_if_any (vget document ''registrationHash'')"

definition known_members :: "pydict \<Rightarrow> string list" where
  "known_members document =
     (let undetermined = (case vget document ''degraded'' of VList ms \<Rightarrow> map str_val ms | _ \<Rightarrow> [])
      in filter (\<lambda>m. is_list (vget document m) \<and> m \<notin> set undetermined) MEMBERS)"

text \<open>The entries of a member that are objects with a topic that is not reserved.\<close>

definition spec_entries :: "pydict \<Rightarrow> string \<Rightarrow> pydict list" where
  "spec_entries document member = (case vget document member of
     VList es \<Rightarrow> List.map_filter (\<lambda>e. case e of
       VDict d \<Rightarrow> if truthy (vget d ''topic'') \<and> \<not> is_reserved_topic (str_val (vget d ''topic'')) then Some d else None
     | _ \<Rightarrow> None) es
   | _ \<Rightarrow> [])"

definition entry_topic :: "pydict \<Rightarrow> string" where
  "entry_topic entry = str_val (vget entry ''topic'')"

text \<open>Their topics in order of first occurrence.\<close>

definition add_new :: "'a \<Rightarrow> 'a list \<Rightarrow> 'a list" where
  "add_new x xs = (if x \<in> set xs then xs else xs @ [x])"

definition spec_topic_ids :: "pydict \<Rightarrow> string list \<Rightarrow> string list" where
  "spec_topic_ids document members =
     fold add_new (concat (map (\<lambda>m. map entry_topic (spec_entries document m)) members)) []"

definition schema_catalogue :: "pydict \<Rightarrow> pydict" where
  "schema_catalogue document = (case vget document ''components'' of
     VDict d \<Rightarrow> (case vget d ''schemas'' of VDict s \<Rightarrow> s | _ \<Rightarrow> [])
   | _ \<Rightarrow> [])"

section \<open>Inlining references\<close>

text \<open>The catalogue name a schema refers to.\<close>

definition schema_ref :: "pydict \<Rightarrow> string option" where
  "schema_ref ms = (case vget ms ''$ref'' of
     VStr r \<Rightarrow> if starts_with SCHEMA_REF_PREFIX r then Some (drop (length SCHEMA_REF_PREFIX) r) else None
   | _ \<Rightarrow> None)"

function resolve_schema :: "pyval \<Rightarrow> pydict \<Rightarrow> string list \<Rightarrow> pydict"
  and resolve_value :: "pyval \<Rightarrow> pydict \<Rightarrow> string list \<Rightarrow> pyval" where
  "resolve_schema schema schemas seen = (case schema of
     VDict ms \<Rightarrow>
       (case schema_ref ms of
          Some name \<Rightarrow>
            if name \<in> set seen \<or> name \<notin> set (map fst schemas) then []
            else resolve_schema (vget schemas name) schemas (seen @ [name])
        | None \<Rightarrow> map (\<lambda>(k, v). (k, resolve_value v schemas seen)) ms)
   | _ \<Rightarrow> [])"
| "resolve_value v schemas seen = (case v of
     VDict ms \<Rightarrow> VDict (resolve_schema v schemas seen)
   | VList vs \<Rightarrow> VList (map (\<lambda>x. resolve_value x schemas seen) vs)
   | _ \<Rightarrow> v)"
  by pat_completeness auto
termination
proof (relation "inv_image (less_than <*lex*> less_than) (\<lambda>x. case x of
    Inl (v, schemas, seen) \<Rightarrow> (card (set (map fst schemas) - set seen), 2 * size v)
  | Inr (v, schemas, seen) \<Rightarrow> (card (set (map fst schemas) - set seen), Suc (2 * size v)))", goal_cases)
  case (3 schema schemas seen ms name)
  then have "set (map fst schemas) - set (seen @ [name]) \<subset> set (map fst schemas) - set seen" by auto
  then show ?case by (auto intro: psubset_card_mono)
next
  case (2 schema schemas seen ms x k v)
  then have "size v < size (VDict ms)" using pyval_member_size [of k v ms] by auto
  with 2 show ?case by auto
next
  case (4 v schemas seen vs x)
  then show ?case using pyval_element_size [of x vs] by auto
qed auto

declare resolve_schema.simps [simp del] resolve_value.simps [simp del]

text \<open>A value with no reference into a catalogue left in it, at any depth.\<close>

fun reference_free :: "pyval \<Rightarrow> bool" where
  "reference_free (VDict ms) = (schema_ref ms = None \<and> list_all (\<lambda>(k, v). reference_free v) ms)"
| "reference_free (VList vs) = list_all reference_free vs"
| "reference_free _ = True"

lemma schema_ref_resolved:
  "schema_ref ms = None \<Longrightarrow> schema_ref (map (\<lambda>(k, v). (k, resolve_value v schemas seen)) ms) = None"
proof -
  have "resolve_value v schemas seen = VStr r \<longleftrightarrow> v = VStr r" for v r
    by (subst resolve_value.simps) (auto split: pyval.splits)
  then show "schema_ref ms = None \<Longrightarrow> ?thesis"
    by (auto simp: schema_ref_def vget_def map_of_map [unfolded o_def] split: option.splits pyval.splits if_splits)
qed

lemma resolved_reference_free:
  "reference_free (VDict (resolve_schema schema schemas seen))"
  "reference_free (resolve_value v schemas seen)"
proof (induction schema schemas seen and v schemas seen rule: resolve_schema_resolve_value.induct)
  case (1 schema schemas seen)
  show ?case
  proof (cases schema)
    case (VDict ms)
    show ?thesis
    proof (cases "schema_ref ms")
      case None
      then show ?thesis using 1(1) [OF VDict None] schema_ref_resolved [OF None]
        by (subst resolve_schema.simps) (auto simp: VDict list_all_iff)
    next
      case (Some name)
      then show ?thesis using 1(2) [OF VDict Some]
        by (subst resolve_schema.simps) (simp add: VDict schema_ref_def vget_def)
    qed
  qed (subst resolve_schema.simps, simp add: schema_ref_def vget_def)+
next
  case (2 v schemas seen)
  show ?case
  proof (cases v)
    case (VDict ms)
    then show ?thesis using 2(2) by (subst resolve_value.simps) simp
  next
    case (VList vs)
    then show ?thesis using 2(1) by (subst resolve_value.simps) (simp add: list_all_iff)
  qed (subst resolve_value.simps, simp)+
qed

lemma resolve_reference_free:
  "reference_free schema \<Longrightarrow> schema = VDict ms \<Longrightarrow> resolve_schema schema schemas seen = ms"
  "reference_free v \<Longrightarrow> resolve_value v schemas seen = v"
proof (induction schema schemas seen and v schemas seen arbitrary: ms rule: resolve_schema_resolve_value.induct)
  case (1 schema schemas seen)
  then have r: "schema_ref ms = None" and "\<And>k v. (k, v) \<in> set ms \<Longrightarrow> resolve_value v schemas seen = v"
    by (auto simp: list_all_iff)
  then have "map (\<lambda>(k, v). (k, resolve_value v schemas seen)) ms = ms" by (auto intro: map_idI)
  with r show ?case by (subst resolve_schema.simps) (simp add: 1(4))
next
  case (2 v schemas seen)
  show ?case
  proof (cases v)
    case (VDict ms)
    then show ?thesis using 2(2) [OF VDict, of ms] 2(3) by (subst resolve_value.simps) simp
  next
    case (VList vs)
    then show ?thesis using 2(1) 2(3) by (subst resolve_value.simps) (auto simp: list_all_iff intro: map_idI)
  qed (subst resolve_value.simps, simp)+
qed

text \<open>
  Inlining a schema always ends, whatever cycles its catalogue has, and leaves no reference into the catalogue at any
  depth, so that two resolved schemas can be compared without one; a schema that has no reference is
  not changed by it.
\<close>

lemma resolve_schema_closed:
  "reference_free (VDict (resolve_schema schema schemas seen)) \<and>
   resolve_schema (VDict (resolve_schema schema schemas seen)) schemas' seen' = resolve_schema schema schemas seen"
  using resolved_reference_free(1) resolve_reference_free(1) by blast

end
