(* ===== verification/ContractHash.thy ===== *)
theory ContractHash
  imports SpecDoc Envelope "HOL-Library.Product_Lexorder" "HOL-Library.Multiset"
begin

text \<open>
  \<open>benzene.core.contract_hash\<close>: the projection of a Contract Document and the two hashes over it. The
  canonical JSON of RFC 8785 and SHA-256 are the arguments \<open>jcs\<close> and \<open>sha256\<close>. Comparing strings by UTF-16
  code units is comparing their code points, on the alphabet of the development.
\<close>

section \<open>Schemas\<close>

definition ANNOTATIONS :: "string list" where
  "ANNOTATIONS = [''title'', ''description'', ''default'', ''examples'', ''example'', ''deprecated'', ''readOnly'',
     ''writeOnly'', ''$comment'', ''$id'', ''$schema'', ''format'']"

definition annotation_key :: "string \<Rightarrow> bool" where
  "annotation_key k \<longleftrightarrow> k \<in> set ANNOTATIONS \<or> starts_with ''x-'' k"

definition SINGLE_SCHEMA_KEYS :: "string list" where
  "SINGLE_SCHEMA_KEYS = [''items'', ''additionalProperties'', ''not'']"

definition LIST_SCHEMA_KEYS :: "string list" where
  "LIST_SCHEMA_KEYS = [''allOf'', ''anyOf'', ''oneOf'']"

text \<open>One member of a schema, with \<open>f\<close> at the schemas below it.\<close>

definition member_form :: "(pyval \<Rightarrow> pyval) \<Rightarrow> string \<Rightarrow> pyval \<Rightarrow> pyval" where
  "member_form f k v = (case v of
     VDict ps \<Rightarrow>
       if k = ''properties'' then VDict (map (\<lambda>(p, s). (p, f s)) ps)
       else if k \<in> set SINGLE_SCHEMA_KEYS then f v
       else if k = ''discriminator'' then VDict (filter (\<lambda>(p, s). p \<noteq> ''mapping'') ps)
       else v
   | VList vs \<Rightarrow>
       if k \<in> set LIST_SCHEMA_KEYS then VList (map f vs)
       else if k = ''required'' then VList (sort_key str_val vs)
       else v
   | _ \<Rightarrow> v)"

definition schemas_below :: "string \<Rightarrow> pyval \<Rightarrow> pyval set" where
  "schemas_below k v = (case v of
     VDict ps \<Rightarrow> if k = ''properties'' then {s. \<exists>p. (p, s) \<in> set ps} else if k \<in> set SINGLE_SCHEMA_KEYS then {v} else {}
   | VList vs \<Rightarrow> if k \<in> set LIST_SCHEMA_KEYS then set vs else {}
   | _ \<Rightarrow> {})"

lemma member_form_cong [fundef_cong]:
  assumes "k = k'" "v = v'" "\<And>x. x \<in> schemas_below k' v' \<Longrightarrow> f x = g x"
  shows "member_form f k v = member_form g k' v'"
proof -
  have "map (\<lambda>(p, s). (p, f s)) ps = map (\<lambda>(p, s). (p, g s)) ps" if "v' = VDict ps" "k' = ''properties''" for ps
    using assms(3) that by (force simp: schemas_below_def)
  moreover have "map f vs = map g vs" if "v' = VList vs" "k' \<in> set LIST_SCHEMA_KEYS" for vs
    using assms(3) that by (simp add: schemas_below_def)
  moreover have "f v' = g v'" if "v' = VDict ps" "k' \<in> set SINGLE_SCHEMA_KEYS" "k' \<noteq> ''properties''" for ps
    using assms(3) that by (simp add: schemas_below_def)
  ultimately show ?thesis unfolding assms(1,2) by (cases v') (simp_all add: member_form_def)
qed

definition kept_members :: "(pyval \<Rightarrow> pyval) \<Rightarrow> pydict \<Rightarrow> pydict" where
  "kept_members f ms = concat (map (\<lambda>(k, v).
     if annotation_key k \<or> (k = ''required'' \<and> v = VList []) then [] else [(k, member_form f k v)]) ms)"

lemma kept_members_cong [fundef_cong]:
  assumes "ms = ms'" "\<And>k v x. (k, v) \<in> set ms' \<Longrightarrow> x \<in> schemas_below k v \<Longrightarrow> f x = g x"
  shows "kept_members f ms = kept_members g ms'"
  unfolding kept_members_def assms(1)
  by (intro arg_cong [where f = concat] map_cong refl) (auto intro!: member_form_cong assms(2))

text \<open>The component a one-element list of schemas refers to.\<close>

definition single_reference :: "pyval \<Rightarrow> string option" where
  "single_reference members = (case members of VList [VDict m] \<Rightarrow> schema_ref m | _ \<Rightarrow> None)"

definition is_cut_nullable_reference :: "pydict \<Rightarrow> pydict \<Rightarrow> string list \<Rightarrow> bool" where
  "is_cut_nullable_reference original normalized expanding \<longleftrightarrow>
     (case single_reference (vget original ''allOf'') of
        None \<Rightarrow> False
      | Some name \<Rightarrow> name \<in> set expanding \<and> vget normalized ''nullable'' = VBool True \<and>
          set (dict_keys normalized) \<subseteq> {''type'', ''nullable'', ''allOf''})"

definition finish_schema :: "pydict \<Rightarrow> pydict \<Rightarrow> string list \<Rightarrow> pyval" where
  "finish_schema original out expanding =
     (let out' = (if vget out ''properties'' = VDict [] then dict_del ''properties'' out else out)
      in if is_cut_nullable_reference original out' expanding then VDict [] else VDict out')"

definition catalogue_entry :: "pydict \<Rightarrow> string \<Rightarrow> pyval" where
  "catalogue_entry catalogue name = (case dict_get catalogue name of None \<Rightarrow> VDict [] | Some v \<Rightarrow> v)"

lemma schemas_below_size: "x \<in> schemas_below k v \<Longrightarrow> size x \<le> size v"
proof (cases v)
  case (VList vs)
  then show "x \<in> schemas_below k v \<Longrightarrow> size x \<le> size v"
    using pyval_element_size [of x vs] by (auto simp: schemas_below_def split: if_splits)
next
  case (VDict ps)
  then show "x \<in> schemas_below k v \<Longrightarrow> size x \<le> size v"
    using pyval_member_size [of _ x ps] by (auto simp: schemas_below_def split: if_splits intro: less_imp_le)
qed (simp_all add: schemas_below_def)

function normalize :: "pyval \<Rightarrow> pydict \<Rightarrow> string list \<Rightarrow> pyval" where
  "normalize schema catalogue expanding = (case schema of
     VDict ms \<Rightarrow>
       (case schema_ref ms of
          Some name \<Rightarrow>
            if name \<in> set expanding then VDict []
            else normalize (catalogue_entry catalogue name) catalogue (name # expanding)
        | None \<Rightarrow> finish_schema ms (kept_members (\<lambda>s. normalize s catalogue expanding) ms) expanding)
   | _ \<Rightarrow> schema)"
  by pat_completeness auto
termination
proof (relation "inv_image (less_than <*lex*> less_than)
    (\<lambda>(s, catalogue, expanding). (card (set (map fst catalogue) - set expanding), size s))", goal_cases)
  case (3 schema catalogue expanding ms name)
  show ?case
  proof (cases "name \<in> set (map fst catalogue)")
    case True
    then have "set (map fst catalogue) - set (name # expanding) \<subset> set (map fst catalogue) - set expanding"
      using 3(3) by force
    then show ?thesis by (auto intro: psubset_card_mono)
  next
    case False
    then have "catalogue_entry catalogue name = VDict []" "set (map fst catalogue) - set (name # expanding) = set (map fst catalogue) - set expanding"
      using map_of_eq_None_iff [of catalogue name] by (auto simp: catalogue_entry_def)
    moreover have "ms \<noteq> []" using 3(2) by (auto simp: schema_ref_def vget_def)
    ultimately show ?thesis using 3(1) by (cases ms) auto
  qed
next
  case (2 schema catalogue expanding ms k v s)
  then have "size s \<le> size v" "size v < size (VDict ms)" using schemas_below_size pyval_member_size [of k v ms] by auto
  then show ?case using 2(1) by auto
qed auto

declare normalize.simps [simp del]

definition normalize_schema :: "pyval \<Rightarrow> pydict \<Rightarrow> pyval" where
  "normalize_schema schema catalogue = normalize schema catalogue []"

section \<open>What a schema means\<close>

text \<open>
  A schema up to documentation and component names: annotations dropped, \<open>required\<close> sorted, references
  written with the names \<open>\<sigma>\<close> gives them.
\<close>

function wire_form :: "(string \<Rightarrow> string) \<Rightarrow> pyval \<Rightarrow> pyval" where
  "wire_form \<sigma> schema = (case schema of
     VDict ms \<Rightarrow>
       (case schema_ref ms of
          Some name \<Rightarrow> VDict [(''$ref'', VStr (SCHEMA_REF_PREFIX @ \<sigma> name))]
        | None \<Rightarrow> VDict (kept_members (wire_form \<sigma>) ms))
   | _ \<Rightarrow> schema)"
  by pat_completeness auto
termination
proof (relation "measure (\<lambda>(\<sigma>, s). size s)", goal_cases)
  case (2 \<sigma> schema ms k v s)
  then have "size s \<le> size v" "size v < size (VDict ms)" using schemas_below_size pyval_member_size [of k v ms] by auto
  then show ?case using 2(1) by auto
qed simp

declare wire_form.simps [simp del]

definition wire_catalogue :: "(string \<Rightarrow> string) \<Rightarrow> pydict \<Rightarrow> pydict" where
  "wire_catalogue \<sigma> catalogue = map (\<lambda>(name, s). (\<sigma> name, wire_form \<sigma> s)) catalogue"

lemma schema_ref_written [simp]: "schema_ref [(''$ref'', VStr (SCHEMA_REF_PREFIX @ name))] = Some name"
  by (simp add: schema_ref_def vget_def)

lemma vget_kept:
  assumes "\<not> annotation_key k" "k \<noteq> ''required''"
  shows "vget (kept_members f ms) k = (case dict_get ms k of None \<Rightarrow> VNone | Some v \<Rightarrow> member_form f k v)"
proof -
  have "map_of (kept_members f ms) k = map_option (member_form f k) (map_of ms k)"
    using assms by (induction ms) (auto simp: kept_members_def)
  then show ?thesis by (simp add: vget_def split: option.splits)
qed

lemma member_form_plain: "k \<notin> set (SINGLE_SCHEMA_KEYS @ LIST_SCHEMA_KEYS @ [''properties'', ''required'', ''discriminator'']) \<Longrightarrow>
    member_form f k v = v"
  by (simp add: member_form_def split: pyval.splits)

lemma ref_key [simp]: "\<not> annotation_key ''$ref''" "\<not> annotation_key ''allOf''" "member_form f ''$ref'' v = v"
  by (simp_all add: annotation_key_def ANNOTATIONS_def starts_with_def member_form_plain SINGLE_SCHEMA_KEYS_def LIST_SCHEMA_KEYS_def)

lemma allOf_required: "''allOf'' \<noteq> ''required''"
  by simp

lemma schema_ref_kept: "schema_ref (kept_members f ms) = schema_ref ms"
  using vget_kept [of "''$ref''" f ms] by (simp add: schema_ref_def vget_def split: option.splits)

lemma wire_form_simps:
  "schema_ref ms = Some name \<Longrightarrow> wire_form \<sigma> (VDict ms) = VDict [(''$ref'', VStr (SCHEMA_REF_PREFIX @ \<sigma> name))]"
  "schema_ref ms = None \<Longrightarrow> wire_form \<sigma> (VDict ms) = VDict (kept_members (wire_form \<sigma>) ms)"
  "(\<And>ms. s \<noteq> VDict ms) \<Longrightarrow> wire_form \<sigma> s = s"
  by (subst wire_form.simps; simp split: pyval.splits)+

lemma normalize_simps:
  "schema_ref ms = Some name \<Longrightarrow> normalize (VDict ms) cat ex =
     (if name \<in> set ex then VDict [] else normalize (catalogue_entry cat name) cat (name # ex))"
  "schema_ref ms = None \<Longrightarrow> normalize (VDict ms) cat ex = finish_schema ms (kept_members (\<lambda>s. normalize s cat ex) ms) ex"
  "(\<And>ms. s \<noteq> VDict ms) \<Longrightarrow> normalize s cat ex = s"
  by (subst normalize.simps; simp split: pyval.splits)+

lemma wire_form_dict: "\<exists>ns. wire_form \<sigma> (VDict ms) = VDict ns"
  by (cases "schema_ref ms") (simp_all add: wire_form_simps)

text \<open>Taking the wire form first changes nothing for what is computed from the kept members.\<close>

lemma member_form_wire:
  assumes "\<And>x. x \<in> schemas_below k v \<Longrightarrow> f (wire_form \<sigma> x) = g x"
  shows "member_form f k (member_form (wire_form \<sigma>) k v) = member_form g k v"
proof (cases v)
  case (VDict ps)
  have "wire_form \<sigma> (VDict ps) = VDict (case wire_form \<sigma> (VDict ps) of VDict ns \<Rightarrow> ns)"
    using wire_form_dict [of \<sigma> ps] by auto
  moreover have "k = ''properties'' \<Longrightarrow> f (wire_form \<sigma> s) = g s" if "(p, s) \<in> set ps" for p s
    using assms that by (auto simp: VDict schemas_below_def)
  moreover have "k \<in> set SINGLE_SCHEMA_KEYS \<Longrightarrow> k \<noteq> ''properties'' \<Longrightarrow> f (wire_form \<sigma> (VDict ps)) = g (VDict ps)"
    using assms by (simp add: VDict schemas_below_def)
  ultimately show ?thesis
    using wire_form_dict [of \<sigma> ps] by (auto simp: VDict member_form_def)
next
  case (VList vs)
  have "k \<in> set LIST_SCHEMA_KEYS \<Longrightarrow> map (f \<circ> wire_form \<sigma>) vs = map g vs"
    using assms by (simp add: VList schemas_below_def)
  moreover have "sort_key str_val (sort_key str_val vs) = sort_key str_val vs"
    by (rule sort_key_id_if_sorted) simp
  ultimately show ?thesis by (auto simp: VList member_form_def)
qed (simp_all add: member_form_def)

lemma kept_members_wire:
  assumes "\<And>k v x. (k, v) \<in> set ms \<Longrightarrow> x \<in> schemas_below k v \<Longrightarrow> f (wire_form \<sigma> x) = g x"
  shows "kept_members f (kept_members (wire_form \<sigma>) ms) = kept_members g ms"
proof -
  have r: "member_form h ''required'' v = VList [] \<longleftrightarrow> v = VList []" for h v
    by (cases v) (auto simp: member_form_def SINGLE_SCHEMA_KEYS_def LIST_SCHEMA_KEYS_def dest: arg_cong [of _ _ set])
  have "kept_members f (if annotation_key k \<or> (k = ''required'' \<and> v = VList []) then [] else [(k, member_form (wire_form \<sigma>) k v)]) =
      (if annotation_key k \<or> (k = ''required'' \<and> v = VList []) then [] else [(k, member_form g k v)])" if "(k, v) \<in> set ms" for k v
    using member_form_wire [of k v f \<sigma> g] assms that r [of "wire_form \<sigma>" v] by (auto simp: kept_members_def)
  moreover have "kept_members f (concat xss) = concat (map (kept_members f) xss)" for xss
    by (induction xss) (simp_all add: kept_members_def)
  ultimately show ?thesis
    unfolding kept_members_def [of "wire_form \<sigma>"] kept_members_def [of g] by (auto intro!: arg_cong [where f = concat])
qed

lemma single_reference_wire:
  "single_reference (member_form (wire_form \<sigma>) ''allOf'' v) = map_option \<sigma> (single_reference v)"
proof (cases v)
  case (VList vs)
  have m: "member_form (wire_form \<sigma>) ''allOf'' (VList us) = VList (map (wire_form \<sigma>) us)" for us
    by (simp add: member_form_def LIST_SCHEMA_KEYS_def)
  show ?thesis
  proof (cases vs)
    case (Cons s ss)
    show ?thesis
    proof (cases ss)
      case Nil
      show ?thesis
      proof (cases s)
        case (VDict d)
        then show ?thesis using VList Cons Nil
          by (cases "schema_ref d") (simp_all add: m single_reference_def wire_form_simps schema_ref_kept)
      qed (simp_all add: m VList Cons Nil single_reference_def wire_form_simps)
    next
      case (Cons s' ss')
      then show ?thesis using \<open>vs = s # ss\<close> wire_form_dict [of \<sigma>]
        by (simp add: m VList single_reference_def split: pyval.split)
    qed
  qed (simp add: m VList single_reference_def)
qed (simp_all add: member_form_def single_reference_def SINGLE_SCHEMA_KEYS_def)

lemma cut_wire:
  assumes "inj \<sigma>"
  shows "is_cut_nullable_reference (kept_members (wire_form \<sigma>) ms) out (map \<sigma> ex) = is_cut_nullable_reference ms out ex"
proof -
  have "single_reference (vget (kept_members (wire_form \<sigma>) ms) ''allOf'') = map_option \<sigma> (single_reference (vget ms ''allOf''))"
    unfolding vget_kept [OF ref_key(2) allOf_required]
    by (simp add: vget_def single_reference_wire single_reference_def [of VNone] split: option.split)
  then show ?thesis
    unfolding is_cut_nullable_reference_def by (auto simp: inj_image_mem_iff [OF assms] split: option.split)
qed

lemma catalogue_entry_wire:
  assumes "inj \<sigma>"
  shows "catalogue_entry (wire_catalogue \<sigma> cat) (\<sigma> name) = wire_form \<sigma> (catalogue_entry cat name)"
proof -
  have "map_of (wire_catalogue \<sigma> cat) (\<sigma> name) = map_option (wire_form \<sigma>) (map_of cat name)"
    unfolding wire_catalogue_def by (induction cat) (auto simp: inj_eq [OF assms])
  moreover have "wire_form \<sigma> (VDict []) = VDict []"
    by (simp add: wire_form_simps(2) schema_ref_def vget_def kept_members_def)
  ultimately show ?thesis by (simp add: catalogue_entry_def split: option.splits)
qed

text \<open>Normalizing a schema forgets how its components are named and documented.\<close>

lemma normalize_wire:
  assumes "inj \<sigma>"
  shows "normalize (wire_form \<sigma> s) (wire_catalogue \<sigma> cat) (map \<sigma> ex) = normalize s cat ex"
proof (induction s cat ex rule: normalize.induct)
  case (1 s cat ex)
  show ?case
  proof (cases s)
    case (VDict ms)
    show ?thesis
    proof (cases "schema_ref ms")
      case None
      have "kept_members (\<lambda>x. normalize x (wire_catalogue \<sigma> cat) (map \<sigma> ex)) (kept_members (wire_form \<sigma>) ms) =
          kept_members (\<lambda>x. normalize x cat ex) ms"
        by (rule kept_members_wire) (rule 1(1) [OF VDict None])
      then show ?thesis
        by (simp add: VDict None wire_form_simps normalize_simps schema_ref_kept finish_schema_def cut_wire [OF assms])
    next
      case (Some name)
      then show ?thesis
        using 1(2) [OF VDict Some] by (simp add: VDict wire_form_simps normalize_simps catalogue_entry_wire [OF assms]
            image_iff inj_eq [OF assms])
    qed
  qed (simp_all add: wire_form_simps normalize_simps)
qed

lemma normalize_catalogue:
  "map_of cat = map_of cat' \<Longrightarrow> normalize s cat ex = normalize s cat' ex"
proof (induction s cat ex rule: normalize.induct)
  case (1 s cat ex)
  show ?case
  proof (cases s)
    case (VDict ms)
    show ?thesis
    proof (cases "schema_ref ms")
      case None
      have "kept_members (\<lambda>x. normalize x cat ex) ms = kept_members (\<lambda>x. normalize x cat' ex) ms"
        by (rule kept_members_cong [OF refl]) (rule 1(1) [OF VDict None _ _ 1(3)])
      then show ?thesis by (simp add: VDict None normalize_simps)
    next
      case (Some name)
      then show ?thesis
        using 1(2) [OF VDict Some _ 1(3)] 1(3) by (simp add: VDict normalize_simps catalogue_entry_def)
    qed
  qed (simp_all add: normalize_simps)
qed

lemma normalize_same_wire:
  assumes "inj \<sigma>" "inj \<tau>" "map_of (wire_catalogue \<sigma> cat) = map_of (wire_catalogue \<tau> cat')"
    "wire_form \<sigma> s = wire_form \<tau> s'"
  shows "normalize_schema s cat = normalize_schema s' cat'"
  using normalize_wire [OF assms(1), of s cat "[]"] normalize_wire [OF assms(2), of s' cat' "[]"]
    normalize_catalogue [OF assms(3), of "wire_form \<tau> s'" "[]"] assms(4)
  by (simp add: normalize_schema_def)

section \<open>The projection and the hashes\<close>

definition ENTRY_FIELDS :: "(string, string list) dict" where
  "ENTRY_FIELDS =
     [(''requests'', [''topic'', ''version'', ''httpMappings'', ''request'', ''response'']),
      (''events'', [''topic'', ''version'', ''message'']),
      (''sends'', [''topic'', ''version'', ''request'', ''response''])]"

definition SCHEMA_FIELDS :: "string list" where
  "SCHEMA_FIELDS = [''request'', ''response'', ''message'']"

text \<open>\<open>m.get(key, "")\<close>\<close>

definition get_text :: "pydict \<Rightarrow> string \<Rightarrow> pyval" where
  "get_text m key = (case dict_get m key of None \<Rightarrow> VStr [] | Some v \<Rightarrow> v)"

definition http_mapping :: "pyval \<Rightarrow> pydict option" where
  "http_mapping m = (case m of
     VDict d \<Rightarrow> Some [(''method'', VStr (py_upper (str_val (get_text d ''method'')))), (''path'', get_text d ''path'')]
   | _ \<Rightarrow> None)"

definition mapping_key :: "pydict \<Rightarrow> string \<times> string" where
  "mapping_key m = (str_val (vget m ''method''), str_val (vget m ''path''))"

definition project_field :: "pydict \<Rightarrow> string \<Rightarrow> pyval \<Rightarrow> pyval outcome" where
  "project_field catalogue name value =
     (if name \<in> set SCHEMA_FIELDS then Inr (normalize_schema value catalogue)
      else if name = ''httpMappings'' then
        and_then (if truthy value then elements_of value else Inr []) (\<lambda>ms.
          Inr (VList (map VDict (sort_key mapping_key (List.map_filter http_mapping ms)))))
      else Inr value)"

fun project_entry :: "pydict \<Rightarrow> string list \<Rightarrow> pydict \<Rightarrow> pydict outcome" where
  "project_entry entry [] catalogue = Inr []"
| "project_entry entry (name # allowed) catalogue = (case dict_get entry name of
     None \<Rightarrow> project_entry entry allowed catalogue
   | Some value \<Rightarrow> and_then (project_field catalogue name value) (\<lambda>v.
       and_then (project_entry entry allowed catalogue) (\<lambda>rest. Inr ((name, v) # rest))))"

definition contract_entry :: "pyval \<Rightarrow> pydict option" where
  "contract_entry entry = (case entry of
     VDict d \<Rightarrow> if starts_with RESERVED_TOPIC_PREFIX (str_val (get_text d ''topic'')) then None else Some d
   | _ \<Rightarrow> None)"

definition contract_entries :: "pydict \<Rightarrow> string \<Rightarrow> pydict list outcome" where
  "contract_entries document member =
     (let es = vget document member
      in and_then (if truthy es then elements_of es else Inr []) (\<lambda>vs. Inr (List.map_filter contract_entry vs)))"

text \<open>The sort key of a projected entry; reading the topic of an entry that has none raises.\<close>

definition entry_key :: "pydict \<Rightarrow> string \<times> bool \<times> string" where
  "entry_key e = (str_val (vget e ''topic''), dict_mem ''version'' e, str_val (get_text e ''version''))"

definition sort_entries :: "pydict list \<Rightarrow> pydict list outcome" where
  "sort_entries es =
     (if list_all (dict_mem ''topic'') es then Inr (sort_key entry_key es)
      else Inl (PyException ''KeyError'' (repr_str ''topic'')))"

definition project_member :: "pydict \<Rightarrow> string \<Rightarrow> pydict list outcome" where
  "project_member document member = (case dict_get ENTRY_FIELDS member of
     None \<Rightarrow> Inl (PyException ''KeyError'' (repr_str member))
   | Some allowed \<Rightarrow>
       and_then (contract_entries document member) (\<lambda>es.
       and_then (each (\<lambda>e. project_entry e allowed (schema_catalogue document)) es) sort_entries))"

definition projection :: "pydict \<Rightarrow> string list \<Rightarrow> pyval outcome" where
  "projection document members =
     and_then (each (\<lambda>m. and_then (project_member document m) (\<lambda>es. Inr (m, VList (map VDict es)))) members) (\<lambda>ms.
       Inr (VDict (dict_of ms)))"

definition hash_projection :: "(pyval \<Rightarrow> string outcome) \<Rightarrow> (string \<Rightarrow> string) \<Rightarrow> pyval \<Rightarrow> string outcome" where
  "hash_projection jcs sha256 projected = and_then (jcs projected) (\<lambda>bytes. Inr (''sha256:'' @ sha256 bytes))"

definition contract_hash :: "(pyval \<Rightarrow> string outcome) \<Rightarrow> (string \<Rightarrow> string) \<Rightarrow> pydict \<Rightarrow> string outcome" where
  "contract_hash jcs sha256 document =
     and_then (projection document [''requests'', ''events'']) (hash_projection jcs sha256)"

definition registration_hash :: "(pyval \<Rightarrow> string outcome) \<Rightarrow> (string \<Rightarrow> string) \<Rightarrow> pydict \<Rightarrow> string outcome" where
  "registration_hash jcs sha256 document =
     and_then (projection document [''requests'', ''events'', ''sends'']) (hash_projection jcs sha256)"

section \<open>What moves a hash\<close>

text \<open>
  What an entry says on the wire: its allow-listed fields, the schemas among them in wire form. Two documents describe one contract
  under the namings \<open>\<sigma>\<close> and \<open>\<tau>\<close> of their components when their catalogues agree as
  mappings and every member has the same entries, in any order, each entry with its own key.
\<close>

definition wire_field :: "(string \<Rightarrow> string) \<Rightarrow> string \<Rightarrow> pyval \<Rightarrow> pyval" where
  "wire_field \<sigma> name v = (if name \<in> set SCHEMA_FIELDS then wire_form \<sigma> v else v)"

definition wire_entry :: "(string \<Rightarrow> string) \<Rightarrow> string list \<Rightarrow> pydict \<Rightarrow> pydict" where
  "wire_entry \<sigma> allowed e =
     List.map_filter (\<lambda>name. map_option (\<lambda>v. (name, wire_field \<sigma> name v)) (dict_get e name)) allowed"

definition same_entries :: "(string \<Rightarrow> string) \<Rightarrow> (string \<Rightarrow> string) \<Rightarrow> string list \<Rightarrow> pydict list \<Rightarrow> pydict list \<Rightarrow> bool" where
  "same_entries \<sigma> \<tau> allowed es es' \<longleftrightarrow>
     mset (map (wire_entry \<sigma> allowed) es) = mset (map (wire_entry \<tau> allowed) es') \<and> distinct (map entry_key es)"

definition same_member :: "(string \<Rightarrow> string) \<Rightarrow> (string \<Rightarrow> string) \<Rightarrow> pydict \<Rightarrow> pydict \<Rightarrow> string \<times> string list \<Rightarrow> bool" where
  "same_member \<sigma> \<tau> d d' m = (case (contract_entries d (fst m), contract_entries d' (fst m)) of
     (Inr es, Inr es') \<Rightarrow> same_entries \<sigma> \<tau> (snd m) es es'
   | _ \<Rightarrow> False)"

definition same_catalogue :: "(string \<Rightarrow> string) \<Rightarrow> (string \<Rightarrow> string) \<Rightarrow> pydict \<Rightarrow> pydict \<Rightarrow> bool" where
  "same_catalogue \<sigma> \<tau> d d' =
     (let c = wire_catalogue \<sigma> (schema_catalogue d); c' = wire_catalogue \<tau> (schema_catalogue d')
      in list_all (\<lambda>name. map_of c name = map_of c' name) (map fst (c @ c')))"

definition same_contract :: "(string \<Rightarrow> string) \<Rightarrow> (string \<Rightarrow> string) \<Rightarrow> pydict \<Rightarrow> pydict \<Rightarrow> bool" where
  "same_contract \<sigma> \<tau> d d' \<longleftrightarrow> same_catalogue \<sigma> \<tau> d d' \<and> list_all (same_member \<sigma> \<tau> d d') ENTRY_FIELDS"

lemma same_catalogue_map:
  "same_catalogue \<sigma> \<tau> d d' \<Longrightarrow>
     map_of (wire_catalogue \<sigma> (schema_catalogue d)) = map_of (wire_catalogue \<tau> (schema_catalogue d'))"
proof (rule ext)
  fix name
  assume "same_catalogue \<sigma> \<tau> d d'"
  then show "map_of (wire_catalogue \<sigma> (schema_catalogue d)) name = map_of (wire_catalogue \<tau> (schema_catalogue d')) name"
    using map_of_eq_None_iff [of "wire_catalogue \<sigma> (schema_catalogue d)" name]
      map_of_eq_None_iff [of "wire_catalogue \<tau> (schema_catalogue d')" name]
    by (auto simp: same_catalogue_def Let_def list_all_iff)
qed

lemma project_field_wire:
  assumes "inj \<sigma>" "map_of c = map_of (wire_catalogue \<sigma> cat)"
  shows "project_field c name (wire_field \<sigma> name v) = project_field cat name v"
  using normalize_wire [OF assms(1), of v cat "[]"] normalize_catalogue [OF assms(2)]
  by (simp add: project_field_def wire_field_def normalize_schema_def)

lemma project_entry_wire:
  assumes "inj \<sigma>" "map_of c = map_of (wire_catalogue \<sigma> cat)"
  shows "project_entry (wire_entry \<sigma> allowed e) allowed c = project_entry e allowed cat"
proof -
  have "map_of (wire_entry \<sigma> ns e) name = (if name \<in> set ns then map_option (wire_field \<sigma> name) (map_of e name) else None)" for ns name
    unfolding wire_entry_def by (induction ns) (auto simp: List.map_filter_simps split: option.split)
  then have "\<forall>name \<in> set allowed. map_of (wire_entry \<sigma> allowed e) name = map_option (wire_field \<sigma> name) (map_of e name)"
    by simp
  moreover have "\<forall>name \<in> set ns. map_of w name = map_option (wire_field \<sigma> name) (map_of e name) \<Longrightarrow>
      project_entry w ns c = project_entry e ns cat" for w ns
    by (induction ns) (simp_all add: project_field_wire [OF assms] split: option.split)
  ultimately show ?thesis by blast
qed

lemma project_entry_get:
  assumes "name \<notin> set SCHEMA_FIELDS" "name \<noteq> ''httpMappings''"
  shows "project_entry e allowed cat = Inr p \<Longrightarrow> map_of p name = (if name \<in> set allowed then map_of e name else None)"
proof (induction allowed arbitrary: p)
  case (Cons n ns)
  then show ?case using assms
    by (auto simp: and_then_def project_field_def split: option.splits sum.splits if_splits)
qed simp

lemma project_entry_key:
  assumes "project_entry e allowed cat = Inr p" "''topic'' \<in> set allowed" "''version'' \<in> set allowed"
  shows "entry_key p = entry_key e" "dict_mem ''topic'' p = dict_mem ''topic'' e"
  using project_entry_get [OF _ _ assms(1), of "''topic''"] project_entry_get [OF _ _ assms(1), of "''version''"] assms(2,3)
  by (simp_all add: SCHEMA_FIELDS_def entry_key_def vget_def get_text_def dict_mem_def)

lemma each_Inr: "each f xs = Inr ys \<longleftrightarrow> map f xs = map Inr ys"
proof (induction xs arbitrary: ys)
  case (Cons x xs)
  have "each f (x # xs) = Inr ys \<longleftrightarrow> (\<exists>z zs. ys = z # zs \<and> f x = Inr z \<and> each f xs = Inr zs)"
    by (auto simp: and_then_def split: sum.splits)
  then show ?case by (auto simp: Cons.IH map_eq_Cons_conv)
qed auto

lemma project_entries_same:
  assumes "inj \<sigma>" "inj \<tau>" "map_of (wire_catalogue \<sigma> cat) = map_of (wire_catalogue \<tau> cat')"
    and same: "same_entries \<sigma> \<tau> allowed es es'"
    and "''topic'' \<in> set allowed" "''version'' \<in> set allowed"
    and ps: "each (\<lambda>e. project_entry e allowed cat) es = Inr ps" "sort_entries ps = Inr ys"
  shows "\<exists>ps'. each (\<lambda>e. project_entry e allowed cat') es' = Inr ps' \<and> sort_entries ps' = Inr ys"
proof -
  define C where "C = wire_catalogue \<sigma> cat"
  let ?h = "\<lambda>w. project_entry w allowed C"
  have h: "project_entry e allowed cat = ?h (wire_entry \<sigma> allowed e)" "project_entry e allowed cat' = ?h (wire_entry \<tau> allowed e)" for e
    using project_entry_wire [OF assms(1), of C cat] project_entry_wire [OF assms(2), of C cat'] assms(3)
    by (simp_all add: C_def)
  have "mset (map (?h \<circ> wire_entry \<sigma> allowed) es) = mset (map (?h \<circ> wire_entry \<tau> allowed) es')"
    using same by (simp add: same_entries_def image_mset.comp [symmetric] flip: image_mset.compositionality)
  then have m: "mset (map (\<lambda>e. project_entry e allowed cat) es) = mset (map (\<lambda>e. project_entry e allowed cat') es')"
    by (simp add: h comp_def)
  have "map (\<lambda>e. project_entry e allowed cat) es = map Inr ps" using ps(1) by (simp add: each_Inr)
  then have m': "mset (map Inr ps) = mset (map (\<lambda>e. project_entry e allowed cat') es')" using m by simp
  define ps' where "ps' = map projr (map (\<lambda>e. project_entry e allowed cat') es')"
  have "\<forall>x \<in> set (map (\<lambda>e. project_entry e allowed cat') es'). x = Inr (projr x)"
    using m' [symmetric, THEN mset_eq_setD] by auto
  then have r: "map (\<lambda>e. project_entry e allowed cat') es' = map Inr ps'" by (simp add: ps'_def)
  have mp: "mset ps = mset ps'"
    using arg_cong [OF m', of "image_mset projr"] unfolding r by (simp add: image_mset.compositionality comp_def)
  have "map entry_key ps = map entry_key es"
    using \<open>map (\<lambda>e. project_entry e allowed cat) es = map Inr ps\<close> project_entry_key(1) [OF _ assms(5,6), of _ cat]
    by (auto simp: list_eq_iff_nth_eq dest!: map_eq_imp_length_eq)
  then have "distinct (map entry_key ps)" using same by (simp add: same_entries_def)
  then have "sort_key entry_key ps = sort_key entry_key ps'"
    using mp by (intro sort_key_inj_key_eq) (simp_all add: distinct_map)
  moreover have "list_all (dict_mem ''topic'') ps = list_all (dict_mem ''topic'') ps'"
    using mset_eq_setD [OF mp] by (simp add: list_all_iff)
  ultimately have "sort_entries ps' = Inr ys" using ps(2) by (simp add: sort_entries_def split: if_splits)
  then show ?thesis using r by (auto simp: each_Inr)
qed

lemma entry_fields_keyed: "(m, allowed) \<in> set ENTRY_FIELDS \<Longrightarrow> ''topic'' \<in> set allowed \<and> ''version'' \<in> set allowed"
  by (auto simp: ENTRY_FIELDS_def)

lemma project_member_same:
  assumes "inj \<sigma>" "inj \<tau>" "same_contract \<sigma> \<tau> d d'" "project_member d m = Inr ys"
  shows "project_member d' m = Inr ys"
proof -
  obtain allowed es ps where a: "dict_get ENTRY_FIELDS m = Some allowed" "contract_entries d m = Inr es"
      "each (\<lambda>e. project_entry e allowed (schema_catalogue d)) es = Inr ps" "sort_entries ps = Inr ys"
    using assms(4) by (auto simp: project_member_def and_then_def split: option.splits sum.splits)
  then have k: "(m, allowed) \<in> set ENTRY_FIELDS" by (simp add: map_of_SomeD)
  then have "same_member \<sigma> \<tau> d d' (m, allowed)"
    using assms(3) by (auto simp: same_contract_def list_all_iff)
  then obtain es' where b: "contract_entries d' m = Inr es'" "same_entries \<sigma> \<tau> allowed es es'"
    using a(2) by (auto simp: same_member_def split: sum.splits)
  have c: "map_of (wire_catalogue \<sigma> (schema_catalogue d)) = map_of (wire_catalogue \<tau> (schema_catalogue d'))"
    using assms(3) by (simp add: same_contract_def same_catalogue_map)
  show ?thesis
    using project_entries_same [OF assms(1,2) c b(2) _ _ a(3,4)] entry_fields_keyed [OF k] a(1) b(1)
    by (auto simp: project_member_def)
qed

lemma projection_same:
  assumes "inj \<sigma>" "inj \<tau>" "same_contract \<sigma> \<tau> d d'" "projection d members = Inr p"
  shows "projection d' members = Inr p"
proof -
  let ?f = "\<lambda>d m. and_then (project_member d m) (\<lambda>es. Inr (m, VList (map VDict es)))"
  obtain ms where ms: "each (?f d) members = Inr ms" "p = VDict (dict_of ms)"
    using assms(4) by (auto simp: projection_def and_then_def [of "each _ _"] split: sum.splits)
  have "each (?f d') xs = Inr ys" if "each (?f d) xs = Inr ys" for xs ys
    using that
  proof (induction xs arbitrary: ys)
    case (Cons x xs)
    then obtain es zs where x: "project_member d x = Inr es" "each (?f d) xs = Inr zs" "ys = (x, VList (map VDict es)) # zs"
      by (auto simp: and_then_def split: sum.splits)
    show ?case using Cons.IH [OF x(2)] project_member_same [OF assms(1-3) x(1)] by (simp add: x(3))
  qed simp
  then show ?thesis using ms by (simp add: projection_def)
qed

text \<open>
  C31. Neither hash depends on how a document names its components, on the documentation of its schemas, on the order of its
  entries or of its catalogue, nor on members outside the projection: when two documents describe one contract under some
  injective namings of their components and the first has the hashes \<open>h\<close> and \<open>r\<close>, the second has the same.
\<close>

theorem hashes_follow_contract:
  assumes "inj \<sigma>" "inj \<tau>" "same_contract \<sigma> \<tau> d d'"
    and "contract_hash jcs sha256 d = Inr h" "registration_hash jcs sha256 d = Inr r"
  shows "contract_hash jcs sha256 d' = Inr h \<and> registration_hash jcs sha256 d' = Inr r"
proof -
  have "and_then (projection d' ms) g = Inr x" if "and_then (projection d ms) g = Inr x" for ms x and g :: "pyval \<Rightarrow> string outcome"
    using that projection_same [OF assms(1-3), of ms] by (auto simp: and_then_def split: sum.splits)
  then show ?thesis using assms(4,5) by (simp add: contract_hash_def registration_hash_def)
qed

text \<open>Documents that name and document their one, recursive component differently, and list their requests in another order.\<close>

definition naming_example :: "string \<Rightarrow> string \<Rightarrow> string list \<Rightarrow> pydict" where
  "naming_example name doc topics =
     [(''components'', VDict [(''schemas'', VDict
         [(name, VDict [(''description'', VStr doc), (''type'', VStr ''object''),
            (''properties'', VDict [(''next'', VDict [(''$ref'', VStr (SCHEMA_REF_PREFIX @ name))])])])])]),
      (''requests'', VList (map (\<lambda>t. VDict [(''topic'', VStr t), (''request'', VDict [(''$ref'', VStr (SCHEMA_REF_PREFIX @ name))])]) topics))]"

definition renaming_example :: "string \<Rightarrow> string" where
  "renaming_example n = (if n = ''Node'' then ''Link'' else if n = ''Link'' then ''Node'' else n)"

lemma renaming_example_inj: "inj renaming_example"
  by (auto simp: inj_def renaming_example_def split: if_splits)

theorem hashes_follow_contract_witness:
  "inj renaming_example \<and> inj id \<and>
   same_contract renaming_example id (naming_example ''Node'' ''a list'' [''b'', ''a'']) (naming_example ''Link'' ''cells'' [''a'', ''b'']) \<and>
   contract_hash (\<lambda>p. Inr (repr_val p)) id (naming_example ''Link'' ''cells'' [''a'', ''b'']) =
     contract_hash (\<lambda>p. Inr (repr_val p)) id (naming_example ''Node'' ''a list'' [''b'', ''a'']) \<and>
   registration_hash (\<lambda>p. Inr (repr_val p)) id (naming_example ''Link'' ''cells'' [''a'', ''b'']) =
     registration_hash (\<lambda>p. Inr (repr_val p)) id (naming_example ''Node'' ''a list'' [''b'', ''a''])"
proof -
  have s: "same_contract renaming_example id (naming_example ''Node'' ''a list'' [''b'', ''a'']) (naming_example ''Link'' ''cells'' [''a'', ''b''])"
    by code_simp
  have "\<not> isl (contract_hash (\<lambda>p. Inr (repr_val p)) id (naming_example ''Node'' ''a list'' [''b'', ''a'']))"
    "\<not> isl (registration_hash (\<lambda>p. Inr (repr_val p)) id (naming_example ''Node'' ''a list'' [''b'', ''a'']))"
    by code_simp+
  then obtain h r where
    hr: "contract_hash (\<lambda>p. Inr (repr_val p)) id (naming_example ''Node'' ''a list'' [''b'', ''a'']) = Inr h"
      "registration_hash (\<lambda>p. Inr (repr_val p)) id (naming_example ''Node'' ''a list'' [''b'', ''a'']) = Inr r"
    by (metis sum.collapse(2))
  show ?thesis
    using hashes_follow_contract [OF renaming_example_inj inj_on_id s hr] s renaming_example_inj hr by simp
qed

text \<open>
  Hoisting a schema into the catalogue does move the hash when the schema is recursive: written out in place it is cut one turn later.
\<close>

definition hoisting_example :: "pydict \<Rightarrow> pydict" where
  "hoisting_example schema =
     [(''components'', VDict [(''schemas'', VDict
         [(''Node'', VDict [(''properties'', VDict [(''next'', VDict [(''$ref'', VStr (SCHEMA_REF_PREFIX @ ''Node''))])])])])]),
      (''requests'', VList [VDict [(''topic'', VStr ''a''), (''request'', VDict schema)]])]"

lemma hoisting_moves_hash:
  "projection (hoisting_example [(''$ref'', VStr (SCHEMA_REF_PREFIX @ ''Node''))]) [''requests''] \<noteq>
   projection (hoisting_example [(''properties'', VDict [(''next'', VDict [(''$ref'', VStr (SCHEMA_REF_PREFIX @ ''Node''))])])]) [''requests'']"
  by code_simp

end
