(* ===== verification/ContractSchema.thy ===== *)
theory ContractSchema
  imports ContractHash PayloadMapping
begin

text \<open>
  \<open>benzene.core.contract_schema\<close>: deriving the schemas of a Contract Document from type annotations.
  What Python reads by reflection is data here: an annotation is an \<open>annotation\<close>, and the classes are a
  table from qualified names to what \<open>dataclasses.fields\<close>, \<open>get_type_hints\<close>, the members of an enumeration
  and pydantic's \<open>model_fields\<close> say of them. Generic classes and type variables are not in it.
\<close>

section \<open>Annotations and classes\<close>

text \<open>A member of an enumeration that is also a \<open>str\<close> or an \<open>int\<close> is given by its value.\<close>

datatype literal = LitNone | LitBool bool | LitInt int | LitStr string
  | LitStrEnum string | LitIntEnum int | LitPlainEnum | LitOther

datatype annotation =
    TAny | TNone
  | TAnnotated bool annotation  \<comment> \<open>whether the metadata hold a pydantic serializer\<close>
  | TUnion "annotation list"
  | TArray "annotation option"  \<comment> \<open>\<open>list\<close>, \<open>tuple\<close>, \<open>set\<close>, \<open>frozenset\<close> and the first argument\<close>
  | TMap "annotation option"    \<comment> \<open>\<open>dict\<close> and the second of two arguments\<close>
  | TLiteral "literal list"
  | TPrimitive string | TPath
  | TNamed string               \<comment> \<open>a class of the table\<close>
  | TOther

record model_field =
  mf_name :: string
  mf_excluded :: bool           \<comment> \<open>\<open>exclude is True\<close>\<close>
  mf_alias :: "string option"   \<comment> \<open>\<open>serialization_alias or alias\<close>\<close>
  mf_serialized :: bool         \<comment> \<open>a custom serializer writes it, or a computed field has no return type\<close>
  mf_annotation :: annotation
  mf_exclude_if :: bool

datatype class_body =
    StrEnum "string list" | IntEnum "int list" | PlainEnum
  | Dataclass "(string \<times> annotation option) list" \<comment> \<open>the fields, with the hint when there is one\<close>
  | Model bool "model_field list" "model_field list" \<comment> \<open>custom serializer, fields, computed fields\<close>
  | RootModel bool "(bool \<times> annotation) option"      \<comment> \<open>custom serializer; the root's own, and its annotation\<close>

record class_info =
  ci_name :: string \<comment> \<open>the declared schema name, else \<open>__name__\<close>\<close>
  ci_body :: class_body

type_synonym class_table = "(string, class_info) dict"

definition is_named :: "class_info \<Rightarrow> bool" where
  "is_named c = (case ci_body c of
     StrEnum _ \<Rightarrow> True | IntEnum _ \<Rightarrow> True | PlainEnum \<Rightarrow> False | Dataclass _ \<Rightarrow> True
   | Model serialized _ _ \<Rightarrow> \<not> serialized | RootModel _ _ \<Rightarrow> False)"

section \<open>Names and inline schemas\<close>

definition PRIMITIVES :: "(string, pydict) dict" where
  "PRIMITIVES =
     [(''bool'', [(''type'', VStr ''boolean'')]), (''int'', [(''type'', VStr ''integer'')]),
      (''float'', [(''type'', VStr ''number''), (''format'', VStr ''double'')]), (''str'', [(''type'', VStr ''string'')]),
      (''bytes'', [(''type'', VStr ''string''), (''format'', VStr ''byte'')]),
      (''datetime'', [(''type'', VStr ''string''), (''format'', VStr ''date-time'')]),
      (''date'', [(''type'', VStr ''string''), (''format'', VStr ''date'')]), (''time'', [(''type'', VStr ''string'')]),
      (''timedelta'', [(''type'', VStr ''string''), (''format'', VStr ''duration'')]),
      (''UUID'', [(''type'', VStr ''string''), (''format'', VStr ''uuid'')]), (''Decimal'', [(''type'', VStr ''number'')])]"

definition TOKEN_MARK :: char where "TOKEN_MARK = CHR 0x00"

definition valid_name :: "string \<Rightarrow> string" where
  "valid_name name = filter (\<lambda>c. c \<in> set ''ABCDEFGHIJKLMNOPQRSTUVWXYZabcdefghijklmnopqrstuvwxyz0123456789._-'') name"

definition schema_name :: "string \<Rightarrow> class_info \<Rightarrow> class_info outcome" where
  "schema_name name c =
     (if valid_name name = [] then Inl (PyException ''ValueError'' (''schema_name('' @ repr_str name
        @ ''): a component name needs at least one of A-Z a-z 0-9 . _ -''))
      else Inr (c\<lparr>ci_name := name\<rparr>))"

definition component_name :: "class_info \<Rightarrow> string" where
  "component_name c = (if valid_name (ci_name c) = [] then ''Schema'' else valid_name (ci_name c))"

text \<open>The values of a \<open>Literal\<close>: one JSON type for all of them, or the open schema.\<close>

fun literal_value :: "literal \<Rightarrow> pyval option" where
  "literal_value (LitBool b) = Some (VBool b)"
| "literal_value (LitInt i) = Some (VInt i)"
| "literal_value (LitStr s) = Some (VStr s)"
| "literal_value (LitStrEnum s) = Some (VStr s)"
| "literal_value (LitIntEnum i) = Some (VInt i)"
| "literal_value _ = None"

definition literal_type :: "pyval \<Rightarrow> string option" where
  "literal_type v = (case v of
     VBool _ \<Rightarrow> Some ''boolean'' | VInt _ \<Rightarrow> Some ''integer'' | VStr _ \<Rightarrow> Some ''string'' | _ \<Rightarrow> None)"

definition literal_schema :: "literal list \<Rightarrow> pydict" where
  "literal_schema values =
     (if LitPlainEnum \<in> set values \<or> LitOther \<in> set values then []
      else let written = fold add_new (List.map_filter literal_value values) [];
               nullable = (if LitNone \<in> set values then [(''nullable'', VBool True)] else [])
           in case remdups (map literal_type written) of
                [Some t] \<Rightarrow> [(''type'', VStr t), (''enum'', VList written)] @ nullable
              | _ \<Rightarrow> [])"

definition nullable_schema :: "pydict \<Rightarrow> string option \<Rightarrow> pydict" where
  "nullable_schema schema ref_type =
     (if schema = [] then schema
      else case ref_type of
        Some t \<Rightarrow> if dict_mem ''$ref'' schema
                  then [(''type'', VStr t), (''nullable'', VBool True), (''allOf'', VList [VDict schema])]
                  else dict_set ''nullable'' (VBool True) schema
      | None \<Rightarrow> dict_set ''nullable'' (VBool True) schema)"

definition ref_type :: "class_table \<Rightarrow> annotation \<Rightarrow> string option" where
  "ref_type ct a = (case a of
     TNamed q \<Rightarrow> (case dict_get ct q of
       None \<Rightarrow> None
     | Some c \<Rightarrow> if \<not> is_named c then None
         else (case ci_body c of StrEnum _ \<Rightarrow> Some ''string'' | IntEnum _ \<Rightarrow> Some ''integer'' | _ \<Rightarrow> Some ''object''))
   | _ \<Rightarrow> None)"

section \<open>The catalogue\<close>

record component =
  cp_name :: string
  cp_token :: string
  cp_qualified :: string
  cp_schema :: pydict
  cp_refs :: "string list"

text \<open>The components by their class, in order of registration, and the classes each topic refers to.\<close>

type_synonym components = "(string, component) dict"

record catalogue =
  cat_components :: components
  cat_entry_refs :: "(string, string list) dict"

definition empty_catalogue :: catalogue where
  "empty_catalogue = \<lparr>cat_components = [], cat_entry_refs = []\<rparr>"

definition new_component :: "string \<Rightarrow> class_info \<Rightarrow> nat \<Rightarrow> component" where
  "new_component q c n = \<lparr>cp_name = component_name c, cp_token = TOKEN_MARK # nat_text n, cp_qualified = q,
     cp_schema = [], cp_refs = []\<rparr>"

definition token_ref :: "component \<Rightarrow> pydict" where
  "token_ref co = [(''$ref'', VStr (SCHEMA_REF_PREFIX @ cp_token co))]"

text \<open>
  The properties of a class: their keys, the annotations they are derived from (\<open>None\<close> for the open schema), and
  whether each is required.
\<close>

type_synonym members = "(string \<times> annotation option \<times> bool) list"

definition record_members :: "(string \<times> annotation option) list \<Rightarrow> members" where
  "record_members fs = map (\<lambda>(name, hint). (to_camel name, hint, True)) fs"

definition model_member :: "model_field \<Rightarrow> string \<times> annotation option \<times> bool" where
  "model_member f = ((case mf_alias f of None \<Rightarrow> mf_name f | Some a \<Rightarrow> if a = [] then mf_name f else a),
     if mf_serialized f then None else Some (mf_annotation f), \<not> mf_exclude_if f)"

definition model_members :: "model_field list \<Rightarrow> model_field list \<Rightarrow> members" where
  "model_members fs computed = map model_member (filter (\<lambda>f. \<not> mf_excluded f) fs @ computed)"

definition object_schema :: "(string \<times> pyval) list \<Rightarrow> members \<Rightarrow> pydict" where
  "object_schema properties ms =
     (let required = map (VStr \<circ> fst) (filter (\<lambda>(_, _, r). r) ms)
      in [(''type'', VStr ''object''), (''properties'', VDict (dict_of properties))]
         @ (if required = [] then [] else [(''required'', VList required)]))"

definition enum_schema :: "class_body \<Rightarrow> pydict option" where
  "enum_schema body = (case body of
     StrEnum vs \<Rightarrow> Some [(''type'', VStr ''string''), (''enum'', VList (map VStr vs))]
   | IntEnum vs \<Rightarrow> Some [(''type'', VStr ''integer''), (''enum'', VList (map VInt vs))]
   | _ \<Rightarrow> None)"

definition body_members :: "class_body \<Rightarrow> members" where
  "body_members body = (case body of
     Dataclass fs \<Rightarrow> record_members fs | Model _ fs computed \<Rightarrow> model_members fs computed | _ \<Rightarrow> [])"

definition is_model :: "class_body \<Rightarrow> bool" where
  "is_model body = (case body of Model _ _ _ \<Rightarrow> True | _ \<Rightarrow> False)"

definition is_dataclass :: "class_body \<Rightarrow> bool" where
  "is_dataclass body = (case body of Dataclass _ \<Rightarrow> True | _ \<Rightarrow> False)"

text \<open>For a root model, the annotation of its root, unless a custom serializer writes the model or the root.\<close>

definition root_annotation :: "class_body \<Rightarrow> annotation option option" where
  "root_annotation body = (case body of
     RootModel serialized rt \<Rightarrow> Some (case rt of
       Some (field_serialized, b) \<Rightarrow> if serialized \<or> field_serialized then None else Some b
     | None \<Rightarrow> None)
   | _ \<Rightarrow> None)"

text \<open>
  Deriving the schema of an annotation, with the classes it refers to and the components so far. \<open>roots\<close> are
  the root models being expanded and \<open>in_model\<close> says whether pydantic writes the position. Each class entered
  takes one unit of fuel: a class registers its component before its members are derived, and a root model is
  expanded once, so that one unit for each class of the table is enough.
\<close>

function derive ::
    "class_table \<Rightarrow> nat \<Rightarrow> string list \<Rightarrow> bool \<Rightarrow> annotation \<Rightarrow> components \<Rightarrow> (pydict \<times> string list \<times> components) option"
  and derive_members ::
    "class_table \<Rightarrow> nat \<Rightarrow> string list \<Rightarrow> bool \<Rightarrow> members \<Rightarrow> components \<Rightarrow> ((string \<times> pyval) list \<times> string list \<times> components) option"
where
  "derive ct n roots in_model a st = (case a of
     TAnnotated custom b \<Rightarrow> if custom then Some ([], [], st) else derive ct n roots in_model b st
   | TUnion as \<Rightarrow> (case filter (\<lambda>b. b \<noteq> TNone) as of
       [b] \<Rightarrow> (case derive ct n roots in_model b st of
         None \<Rightarrow> None
       | Some (inner, refs, st') \<Rightarrow>
           Some (if length as = 1 then inner else nullable_schema inner (ref_type ct b), refs, st'))
     | _ \<Rightarrow> Some ([], [], st))
   | TArray item \<Rightarrow> (case item of
       None \<Rightarrow> Some ([(''type'', VStr ''array''), (''items'', VDict [])], [], st)
     | Some b \<Rightarrow> (case derive ct n roots in_model b st of
         None \<Rightarrow> None
       | Some (s, refs, st') \<Rightarrow> Some ([(''type'', VStr ''array''), (''items'', VDict s)], refs, st')))
   | TMap item \<Rightarrow> (case item of
       None \<Rightarrow> Some ([(''type'', VStr ''object''), (''additionalProperties'', VDict [])], [], st)
     | Some b \<Rightarrow> (case derive ct n roots in_model b st of
         None \<Rightarrow> None
       | Some (s, refs, st') \<Rightarrow> Some ([(''type'', VStr ''object''), (''additionalProperties'', VDict s)], refs, st')))
   | TLiteral vs \<Rightarrow> Some (literal_schema vs, [], st)
   | TPrimitive p \<Rightarrow> Some (case dict_get PRIMITIVES p of None \<Rightarrow> [] | Some s \<Rightarrow> s, [], st)
   | TPath \<Rightarrow> Some ([(''type'', VStr ''string'')], [], st)
   | TNamed q \<Rightarrow> (case dict_get ct q of
       None \<Rightarrow> Some ([], [], st)
     | Some c \<Rightarrow> (let body = ci_body c in case root_annotation body of
         Some rt \<Rightarrow> (case rt of
           None \<Rightarrow> Some ([], [], st)
         | Some b \<Rightarrow>
             if q \<in> set roots then Some ([], [], st)
             else (case n of 0 \<Rightarrow> None | Suc k \<Rightarrow> derive ct k (q # roots) True b st))
       | None \<Rightarrow>
           if in_model \<and> is_dataclass body \<or> \<not> is_named c then Some ([], [], st)
           else (case dict_get st q of
             Some co \<Rightarrow> Some (token_ref co, [q], st)
           | None \<Rightarrow>
               (let co = new_component q c (length st); st0 = dict_set q co st
                in case enum_schema body of
                     Some s \<Rightarrow> Some (token_ref co, [q], dict_set q (co\<lparr>cp_schema := s\<rparr>) st0)
                   | None \<Rightarrow>
                       (case n of
                          0 \<Rightarrow> None
                        | Suc k \<Rightarrow>
                            (case derive_members ct k roots (is_model body) (body_members body) st0 of
                               None \<Rightarrow> None
                             | Some (ps, refs, st') \<Rightarrow>
                                 Some (token_ref co, [q], dict_set q (co\<lparr>cp_schema := object_schema ps (body_members body),
                                   cp_refs := refs\<rparr>) st')))))))
   | _ \<Rightarrow> Some ([], [], st))"
| "derive_members ct n roots in_model [] st = Some ([], [], st)"
| "derive_members ct n roots in_model ((key, a, r) # ms) st =
     (case (case a of None \<Rightarrow> Some ([], [], st) | Some b \<Rightarrow> derive ct n roots in_model b st) of
        None \<Rightarrow> None
      | Some (s, refs, st') \<Rightarrow>
          (case derive_members ct n roots in_model ms st' of
             None \<Rightarrow> None
           | Some (ps, refs', st'') \<Rightarrow> Some ((key, VDict s) # ps, refs @ refs', st'')))"
  by pat_completeness auto
termination
proof (relation "inv_image (less_than <*lex*> less_than) (\<lambda>x. case x of
    Inl (ct, n, roots, m, a, st) \<Rightarrow> (n, size a)
  | Inr (ct, n, roots, m, ms, st) \<Rightarrow> (n, size_list (\<lambda>(_, a, _). case a of None \<Rightarrow> 0 | Some b \<Rightarrow> Suc (size b)) ms))", goal_cases)
  case (3 ct n roots in_model a st as b bs)
  then have "b \<in> set as" using filter_is_subset [of "\<lambda>b. b \<noteq> TNone" as] by (auto dest!: arg_cong [of _ _ set])
  then have "size b \<le> size_list size as" by (induction as) auto
  then show ?case using 3(1) by simp
qed auto

declare derive.simps [simp del]

definition catalogue_schema :: "class_table \<Rightarrow> annotation \<Rightarrow> string \<Rightarrow> catalogue \<Rightarrow> (pydict \<times> catalogue) option" where
  "catalogue_schema ct a topic cat = (case derive ct (length ct) [] False a (cat_components cat) of
     None \<Rightarrow> None
   | Some (s, refs, st) \<Rightarrow>
       Some (s, cat\<lparr>cat_components := st,
         cat_entry_refs := dict_set topic ((case dict_get (cat_entry_refs cat) topic of None \<Rightarrow> [] | Some rs \<Rightarrow> rs) @ refs)
           (cat_entry_refs cat)\<rparr>))"

section \<open>Settling the names\<close>

text \<open>The components a topic reaches; \<open>None\<close> is the \<open>KeyError\<close> of a component that is not there.\<close>

function reach :: "components \<Rightarrow> string list \<Rightarrow> string list \<Rightarrow> string list option" where
  "reach st [] seen = Some seen"
| "reach st (key # pending) seen =
     (if key \<in> set seen then reach st pending seen
      else (case dict_get st key of
        None \<Rightarrow> None
      | Some co \<Rightarrow> reach st (cp_refs co @ pending) (key # seen)))"
  by pat_completeness auto
termination
proof (relation "inv_image (less_than <*lex*> less_than)
    (\<lambda>(st, pending, seen). (card (set (map fst st) - set seen), length pending))", goal_cases)
  case (3 st key pending seen co)
  then have "set (map fst st) - set (key # seen) \<subset> set (map fst st) - set seen"
    by (force dest: map_of_SomeD)
  then show ?case by (auto intro: psubset_card_mono)
qed auto

definition component_topics :: "catalogue \<Rightarrow> string \<Rightarrow> string list" where
  "component_topics cat key = map fst (filter (\<lambda>(topic, refs).
     case reach (cat_components cat) refs [] of None \<Rightarrow> False | Some keys \<Rightarrow> key \<in> set keys) (cat_entry_refs cat))"

definition collision_error :: "string \<Rightarrow> string \<Rightarrow> string \<Rightarrow> string list \<Rightarrow> pyexn" where
  "collision_error name first other topics = PyException ''ComponentNameCollisionError''
     (''Component name '' @ repr_str name @ '' is claimed by '' @ first @ '' and '' @ other @ '', whose schemas differ (used by topics ''
       @ py_join '', '' topics @ ''). Declare a distinct schema name on one of them'')"

definition by_token :: "components \<Rightarrow> pydict" where
  "by_token st = map (\<lambda>(_, co). (cp_token co, VDict (cp_schema co))) st"

definition group_members :: "components \<Rightarrow> string \<Rightarrow> component list" where
  "group_members st name = sort_key cp_qualified (filter (\<lambda>co. cp_name co = name) (map snd st))"

fun check_group :: "catalogue \<Rightarrow> string \<Rightarrow> component \<Rightarrow> component list \<Rightarrow> unit outcome" where
  "check_group cat name first [] = Inr ()"
| "check_group cat name first (other # others) =
     (let tokens = by_token (cat_components cat)
      in if \<not> py_eq (normalize_schema (VDict (cp_schema other)) tokens) (normalize_schema (VDict (cp_schema first)) tokens)
         then Inl (collision_error name (cp_qualified first) (cp_qualified other)
           (sort (remdups (component_topics cat (cp_qualified first) @ component_topics cat (cp_qualified other)))))
         else check_group cat name first others)"

fun settle_names :: "catalogue \<Rightarrow> string list \<Rightarrow> ((string \<times> pydict) list \<times> (string, string) dict) outcome" where
  "settle_names cat [] = Inr ([], [])"
| "settle_names cat (name # names) = (case group_members (cat_components cat) name of
     [] \<Rightarrow> settle_names cat names
   | first # others \<Rightarrow>
       and_then (check_group cat name first others) (\<lambda>_.
       and_then (settle_names cat names) (\<lambda>(schemas, final).
         Inr ((name, cp_schema first) # schemas, map (\<lambda>co. (cp_token co, name)) (first # others) @ final))))"

definition token_of :: "pydict \<Rightarrow> string option" where
  "token_of ms = (case schema_ref ms of
     Some (c # t) \<Rightarrow> if c = TOKEN_MARK then Some (c # t) else None
   | _ \<Rightarrow> None)"

fun rename_refs :: "(string, string) dict \<Rightarrow> pyval \<Rightarrow> pyval" where
  "rename_refs final (VDict ms) = (case token_of ms of
     Some token \<Rightarrow> (case dict_get final token of
       None \<Rightarrow> VDict ms  \<comment> \<open>a \<open>KeyError\<close>, which \<open>catalogue_closed\<close> below excludes\<close>
     | Some name \<Rightarrow> VDict (dict_set ''$ref'' (VStr (SCHEMA_REF_PREFIX @ name)) ms))
   | None \<Rightarrow> VDict (map (\<lambda>(key, item). (key, rename_refs final item)) ms))"
| "rename_refs final (VList vs) = VList (map (rename_refs final) vs)"
| "rename_refs final v = v"

definition finish :: "catalogue \<Rightarrow> (pydict \<times> (pyval \<Rightarrow> pyval)) outcome" where
  "finish cat = and_then (settle_names cat (sort (remdups (map (cp_name \<circ> snd) (cat_components cat))))) (\<lambda>(schemas, final).
     Inr (map (\<lambda>(name, schema). (name, rename_refs final (VDict schema))) schemas, rename_refs final))"

section \<open>What derivation keeps\<close>

text \<open>Every reference in a value, at any depth, is to one of the names; beside a reference there is none.\<close>

fun refs_in :: "string list \<Rightarrow> pyval \<Rightarrow> bool" where
  "refs_in names (VDict ms) = (case schema_ref ms of
     None \<Rightarrow> list_all (\<lambda>(k, v). refs_in names v) ms
   | Some name \<Rightarrow> name \<in> set names \<and> list_all (\<lambda>(k, v). refs_in [] v) ms)"
| "refs_in names (VList vs) = list_all (refs_in names) vs"
| "refs_in names v = True"

lemma refs_in_mono: "refs_in names v \<Longrightarrow> set names \<subseteq> set names' \<Longrightarrow> refs_in names' v"
  by (induction names v rule: refs_in.induct) (auto simp: list_all_iff split: option.splits)

definition component_headers :: "components \<Rightarrow> (string \<times> string \<times> string \<times> string) list" where
  "component_headers st = map (\<lambda>(q, co). (q, cp_name co, cp_token co, cp_qualified co)) st"

definition tokens :: "components \<Rightarrow> string list" where
  "tokens st = map (cp_token \<circ> snd) st"

definition header_ok :: "class_table \<Rightarrow> (string \<times> string \<times> string \<times> string) list \<Rightarrow> bool" where
  "header_ok ct h \<longleftrightarrow> distinct (map fst h) \<and> (\<forall>i < length h. case h ! i of (q, name, token, qualified) \<Rightarrow>
     token = TOKEN_MARK # nat_text i \<and> qualified = q \<and>
     (case dict_get ct q of None \<Rightarrow> False | Some c \<Rightarrow> is_named c \<and> name = component_name c))"

definition refs_closed :: "components \<Rightarrow> bool" where
  "refs_closed st \<longleftrightarrow> (\<forall>(q, co) \<in> set st. refs_in (tokens st) (VDict (cp_schema co)) \<and> set (cp_refs co) \<subseteq> set (dict_keys st))"

definition components_ok :: "class_table \<Rightarrow> components \<Rightarrow> bool" where
  "components_ok ct st \<longleftrightarrow> header_ok ct (component_headers st) \<and> refs_closed st"

definition extends :: "components \<Rightarrow> components \<Rightarrow> bool" where
  "extends st st' \<longleftrightarrow> (\<exists>more. component_headers st' = component_headers st @ more)"

lemma header_keys: "dict_keys st = map fst (component_headers st)"
  by (simp add: component_headers_def dict_keys_def case_prod_beta)

lemma header_tokens: "tokens st = map (\<lambda>(_, _, token, _). token) (component_headers st)"
  by (simp add: component_headers_def tokens_def case_prod_beta)

lemma extends_subset:
  "extends st st' \<Longrightarrow> set (tokens st) \<subseteq> set (tokens st') \<and> set (dict_keys st) \<subseteq> set (dict_keys st')"
  unfolding extends_def header_keys header_tokens by (elim exE) (simp add: image_Un)

lemma refs_closed_mono:
  assumes "refs_closed st" "extends st st'" "(q, co) \<in> set st"
  shows "refs_in (tokens st') (VDict (cp_schema co)) \<and> set (cp_refs co) \<subseteq> set (dict_keys st')"
proof -
  have "refs_in (tokens st) (VDict (cp_schema co))" "set (cp_refs co) \<subseteq> set (dict_keys st)"
    using assms(1,3) by (auto simp: refs_closed_def simp del: refs_in.simps)
  with extends_subset [OF assms(2)] refs_in_mono [of "tokens st" "VDict (cp_schema co)" "tokens st'"] show ?thesis
    by blast
qed

lemma extends_refl [simp]: "extends st st"
  by (simp add: extends_def)

lemma extends_trans: "extends st st' \<Longrightarrow> extends st' st'' \<Longrightarrow> extends st st''"
  by (auto simp: extends_def)

lemma update_header:
  "map_of (component_headers st) q = Some (cp_name co, cp_token co, cp_qualified co) \<Longrightarrow> component_headers (dict_set q co st) = component_headers st"
  by (induction st) (auto simp: component_headers_def)

lemma fresh_ok:
  assumes "components_ok ct st" "dict_get st q = None" "dict_get ct q = Some c" "is_named c"
  shows "components_ok ct (dict_set q (new_component q c (length st)) st)"
    "component_headers (dict_set q (new_component q c (length st)) st) =
       component_headers st @ [(q, component_name c, TOKEN_MARK # nat_text (length st), q)]"
proof -
  let ?co = "new_component q c (length st)"
  show h: "component_headers (dict_set q ?co st) = component_headers st @ [(q, component_name c, TOKEN_MARK # nat_text (length st), q)]"
    using assms(2) by (simp add: dict_set_fresh component_headers_def new_component_def)
  have "q \<notin> set (dict_keys st)" using assms(2) by (simp add: dict_keys_def map_of_eq_None_iff)
  moreover have "length (component_headers st) = length st" by (simp add: component_headers_def)
  ultimately have "header_ok ct (component_headers (dict_set q ?co st))"
    unfolding h using assms(1,3,4) by (auto simp: components_ok_def header_ok_def header_keys nth_append less_Suc_eq)
  moreover have "refs_closed (dict_set q ?co st)"
  proof -
    have e: "extends st (dict_set q ?co st)" using h by (simp add: extends_def)
    have m: "set (dict_set q ?co st) = insert (q, ?co) (set st)" using dict_set_fresh [OF assms(2)] by simp
    have "refs_in (tokens (dict_set q ?co st)) (VDict (cp_schema ?co)) \<and> set (cp_refs ?co) \<subseteq> set (dict_keys (dict_set q ?co st))"
      by (simp add: new_component_def schema_ref_def vget_def)
    then show ?thesis
      using refs_closed_mono [OF _ e] assms(1) unfolding refs_closed_def [of "dict_set q ?co st"] m
      by (auto simp: components_ok_def simp del: refs_in.simps)
  qed
  ultimately show "components_ok ct (dict_set q ?co st)" by (simp add: components_ok_def)
qed

lemma update_ok:
  assumes "components_ok ct st" "map_of (component_headers st) q = Some (cp_name co, cp_token co, cp_qualified co)"
    and "refs_in (tokens st) (VDict (cp_schema co))" "set (cp_refs co) \<subseteq> set (dict_keys st)"
  shows "components_ok ct (dict_set q co st)" "component_headers (dict_set q co st) = component_headers st"
proof -
  show h: "component_headers (dict_set q co st) = component_headers st" using assms(2) by (rule update_header)
  then have "tokens (dict_set q co st) = tokens st" "dict_keys (dict_set q co st) = dict_keys st"
    by (simp_all add: header_tokens header_keys)
  moreover have "set (dict_set q co st) \<subseteq> insert (q, co) (set st)" using set_dict_set [of q co st] by auto
  ultimately show "components_ok ct (dict_set q co st)"
    using assms h by (fastforce simp: components_ok_def refs_closed_def)
qed

lemma refs_in_nullable: "refs_in names (VDict s) \<Longrightarrow> refs_in names (VDict (nullable_schema s t))"
proof -
  assume s: "refs_in names (VDict s)"
  have "schema_ref (dict_set ''nullable'' v s) = schema_ref s" for v
    by (simp add: schema_ref_def vget_def)
  moreover have "list_all (\<lambda>(k, v). refs_in ns v) s \<Longrightarrow> list_all (\<lambda>(k, v). refs_in ns v) (dict_set ''nullable'' (VBool True) s)" for ns
    using set_dict_set [of "''nullable''" "VBool True" s] by (force simp: list_all_iff)
  ultimately have "refs_in names (VDict (dict_set ''nullable'' (VBool True) s))"
    using s by (auto split: option.splits)
  then show ?thesis using s by (auto simp: nullable_schema_def schema_ref_def vget_def split: option.splits)
qed

definition derived :: "class_table \<Rightarrow> components \<Rightarrow> pydict \<times> string list \<times> components \<Rightarrow> bool" where
  "derived ct st r = (case r of (s, refs, st') \<Rightarrow> components_ok ct st' \<and> extends st st' \<and>
     refs_in (tokens st') (VDict s) \<and> set refs \<subseteq> set (dict_keys st'))"

definition derived_members :: "class_table \<Rightarrow> components \<Rightarrow> (string \<times> pyval) list \<times> string list \<times> components \<Rightarrow> bool" where
  "derived_members ct st r = (case r of (ps, refs, st') \<Rightarrow> components_ok ct st' \<and> extends st st' \<and>
     (\<forall>(k, v) \<in> set ps. is_dict v \<and> refs_in (tokens st') v) \<and> set refs \<subseteq> set (dict_keys st'))"

lemma derived_plain: "components_ok ct st \<Longrightarrow> refs_in [] (VDict s) \<Longrightarrow> derived ct st (s, [], st)"
  using refs_in_mono [of "[]" "VDict s" "tokens st"] by (simp add: derived_def del: refs_in.simps)

lemma derived_wrap:
  assumes "derived ct st (s, refs, st')" "\<And>names. refs_in names (VDict s) \<Longrightarrow> refs_in names (VDict s')"
  shows "derived ct st (s', refs, st')"
  using assms by (simp add: derived_def del: refs_in.simps)

lemma refs_in_literal: "refs_in [] (VDict (literal_schema vs))"
proof -
  have "refs_in [] v" if "literal_value l = Some v" for l v
    using that by (cases l) auto
  then have "\<forall>v \<in> set (List.map_filter literal_value vs). refs_in [] v"
    by (induction vs) (auto simp: List.map_filter_simps split: option.splits)
  moreover have "set (fold add_new vs acc) = set vs \<union> set acc" for vs acc :: "pyval list"
    by (induction vs arbitrary: acc) (auto simp: add_new_def)
  ultimately have "list_all (refs_in []) (fold add_new (List.map_filter literal_value vs) [])"
    by (simp add: list_all_iff)
  then show ?thesis
    by (auto simp: literal_schema_def Let_def schema_ref_def vget_def split: list.splits option.splits)
qed

lemma refs_in_primitive: "refs_in [] (VDict (case dict_get PRIMITIVES p of None \<Rightarrow> [] | Some s \<Rightarrow> s))"
proof -
  have "list_all (\<lambda>(k, s). refs_in [] (VDict s)) PRIMITIVES"
    by (simp add: PRIMITIVES_def schema_ref_def vget_def)
  then show ?thesis
    by (auto simp: list_all_iff schema_ref_def [of "[]"] vget_def [of "[]"] simp del: refs_in.simps dest!: map_of_SomeD split: option.splits)
      (simp add: schema_ref_def vget_def)
qed

lemma object_refs:
  assumes "\<forall>(k, v) \<in> set ps. is_dict v \<and> refs_in names v"
  shows "refs_in names (VDict (object_schema ps ms))"
proof -
  have p: "\<forall>(k, v) \<in> set (dict_of ps). is_dict v \<and> refs_in names v" using assms set_dict_of [of ps] by blast
  then have "list_all (\<lambda>(k, v). refs_in names v) (dict_of ps)" by (auto simp: list_all_iff)
  moreover have "schema_ref (dict_of ps) = None"
    using p by (fastforce simp: schema_ref_def vget_def is_dict_def dest: map_of_SomeD split: option.splits pyval.splits)
  ultimately have "refs_in names (VDict (dict_of ps))" by simp
  then show ?thesis
    by (simp add: object_schema_def Let_def list_all_iff schema_ref_def [of "_ # _"] vget_def del: refs_in.simps(1))
      (simp add: list_all_iff schema_ref_def [of "_ # _"] vget_def)
qed

lemma token_ref_in: "cp_token co \<in> set names \<Longrightarrow> refs_in names (VDict (token_ref co))"
  by (simp add: token_ref_def)

lemma component_derived:
  assumes "components_ok ct st" "dict_get st q = None" "dict_get ct q = Some c" "is_named c"
  defines "co \<equiv> new_component q c (length st)"
  assumes st': "components_ok ct st'" "extends (dict_set q co st) st'"
    and "refs_in (tokens st') (VDict s)" "set refs \<subseteq> set (dict_keys st')"
  shows "derived ct st (token_ref co, [q], dict_set q (co\<lparr>cp_schema := s, cp_refs := refs\<rparr>) st')"
proof -
  let ?co = "co\<lparr>cp_schema := s, cp_refs := refs\<rparr>"
  note f = fresh_ok [OF assms(1-4), folded co_def]
  have e: "extends st st'" using extends_trans [OF _ st'(2)] f(2) by (simp add: extends_def)
  obtain more where "component_headers st' = (component_headers st @ [(q, cp_name co, cp_token co, cp_qualified co)]) @ more"
    using st'(2) f(2) by (auto simp: extends_def co_def new_component_def)
  moreover have "map_of (component_headers st) q = None"
    using assms(2) by (simp add: component_headers_def map_of_eq_None_iff image_image case_prod_beta)
  ultimately have h: "map_of (component_headers st') q = Some (cp_name ?co, cp_token ?co, cp_qualified ?co)"
    and t: "cp_token co \<in> set (tokens st')" and k: "q \<in> set (dict_keys st')"
    by (auto simp: header_tokens header_keys map_add_def)
  have u: "components_ok ct (dict_set q ?co st')" "component_headers (dict_set q ?co st') = component_headers st'"
    using update_ok [OF st'(1) h] assms(8,9) by (simp_all del: refs_in.simps)
  show ?thesis
    using u e token_ref_in [OF t] k by (simp add: derived_def extends_def header_tokens header_keys del: refs_in.simps)
qed

lemma registered_derived:
  assumes "components_ok ct st" "dict_get st q = Some co"
  shows "derived ct st (token_ref co, [q], st)"
proof -
  have "(q, co) \<in> set st" using assms(2) by (rule map_of_SomeD)
  then have "cp_token co \<in> set (tokens st)" "q \<in> set (dict_keys st)" by (force simp: tokens_def dict_keys_def)+
  then show ?thesis using assms(1) token_ref_in by (simp add: derived_def del: refs_in.simps)
qed

lemma members_derived:
  assumes "derived ct st (s, refs, st')" "derived_members ct st' (ps, refs', st'')"
  shows "derived_members ct st ((key, VDict s) # ps, refs @ refs', st'')"
proof -
  have e: "extends st' st''" using assms(2) by (simp add: derived_members_def)
  have "refs_in (tokens st'') (VDict s)" "set refs \<subseteq> set (dict_keys st'')"
    using assms(1) extends_subset [OF e] refs_in_mono [of "tokens st'" "VDict s" "tokens st''"] by (auto simp: derived_def simp del: refs_in.simps)
  moreover have "extends st st''" using assms(1) extends_trans [OF _ e] by (simp add: derived_def)
  ultimately show ?thesis using assms(2) by (simp add: derived_members_def is_dict_def del: refs_in.simps)
qed

lemma class_derived:
  assumes ok: "components_ok ct st" and c: "dict_get ct q = Some c" and nr: "root_annotation (ci_body c) = None"
    and IH: "\<And>k. \<lbrakk>\<not> (in_model \<and> is_dataclass (ci_body c) \<or> \<not> is_named c); dict_get st q = None; enum_schema (ci_body c) = None;
        n = Suc k; components_ok ct (dict_set q (new_component q c (length st)) st)\<rbrakk> \<Longrightarrow>
      pred_option (derived_members ct (dict_set q (new_component q c (length st)) st))
        (derive_members ct k roots (is_model (ci_body c)) (body_members (ci_body c)) (dict_set q (new_component q c (length st)) st))"
  shows "pred_option (derived ct st) (derive ct n roots in_model (TNamed q) st)"
proof (cases "in_model \<and> is_dataclass (ci_body c) \<or> \<not> is_named c")
  case True
  have "derived ct st ([], [], st)" by (rule derived_plain [OF ok]) (simp add: schema_ref_def vget_def)
  with True show ?thesis by (subst derive.simps) (simp add: c nr Let_def)
next
  case False
  then have named: "is_named c" by simp
  show ?thesis
  proof (cases "dict_get st q")
    case (Some co)
    then show ?thesis using False registered_derived [OF ok Some]
      by (subst derive.simps) (auto simp: c nr Let_def)
  next
    case fresh: None
    let ?co = "new_component q c (length st)"
    note cd = component_derived [OF ok fresh c named] and ok0 = fresh_ok(1) [OF ok fresh c named]
    show ?thesis
    proof (cases "enum_schema (ci_body c)")
      case (Some s)
      have "refs_in [] (VDict s)"
        using Some by (auto simp: enum_schema_def schema_ref_def vget_def list_all_iff split: class_body.splits)
      then have "derived ct st (token_ref ?co, [q], dict_set q (?co\<lparr>cp_schema := s, cp_refs := []\<rparr>) (dict_set q ?co st))"
        using refs_in_mono [of "[]" "VDict s"] by (intro cd ok0) (simp_all del: refs_in.simps)
      then show ?thesis using False
        by (subst derive.simps) (auto simp: c nr fresh Some Let_def new_component_def)
    next
      case noenum: None
      have "derived_members ct (dict_set q ?co st) (ps, refs, st') \<Longrightarrow>
          derived ct st (token_ref ?co, [q], dict_set q (?co\<lparr>cp_schema := object_schema ps ms, cp_refs := refs\<rparr>) st')" for ps refs st' ms
        by (intro cd object_refs) (simp_all add: derived_members_def del: refs_in.simps)
      then show ?thesis
        using False IH [OF False fresh noenum _ ok0]
        by (subst derive.simps) (auto simp: c nr fresh noenum Let_def split: nat.split option.split)
    qed
  qed
qed

lemma derive_ok:
  "components_ok ct st \<Longrightarrow> pred_option (derived ct st) (derive ct n roots in_model a st)"
  "components_ok ct st \<Longrightarrow> pred_option (derived_members ct st) (derive_members ct n roots in_model ms st)"
proof (induction ct n roots in_model a st and ct n roots in_model ms st rule: derive_derive_members.induct)
  case (1 ct n roots in_model a st)
  have ok: "components_ok ct st" by (rule 1)
  have nil: "derived ct st ([], [], st)" by (rule derived_plain [OF ok]) (simp add: schema_ref_def vget_def)
  show ?case
  proof (cases a)
    case (TAnnotated custom b)
    then show ?thesis using nil 1(1) [OF TAnnotated _ ok] by (subst derive.simps) simp
  next
    case (TUnion as)
    show ?thesis
    proof (cases "\<exists>b. filter (\<lambda>b. b \<noteq> TNone) as = [b]")
      case True
      then obtain b where b: "filter (\<lambda>b. b \<noteq> TNone) as = [b]" by blast
      show ?thesis using 1(2) [OF TUnion b refl ok] derived_wrap refs_in_nullable
        by (subst derive.simps) (auto simp: TUnion b simp del: refs_in.simps split: option.split)
    next
      case False
      then show ?thesis using nil by (subst derive.simps) (auto simp: TUnion split: list.split)
    qed
  next
    case (TArray item)
    have w: "derived ct st (s, refs, st') \<Longrightarrow> derived ct st ([(''type'', VStr ''array''), (''items'', VDict s)], refs, st')" for s refs st'
      by (erule derived_wrap) (simp add: schema_ref_def [of "_ # _"] vget_def)
    show ?thesis
      using w [OF nil] 1(3) [OF TArray _ ok] by (subst derive.simps) (auto simp: TArray intro: w split: option.split)
  next
    case (TMap item)
    have w: "derived ct st (s, refs, st') \<Longrightarrow> derived ct st ([(''type'', VStr ''object''), (''additionalProperties'', VDict s)], refs, st')"
      for s refs st' by (erule derived_wrap) (simp add: schema_ref_def [of "_ # _"] vget_def)
    show ?thesis
      using w [OF nil] 1(4) [OF TMap _ ok] by (subst derive.simps) (auto simp: TMap intro: w split: option.split)
  next
    case (TNamed q)
    note IH = 1(5,6) [OF TNamed]
    show ?thesis
    proof (cases "dict_get ct q")
      case None
      then show ?thesis using nil by (subst derive.simps) (simp add: TNamed)
    next
      case (Some c)
      show ?thesis
      proof (cases "root_annotation (ci_body c)")
        case (Some rt)
        then show ?thesis using IH(2) [OF \<open>dict_get ct q = Some c\<close> refl Some _ _ _ ok] nil
          by (subst derive.simps) (auto simp: TNamed \<open>dict_get ct q = Some c\<close> Let_def split: option.split nat.split)
      next
        case None
        show ?thesis unfolding TNamed
          by (rule class_derived [OF ok \<open>dict_get ct q = Some c\<close> None])
            (rule IH(1) [OF \<open>dict_get ct q = Some c\<close> refl None _ _ refl refl])
      qed
    qed
  qed (subst derive.simps; use nil derived_plain [OF ok] refs_in_literal refs_in_primitive in \<open>simp add: schema_ref_def vget_def\<close>)+
next
  case (3 ct n roots in_model key a r ms st)
  have ok: "components_ok ct st" by (rule 3)
  have nil: "derived ct st ([], [], st)" by (rule derived_plain [OF ok]) (simp add: schema_ref_def vget_def)
  let ?r = "case a of None \<Rightarrow> Some ([], [], st) | Some b \<Rightarrow> derive ct n roots in_model b st"
  have r: "pred_option (derived ct st) ?r" using 3(1) [OF _ ok] nil by (auto split: option.split)
  show ?case
  proof (cases ?r)
    case (Some x)
    obtain s refs st' where x: "x = (s, refs, st')" by (cases x)
    have d: "derived ct st (s, refs, st')" using r Some x by simp
    then have "components_ok ct st'" by (simp add: derived_def)
    from 3(2) [OF Some x [symmetric] refl this] have m: "pred_option (derived_members ct st') (derive_members ct n roots in_model ms st')" .
    show ?thesis using Some x members_derived [OF d] m by (auto simp del: refs_in.simps split: option.split)
  qed simp
qed (simp add: derived_members_def)

text \<open>The classes that can still be entered: neither registered nor, as root models, being expanded.\<close>

definition unentered :: "class_table \<Rightarrow> components \<Rightarrow> string list \<Rightarrow> nat" where
  "unentered ct st roots = card (set (map fst ct) - set (dict_keys st) - set roots)"

definition roots_ok :: "class_table \<Rightarrow> string list \<Rightarrow> bool" where
  "roots_ok ct roots = list_all (\<lambda>q. case dict_get ct q of None \<Rightarrow> False | Some c \<Rightarrow> root_annotation (ci_body c) \<noteq> None) roots"

lemma registered_named:
  assumes "components_ok ct st" "q \<in> set (dict_keys st)" "dict_get ct q = Some c"
  shows "is_named c" "root_annotation (ci_body c) = None"
proof -
  obtain i where "i < length (component_headers st)" "fst (component_headers st ! i) = q"
    using assms(2) by (metis header_keys in_set_conv_nth length_map nth_map)
  then show "is_named c"
    using assms(1,3) by (cases "component_headers st ! i") (fastforce simp: components_ok_def header_ok_def)
  then show "root_annotation (ci_body c) = None" by (auto simp: is_named_def root_annotation_def split: class_body.splits)
qed

lemma unentered_enter:
  assumes "dict_get ct q = Some c" "q \<notin> set (dict_keys st)" "q \<notin> set roots"
    and "q \<in> set (dict_keys st') \<union> set roots'" "set (dict_keys st) \<subseteq> set (dict_keys st')" "set roots \<subseteq> set roots'"
  shows "unentered ct st' roots' < unentered ct st roots"
proof -
  have "q \<in> set (map fst ct)" using assms(1) by (force dest: map_of_SomeD)
  then have "set (map fst ct) - set (dict_keys st') - set roots' \<subset> set (map fst ct) - set (dict_keys st) - set roots"
    using assms by blast
  then show ?thesis unfolding unentered_def by (intro psubset_card_mono) auto
qed

lemma unentered_mono: "extends st st' \<Longrightarrow> unentered ct st' roots \<le> unentered ct st roots"
  unfolding unentered_def using extends_subset by (intro card_mono) auto

lemma class_total:
  assumes ok: "components_ok ct st" "roots_ok ct roots" "unentered ct st roots \<le> n"
    and c: "dict_get ct q = Some c" and nr: "root_annotation (ci_body c) = None"
    and IH: "\<And>k. \<lbrakk>\<not> (in_model \<and> is_dataclass (ci_body c) \<or> \<not> is_named c); dict_get st q = None; enum_schema (ci_body c) = None;
        n = Suc k; components_ok ct (dict_set q (new_component q c (length st)) st);
        unentered ct (dict_set q (new_component q c (length st)) st) roots \<le> k\<rbrakk> \<Longrightarrow>
      derive_members ct k roots (is_model (ci_body c)) (body_members (ci_body c)) (dict_set q (new_component q c (length st)) st) \<noteq> None"
  shows "derive ct n roots in_model (TNamed q) st \<noteq> None"
proof (cases "\<not> (in_model \<and> is_dataclass (ci_body c) \<or> \<not> is_named c) \<and> dict_get st q = None \<and> enum_schema (ci_body c) = None")
  case False
  then show ?thesis by (subst derive.simps) (auto simp: c nr Let_def split: option.split)
next
  case True
  let ?st = "dict_set q (new_component q c (length st)) st"
  have f: "components_ok ct ?st" "extends st ?st" "q \<in> set (dict_keys ?st)"
    using fresh_ok [OF ok(1) _ c] True by (auto simp: extends_def header_keys)
  have "q \<notin> set roots" using ok(2) c nr by (auto simp: roots_ok_def list_all_iff)
  moreover have "q \<notin> set (dict_keys st)" using True by (simp add: dict_keys_def map_of_eq_None_iff)
  ultimately have "unentered ct ?st roots < unentered ct st roots"
    using f extends_subset [OF f(2)] by (intro unentered_enter [OF c]) auto
  then obtain k where k: "n = Suc k" "unentered ct ?st roots \<le> k" using ok(3) by (cases n) auto
  then have "derive_members ct k roots (is_model (ci_body c)) (body_members (ci_body c)) ?st \<noteq> None"
    using IH f(1) True by blast
  then show ?thesis using True by (subst derive.simps) (auto simp: c nr k(1) Let_def split: option.split)
qed

lemma derive_total:
  "components_ok ct st \<Longrightarrow> roots_ok ct roots \<Longrightarrow> unentered ct st roots \<le> n \<Longrightarrow> derive ct n roots in_model a st \<noteq> None"
  "components_ok ct st \<Longrightarrow> roots_ok ct roots \<Longrightarrow> unentered ct st roots \<le> n \<Longrightarrow> derive_members ct n roots in_model ms st \<noteq> None"
proof (induction ct n roots in_model a st and ct n roots in_model ms st rule: derive_derive_members.induct)
  case (1 ct n roots in_model a st)
  note ok = 1(7-9)
  show ?case
  proof (cases a)
    case (TAnnotated custom b)
    then show ?thesis using 1(1) [OF TAnnotated _ ok] by (subst derive.simps) simp
  next
    case (TUnion as)
    then show ?thesis using 1(2) [OF TUnion _ refl ok] by (subst derive.simps) (force split: list.split option.split)
  next
    case (TArray item)
    then show ?thesis using 1(3) [OF TArray _ ok] by (subst derive.simps) (auto split: option.split)
  next
    case (TMap item)
    then show ?thesis using 1(4) [OF TMap _ ok] by (subst derive.simps) (auto split: option.split)
  next
    case (TNamed q)
    note IH = 1(5,6) [OF TNamed]
    show ?thesis
    proof (cases "dict_get ct q")
      case (Some c)
      show ?thesis
      proof (cases "root_annotation (ci_body c)")
        case None
        show ?thesis unfolding TNamed
          by (rule class_total [OF ok Some None]) (rule IH(1) [OF Some refl None _ _ refl refl _ _ _ ok(2)])
      next
        case rt: (Some rt)
        show ?thesis
        proof (cases "rt = None \<or> q \<in> set roots")
          case True
          then show ?thesis by (subst derive.simps) (auto simp: TNamed Some rt Let_def split: option.split)
        next
          case False
          then obtain b where b: "rt = Some b" "q \<notin> set roots" by auto
          have "q \<notin> set (dict_keys st)" using registered_named(2) [OF ok(1) _ Some] rt by auto
          then have "unentered ct st (q # roots) < unentered ct st roots"
            using b(2) by (intro unentered_enter [OF Some]) auto
          then obtain k where k: "n = Suc k" "unentered ct st (q # roots) \<le> k" using ok(3) by (cases n) auto
          have "roots_ok ct (q # roots)" using ok(2) Some rt by (simp add: roots_ok_def)
          then have "derive ct k (q # roots) True b st \<noteq> None"
            using IH(2) [OF Some refl rt b k(1) ok(1) _ k(2)] by blast
          then show ?thesis by (subst derive.simps) (simp add: TNamed Some rt b k(1) Let_def)
        qed
      qed
    qed (subst derive.simps, simp add: TNamed)
  qed (subst derive.simps, simp)+
next
  case (3 ct n roots in_model key a r ms st)
  note ok = 3(3-5)
  let ?r = "case a of None \<Rightarrow> Some ([], [], st) | Some b \<Rightarrow> derive ct n roots in_model b st"
  have "?r \<noteq> None" using 3(1) [OF _ ok] by (cases a) auto
  then obtain x where x: "?r = Some x" by blast
  obtain s refs st' where s: "x = (s, refs, st')" by (cases x)
  have "components_ok ct st' \<and> extends st st'"
  proof (cases a)
    case (Some b)
    then show ?thesis using derive_ok(1) [OF ok(1), of n roots in_model b] x s by (simp add: derived_def)
  qed (use x s ok(1) in auto)
  then have "derive_members ct n roots in_model ms st' \<noteq> None"
    using 3(2) [OF x s [symmetric] refl _ ok(2)] unentered_mono [of st st' ct roots] ok(3) by auto
  then show ?case using x s by (auto split: option.split)
qed simp

lemma catalogue_schema_total:
  assumes "components_ok ct (cat_components cat)"
  obtains s refs cat' where "catalogue_schema ct a topic cat = Some (s, cat')" "components_ok ct (cat_components cat')"
    "extends (cat_components cat) (cat_components cat')" "refs_in (tokens (cat_components cat')) (VDict s)"
proof -
  have "unentered ct (cat_components cat) [] \<le> length ct"
    unfolding unentered_def using card_mono [of "set (map fst ct)" "set (map fst ct) - set (dict_keys (cat_components cat))"]
      card_length [of "map fst ct"] by force
  then obtain s refs st where d: "derive ct (length ct) [] False a (cat_components cat) = Some (s, refs, st)"
    using derive_total(1) [OF assms, of "[]" "length ct" False a] by (auto simp: roots_ok_def)
  then have "derived ct (cat_components cat) (s, refs, st)" using derive_ok(1) [OF assms, of "length ct" "[]" False a] by simp
  then show thesis using that d by (simp add: catalogue_schema_def derived_def del: refs_in.simps)
qed

section \<open>What settling the names gives\<close>

lemma renamed_text: "rename_refs final v = VStr t \<longleftrightarrow> v = VStr t"
  by (cases v) (auto split: option.splits)

lemma schema_ref_renamed:
  "schema_ref ms = None \<Longrightarrow> schema_ref (map (\<lambda>(k, v). (k, rename_refs final v)) ms) = None"
  using renamed_text by (auto simp: schema_ref_def vget_def map_of_map [unfolded o_def] split: option.splits pyval.splits if_splits)

lemma schema_ref_set: "schema_ref (dict_set ''$ref'' (VStr (SCHEMA_REF_PREFIX @ name)) ms) = Some name"
  by (simp add: schema_ref_def vget_def)

text \<open>Renaming the tokens of the components leaves references to component names only.\<close>

lemma rename_token:
  assumes "schema_ref ms = Some (TOKEN_MARK # u)" "dict_get final (TOKEN_MARK # u) = Some name" "name \<in> set names"
    and "list_all (\<lambda>(k, v). refs_in [] v) ms"
  shows "refs_in names (rename_refs final (VDict ms))"
proof -
  have "list_all (\<lambda>(k, v). refs_in [] v) (dict_set ''$ref'' (VStr (SCHEMA_REF_PREFIX @ name)) ms)"
    using assms(4) set_dict_set [of "''$ref''" _ ms] by (force simp: list_all_iff)
  then show ?thesis using assms(1-3) by (simp add: token_of_def schema_ref_set)
qed

lemma rename_closed:
  assumes "\<forall>t \<in> set ts. \<exists>u. t = TOKEN_MARK # u"
  shows "\<forall>t \<in> set ts. \<exists>name \<in> set names. dict_get final t = Some name \<Longrightarrow> refs_in ts v \<Longrightarrow>
    refs_in names (rename_refs final v)"
proof (induction final v rule: rename_refs.induct)
  case (1 final ms)
  show ?case
  proof (cases "schema_ref ms")
    case None
    then have n: "token_of ms = None" by (simp add: token_of_def)
    have "list_all (\<lambda>(k, v). refs_in names (rename_refs final v)) ms"
      using 1(1) [OF n _ _ 1(2)] 1(3) None by (auto simp: list_all_iff)
    then show ?thesis using schema_ref_renamed [OF None, of final] n by (auto simp: list_all_iff)
  next
    case (Some t)
    then have t: "t \<in> set ts" "list_all (\<lambda>(k, v). refs_in [] v) ms" using 1(3) by simp_all
    then obtain u name where "t = TOKEN_MARK # u" "name \<in> set names" "dict_get final t = Some name" using assms 1(2) by blast
    then show ?thesis using rename_token t(2) Some by metis
  qed
qed (auto simp: list_all_iff)

lemma check_group_Inr:
  "check_group cat name first others = Inr u \<Longrightarrow> co \<in> set others \<Longrightarrow>
     py_eq (normalize_schema (VDict (cp_schema co)) (by_token (cat_components cat)))
       (normalize_schema (VDict (cp_schema first)) (by_token (cat_components cat)))"
  by (induction others) (auto simp: Let_def split: if_splits)

lemma check_group_Inl:
  "check_group cat name first others = Inl e \<Longrightarrow> exn_class e = ''ComponentNameCollisionError'' \<and>
     (\<exists>co \<in> set others. \<not> py_eq (normalize_schema (VDict (cp_schema co)) (by_token (cat_components cat)))
       (normalize_schema (VDict (cp_schema first)) (by_token (cat_components cat))))"
  by (induction others) (auto simp: Let_def collision_error_def split: if_splits)

text \<open>The components that claim a name, and whether they all have one schema up to component names and documentation.\<close>

definition claimants :: "catalogue \<Rightarrow> string \<Rightarrow> component set" where
  "claimants cat name = {co \<in> snd ` set (cat_components cat). cp_name co = name}"

definition agree :: "catalogue \<Rightarrow> component \<Rightarrow> component \<Rightarrow> bool" where
  "agree cat co first \<longleftrightarrow> co = first \<or> py_eq (normalize_schema (VDict (cp_schema co)) (by_token (cat_components cat)))
     (normalize_schema (VDict (cp_schema first)) (by_token (cat_components cat)))"

lemma group_claimants: "set (group_members (cat_components cat) name) = claimants cat name"
  by (auto simp: group_members_def claimants_def)

lemma settle_Inr:
  assumes "settle_names cat ns = Inr (schemas, final)"
  shows "map fst schemas = filter (\<lambda>n. claimants cat n \<noteq> {}) ns \<and>
    snd ` set final \<subseteq> fst ` set schemas \<and>
    (\<forall>co. co \<in> claimants cat (cp_name co) \<and> cp_name co \<in> set ns \<longrightarrow> cp_token co \<in> fst ` set final) \<and>
    (\<forall>(name, s) \<in> set schemas. \<exists>first \<in> claimants cat name. cp_schema first = s \<and> (\<forall>co \<in> claimants cat name. agree cat co first))"
  using assms
proof (induction ns arbitrary: schemas final)
  case (Cons n ns)
  show ?case
  proof (cases "group_members (cat_components cat) n")
    case Nil
    then have "claimants cat n = {}" using group_claimants [of cat n] by simp
    moreover have "settle_names cat ns = Inr (schemas, final)" using Nil Cons.prems by simp
    ultimately show ?thesis using Cons.IH [of schemas final] by (auto simp del: settle_names.simps)
  next
    case (Cons first others)
    then have cl: "claimants cat n = set (first # others)" using group_claimants [of cat n] by simp
    obtain ss fs where s: "check_group cat n first others = Inr ()" "settle_names cat ns = Inr (ss, fs)"
        "schemas = (n, cp_schema first) # ss" "final = map (\<lambda>co. (cp_token co, n)) (first # others) @ fs"
      using Cons.prems Cons by (auto simp: and_then_def split: sum.splits)
    have "\<forall>co \<in> claimants cat n. agree cat co first"
      using check_group_Inr [OF s(1)] by (auto simp: cl agree_def)
    moreover have "first \<in> claimants cat n" by (simp add: cl)
    moreover have "\<forall>co \<in> claimants cat n. cp_token co \<in> fst ` set final" by (force simp: s(4) cl)
    ultimately show ?thesis using Cons.IH [OF s(2)] s(3,4) by (auto simp: image_iff)
  qed
qed auto

lemma settle_Inl:
  "settle_names cat ns = Inl e \<Longrightarrow> exn_class e = ''ComponentNameCollisionError'' \<and>
     (\<exists>name co first. co \<in> claimants cat name \<and> first \<in> claimants cat name \<and>
        \<not> py_eq (normalize_schema (VDict (cp_schema co)) (by_token (cat_components cat)))
          (normalize_schema (VDict (cp_schema first)) (by_token (cat_components cat))))"
proof (induction ns)
  case (Cons n ns)
  show ?case
  proof (cases "group_members (cat_components cat) n")
    case Nil
    then show ?thesis using Cons by simp
  next
    case (Cons first others)
    then have cl: "claimants cat n = set (first # others)" using group_claimants [of cat n] by simp
    show ?thesis
    proof (cases "check_group cat n first others")
      case (Inl e')
      then have "e' = e" using Cons.prems Cons by simp
      with check_group_Inl [OF Inl] cl show ?thesis by (metis list.set_intros)
    next
      case (Inr u)
      then have "settle_names cat ns = Inl e" using Cons.prems Cons by (auto simp: and_then_def split: sum.splits)
      then show ?thesis by (rule Cons.IH)
    qed
  qed
qed simp

lemma empty_catalogue_ok: "components_ok ct (cat_components empty_catalogue)"
  by (simp add: components_ok_def empty_catalogue_def header_ok_def component_headers_def refs_closed_def)

fun derive_entries :: "class_table \<Rightarrow> (string \<times> annotation) list \<Rightarrow> catalogue \<Rightarrow> (pydict list \<times> catalogue) option" where
  "derive_entries ct [] cat = Some ([], cat)"
| "derive_entries ct ((topic, a) # es) cat = (case catalogue_schema ct a topic cat of
     None \<Rightarrow> None
   | Some (s, cat') \<Rightarrow> (case derive_entries ct es cat' of
       None \<Rightarrow> None
     | Some (ss, cat'') \<Rightarrow> Some (s # ss, cat'')))"

lemma derive_entries_ok:
  "components_ok ct (cat_components cat) \<Longrightarrow>
     \<exists>ss cat'. derive_entries ct es cat = Some (ss, cat') \<and> components_ok ct (cat_components cat') \<and>
       extends (cat_components cat) (cat_components cat') \<and> (\<forall>s \<in> set ss. refs_in (tokens (cat_components cat')) (VDict s))"
proof (induction es arbitrary: cat)
  case (Cons e es)
  obtain topic a where e: "e = (topic, a)" by (cases e)
  obtain s cat1 where 1: "catalogue_schema ct a topic cat = Some (s, cat1)" "components_ok ct (cat_components cat1)"
      "extends (cat_components cat) (cat_components cat1)" "refs_in (tokens (cat_components cat1)) (VDict s)"
    using catalogue_schema_total [OF Cons.prems] by metis
  obtain ss cat2 where 2: "derive_entries ct es cat1 = Some (ss, cat2)" "components_ok ct (cat_components cat2)"
      "extends (cat_components cat1) (cat_components cat2)" "\<forall>s \<in> set ss. refs_in (tokens (cat_components cat2)) (VDict s)"
    using Cons.IH [OF 1(2)] by blast
  have "refs_in (tokens (cat_components cat2)) (VDict s)"
    using refs_in_mono [OF 1(4)] extends_subset [OF 2(3)] by blast
  then show ?case using 1 2 extends_trans [OF 1(3) 2(3)] by (simp add: e del: refs_in.simps)
qed auto

lemma tokens_marked: "components_ok ct st \<Longrightarrow> \<forall>t \<in> set (tokens st). \<exists>u. t = TOKEN_MARK # u"
proof
  fix t
  assume ok: "components_ok ct st" and "t \<in> set (tokens st)"
  then obtain i where "i < length (component_headers st)" "t = (case component_headers st ! i of (_, _, token, _) \<Rightarrow> token)"
    by (auto simp: header_tokens in_set_conv_nth)
  then show "\<exists>u. t = TOKEN_MARK # u"
    using ok by (cases "component_headers st ! i") (fastforce simp: components_ok_def header_ok_def)
qed

lemma finish_closed:
  assumes ok: "components_ok ct (cat_components cat)" and f: "finish cat = Inr (schemas, rename)"
  shows "map fst schemas = sort (remdups (map (cp_name \<circ> snd) (cat_components cat)))"
    "refs_in (tokens (cat_components cat)) v \<Longrightarrow> refs_in (map fst schemas) (rename v)"
    "\<forall>(name, s) \<in> set schemas. refs_in (map fst schemas) s"
    "\<forall>name \<in> set (map fst schemas). \<exists>first \<in> claimants cat name. \<forall>co \<in> claimants cat name. agree cat co first"
proof -
  let ?st = "cat_components cat"
  let ?ns = "sort (remdups (map (cp_name \<circ> snd) ?st))"
  obtain ss final where s: "settle_names cat ?ns = Inr (ss, final)"
      "schemas = map (\<lambda>(name, schema). (name, rename_refs final (VDict schema))) ss" "rename = rename_refs final"
    using f by (auto simp: finish_def and_then_def split: sum.splits prod.splits)
  have m: "map fst schemas = map fst ss" by (simp add: s(2) case_prod_beta comp_def)
  note r = settle_Inr [OF s(1)]
  have "filter (\<lambda>n. claimants cat n \<noteq> {}) ?ns = ?ns" by (rule filter_True) (auto simp: claimants_def)
  then show k: "map fst schemas = ?ns" using r m by simp
  have "\<exists>name \<in> set (map fst schemas). dict_get final t = Some name" if "t \<in> set (tokens ?st)" for t
  proof -
    obtain x where "x \<in> set ?st" "t = cp_token (snd x)" using \<open>t \<in> set (tokens ?st)\<close> by (auto simp: tokens_def)
    then obtain q co where co: "(q, co) \<in> set ?st" "t = cp_token co" by (metis prod.collapse)
    then have "co \<in> claimants cat (cp_name co)" "cp_name co \<in> set ?ns" by (force simp: claimants_def)+
    then have "t \<in> fst ` set final" using r co(2) by blast
    then obtain name where "dict_get final t = Some name" using map_of_eq_None_iff [of final t] by auto
    moreover from this have "name \<in> snd ` set final" by (force dest: map_of_SomeD)
    then have "name \<in> set (map fst ss)" unfolding set_map using r by blast
    ultimately show ?thesis unfolding m by blast
  qed
  then show c: "refs_in (tokens ?st) v \<Longrightarrow> refs_in (map fst schemas) (rename v)" for v
    unfolding s(3) using rename_closed [OF tokens_marked [OF ok], of "map fst schemas" final v] by blast
  have "refs_in (tokens ?st) (VDict x)" if "(name, x) \<in> set ss" for name x
  proof -
    obtain first where "first \<in> claimants cat name" "cp_schema first = x"
      using conjunct2 [OF conjunct2 [OF conjunct2 [OF r]]] \<open>(name, x) \<in> set ss\<close> by auto
    then obtain q where "(q, first) \<in> set ?st" "cp_schema first = x" by (auto simp: claimants_def)
    then show ?thesis using refs_closed_mono [of ?st ?st q first] ok by (simp add: components_ok_def del: refs_in.simps)
  qed
  then have "refs_in (map fst schemas) (rename (VDict x))" if "(name, x) \<in> set ss" for name x
    using c that by blast
  moreover have "set schemas = (\<lambda>(name, x). (name, rename (VDict x))) ` set ss" unfolding s(2,3) by (rule set_map)
  ultimately show "\<forall>(name, s) \<in> set schemas. refs_in (map fst schemas) s" by (auto simp del: refs_in.simps)
  show "\<forall>name \<in> set (map fst schemas). \<exists>first \<in> claimants cat name. \<forall>co \<in> claimants cat name. agree cat co first"
    using conjunct2 [OF conjunct2 [OF conjunct2 [OF r]]] unfolding m by fastforce
qed

text \<open>
  C33. The catalogue is closed and its names are unambiguous. Deriving the schemas of any list of annotations ends, whatever
  cycles the classes have. When the names settle, there is one component for each claimed name, in order; every
  reference, in the schemas of the entries and in the components themselves and at any depth, is to a component that
  is there; and classes that share a name agree up to documentation and component names. When
  they do not settle, two classes do claim one name with different schemas.
\<close>

theorem catalogue_closed:
  "\<exists>ss cat. derive_entries ct entries empty_catalogue = Some (ss, cat) \<and>
     (case finish cat of
        Inr (schemas, rename) \<Rightarrow>
          map fst schemas = sort (remdups (map (cp_name \<circ> snd) (cat_components cat))) \<and>
          (\<forall>s \<in> set ss. refs_in (map fst schemas) (rename (VDict s))) \<and>
          (\<forall>(name, s) \<in> set schemas. refs_in (map fst schemas) s) \<and>
          (\<forall>name \<in> set (map fst schemas). \<exists>first \<in> claimants cat name. \<forall>co \<in> claimants cat name. agree cat co first)
      | Inl e \<Rightarrow> exn_class e = ''ComponentNameCollisionError'' \<and>
          (\<exists>name co first. co \<in> claimants cat name \<and> first \<in> claimants cat name \<and>
             \<not> py_eq (normalize_schema (VDict (cp_schema co)) (by_token (cat_components cat)))
               (normalize_schema (VDict (cp_schema first)) (by_token (cat_components cat)))))"
proof -
  obtain ss cat where d: "derive_entries ct entries empty_catalogue = Some (ss, cat)" "components_ok ct (cat_components cat)"
      "\<forall>s \<in> set ss. refs_in (tokens (cat_components cat)) (VDict s)"
    using derive_entries_ok [OF empty_catalogue_ok] by blast
  show ?thesis
  proof (cases "finish cat")
    case (Inl e)
    then have "settle_names cat (sort (remdups (map (cp_name \<circ> snd) (cat_components cat)))) = Inl e"
      by (auto simp: finish_def and_then_def split: sum.splits prod.splits)
    from settle_Inl [OF this] show ?thesis using d(1) Inl by simp
  next
    case (Inr r)
    obtain schemas rename where r: "r = (schemas, rename)" by (cases r)
    note f = finish_closed [OF d(2) Inr [unfolded r]]
    show ?thesis
      by (rule exI [of _ ss], rule exI [of _ cat], unfold Inr r sum.case prod.case) (use d(1,3) f in blast)
  qed
qed

text \<open>
  A schema can depend on the order of the entries: a root model and a model that refer to each other give the
  model an open property when the root model is derived first.
\<close>

definition tree_classes :: class_table where
  "tree_classes =
     [(''app.Tree'', \<lparr>ci_name = ''Tree'', ci_body = RootModel False (Some (False, TArray (Some (TNamed ''app.Node''))))\<rparr>),
      (''app.Node'', \<lparr>ci_name = ''Node'', ci_body = Model False [\<lparr>mf_name = ''children'', mf_excluded = False, mf_alias = None,
         mf_serialized = False, mf_annotation = TNamed ''app.Tree'', mf_exclude_if = False\<rparr>] []\<rparr>)]"

definition derived_components :: "class_table \<Rightarrow> (string \<times> annotation) list \<Rightarrow> pydict outcome option" where
  "derived_components ct entries = map_option (\<lambda>(_, cat). and_then (finish cat) (\<lambda>(schemas, _). Inr schemas))
     (derive_entries ct entries empty_catalogue)"

lemma schemas_depend_on_order:
  "derived_components tree_classes [(''tree:put'', TNamed ''app.Tree''), (''node:put'', TNamed ''app.Node'')] \<noteq>
   derived_components tree_classes [(''node:put'', TNamed ''app.Node''), (''tree:put'', TNamed ''app.Tree'')]"
  by code_simp

definition tree_entries :: "(string \<times> annotation) list" where
  "tree_entries = [(''tree:put'', TNamed ''app.Tree''), (''node:put'', TNamed ''app.Node'')]"

theorem catalogue_closed_witness:
  "\<exists>ss cat schemas rename. derive_entries tree_classes tree_entries empty_catalogue = Some (ss, cat) \<and>
     finish cat = Inr (schemas, rename) \<and> map fst schemas = [''Node''] \<and>
     (\<forall>s \<in> set ss. refs_in [''Node''] (rename (VDict s))) \<and> (\<forall>(name, s) \<in> set schemas. refs_in [''Node''] s)"
proof -
  have "case derive_entries tree_classes tree_entries empty_catalogue of None \<Rightarrow> False
    | Some (ss, cat) \<Rightarrow> (case finish cat of Inl _ \<Rightarrow> False | Inr (schemas, _) \<Rightarrow> map fst schemas = [''Node''])" by code_simp
  then obtain ss cat schemas rename where d: "derive_entries tree_classes tree_entries empty_catalogue = Some (ss, cat)"
      "finish cat = Inr (schemas, rename)" "map fst schemas = [''Node'']"
    by (cases "derive_entries tree_classes tree_entries empty_catalogue")
      (force, case_tac "finish (snd a)", auto)
  from catalogue_closed [of tree_classes tree_entries] d show ?thesis by auto
qed

end
