(* ===== verification/Declarations.thy ===== *)
theory Declarations
  imports Prelude PyStr
begin

text \<open>
  \<open>benzene.core.declarations\<close>: the events a service publishes and the messages it sends, each
  \<open>(topic, version)\<close> declared at most once across both kinds. A declared type is whatever \<open>'t\<close> stands for,
  \<open>None\<close> being Python's.
\<close>

record 't event_declaration =
  ed_topic :: string
  ed_version :: string
  ed_message_type :: "'t option"

record 't send_declaration =
  sd_topic :: string
  sd_version :: string
  sd_request_type :: "'t option"
  sd_response_type :: "'t option"

record 't outbound_registry =
  or_events :: "(string \<times> string, 't event_declaration) dict"
  or_sends :: "(string \<times> string, 't send_declaration) dict"

definition new_outbound_registry :: "'t outbound_registry" where
  "new_outbound_registry = \<lparr>or_events = [], or_sends = []\<rparr>"

text \<open>The errors of \<open>_claim\<close>; their advice after the first sentence is left out.\<close>

definition claim_error :: "string \<Rightarrow> string \<Rightarrow> string \<Rightarrow> string \<Rightarrow> pyexn" where
  "claim_error topic version kind existing =
     (let place = ''topic '' @ repr_str topic @ (if version \<noteq> [] then '' version '' @ repr_str version else '' (unversioned)'')
      in PyException ''DuplicateOutboundRegistrationError''
           (if existing = kind then
              place @ '' is already declared as '' @ kind @ ''.''
            else place @ '' is declared as both an event and a send.''))"

definition claim :: "string \<Rightarrow> string \<Rightarrow> string \<Rightarrow> 't outbound_registry \<Rightarrow> unit outcome" where
  "claim topic version kind reg =
     (let key = (topic, version)
      in if dict_mem key (or_events reg) then Inl (claim_error topic version kind ''an event'')
         else if dict_mem key (or_sends reg) then Inl (claim_error topic version kind ''a send'')
         else Inr ())"

definition register_event :: "'t event_declaration \<Rightarrow> 't outbound_registry \<Rightarrow> pyexn + 't outbound_registry" where
  "register_event d reg = (case claim (ed_topic d) (ed_version d) ''an event'' reg of
     Inl e \<Rightarrow> Inl e
   | Inr _ \<Rightarrow> Inr (reg\<lparr>or_events := dict_set (ed_topic d, ed_version d) d (or_events reg)\<rparr>))"

definition register_send :: "'t send_declaration \<Rightarrow> 't outbound_registry \<Rightarrow> pyexn + 't outbound_registry" where
  "register_send d reg = (case claim (sd_topic d) (sd_version d) ''a send'' reg of
     Inl e \<Rightarrow> Inl e
   | Inr _ \<Rightarrow> Inr (reg\<lparr>or_sends := dict_set (sd_topic d, sd_version d) d (or_sends reg)\<rparr>))"

definition register_any :: "'t outbound_registry \<Rightarrow> pyexn + 't outbound_registry" where
  \<comment> \<open>the removed \<open>register\<close>\<close>
  "register_any reg = Inl (PyException ''TypeError''
     ''OutboundRegistry.register() is gone: say which kind of outbound topic this is.'')"

definition outbound_events :: "'t outbound_registry \<Rightarrow> 't event_declaration list" where
  "outbound_events reg = dict_values (or_events reg)"

definition outbound_sends :: "'t outbound_registry \<Rightarrow> 't send_declaration list" where
  "outbound_sends reg = dict_values (or_sends reg)"

section \<open>One declaration per topic and version\<close>

datatype 't outbound_declaration = Event "'t event_declaration" | Send "'t send_declaration"

fun declare_outbound :: "'t outbound_declaration \<Rightarrow> 't outbound_registry \<Rightarrow> pyexn + 't outbound_registry" where
  "declare_outbound (Event d) reg = register_event d reg"
| "declare_outbound (Send d) reg = register_send d reg"

fun declaration_key :: "'t outbound_declaration \<Rightarrow> string \<times> string" where
  "declaration_key (Event d) = (ed_topic d, ed_version d)"
| "declaration_key (Send d) = (sd_topic d, sd_version d)"

definition declared :: "'t outbound_registry \<Rightarrow> string \<times> string \<Rightarrow> 't outbound_declaration option" where
  "declared reg key = (case dict_get (or_events reg) key of
     Some d \<Rightarrow> Some (Event d)
   | None \<Rightarrow> map_option Send (dict_get (or_sends reg) key))"

lemma register_event_Inr:
  "register_event d reg = Inr reg' \<longleftrightarrow> dict_get (or_events reg) (ed_topic d, ed_version d) = None \<and>
     dict_get (or_sends reg) (ed_topic d, ed_version d) = None \<and>
     reg' = reg\<lparr>or_events := dict_set (ed_topic d, ed_version d) d (or_events reg)\<rparr>"
  by (auto simp: register_event_def claim_def dict_mem_def Let_def)

lemma register_send_Inr:
  "register_send d reg = Inr reg' \<longleftrightarrow> dict_get (or_events reg) (sd_topic d, sd_version d) = None \<and>
     dict_get (or_sends reg) (sd_topic d, sd_version d) = None \<and>
     reg' = reg\<lparr>or_sends := dict_set (sd_topic d, sd_version d) d (or_sends reg)\<rparr>"
  by (auto simp: register_send_def claim_def dict_mem_def Let_def)

lemma declare_Inr:
  assumes "declare_outbound d reg = Inr reg'"
  shows "declared reg (declaration_key d) = None" "declared reg' = (declared reg)(declaration_key d \<mapsto> d)"
  using assms by (cases d; simp add: register_event_Inr register_send_Inr declared_def fun_eq_iff split: option.split)+

interpretation outbound: keyed_registry declare_outbound declaration_key declared
  by unfold_locales (simp_all add: declare_Inr)

lemma declare_lists:
  "register_event d reg = Inr reg' \<Longrightarrow>
     outbound_events reg' = outbound_events reg @ [d] \<and> outbound_sends reg' = outbound_sends reg"
  "register_send s reg = Inr reg' \<Longrightarrow>
     outbound_sends reg' = outbound_sends reg @ [s] \<and> outbound_events reg' = outbound_events reg"
  by (auto simp: register_event_Inr register_send_Inr outbound_events_def outbound_sends_def dict_values_def dict_set_fresh)

lemma declare_all_lists:
  "add_all declare_outbound ds reg = Inr reg' \<Longrightarrow>
     outbound_events reg' = outbound_events reg @ List.map_filter (\<lambda>d. case d of Event e \<Rightarrow> Some e | _ \<Rightarrow> None) ds \<and>
     outbound_sends reg' = outbound_sends reg @ List.map_filter (\<lambda>d. case d of Send s \<Rightarrow> Some s | _ \<Rightarrow> None) ds"
proof (induction ds arbitrary: reg)
  case (Cons d ds)
  then obtain r where r: "declare_outbound d reg = Inr r" "add_all declare_outbound ds r = Inr reg'"
    by (auto split: sum.splits)
  show ?case using Cons.IH [OF r(2)] r(1)
    by (cases d) (auto simp: List.map_filter_simps dest!: declare_lists)
qed (simp add: List.map_filter_simps)

text \<open>
  Declaring a list of events and sends succeeds only when no topic and version occurs twice in it, of either
  kind; then every declaration is found, and the two listings are the declarations in the order they were made.
\<close>

lemma declarations_exact:
  assumes "add_all declare_outbound ds new_outbound_registry = Inr reg"
  shows "distinct (map declaration_key ds) \<and> (\<forall>d \<in> set ds. declared reg (declaration_key d) = Some d) \<and>
    outbound_events reg = List.map_filter (\<lambda>d. case d of Event e \<Rightarrow> Some e | _ \<Rightarrow> None) ds \<and>
    outbound_sends reg = List.map_filter (\<lambda>d. case d of Send s \<Rightarrow> Some s | _ \<Rightarrow> None) ds"
  using outbound.add_all_distinct [OF assms] outbound.add_all_finds [OF assms] declare_all_lists [OF assms]
  by (simp add: new_outbound_registry_def outbound_events_def outbound_sends_def dict_values_def)

end
