(* ===== verification/Contract.thy ===== *)
theory Contract
  imports ContractSchema Declarations Grpc
begin

text \<open>
  \<open>benzene.core.contract\<close>: the Contract Document a service derives from its handlers, its outbound
  declarations and its routes, and the middleware that serves it on \<open>benzene:spec\<close>. A type of a handler is
  read as an annotation by \<open>annotation_of\<close>, an argument; so are canonical JSON and SHA-256, as in \<open>ContractHash\<close>.
\<close>

section \<open>The document\<close>

definition SPEC_TYPE_BENZENE :: string where "SPEC_TYPE_BENZENE = ''benzene''"
definition SPEC_FORMAT_JSON :: string where "SPEC_FORMAT_JSON = ''json''"
definition VERSION_SCHEMES :: "string list" where "VERSION_SCHEMES = [''integer'', ''semver'', ''lexicographic'']"
definition RUNTIME :: string where "RUNTIME = ''python''"
definition DEGRADABLE_MEMBERS :: "string list" where "DEGRADABLE_MEMBERS = [''requests'', ''events'', ''sends'']"

record route_mapping =
  rm_method :: string
  rm_path :: string

definition mapping_payload :: "route_mapping \<Rightarrow> pydict" where
  "mapping_payload m = [(''method'', VStr (rm_method m)), (''path'', VStr (rm_path m))]"

record contract_info =
  info_service :: string
  info_service_version :: string
  info_version_scheme :: string
  info_description :: string
  info_transports :: "string list"
  info_placement :: "pydict option"
  info_runtime :: string
  info_profile :: "pydict option"
  info_degraded :: "string list"

record contract_request =
  cr_topic :: string
  cr_request :: pyval
  cr_response :: "pyval option"
  cr_version :: string
  cr_http_mappings :: "route_mapping list"

record contract_event =
  ce_topic :: string
  ce_message :: pyval
  ce_version :: string

record contract_send =
  cs_topic :: string
  cs_request :: pyval
  cs_response :: "pyval option"
  cs_version :: string

text \<open>A member that is left out when it is empty.\<close>

definition some_text :: "string \<Rightarrow> string \<Rightarrow> pydict" where
  "some_text key s = (if s = [] then [] else [(key, VStr s)])"

definition some_dict :: "string \<Rightarrow> pydict option \<Rightarrow> pydict" where
  "some_dict key d = (case d of None \<Rightarrow> [] | Some ms \<Rightarrow> if ms = [] then [] else [(key, VDict ms)])"

definition some_texts :: "string \<Rightarrow> string list \<Rightarrow> pydict" where
  "some_texts key ss = (if ss = [] then [] else [(key, VList (map VStr ss))])"

definition some_schema :: "string \<Rightarrow> pyval option \<Rightarrow> pydict" where
  "some_schema key s = (case s of None \<Rightarrow> [] | Some v \<Rightarrow> [(key, v)])"

definition request_payload :: "contract_request \<Rightarrow> pydict" where
  "request_payload e = [(''topic'', VStr (cr_topic e))] @ some_text ''version'' (cr_version e)
     @ (if cr_http_mappings e = [] then [] else [(''httpMappings'', VList (map (VDict \<circ> mapping_payload) (cr_http_mappings e)))])
     @ [(''request'', cr_request e)] @ some_schema ''response'' (cr_response e)"

definition event_payload :: "contract_event \<Rightarrow> pydict" where
  "event_payload e = [(''topic'', VStr (ce_topic e))] @ some_text ''version'' (ce_version e) @ [(''message'', ce_message e)]"

definition send_payload :: "contract_send \<Rightarrow> pydict" where
  "send_payload e = [(''topic'', VStr (cs_topic e))] @ some_text ''version'' (cs_version e)
     @ [(''request'', cs_request e)] @ some_schema ''response'' (cs_response e)"

record contract_document =
  doc_service :: string
  doc_service_version :: string
  doc_version_scheme :: string
  doc_description :: string
  doc_requests :: "contract_request list"
  doc_events :: "contract_event list"
  doc_sends :: "contract_send list"
  doc_schemas :: pydict
  doc_message_endpoint :: "string option"
  doc_transports :: "string list"
  doc_runtime :: string
  doc_placement :: "pydict option"
  doc_profile :: "pydict option"
  doc_degraded :: "string list"

definition document_body :: "contract_document \<Rightarrow> pydict" where
  "document_body d =
     [(''requests'', VList (map (VDict \<circ> request_payload) (doc_requests d))),
      (''events'', VList (map (VDict \<circ> event_payload) (doc_events d))),
      (''sends'', VList (map (VDict \<circ> send_payload) (doc_sends d))),
      (''components'', VDict [(''schemas'', VDict (doc_schemas d))])]"

definition document_head :: "contract_document \<Rightarrow> pydict" where
  "document_head d = [(''schemaDialect'', VStr SCHEMA_DIALECT), (''service'', VStr (doc_service d))]
     @ some_text ''serviceVersion'' (doc_service_version d) @ some_text ''versionScheme'' (doc_version_scheme d)
     @ some_text ''description'' (doc_description d) @ some_text ''runtime'' (doc_runtime d)
     @ some_dict ''placement'' (doc_placement d) @ some_dict ''profile'' (doc_profile d)
     @ some_texts ''degraded'' (doc_degraded d)
     @ (case doc_message_endpoint d of None \<Rightarrow> [] | Some path \<Rightarrow> [(''messageEndpoint'', VStr path)])
     @ some_texts ''transports'' (doc_transports d)"

definition to_payload :: "(pyval \<Rightarrow> string outcome) \<Rightarrow> (string \<Rightarrow> string) \<Rightarrow> contract_document \<Rightarrow> pydict outcome" where
  "to_payload jcs sha256 d =
     and_then (contract_hash jcs sha256 (document_body d)) (\<lambda>contract.
     and_then (registration_hash jcs sha256 (document_body d)) (\<lambda>registration.
       Inr (dict_update (document_head d @ [(''contractHash'', VStr contract), (''registrationHash'', VStr registration)])
         (document_body d))))"

section \<open>Deriving it\<close>

text \<open>Where the source derives schema after schema on one catalogue; running out of fuel cannot happen.\<close>

definition schema_at :: "class_table \<Rightarrow> annotation \<Rightarrow> string \<Rightarrow> (catalogue, pydict) action" where
  "schema_at ct a topic = (\<lambda>cat. case catalogue_schema ct a topic cat of
     None \<Rightarrow> (Inl (PyException ''RecursionError'' ''maximum recursion depth exceeded''), cat)
   | Some (s, cat') \<Rightarrow> (Inr s, cat'))"

definition optional_schema :: "class_table \<Rightarrow> annotation option \<Rightarrow> string \<Rightarrow> (catalogue, pydict option) action" where
  "optional_schema ct a topic = (case a of
     None \<Rightarrow> act_return None
   | Some b \<Rightarrow> act_bind (schema_at ct b topic) (\<lambda>s. act_return (Some s)))"

fun act_each :: "('a \<Rightarrow> ('s, 'b) action) \<Rightarrow> 'a list \<Rightarrow> ('s, 'b list) action" where
  "act_each f [] = act_return []"
| "act_each f (x # xs) = act_bind (f x) (\<lambda>y. act_bind (act_each f xs) (\<lambda>ys. act_return (y # ys)))"

definition declared_type :: "annotation option \<Rightarrow> annotation" where
  "declared_type t = (case t of None \<Rightarrow> TAny | Some a \<Rightarrow> a)"

definition derive_request ::
  "class_table \<Rightarrow> (py_type \<Rightarrow> annotation) \<Rightarrow> 'h handler_definition \<Rightarrow> (catalogue, pydict \<times> pydict option) action" where
  "derive_request ct annotation_of d =
     (let response = declared_type (map_option annotation_of (hd_response_type d))
      in act_bind (schema_at ct (declared_type (map_option annotation_of (hd_request_type d))) (hd_topic d)) (\<lambda>request.
         act_bind (optional_schema ct (if response = TNone then None else Some response) (hd_topic d)) (\<lambda>response.
         act_return (request, response))))"

definition derive_send :: "class_table \<Rightarrow> annotation send_declaration \<Rightarrow> (catalogue, pydict \<times> pydict option) action" where
  "derive_send ct d =
     act_bind (schema_at ct (declared_type (sd_request_type d)) (sd_topic d)) (\<lambda>request.
     act_bind (optional_schema ct (if sd_response_type d = Some TNone then None else sd_response_type d) (sd_topic d)) (\<lambda>response.
     act_return (request, response)))"

definition document_error :: "contract_info \<Rightarrow> pyexn option" where
  "document_error info =
     (if info_service info = [] then Some (PyException ''ValueError'' ''A Contract Document needs a service name.'')
      else if info_version_scheme info \<noteq> [] \<and> info_version_scheme info \<notin> set VERSION_SCHEMES then
        Some (PyException ''ValueError'' (''version_scheme '' @ repr_str (info_version_scheme info) @ '' is not one of ''
          @ repr_val (VList (map VStr (sort VERSION_SCHEMES)))))
      else None)"

definition degraded_error :: "string list \<Rightarrow> pyexn option" where
  "degraded_error degraded =
     (let unknown = filter (\<lambda>m. m \<notin> set DEGRADABLE_MEMBERS) degraded
      in if unknown = [] then None
         else Some (PyException ''ValueError'' (''degraded names '' @ repr_val (VList (map VStr unknown)) @ ''; only ''
           @ repr_val (VList (map VStr DEGRADABLE_MEMBERS)) @ '' can be undetermined'')))"

definition build_document ::
  "contract_info \<Rightarrow> string option \<Rightarrow> ((string \<times> string) \<Rightarrow> route_mapping list) \<Rightarrow> pydict \<Rightarrow> (pyval \<Rightarrow> pyval) \<Rightarrow>
   ('h handler_definition \<times> pydict \<times> pydict option) list \<Rightarrow> (annotation event_declaration \<times> pydict) list \<Rightarrow>
   (annotation send_declaration \<times> pydict \<times> pydict option) list \<Rightarrow> contract_document" where
  "build_document info endpoint routes schemas rename requests events sends =
     \<lparr>doc_service = info_service info, doc_service_version = info_service_version info,
      doc_version_scheme = info_version_scheme info, doc_description = info_description info,
      doc_requests = sort_key (\<lambda>e. (cr_topic e, cr_version e)) (map (\<lambda>(d, request, response).
        \<lparr>cr_topic = hd_topic d, cr_request = rename (VDict request), cr_response = map_option (rename \<circ> VDict) response,
         cr_version = hd_version d, cr_http_mappings = routes (hd_topic d, hd_version d)\<rparr>) requests),
      doc_events = sort_key (\<lambda>e. (ce_topic e, ce_version e)) (map (\<lambda>(d, message).
        \<lparr>ce_topic = ed_topic d, ce_message = rename (VDict message), ce_version = ed_version d\<rparr>) events),
      doc_sends = sort_key (\<lambda>e. (cs_topic e, cs_version e)) (map (\<lambda>(d, request, response).
        \<lparr>cs_topic = sd_topic d, cs_request = rename (VDict request), cs_response = map_option (rename \<circ> VDict) response,
         cs_version = sd_version d\<rparr>) sends),
      doc_schemas = schemas, doc_message_endpoint = endpoint, doc_transports = info_transports info,
      doc_runtime = info_runtime info, doc_placement = info_placement info, doc_profile = info_profile info,
      doc_degraded = fold add_new (info_degraded info) []\<rparr>"

definition derive_schemas ::
  "class_table \<Rightarrow> (py_type \<Rightarrow> annotation) \<Rightarrow> 'h handler_definition list \<Rightarrow> annotation event_declaration list \<Rightarrow> annotation send_declaration list \<Rightarrow>
   (catalogue, (pydict \<times> pydict option) list \<times> pydict list \<times> (pydict \<times> pydict option) list) action" where
  "derive_schemas ct annotation_of handlers events sends =
     act_bind (act_each (derive_request ct annotation_of) handlers) (\<lambda>rs.
     act_bind (act_each (\<lambda>e. schema_at ct (declared_type (ed_message_type e)) (ed_topic e)) events) (\<lambda>es.
     act_bind (act_each (derive_send ct) sends) (\<lambda>ss. act_return (rs, es, ss))))"

definition derive_document ::
  "class_table \<Rightarrow> (py_type \<Rightarrow> annotation) \<Rightarrow> 'h handler_definition list \<Rightarrow> contract_info \<Rightarrow> annotation outbound_registry option \<Rightarrow>
   string option \<Rightarrow> ((string \<times> string) \<Rightarrow> route_mapping list) \<Rightarrow> contract_document outcome" where
  "derive_document ct annotation_of defs info outbound endpoint routes = (case document_error info of
     Some e \<Rightarrow> Inl e
   | None \<Rightarrow>
       (let handlers = filter (\<lambda>d. \<not> is_reserved_topic (hd_topic d)) defs;
            events = (case outbound of None \<Rightarrow> [] | Some o_reg \<Rightarrow> filter (\<lambda>d. \<not> is_reserved_topic (ed_topic d)) (outbound_events o_reg));
            sends = (case outbound of None \<Rightarrow> [] | Some o_reg \<Rightarrow> filter (\<lambda>d. \<not> is_reserved_topic (sd_topic d)) (outbound_sends o_reg))
        in case derive_schemas ct annotation_of handlers events sends empty_catalogue of
             (Inl e, _) \<Rightarrow> Inl e
           | (Inr (rs, es, ss), cat) \<Rightarrow>
               and_then (finish cat) (\<lambda>(schemas, rename).
                 (case degraded_error (info_degraded info) of
                    Some e \<Rightarrow> Inl e
                  | None \<Rightarrow> Inr (build_document info endpoint routes schemas rename (zip handlers rs) (zip events es) (zip sends ss))))))"

text \<open>The routes of a router by topic and version, and the derivation at the composition root.\<close>

definition mappings_at :: "'h http_router \<Rightarrow> string \<times> string \<Rightarrow> route_mapping list" where
  "mappings_at r key = (case dict_get (http_mappings r) key of
     None \<Rightarrow> []
   | Some ms \<Rightarrow> map (\<lambda>(verb, path). \<lparr>rm_method = verb, rm_path = path\<rparr>) ms)"

definition derive_contract ::
  "class_table \<Rightarrow> (py_type \<Rightarrow> annotation) \<Rightarrow> contract_info \<Rightarrow> 'h handler_definition list \<Rightarrow> annotation outbound_registry option \<Rightarrow>
   'h http_router option \<Rightarrow> 'w standard_paths option \<Rightarrow> contract_document outcome" where
  "derive_contract ct annotation_of info defs outbound router paths =
     derive_document ct annotation_of defs info outbound (case paths of None \<Rightarrow> None | Some p \<Rightarrow> message_endpoint p)
       (case router of None \<Rightarrow> (\<lambda>_. []) | Some r \<Rightarrow> mappings_at r)"

section \<open>Serving it\<close>

definition spec_choice :: "pyval \<Rightarrow> string \<Rightarrow> string" where
  "spec_choice v d = (let t = py_lower (py_strip (str_val (v_or v (VStr [])))) in if t = [] then d else t)"

definition select_spec_document :: "pyval \<Rightarrow> pyval \<Rightarrow> string option" where
  "select_spec_document kind format =
     (let k = spec_choice kind SPEC_TYPE_BENZENE; rendering = spec_choice format SPEC_FORMAT_JSON
      in if k \<noteq> SPEC_TYPE_BENZENE then
           Some (''benzene:spec type '' @ repr_str k @ '' is not implemented by this service; it serves ''
             @ repr_str SPEC_TYPE_BENZENE @ '' (the Contract Document)'')
         else if rendering \<noteq> SPEC_FORMAT_JSON then
           Some (''benzene:spec format '' @ repr_str rendering @ '' is not implemented by this service; it renders ''
             @ repr_str SPEC_FORMAT_JSON @ '' only'')
         else None)"

definition spec_interception :: "pydict \<Rightarrow> string list \<Rightarrow> 'w middleware" where
  "spec_interception payload aliases = (\<lambda>nxt (ctx, w).
     if \<not> hashable (ctx_topic ctx) then (Inl unhashable_error, (ctx, w))
     else if ctx_topic ctx \<notin> VStr ` set (SPEC_TOPIC # aliases) then nxt (ctx, w)
     else (case (if ctx_request ctx = VNone then VDict [] else ctx_request ctx) of
        VDict request \<Rightarrow>
          (Inr (), (set_result_of (Some (case select_spec_document (vget request ''type'') (vget request ''format'') of
             Some unsupported \<Rightarrow> not_implemented [ErrText unsupported]
           | None \<Rightarrow> ok (VDict payload))) ctx, w))
      | _ \<Rightarrow> (Inr (), (set_result_of (Some (bad_request
          [ErrText ''benzene:spec takes an optional {\"type\": ..., \"format\": ...} object''])) ctx, w))))"

text \<open>
  On its topic the middleware ends the pipeline: with the document, or with \<open>not-implemented\<close> for another type or format. Any other
  topic goes on untouched. It meets the contract of the pipeline when the document has a JSON form.
\<close>

lemma spec_answered:
  assumes "ctx_topic ctx = VStr t"
  shows "t \<notin> set (SPEC_TOPIC # aliases) \<Longrightarrow> spec_interception payload aliases nxt (ctx, w) = nxt (ctx, w)"
    "t \<in> set (SPEC_TOPIC # aliases) \<Longrightarrow> ctx_request ctx \<in> {VNone, VDict []} \<Longrightarrow>
       spec_interception payload aliases nxt (ctx, w) = (Inr (), (set_result_of (Some (ok (VDict payload))) ctx, w))"
proof -
  have n: "select_spec_document VNone VNone = None" by code_simp
  show "t \<notin> set (SPEC_TOPIC # aliases) \<Longrightarrow> spec_interception payload aliases nxt (ctx, w) = nxt (ctx, w)"
    using assms by (auto simp: spec_interception_def)
  show "t \<in> set (SPEC_TOPIC # aliases) \<Longrightarrow> ctx_request ctx \<in> {VNone, VDict []} \<Longrightarrow>
      spec_interception payload aliases nxt (ctx, w) = (Inr (), (set_result_of (Some (ok (VDict payload))) ctx, w))"
    using assms n by (auto simp: spec_interception_def vget_def)
qed

lemma spec_middleware_ok:
  assumes "serializable (VDict payload)"
  shows "middleware_ok (spec_interception payload aliases)"
  unfolding middleware_ok_def step_ok_def
proof (intro allI impI)
  fix st :: "'a step" and ctx :: message_context and w
  assume st: "\<forall>ctx w. ctx_ok ctx \<longrightarrow> (\<exists>ctx' w'. st (ctx, w) = (Inr (), ctx', w') \<and> ctx_ok ctx')" and c: "ctx_ok ctx"
  have "result_ok (Some (ok (VDict payload)))" "\<And>es. result_ok (Some (not_implemented es))"
    using assms by (simp_all add: result_ok_def ok_def result_is_successful_def not_implemented_def failure_def is_successful_def SUCCESS_STATUSES_def)
  then show "\<exists>ctx' w'. spec_interception payload aliases st (ctx, w) = (Inr (), ctx', w') \<and> ctx_ok ctx'"
    using st c by (auto simp: spec_interception_def ctx_ok_def set_result_of_def split: pyval.splits option.splits)
qed

section \<open>What a derived document is\<close>

text \<open>
  An action on the catalogue that always returns, keeps the catalogue well formed and only adds to it, and whose
  schemas (\<open>out\<close> of its result) refer to components of the catalogue.
\<close>

definition derives :: "class_table \<Rightarrow> ('a \<Rightarrow> pydict list) \<Rightarrow> (catalogue, 'a) action \<Rightarrow> bool" where
  "derives ct out m \<longleftrightarrow> (\<forall>cat. components_ok ct (cat_components cat) \<longrightarrow>
     (\<exists>r cat'. m cat = (Inr r, cat') \<and> components_ok ct (cat_components cat') \<and>
        extends (cat_components cat) (cat_components cat') \<and>
        (\<forall>s \<in> set (out r). refs_in (tokens (cat_components cat')) (VDict s))))"

lemma derives_return: "out r = [] \<Longrightarrow> derives ct out (act_return r)"
  by (simp add: derives_def act_return_def)

lemma derives_bind:
  assumes "derives ct f m" "\<And>r. derives ct (\<lambda>x. filter (\<lambda>s. s \<notin> set (f r)) (out x)) (k r)"
  shows "derives ct out (act_bind m k)"
  unfolding derives_def
proof (intro allI impI)
  fix cat :: catalogue
  assume ok: "components_ok ct (cat_components cat)"
  obtain r c1 where 1: "m cat = (Inr r, c1)" "components_ok ct (cat_components c1)" "extends (cat_components cat) (cat_components c1)"
      "\<forall>s \<in> set (f r). refs_in (tokens (cat_components c1)) (VDict s)"
    using assms(1) ok unfolding derives_def by blast
  obtain x c2 where 2: "k r c1 = (Inr x, c2)" "components_ok ct (cat_components c2)" "extends (cat_components c1) (cat_components c2)"
      "\<forall>s \<in> set (filter (\<lambda>s. s \<notin> set (f r)) (out x)). refs_in (tokens (cat_components c2)) (VDict s)"
    using assms(2) [of r] 1(2) unfolding derives_def by blast
  have "refs_in (tokens (cat_components c2)) (VDict s)" if "s \<in> set (f r)" for s
    using 1(4) that refs_in_mono extends_subset [OF 2(3)] by blast
  then have "\<forall>s \<in> set (out x). refs_in (tokens (cat_components c2)) (VDict s)" using 2(4) by auto
  then show "\<exists>r cat'. act_bind m k cat = (Inr r, cat') \<and> components_ok ct (cat_components cat') \<and>
      extends (cat_components cat) (cat_components cat') \<and> (\<forall>s \<in> set (out r). refs_in (tokens (cat_components cat')) (VDict s))"
    using 1(1) 2 extends_trans [OF 1(3) 2(3)] by (simp del: refs_in.simps)
qed

lemma derives_schema: "derives ct (\<lambda>s. [s]) (schema_at ct a topic)"
  unfolding derives_def
proof (intro allI impI)
  fix cat :: catalogue
  assume "components_ok ct (cat_components cat)"
  then obtain s cat' where "catalogue_schema ct a topic cat = Some (s, cat')" "components_ok ct (cat_components cat')"
      "extends (cat_components cat) (cat_components cat')" "refs_in (tokens (cat_components cat')) (VDict s)"
    using catalogue_schema_total [of ct cat a topic] by metis
  then show "\<exists>r cat'. schema_at ct a topic cat = (Inr r, cat') \<and> components_ok ct (cat_components cat') \<and>
      extends (cat_components cat) (cat_components cat') \<and> (\<forall>s \<in> set [r]. refs_in (tokens (cat_components cat')) (VDict s))"
    by (auto simp: schema_at_def simp del: refs_in.simps)
qed

lemma derives_optional: "derives ct (case_option [] (\<lambda>s. [s])) (optional_schema ct a topic)"
  unfolding optional_schema_def
  by (cases a) (auto intro!: derives_return derives_bind [OF derives_schema])

lemma derives_each:
  assumes "\<And>x. derives ct f (g x)"
  shows "derives ct (\<lambda>ys. concat (map f ys)) (act_each g xs)"
proof (induction xs)
  case (Cons x xs)
  show ?case unfolding act_each.simps
    by (rule derives_bind [OF assms], rule derives_bind [OF Cons], rule derives_return) (auto simp: filter_empty_conv)
qed (auto intro: derives_return)

definition pair_schemas :: "pydict \<times> pydict option \<Rightarrow> pydict list" where
  "pair_schemas p = fst p # (case snd p of None \<Rightarrow> [] | Some s \<Rightarrow> [s])"

lemma derives_request: "derives ct pair_schemas (derive_request ct annotation_of d)"
  unfolding derive_request_def Let_def
  by (rule derives_bind [OF derives_schema], rule derives_bind [OF derives_optional], rule derives_return)
    (auto simp: pair_schemas_def split: option.splits)

lemma derives_send: "derives ct pair_schemas (derive_send ct d)"
  unfolding derive_send_def
  by (rule derives_bind [OF derives_schema], rule derives_bind [OF derives_optional], rule derives_return)
    (auto simp: pair_schemas_def split: option.splits)

definition all_schemas :: "(pydict \<times> pydict option) list \<times> pydict list \<times> (pydict \<times> pydict option) list \<Rightarrow> pydict list" where
  "all_schemas = (\<lambda>(rs, es, ss). concat (map pair_schemas rs) @ es @ concat (map pair_schemas ss))"

lemma derives_all: "derives ct all_schemas (derive_schemas ct annotation_of handlers events sends)"
proof -
  have e: "derives ct (\<lambda>ys. ys) (act_each (\<lambda>e. schema_at ct (declared_type (ed_message_type e)) (ed_topic e)) events)"
    using derives_each [of ct "\<lambda>s. [s]" "\<lambda>e. schema_at ct (declared_type (ed_message_type e)) (ed_topic e)" events, OF derives_schema]
    by (simp add: concat_map_singleton)
  show ?thesis unfolding derive_schemas_def
    by (rule derives_bind [OF derives_each [OF derives_request]], rule derives_bind [OF e],
        rule derives_bind [OF derives_each [OF derives_send]], rule derives_return)
      (auto simp: all_schemas_def)
qed

lemma act_each_length: "act_each f xs s = (Inr ys, s') \<Longrightarrow> length ys = length xs"
  by (induction xs arbitrary: s ys) (auto simp: act_bind_def act_return_def split: prod.splits sum.splits)

lemma derive_schemas_length:
  "derive_schemas ct annotation_of handlers events sends s = (Inr (rs, es, ss), s') \<Longrightarrow>
     length rs = length handlers \<and> length es = length events \<and> length ss = length sends"
  by (auto simp: derive_schemas_def act_bind_def act_return_def split: prod.splits sum.splits dest!: act_each_length)

text \<open>The schemas an entry of a document holds.\<close>

definition entry_schemas :: "contract_document \<Rightarrow> pyval list" where
  "entry_schemas d =
     concat (map (\<lambda>e. cr_request e # (case cr_response e of None \<Rightarrow> [] | Some v \<Rightarrow> [v])) (doc_requests d)) @
     map ce_message (doc_events d) @
     concat (map (\<lambda>e. cs_request e # (case cs_response e of None \<Rightarrow> [] | Some v \<Rightarrow> [v])) (doc_sends d))"

lemma pair_renamed:
  assumes "(d, request, response) \<in> set (zip ds ps)" "v \<in> set (rename (VDict request) #
      (case map_option (rename \<circ> VDict) response of None \<Rightarrow> [] | Some x \<Rightarrow> [x]))"
  shows "\<exists>s \<in> set (concat (map pair_schemas ps)). v = rename (VDict s)"
proof -
  have "(request, response) \<in> set ps" using assms(1) by (rule set_zip_rightD)
  moreover have "\<exists>s \<in> set (pair_schemas (request, response)). v = rename (VDict s)"
    using assms(2) by (auto simp: pair_schemas_def split: option.splits)
  ultimately show ?thesis by auto
qed

lemma build_document_schemas:
  assumes "v \<in> set (entry_schemas (build_document info endpoint routes schemas rename (zip hs rs) (zip evs es) (zip sds ss)))"
  shows "\<exists>s \<in> set (all_schemas (rs, es, ss)). v = rename (VDict s)"
proof -
  let ?doc = "build_document info endpoint routes schemas rename (zip hs rs) (zip evs es) (zip sds ss)"
  consider (request) e where "e \<in> set (doc_requests ?doc)" "v \<in> set (cr_request e # (case cr_response e of None \<Rightarrow> [] | Some x \<Rightarrow> [x]))"
    | (event) e where "e \<in> set (doc_events ?doc)" "v = ce_message e"
    | (send) e where "e \<in> set (doc_sends ?doc)" "v \<in> set (cs_request e # (case cs_response e of None \<Rightarrow> [] | Some x \<Rightarrow> [x]))"
    using assms unfolding entry_schemas_def set_append set_concat set_map by blast
  then show ?thesis
  proof cases
    case request
    then obtain d request response where "(d, request, response) \<in> set (zip hs rs)"
        "v \<in> set (rename (VDict request) # (case map_option (rename \<circ> VDict) response of None \<Rightarrow> [] | Some x \<Rightarrow> [x]))"
      by (auto simp: build_document_def dest!: sym [of "Some _"])
    from pair_renamed [OF this] show ?thesis by (auto simp: all_schemas_def)
  next
    case event
    then obtain d message where "(d, message) \<in> set (zip evs es)" "v = rename (VDict message)" by (auto simp: build_document_def)
    moreover from this have "message \<in> set es" by (metis set_zip_rightD)
    ultimately show ?thesis by (auto simp: all_schemas_def)
  next
    case send
    then obtain d request response where "(d, request, response) \<in> set (zip sds ss)"
        "v \<in> set (rename (VDict request) # (case map_option (rename \<circ> VDict) response of None \<Rightarrow> [] | Some x \<Rightarrow> [x]))"
      by (auto simp: build_document_def dest!: sym [of "Some _"])
    from pair_renamed [OF this] show ?thesis by (auto simp: all_schemas_def)
  qed
qed

lemma sorted_keys: "map k (sort_key k xs) = sort (map k xs)"
  by (rule properties_for_sort [symmetric]) simp_all

lemma derive_document_Inr:
  assumes "derive_document ct annotation_of defs info outbound endpoint routes = Inr doc"
  obtains rs es ss cat schemas rename where "components_ok ct (cat_components cat)" "finish cat = Inr (schemas, rename)"
    "\<forall>s \<in> set (all_schemas (rs, es, ss)). refs_in (tokens (cat_components cat)) (VDict s)"
    "length rs = length (filter (\<lambda>d. \<not> is_reserved_topic (hd_topic d)) defs) \<and>
      length es = length (case outbound of None \<Rightarrow> [] | Some o_reg \<Rightarrow> filter (\<lambda>d. \<not> is_reserved_topic (ed_topic d)) (outbound_events o_reg)) \<and>
      length ss = length (case outbound of None \<Rightarrow> [] | Some o_reg \<Rightarrow> filter (\<lambda>d. \<not> is_reserved_topic (sd_topic d)) (outbound_sends o_reg))"
    "doc = build_document info endpoint routes schemas rename (zip (filter (\<lambda>d. \<not> is_reserved_topic (hd_topic d)) defs) rs)
       (zip (case outbound of None \<Rightarrow> [] | Some o_reg \<Rightarrow> filter (\<lambda>d. \<not> is_reserved_topic (ed_topic d)) (outbound_events o_reg)) es)
       (zip (case outbound of None \<Rightarrow> [] | Some o_reg \<Rightarrow> filter (\<lambda>d. \<not> is_reserved_topic (sd_topic d)) (outbound_sends o_reg)) ss)"
    "document_error info = None"
proof -
  let ?hs = "filter (\<lambda>d. \<not> is_reserved_topic (hd_topic d)) defs"
  let ?es = "case outbound of None \<Rightarrow> [] | Some o_reg \<Rightarrow> filter (\<lambda>d. \<not> is_reserved_topic (ed_topic d)) (outbound_events o_reg)"
  let ?ss = "case outbound of None \<Rightarrow> [] | Some o_reg \<Rightarrow> filter (\<lambda>d. \<not> is_reserved_topic (sd_topic d)) (outbound_sends o_reg)"
  obtain r cat where d: "derive_schemas ct annotation_of ?hs ?es ?ss empty_catalogue = (Inr r, cat)"
      "components_ok ct (cat_components cat)" "\<forall>s \<in> set (all_schemas r). refs_in (tokens (cat_components cat)) (VDict s)"
    using derives_all [of ct annotation_of ?hs ?es ?ss] empty_catalogue_ok [of ct] unfolding derives_def by blast
  obtain rs es ss where r: "r = (rs, es, ss)" by (cases r)
  have "document_error info = None" using assms by (auto simp: derive_document_def split: option.splits)
  with assms d(1) r obtain schemas rename where f: "finish cat = Inr (schemas, rename)"
      "doc = build_document info endpoint routes schemas rename (zip ?hs rs) (zip ?es es) (zip ?ss ss)"
    by (auto simp: derive_document_def Let_def and_then_def [of "finish _"] split: sum.splits prod.splits option.splits)
  show thesis
    using that [OF d(2) f(1) _ _ f(2) \<open>document_error info = None\<close>] d(3) r derive_schemas_length [OF d(1) [unfolded r]] by simp
qed

lemma projection_cong:
  assumes "\<And>m. m \<in> {''requests'', ''events'', ''sends'', ''components''} \<Longrightarrow> vget d m = vget d' m"
    and "set members \<subseteq> {''requests'', ''events'', ''sends''}"
  shows "projection d members = projection d' members"
proof -
  have c: "schema_catalogue d = schema_catalogue d'" using assms(1) by (simp add: schema_catalogue_def)
  have "project_member d m = project_member d' m" if "m \<in> set members" for m
  proof -
    have "vget d m = vget d' m" by (rule assms(1)) (use assms(2) that in auto)
    then have "contract_entries d m = contract_entries d' m" by (simp add: contract_entries_def)
    then show ?thesis unfolding project_member_def c by (simp split: option.split)
  qed
  then have "each (\<lambda>m. and_then (project_member d m) (\<lambda>es. Inr (m, VList (map VDict es)))) members =
      each (\<lambda>m. and_then (project_member d' m) (\<lambda>es. Inr (m, VList (map VDict es)))) members"
    by (induction members) auto
  then show ?thesis by (simp add: projection_def)
qed

lemma head_keys: "set (dict_keys (document_head d)) \<subseteq> {''schemaDialect'', ''service'', ''serviceVersion'', ''versionScheme'',
    ''description'', ''runtime'', ''placement'', ''profile'', ''degraded'', ''messageEndpoint'', ''transports''}"
  by (auto simp: document_head_def dict_keys_def some_text_def some_dict_def some_texts_def split: option.splits if_splits)

lemma payload_members:
  assumes "to_payload jcs sha256 d = Inr p"
  shows "\<exists>h r. contract_hash jcs sha256 (document_body d) = Inr h \<and> registration_hash jcs sha256 (document_body d) = Inr r \<and>
    vget p ''contractHash'' = VStr h \<and> vget p ''registrationHash'' = VStr r \<and>
    (\<forall>m \<in> {''requests'', ''events'', ''sends'', ''components''}. vget p m = vget (document_body d) m) \<and>
    (\<forall>m \<in> {''schemaDialect'', ''service''}. vget p m = vget (document_head d) m)"
proof -
  obtain h r where hr: "contract_hash jcs sha256 (document_body d) = Inr h" "registration_hash jcs sha256 (document_body d) = Inr r"
      "p = dict_update (document_head d @ [(''contractHash'', VStr h), (''registrationHash'', VStr r)]) (document_body d)"
    using assms by (auto simp: to_payload_def and_then_def split: sum.splits)
  have n: "map_of (document_head d) ''contractHash'' = None" "map_of (document_head d) ''registrationHash'' = None"
    using head_keys [of d] by (auto simp: map_of_eq_None_iff dict_keys_def)
  have b: "map_of (rev (document_body d)) = map_of (document_body d)"
    by (rule dict_get_rev) (simp add: dict_ok_def document_body_def)
  have "map_of (document_head d) ''schemaDialect'' \<noteq> None" "map_of (document_head d) ''service'' \<noteq> None"
    by (simp_all add: document_head_def)
  note k = this
  show ?thesis
    by (rule exI [of _ h], rule exI [of _ r]) (use hr n k in \<open>auto simp: vget_def dict_get_update b map_add_def document_body_def split: option.split\<close>)
qed

lemma payload_head:
  assumes "to_payload jcs sha256 d = Inr p"
    and "m \<notin> {''requests'', ''events'', ''sends'', ''components'', ''contractHash'', ''registrationHash''}"
  shows "vget p m = vget (document_head d) m"
proof -
  obtain h r where hr: "p = dict_update (document_head d @ [(''contractHash'', VStr h), (''registrationHash'', VStr r)]) (document_body d)"
    using assms(1) by (auto simp: to_payload_def and_then_def split: sum.splits)
  have "map_of (rev (document_body d)) m = None" using assms(2) by (auto simp: map_of_eq_None_iff document_body_def)
  then show ?thesis using assms(2) by (auto simp: hr vget_def dict_get_update map_add_def split: option.split)
qed

lemma head_identity:
  "vget (document_head d) ''schemaDialect'' = VStr SCHEMA_DIALECT" "vget (document_head d) ''service'' = VStr (doc_service d)"
  by (simp_all add: document_head_def vget_def)

lemma built_in_order:
  assumes "length rs = length hs" "length es = length evs" "length ss = length sds"
    and "doc = build_document info endpoint routes schemas rename (zip hs rs) (zip evs es) (zip sds ss)"
  shows "map (\<lambda>e. (cr_topic e, cr_version e)) (doc_requests doc) = sort (map (\<lambda>d. (hd_topic d, hd_version d)) hs)"
    and "map (\<lambda>e. (ce_topic e, ce_version e)) (doc_events doc) = sort (map (\<lambda>d. (ed_topic d, ed_version d)) evs)"
    and "map (\<lambda>e. (cs_topic e, cs_version e)) (doc_sends doc) = sort (map (\<lambda>d. (sd_topic d, sd_version d)) sds)"
    and "e \<in> set (doc_requests doc) \<Longrightarrow> cr_http_mappings e = routes (cr_topic e, cr_version e)"
proof -
  have z: "map (\<lambda>x. f (fst x)) (zip xs ys) = map f xs" if "length ys = length xs" for f :: "'x \<Rightarrow> 'z" and xs and ys :: "'y list"
    using map_map [of f fst "zip xs ys"] that by (simp add: comp_def)
  show "map (\<lambda>e. (cr_topic e, cr_version e)) (doc_requests doc) = sort (map (\<lambda>d. (hd_topic d, hd_version d)) hs)"
    using z [OF assms(1), of "\<lambda>d. (hd_topic d, hd_version d)"]
    by (simp add: assms(4) build_document_def sorted_keys comp_def case_prod_beta)
  show "map (\<lambda>e. (ce_topic e, ce_version e)) (doc_events doc) = sort (map (\<lambda>d. (ed_topic d, ed_version d)) evs)"
    using z [OF assms(2), of "\<lambda>d. (ed_topic d, ed_version d)"]
    by (simp add: assms(4) build_document_def sorted_keys comp_def case_prod_beta)
  show "map (\<lambda>e. (cs_topic e, cs_version e)) (doc_sends doc) = sort (map (\<lambda>d. (sd_topic d, sd_version d)) sds)"
    using z [OF assms(3), of "\<lambda>d. (sd_topic d, sd_version d)"]
    by (simp add: assms(4) build_document_def sorted_keys comp_def case_prod_beta)
  show "e \<in> set (doc_requests doc) \<Longrightarrow> cr_http_mappings e = routes (cr_topic e, cr_version e)"
    by (auto simp: assms(4) build_document_def)
qed

text \<open>
  C32. A derived Contract Document is sound. It lists each handler, each declared event and each declared send whose
  topic is not reserved once, by topic and then version, and each handler with the routes of its own topic and version; every reference in it, in an entry or in a component, is to one of its components; a
  reader of Contract Documents accepts what is served; and the hashes it carries are the ones a consumer computes from the served
  document itself, so that a drift check compares like with like.
\<close>

theorem contract_document_sound:
  assumes "derive_document ct annotation_of defs info outbound endpoint routes = Inr doc"
  shows "map (\<lambda>e. (cr_topic e, cr_version e)) (doc_requests doc) =
      sort (map (\<lambda>d. (hd_topic d, hd_version d)) (filter (\<lambda>d. \<not> is_reserved_topic (hd_topic d)) defs)) \<and>
    map (\<lambda>e. (ce_topic e, ce_version e)) (doc_events doc) = sort (map (\<lambda>d. (ed_topic d, ed_version d))
      (case outbound of None \<Rightarrow> [] | Some o_reg \<Rightarrow> filter (\<lambda>d. \<not> is_reserved_topic (ed_topic d)) (outbound_events o_reg))) \<and>
    map (\<lambda>e. (cs_topic e, cs_version e)) (doc_sends doc) = sort (map (\<lambda>d. (sd_topic d, sd_version d))
      (case outbound of None \<Rightarrow> [] | Some o_reg \<Rightarrow> filter (\<lambda>d. \<not> is_reserved_topic (sd_topic d)) (outbound_sends o_reg))) \<and>
    (\<forall>e \<in> set (doc_requests doc). cr_http_mappings e = routes (cr_topic e, cr_version e)) \<and>
    (\<forall>v \<in> set (entry_schemas doc). refs_in (map fst (doc_schemas doc)) v) \<and>
    (\<forall>(name, s) \<in> set (doc_schemas doc). refs_in (map fst (doc_schemas doc)) s) \<and>
    (\<forall>p. to_payload jcs sha256 doc = Inr p \<longrightarrow> is_contract_document p \<and>
       (\<exists>h r. vget p ''contractHash'' = VStr h \<and> contract_hash jcs sha256 p = Inr h \<and>
          vget p ''registrationHash'' = VStr r \<and> registration_hash jcs sha256 p = Inr r))"
proof -
  let ?hs = "filter (\<lambda>d. \<not> is_reserved_topic (hd_topic d)) defs"
  let ?evs = "case outbound of None \<Rightarrow> [] | Some o_reg \<Rightarrow> filter (\<lambda>d. \<not> is_reserved_topic (ed_topic d)) (outbound_events o_reg)"
  let ?sds = "case outbound of None \<Rightarrow> [] | Some o_reg \<Rightarrow> filter (\<lambda>d. \<not> is_reserved_topic (sd_topic d)) (outbound_sends o_reg)"
  from assms obtain rs es ss cat schemas rename where
    ok: "components_ok ct (cat_components cat)" "finish cat = Inr (schemas, rename)"
    and refs: "\<forall>s \<in> set (all_schemas (rs, es, ss)). refs_in (tokens (cat_components cat)) (VDict s)"
    and len: "length rs = length ?hs \<and> length es = length ?evs \<and> length ss = length ?sds"
    and doc: "doc = build_document info endpoint routes schemas rename (zip ?hs rs) (zip ?evs es) (zip ?sds ss)"
    and info: "document_error info = None"
    by (rule derive_document_Inr)
  have s: "doc_schemas doc = schemas" "doc_service doc = info_service info" by (simp_all add: doc build_document_def)
  note listed = built_in_order [OF len [THEN conjunct1] len [THEN conjunct2, THEN conjunct1] len [THEN conjunct2, THEN conjunct2] doc]
  have e: "\<forall>v \<in> set (entry_schemas doc). refs_in (map fst schemas) v"
    using build_document_schemas finish_closed(2) [OF ok] refs unfolding doc by blast
  have "is_contract_document p \<and> (\<exists>h r. vget p ''contractHash'' = VStr h \<and> contract_hash jcs sha256 p = Inr h \<and>
      vget p ''registrationHash'' = VStr r \<and> registration_hash jcs sha256 p = Inr r)" if "to_payload jcs sha256 doc = Inr p" for p
  proof -
    obtain h r where p: "contract_hash jcs sha256 (document_body doc) = Inr h" "registration_hash jcs sha256 (document_body doc) = Inr r"
        "vget p ''contractHash'' = VStr h" "vget p ''registrationHash'' = VStr r"
        "\<And>m. m \<in> {''requests'', ''events'', ''sends'', ''components''} \<Longrightarrow> vget p m = vget (document_body doc) m"
        "\<And>m. m \<in> {''schemaDialect'', ''service''} \<Longrightarrow> vget p m = vget (document_head doc) m"
      using payload_members [OF \<open>to_payload jcs sha256 doc = Inr p\<close>] by blast
    have "contract_hash jcs sha256 p = Inr h" "registration_hash jcs sha256 p = Inr r"
      using p(1,2) projection_cong [OF p(5)] by (simp_all add: contract_hash_def registration_hash_def)
    moreover have "is_contract_document p"
    proof -
      have "vget p ''schemaDialect'' = VStr SCHEMA_DIALECT" "vget p ''service'' = VStr (info_service info)"
        using p(6) [of "''schemaDialect''"] p(6) [of "''service''"] by (simp_all add: head_identity s)
      moreover have "is_list (vget p ''requests'')"
        using p(5) [of "''requests''"] by (simp add: document_body_def vget_def [of "_ # _"] is_list_def)
      moreover have "info_service info \<noteq> []" using info by (auto simp: document_error_def)
      ultimately show ?thesis by (simp add: is_contract_document_def)
    qed
    ultimately show ?thesis using p(3,4) by blast
  qed
  then show ?thesis using listed(4) e finish_closed(3) [OF ok] unfolding s
    by (intro conjI listed(1-3)) blast+
qed

text \<open>A service with one handler over a recursive dataclass.\<close>

definition stock_classes :: class_table where
  "stock_classes = [(''stock.Item'', \<lparr>ci_name = ''Item'', ci_body = Dataclass
     [(''sku_code'', Some (TPrimitive ''str'')), (''parent'', Some (TUnion [TNamed ''stock.Item'', TNone]))]\<rparr>)]"

definition stock_handlers :: "unit handler_definition list" where
  "stock_handlers = [\<lparr>hd_topic = ''stock:take'', hd_handler = (), hd_version = [], hd_request_type = Some (TClass ''stock.Item''),
     hd_response_type = None, hd_is_default = False\<rparr>]"

definition stock_info :: contract_info where
  "stock_info = \<lparr>info_service = ''stock'', info_service_version = [], info_version_scheme = [], info_description = [], info_transports = [],
     info_placement = None, info_runtime = RUNTIME, info_profile = None, info_degraded = []\<rparr>"

definition stock_document :: "contract_document outcome" where
  "stock_document = derive_document stock_classes (\<lambda>t. TNamed (type_name t)) stock_handlers stock_info None None (\<lambda>_. [])"

theorem contract_document_sound_witness:
  "\<exists>doc. stock_document = Inr doc \<and> map cr_topic (doc_requests doc) = [''stock:take''] \<and> map fst (doc_schemas doc) = [''Item''] \<and>
     (\<forall>v \<in> set (entry_schemas doc). refs_in [''Item''] v)"
proof -
  have "case stock_document of Inl _ \<Rightarrow> False | Inr doc \<Rightarrow> map fst (doc_schemas doc) = [''Item'']" by code_simp
  then obtain doc where doc: "stock_document = Inr doc" "map fst (doc_schemas doc) = [''Item'']" by (auto split: sum.splits)
  have r: "\<not> is_reserved_topic ''stock:take''" by code_simp
  from contract_document_sound [OF doc(1) [unfolded stock_document_def]]
  have "map (\<lambda>e. (cr_topic e, cr_version e)) (doc_requests doc) = [(''stock:take'', [])]"
    "\<forall>v \<in> set (entry_schemas doc). refs_in (map fst (doc_schemas doc)) v" using r by (simp_all add: stock_handlers_def)
  then show ?thesis using doc by (auto simp: map_eq_Cons_conv)
qed

end
