(* ===== verification/Startup.thy ===== *)
theory Startup
  imports Contract
begin

text \<open>
  \<open>benzene.core.startup\<close>: the composition root. A startup registers services, configures the application
  and is built into the message application every host runs. Middleware carries the mark by which
  \<open>intercepts_health\<close> recognises a \<open>health_interception\<close>.
\<close>

section \<open>What a startup produces\<close>

type_synonym 'w marked = "bool \<times> 'w middleware"

definition marked_health :: "'w health_checks \<Rightarrow> string list \<Rightarrow> 'w marked" where
  "marked_health cs aliases = (True, health_interception cs aliases)"

definition intercepts_health :: "'w marked \<Rightarrow> bool" where
  "intercepts_health m = fst m"

record 'w app_definition =
  ad_registry :: "'w handler registry option"
  ad_router :: "'w handler http_router option"
  ad_middleware :: "'w marked list"
  ad_standard_paths :: "'w standard_paths option"
  ad_outbound :: "annotation outbound_registry option"
  ad_contract :: "contract_info option"
  ad_metadata_keys :: metadata_keys

definition handler_registry :: "'w app_definition \<Rightarrow> 'w handler registry outcome" where
  "handler_registry ad = (case ad_registry ad of
     Some reg \<Rightarrow> Inr reg
   | None \<Rightarrow> (case ad_router ad of
       None \<Rightarrow> Inr []
     | Some r \<Rightarrow> add_all add_definition (router_definitions r) []))"

text \<open>What reflection and the JSON and hash libraries give the derivation of the document.\<close>

record reflection =
  rf_classes :: class_table
  rf_annotation_of :: "py_type \<Rightarrow> annotation"
  rf_jcs :: "pyval \<Rightarrow> string outcome"
  rf_sha256 :: "string \<Rightarrow> string"

definition app_contract_document :: "reflection \<Rightarrow> 'w app_definition \<Rightarrow> contract_document option outcome" where
  "app_contract_document rf ad = (case ad_contract ad of
     None \<Rightarrow> Inr None
   | Some info \<Rightarrow> and_then (handler_registry ad) (\<lambda>reg.
       and_then (derive_contract (rf_classes rf) (rf_annotation_of rf) info (definitions reg) (ad_outbound ad)
         (ad_router ad) (ad_standard_paths ad)) (\<lambda>document. Inr (Some document))))"

definition declared_checks :: "'w app_definition \<Rightarrow> 'w health_checks option" where
  "declared_checks ad = (case ad_standard_paths ad of None \<Rightarrow> None | Some p \<Rightarrow> sp_health p)"

definition health_middleware :: "'w app_definition \<Rightarrow> 'w marked list" where
  "health_middleware ad = (case declared_checks ad of
     None \<Rightarrow> []
   | Some cs \<Rightarrow> if list_ex intercepts_health (ad_middleware ad) then [] else [marked_health cs []])"

definition spec_middleware :: "reflection \<Rightarrow> contract_document option \<Rightarrow> 'w middleware list outcome" where
  "spec_middleware rf document = (case document of
     None \<Rightarrow> Inr []
   | Some d \<Rightarrow> and_then (to_payload (rf_jcs rf) (rf_sha256 rf) d) (\<lambda>payload. Inr [spec_interception payload []]))"

definition application_from :: "reflection \<Rightarrow> classes \<Rightarrow> 'w app_definition \<Rightarrow> 'w application outcome" where
  "application_from rf ct ad =
     and_then (handler_registry ad) (\<lambda>reg.
     and_then (app_contract_document rf ad) (\<lambda>document.
     and_then (spec_middleware rf document) (\<lambda>spec.
       new_application ct reg (Some (map snd (ad_middleware ad @ health_middleware ad) @ spec)) None None
         (Some (ad_metadata_keys ad)))))"

section \<open>Booting\<close>

type_synonym config = "(string, string) dict"

record 'w startup =
  su_configure_services :: "config \<Rightarrow> (container, unit) action"
  su_configure :: "config \<Rightarrow> (dep_state, 'w app_definition) action"

fun run_overrides :: "(container, unit) action list \<Rightarrow> (container, unit) action" where
  "run_overrides [] = act_return ()"
| "run_overrides (x # xs) = act_bind x (\<lambda>_. run_overrides xs)"

definition build_application ::
  "'w startup \<Rightarrow> (container, unit) action list \<Rightarrow> config option \<Rightarrow> ('w app_definition \<times> dep_state) outcome" where
  "build_application startup overrides config =
     (let resolved = (case config of None \<Rightarrow> [] | Some c \<Rightarrow> c)
      in case act_bind (su_configure_services startup resolved) (\<lambda>_. run_overrides overrides) new_container of
           (Inl e, _) \<Rightarrow> Inl e
         | (Inr _, services) \<Rightarrow>
             (case su_configure startup resolved (services, create_scope) of
                (Inl e, _) \<Rightarrow> Inl e
              | (Inr d, s) \<Rightarrow> Inr (d, s)))"

section \<open>Overrides win\<close>

text \<open>
  An override that registers an instance (\<open>use_instance\<close>) is what the startup resolves, whatever the startup
  registered for that service and whatever overrides came before.
\<close>

lemma run_overrides_append:
  "run_overrides (xs @ ys) = act_bind (run_overrides xs) (\<lambda>_. run_overrides ys)"
  by (induction xs) (simp_all add: act_bind_assoc)

lemma instance_resolved:
  "try_get_service (Suc fuel) key (add_instance key obj c, sc) = Some (Inr obj, (add_instance key obj c, sc))"
  by (simp add: add_instance_def add_registration_def cached_def)

lemma override_wins:
  assumes "build_application startup (overrides @ [act_modify (use_instance key obj)]) config = Inr (d, s)"
  shows "\<exists>services. su_configure startup (case config of None \<Rightarrow> [] | Some c \<Rightarrow> c) (services, create_scope) = (Inr d, s) \<and>
    try_get_service (Suc fuel) key (services, create_scope) = Some (Inr obj, (services, create_scope))"
proof -
  let ?config = "case config of None \<Rightarrow> [] | Some c \<Rightarrow> c"
  let ?before = "act_bind (su_configure_services startup ?config) (\<lambda>_. run_overrides overrides)"
  have split: "act_bind (su_configure_services startup ?config)
      (\<lambda>_. run_overrides (overrides @ [act_modify (use_instance key obj)])) =
      act_bind ?before (\<lambda>_. act_modify (use_instance key obj))"
    by (simp add: run_overrides_append act_bind_assoc)
  obtain c where "?before new_container = (Inr (), c)"
      "su_configure startup ?config (use_instance key obj c, create_scope) = (Inr d, s)"
    using assms unfolding build_application_def Let_def split
    by (cases "?before new_container"; cases "fst (?before new_container)")
      (simp_all add: act_bind_def [of ?before] act_modify_def split: prod.splits sum.splits)
  moreover have "try_get_service (Suc fuel) key (use_instance key obj c, create_scope)
      = Some (Inr obj, (use_instance key obj c, create_scope))"
    by (simp only: use_instance_def instance_resolved)
  ultimately show ?thesis by blast
qed

section \<open>Reserved topics through the pipeline\<close>

text \<open>
  Middleware is transparent for a topic and headers when it passes such a message on, possibly after changing the
  context or the world, keeps its topic, headers and payload, and leaves the result of the rest of the pipeline in
  place: tracing, correlation and authentication that accepts the headers are. A step answers the topic when it sets a result.
\<close>

definition transparent :: "string \<Rightarrow> pydict \<Rightarrow> 'w middleware \<Rightarrow> bool" where
  "transparent t hs m \<longleftrightarrow> (\<forall>nxt ctx w. ctx_topic ctx = VStr t \<and> ctx_headers ctx = hs \<longrightarrow>
     (\<exists>ctx1 w1. ctx_topic ctx1 = VStr t \<and> ctx_headers ctx1 = hs \<and> ctx_request ctx1 = ctx_request ctx \<and>
        (\<forall>ctx' w'. nxt (ctx1, w1) = (Inr (), (ctx', w')) \<longrightarrow>
           (\<exists>ctx'' w''. m nxt (ctx, w) = (Inr (), (ctx'', w'')) \<and> ctx_result ctx'' = ctx_result ctx'))))"

definition answers_with :: "string \<Rightarrow> pydict \<Rightarrow> (result \<Rightarrow> bool) \<Rightarrow> 'w step \<Rightarrow> bool" where
  "answers_with t hs P st \<longleftrightarrow>
     (\<forall>ctx w. ctx_topic ctx = VStr t \<and> ctx_headers ctx = hs \<and> ctx_request ctx = VDict [] \<longrightarrow>
        (\<exists>ctx' w' r. st (ctx, w) = (Inr (), (ctx', w')) \<and> ctx_result ctx' = Some r \<and> P r))"

lemma transparent_answers: "transparent t hs m \<Longrightarrow> answers_with t hs P st \<Longrightarrow> answers_with t hs P (m st)"
  unfolding transparent_def answers_with_def by metis

lemma pipeline_answers:
  assumes "\<forall>m \<in> set before. transparent t hs m" "\<And>nxt. answers_with t hs P (m nxt)"
  shows "answers_with t hs P (pipeline_handle (before @ m # after))"
  using assms(1) by (induction before) (simp_all add: assms(2) transparent_answers)

lemma untouched_transparent:
  "(\<And>nxt ctx w. ctx_topic ctx = VStr t \<Longrightarrow> m nxt (ctx, w) = nxt (ctx, w)) \<Longrightarrow> transparent t hs m"
  unfolding transparent_def by metis

lemma health_transparent: "t \<notin> set (HEALTH_TOPIC # aliases) \<Longrightarrow> transparent t hs (health_interception cs aliases)"
  by (rule untouched_transparent) (auto simp: health_interception_def)

definition health_answer :: "'w health_checks \<Rightarrow> result \<Rightarrow> bool" where
  "health_answer cs r \<longleftrightarrow> (\<exists>rep. r = ok (report_to_payload rep) \<and> dict_keys (hr_checks rep) = dict_keys cs \<and>
     serializable (report_to_payload rep) \<and> (hr_is_healthy rep \<longleftrightarrow> (\<forall>x \<in> snd ` set (hr_checks rep). hc_status x \<noteq> ''failed'')))"

lemma health_answers:
  assumes "\<forall>(n, check) \<in> set cs. check_ok check"
  shows "answers_with HEALTH_TOPIC hs (health_answer cs) (health_interception cs aliases nxt)"
  unfolding answers_with_def
proof (intro allI impI)
  fix ctx :: message_context and w
  assume t: "ctx_topic ctx = VStr HEALTH_TOPIC \<and> ctx_headers ctx = hs \<and> ctx_request ctx = VDict []"
  obtain rep w' where "health_run cs w = (Inr rep, w')" "health_answer cs (ok (report_to_payload rep))"
    using health_run_total [OF assms, of w] by (auto simp: health_answer_def)
  then show "\<exists>ctx' w' r. health_interception cs aliases nxt (ctx, w) = (Inr (), (ctx', w')) \<and>
      ctx_result ctx' = Some r \<and> health_answer cs r"
    using t by (auto simp: health_interception_def set_result_of_def)
qed

lemma spec_answers:
  "answers_with SPEC_TOPIC hs (\<lambda>r. r = ok (VDict payload)) (spec_interception payload aliases nxt)"
  using spec_answered(2) [of _ SPEC_TOPIC aliases payload nxt] by (auto simp: answers_with_def set_result_of_def)

text \<open>
  A message with a topic and headers only, through the application. Its headers are in the form the
  application gives them, with names in lower case and none twice, and name no version.
\<close>

definition plain_headers :: "'w application \<Rightarrow> pydict \<Rightarrow> bool" where
  "plain_headers app hs \<longleftrightarrow> lower_keys hs = hs \<and> resolve_version hs (app_version_header app) = VStr []"

lemma application_answers:
  assumes "answers_with t hs P (pipeline_handle (app_pipeline app))" "t \<noteq> []" "plain_headers app hs"
  shows "\<exists>r w'. P r \<and> app_handle app [(''topic'', VStr t), (''headers'', VDict hs)] ignore w = (encode_response (Some r), w')"
proof -
  let ?ctx = "(mk_context (VStr t) (VDict []) hs create_scope (VStr []))\<lparr>ctx_ignore_unmatched_topic := ignore\<rparr>"
  have l: "lower_keys hs = hs" "resolve_version hs (app_version_header app) = VStr []"
    using assms(3) by (simp_all add: plain_headers_def)
  have "ctx_topic ?ctx = VStr t \<and> ctx_headers ?ctx = hs \<and> ctx_request ?ctx = VDict []" by (simp add: mk_context_def l)
  then obtain ctx' w' r where r: "pipeline_handle (app_pipeline app) (?ctx, w) = (Inr (), (ctx', w'))"
      "ctx_result ctx' = Some r" "P r"
    using assms(1) unfolding answers_with_def by blast
  have "v_or (VDict hs) (VDict []) = VDict hs" by (simp add: v_or_def)
  then have "app_handle app [(''topic'', VStr t), (''headers'', VDict hs)] ignore w = (encode_response (Some r), w')"
    using r assms(2) by (auto simp: app_handle_def v_or_def [of "VStr _"] v_or_def [of VNone] l Let_def split: sum.split)
  with r(3) show ?thesis by blast
qed

section \<open>The reserved topics of a built application\<close>

text \<open>
  The startup's own middleware is in order when each is either a marked health interception, on checks that
  meet their contract and that leaves \<open>benzene:spec\<close> alone, or is transparent for both reserved topics with the headers of the message.
\<close>

definition checks_ok :: "'w health_checks \<Rightarrow> bool" where
  "checks_ok cs \<longleftrightarrow> (\<forall>(n, check) \<in> set cs. check_ok check)"

definition own_ok :: "pydict \<Rightarrow> 'w marked \<Rightarrow> bool" where
  "own_ok hs m \<longleftrightarrow> (if intercepts_health m
     then \<exists>cs aliases. snd m = health_interception cs aliases \<and> checks_ok cs \<and> SPEC_TOPIC \<notin> set aliases
     else transparent HEALTH_TOPIC hs (snd m) \<and> transparent SPEC_TOPIC hs (snd m))"

lemma application_from_Inr:
  assumes "application_from rf ct ad = Inr app"
  obtains reg document spec where "handler_registry ad = Inr reg" "app_contract_document rf ad = Inr document"
    "spec_middleware rf document = Inr spec"
    "app_pipeline app = map snd (ad_middleware ad @ health_middleware ad) @ spec @ [message_router ct reg exact_version]"
  using assms by (auto simp: application_from_def and_then_def new_application_def pipeline_use_def Let_def
      split: sum.splits if_splits)

lemma own_answers_health:
  fixes ms :: "'w marked list"
  assumes "\<forall>m \<in> set ms. own_ok hs m" "list_ex intercepts_health ms"
  shows "\<exists>cs :: 'w health_checks. checks_ok cs \<and>
    answers_with HEALTH_TOPIC hs (health_answer cs) (pipeline_handle (map snd ms @ after))"
  using assms
proof (induction ms)
  case (Cons m ms)
  show ?case
  proof (cases "intercepts_health m")
    case True
    then obtain cs aliases where "snd m = health_interception cs aliases" "checks_ok cs"
      using Cons.prems by (auto simp: own_ok_def)
    then have "answers_with HEALTH_TOPIC hs (health_answer cs) (pipeline_handle (map snd (m # ms) @ after))"
      using health_answers [of cs hs] by (simp add: checks_ok_def)
    with \<open>checks_ok cs\<close> show ?thesis by blast
  next
    case False
    then have "transparent HEALTH_TOPIC hs (snd m)" using Cons.prems by (simp add: own_ok_def)
    moreover have "\<exists>cs :: 'w health_checks. checks_ok cs \<and>
        answers_with HEALTH_TOPIC hs (health_answer cs) (pipeline_handle (map snd ms @ after))"
      using Cons False by simp
    ultimately show ?thesis using transparent_answers by fastforce
  qed
qed simp

lemma application_health:
  fixes ad :: "'w app_definition"
  assumes app: "application_from rf ct ad = Inr app" and own: "\<forall>m \<in> set (ad_middleware ad). own_ok hs m"
    and checks: "\<And>cs. declared_checks ad = Some cs \<Longrightarrow> checks_ok cs"
    and provisioned: "declared_checks ad \<noteq> None \<or> list_ex intercepts_health (ad_middleware ad)"
  shows "\<exists>cs :: 'w health_checks. (list_ex intercepts_health (ad_middleware ad) \<or> declared_checks ad = Some cs) \<and>
    answers_with HEALTH_TOPIC hs (health_answer cs) (pipeline_handle (app_pipeline app))"
proof -
  obtain reg spec where p: "app_pipeline app =
      map snd (ad_middleware ad @ health_middleware ad) @ spec @ [message_router ct reg exact_version]"
    using app by (rule application_from_Inr)
  show ?thesis
  proof (cases "list_ex intercepts_health (ad_middleware ad)")
    case True
    then show ?thesis unfolding p using own_answers_health [OF own] by fastforce
  next
    case False
    then obtain cs where cs: "declared_checks ad = Some cs" using provisioned by blast
    have "\<forall>m \<in> set (map snd (ad_middleware ad)). transparent HEALTH_TOPIC hs m"
      using own False by (fastforce simp: list_ex_iff own_ok_def)
    from pipeline_answers [where m = "health_interception cs []", OF this health_answers] checks [OF cs]
    have "answers_with HEALTH_TOPIC hs (health_answer cs) (pipeline_handle (app_pipeline app))"
      by (simp add: p health_middleware_def cs False marked_health_def checks_ok_def)
    with cs show ?thesis by blast
  qed
qed

lemma own_transparent_spec:
  assumes "own_ok hs m"
  shows "transparent SPEC_TOPIC hs (snd m)"
proof (cases "intercepts_health m")
  case True
  then obtain cs aliases where "snd m = health_interception cs aliases" "SPEC_TOPIC \<notin> set aliases"
    using assms by (auto simp: own_ok_def)
  then show ?thesis using health_transparent [of SPEC_TOPIC aliases hs cs] by (simp add: SPEC_TOPIC_def HEALTH_TOPIC_def)
qed (use assms in \<open>simp add: own_ok_def\<close>)

lemma application_spec:
  assumes app: "application_from rf ct ad = Inr app" and own: "\<forall>m \<in> set (ad_middleware ad). own_ok hs m"
    and contract: "ad_contract ad = Some info"
  shows "\<exists>doc payload. app_contract_document rf ad = Inr (Some doc) \<and> to_payload (rf_jcs rf) (rf_sha256 rf) doc = Inr payload \<and>
    answers_with SPEC_TOPIC hs (\<lambda>r. r = ok (VDict payload)) (pipeline_handle (app_pipeline app))"
proof -
  obtain reg document spec where p: "app_contract_document rf ad = Inr document" "spec_middleware rf document = Inr spec"
      "app_pipeline app = map snd (ad_middleware ad @ health_middleware ad) @ spec @ [message_router ct reg exact_version]"
    using app by (rule application_from_Inr)
  obtain doc where d: "document = Some doc"
    using p(1) contract by (auto simp: app_contract_document_def and_then_def split: sum.splits)
  obtain payload where payload: "to_payload (rf_jcs rf) (rf_sha256 rf) doc = Inr payload" "spec = [spec_interception payload []]"
    using p(2) by (auto simp: d spec_middleware_def and_then_def split: sum.splits)
  have "transparent SPEC_TOPIC hs (snd m)" if "m \<in> set (health_middleware ad)" for m
    using that health_transparent [of SPEC_TOPIC "[]" hs]
    by (auto simp: health_middleware_def marked_health_def SPEC_TOPIC_def HEALTH_TOPIC_def split: option.splits if_splits)
  then have "\<forall>m \<in> set (map snd (ad_middleware ad @ health_middleware ad)). transparent SPEC_TOPIC hs m"
    using own own_transparent_spec by (fastforce simp: image_iff)
  from pipeline_answers [where m = "spec_interception payload []", OF this spec_answers, of "[message_router ct reg exact_version]"]
  show ?thesis using p(1) d payload by (simp add: p(3))
qed

end
