(* ===== verification/Profile.thy ===== *)
theory Profile
  imports Startup
begin

text \<open>
  \<open>benzene.mesh.profile\<close>: the self-assessment of an application definition against the Cloud Service Profile
  (R1 to R5 and R7) and the meshed-service claim (M1, M2), and that a definition that passes it is built into an
  application that has what the profile promises. Dashes in the reasons are written in ASCII.
\<close>

section \<open>The report\<close>

definition PROFILE_NAME :: string where "PROFILE_NAME = ''cloud-service''"
definition PROFILE_PREFIX :: string where "PROFILE_PREFIX = ''/benzene''"
definition REQUIREMENT_IDS :: "string list" where "REQUIREMENT_IDS = [''R1'', ''R2'', ''R3'', ''R4'', ''R5'', ''R7'']"
definition MESH_REQUIREMENT_IDS :: "string list" where "MESH_REQUIREMENT_IDS = [''M1'', ''M2'']"

record requirement_check =
  rq_id :: string
  rq_satisfied :: bool
  rq_reason :: string

record profile_report =
  pr_checks :: "requirement_check list"
  pr_mesh :: "requirement_check list"
  pr_name :: string

definition mk_report :: "requirement_check list \<Rightarrow> requirement_check list \<Rightarrow> string \<Rightarrow> profile_report outcome" where
  "mk_report checks mesh name =
     (if map rq_id checks \<noteq> REQUIREMENT_IDS then
        Inl (PyException ''ValueError'' (''expected checks for '' @ repr_val (VTuple (map VStr REQUIREMENT_IDS))
          @ '', got '' @ repr_val (VTuple (map (VStr \<circ> rq_id) checks))))
      else if map rq_id mesh \<noteq> MESH_REQUIREMENT_IDS then
        Inl (PyException ''ValueError'' (''expected mesh checks for '' @ repr_val (VTuple (map VStr MESH_REQUIREMENT_IDS))
          @ '', got '' @ repr_val (VTuple (map (VStr \<circ> rq_id) mesh))))
      else Inr \<lparr>pr_checks = checks, pr_mesh = mesh, pr_name = name\<rparr>)"

definition unmet :: "requirement_check list \<Rightarrow> string list" where
  "unmet checks = map rq_id (filter (\<lambda>c. \<not> rq_satisfied c) checks)"

definition profile_missing :: "profile_report \<Rightarrow> string list" where
  "profile_missing r = unmet (pr_checks r)"

definition is_conformant :: "profile_report \<Rightarrow> bool" where
  "is_conformant r = (profile_missing r = [])"

definition mesh_missing :: "profile_report \<Rightarrow> string list" where
  "mesh_missing r = unmet (pr_mesh r)"

definition is_meshed :: "profile_report \<Rightarrow> bool" where
  "is_meshed r = (is_conformant r \<and> mesh_missing r = [])"

definition reason_of :: "profile_report \<Rightarrow> string \<Rightarrow> string outcome" where
  "reason_of r rid = (case find (\<lambda>c. rq_id c = rid) (pr_checks r @ pr_mesh r) of
     Some c \<Rightarrow> Inr (rq_reason c)
   | None \<Rightarrow> Inl (PyException ''KeyError'' (repr_str rid)))"

definition to_profile :: "profile_report \<Rightarrow> pydict" where
  "to_profile r = [(''name'', VStr (pr_name r))] @ some_texts ''missing'' (profile_missing r)"

section \<open>The assessment\<close>

definition application_topics :: "'w app_definition \<Rightarrow> string list" where
  "application_topics ad = (case ad_registry ad of
     Some reg \<Rightarrow> map hd_topic (definitions reg)
   | None \<Rightarrow> (case ad_router ad of None \<Rightarrow> [] | Some r \<Rightarrow> map hd_topic (router_definitions r)))"

definition has_http :: "'w app_definition \<Rightarrow> bool" where
  "has_http ad = (ad_standard_paths ad \<noteq> None)"

definition has_http_surface :: "'w app_definition \<Rightarrow> bool" where
  "has_http_surface ad = (has_http ad \<or> ad_router ad \<noteq> None)"

definition runnable :: "'w app_definition \<Rightarrow> bool" where
  "runnable ad = (ad_registry ad \<noteq> None \<or> ad_router ad \<noteq> None)"

definition has_document :: "'w app_definition \<Rightarrow> bool" where
  "has_document ad = (ad_contract ad \<noteq> None)"

definition check_R1 :: "'w app_definition \<Rightarrow> requirement_check" where
  "check_R1 ad = \<lparr>rq_id = ''R1'', rq_satisfied = runnable ad,
     rq_reason = (if runnable ad then ''registry/router present - a pipeline is hostable''
       else ''no registry or router: nothing for a transport to host'')\<rparr>"

definition check_R2 :: "'w app_definition \<Rightarrow> requirement_check" where
  "check_R2 ad = (let app_topics = filter (\<lambda>t. \<not> is_reserved_topic t) (application_topics ad) in
     \<lparr>rq_id = ''R2'', rq_satisfied = app_topics \<noteq> [],
      rq_reason = (if app_topics \<noteq> [] then nat_text (length app_topics) @ '' application topic(s) registered''
        else ''no non-reserved topics registered'')\<rparr>)"

definition check_R3 :: "'w app_definition \<Rightarrow> requirement_check" where
  "check_R3 ad = (let http_health = (declared_checks ad \<noteq> None);
       intercepted = (http_health \<or> list_ex intercepts_health (ad_middleware ad));
       health_route = (\<not> has_http_surface ad \<or> http_health);
       r3 = (intercepted \<and> health_route)
     in \<lparr>rq_id = ''R3'', rq_satisfied = r3,
         rq_reason = (if r3 then ''health checks provisioned: the pipeline answers benzene:healthcheck''
             @ (if has_http_surface ad then '', and /benzene/health serves the aggregate'' else [])
           else if \<not> intercepted then
             ''nothing intercepts benzene:healthcheck (install health_interception(checks), or ''
             @ ''declare StandardPaths(health=checks) where there is an HTTP surface)''
           else ''the service has an HTTP surface but /benzene/health is not provisioned ''
             @ ''(standard_paths=StandardPaths(health=checks))'')\<rparr>)"

definition check_R4 :: "'w app_definition \<Rightarrow> requirement_check" where
  "check_R4 ad = (let invoke = (case ad_standard_paths ad of None \<Rightarrow> False | Some p \<Rightarrow> sp_invoke p);
       r4 = (runnable ad \<and> (\<not> has_http ad \<or> invoke))
     in \<lparr>rq_id = ''R4'', rq_satisfied = r4,
         rq_reason = (if r4 then ''envelope-invocable'' @ (if has_http ad then '' (/benzene/invoke enabled)'' else [])
           else ''the HTTP invoke endpoint is disabled'')\<rparr>)"

definition check_R5 :: "'w app_definition \<Rightarrow> requirement_check" where
  "check_R5 ad = (let spec_route = (\<not> has_http_surface ad \<or> (case ad_standard_paths ad of None \<Rightarrow> False | Some p \<Rightarrow> sp_spec p));
       r5 = (has_document ad \<and> spec_route)
     in \<lparr>rq_id = ''R5'', rq_satisfied = r5,
         rq_reason = (if r5 then ''derived spec provisioned: the pipeline answers benzene:spec with the Contract Document ''
             @ ''wherever the transport carries a reply'' @ (if has_http_surface ad then '', and /benzene/spec routes to it'' else [])
           else if \<not> has_document ad then
             ''no ContractInfo on the AppDefinition: benzene:spec has no derived document to answer ''
             @ ''with (declare AppDefinition(contract=ContractInfo(...)))''
           else ''the service has an HTTP surface but /benzene/spec is not provisioned ''
             @ ''(standard_paths=StandardPaths(spec=True))'')\<rparr>)"

definition check_R7 :: "'w app_definition \<Rightarrow> requirement_check" where
  "check_R7 ad = (let prefix = map_option sp_prefix (ad_standard_paths ad);
       r7 = (\<not> has_http_surface ad \<or> prefix = Some PROFILE_PREFIX)
     in \<lparr>rq_id = ''R7'', rq_satisfied = r7,
         rq_reason = (if r7 then (if has_http_surface ad then ''standard paths under the default /benzene/ prefix''
             else ''no HTTP surface: there are no well-known HTTP surfaces to place'')
           else (case prefix of Some p \<Rightarrow> ''standard paths relocated to '' @ repr_str p
             | None \<Rightarrow> ''the service has an HTTP surface but no standard_paths: the well-known surfaces are absent''))\<rparr>)"

definition mesh_checks :: "'w app_definition \<Rightarrow> bool \<Rightarrow> bool \<Rightarrow> requirement_check list" where
  "mesh_checks ad mesh_feeds trace_propagation = (let m1 = (mesh_feeds \<and> has_document ad) in
     [\<lparr>rq_id = ''M1'', rq_satisfied = m1,
       rq_reason = (if m1 then ''registration (the Contract Document), heartbeats and traces declared provisioned''
         else if mesh_feeds then ''mesh feeds declared, but there is no Contract Document to register ''
           @ ''(declare AppDefinition(contract=ContractInfo(...)))''
         else ''mesh feeds not declared (pass mesh_feeds=True when registration/heartbeats/traces are wired)'')\<rparr>,
      \<lparr>rq_id = ''M2'', rq_satisfied = trace_propagation,
       rq_reason = (if trace_propagation then ''trace propagation declared''
         else ''trace propagation not declared (pass trace_propagation=True when clients forward traceparent)'')\<rparr>])"

definition evaluate_cloud_service_profile :: "'w app_definition \<Rightarrow> bool \<Rightarrow> bool \<Rightarrow> profile_report outcome" where
  "evaluate_cloud_service_profile ad mesh_feeds trace_propagation =
     mk_report [check_R1 ad, check_R2 ad, check_R3 ad, check_R4 ad, check_R5 ad, check_R7 ad]
       (mesh_checks ad mesh_feeds trace_propagation) PROFILE_NAME"

definition declare_cloud_service_profile :: "'w app_definition \<Rightarrow> 'w app_definition outcome" where
  "declare_cloud_service_profile ad = (case ad_contract ad of
     None \<Rightarrow> Inr ad
   | Some info \<Rightarrow> and_then (evaluate_cloud_service_profile ad False False) (\<lambda>report.
       Inr (ad\<lparr>ad_contract := Some (info\<lparr>info_profile := Some (to_profile report)\<rparr>)\<rparr>)))"

section \<open>The assessment is honest\<close>

lemma check_ids:
  "rq_id (check_R1 ad) = ''R1''" "rq_id (check_R2 ad) = ''R2''" "rq_id (check_R3 ad) = ''R3''"
  "rq_id (check_R4 ad) = ''R4''" "rq_id (check_R5 ad) = ''R5''" "rq_id (check_R7 ad) = ''R7''"
  "map rq_id (mesh_checks ad feeds trace) = MESH_REQUIREMENT_IDS"
  unfolding check_R1_def check_R2_def check_R3_def check_R4_def check_R5_def check_R7_def mesh_checks_def Let_def
    MESH_REQUIREMENT_IDS_def requirement_check.simps list.map by (rule refl)+

lemma check_verdicts:
  "rq_satisfied (check_R1 ad) \<longleftrightarrow> runnable ad"
  "rq_satisfied (check_R2 ad) \<longleftrightarrow> filter (\<lambda>t. \<not> is_reserved_topic t) (application_topics ad) \<noteq> []"
  "rq_satisfied (check_R3 ad) \<longleftrightarrow> (declared_checks ad \<noteq> None \<or> list_ex intercepts_health (ad_middleware ad)) \<and>
     (\<not> has_http_surface ad \<or> declared_checks ad \<noteq> None)"
  "rq_satisfied (check_R4 ad) \<longleftrightarrow> runnable ad \<and>
     (\<not> has_http ad \<or> (case ad_standard_paths ad of None \<Rightarrow> False | Some p \<Rightarrow> sp_invoke p))"
  "rq_satisfied (check_R5 ad) \<longleftrightarrow> has_document ad \<and>
     (\<not> has_http_surface ad \<or> (case ad_standard_paths ad of None \<Rightarrow> False | Some p \<Rightarrow> sp_spec p))"
  "rq_satisfied (check_R7 ad) \<longleftrightarrow> \<not> has_http_surface ad \<or> map_option sp_prefix (ad_standard_paths ad) = Some PROFILE_PREFIX"
  unfolding check_R1_def check_R2_def check_R3_def check_R4_def check_R5_def check_R7_def Let_def
    requirement_check.simps by (rule refl)+

lemma evaluate_Inr:
  "evaluate_cloud_service_profile ad feeds trace = Inr \<lparr>pr_checks =
     [check_R1 ad, check_R2 ad, check_R3 ad, check_R4 ad, check_R5 ad, check_R7 ad],
     pr_mesh = mesh_checks ad feeds trace, pr_name = PROFILE_NAME\<rparr>"
  by (simp add: evaluate_cloud_service_profile_def mk_report_def REQUIREMENT_IDS_def check_ids)

lemma conformant_iff:
  assumes "evaluate_cloud_service_profile ad feeds trace = Inr report"
  shows "is_conformant report \<longleftrightarrow> runnable ad \<and> (\<exists>t \<in> set (application_topics ad). \<not> is_reserved_topic t) \<and>
       (declared_checks ad \<noteq> None \<or> list_ex intercepts_health (ad_middleware ad)) \<and> has_document ad \<and>
       (has_http_surface ad \<longrightarrow> (\<exists>paths cs. ad_standard_paths ad = Some paths \<and> sp_health paths = Some cs \<and>
          sp_invoke paths \<and> sp_spec paths \<and> sp_prefix paths = PROFILE_PREFIX))"
proof -
  have "is_conformant report \<longleftrightarrow> rq_satisfied (check_R1 ad) \<and> rq_satisfied (check_R2 ad) \<and> rq_satisfied (check_R3 ad) \<and>
      rq_satisfied (check_R4 ad) \<and> rq_satisfied (check_R5 ad) \<and> rq_satisfied (check_R7 ad)"
    using assms by (auto simp: evaluate_Inr is_conformant_def profile_missing_def unmet_def filter_empty_conv simp del: filter.simps)
  then show ?thesis unfolding check_verdicts
    by (cases "ad_standard_paths ad") (auto simp: declared_checks_def has_http_def has_http_surface_def filter_empty_conv)
qed

text \<open>Declaring the self-check does not change its verdict, so the document states the verdict on the definition that serves it.\<close>

lemma declared_profile:
  assumes "declare_cloud_service_profile ad = Inr ad'" "ad_contract ad = Some info"
  shows "\<exists>report. evaluate_cloud_service_profile ad' False False = Inr report \<and>
    evaluate_cloud_service_profile ad False False = Inr report \<and>
    ad_contract ad' = Some (info\<lparr>info_profile := Some (to_profile report)\<rparr>)"
proof -
  obtain i where i: "ad' = ad\<lparr>ad_contract := Some i\<rparr>" using assms by (auto simp: declare_cloud_service_profile_def evaluate_Inr)
  have same: "runnable ad' = runnable ad" "application_topics ad' = application_topics ad" "declared_checks ad' = declared_checks ad"
      "ad_middleware ad' = ad_middleware ad" "ad_standard_paths ad' = ad_standard_paths ad" "has_document ad' = has_document ad"
      "has_http ad' = has_http ad" "has_http_surface ad' = has_http_surface ad"
    using assms(2) by (simp_all add: i runnable_def application_topics_def declared_checks_def has_document_def has_http_surface_def has_http_def split: option.split)
  have "evaluate_cloud_service_profile ad' False False = evaluate_cloud_service_profile ad False False"
    unfolding evaluate_cloud_service_profile_def check_R1_def check_R2_def check_R3_def check_R4_def check_R5_def check_R7_def
      mesh_checks_def same by (rule refl)
  then show ?thesis using assms by (auto simp: declare_cloud_service_profile_def evaluate_Inr)
qed

lemma application_topics_served:
  assumes "handler_registry ad = Inr reg" "t \<in> set (application_topics ad)"
  shows "\<exists>d \<in> set (definitions reg). hd_topic d = t"
proof (cases "ad_registry ad")
  case None
  then obtain r d where d: "ad_router ad = Some r" "d \<in> set (router_definitions r)" "hd_topic d = t"
    using assms(2) by (cases "ad_router ad") (auto simp: application_topics_def)
  then have "add_all add_definition (router_definitions r) [] = Inr reg"
    using assms(1) None by (simp add: handler_registry_def)
  then have "dict_get reg (hd_key d) = Some d" using handlers.add_all_finds d(2) by blast
  then have "d \<in> set (definitions reg)" by (force simp: definitions_def dict_values_def dest: map_of_SomeD)
  with d(3) show ?thesis by blast
qed (use assms in \<open>auto simp: handler_registry_def application_topics_def\<close>)

lemma paths_routed:
  assumes "sp_health paths = Some cs" "sp_invoke paths" "sp_spec paths" "sp_prefix paths = PROFILE_PREFIX"
  shows "handle_standard app paths ''POST'' ''/benzene/invoke'' query headers body = Some (handle_invoke app paths body)"
    "handle_standard app paths ''GET'' ''/benzene/health'' query headers body = Some (handle_health cs)"
    "handle_standard app paths ''GET'' ''/benzene/spec'' query headers body = Some (handle_spec app query headers)"
proof -
  have v: "py_upper ''POST'' = ''POST''" "py_upper ''GET'' = ''GET''" by code_simp+
  have p: "invoke_path paths = ''/benzene/invoke''" "health_path paths = ''/benzene/health''" "spec_path paths = ''/benzene/spec''"
    by (simp_all add: invoke_path_def health_path_def spec_path_def PROFILE_PREFIX_def assms)
  show "handle_standard app paths ''POST'' ''/benzene/invoke'' query headers body = Some (handle_invoke app paths body)"
    "handle_standard app paths ''GET'' ''/benzene/health'' query headers body = Some (handle_health cs)"
    "handle_standard app paths ''GET'' ''/benzene/spec'' query headers body = Some (handle_spec app query headers)"
    by (simp_all add: handle_standard_def v p assms)
qed

text \<open>
  C34. The self-check is honest. When an application definition conforms to the profile by its own assessment, and the middleware
  the startup installed lets the reserved topics through with the headers of the message, the application built from it answers a health message with a
  complete report on the declared checks (or on those of a health interception of its own) and a spec message with its Contract Document; it serves a handler of its own; and where it has an HTTP surface, the invoke,
  health and spec paths are routed at their well-known places. This holds whatever the definition declares besides.
\<close>

theorem conformant_service:
  fixes ad :: "'w app_definition"
  assumes app: "application_from rf ct ad = Inr app"
    and report: "evaluate_cloud_service_profile ad feeds trace = Inr report" "is_conformant report"
    and own: "\<forall>m \<in> set (ad_middleware ad). own_ok hs m" "\<And>cs. declared_checks ad = Some cs \<Longrightarrow> checks_ok cs"
    and message: "plain_headers app hs"
  shows "(\<exists>(cs :: 'w health_checks) r w'. (list_ex intercepts_health (ad_middleware ad) \<or> declared_checks ad = Some cs) \<and> health_answer cs r \<and>
        app_handle app [(''topic'', VStr HEALTH_TOPIC), (''headers'', VDict hs)] ignore w = (encode_response (Some r), w')) \<and>
    (\<exists>doc payload w'. app_contract_document rf ad = Inr (Some doc) \<and> to_payload (rf_jcs rf) (rf_sha256 rf) doc = Inr payload \<and>
        app_handle app [(''topic'', VStr SPEC_TOPIC), (''headers'', VDict hs)] ignore w = (encode_response (Some (ok (VDict payload))), w')) \<and>
    (\<exists>reg. handler_registry ad = Inr reg \<and> (\<exists>d \<in> set (definitions reg). \<not> is_reserved_topic (hd_topic d))) \<and>
    (has_http_surface ad \<longrightarrow> (\<exists>paths cs. ad_standard_paths ad = Some paths \<and>
        handle_standard app paths ''POST'' ''/benzene/invoke'' query headers body = Some (handle_invoke app paths body) \<and>
        handle_standard app paths ''GET'' ''/benzene/health'' query headers body = Some (handle_health cs) \<and>
        handle_standard app paths ''GET'' ''/benzene/spec'' query headers body = Some (handle_spec app query headers)))"
proof (intro conjI)
  note c = conformant_iff [OF report(1), THEN iffD1, OF report(2)]
  have names: "HEALTH_TOPIC \<noteq> []" "SPEC_TOPIC \<noteq> []" by (simp_all add: HEALTH_TOPIC_def SPEC_TOPIC_def)
  obtain cs :: "'w health_checks" where cs: "list_ex intercepts_health (ad_middleware ad) \<or> declared_checks ad = Some cs"
      "answers_with HEALTH_TOPIC hs (health_answer cs) (pipeline_handle (app_pipeline app))"
    using application_health [OF app own] c by blast
  from application_answers [OF cs(2) names(1) message] cs(1)
  show "\<exists>(cs :: 'w health_checks) r w'. (list_ex intercepts_health (ad_middleware ad) \<or> declared_checks ad = Some cs) \<and> health_answer cs r \<and>
      app_handle app [(''topic'', VStr HEALTH_TOPIC), (''headers'', VDict hs)] ignore w = (encode_response (Some r), w')" by blast
  obtain info where "ad_contract ad = Some info" using c by (auto simp: has_document_def)
  from application_spec [OF app own(1) this] obtain doc payload where d: "app_contract_document rf ad = Inr (Some doc)"
      "to_payload (rf_jcs rf) (rf_sha256 rf) doc = Inr payload"
      "answers_with SPEC_TOPIC hs (\<lambda>r. r = ok (VDict payload)) (pipeline_handle (app_pipeline app))"
    by blast
  from application_answers [OF d(3) names(2) message] d(1,2)
  show "\<exists>doc payload w'. app_contract_document rf ad = Inr (Some doc) \<and> to_payload (rf_jcs rf) (rf_sha256 rf) doc = Inr payload \<and>
      app_handle app [(''topic'', VStr SPEC_TOPIC), (''headers'', VDict hs)] ignore w = (encode_response (Some (ok (VDict payload))), w')" by blast
  obtain reg where "handler_registry ad = Inr reg" using app by (rule application_from_Inr)
  then show "\<exists>reg. handler_registry ad = Inr reg \<and> (\<exists>d \<in> set (definitions reg). \<not> is_reserved_topic (hd_topic d))"
    using application_topics_served c by metis
  show "has_http_surface ad \<longrightarrow> (\<exists>paths cs. ad_standard_paths ad = Some paths \<and>
      handle_standard app paths ''POST'' ''/benzene/invoke'' query headers body = Some (handle_invoke app paths body) \<and>
      handle_standard app paths ''GET'' ''/benzene/health'' query headers body = Some (handle_health cs) \<and>
      handle_standard app paths ''GET'' ''/benzene/spec'' query headers body = Some (handle_spec app query headers))"
  proof
    assume "has_http_surface ad"
    then obtain paths cs where paths: "ad_standard_paths ad = Some paths" "sp_health paths = Some cs" "sp_invoke paths" "sp_spec paths"
        "sp_prefix paths = PROFILE_PREFIX" using c by blast
    note r = paths_routed [OF paths(2-5), of app query headers body]
    show "\<exists>paths cs. ad_standard_paths ad = Some paths \<and>
      handle_standard app paths ''POST'' ''/benzene/invoke'' query headers body = Some (handle_invoke app paths body) \<and>
      handle_standard app paths ''GET'' ''/benzene/health'' query headers body = Some (handle_health cs) \<and>
      handle_standard app paths ''GET'' ''/benzene/spec'' query headers body = Some (handle_spec app query headers)"
      by (rule exI [of _ paths], rule exI [of _ cs]) (intro conjI paths(1) r)
  qed
qed

text \<open>A service with one handler, a health check that fails and the standard paths.\<close>

definition stock_reflection :: reflection where
  "stock_reflection = \<lparr>rf_classes = stock_classes, rf_annotation_of = (\<lambda>t. TNamed (type_name t)), rf_jcs = (\<lambda>_. Inr []), rf_sha256 = (\<lambda>_. [])\<rparr>"

definition stock_checks :: "unit health_checks" where
  "stock_checks = [(''db'', act_raise (PyException ''OSError'' ''down''))]"

definition stock_service :: "unit app_definition" where
  "stock_service = \<lparr>ad_registry = Some [((''stock:take'', []), \<lparr>hd_topic = ''stock:take'', hd_handler = (\<lambda>_. act_return None), hd_version = [],
       hd_request_type = Some (TClass ''stock.Item''), hd_response_type = None, hd_is_default = False\<rparr>)],
     ad_router = None, ad_middleware = [], ad_standard_paths = Some \<lparr>sp_prefix = PROFILE_PREFIX, sp_invoke = True, sp_invoke_topics = None,
       sp_health = Some stock_checks, sp_spec = True\<rparr>,
     ad_outbound = None, ad_contract = Some stock_info, ad_metadata_keys = DEFAULT_METADATA_KEYS\<rparr>"

definition stock_app :: "unit application outcome" where
  "stock_app = application_from stock_reflection (\<lambda>_ _. Inr VNone, \<lambda>_ _. Inr VNone) stock_service"

theorem conformant_service_witness:
  "\<exists>app r w'. stock_app = Inr app \<and> health_answer stock_checks r \<and>
     app_handle app [(''topic'', VStr HEALTH_TOPIC), (''headers'', VDict [])] False () = (encode_response (Some r), w')"
proof -
  have "case stock_app of Inl _ \<Rightarrow> False | Inr _ \<Rightarrow> True" by code_simp
  then obtain app where app: "stock_app = Inr app" by (auto split: sum.splits)
  have checks: "declared_checks stock_service = Some stock_checks"
    by (simp add: declared_checks_def stock_service_def)
  have ok: "checks_ok stock_checks"
    by (simp add: stock_checks_def checks_ok_def check_ok_def act_raise_def)
  have plain: "plain_headers app []" by (simp add: plain_headers_def lower_keys_def dict_of_def resolve_version_def v_or_def)
  have own: "ad_middleware stock_service = []" by (simp add: stock_service_def)
  let ?report = "\<lparr>pr_checks = [check_R1 stock_service, check_R2 stock_service, check_R3 stock_service, check_R4 stock_service,
    check_R5 stock_service, check_R7 stock_service], pr_mesh = mesh_checks stock_service False False, pr_name = PROFILE_NAME\<rparr>"
  have "is_conformant ?report" by code_simp
  from conjunct1 [OF conformant_service [OF app [unfolded stock_app_def] evaluate_Inr this, of "[]" False "()"]]
  obtain cs r w' where "declared_checks stock_service = Some cs" "health_answer cs r"
      "app_handle app [(''topic'', VStr HEALTH_TOPIC), (''headers'', VDict [])] False () = (encode_response (Some r), w')"
    using checks ok own plain by fastforce
  then show ?thesis using checks app by auto
qed

end
