(* ===== verification/Trace.thy ===== *)
theory Trace
  imports Profile
begin

text \<open>
  \<open>benzene.mesh.trace\<close>: one event for each invocation, in a W3C trace that is joined from the \<open>traceparent\<close>
  header and forwarded by the outbound senders. The two context variables are the first fields of the world,
  a record whose extension is everything else; randomness, the wall clock (\<open>now\<close>, the instant in ISO form) and the
  performance counter are read from the world. Durations are exact rational numbers.
\<close>

section \<open>Trace context\<close>

record traced =
  tv_trace :: "(string \<times> string) option" \<comment> \<open>\<open>_CURRENT_TRACE\<close>: the trace and span of the invocation\<close>
  tv_tracestate :: "pyval option"          \<comment> \<open>\<open>_CURRENT_TRACESTATE\<close>\<close>

definition current_traceparent :: "'m traced_scheme \<Rightarrow> string option" where
  "current_traceparent w = (case tv_trace w of
     None \<Rightarrow> None
   | Some (trace_id, span_id) \<Rightarrow> Some (''00-'' @ trace_id @ ''-'' @ span_id @ ''-01''))"

definition current_tracestate :: "'m traced_scheme \<Rightarrow> pyval option" where
  "current_tracestate w = (if tv_trace w = None then None else tv_tracestate w)"

definition HEX_DIGITS :: string where "HEX_DIGITS = ''0123456789abcdef''"

definition is_hex :: "string \<Rightarrow> nat \<Rightarrow> bool" where
  "is_hex value n = (length value = n \<and> value \<noteq> [] \<and> list_all (\<lambda>c. c \<in> set HEX_DIGITS) value)"

definition all_zero :: "string \<Rightarrow> bool" where
  "all_zero s = (s \<noteq> [] \<and> list_all (\<lambda>c. c = CHR ''0'') s)"

text \<open>The header may be any decoded value; what is not a string has no \<open>split\<close>, or one that refuses a string.\<close>

definition parse_traceparent :: "pyval \<Rightarrow> (string \<times> string) option outcome" where
  "parse_traceparent header =
     (if \<not> truthy header then Inr None
      else (case header of
        VStr s \<Rightarrow> Inr (case py_split CHR ''-'' s of
            [version, trace_id, parent_id, flags] \<Rightarrow>
              if \<not> (is_hex version 2 \<and> is_hex trace_id 32 \<and> is_hex parent_id 16 \<and> is_hex flags 2) then None
              else if all_zero trace_id \<or> all_zero parent_id then None
              else Some (trace_id, parent_id)
          | _ \<Rightarrow> None)
      | VBytes _ \<Rightarrow> Inl (PyException ''TypeError'' ''a bytes-like object is required, not str'')
      | _ \<Rightarrow> Inl (PyException ''AttributeError'' ''object has no attribute split'')))"

definition hex_byte :: "nat \<Rightarrow> string" where
  "hex_byte b = [HEX_DIGITS ! (b div 16 mod 16), HEX_DIGITS ! (b mod 16)]"

definition hex_text :: "nat list \<Rightarrow> string" where
  "hex_text bytes = concat (map hex_byte bytes)"

type_synonym 'w entropy = "nat \<Rightarrow> 'w \<Rightarrow> nat list \<times> 'w"

definition new_trace_id :: "'w entropy \<Rightarrow> 'w \<Rightarrow> string \<times> 'w" where
  "new_trace_id urandom w = (let (bytes, w') = urandom 16 w in (hex_text bytes, w'))"

definition new_span_id :: "'w entropy \<Rightarrow> 'w \<Rightarrow> string \<times> 'w" where
  "new_span_id urandom w = (let (bytes, w') = urandom 8 w in (hex_text bytes, w'))"

section \<open>Events and exporters\<close>

record emitted_event =
  te_trace_id :: string
  te_span_id :: string
  te_service :: string
  te_topic :: pyval
  te_status :: string
  te_parent_span_id :: "string option"
  te_instance_id :: "string option"
  te_topic_version :: pyval
  te_exception_type :: "string option"
  te_duration_ms :: "rat option"
  te_started_at :: "string option"
  te_correlation_id :: pyval

text \<open>The wire form; \<open>float_text\<close> is the text Python writes for a float.\<close>

definition known :: "string \<Rightarrow> pyval \<Rightarrow> pydict" where
  "known key v = (if v = VNone then [] else [(key, v)])"

definition event_to_payload :: "(rat \<Rightarrow> string) \<Rightarrow> emitted_event \<Rightarrow> pydict" where
  "event_to_payload float_text e =
     [(''traceId'', VStr (te_trace_id e)), (''spanId'', VStr (te_span_id e)), (''service'', VStr (te_service e)),
      (''topic'', te_topic e), (''status'', VStr (te_status e))]
     @ known ''parentSpanId'' (opt_str (te_parent_span_id e)) @ known ''instanceId'' (opt_str (te_instance_id e))
     @ known ''topicVersion'' (te_topic_version e) @ known ''exceptionType'' (opt_str (te_exception_type e))
     @ known ''durationMs'' (case te_duration_ms e of None \<Rightarrow> VNone | Some d \<Rightarrow> VFloat (float_text d))
     @ known ''startedAt'' (opt_str (te_started_at e)) @ known ''correlationId'' (te_correlation_id e)"

type_synonym 'w exporter = "emitted_event \<Rightarrow> ('w, unit) action"

text \<open>\<open>QueueTraceExporter\<close>: a deque of bounded length drops from its front when it is full.\<close>

record queue_exporter =
  qe_maxlen :: nat
  qe_buffer :: "emitted_event list"

definition new_queue_exporter :: "nat \<Rightarrow> queue_exporter" where
  "new_queue_exporter maxlen = \<lparr>qe_maxlen = maxlen, qe_buffer = []\<rparr>"

definition queue_export :: "emitted_event \<Rightarrow> queue_exporter \<Rightarrow> queue_exporter" where
  "queue_export e q = (let b = qe_buffer q @ [e] in q\<lparr>qe_buffer := drop (length b - qe_maxlen q) b\<rparr>)"

definition queue_drain :: "queue_exporter \<Rightarrow> emitted_event list \<times> queue_exporter" where
  "queue_drain q = (qe_buffer q, q\<lparr>qe_buffer := []\<rparr>)"

section \<open>The middleware\<close>

definition UNEXPECTED_ERROR :: string where "UNEXPECTED_ERROR = ''unexpected-error''"

definition finished_event ::
  "string \<Rightarrow> string option \<Rightarrow> string \<Rightarrow> string option \<Rightarrow> string \<Rightarrow> rat \<Rightarrow> string \<Rightarrow> message_context \<Rightarrow> emitted_event" where
  "finished_event service instance_id trace_id parent span_id duration started_at ctx =
     \<lparr>te_trace_id = trace_id, te_span_id = span_id, te_service = service, te_topic = ctx_topic ctx,
      te_status = (case ctx_result ctx of Some r \<Rightarrow> res_status r | None \<Rightarrow> UNEXPECTED_ERROR),
      te_parent_span_id = parent, te_instance_id = instance_id, te_topic_version = v_or (ctx_version ctx) VNone,
      te_exception_type = None, te_duration_ms = Some duration, te_started_at = Some started_at,
      te_correlation_id = vget (ctx_headers ctx) ''x-correlation-id''\<rparr>"

text \<open>The trace an invocation is in: the joined one, or a fresh one without a parent; then its span.\<close>

definition open_span ::
  "'w entropy \<Rightarrow> (string \<times> string) option \<Rightarrow> 'w \<Rightarrow> (string \<times> string option \<times> string) \<times> 'w" where
  "open_span urandom parsed w =
     (let (trace_id, parent, w1) = (case parsed of
            Some (t, p) \<Rightarrow> (t, Some p, w)
          | None \<Rightarrow> (case new_trace_id urandom w of (t, w1) \<Rightarrow> (t, None, w1)));
          (span_id, w2) = new_span_id urandom w1
      in ((trace_id, parent, span_id), w2))"

definition joined_state :: "(string \<times> string) option \<Rightarrow> pydict \<Rightarrow> pyval option" where
  "joined_state parsed headers =
     (if parsed = None \<or> \<not> truthy (vget headers ''tracestate'') then None else Some (vget headers ''tracestate''))"

definition trace_middleware ::
  "'m traced_scheme entropy \<Rightarrow> ('m traced_scheme \<Rightarrow> string) \<Rightarrow> ('m traced_scheme \<Rightarrow> rat) \<Rightarrow> 'm traced_scheme exporter \<Rightarrow>
   string \<Rightarrow> string option \<Rightarrow> 'm traced_scheme middleware" where
  "trace_middleware urandom now perf_counter export service instance_id = (\<lambda>nxt (ctx, w).
     case parse_traceparent (vget (ctx_headers ctx) ''traceparent'') of
       Inl e \<Rightarrow> (Inl e, (ctx, w))
     | Inr parsed \<Rightarrow>
         (case open_span urandom parsed w of
            ((trace_id, parent, span_id), w2) \<Rightarrow>
              (case nxt (ctx, w2\<lparr>tv_trace := Some (trace_id, span_id), tv_tracestate := joined_state parsed (ctx_headers ctx)\<rparr>) of
                 (r, (ctx', w4)) \<Rightarrow>
                   (let w5 = w4\<lparr>tv_trace := tv_trace w2, tv_tracestate := tv_tracestate w2\<rparr>;
                        event = finished_event service instance_id trace_id parent span_id
                          ((perf_counter w5 - perf_counter w2) * 1000) (now w2) ctx'
                    in case export event w5 of
                         (Inl e, w6) \<Rightarrow> (if catchable e then r else Inl e, (ctx', w6))
                       | (Inr _, w6) \<Rightarrow> (r, (ctx', w6))))))"

section \<open>Propagation\<close>

definition has_header :: "pydict \<Rightarrow> string \<Rightarrow> bool" where
  "has_header headers name = list_ex (\<lambda>k. py_lower k = py_lower name) (dict_keys headers)"

definition propagated_headers :: "string \<Rightarrow> string \<Rightarrow> 'm traced_scheme \<Rightarrow> pydict \<Rightarrow> pydict" where
  "propagated_headers header state_header w out =
     (case current_traceparent w of
        None \<Rightarrow> out
      | Some traceparent \<Rightarrow>
          if traceparent = [] \<or> has_header out header then out
          else (let out1 = dict_set header (VStr traceparent) out
                in case current_tracestate w of
                     None \<Rightarrow> out1
                   | Some state \<Rightarrow>
                       if \<not> truthy state \<or> has_header out1 state_header then out1 else dict_set state_header state out1))"

definition trace_sender :: "string \<Rightarrow> string \<Rightarrow> 'm traced_scheme sender \<Rightarrow> 'm traced_scheme sender" where
  "trace_sender header state_header inner topic message headers = (\<lambda>w.
     inner topic message (Some (propagated_headers header state_header w (headers_or_empty headers))) w)"

definition with_trace_propagation :: "'m traced_scheme sender \<Rightarrow> 'm traced_scheme sender" where
  "with_trace_propagation = trace_sender ''traceparent'' ''tracestate''"

section \<open>Identifiers and headers\<close>

text \<open>\<open>os.urandom\<close>: so many bytes; that they are not all zero is certain in practice only. Reading
  them leaves the context variables alone.\<close>

definition entropy_ok :: "'m traced_scheme entropy \<Rightarrow> bool" where
  "entropy_ok urandom \<longleftrightarrow> (\<forall>n w. length (fst (urandom n w)) = n \<and> (\<forall>b \<in> set (fst (urandom n w)). b < 256) \<and>
     (0 < n \<longrightarrow> (\<exists>b \<in> set (fst (urandom n w)). b \<noteq> 0)) \<and>
     tv_trace (snd (urandom n w)) = tv_trace w \<and> tv_tracestate (snd (urandom n w)) = tv_tracestate w)"

definition valid_id :: "nat \<Rightarrow> string \<Rightarrow> bool" where
  "valid_id n s \<longleftrightarrow> is_hex s n \<and> \<not> all_zero s"

lemma hex_digit: "n < 16 \<Longrightarrow> HEX_DIGITS ! n \<in> set HEX_DIGITS"
  by (rule nth_mem) (simp add: HEX_DIGITS_def)

lemma hex_digit_zero: "n < 16 \<Longrightarrow> HEX_DIGITS ! n = CHR ''0'' \<longleftrightarrow> n = 0"
  by (simp add: HEX_DIGITS_def less_Suc_eq numeral_eq_Suc) auto

lemma hex_text_set:
  "set (hex_text bs) \<subseteq> set HEX_DIGITS"
  using hex_digit by (fastforce simp: hex_text_def hex_byte_def)

lemma hex_text_length: "length (hex_text bs) = 2 * length bs"
  by (induction bs) (simp_all add: hex_text_def hex_byte_def)

lemma hex_text_zero:
  assumes "\<forall>b \<in> set bs. b < 256" "\<exists>b \<in> set bs. b \<noteq> 0"
  shows "\<not> all_zero (hex_text bs)"
proof
  assume z: "all_zero (hex_text bs)"
  obtain b where b: "b \<in> set bs" "b \<noteq> 0" "b < 256" using assms by blast
  then have "set (hex_byte b) \<subseteq> {CHR ''0''}" using z by (auto simp: all_zero_def hex_text_def list_all_iff)
  then have "HEX_DIGITS ! (b div 16 mod 16) = CHR ''0''" "HEX_DIGITS ! (b mod 16) = CHR ''0''" by (simp_all add: hex_byte_def)
  then have "b div 16 mod 16 = 0" "b mod 16 = 0" using hex_digit_zero by simp_all
  moreover have "b div 16 < 16" using b(3) by (simp add: div_less_iff_less_mult)
  ultimately show False using b(2) by (metis div_mult_mod_eq add.right_neutral mod_less mult_0)
qed

lemma fresh_ids:
  assumes "entropy_ok urandom"
  shows "valid_id 32 (fst (new_trace_id urandom w))" "valid_id 16 (fst (new_span_id urandom w))"
  using assms hex_text_set hex_text_length hex_text_zero
  by (auto simp: valid_id_def is_hex_def new_trace_id_def new_span_id_def entropy_ok_def list_all_iff case_prod_beta subset_iff
      dest: arg_cong [of _ _ length])

lemma hex_no_dash: "is_hex s n \<Longrightarrow> CHR ''-'' \<notin> set s"
proof -
  have "CHR ''-'' \<notin> set HEX_DIGITS" by (simp add: HEX_DIGITS_def)
  then show "is_hex s n \<Longrightarrow> CHR ''-'' \<notin> set s" by (auto simp: is_hex_def list_all_iff)
qed

lemma parse_written:
  assumes "valid_id 32 t" "valid_id 16 s"
  shows "parse_traceparent (VStr (''00-'' @ t @ ''-'' @ s @ ''-01'')) = Inr (Some (t, s))"
proof -
  have "''00-'' @ t @ ''-'' @ s @ ''-01'' = py_join ''-'' [''00'', t, s, ''01'']" by simp
  moreover have "py_split CHR ''-'' (py_join [CHR ''-''] [''00'', t, s, ''01'']) = [''00'', t, s, ''01'']"
    using assms hex_no_dash by (intro py_split_join) (auto simp: valid_id_def)
  moreover have "is_hex ''00'' 2" "is_hex ''01'' 2" by (simp_all add: is_hex_def HEX_DIGITS_def)
  ultimately show ?thesis using assms by (simp add: parse_traceparent_def valid_id_def)
qed

lemma parsed_valid: "parse_traceparent h = Inr (Some (t, p)) \<Longrightarrow> valid_id 32 t \<and> valid_id 16 p"
  by (auto simp: parse_traceparent_def valid_id_def split: if_splits pyval.splits list.splits)

lemma open_span_ids:
  assumes "entropy_ok urandom" "parse_traceparent h = Inr parsed" "open_span urandom parsed w = ((t, parent, s), w')"
  shows "valid_id 32 t" "valid_id 16 s" "parent = map_option snd parsed" "\<And>t' p. parsed = Some (t', p) \<Longrightarrow> t = t'"
    "tv_trace w' = tv_trace w" "tv_tracestate w' = tv_tracestate w"
proof -
  have vars: "tv_trace (snd (new_trace_id urandom w)) = tv_trace w" "tv_tracestate (snd (new_trace_id urandom w)) = tv_tracestate w"
      "tv_trace (snd (new_span_id urandom w)) = tv_trace w" "tv_tracestate (snd (new_span_id urandom w)) = tv_tracestate w" for w
    using assms(1) by (simp_all add: new_trace_id_def new_span_id_def entropy_ok_def case_prod_beta)
  note ids = fresh_ids [OF assms(1)]
  have all: "valid_id 32 t \<and> valid_id 16 s \<and> parent = map_option snd parsed \<and> (\<forall>t' p. parsed = Some (t', p) \<longrightarrow> t = t') \<and>
      tv_trace w' = tv_trace w \<and> tv_tracestate w' = tv_tracestate w"
  proof (cases parsed)
    case None
    let ?n = "new_trace_id urandom w"
    have "t = fst ?n" "parent = None" "s = fst (new_span_id urandom (snd ?n))" "w' = snd (new_span_id urandom (snd ?n))"
      using assms(3) None by (simp_all add: open_span_def Let_def case_prod_beta)
    then show ?thesis using ids vars None by simp
  next
    case (Some x)
    obtain t' p where x: "x = (t', p)" by (cases x)
    then have "t = t'" "parent = Some p" "s = fst (new_span_id urandom w)" "w' = snd (new_span_id urandom w)"
      using assms(3) Some by (simp_all add: open_span_def Let_def case_prod_beta)
    then show ?thesis using ids vars parsed_valid assms(2) Some x by auto
  qed
  then show "valid_id 32 t" "valid_id 16 s" "parent = map_option snd parsed" "\<And>t' p. parsed = Some (t', p) \<Longrightarrow> t = t'"
    "tv_trace w' = tv_trace w" "tv_tracestate w' = tv_tracestate w" by blast+
qed

text \<open>The headers a receiver reads, in lower case.\<close>

lemma lower_keys_append:
  "\<not> has_header hs k \<Longrightarrow> map_of (lower_keys (hs @ [(k, v)] @ later)) (py_lower k) =
     (case map_of (lower_keys later) (py_lower k) of Some u \<Rightarrow> Some u | None \<Rightarrow> Some v)"
  by (simp add: lower_keys_def dict_get_of map_add_def split: option.split)

lemma has_header_set: "has_header (dict_set k v hs) name \<longleftrightarrow> has_header hs name \<or> py_lower k = py_lower name"
  by (induction hs) (auto simp: has_header_def dict_keys_def)

lemma set_fresh_header: "\<not> has_header hs k \<Longrightarrow> dict_set k v hs = hs @ [(k, v)]"
  by (rule dict_set_fresh) (auto simp: has_header_def dict_keys_def list_ex_iff map_of_eq_None_iff)

lemma lower_keys_miss: "\<not> has_header hs k \<Longrightarrow> map_of (lower_keys hs) (py_lower k) = None"
  by (auto simp: lower_keys_def dict_get_of has_header_def dict_keys_def list_ex_iff map_of_eq_None_iff)

text \<open>What an outbound call from inside the invocation carries.\<close>

lemma propagated_read:
  assumes "tv_trace w = Some (t, s)" "valid_id 32 t" "valid_id 16 s"
    "\<not> has_header hs ''traceparent''" "\<not> has_header hs ''tracestate''"
    "tv_tracestate w = joined_state parsed inbound"
  shows "parse_traceparent (vget (lower_keys (propagated_headers ''traceparent'' ''tracestate'' w hs)) ''traceparent'')
      = Inr (Some (t, s))"
    "vget (lower_keys (propagated_headers ''traceparent'' ''tracestate'' w hs)) ''tracestate'' =
      (if parsed = None then VNone else v_or (vget inbound ''tracestate'') VNone)"
proof -
  define tp where "tp = ''00-'' @ t @ ''-'' @ s @ ''-01''"
  let ?hs = "hs @ [(''traceparent'', VStr tp)]"
  have l: "py_lower ''traceparent'' = ''traceparent''" "py_lower ''tracestate'' = ''tracestate''" by code_simp+
  have new: "dict_set ''traceparent'' (VStr tp) hs = ?hs" using assms(4) by (rule set_fresh_header)
  have fresh: "\<not> has_header ?hs ''tracestate''"
    using assms(5) has_header_set [of "''traceparent''" "VStr tp" hs "''tracestate''"] l by (simp add: new)
  let ?out = "propagated_headers ''traceparent'' ''tracestate'' w hs"
  have tp: "current_traceparent w = Some tp" "tp \<noteq> []" by (simp_all add: current_traceparent_def assms(1) tp_def)
  have "current_tracestate w = joined_state parsed inbound" by (simp add: current_tracestate_def assms(1,6))
  moreover have "truthy state" if "joined_state parsed inbound = Some state" for state
    using that by (auto simp: joined_state_def split: if_splits)
  ultimately have out: "?out = (case joined_state parsed inbound of None \<Rightarrow> ?hs | Some state \<Rightarrow> ?hs @ [(''tracestate'', state)])"
    using assms(4) fresh set_fresh_header [OF fresh]
    unfolding propagated_headers_def tp(1) Let_def new by (auto simp: tp(2) new simp del: append_assoc split: option.split)
  have "map_of (lower_keys ?out) ''traceparent'' = Some (VStr tp)"
    using lower_keys_append [OF assms(4), of "VStr tp"] l unfolding out
    by (auto simp: lower_keys_def dict_get_of split: option.split)
  then show "parse_traceparent (vget (lower_keys ?out) ''traceparent'') = Inr (Some (t, s))"
    using parse_written [OF assms(2,3)] by (simp add: vget_def tp_def)
  have "map_of (lower_keys ?out) ''tracestate'' = joined_state parsed inbound"
    using lower_keys_append [OF fresh, where later = "[]"] lower_keys_miss [OF fresh] l unfolding out
    by (auto simp: lower_keys_def dict_of_def split: option.split)
  then show "vget (lower_keys ?out) ''tracestate'' = (if parsed = None then VNone else v_or (vget inbound ''tracestate'') VNone)"
    by (auto simp: vget_def [of "lower_keys _"] joined_state_def v_or_def)
qed

section \<open>Tracing observes and does not interfere\<close>

text \<open>
  C35. Tracing does not interfere and traces join. With an exporter that does not cancel the task and a header that is a string or absent,
  an invocation under the middleware has exactly the outcome and the context of the rest of the pipeline, exceptions included;
  exactly one event is exported, with the topic, the status of the result (\<open>unexpected-error\<close> without one) and the trace; and the
  context variables are as before. The invocation is in the trace of a valid \<open>traceparent\<close> header and in a fresh one otherwise; and a message sent from
  inside it through the propagating sender is read by the receiver as the same trace, with the span of this
  invocation as its parent and the trace state unchanged.
\<close>

theorem trace_joins:
  assumes header: "parse_traceparent (vget (ctx_headers ctx) ''traceparent'') = Inr parsed"
    and entropy: "entropy_ok urandom" and exporter: "\<And>e w. fst (export e w) \<noteq> Inl PyCancelled"
  shows "\<exists>t s w1 e. tv_trace w1 = Some (t, s) \<and> (\<forall>t' p. parsed = Some (t', p) \<longrightarrow> t = t') \<and>
    (let (r, (ctx', w2)) = nxt (ctx, w1); w3 = w2\<lparr>tv_trace := tv_trace w, tv_tracestate := tv_tracestate w\<rparr>
     in trace_middleware urandom now perf_counter export service inst nxt (ctx, w) = (r, (ctx', snd (export (e ctx' w3) w3))) \<and>
        te_trace_id (e ctx' w3) = t \<and> te_span_id (e ctx' w3) = s \<and> te_parent_span_id (e ctx' w3) = map_option snd parsed \<and>
        te_topic (e ctx' w3) = ctx_topic ctx' \<and>
        te_status (e ctx' w3) = (case ctx_result ctx' of Some x \<Rightarrow> res_status x | None \<Rightarrow> ''unexpected-error'')) \<and>
    (\<forall>inner topic message hs. \<not> has_header hs ''traceparent'' \<and> \<not> has_header hs ''tracestate'' \<longrightarrow>
       (\<exists>out. with_trace_propagation inner topic message (Some hs) w1 = inner topic message (Some out) w1 \<and>
          parse_traceparent (vget (lower_keys out) ''traceparent'') = Inr (Some (t, s)) \<and>
          vget (lower_keys out) ''tracestate'' =
            (if parsed = None then VNone else v_or (vget (ctx_headers ctx) ''tracestate'') VNone)))"
proof -
  obtain t parent s w0 where span_id: "open_span urandom parsed w = ((t, parent, s), w0)" by (metis prod.exhaust)
  note ids = open_span_ids [OF entropy header span_id]
  define w1 where "w1 = w0\<lparr>tv_trace := Some (t, s), tv_tracestate := joined_state parsed (ctx_headers ctx)\<rparr>"
  define e where "e = (\<lambda>ctx' w3. finished_event service inst t parent s ((perf_counter w3 - perf_counter w0) * 1000) (now w0) ctx')"
  obtain r ctx' w2 where run: "nxt (ctx, w1) = (r, (ctx', w2))" by (metis prod.exhaust)
  let ?w3 = "w2\<lparr>tv_trace := tv_trace w, tv_tracestate := tv_tracestate w\<rparr>"
  have "fst (export (e ctx' ?w3) ?w3) \<noteq> Inl PyCancelled" by (rule exporter)
  then have "\<And>x. fst (export (e ctx' ?w3) ?w3) = Inl x \<Longrightarrow> catchable x" by (metis catchable.elims(3))
  then have "trace_middleware urandom now perf_counter export service inst nxt (ctx, w) = (r, (ctx', snd (export (e ctx' ?w3) ?w3)))"
    using run ids(5,6) by (auto simp: trace_middleware_def header span_id w1_def e_def Let_def split: prod.splits sum.splits)
  moreover have "te_trace_id (e ctx' ?w3) = t" "te_span_id (e ctx' ?w3) = s" "te_parent_span_id (e ctx' ?w3) = map_option snd parsed"
      "te_topic (e ctx' ?w3) = ctx_topic ctx'"
      "te_status (e ctx' ?w3) = (case ctx_result ctx' of Some x \<Rightarrow> res_status x | None \<Rightarrow> ''unexpected-error'')"
    using ids(3) by (simp_all add: e_def finished_event_def UNEXPECTED_ERROR_def split: option.split)
  moreover have "tv_trace w1 = Some (t, s)" "tv_tracestate w1 = joined_state parsed (ctx_headers ctx)" by (simp_all add: w1_def)
  moreover from this have "with_trace_propagation inner topic message (Some hs) w1 =
      inner topic message (Some (propagated_headers ''traceparent'' ''tracestate'' w1 hs)) w1" for inner :: "'a traced_scheme sender" and topic message hs
    by (simp add: with_trace_propagation_def trace_sender_def headers_or_empty_def)
  ultimately show ?thesis using ids(4) run propagated_read [of w1 t s, OF _ ids(1,2)]
    by (intro exI [of _ t] exI [of _ s] exI [of _ w1] exI [of _ e]) (auto simp: Let_def)
qed

text \<open>A world whose extension is the exported events, and bytes that are all 7.\<close>

definition sevens :: "emitted_event list traced_ext entropy" where
  "sevens n w = (replicate n 7, w)"

definition keep_event :: "emitted_event list traced_ext exporter" where
  "keep_event e w = (Inr (), traced.more_update (\<lambda>es. es @ [e]) w)"

definition traced_call :: message_context where
  "traced_call = mk_context (VStr ''stock:take'') (VDict [])
     [(''traceparent'', VStr ''00-0af7651916cd43dd8448eb211c80319c-b7ad6b7169203331-01'')] [] (VStr [])"

theorem trace_joins_witness:
  "\<exists>w'. trace_middleware sevens (\<lambda>_. []) (\<lambda>_. 0) keep_event ''stock'' None (act_return ())
     (traced_call, \<lparr>tv_trace = None, tv_tracestate = None, \<dots> = []\<rparr>) = (Inr (), (traced_call, w'))"
proof -
  have header: "parse_traceparent (vget (ctx_headers traced_call) ''traceparent'') =
      Inr (Some (''0af7651916cd43dd8448eb211c80319c'', ''b7ad6b7169203331''))" by code_simp
  have entropy: "entropy_ok sevens" by (auto simp: entropy_ok_def sevens_def)
  have exporter: "\<And>e w. fst (keep_event e w) \<noteq> Inl PyCancelled" by (simp add: keep_event_def)
  from trace_joins [where nxt = "act_return ()" and w = "\<lparr>tv_trace = None, tv_tracestate = None, \<dots> = []\<rparr>"
      and now = "\<lambda>_. []" and perf_counter = "\<lambda>_. 0" and service = "''stock''" and inst = None, OF header entropy, of keep_event]
  obtain w1 and e :: "message_context \<Rightarrow> emitted_event list traced_scheme \<Rightarrow> emitted_event" where
      "let (r, (ctx', w2)) = act_return () (traced_call, w1); w3 = w2\<lparr>tv_trace := None, tv_tracestate := None\<rparr>
       in trace_middleware sevens (\<lambda>_. []) (\<lambda>_. 0) keep_event ''stock'' None (act_return ())
         (traced_call, \<lparr>tv_trace = None, tv_tracestate = None, \<dots> = []\<rparr>) = (r, (ctx', snd (keep_event (e ctx' w3) w3)))"
    using exporter by (auto simp: Let_def case_prod_beta)
  then show ?thesis by (auto simp: act_return_def Let_def)
qed

text \<open>So the middleware may stand before the interceptions of the reserved topics.\<close>

lemma trace_transparent:
  assumes "\<exists>parsed. parse_traceparent (vget hs ''traceparent'') = Inr parsed" "\<And>e w. fst (export e w) \<noteq> Inl PyCancelled"
  shows "transparent t hs (trace_middleware urandom now perf_counter export service inst)"
  unfolding transparent_def
proof (intro allI impI, elim conjE)
  fix nxt and ctx :: message_context and w
  assume c: "ctx_topic ctx = VStr t" "ctx_headers ctx = hs"
  obtain parsed where p: "parse_traceparent (vget hs ''traceparent'') = Inr parsed" using assms(1) by blast
  obtain tid parent s w0 where span: "open_span urandom parsed w = ((tid, parent, s), w0)" by (metis prod.exhaust)
  let ?w1 = "w0\<lparr>tv_trace := Some (tid, s), tv_tracestate := joined_state parsed hs\<rparr>"
  have "catchable x" if "export e v = (Inl x, v')" for e v x v'
    using assms(2) [of e v] that by (cases x) simp_all
  then have "\<exists>w''. trace_middleware urandom now perf_counter export service inst nxt (ctx, w) = (Inr (), (ctx', w''))"
    if "nxt (ctx, ?w1) = (Inr (), (ctx', w'))" for ctx' w'
    using that c by (auto simp: trace_middleware_def p span Let_def split: prod.splits sum.splits)
  then show "\<exists>ctx1 w1. ctx_topic ctx1 = VStr t \<and> ctx_headers ctx1 = hs \<and> ctx_request ctx1 = ctx_request ctx \<and>
      (\<forall>ctx' w'. nxt (ctx1, w1) = (Inr (), (ctx', w')) \<longrightarrow> (\<exists>ctx'' w''.
        trace_middleware urandom now perf_counter export service inst nxt (ctx, w) = (Inr (), (ctx'', w'')) \<and>
        ctx_result ctx'' = ctx_result ctx'))"
    using c by (intro exI [of _ ctx] exI [of _ ?w1]) blast
qed

text \<open>
  A header that is no string is the one thing that breaks it: the middleware raises before the rest of the
  pipeline runs, although tracing is meant never to break the invocation.
\<close>

lemma trace_header_raises:
  assumes "vget (ctx_headers ctx) ''traceparent'' = VInt 1"
  shows "trace_middleware urandom now perf_counter export service inst nxt (ctx, w) =
    (Inl (PyException ''AttributeError'' ''object has no attribute split''), (ctx, w))"
  by (simp add: trace_middleware_def assms parse_traceparent_def)

text \<open>The queue keeps the latest events up to its length, and a drain hands out exactly those.\<close>

lemma queue_keeps_latest:
  "queue_drain (fold queue_export es (new_queue_exporter n)) = (drop (length es - n) es, new_queue_exporter n)"
proof -
  have "qe_buffer (fold queue_export es (new_queue_exporter n)) = drop (length es - n) es \<and>
      qe_maxlen (fold queue_export es (new_queue_exporter n)) = n"
  proof (induction es rule: rev_induct)
    case (snoc e es)
    then show ?case by (cases "length es < n") (auto simp: queue_export_def Let_def Suc_diff_le not_less)
  qed (simp add: new_queue_exporter_def)
  then show ?thesis by (simp add: queue_drain_def new_queue_exporter_def)
qed

end
