(* ===== verification/ClientScope.thy ===== *)
theory ClientScope
  imports Contract
begin

text \<open>
  \<open>benzene.codegen_client\<close>, the reading side: parsing a Contract Document (\<open>document\<close>), narrowing it to topics
  (\<open>topic_scope\<close>) and to the components a topic reaches (\<open>schema_closure\<close>), and the hashes a generated client
  embeds (\<open>contract_hash\<close>). Parsed values are kept as they were decoded, \<open>VNone\<close> for an absent one.
\<close>

section \<open>Documents\<close>

definition KNOWN_SCHEMA_DIALECTS :: "pyval list" where "KNOWN_SCHEMA_DIALECTS = [VStr ''openapi-3.0'']"

record client_mapping =
  cm_method :: pyval
  cm_path :: pyval

record client_request =
  cq_topic :: pyval
  cq_request :: pyval
  cq_response :: pyval
  cq_version :: pyval
  cq_http_mappings :: "client_mapping list"

record client_event =
  cv_topic :: pyval
  cv_message :: pyval
  cv_version :: pyval

record client_send =
  cn_topic :: pyval
  cn_request :: pyval
  cn_response :: pyval
  cn_version :: pyval

record client_document =
  cd_schema_dialect :: string
  cd_service :: string
  cd_service_version :: pyval
  cd_version_scheme :: pyval
  cd_description :: pyval
  cd_requests :: "client_request list"
  cd_events :: "client_event list"
  cd_sends :: "client_send list"
  cd_schemas :: pydict
  cd_message_endpoint :: pyval
  cd_transports :: "pyval list"
  cd_contract_hash :: pyval
  cd_registration_hash :: pyval

definition find_request :: "client_document \<Rightarrow> string \<Rightarrow> string option \<Rightarrow> client_request option" where
  "find_request doc topic version = find (\<lambda>r. cq_topic r = VStr topic \<and>
     (case version of None \<Rightarrow> True | Some v \<Rightarrow> cq_version r = VStr v)) (cd_requests doc)"

section \<open>Parsing\<close>

definition unknown_dialect_error :: "pyval \<Rightarrow> pyexn" where
  "unknown_dialect_error dialect = PyException ''UnknownSchemaDialectError'' (''The document ''
     @ (if dialect = VNone then ''has no schemaDialect'' else ''has schemaDialect '' @ repr_val dialect)
     @ ''; this generator reads '' @ repr_val (VList KNOWN_SCHEMA_DIALECTS)
     @ ''. A document without one predates spec-0.3.0: fetch it again from an up-to-date service.'')"

text \<open>\<open>v or []\<close>, iterated over.\<close>

definition elements_or_none :: "pyval \<Rightarrow> pyval list outcome" where
  "elements_or_none v = (if truthy v then elements_of v else Inr [])"

definition domain_entry :: "string \<Rightarrow> pyval \<Rightarrow> pydict option outcome" where
  "domain_entry member entry = (case entry of
     VDict d \<Rightarrow>
       (case dict_get d ''topic'' of
          Some topic \<Rightarrow> Inr (if is_reserved_topic (str_val topic) then None else Some d)
        | None \<Rightarrow> Inl (PyException ''ContractDocumentError''
            (member @ ''[] entry is missing required field '' @ repr_str ''topic'' @ '': '' @ repr_val entry)))
   | _ \<Rightarrow> Inl (PyException ''ContractDocumentError''
       (member @ ''[] entry is missing required field '' @ repr_str ''topic'' @ '': '' @ repr_val entry)))"

definition domain_entries :: "pydict \<Rightarrow> string \<Rightarrow> pydict list outcome" where
  "domain_entries data member =
     and_then (elements_or_none (vget data member)) (\<lambda>vs.
     and_then (each (domain_entry member) vs) (\<lambda>ds. Inr (List.map_filter id ds)))"

text \<open>\<open>m["method"]\<close>\<close>

definition subscript :: "pyval \<Rightarrow> string \<Rightarrow> pyval outcome" where
  "subscript v key = (case v of
     VDict d \<Rightarrow> (case dict_get d key of Some x \<Rightarrow> Inr x | None \<Rightarrow> Inl (PyException ''KeyError'' (repr_str key)))
   | _ \<Rightarrow> Inl (PyException ''TypeError'' ''object is not subscriptable by a string''))"

definition parse_mapping :: "pyval \<Rightarrow> client_mapping outcome" where
  "parse_mapping m = and_then (subscript m ''method'') (\<lambda>verb. and_then (subscript m ''path'') (\<lambda>path.
     Inr \<lparr>cm_method = verb, cm_path = path\<rparr>))"

definition parse_request :: "pydict \<Rightarrow> client_request outcome" where
  "parse_request entry =
     and_then (elements_or_none (vget entry ''httpMappings'')) (\<lambda>ms.
     and_then (each parse_mapping ms) (\<lambda>http_mappings.
       Inr \<lparr>cq_topic = vget entry ''topic'', cq_request = v_or (vget entry ''request'') (VDict []),
            cq_response = vget entry ''response'', cq_version = vget entry ''version'', cq_http_mappings = http_mappings\<rparr>))"

definition parse_event :: "pydict \<Rightarrow> client_event" where
  "parse_event entry = \<lparr>cv_topic = vget entry ''topic'', cv_message = v_or (vget entry ''message'') (VDict []),
     cv_version = vget entry ''version''\<rparr>"

definition parse_send :: "pydict \<Rightarrow> client_send" where
  "parse_send entry = \<lparr>cn_topic = vget entry ''topic'', cn_request = v_or (vget entry ''request'') (VDict []),
     cn_response = vget entry ''response'', cn_version = vget entry ''version''\<rparr>"

text \<open>
  \<open>dict((data.get("components") or {}).get("schemas") or {})\<close>; that \<open>dict\<close> also accepts a list of pairs is left out.
\<close>

definition parse_schemas :: "pyval \<Rightarrow> pydict outcome" where
  "parse_schemas components = (case v_or components (VDict []) of
     VDict d \<Rightarrow> (case v_or (vget d ''schemas'') (VDict []) of
         VDict s \<Rightarrow> Inr s
       | _ \<Rightarrow> Inl (PyException ''TypeError'' ''cannot convert to a dictionary''))
   | _ \<Rightarrow> Inl (PyException ''AttributeError'' ''object has no attribute get''))"

definition parse_document :: "pyval \<Rightarrow> client_document outcome" where
  "parse_document doc = (case doc of
     VDict data \<Rightarrow>
       (let dialect = vget data ''schemaDialect'' in
        if \<not> hashable dialect then Inl unhashable_error
        else if dialect \<notin> set KNOWN_SCHEMA_DIALECTS then Inl (unknown_dialect_error dialect)
        else
          and_then (and_then (domain_entries data ''requests'') (each parse_request)) (\<lambda>requests.
          and_then (domain_entries data ''events'') (\<lambda>events.
          and_then (domain_entries data ''sends'') (\<lambda>sends.
          and_then (parse_schemas (vget data ''components'')) (\<lambda>schemas.
          and_then (elements_or_none (vget data ''transports'')) (\<lambda>transports.
            Inr \<lparr>cd_schema_dialect = str_val dialect, cd_service = str_val (v_or (vget data ''service'') (VStr [])),
                 cd_service_version = vget data ''serviceVersion'', cd_version_scheme = vget data ''versionScheme'',
                 cd_description = vget data ''description'', cd_requests = requests, cd_events = map parse_event events,
                 cd_sends = map parse_send sends, cd_schemas = schemas, cd_message_endpoint = vget data ''messageEndpoint'',
                 cd_transports = transports, cd_contract_hash = vget data ''contractHash'',
                 cd_registration_hash = vget data ''registrationHash''\<rparr>))))))
   | _ \<Rightarrow> Inl (PyException ''ContractDocumentError'' ''A Contract Document must be a JSON object.''))"

section \<open>Writing a document back\<close>

text \<open>A member that is written unless it is \<open>None\<close>.\<close>

definition unless_none :: "string \<Rightarrow> pyval \<Rightarrow> pydict" where
  "unless_none key v = (if v = VNone then [] else [(key, v)])"

definition raw_request :: "client_request \<Rightarrow> pydict" where
  "raw_request r = [(''topic'', cq_topic r)] @ unless_none ''version'' (cq_version r)
     @ (if cq_http_mappings r = [] then []
        else [(''httpMappings'', VList (map (\<lambda>m. VDict [(''method'', cm_method m), (''path'', cm_path m)]) (cq_http_mappings r)))])
     @ [(''request'', cq_request r)] @ unless_none ''response'' (cq_response r)"

definition raw_event :: "client_event \<Rightarrow> pydict" where
  "raw_event e = [(''topic'', cv_topic e)] @ unless_none ''version'' (cv_version e) @ [(''message'', cv_message e)]"

definition raw_send :: "client_send \<Rightarrow> pydict" where
  "raw_send s = [(''topic'', cn_topic s)] @ unless_none ''version'' (cn_version s)
     @ [(''request'', cn_request s)] @ unless_none ''response'' (cn_response s)"

definition to_raw_document :: "client_document \<Rightarrow> pydict" where
  "to_raw_document d = [(''schemaDialect'', VStr (cd_schema_dialect d)), (''service'', VStr (cd_service d))]
     @ unless_none ''serviceVersion'' (cd_service_version d) @ unless_none ''versionScheme'' (cd_version_scheme d)
     @ unless_none ''description'' (cd_description d) @ unless_none ''messageEndpoint'' (cd_message_endpoint d)
     @ (if cd_transports d = [] then [] else [(''transports'', VList (cd_transports d))])
     @ [(''requests'', VList (map (VDict \<circ> raw_request) (cd_requests d))),
        (''events'', VList (map (VDict \<circ> raw_event) (cd_events d))),
        (''sends'', VList (map (VDict \<circ> raw_send) (cd_sends d))),
        (''components'', VDict [(''schemas'', VDict (cd_schemas d))])]"

definition compute :: "(pyval \<Rightarrow> string outcome) \<Rightarrow> (string \<Rightarrow> string) \<Rightarrow> client_document \<Rightarrow> string outcome" where
  "compute jcs sha256 d = contract_hash jcs sha256 (to_raw_document d)"

definition compute_registration :: "(pyval \<Rightarrow> string outcome) \<Rightarrow> (string \<Rightarrow> string) \<Rightarrow> client_document \<Rightarrow> string outcome" where
  "compute_registration jcs sha256 d = registration_hash jcs sha256 (to_raw_document d)"

section \<open>The components a schema reaches\<close>

text \<open>The schemas \<open>walk\<close> visits below a schema, in its order.\<close>

definition schema_children :: "pydict \<Rightarrow> pyval list" where
  "schema_children ms =
     [vget ms ''items'']
     @ (case vget ms ''additionalProperties'' of VDict a \<Rightarrow> [VDict a] | _ \<Rightarrow> [])
     @ (case vget ms ''properties'' of VDict ps \<Rightarrow> map snd ps | _ \<Rightarrow> [])
     @ concat (map (\<lambda>key. case vget ms key of VList vs \<Rightarrow> vs | _ \<Rightarrow> []) [''allOf'', ''anyOf'', ''oneOf''])"

lemma vget_size: "v = vget ms k \<Longrightarrow> v \<noteq> VNone \<Longrightarrow> size v < size (VDict ms)"
  using pyval_member_size [of k v ms] by (auto simp: vget_def dest: map_of_SomeD split: option.splits)

lemma schema_children_size:
  assumes "x \<in> set (schema_children ms)" "is_dict x"
  shows "size x < size (VDict ms)"
proof -
  have list: "size x < size (VDict ms)" if "x \<in> set vs" "VList vs = vget ms k" for vs k
    using vget_size [OF that(2)] pyval_element_size [OF that(1)] by simp
  have props: "size x < size (VDict ms)" if "(p, x) \<in> set ps" "VDict ps = vget ms k" for p ps k
    using vget_size [OF that(2)] pyval_member_size [OF that(1)] by simp
  have single: "size x < size (VDict ms)" if "x = vget ms k" for k
    using vget_size [OF that] assms(2) by (cases x) (simp_all add: is_dict_def)
  show ?thesis using assms(1) list props single by (fastforce simp: schema_children_def split: pyval.splits)
qed

text \<open>The objects below a schema, and the component it names when that is new.\<close>

definition inner_schemas :: "pyval \<Rightarrow> pyval list" where
  "inner_schemas schema = (case schema of VDict ms \<Rightarrow> filter is_dict (schema_children ms) | _ \<Rightarrow> [])"

definition reference :: "pydict \<Rightarrow> pyval \<Rightarrow> string option" where
  "reference catalogue schema = (case schema of
     VDict ms \<Rightarrow> (case schema_ref ms of Some name \<Rightarrow> if dict_mem name catalogue then Some name else None | None \<Rightarrow> None)
   | _ \<Rightarrow> None)"

definition new_reference :: "pydict \<Rightarrow> pyval \<Rightarrow> string list \<Rightarrow> string option" where
  "new_reference catalogue schema reached = (case reference catalogue schema of
     Some name \<Rightarrow> if name \<in> set reached then None else Some name
   | None \<Rightarrow> None)"

lemma pending_smaller:
  "(mset (map size (inner_schemas s @ pending)), mset (map size (s # pending))) \<in> mult less_than"
proof -
  have "\<forall>k \<in># mset (map size (inner_schemas s)). \<exists>j \<in># {#size s#}. (k, j) \<in> less_than"
    using schema_children_size by (auto simp: inner_schemas_def simp del: pyval.size split: pyval.splits)
  from one_step_implies_mult [OF _ this, of "mset (map size pending)"] show ?thesis by (simp add: add.commute)
qed

text \<open>\<open>walk\<close> over a list of pending schemas, in the order of the recursive calls; \<open>reached\<close> holds the latest first.\<close>

function walk :: "pydict \<Rightarrow> pyval list \<Rightarrow> string list \<Rightarrow> string list" where
  "walk catalogue [] reached = reached"
| "walk catalogue (schema # pending) reached = (case new_reference catalogue schema reached of
     Some name \<Rightarrow> walk catalogue (vget catalogue name # inner_schemas schema @ pending) (name # reached)
   | None \<Rightarrow> walk catalogue (inner_schemas schema @ pending) reached)"
  by pat_completeness auto
termination
proof (relation "inv_image (less_than <*lex*> mult less_than)
    (\<lambda>(catalogue, pending, reached). (card (set (map fst catalogue) - set reached), mset (map size pending)))", goal_cases)
  case 1
  show ?case by (intro wf_inv_image wf_lex_prod wf_less_than wf_mult)
next
  case (2 catalogue schema pending reached)
  then show ?case using pending_smaller [of schema pending] by simp
next
  case (3 catalogue schema pending reached name)
  then have "name \<in> set (map fst catalogue)" "name \<notin> set reached"
    by (auto simp: new_reference_def reference_def dict_mem_iff split: option.splits if_splits pyval.splits)
  then have "set (map fst catalogue) - set (name # reached) \<subset> set (map fst catalogue) - set reached" by auto
  then show ?case by (auto intro: psubset_card_mono)
qed

definition reachable_names :: "pydict \<Rightarrow> pyval list \<Rightarrow> string list" where
  "reachable_names catalogue roots = walk catalogue roots []"

definition reachable_schemas :: "pydict \<Rightarrow> pyval list \<Rightarrow> pydict" where
  "reachable_schemas catalogue roots = filter (\<lambda>(name, _). name \<in> set (reachable_names catalogue roots)) catalogue"

section \<open>Narrowing to topics\<close>

definition unknown_topics_error :: "string list \<Rightarrow> string list \<Rightarrow> pyexn" where
  "unknown_topics_error unknown valid = PyException ''UnknownTopicsError''
     (''--topics names topic(s) not present in the document: '' @ py_join '', '' (sort unknown)
      @ ''. Valid topics: '' @ py_join '', '' (sort valid) @ ''.'')"

definition drop_hashes :: "client_document \<Rightarrow> client_document" where
  "drop_hashes d = d\<lparr>cd_contract_hash := VNone, cd_registration_hash := VNone\<rparr>"

definition apply_topic_scope :: "client_document \<Rightarrow> string list option \<Rightarrow> client_document outcome" where
  "apply_topic_scope d topics = (case topics of
     Some (t # ts) \<Rightarrow>
       (let listed = t # ts; known = map cq_topic (cd_requests d) in
        if \<not> list_all hashable known then Inl unhashable_error
        else (let unknown = filter (\<lambda>t. VStr t \<notin> set known) listed
              in if unknown \<noteq> [] then Inl (unknown_topics_error unknown (map str_val (remdups known)))
                 else Inr (drop_hashes (d\<lparr>cd_requests := filter (\<lambda>r. cq_topic r \<in> VStr ` set listed) (cd_requests d)\<rparr>))))
   | _ \<Rightarrow> Inr (drop_hashes d))"

definition is_in_scope :: "client_request \<Rightarrow> string list option \<Rightarrow> bool" where
  "is_in_scope r topics = (case topics of Some (t # ts) \<Rightarrow> cq_topic r \<in> VStr ` set (t # ts) | _ \<Rightarrow> True)"

definition topic_not_found_error :: "string \<Rightarrow> string list \<Rightarrow> pyexn" where
  "topic_not_found_error topic valid = PyException ''TopicNotFoundError'' (''Topic '' @ repr_str topic
     @ '' is not present in the document. Valid topics: '' @ py_join '', '' (sort valid) @ ''.'')"

definition topic_closure :: "client_document \<Rightarrow> client_request \<Rightarrow> pydict" where
  "topic_closure d r = reachable_schemas (cd_schemas d) [cq_request r, cq_response r]"

definition topic_projection :: "client_document \<Rightarrow> string \<Rightarrow> client_document outcome" where
  "topic_projection d topic = (case find_request d topic None of
     None \<Rightarrow> Inl (topic_not_found_error topic (map (str_val \<circ> cq_topic) (cd_requests d)))
   | Some r \<Rightarrow> Inr (drop_hashes (d\<lparr>cd_requests := [r], cd_events := [], cd_sends := [], cd_schemas := topic_closure d r\<rparr>)))"

section \<open>The closure is exactly what is reachable\<close>

text \<open>A schema below another, and the components a schema refers to itself, at any depth, or through components.\<close>

inductive below :: "pyval \<Rightarrow> pyval \<Rightarrow> bool" for s where
  here: "below s s"
| child: "below s t \<Longrightarrow> x \<in> set (inner_schemas t) \<Longrightarrow> below s x"

definition refers :: "pydict \<Rightarrow> pyval \<Rightarrow> string \<Rightarrow> bool" where
  "refers catalogue s name \<longleftrightarrow> (\<exists>t. below s t \<and> reference catalogue t = Some name)"

inductive reaches :: "pydict \<Rightarrow> pyval \<Rightarrow> string \<Rightarrow> bool" for catalogue s where
  direct: "refers catalogue s name \<Longrightarrow> reaches catalogue s name"
| through: "reaches catalogue s name \<Longrightarrow> refers catalogue (vget catalogue name) name' \<Longrightarrow> reaches catalogue s name'"

lemma below_trans: "below t u \<Longrightarrow> below s t \<Longrightarrow> below s u"
  by (induction rule: below.induct) (auto intro: below.child)

lemma below_inner: "x \<in> set (inner_schemas s) \<Longrightarrow> below s x"
  using below.child [OF below.here] .

lemma below_cases: "below s t \<Longrightarrow> t = s \<or> (\<exists>x \<in> set (inner_schemas s). below x t)"
  by (induction rule: below.induct) (auto intro: below.intros)

lemma refers_unfold:
  "refers catalogue s name \<longleftrightarrow> reference catalogue s = Some name \<or> (\<exists>x \<in> set (inner_schemas s). refers catalogue x name)"
  unfolding refers_def using below_cases [of s] below.here [of s] below_trans [OF _ below_inner] by metis

lemma reaches_inner: "reaches catalogue x name \<Longrightarrow> x \<in> set (inner_schemas s) \<Longrightarrow> reaches catalogue s name"
  by (induction rule: reaches.induct) (auto intro: reaches.intros refers_unfold [THEN iffD2])

lemma reaches_through: "reaches catalogue (vget catalogue name) n \<Longrightarrow> reaches catalogue s name \<Longrightarrow> reaches catalogue s n"
  by (induction rule: reaches.induct) (auto intro: reaches.through)

lemma new_reference_simps:
  "new_reference catalogue s reached = Some name \<Longrightarrow> reference catalogue s = Some name \<and> name \<notin> set reached"
  "new_reference catalogue s reached = None \<Longrightarrow> reference catalogue s = Some name \<Longrightarrow> name \<in> set reached"
  by (auto simp: new_reference_def split: option.splits if_splits)

lemma walk_grows: "set reached \<subseteq> set (walk catalogue pending reached)"
  by (induction catalogue pending reached rule: walk.induct) (auto split: option.splits)

text \<open>Whatever is pending, the walk reaches all it refers to, and it follows every component it adds.\<close>

lemma walk_complete:
  "(\<forall>s \<in> set pending. \<forall>n. refers catalogue s n \<longrightarrow> n \<in> set (walk catalogue pending reached)) \<and>
   (\<forall>n \<in> set (walk catalogue pending reached) - set reached. \<forall>m. refers catalogue (vget catalogue n) m \<longrightarrow>
      m \<in> set (walk catalogue pending reached))"
proof (induction catalogue pending reached rule: walk.induct)
  case (2 catalogue schema pending reached)
  show ?case
  proof (cases "new_reference catalogue schema reached")
    case None
    then have "reference catalogue schema = Some n \<Longrightarrow> n \<in> set (walk catalogue (inner_schemas schema @ pending) reached)" for n
      using walk_grows new_reference_simps(2) by blast
    then show ?thesis using 2(1) [OF None] None refers_unfold [of catalogue schema] by auto
  next
    case (Some name)
    let ?W = "walk catalogue (vget catalogue name # inner_schemas schema @ pending) (name # reached)"
    have "name \<in> set ?W" by (rule subsetD [OF walk_grows]) simp
    have r: "reference catalogue schema = Some name" using new_reference_simps(1) [OF Some] by blast
    have w: "walk catalogue (schema # pending) reached = ?W" by (subst walk.simps(2)) (simp only: Some option.case)
    note ih = conjunct1 [OF 2(2) [OF Some]] conjunct2 [OF 2(2) [OF Some]]
    have ih1: "n \<in> set ?W" if "x = vget catalogue name \<or> x \<in> set (inner_schemas schema) \<or> x \<in> set pending" "refers catalogue x n" for x n
      using ih(1) that unfolding set_simps set_append by blast
    have "n \<in> set ?W" if "s = schema \<or> s \<in> set pending" "refers catalogue s n" for s n
    proof (cases "s = schema")
      case True
      then have "refers catalogue schema n" using that(2) by simp
      then consider "n = name" | x where "x \<in> set (inner_schemas schema)" "refers catalogue x n"
        using r refers_unfold [THEN iffD1, of catalogue schema n] by auto
      then show ?thesis using \<open>name \<in> set ?W\<close> ih1 by cases blast+
    next
      case False
      then show ?thesis using that ih1 by blast
    qed
    moreover have "m \<in> set ?W" if "n \<in> set ?W - set reached" "refers catalogue (vget catalogue n) m" for n m
    proof (cases "n = name")
      case True
      then show ?thesis using that(2) ih1 by blast
    next
      case False
      then have "n \<in> set ?W - set (name # reached)" using that(1) unfolding set_simps by blast
      with that(2) ih(2) show ?thesis by blast
    qed
    ultimately show ?thesis unfolding w by (simp only: set_simps insert_iff) blast
  qed
qed simp

lemma walk_sound:
  "n \<in> set (walk catalogue pending reached) \<Longrightarrow> n \<in> set reached \<or> (\<exists>s \<in> set pending. reaches catalogue s n)"
proof (induction catalogue pending reached rule: walk.induct)
  case (2 catalogue schema pending reached)
  show ?case
  proof (cases "new_reference catalogue schema reached")
    case None
    then show ?thesis using 2(1) [OF None] 2(3) reaches_inner [of catalogue _ n schema] by auto
  next
    case (Some name)
    then have "reaches catalogue schema name"
      using new_reference_simps(1) [OF Some] refers_unfold by (blast intro: reaches.direct)
    then show ?thesis using 2(2) [OF Some] 2(3) Some reaches_inner [of catalogue _ n schema] reaches_through by auto
  qed
qed simp

lemma reachable_exact: "set (reachable_names catalogue roots) = {n. \<exists>s \<in> set roots. reaches catalogue s n}"
proof (intro set_eqI iffI)
  fix n
  show "n \<in> set (reachable_names catalogue roots) \<Longrightarrow> n \<in> {n. \<exists>s \<in> set roots. reaches catalogue s n}"
    using walk_sound [of n catalogue roots "[]"] by (simp add: reachable_names_def)
  assume "n \<in> {n. \<exists>s \<in> set roots. reaches catalogue s n}"
  then obtain s where "s \<in> set roots" "reaches catalogue s n" by blast
  from this(2,1) show "n \<in> set (reachable_names catalogue roots)"
    using walk_complete [of roots catalogue "[]"] unfolding reachable_names_def by (induction rule: reaches.induct) auto
qed

section \<open>The hash of a topic does not depend on the other components\<close>

text \<open>
  Objects with distinct keys and no \<open>not\<close>, at any depth: the normalizer of the hashes follows \<open>not\<close>, the walk does not.
\<close>

fun plain_schema :: "pyval \<Rightarrow> bool" where
  "plain_schema (VDict ms) = (dict_ok ms \<and> \<not> dict_mem ''not'' ms \<and> list_all (\<lambda>(k, v). plain_schema v) ms)"
| "plain_schema (VList vs) = list_all plain_schema vs"
| "plain_schema _ = True"

lemma plain_member: "plain_schema (VDict ms) \<Longrightarrow> (k, v) \<in> set ms \<Longrightarrow> plain_schema v \<and> vget ms k = v"
  by (auto simp: list_all_iff vget_def dict_ok_def)

lemma normalized_inner:
  assumes "plain_schema (VDict ms)" "(k, v) \<in> set ms" "x \<in> schemas_below k v" "is_dict x"
  shows "x \<in> set (inner_schemas (VDict ms))" "plain_schema x"
proof -
  have v: "plain_schema v" "vget ms k = v" using plain_member [OF assms(1,2)] by auto
  have "k \<noteq> ''not''" using assms(1,2) by (force simp: dict_mem_iff)
  then have k: "k \<in> set SINGLE_SCHEMA_KEYS \<Longrightarrow> k = ''items'' \<or> k = ''additionalProperties''"
      "k \<in> set LIST_SCHEMA_KEYS \<Longrightarrow> k = ''allOf'' \<or> k = ''anyOf'' \<or> k = ''oneOf''"
    by (auto simp: SINGLE_SCHEMA_KEYS_def LIST_SCHEMA_KEYS_def)
  have "x \<in> set (schema_children ms) \<and> plain_schema x"
  proof (cases v)
    case (VDict ps)
    then show ?thesis using assms(3) v k(1)
      by (auto simp: schemas_below_def schema_children_def list_all_iff image_iff split: if_splits) force+
  next
    case (VList vs)
    then show ?thesis using assms(3) v k(2) by (auto simp: schemas_below_def schema_children_def list_all_iff split: if_splits)
  qed (use assms(3) in \<open>simp_all add: schemas_below_def\<close>)
  then show "x \<in> set (inner_schemas (VDict ms))" "plain_schema x" using assms(4) by (simp_all add: inner_schemas_def)
qed

definition restrict :: "string set \<Rightarrow> pydict \<Rightarrow> pydict" where
  "restrict R catalogue = filter (\<lambda>(name, _). name \<in> R) catalogue"

lemma restrict_get: "map_of (restrict R catalogue) name = (if name \<in> R then map_of catalogue name else None)"
  unfolding restrict_def by (induction catalogue) auto

lemma normalize_restrict:
  "plain_schema s \<Longrightarrow> \<forall>(name, e) \<in> set catalogue. plain_schema e \<Longrightarrow> \<forall>n. refers catalogue s n \<longrightarrow> n \<in> R \<Longrightarrow>
   \<forall>n \<in> R. \<forall>m. refers catalogue (vget catalogue n) m \<longrightarrow> m \<in> R \<Longrightarrow>
   normalize s (restrict R catalogue) ex = normalize s catalogue ex"
proof (induction s catalogue ex rule: normalize.induct)
  case (1 s catalogue ex)
  show ?case
  proof (cases s)
    case (VDict ms)
    show ?thesis
    proof (cases "schema_ref ms")
      case None
      have "normalize x (restrict R catalogue) ex = normalize x catalogue ex" if "(k, v) \<in> set ms" "x \<in> schemas_below k v" for k v x
      proof (cases "is_dict x")
        case True
        note i = normalized_inner [OF 1(3) [unfolded VDict] that True]
        have "\<forall>n. refers catalogue x n \<longrightarrow> n \<in> R"
          using 1(5) i(1) refers_unfold [of catalogue s] by (auto simp: VDict)
        from 1(1) [OF VDict None that i(2) 1(4) this 1(6)] show ?thesis .
      next
        case False
        then show ?thesis by (cases x) (simp_all add: is_dict_def normalize_simps)
      qed
      then have "kept_members (\<lambda>x. normalize x (restrict R catalogue) ex) ms = kept_members (\<lambda>x. normalize x catalogue ex) ms"
        by (intro kept_members_cong) simp_all
      then show ?thesis by (simp add: VDict None normalize_simps)
    next
      case (Some name)
      show ?thesis
      proof (cases "dict_mem name catalogue")
        case False
        then have "catalogue_entry (restrict R catalogue) name = VDict []" "catalogue_entry catalogue name = VDict []"
          by (simp_all add: catalogue_entry_def restrict_get dict_mem_def)
        moreover have "normalize (VDict []) c e = normalize (VDict []) c' e" for c c' e
          by (simp add: normalize_simps schema_ref_def vget_def kept_members_def)
        ultimately show ?thesis using Some by (simp add: VDict normalize_simps)
      next
        case True
        then have r: "reference catalogue s = Some name" by (simp add: VDict Some reference_def)
        then have n: "name \<in> R" using 1(5) refers_unfold by blast
        obtain e where e: "map_of catalogue name = Some e" using True by (auto simp: dict_mem_def)
        then have v: "vget catalogue name = e" "catalogue_entry catalogue name = e" "catalogue_entry (restrict R catalogue) name = e"
          using n by (simp_all add: vget_def catalogue_entry_def restrict_get)
        have "plain_schema e" using 1(4) e by (force dest: map_of_SomeD)
        then show ?thesis
          using 1(2) [OF VDict Some _ _ 1(4) _ 1(6)] bspec [OF 1(6) n] v Some by (simp add: VDict normalize_simps)
      qed
    qed
  qed (simp_all add: normalize_simps)
qed

lemma project_entry_cong:
  assumes "\<And>name v. dict_get entry name = Some v \<Longrightarrow> name \<in> set SCHEMA_FIELDS \<Longrightarrow> normalize_schema v cat = normalize_schema v cat'"
  shows "project_entry entry allowed cat = project_entry entry allowed cat'"
  using assms by (induction allowed) (auto simp: project_field_def split: option.split)

lemma schema_catalogue_raw: "schema_catalogue (to_raw_document d) = cd_schemas d"
  by (simp add: schema_catalogue_def to_raw_document_def vget_def unless_none_def)

lemma raw_members:
  "vget (to_raw_document d) ''requests'' = VList (map (VDict \<circ> raw_request) (cd_requests d))"
  "vget (to_raw_document d) ''events'' = VList (map (VDict \<circ> raw_event) (cd_events d))"
  "vget (to_raw_document d) ''sends'' = VList (map (VDict \<circ> raw_send) (cd_sends d))"
  "vget (to_raw_document d) ''components'' = VDict [(''schemas'', VDict (cd_schemas d))]"
  by (simp_all add: to_raw_document_def vget_def unless_none_def)

lemma find_requestD: "find_request d topic version = Some r \<Longrightarrow> r \<in> set (cd_requests d) \<and> cq_topic r = VStr topic"
  by (auto simp: find_request_def find_Some_iff)

lemma raw_schema_field:
  "dict_get (raw_request r) name = Some v \<Longrightarrow> name \<in> set SCHEMA_FIELDS \<Longrightarrow> v = cq_request r \<or> v = cq_response r"
  by (auto simp: raw_request_def unless_none_def SCHEMA_FIELDS_def split: if_splits)

text \<open>
  C37. A client for one topic is scoped exactly. Its components are those its request and response reach, directly or through
  other components, cycles included, and no others; narrowing the catalogue to them does not move the contract hash of
  the topic, so that it can be compared with one computed over the whole document.
\<close>

theorem topic_scope_exact:
  assumes d: "find_request d topic None = Some r" "topic_projection d topic = Inr p"
    and plain: "plain_schema (cq_request r)" "plain_schema (cq_response r)" "\<forall>(name, e) \<in> set (cd_schemas d). plain_schema e"
  shows "cd_requests p = [r] \<and>
    (\<forall>name. dict_get (cd_schemas p) name = (if reaches (cd_schemas d) (cq_request r) name \<or> reaches (cd_schemas d) (cq_response r) name
       then dict_get (cd_schemas d) name else None)) \<and>
    compute jcs sha256 p = compute jcs sha256 (d\<lparr>cd_requests := [r], cd_events := [], cd_sends := []\<rparr>)"
proof -
  let ?cat = "cd_schemas d"
  define R where "R = {n. reaches ?cat (cq_request r) n \<or> reaches ?cat (cq_response r) n}"
  have p: "p = drop_hashes (d\<lparr>cd_requests := [r], cd_events := [], cd_sends := [], cd_schemas := topic_closure d r\<rparr>)"
    using d by (simp add: topic_projection_def)
  have c: "topic_closure d r = restrict R ?cat"
    by (simp add: topic_closure_def reachable_schemas_def restrict_def reachable_exact R_def)
  let ?d = "d\<lparr>cd_requests := [r], cd_events := [], cd_sends := []\<rparr>"
  have closed: "\<forall>n \<in> R. \<forall>m. refers ?cat (vget ?cat n) m \<longrightarrow> m \<in> R" by (auto simp: R_def intro: reaches.through)
  have "normalize_schema v (restrict R ?cat) = normalize_schema v ?cat" if "v = cq_request r \<or> v = cq_response r" for v
    unfolding normalize_schema_def
    by (rule normalize_restrict [OF _ plain(3) _ closed]) (use that plain in \<open>auto simp: R_def intro: reaches.direct\<close>)
  then have "project_entry (raw_request r) allowed (restrict R ?cat) = project_entry (raw_request r) allowed ?cat" for allowed
    using raw_schema_field by (intro project_entry_cong) metis
  then have "each (\<lambda>e. project_entry e allowed (restrict R ?cat)) es = each (\<lambda>e. project_entry e allowed ?cat) es"
    if "set es \<subseteq> {raw_request r}" for allowed es
    using that by (induction es) auto
  moreover have "set (List.map_filter contract_entry [VDict (raw_request r)]) \<subseteq> {raw_request r}"
    by (auto simp: List.map_filter_simps contract_entry_def)
  ultimately have "project_member (to_raw_document p) m = project_member (to_raw_document ?d) m" if "m \<in> {''requests'', ''events''}" for m
    using that by (auto simp: project_member_def contract_entries_def raw_members schema_catalogue_raw p c drop_hashes_def elements_of_def
        List.map_filter_simps split: option.split)
  then have "projection (to_raw_document p) [''requests'', ''events''] = projection (to_raw_document ?d) [''requests'', ''events'']"
    by (simp add: projection_def)
  then have "compute jcs sha256 p = compute jcs sha256 ?d" by (simp add: compute_def contract_hash_def)
  then show ?thesis by (auto simp: p c drop_hashes_def restrict_get R_def)
qed

text \<open>A document with a tree, and a component of another topic.\<close>

definition tree_schema :: pyval where
  "tree_schema = VDict [(''type'', VStr ''object''), (''properties'',
     VDict [(''children'', VDict [(''type'', VStr ''array''), (''items'', VDict [(''$ref'', VStr (SCHEMA_REF_PREFIX @ ''Tree''))])])])]"

definition tree_request :: client_request where
  "tree_request = \<lparr>cq_topic = VStr ''tree:put'', cq_request = VDict [(''$ref'', VStr (SCHEMA_REF_PREFIX @ ''Tree''))], cq_response = VNone,
     cq_version = VNone, cq_http_mappings = []\<rparr>"

definition tree_document :: client_document where
  "tree_document = \<lparr>cd_schema_dialect = ''openapi-3.0'', cd_service = ''trees'', cd_service_version = VNone, cd_version_scheme = VNone,
     cd_description = VNone, cd_requests = [tree_request], cd_events = [], cd_sends = [],
     cd_schemas = [(''Leaf'', VDict []), (''Tree'', tree_schema)], cd_message_endpoint = VNone, cd_transports = [],
     cd_contract_hash = VNone, cd_registration_hash = VNone\<rparr>"

theorem topic_scope_exact_witness:
  "\<exists>p. topic_projection tree_document ''tree:put'' = Inr p \<and> map fst (cd_schemas p) = [''Tree''] \<and>
     compute (\<lambda>v. Inr (repr_val v)) id p = compute (\<lambda>v. Inr (repr_val v)) id tree_document"
proof -
  have f: "find_request tree_document ''tree:put'' None = Some tree_request" by code_simp
  have "case topic_projection tree_document ''tree:put'' of Inl _ \<Rightarrow> False | Inr p \<Rightarrow> map fst (cd_schemas p) = [''Tree'']" by code_simp
  then obtain p where p: "topic_projection tree_document ''tree:put'' = Inr p" "map fst (cd_schemas p) = [''Tree'']"
    by (auto split: sum.splits)
  have plain: "plain_schema (cq_request tree_request)" "plain_schema (cq_response tree_request)"
      "\<forall>(name, e) \<in> set (cd_schemas tree_document). plain_schema e" by code_simp+
  have "tree_document\<lparr>cd_requests := [tree_request], cd_events := [], cd_sends := []\<rparr> = tree_document" by (simp add: tree_document_def)
  then show ?thesis using topic_scope_exact [OF f p(1) plain] p by auto
qed

text \<open>
  The hypothesis on \<open>not\<close> is needed: a component that is only referred to under \<open>not\<close> is left out of the
  projection, and with it from the hash.
\<close>

definition not_document :: client_document where
  "not_document = tree_document\<lparr>cd_requests := [tree_request\<lparr>cq_request := VDict [(''not'', VDict [(''$ref'', VStr (SCHEMA_REF_PREFIX @ ''Tree''))])]\<rparr>]\<rparr>"

lemma not_is_not_followed:
  "\<exists>p. topic_projection not_document ''tree:put'' = Inr p \<and> cd_schemas p = [] \<and>
     projection (to_raw_document p) [''requests''] \<noteq> projection (to_raw_document not_document) [''requests'']"
proof -
  have "case topic_projection not_document ''tree:put'' of Inl _ \<Rightarrow> False | Inr p \<Rightarrow> cd_schemas p = [] \<and>
     projection (to_raw_document p) [''requests''] \<noteq> projection (to_raw_document not_document) [''requests'']" by code_simp
  then show ?thesis by (auto split: sum.splits)
qed

section \<open>A client embeds the hash its service serves\<close>

text \<open>What a document says of an entry is what a client reads and writes back.\<close>

lemma vget_payloads:
  "vget (request_payload e) ''topic'' = VStr (cr_topic e)" "vget (request_payload e) ''request'' = cr_request e"
  "vget (request_payload e) ''version'' = (if cr_version e = [] then VNone else VStr (cr_version e))"
  "vget (request_payload e) ''response'' = (case cr_response e of None \<Rightarrow> VNone | Some v \<Rightarrow> v)"
  "vget (request_payload e) ''httpMappings'' =
     (if cr_http_mappings e = [] then VNone else VList (map (VDict \<circ> mapping_payload) (cr_http_mappings e)))"
  by (simp_all add: request_payload_def some_text_def some_schema_def vget_def split: option.split)

lemma parse_mappings:
  "each parse_mapping (map (VDict \<circ> mapping_payload) ms) =
     Inr (map (\<lambda>m. \<lparr>cm_method = VStr (rm_method m), cm_path = VStr (rm_path m)\<rparr>) ms)"
  by (induction ms) (simp_all add: parse_mapping_def subscript_def mapping_payload_def)

lemma parse_request_payload:
  assumes "is_dict (cr_request e)" "\<And>v. cr_response e = Some v \<Longrightarrow> is_dict v"
  shows "\<exists>r. parse_request (request_payload e) = Inr r \<and> raw_request r = request_payload e"
proof -
  let ?ms = "map (\<lambda>m. \<lparr>cm_method = VStr (rm_method m), cm_path = VStr (rm_path m)\<rparr>) (cr_http_mappings e)"
  let ?r = "\<lparr>cq_topic = VStr (cr_topic e), cq_request = cr_request e, cq_response = (case cr_response e of None \<Rightarrow> VNone | Some v \<Rightarrow> v),
     cq_version = (if cr_version e = [] then VNone else VStr (cr_version e)), cq_http_mappings = ?ms\<rparr>"
  have "elements_or_none (vget (request_payload e) ''httpMappings'') = Inr (map (VDict \<circ> mapping_payload) (cr_http_mappings e))"
    by (simp add: vget_payloads elements_or_none_def elements_of_def)
  moreover have "v_or (cr_request e) (VDict []) = cr_request e"
    using assms(1) by (cases "cr_request e") (simp_all add: is_dict_def v_or_def)
  ultimately have "parse_request (request_payload e) = Inr ?r"
    by (simp add: parse_request_def parse_mappings vget_payloads del: map_map)
  moreover have "v \<noteq> VNone" if "cr_response e = Some v" for v using assms(2) [OF that] by (auto simp: is_dict_def)
  then have "raw_request ?r = request_payload e"
    by (cases "cr_response e") (auto simp: raw_request_def request_payload_def unless_none_def some_text_def some_schema_def
        mapping_payload_def)
  ultimately show ?thesis by blast
qed

lemma parse_event_payload: "is_dict (ce_message e) \<Longrightarrow> raw_event (parse_event (event_payload e)) = event_payload e"
  by (cases "ce_message e") (simp_all add: raw_event_def parse_event_def event_payload_def vget_def some_text_def unless_none_def v_or_def is_dict_def)

lemma parse_send_payload:
  assumes "is_dict (cs_request e)" "\<And>v. cs_response e = Some v \<Longrightarrow> is_dict v"
  shows "raw_send (parse_send (send_payload e)) = send_payload e"
proof -
  have "v_or (cs_request e) (VDict []) = cs_request e"
    using assms(1) by (cases "cs_request e") (simp_all add: is_dict_def v_or_def)
  moreover have "v \<noteq> VNone" if "cs_response e = Some v" for v using assms(2) [OF that] by (auto simp: is_dict_def)
  ultimately show ?thesis
    by (cases "cs_response e") (auto simp: raw_send_def parse_send_def send_payload_def vget_def some_text_def some_schema_def unless_none_def)
qed

lemma domain_entries_payload:
  assumes "vget data member = VList (map (VDict \<circ> f) es)"
    and "\<And>e. e \<in> set es \<Longrightarrow> \<exists>t. dict_get (f e) ''topic'' = Some (VStr t) \<and> \<not> is_reserved_topic t"
  shows "domain_entries data member = Inr (map f es)"
proof -
  have "each (domain_entry member) (map (VDict \<circ> f) es) = Inr (map (Some \<circ> f) es)"
    using assms(2) by (induction es) (fastforce simp: domain_entry_def)+
  moreover have "List.map_filter id (map (Some \<circ> f) es) = map f es" by (induction es) (simp_all add: List.map_filter_simps)
  moreover have "elements_or_none (vget data member) = Inr (map (VDict \<circ> f) es)"
    by (simp add: assms(1) elements_or_none_def elements_of_def)
  ultimately show ?thesis by (simp add: domain_entries_def)
qed

text \<open>Documents whose entries have schemas and topics that are not reserved; a derived document is one.\<close>

definition entries_ok :: "contract_document \<Rightarrow> bool" where
  "entries_ok d \<longleftrightarrow> list_all is_dict (entry_schemas d) \<and>
     list_all (\<lambda>t. \<not> is_reserved_topic t) (map cr_topic (doc_requests d) @ map ce_topic (doc_events d) @ map cs_topic (doc_sends d))"

lemma entries_okD:
  assumes "entries_ok d"
  shows "e \<in> set (doc_requests d) \<Longrightarrow> is_dict (cr_request e) \<and> (\<forall>v. cr_response e = Some v \<longrightarrow> is_dict v) \<and> \<not> is_reserved_topic (cr_topic e)"
    "v \<in> set (doc_events d) \<Longrightarrow> is_dict (ce_message v) \<and> \<not> is_reserved_topic (ce_topic v)"
    "s \<in> set (doc_sends d) \<Longrightarrow> is_dict (cs_request s) \<and> (\<forall>v. cs_response s = Some v \<longrightarrow> is_dict v) \<and> \<not> is_reserved_topic (cs_topic s)"
  using assms by (force simp: entries_ok_def entry_schemas_def list_all_iff)+

lemma renamed_dict: "finish cat = Inr (schemas, rename) \<Longrightarrow> is_dict (rename (VDict s))"
  by (auto simp: finish_def and_then_def is_dict_def split: sum.splits prod.splits option.splits)

lemma built_topics:
  "set (map cr_topic (doc_requests (build_document info endpoint routes schemas rename (zip hs rs) (zip evs es) (zip sds ss)))) \<subseteq> set (map hd_topic hs)"
  "set (map ce_topic (doc_events (build_document info endpoint routes schemas rename (zip hs rs) (zip evs es) (zip sds ss)))) \<subseteq> set (map ed_topic evs)"
  "set (map cs_topic (doc_sends (build_document info endpoint routes schemas rename (zip hs rs) (zip evs es) (zip sds ss)))) \<subseteq> set (map sd_topic sds)"
  by (auto simp: build_document_def dest!: set_zip_leftD)

lemma derived_entries_ok:
  assumes "derive_document ct annotation_of defs info outbound endpoint routes = Inr doc"
  shows "entries_ok doc"
proof -
  let ?hs = "filter (\<lambda>d. \<not> is_reserved_topic (hd_topic d)) defs"
  let ?evs = "case outbound of None \<Rightarrow> [] | Some o_reg \<Rightarrow> filter (\<lambda>d. \<not> is_reserved_topic (ed_topic d)) (outbound_events o_reg)"
  let ?sds = "case outbound of None \<Rightarrow> [] | Some o_reg \<Rightarrow> filter (\<lambda>d. \<not> is_reserved_topic (sd_topic d)) (outbound_sends o_reg)"
  from assms obtain rs es ss cat schemas rename where
    f: "finish cat = Inr (schemas, rename)"
    and doc: "doc = build_document info endpoint routes schemas rename (zip ?hs rs) (zip ?evs es) (zip ?sds ss)"
    by (rule derive_document_Inr)
  have "is_dict v" if "v \<in> set (entry_schemas doc)" for v
    using build_document_schemas [OF that [unfolded doc]] renamed_dict [OF f] by blast
  moreover have "\<not> is_reserved_topic t" if "t \<in> set (map hd_topic ?hs) \<union> set (map ed_topic ?evs) \<union> set (map sd_topic ?sds)" for t
    using that by (auto split: option.splits)
  then have "\<not> is_reserved_topic t"
    if "t \<in> set (map cr_topic (doc_requests doc) @ map ce_topic (doc_events doc) @ map cs_topic (doc_sends doc))" for t
    using that built_topics [of info endpoint routes schemas rename ?hs rs ?evs es ?sds ss, folded doc] unfolding set_append by blast
  ultimately show ?thesis unfolding entries_ok_def list_all_iff by blast
qed

lemma head_transports: "\<exists>ts. elements_or_none (vget (document_head d) ''transports'') = Inr ts"
  by (cases "doc_transports d") (auto simp: vget_def document_head_def some_text_def some_dict_def some_texts_def elements_or_none_def
      elements_of_def split: option.splits)

lemma each_parse_requests:
  assumes "\<And>e. e \<in> set es \<Longrightarrow> \<exists>r. parse_request (request_payload e) = Inr r \<and> raw_request r = request_payload e"
  shows "\<exists>rs. each parse_request (map request_payload es) = Inr rs \<and> map raw_request rs = map request_payload es"
  using assms
proof (induction es)
  case (Cons e es)
  then obtain rs r where "each parse_request (map request_payload es) = Inr rs" "map raw_request rs = map request_payload es"
    "parse_request (request_payload e) = Inr r" "raw_request r = request_payload e" by (metis list.set_intros)
  then show ?case by (intro exI [of _ "r # rs"]) simp
qed simp

text \<open>A served document, parsed: what is read back is what was derived.\<close>

lemma parse_served:
  assumes ok: "entries_ok d" and p: "to_payload jcs sha256 d = Inr p"
  shows "\<exists>cd. parse_document (VDict p) = Inr cd \<and>
    (\<forall>m \<in> {''requests'', ''events'', ''sends'', ''components''}. vget (to_raw_document cd) m = vget (document_body d) m)"
proof -
  have m: "vget p m = vget (document_body d) m" if "m \<in> {''requests'', ''events'', ''sends'', ''components''}" for m
    using payload_members [OF p] that by blast
  have h: "vget p m = vget (document_head d) m" if "m \<in> {''schemaDialect'', ''service'', ''transports''}" for m
    by (rule payload_head [OF p]) (use that in auto)
  have b: "vget (document_body d) ''requests'' = VList (map (VDict \<circ> request_payload) (doc_requests d))"
    "vget (document_body d) ''events'' = VList (map (VDict \<circ> event_payload) (doc_events d))"
    "vget (document_body d) ''sends'' = VList (map (VDict \<circ> send_payload) (doc_sends d))"
    "vget (document_body d) ''components'' = VDict [(''schemas'', VDict (doc_schemas d))]"
    by (simp_all add: document_body_def vget_def)
  have "domain_entries p ''requests'' = Inr (map request_payload (doc_requests d))"
    by (rule domain_entries_payload) (use m b entries_okD(1) [OF ok] in \<open>auto simp: request_payload_def\<close>)
  moreover have "domain_entries p ''events'' = Inr (map event_payload (doc_events d))"
    by (rule domain_entries_payload) (use m b entries_okD(2) [OF ok] in \<open>auto simp: event_payload_def\<close>)
  moreover have "domain_entries p ''sends'' = Inr (map send_payload (doc_sends d))"
    by (rule domain_entries_payload) (use m b entries_okD(3) [OF ok] in \<open>auto simp: send_payload_def\<close>)
  moreover obtain rs where rs: "each parse_request (map request_payload (doc_requests d)) = Inr rs"
      "map raw_request rs = map request_payload (doc_requests d)"
    using each_parse_requests [OF parse_request_payload] entries_okD(1) [OF ok] by blast
  moreover have "parse_schemas (vget p ''components'') = Inr (doc_schemas d)"
    using m [of "''components''"] b(4) by (auto simp: parse_schemas_def v_or_def vget_def)
  moreover obtain ts where "elements_or_none (vget p ''transports'') = Inr ts"
    using h [of "''transports''"] head_transports [of d] by auto
  moreover have "vget p ''schemaDialect'' = VStr ''openapi-3.0''"
    using h [of "''schemaDialect''"] by (simp add: head_identity SCHEMA_DIALECT_def)
  ultimately obtain cd where cd: "parse_document (VDict p) = Inr cd" "cd_requests cd = rs"
      "cd_events cd = map parse_event (map event_payload (doc_events d))" "cd_sends cd = map parse_send (map send_payload (doc_sends d))"
      "cd_schemas cd = doc_schemas d"
    by (simp add: parse_document_def KNOWN_SCHEMA_DIALECTS_def Let_def)
  have "map (VDict \<circ> raw_request) rs = map (VDict \<circ> request_payload) (doc_requests d)"
    using rs(2) by (metis map_map)
  moreover have "map (VDict \<circ> raw_event) (cd_events cd) = map (VDict \<circ> event_payload) (doc_events d)"
    using entries_okD(2) [OF ok] by (simp add: cd parse_event_payload)
  moreover have "map (VDict \<circ> raw_send) (cd_sends cd) = map (VDict \<circ> send_payload) (doc_sends d)"
    using entries_okD(3) [OF ok] by (simp add: cd parse_send_payload)
  ultimately show ?thesis using cd(1,2,5) by (intro exI [of _ cd]) (simp add: raw_members b)
qed

text \<open>What the generator computes from a served document it has parsed: the topics and hashes that were served.\<close>

lemma served_hashes:
  assumes "derive_document ct annotation_of defs info outbound endpoint routes = Inr doc" "to_payload jcs sha256 doc = Inr p"
  shows "\<exists>cd h r. parse_document (VDict p) = Inr cd \<and> map cq_topic (cd_requests cd) = map (VStr \<circ> cr_topic) (doc_requests doc) \<and>
    compute jcs sha256 (drop_hashes cd) = Inr h \<and> vget p ''contractHash'' = VStr h \<and>
    compute_registration jcs sha256 (drop_hashes cd) = Inr r \<and> vget p ''registrationHash'' = VStr r"
proof -
  obtain cd where cd: "parse_document (VDict p) = Inr cd"
      "\<And>m. m \<in> {''requests'', ''events'', ''sends'', ''components''} \<Longrightarrow> vget (to_raw_document cd) m = vget (document_body doc) m"
    using parse_served [OF derived_entries_ok [OF assms(1)] assms(2)] by blast
  obtain h r where hr: "contract_hash jcs sha256 (document_body doc) = Inr h" "registration_hash jcs sha256 (document_body doc) = Inr r"
      "vget p ''contractHash'' = VStr h" "vget p ''registrationHash'' = VStr r"
    using payload_members [OF assms(2)] by blast
  have "map (VDict \<circ> raw_request) (cd_requests cd) = map (VDict \<circ> request_payload) (doc_requests doc)"
    using cd(2) [of "''requests''"] by (simp add: raw_members document_body_def vget_def [of "_ # _"])
  then have "map (\<lambda>v. case v of VDict d \<Rightarrow> vget d ''topic'' | _ \<Rightarrow> VNone) (map (VDict \<circ> raw_request) (cd_requests cd)) =
      map (\<lambda>v. case v of VDict d \<Rightarrow> vget d ''topic'' | _ \<Rightarrow> VNone) (map (VDict \<circ> request_payload) (doc_requests doc))" by simp
  then have "map cq_topic (cd_requests cd) = map (VStr \<circ> cr_topic) (doc_requests doc)"
    by (simp add: comp_def raw_request_def request_payload_def vget_def)
  moreover have "vget (to_raw_document (drop_hashes cd)) m = vget (document_body doc) m"
    if "m \<in> {''requests'', ''events'', ''sends'', ''components''}" for m
    using cd(2) [OF that] that by (auto simp: raw_members drop_hashes_def)
  from projection_cong [OF this] hr
  have "compute jcs sha256 (drop_hashes cd) = Inr h" "compute_registration jcs sha256 (drop_hashes cd) = Inr r"
    by (simp_all add: compute_def compute_registration_def contract_hash_def registration_hash_def)
  ultimately show ?thesis using cd(1) hr by blast
qed

end
