(* ===== verification/ClientNames.thy ===== *)
theory ClientNames
  imports PayloadMapping Dynamic
begin

text \<open>
  \<open>benzene.codegen_client.naming\<close>: the Python names of a generated client. A topic, a component or a property is
  split into words, which are joined to the name of a method, a module, a class or a field. Whatever the topic, its names are Python
  identifiers; a field is read from the property it is named after.
\<close>

section \<open>Words\<close>

definition ascii_upper :: "char \<Rightarrow> bool" where
  "ascii_upper c = (let n = of_char c :: nat in 65 \<le> n \<and> n \<le> 90)"

definition ascii_lower :: "char \<Rightarrow> bool" where
  "ascii_lower c = (let n = of_char c :: nat in 97 \<le> n \<and> n \<le> 122)"

definition word_char :: "char \<Rightarrow> bool" where
  "word_char c = (is_digit c \<or> ascii_upper c \<or> ascii_lower c)"

text \<open>The parts between the matches of \<open>[^0-9a-zA-Z]+\<close> that are not empty.\<close>

function word_chunks :: "string \<Rightarrow> string list" where
  "word_chunks s = (case dropWhile (\<lambda>c. \<not> word_char c) s of
     [] \<Rightarrow> []
   | c # t \<Rightarrow> (c # takeWhile word_char t) # word_chunks (dropWhile word_char t))"
  by pat_completeness auto
termination
proof (relation "measure length")
  fix s :: string and c t
  assume "dropWhile (\<lambda>c. \<not> word_char c) s = c # t"
  then have "length t < length s" using length_dropWhile_le [of "\<lambda>c. \<not> word_char c" s] by simp
  then show "(dropWhile word_char t, s) \<in> measure length"
    using length_dropWhile_le [of word_char t] by simp
qed simp

text \<open>
  The length of the match of \<open>[A-Z]+(?=[A-Z][a-z])|[A-Z]?[a-z0-9]+|[A-Z]+|[0-9]+\<close> at the start of a text, 0 for none: after a
  run of capitals, the first alternative gives all but the last of several when a small letter follows, the second takes at
  most one, the third is the whole run; digits alone are a match of the second.
\<close>

definition camel_match :: "string \<Rightarrow> nat" where
  "camel_match s =
     (let u = length (takeWhile ascii_upper s);
          r = dropWhile ascii_upper s;
          w = length (takeWhile (\<lambda>c. ascii_lower c \<or> is_digit c) r)
      in if 2 \<le> u \<and> r \<noteq> [] \<and> ascii_lower (hd r) then u - 1
         else if u \<le> 1 \<and> 0 < w then u + w
         else u)"

function camel_words :: "string \<Rightarrow> string list" where
  "camel_words s = (if s = [] then [] else if camel_match s = 0 then camel_words (tl s)
     else take (camel_match s) s # camel_words (drop (camel_match s) s))"
  by pat_completeness auto
termination by (relation "measure length") auto

declare word_chunks.simps [simp del] camel_words.simps [simp del]

definition segment_words :: "string \<Rightarrow> string list" where
  "segment_words segment = map py_lower (concat (map camel_words (word_chunks segment)))"

section \<open>Names\<close>

text \<open>\<open>keyword.kwlist\<close>\<close>

definition python_keywords :: "string list" where
  "python_keywords = [''False'', ''None'', ''True'', ''and'', ''as'', ''assert'', ''async'', ''await'', ''break'', ''class'', ''continue'',
     ''def'', ''del'', ''elif'', ''else'', ''except'', ''finally'', ''for'', ''from'', ''global'', ''if'', ''import'', ''in'', ''is'', ''lambda'',
     ''nonlocal'', ''not'', ''or'', ''pass'', ''raise'', ''return'', ''try'', ''while'', ''with'', ''yield'']"

text \<open>\<open>str.isdigit\<close> of a character: the digits and the superscripts.\<close>

definition char_isdigit :: "char \<Rightarrow> bool" where
  "char_isdigit c = (is_digit c \<or> (of_char c :: nat) \<in> {178, 179, 185})"

definition ensure_identifier :: "string \<Rightarrow> string" where
  "ensure_identifier name = (case name of
     [] \<Rightarrow> ''_''
   | c # _ \<Rightarrow> (let n = (if char_isdigit c then CHR ''_'' # name else name)
       in if n \<in> set python_keywords then n @ ''_'' else n))"

definition text_or :: "string \<Rightarrow> string \<Rightarrow> string" where
  "text_or s d = (if s = [] then d else s)"

definition default_method_name :: "string \<Rightarrow> string" where
  "default_method_name topic =
     ensure_identifier (text_or (py_join ''_'' (concat (map segment_words (rev (py_split CHR '':'' topic))))) ''call'')"

definition topic_identifier :: "string \<Rightarrow> string" where
  "topic_identifier topic =
     ensure_identifier (text_or (py_join ''_'' (concat (map segment_words (py_split CHR '':'' topic)))) ''topic'')"

definition upper_first :: "string \<Rightarrow> string" where
  "upper_first w = py_upper (take 1 w) @ drop 1 w"

definition client_class_name :: "string \<Rightarrow> string" where
  "client_class_name schema_name =
     (let pascal = text_or (concat (map upper_first (filter (\<lambda>w. w \<noteq> []) (segment_words schema_name)))) ''Schema''
      in if char_isdigit (hd pascal) then CHR ''_'' # pascal else pascal)"

definition client_field_name :: "string \<Rightarrow> string" where
  "client_field_name property_name =
     (let words = segment_words property_name
      in ensure_identifier (if words = [] then property_name else py_join ''_'' words))"

section \<open>What the words are\<close>

lemma camel_match_pos:
  assumes "s \<noteq> []" "word_char (hd s)"
  shows "0 < camel_match s"
proof (cases "ascii_upper (hd s)")
  case True
  then have "0 < length (takeWhile ascii_upper s)" using assms(1) by (cases s) simp_all
  then show ?thesis by (auto simp: camel_match_def Let_def)
next
  case False
  then have "dropWhile ascii_upper s = s" "takeWhile ascii_upper s = []" using assms(1) by (cases s; simp)+
  moreover have "takeWhile (\<lambda>c. ascii_lower c \<or> is_digit c) s \<noteq> []"
    using assms False by (cases s) (auto simp: word_char_def)
  ultimately show ?thesis by (simp add: camel_match_def Let_def)
qed

lemma camel_words_all: "\<forall>c \<in> set s. word_char c \<Longrightarrow> concat (camel_words s) = s \<and> [] \<notin> set (camel_words s)"
proof (induction s rule: camel_words.induct)
  case (1 s)
  show ?case
  proof (cases "s = []")
    case False
    then have p: "camel_match s \<noteq> 0" using camel_match_pos [of s] 1(3) by simp
    then have "concat (camel_words (drop (camel_match s) s)) = drop (camel_match s) s"
        "[] \<notin> set (camel_words (drop (camel_match s) s))"
      using 1(2) [OF False p] 1(3) set_drop_subset [of "camel_match s" s] by blast+
    then show ?thesis using False p by (simp add: camel_words.simps [of s])
  qed (simp add: camel_words.simps)
qed

lemma word_chunks_all:
  "concat (word_chunks s) = filter word_char s \<and> (\<forall>w \<in> set (word_chunks s). \<forall>c \<in> set w. word_char c)"
proof (induction s rule: word_chunks.induct)
  case (1 s)
  have f: "filter word_char (dropWhile (\<lambda>c. \<not> word_char c) t) = filter word_char t" for t
    by (induction t) simp_all
  show ?case
  proof (cases "dropWhile (\<lambda>c. \<not> word_char c) s")
    case Nil
    have "word_chunks s = []" by (subst word_chunks.simps) (simp only: Nil list.case)
    then show ?thesis using f [of s] Nil by simp
  next
    case (Cons c t)
    have "word_char c" using Cons hd_dropWhile [of "\<lambda>c. \<not> word_char c" s] by simp
    moreover have "filter word_char t = takeWhile word_char t @ filter word_char (dropWhile word_char t)"
      by (metis filter_append filter_True set_takeWhileD takeWhile_dropWhile_id)
    ultimately have "filter word_char s = c # takeWhile word_char t @ filter word_char (dropWhile word_char t)"
      using f [of s] Cons by simp
    moreover have "word_chunks s = (c # takeWhile word_char t) # word_chunks (dropWhile word_char t)"
      by (subst word_chunks.simps) (simp only: Cons list.case)
    ultimately show ?thesis using 1 [OF Cons] \<open>word_char c\<close> by (auto dest: set_takeWhileD)
  qed
qed

lemma concat_lower: "concat (map py_lower ws) = py_lower (concat ws)"
  by (induction ws) (simp_all add: py_lower_def)

lemma segment_words_all: "concat (segment_words s) = py_lower (filter word_char s)" "[] \<notin> set (segment_words s)"
proof -
  have "concat (concat (map camel_words ws)) = concat ws \<and> [] \<notin> set (concat (map camel_words ws))"
    if "\<forall>w \<in> set ws. \<forall>c \<in> set w. word_char c" for ws
    using that camel_words_all by (induction ws) auto
  note w = this [OF conjunct2 [OF word_chunks_all [of s]]]
  show "concat (segment_words s) = py_lower (filter word_char s)"
    unfolding segment_words_def concat_lower using w word_chunks_all [of s] by simp
  show "[] \<notin> set (segment_words s)" using w by (auto simp: segment_words_def py_lower_def simp del: set_concat)
qed

lemma lower_word: "word_char c \<Longrightarrow> word_char (lower_char c)"
proof -
  assume w: "word_char c"
  have "(of_char (char_of (of_char c + 32 :: nat) :: char) :: nat) = of_char c + 32" if "ascii_upper c"
    using that by (auto simp: ascii_upper_def Let_def)
  then show ?thesis using w
    by (auto simp: word_char_def lower_char_def is_upper_char_def ascii_upper_def ascii_lower_def is_digit_def Let_def)
qed

lemma word_chars: "w \<in> set (segment_words s) \<Longrightarrow> c \<in> set w \<Longrightarrow> word_char c \<and> \<not> ascii_upper c"
proof -
  assume "w \<in> set (segment_words s)" "c \<in> set w"
  then have "c \<in> set (concat (segment_words s))" by auto
  then obtain d where "c = lower_char d" "word_char d" unfolding segment_words_all by (auto simp: py_lower_def)
  then show ?thesis using lower_word lower_char_not_upper [of d]
    by (auto simp: ascii_upper_def is_upper_char_def Let_def)
qed

section \<open>Names are identifiers\<close>

definition name_char :: "char \<Rightarrow> bool" where
  "name_char c = (word_char c \<or> c = CHR ''_'')"

text \<open>Identifiers over the ASCII letters, digits and the underscore, and identifiers that are not keywords.\<close>

definition ascii_identifier :: "string \<Rightarrow> bool" where
  "ascii_identifier s \<longleftrightarrow> s \<noteq> [] \<and> list_all name_char s \<and> \<not> is_digit (hd s)"

lemma keywords_plain: "k \<in> set python_keywords \<Longrightarrow> list_all name_char k \<and> hd k \<noteq> CHR ''_'' \<and> last k \<noteq> CHR ''_'' \<and> \<not> is_digit (hd k) \<and> k \<noteq> []"
proof -
  have "list_all (\<lambda>k. list_all name_char k \<and> hd k \<noteq> CHR ''_'' \<and> last k \<noteq> CHR ''_'' \<and> \<not> is_digit (hd k) \<and> k \<noteq> []) python_keywords"
    by code_simp
  then show "k \<in> set python_keywords \<Longrightarrow> ?thesis" by (auto simp: list_all_iff)
qed

lemma name_char_digit: "name_char c \<Longrightarrow> char_isdigit c \<longleftrightarrow> is_digit c"
  by (auto simp: name_char_def word_char_def char_isdigit_def is_digit_def ascii_upper_def ascii_lower_def Let_def)

lemma ensure_identifier_ok:
  assumes "list_all name_char name"
  shows "ascii_identifier (ensure_identifier name) \<and> ensure_identifier name \<notin> set python_keywords"
proof (cases name)
  case Nil
  then show ?thesis using keywords_plain [of "''_''"]
    by (auto simp: ensure_identifier_def ascii_identifier_def name_char_def is_digit_def)
next
  case (Cons c s)
  define n where "n = (if char_isdigit c then CHR ''_'' # name else name)"
  have n: "list_all name_char n" "n \<noteq> []" "\<not> is_digit (hd n)"
    using assms Cons name_char_digit [of c] by (auto simp: n_def name_char_def is_digit_def)
  have e: "ensure_identifier name = (if n \<in> set python_keywords then n @ ''_'' else n)"
    by (simp add: ensure_identifier_def Cons n_def Let_def)
  show ?thesis using n keywords_plain [of "n @ ''_''"] unfolding e by (auto simp: ascii_identifier_def name_char_def)
qed

lemma joined_chars: "c \<in> set (py_join sep ws) \<Longrightarrow> c \<in> set sep \<or> (\<exists>w \<in> set ws. c \<in> set w)"
  by (induction sep ws rule: py_join.induct) auto

lemma joined_words: "list_all name_char (py_join ''_'' (concat (map segment_words ss)))"
proof -
  have "name_char c" if "c \<in> set (py_join ''_'' (concat (map segment_words ss)))" for c
    using joined_chars [OF that] word_chars by (fastforce simp: name_char_def)
  then show ?thesis by (simp add: list_all_iff)
qed

lemma topic_names_ok:
  "ascii_identifier (default_method_name topic) \<and> default_method_name topic \<notin> set python_keywords"
  "ascii_identifier (topic_identifier topic) \<and> topic_identifier topic \<notin> set python_keywords"
proof -
  have t: "list_all name_char ''call''" "list_all name_char ''topic''" by code_simp+
  show "ascii_identifier (default_method_name topic) \<and> default_method_name topic \<notin> set python_keywords"
    unfolding default_method_name_def text_or_def by (intro ensure_identifier_ok) (use t joined_words in simp)
  show "ascii_identifier (topic_identifier topic) \<and> topic_identifier topic \<notin> set python_keywords"
    unfolding topic_identifier_def text_or_def by (intro ensure_identifier_ok) (use t joined_words in simp)
qed

lemma field_name_ok:
  assumes "\<exists>c \<in> set p. word_char c"
  shows "ascii_identifier (client_field_name p) \<and> client_field_name p \<notin> set python_keywords"
proof -
  have "concat (segment_words p) \<noteq> []" unfolding segment_words_all using assms by (auto simp: py_lower_def filter_empty_conv)
  then have "segment_words p \<noteq> []" by auto
  then show ?thesis using joined_words [of "[p]"]
    unfolding client_field_name_def Let_def by (simp add: ensure_identifier_ok)
qed

text \<open>
  A class name is an identifier too, but it is not kept apart from keywords: a component whose words give one of the three
  capitalised keywords is declared as \<open>class None:\<close>, which Python refuses.
\<close>

lemma upper_word:
  assumes "word_char c" "\<not> ascii_upper c"
  shows "\<exists>d. upper_char c = [d] \<and> word_char d \<and> \<not> ascii_lower d"
proof -
  have "(of_char (char_of (of_char c - 32 :: nat) :: char) :: nat) = of_char c - 32" if "ascii_lower c"
    using that by (auto simp: ascii_lower_def Let_def)
  then show ?thesis using assms
    by (auto simp: word_char_def upper_char_def ascii_upper_def ascii_lower_def is_digit_def Let_def)
qed

lemma upper_first_word:
  assumes "w \<in> set (segment_words s)"
  shows "\<exists>d t. upper_first w = d # t \<and> word_char d \<and> \<not> ascii_lower d \<and> list_all word_char t"
proof (cases w)
  case Nil
  then show ?thesis using assms segment_words_all(2) by auto
next
  case (Cons c t)
  then obtain d where "upper_char c = [d]" "word_char d" "\<not> ascii_lower d"
    using upper_word [of c] word_chars [OF assms, of c] by auto
  then show ?thesis using Cons word_chars [OF assms] by (auto simp: upper_first_def py_upper_def list_all_iff)
qed

lemma class_name_ok:
  "ascii_identifier (client_class_name s) \<and>
   (client_class_name s \<in> set python_keywords \<longrightarrow> client_class_name s \<in> {''False'', ''None'', ''True''})"
proof -
  define p where "p = text_or (concat (map upper_first (filter (\<lambda>w. w \<noteq> []) (segment_words s)))) ''Schema''"
  have "filter (\<lambda>w. w \<noteq> []) (segment_words s) = segment_words s" using segment_words_all(2) [of s] by (auto intro!: filter_True)
  then have p: "p = text_or (concat (map upper_first (segment_words s))) ''Schema''" by (simp add: p_def)
  have "list_all word_char (concat (map upper_first (segment_words s)))"
    using upper_first_word [of _ s] by (fastforce simp: list_all_iff)
  moreover have "\<not> ascii_lower (hd (concat (map upper_first (segment_words s))))" if "segment_words s \<noteq> []"
    using that upper_first_word [of "hd (segment_words s)" s] by (cases "segment_words s") auto
  moreover have "list_all word_char ''Schema'' \<and> \<not> ascii_lower CHR ''S''" by code_simp
  ultimately have "list_all word_char p \<and> p \<noteq> [] \<and> \<not> ascii_lower (hd p)"
    by (cases "segment_words s = []") (auto simp: p text_or_def)
  note w = this
  then have d: "char_isdigit (hd p) \<longleftrightarrow> is_digit (hd p)" by (cases p) (auto intro!: name_char_digit simp: name_char_def)
  have c: "client_class_name s = (if is_digit (hd p) then CHR ''_'' # p else p)"
    unfolding client_class_name_def Let_def p_def [symmetric] d ..
  have "list_all (\<lambda>k. hd k \<noteq> CHR ''_'' \<and> (ascii_lower (hd k) \<or> k \<in> set [''False'', ''None'', ''True''])) python_keywords" by code_simp
  then have "k \<in> {''False'', ''None'', ''True''}" if "k \<in> set python_keywords" "\<not> ascii_lower (hd k)" for k
    using that unfolding list_all_iff by auto
  moreover have "CHR ''_'' # p \<notin> set python_keywords" using keywords_plain [of "CHR ''_'' # p"] by auto
  ultimately have "client_class_name s \<in> set python_keywords \<longrightarrow> client_class_name s \<in> {''False'', ''None'', ''True''}"
    using w unfolding c by (cases "is_digit (hd p)") auto
  moreover have "ascii_identifier (client_class_name s)"
    using w unfolding c by (cases p) (auto simp: ascii_identifier_def name_char_def list_all_iff is_digit_def)
  ultimately show ?thesis by (rule conjI [rotated])
qed

lemma class_name_keyword: "client_class_name ''none'' = ''None''" by code_simp

section \<open>Fields and the properties they are named after\<close>

lemma normalize_ensure: "normalize_name (ensure_identifier s) = normalize_name s"
  by (cases s) (auto simp: ensure_identifier_def normalize_name_def py_lower_def Let_def)

lemma normalize_join: "\<forall>w \<in> set ws. CHR ''_'' \<notin> set w \<Longrightarrow> normalize_name (py_join ''_'' ws) = py_lower (concat ws)"
proof (induction "''_''" ws rule: py_join.induct)
  case (2 w)
  then show ?case by (auto simp: normalize_name_def intro!: arg_cong [of _ _ py_lower] filter_True)
next
  case (3 w v vs)
  then have "filter (\<lambda>c. c \<noteq> CHR ''_'') w = w" by (auto intro!: filter_True)
  then show ?case using 3 by (simp add: normalize_name_def py_lower_def)
qed (simp add: normalize_name_def)

text \<open>The field a property gets is read from the property, since reading folds case and underscores.\<close>

lemma field_reads_property:
  assumes "list_all name_char p"
  shows "normalize_name (client_field_name p) = normalize_name p"
proof (cases "segment_words p = []")
  case False
  have "\<not> word_char CHR ''_''" by code_simp
  then have "filter word_char p = filter (\<lambda>c. c \<noteq> CHR ''_'') p"
    using assms by (auto intro!: filter_cong simp: list_all_iff name_char_def)
  moreover have "\<forall>w \<in> set (segment_words p). CHR ''_'' \<notin> set w" using word_chars \<open>\<not> word_char CHR ''_''\<close> by blast
  ultimately show ?thesis using False
    by (simp add: client_field_name_def normalize_ensure normalize_join segment_words_all normalize_name_def [of p])
qed (simp add: client_field_name_def normalize_ensure)

text \<open>
  With any other separator it is not: the field of \<open>order-id\<close> is \<open>order_id\<close>, which is neither read from that property nor
  written to it.
\<close>

lemma kebab_property_lost:
  "client_field_name ''order-id'' = ''order_id'' \<and> to_camel ''order_id'' = ''orderId'' \<and>
   normalize_name ''order_id'' \<noteq> normalize_name ''order-id''"
  by code_simp

end
