(* ===== verification/ClientCode.thy ===== *)
theory ClientCode
  imports ClientScope ClientNames
begin

text \<open>
  \<open>benzene.codegen_client.types\<close> and \<open>generator\<close>: the source text of a generated client. A component is a dataclass or a
  union, declared after what it needs; a client is the components, its required topics, its contract hash, a class with
  a method for each request, and a factory. The dash in the preamble is written as a hyphen.
\<close>

section \<open>Types\<close>

text \<open>The members of a \<open>oneOf\<close> that is a list.\<close>

definition union_members :: "pydict \<Rightarrow> pyval list" where
  "union_members ms = (case vget ms ''oneOf'' of VList vs \<Rightarrow> vs | _ \<Rightarrow> [])"

definition is_union_schema :: "pydict \<Rightarrow> bool" where
  "is_union_schema ms \<longleftrightarrow> union_members ms \<noteq> [] \<and>
     \<not> truthy (vget ms ''properties'') \<and> \<not> dict_mem ''allOf'' ms"

text \<open>\<open>None\<close> when there is no wrapped schema, or when it is a \<open>null\<close>.\<close>

definition wrapped_reference :: "pydict \<Rightarrow> pyval" where
  "wrapped_reference ms = (case vget ms ''allOf'' of
     VList [v] \<Rightarrow> if vget ms ''nullable'' = VBool True \<and> \<not> truthy (vget ms ''properties'') then v else VNone
   | _ \<Rightarrow> VNone)"

text \<open>A \<open>Union\<close> of the types, each once, or the one type there is.\<close>

definition union_text :: "string list \<Rightarrow> string" where
  "union_text types = (let unique = fold add_new types [] in
     if length unique = 1 then hd unique else ''Union['' @ py_join '', '' unique @ '']'')"

text \<open>The type of a schema that names no other.\<close>

definition plain_type :: "pydict \<Rightarrow> string" where
  "plain_type ms =
     (let kind = vget ms ''type'' in
      if kind = VStr ''integer'' then ''int''
      else if kind = VStr ''number'' then ''float''
      else if kind = VStr ''boolean'' then ''bool''
      else if kind = VStr ''string'' then ''str''
      else if kind = VStr ''object'' \<or> dict_mem ''properties'' ms then ''dict[str, Any]''
      else ''Any'')"

lemma vget_smaller: "size (vget ms k) < size (VDict ms)"
  using vget_size [OF refl, of ms k] by (cases "vget ms k = VNone") auto

lemma inner_smaller:
  "z \<in> set (union_members ms) \<Longrightarrow> size z < size (VDict ms)" "wrapped_reference ms \<noteq> VNone \<Longrightarrow> size (wrapped_reference ms) < size (VDict ms)"
proof -
  show "z \<in> set (union_members ms) \<Longrightarrow> size z < size (VDict ms)"
    using vget_smaller [of ms "''oneOf''"] pyval_element_size [of z]
    by (fastforce simp: union_members_def split: pyval.splits)
  show "size (wrapped_reference ms) < size (VDict ms)" if "wrapped_reference ms \<noteq> VNone"
    using that vget_smaller [of ms "''allOf''"] by (auto simp: wrapped_reference_def split: pyval.splits list.splits if_splits)
qed

function (sequential) get_type_name :: "pyval \<Rightarrow> string" where
  "get_type_name (VDict ms) =
     (if ms = [] then ''Any''
      else case schema_ref ms of
        Some name \<Rightarrow> client_class_name name
      | None \<Rightarrow>
          (let result =
             (if wrapped_reference ms \<noteq> VNone then get_type_name (wrapped_reference ms)
              else if union_members ms \<noteq> [] then union_text (map get_type_name (union_members ms))
              else if vget ms ''type'' = VStr ''array'' then ''list['' @ get_type_name (vget ms ''items'') @ '']''
              else if vget ms ''type'' = VStr ''object'' \<and> is_dict (vget ms ''additionalProperties'') then
                ''dict[str, '' @ get_type_name (vget ms ''additionalProperties'') @ '']''
              else if vget ms ''type'' = VStr ''object'' \<and> vget ms ''additionalProperties'' = VBool True then ''dict[str, Any]''
              else plain_type ms)
           in if truthy (vget ms ''nullable'') \<and> result \<noteq> ''Any'' then result @ '' | None'' else result))"
| "get_type_name _ = ''Any''"
  by pat_completeness auto
termination by (relation "measure size") (use vget_smaller inner_smaller in \<open>simp_all only: in_measure wf_measure\<close>)

record client_field =
  cf_wire_name :: string
  cf_python_name :: string
  cf_type_annotation :: string
  cf_default_expr :: string

definition type_default :: "string \<Rightarrow> string" where
  "type_default annotation =
     (if ends_with ''| None'' annotation \<or> annotation = ''Any'' then ''None''
      else if starts_with ''list['' annotation then ''field(default_factory=list)''
      else if starts_with ''dict['' annotation then ''field(default_factory=dict)''
      else if annotation = ''str'' then [CHR 0x22, CHR 0x22]
      else if annotation = ''int'' then ''0''
      else if annotation = ''float'' then ''0.0''
      else if annotation = ''bool'' then ''False''
      else ''None'')"

text \<open>\<open>dict(v or {})\<close> and \<open>d.update(v or {})\<close>; that both also accept a list of pairs is left out.\<close>

definition members_or_none :: "pyval \<Rightarrow> pydict outcome" where
  "members_or_none v = (case v_or v (VDict []) of
     VDict d \<Rightarrow> Inr d
   | _ \<Rightarrow> Inl (PyException ''TypeError'' ''cannot convert to a dictionary''))"

text \<open>The members of an \<open>allOf\<close>: the first reference is the base, the rest give properties.\<close>

fun composed :: "pyval list \<Rightarrow> pydict \<Rightarrow> string option \<Rightarrow> (pydict \<times> string option) outcome" where
  "composed [] own base = Inr (own, base)"
| "composed (VDict d # ms) own base = (case schema_ref d of
     Some name \<Rightarrow> if base = None then composed ms own (Some name)
       else and_then (members_or_none (vget d ''properties'')) (\<lambda>ps. composed ms (dict_update own ps) base)
   | None \<Rightarrow> and_then (members_or_none (vget d ''properties'')) (\<lambda>ps. composed ms (dict_update own ps) base))"
| "composed (_ # ms) own base = composed ms own base"

definition own_properties :: "pyval \<Rightarrow> (pydict \<times> string option) outcome" where
  "own_properties schema = and_then (py_in ''allOf'' schema) (\<lambda>composes.
     if \<not> composes then and_then (and_then (get_or schema ''properties'' VNone) members_or_none) (\<lambda>ps. Inr (ps, None))
     else
       and_then (and_then (subscript schema ''allOf'') elements_of) (\<lambda>ms.
       and_then (composed ms [] None) (\<lambda>(own, base).
       and_then (and_then (get_or schema ''properties'' VNone) members_or_none) (\<lambda>ps. Inr (dict_update own ps, base)))))"

definition base_ref_name :: "pyval \<Rightarrow> string option outcome" where
  "base_ref_name schema = and_then (own_properties schema) (\<lambda>(_, base). Inr base)"

definition named :: "string option \<Rightarrow> string list" where
  "named n = (case n of Some s \<Rightarrow> if s = [] then [] else [s] | None \<Rightarrow> [])"

definition member_ref :: "pyval \<Rightarrow> string option" where
  "member_ref v = (case v of VDict ms \<Rightarrow> schema_ref ms | _ \<Rightarrow> None)"

text \<open>A schema that is no object has raised in \<open>base_ref_name\<close>.\<close>

definition dependency_names :: "pyval \<Rightarrow> string list outcome" where
  "dependency_names schema = and_then (base_ref_name schema) (\<lambda>base.
     Inr (named base @ (case schema of
       VDict ms \<Rightarrow> if is_union_schema ms then concat (map (named \<circ> member_ref) (union_members ms)) else []
     | _ \<Rightarrow> [])))"

fun fields_from :: "pydict \<Rightarrow> string list \<Rightarrow> client_field list" where
  "fields_from [] seen = []"
| "fields_from ((wire, schema) # ps) seen =
     (let python = client_field_name wire; annotation = get_type_name schema in
      if python \<in> set seen then fields_from ps seen
      else \<lparr>cf_wire_name = wire, cf_python_name = python, cf_type_annotation = annotation, cf_default_expr = type_default annotation\<rparr>
        # fields_from ps (python # seen))"

definition build_fields :: "pyval \<Rightarrow> client_field list outcome" where
  "build_fields schema = and_then (own_properties schema) (\<lambda>(own, _). Inr (fields_from own []))"

definition newline :: string where "newline = [CHR 0x0A]"

definition field_line :: "client_field \<Rightarrow> string" where
  "field_line f = ''    '' @ cf_python_name f @ '': '' @ cf_type_annotation f @ '' = '' @ cf_default_expr f"

definition build_schema_source :: "string \<Rightarrow> pyval \<Rightarrow> string outcome" where
  "build_schema_source name schema = (case schema of
     VDict ms \<Rightarrow>
       (if is_union_schema ms then
          Inr (client_class_name name @ '' = '' @ union_text (map get_type_name (union_members ms)) @ newline)
        else
          and_then (base_ref_name schema) (\<lambda>base.
          and_then (build_fields schema) (\<lambda>fields.
            Inr (py_join newline (
              [''@dataclass'',
               ''class '' @ client_class_name name @ (case named base of [] \<Rightarrow> [] | b # _ \<Rightarrow> ''('' @ client_class_name b @ '')'') @ '':'']
              @ (if fields = [] then [''    pass''] else map field_line fields)) @ newline))))
   | _ \<Rightarrow> Inl (attribute_error ''get''))"

section \<open>The order of the components\<close>

text \<open>
  \<open>visit\<close> over a list of names on one stack; the names of \<open>emitted\<close> are those of \<open>order\<close>. The stack only ever holds components,
  each once, so the recursion ends.
\<close>

function schema_order :: "pydict \<Rightarrow> string list \<Rightarrow> string list \<Rightarrow> string list \<Rightarrow> string list outcome" where
  "schema_order schemas [] stack order = Inr order"
| "schema_order schemas (name # names) stack order =
     (if name \<in> set order \<or> \<not> dict_mem name schemas \<or> name \<in> set stack then schema_order schemas names stack order
      else
        and_then (dependency_names (vget schemas name)) (\<lambda>deps.
        and_then (schema_order schemas (filter (\<lambda>d. dict_mem d schemas) deps) (name # stack) order) (\<lambda>order'.
          schema_order schemas names stack (order' @ [name]))))"
  by pat_completeness auto
termination
proof (relation "inv_image (less_than <*lex*> less_than)
    (\<lambda>(schemas, names, stack, order). (card (set (map fst schemas) - set stack), length names))", goal_cases)
  case (3 schemas name names stack order deps)
  then have "name \<in> set (map fst schemas)" "name \<notin> set stack" by (auto simp: dict_mem_iff)
  then have "set (map fst schemas) - set (name # stack) \<subset> set (map fst schemas) - set stack" by auto
  then show ?case by (auto intro: psubset_card_mono)
qed auto

definition topological_schema_order :: "pydict \<Rightarrow> string list outcome" where
  "topological_schema_order schemas = schema_order schemas (map fst schemas) [] []"

definition render_schemas :: "pydict \<Rightarrow> string outcome" where
  "render_schemas schemas =
     (if schemas = [] then Inr []
      else and_then (topological_schema_order schemas) (\<lambda>order.
        and_then (each (\<lambda>name. build_schema_source name (vget schemas name)) order) (\<lambda>blocks.
          Inr (py_join newline blocks @ newline))))"

section \<open>The source of a client\<close>

definition quotes :: string where "quotes = [CHR 0x22, CHR 0x22, CHR 0x22]"

text \<open>\<open>re\<close>'s word characters of the alphabet.\<close>

definition regex_word :: "char \<Rightarrow> bool" where
  "regex_word c = (let n = of_char c :: nat in word_char c \<or> n = 95 \<or> n \<in> {170, 178, 179, 181, 185, 186, 188, 189, 190} \<or>
     (192 \<le> n \<and> n \<noteq> 215 \<and> n \<noteq> 247))"

text \<open>A search for a text that starts a word, with a test of what follows; \<open>inside\<close> says whether a word character comes before.\<close>

fun search_word :: "(string \<Rightarrow> bool) \<Rightarrow> string \<Rightarrow> bool \<Rightarrow> string \<Rightarrow> bool" where
  "search_word follows w inside [] = False"
| "search_word follows w inside (c # s) =
     ((\<not> inside \<and> starts_with w (c # s) \<and> follows (drop (length w) (c # s))) \<or> search_word follows w (regex_word c) s)"

definition word_ends :: "string \<Rightarrow> bool" where
  "word_ends s = (s = [] \<or> \<not> regex_word (hd s))"

definition HEADER_PREAMBLE :: string where
  "HEADER_PREAMBLE = quotes @ ''Generated by benzene-codegen-client from a Contract Document. DO NOT EDIT BY HAND -'' @ newline
     @ ''regenerate instead (see docs/codegen-client.md'' @ [CHR 0x27] @ ''s build-integration note).'' @ newline @ quotes @ newline @ newline
     @ ''from __future__ import annotations'' @ newline @ newline"

definition header_for :: "string \<Rightarrow> string" where
  "header_for body =
     (let dataclasses_names = [''dataclass''] @ (if search_word (\<lambda>_. True) ''field('' False body then [''field''] else []);
          typing_names = filter (\<lambda>name. search_word word_ends name False body) [''Any'', ''Union'']
            @ (if search_word (\<lambda>_. True) ''cast('' False body then [''cast''] else [])
      in HEADER_PREAMBLE @ ''from dataclasses import '' @ py_join '', '' dataclasses_names @ newline
         @ (if typing_names = [] then [] else ''from typing import '' @ py_join '', '' typing_names @ newline)
         @ newline @ ''from benzene.core.clients import MessageSender'' @ newline
         @ ''from benzene.results import Result'' @ newline)"

definition response_type :: "client_request \<Rightarrow> string" where
  "response_type r = (if cq_response r = VNone then ''None'' else get_type_name (cq_response r))"

definition render_method :: "client_request \<Rightarrow> string \<Rightarrow> string" where
  "render_method r method_name =
     ''    async def '' @ method_name @ ''('' @ newline
     @ ''        self, request: '' @ get_type_name (cq_request r) @ '', headers: dict[str, str] | None = None'' @ newline
     @ ''    ) -> Result['' @ response_type r @ '']:'' @ newline
     @ ''        '' @ quotes @ ''Calls topic '' @ repr_val (cq_topic r) @ ''.'' @ quotes @ newline
     @ ''        result = await self._sender.send_message('' @ repr_val (cq_topic r) @ '', request, headers)'' @ newline
     @ ''        return cast(Result['' @ response_type r @ ''], result)'' @ newline"

record generated_client =
  gc_source :: string
  gc_contract_hash :: string
  gc_required_topics :: "pyval list"
  gc_class_name :: string
  gc_factory_name :: string

text \<open>Splitting a topic that is no string raises.\<close>

definition topic_text :: "client_request \<Rightarrow> string outcome" where
  "topic_text r = (case cq_topic r of VStr t \<Rightarrow> Inr t | _ \<Rightarrow> Inl (attribute_error ''split''))"

fun method_names :: "string list \<Rightarrow> string list \<Rightarrow> string list" where
  "method_names [] used = []"
| "method_names (topic # topics) used =
     (let base = default_method_name topic;
          method_name = (if base \<in> set used then base @ ''_'' @ topic_identifier topic else base)
      in method_name # method_names topics (method_name # used))"

definition required_topics_text :: "pyval list \<Rightarrow> string" where
  "required_topics_text topics = ''REQUIRED_TOPICS: tuple[str, ...] = '' @ repr_val (VTuple topics) @ newline"

definition contract_hash_text :: "string \<Rightarrow> string" where
  "contract_hash_text h = ''CONTRACT_HASH = '' @ repr_str h @ newline"

definition class_head :: "string \<Rightarrow> string \<Rightarrow> string list" where
  "class_head cls_name doc = [''class '' @ cls_name @ '':'', ''    '' @ quotes @ doc @ quotes, [],
     ''    def __init__(self, sender: MessageSender) -> None:'', ''        self._sender = sender'', []]"

definition factory_text :: "string \<Rightarrow> string \<Rightarrow> string \<Rightarrow> string" where
  "factory_text factory_name cls_name doc =
     ''def '' @ factory_name @ ''(sender: MessageSender) -> '' @ cls_name @ '':'' @ newline
     @ ''    '' @ quotes @ ''Builds a '' @ cls_name @ '' over ``sender``.'' @ doc @ quotes @ newline
     @ ''    return '' @ cls_name @ ''(sender)'' @ newline"

definition with_header :: "string list \<Rightarrow> string" where
  "with_header parts = (let body = py_join newline parts in header_for body @ newline @ newline @ body)"

definition generate_service_client ::
  "(pyval \<Rightarrow> string outcome) \<Rightarrow> (string \<Rightarrow> string) \<Rightarrow> client_document \<Rightarrow> string \<Rightarrow> string list option \<Rightarrow> generated_client outcome" where
  "generate_service_client jcs sha256 d service_name topics =
     and_then (apply_topic_scope d topics) (\<lambda>scoped.
     and_then (compute jcs sha256 scoped) (\<lambda>contract_hash.
     and_then (render_schemas (cd_schemas scoped)) (\<lambda>schemas_source.
     and_then (each topic_text (cd_requests scoped)) (\<lambda>topic_names.
       (let cls_name = client_class_name service_name @ ''Client'';
            factory_name = ''create_'' @ text_or (topic_identifier service_name) ''service'' @ ''_client'';
            required = map cq_topic (cd_requests scoped);
            methods = map (\<lambda>(r, name). render_method r name) (zip (cd_requests scoped) (method_names topic_names []));
            class_lines = class_head cls_name (''Typed client for the '' @ repr_str service_name @ '' service.'')
              @ (if cd_requests scoped = [] then [''    pass''] else methods);
            parts = (if schemas_source = [] then [] else [schemas_source])
              @ [required_topics_text required, contract_hash_text contract_hash, py_join newline class_lines @ newline,
                 factory_text factory_name cls_name ('' Import this module (or scan its package) to'' @ newline
                   @ ''    register it - this port'' @ [CHR 0x27] @ ''s handler/client discovery is import-driven, not reflective.'' @ newline @ ''    '')]
        in Inr \<lparr>gc_source = with_header parts, gc_contract_hash = contract_hash, gc_required_topics = required,
                gc_class_name = cls_name, gc_factory_name = factory_name\<rparr>)))))"

definition generate_topic_client ::
  "(pyval \<Rightarrow> string outcome) \<Rightarrow> (string \<Rightarrow> string) \<Rightarrow> client_document \<Rightarrow> string \<Rightarrow> generated_client outcome" where
  "generate_topic_client jcs sha256 d topic = (case find_request d topic None of
     None \<Rightarrow> Inl (topic_not_found_error topic (map (str_val \<circ> cq_topic) (cd_requests d)))
   | Some r \<Rightarrow>
       and_then (and_then (topic_projection d topic) (compute jcs sha256)) (\<lambda>contract_hash.
       and_then (render_schemas (topic_closure d r)) (\<lambda>schemas_source.
         (let ident = topic_identifier topic;
              cls_name = client_class_name ident @ ''Client'';
              factory_name = ''create_'' @ ident @ ''_client'';
              class_lines = class_head cls_name (''Self-contained client for topic '' @ repr_str topic @ '' only.'')
                @ [render_method r (default_method_name topic)];
              parts = (if schemas_source = [] then [] else [schemas_source])
                @ [required_topics_text [VStr topic], contract_hash_text contract_hash, py_join newline class_lines @ newline,
                   factory_text factory_name cls_name []]
          in Inr \<lparr>gc_source = with_header parts, gc_contract_hash = contract_hash, gc_required_topics = [VStr topic],
                  gc_class_name = cls_name, gc_factory_name = factory_name\<rparr>))))"

section \<open>Every component once, after what it needs\<close>

text \<open>The components of the document a component needs when it is declared.\<close>

definition needs :: "pydict \<Rightarrow> (string \<times> string) set" where
  "needs schemas = {(n, d). dict_mem n schemas \<and> dict_mem d schemas \<and> (\<exists>ds. dependency_names (vget schemas n) = Inr ds \<and> d \<in> set ds)}"

lemma schema_order_total:
  assumes "\<And>n. dict_mem n schemas \<Longrightarrow> \<exists>ds. dependency_names (vget schemas n) = Inr ds"
  shows "\<exists>order'. schema_order schemas names stack order = Inr order'"
  using assms
proof (induction schemas names stack order rule: schema_order.induct)
  case (2 schemas name names stack order)
  show ?case
  proof (cases "name \<in> set order \<or> \<not> dict_mem name schemas \<or> name \<in> set stack")
    case False
    then obtain deps where d: "dependency_names (vget schemas name) = Inr deps" using 2(4) by blast
    obtain o1 where "schema_order schemas (filter (\<lambda>d. dict_mem d schemas) deps) (name # stack) order = Inr o1"
      using 2(2) [OF False 2(4)] by blast
    moreover obtain o2 where "schema_order schemas names stack (o1 @ [name]) = Inr o2" using 2(3) [OF False 2(4)] by blast
    ultimately show ?thesis using False d by (intro exI [of _ o2]) simp
  qed (use 2 in auto)
qed simp

lemma schema_order_adds:
  assumes "schema_order schemas names stack order = Inr order'" "distinct order" "set order \<subseteq> set (map fst schemas)"
  shows "distinct order' \<and> set order \<subseteq> set order' \<and> set order' \<subseteq> set (map fst schemas) \<and> set order' \<inter> set stack \<subseteq> set order \<and>
    (\<forall>n \<in> set names. dict_mem n schemas \<longrightarrow> n \<in> set order' \<or> n \<in> set stack)"
  using assms
proof (induction schemas names stack order arbitrary: order' rule: schema_order.induct)
  case (2 schemas name names stack order)
  show ?case
  proof (cases "name \<in> set order \<or> \<not> dict_mem name schemas \<or> name \<in> set stack")
    case True
    then show ?thesis using 2(1) [OF True _ 2(5,6), of order'] 2(4) by auto
  next
    case False
    then obtain deps o1 where o: "dependency_names (vget schemas name) = Inr deps"
        "schema_order schemas (filter (\<lambda>d. dict_mem d schemas) deps) (name # stack) order = Inr o1"
        "schema_order schemas names stack (o1 @ [name]) = Inr order'"
      using 2(4) by (auto simp: and_then_def split: sum.splits)
    note i1 = 2(2) [OF False o(2) 2(5,6)]
    have "distinct (o1 @ [name])" "set (o1 @ [name]) \<subseteq> set (map fst schemas)" using i1 False by (auto simp: dict_mem_iff)
    from 2(3) [OF False o(3) this] i1 False show ?thesis by auto
  qed
qed simp

definition needed_first :: "pydict \<Rightarrow> string list \<Rightarrow> bool" where
  "needed_first schemas order \<longleftrightarrow> (\<forall>xs x ys. order = xs @ x # ys \<longrightarrow> (\<forall>d. (x, d) \<in> needs schemas \<longrightarrow> d \<in> set xs))"

lemma needed_first_snoc:
  assumes "needed_first schemas order" "\<And>d. (x, d) \<in> needs schemas \<Longrightarrow> d \<in> set order"
  shows "needed_first schemas (order @ [x])"
  unfolding needed_first_def
proof (intro allI impI)
  fix xs y ys d
  assume "order @ [x] = xs @ y # ys" "(y, d) \<in> needs schemas"
  then show "d \<in> set xs" using assms by (cases ys rule: rev_cases) (auto simp: needed_first_def)
qed

lemma schema_order_needed:
  assumes "schema_order schemas names stack order = Inr order'" "acyclic (needs schemas)"
    "\<And>s n. s \<in> set stack \<Longrightarrow> n \<in> set names \<Longrightarrow> dict_mem n schemas \<Longrightarrow> (s, n) \<in> (needs schemas)\<^sup>+"
    "distinct order" "set order \<subseteq> set (map fst schemas)" "needed_first schemas order"
  shows "needed_first schemas order'"
  using assms
proof (induction schemas names stack order arbitrary: order' rule: schema_order.induct)
  case (2 schemas name names stack order)
  show ?case
  proof (cases "name \<in> set order \<or> \<not> dict_mem name schemas \<or> name \<in> set stack")
    case True
    then show ?thesis using 2(1) [OF True _ 2(5) _ 2(7-9), of order'] 2(4,6) by auto
  next
    case False
    then obtain deps o1 where o: "dependency_names (vget schemas name) = Inr deps"
        "schema_order schemas (filter (\<lambda>d. dict_mem d schemas) deps) (name # stack) order = Inr o1"
        "schema_order schemas names stack (o1 @ [name]) = Inr order'"
      using 2(4) by (auto simp: and_then_def split: sum.splits)
    let ?ds = "filter (\<lambda>d. dict_mem d schemas) deps"
    have d: "(name, d) \<in> needs schemas \<longleftrightarrow> d \<in> set ?ds" for d using False o(1) by (auto simp: needs_def)
    have path: "(s, n) \<in> (needs schemas)\<^sup>+" if "s \<in> set (name # stack)" "n \<in> set ?ds" for s n
      using that 2(6) [of s name] d [of n] False by (cases "s = name") (auto intro: trancl_into_trancl)
    have o1: "needed_first schemas o1" by (rule 2(2) [OF False o(2) 2(5) _ 2(7-9)]) (use path in auto)
    note a = schema_order_adds [OF o(2) 2(7,8)]
    have "n \<in> set o1" if "n \<in> set ?ds" for n
    proof -
      have "n \<notin> set (name # stack)" using path [OF _ that] \<open>acyclic (needs schemas)\<close> by (auto simp: acyclic_def)
      then show ?thesis using a that by auto
    qed
    then have "needed_first schemas (o1 @ [name])" using needed_first_snoc [OF o1] d by blast
    moreover have "distinct (o1 @ [name])" "set (o1 @ [name]) \<subseteq> set (map fst schemas)" using a False by (auto simp: dict_mem_iff)
    ultimately show ?thesis using 2(3) [OF False o(3) 2(5) _] 2(6) by auto
  qed
qed simp

text \<open>
  A generated client declares every component of its document exactly once, and, unless bases and unions form a cycle, each one
  after its base class and the members of its union, which Python evaluates as it reads the declaration. The order is found for
  every document, cyclic ones included.
\<close>

lemma components_in_order:
  assumes "\<And>n. dict_mem n schemas \<Longrightarrow> \<exists>ds. dependency_names (vget schemas n) = Inr ds"
  shows "\<exists>order. topological_schema_order schemas = Inr order \<and> distinct order \<and> set order = set (map fst schemas) \<and>
    (acyclic (needs schemas) \<longrightarrow> (\<forall>xs x ys. order = xs @ x # ys \<longrightarrow> (\<forall>d. (x, d) \<in> needs schemas \<longrightarrow> d \<in> set xs)))"
proof -
  obtain order where o: "schema_order schemas (map fst schemas) [] [] = Inr order"
    using schema_order_total [OF assms] by blast
  from schema_order_adds [OF this] have "distinct order" "set order = set (map fst schemas)" by (auto simp: dict_mem_iff)
  moreover have "needed_first schemas order" if "acyclic (needs schemas)"
    by (rule schema_order_needed [OF o that]) (simp_all add: needed_first_def)
  ultimately show ?thesis using o by (auto simp: topological_schema_order_def needed_first_def)
qed

section \<open>What a generated class reads\<close>

lemma by_name: "concat (map (\<lambda>(f, _). g f) cs) = concat (map g (map fst cs))"
  by (induction cs) auto

lemma fields_from_distinct:
  assumes "distinct (map (client_field_name \<circ> fst) ps)" "set (map (client_field_name \<circ> fst) ps) \<inter> set seen = {}"
  shows "map cf_wire_name (fields_from ps seen) = map fst ps \<and> map cf_python_name (fields_from ps seen) = map (client_field_name \<circ> fst) ps"
  using assms
proof (induction ps arbitrary: seen)
  case (Cons p ps)
  obtain wire s where p: "p = (wire, s)" by (cases p)
  have "set (map (client_field_name \<circ> fst) ps) \<inter> set (client_field_name wire # seen) = {}" using Cons(2,3) p by auto
  from Cons.IH [OF _ this] Cons(2,3) show ?case by (simp add: p Let_def)
qed simp

text \<open>
  A generated class reads what the service writes. For a component whose property names are over letters, digits and underscores
  and stay apart when case and underscores are folded away, there is a field for every property, named by an identifier that is no
  keyword, and mapping an object with those properties into the class gives each field the value of its property.
\<close>

lemma generated_class_reads:
  assumes "own_properties schema = Inr (ps, base)" "\<forall>(p, s) \<in> set ps. list_all name_char p \<and> (\<exists>c \<in> set p. word_char c)"
    and "distinct (map (normalize_name \<circ> fst) ps)" "map fst vals = map fst ps"
  shows "\<exists>fields. build_fields schema = Inr fields \<and> map cf_wire_name fields = map fst ps \<and>
    (\<forall>f \<in> set fields. ascii_identifier (cf_python_name f) \<and> cf_python_name f \<notin> set python_keywords) \<and>
    to_request ctor ctor1 (Some (TDataclass cls (map (\<lambda>f. (cf_python_name f, Some (initial f))) fields))) (VDict vals) =
      Inr (VData cls (map (\<lambda>(p, v). (client_field_name p, v)) vals))"
proof -
  let ?fields = "fields_from ps []" and ?out = "map (\<lambda>(p, v). (client_field_name p, v)) vals"
  let ?slots = "map (\<lambda>f. (cf_python_name f, Some (initial f))) ?fields"
  have n: "normalize_name (client_field_name p) = normalize_name p" if "p \<in> set (map fst ps)" for p
    using that assms(2) field_reads_property by fastforce
  then have "map normalize_name (map (client_field_name \<circ> fst) ps) = map (normalize_name \<circ> fst) ps" by simp
  with assms(3) have "distinct (map normalize_name (map (client_field_name \<circ> fst) ps))" by metis
  then have "distinct (map (client_field_name \<circ> fst) ps)" unfolding distinct_map [of normalize_name] by (rule conjunct1)
  with fields_from_distinct [OF this] have f: "map cf_wire_name ?fields = map fst ps"
      "map cf_python_name ?fields = map (client_field_name \<circ> fst) ps" "distinct (map (client_field_name \<circ> fst) ps)" by simp_all
  have "cf_python_name g \<in> client_field_name ` set (map fst ps)" if "g \<in> set ?fields" for g
    using that f(2) by (metis image_eqI list.set_map map_map)
  then have ident: "ascii_identifier (cf_python_name g) \<and> cf_python_name g \<notin> set python_keywords" if "g \<in> set ?fields" for g
    using that assms(2) field_name_ok by fastforce
  let ?fold = "map (\<lambda>(p, v). (normalize_name p, v)) vals"
  have dist: "distinct (map (normalize_name \<circ> fst) vals)" using assms(3,4) by (metis map_map)
  have fold: "dict_of ?fold = ?fold" using dist by (intro dict_of_ok) (simp add: dict_ok_def comp_def case_prod_beta)
  have "map fst ?slots = map client_field_name (map fst vals)" using f(2) assms(4) by (simp add: comp_def)
  then have "concat (map (\<lambda>(f, _). case map_of ?fold (normalize_name f) of None \<Rightarrow> [] | Some v \<Rightarrow> [(f, v)]) ?slots) =
      concat (map (\<lambda>f. case map_of ?fold (normalize_name f) of None \<Rightarrow> [] | Some v \<Rightarrow> [(f, v)]) (map client_field_name (map fst vals)))"
    by (simp only: by_name)
  also have "\<dots> = concat (map (\<lambda>(p, v). [(client_field_name p, v)]) vals)"
  proof -
    have "map_of ?fold (normalize_name (client_field_name p)) = Some v" if "(p, v) \<in> set vals" for p v
    proof -
      have "p \<in> set (map fst ps)" using that assms(4) by (metis in_set_zipE list.set_map image_eqI fst_conv)
      then show ?thesis using n folded_lookup [OF dist that, of id] by simp
    qed
    then show ?thesis by (auto intro!: arg_cong [of _ _ concat] split: option.splits)
  qed
  also have "\<dots> = ?out" by (induction vals) auto
  finally have kw: "concat (map (\<lambda>(f, _). case map_of ?fold (normalize_name f) of None \<Rightarrow> [] | Some v \<Rightarrow> [(f, v)]) ?slots) = ?out" .
  have v: "map (client_field_name \<circ> fst) vals = map (client_field_name \<circ> fst) ps" using assms(4) by (metis map_map)
  have "dataclass_new cls ?slots ?out = Inr (VData cls ?out)"
    by (rule dataclass_new_all) (use f v in \<open>simp_all add: comp_def case_prod_beta\<close>)
  then have "to_request ctor ctor1 (Some (TDataclass cls ?slots)) (VDict vals) = Inr (VData cls ?out)"
    unfolding to_request_def by (simp only: option.case isinstance_of.simps pyval.case prod.case py_type.case if_False Let_def fold kw)
  moreover have "build_fields schema = Inr ?fields" by (simp add: build_fields_def assms(1))
  ultimately show ?thesis using f(1) ident by (intro exI [of _ ?fields]) auto
qed

section \<open>Methods and hashes\<close>

text \<open>Methods with different default names keep them.\<close>

lemma method_names_default:
  assumes "distinct (map default_method_name ts)" "set (map default_method_name ts) \<inter> set used = {}"
  shows "method_names ts used = map default_method_name ts"
  using assms by (induction ts used rule: method_names.induct) (auto simp: Let_def)

text \<open>
  A name that is taken is made longer once, and what that gives is not looked up: of three requests with one topic in three versions,
  two get one method name, and the class keeps the last of them.
\<close>

lemma three_versions_collide:
  "method_names [''orders:get'', ''orders:get'', ''orders:get''] [] = [''get_orders'', ''get_orders_orders_get'', ''get_orders_orders_get'']"
  by code_simp

lemma service_client_parts:
  assumes "generate_service_client jcs sha256 d service_name None = Inr g"
  shows "compute jcs sha256 (drop_hashes d) = Inr (gc_contract_hash g) \<and> gc_required_topics g = map cq_topic (cd_requests d)"
  using assms unfolding generate_service_client_def apply_topic_scope_def option.case and_then_simps
  by (cases "compute jcs sha256 (drop_hashes d)"; cases "render_schemas (cd_schemas (drop_hashes d))";
      cases "each topic_text (cd_requests (drop_hashes d))") (auto simp: Let_def drop_hashes_def)

lemma service_client_total:
  assumes "compute jcs sha256 (drop_hashes d) = Inr h" "render_schemas (cd_schemas d) = Inr text" "each topic_text (cd_requests d) = Inr ts"
  shows "\<exists>g. generate_service_client jcs sha256 d service_name None = Inr g \<and> gc_class_name g = client_class_name service_name @ ''Client''"
proof -
  have "cd_schemas (drop_hashes d) = cd_schemas d" "cd_requests (drop_hashes d) = cd_requests d" by (simp_all add: drop_hashes_def)
  with assms show ?thesis by (simp add: generate_service_client_def apply_topic_scope_def Let_def del: each.simps)
qed

text \<open>
  C36. A client generated from a served document carries the hash the service serves. Parsing what \<open>benzene:spec\<close> answers
  succeeds, whatever was derived; the contract and registration hashes computed from what was parsed are the ones in the served
  document, so that an unchanged service never reports drift for its clients; and the client of the whole service embeds that hash and
  requires exactly the topics the document lists, in its order.
\<close>

theorem client_hash_is_served:
  assumes "derive_document ct annotation_of defs info outbound endpoint routes = Inr doc" "to_payload jcs sha256 doc = Inr p"
  shows "\<exists>cd cd' h r. parse_document (VDict p) = Inr cd \<and> apply_topic_scope cd None = Inr cd' \<and>
    compute jcs sha256 cd' = Inr h \<and> vget p ''contractHash'' = VStr h \<and>
    compute_registration jcs sha256 cd' = Inr r \<and> vget p ''registrationHash'' = VStr r \<and>
    (\<forall>service_name g. generate_service_client jcs sha256 cd service_name None = Inr g \<longrightarrow>
       gc_contract_hash g = h \<and> gc_required_topics g = map (VStr \<circ> cr_topic) (doc_requests doc))"
proof -
  obtain cd h r where c: "parse_document (VDict p) = Inr cd" "map cq_topic (cd_requests cd) = map (VStr \<circ> cr_topic) (doc_requests doc)"
      "compute jcs sha256 (drop_hashes cd) = Inr h" "vget p ''contractHash'' = VStr h"
      "compute_registration jcs sha256 (drop_hashes cd) = Inr r" "vget p ''registrationHash'' = VStr r"
    using served_hashes [OF assms] by blast
  moreover have "apply_topic_scope cd None = Inr (drop_hashes cd)" by (simp add: apply_topic_scope_def)
  moreover have "gc_contract_hash g = h \<and> gc_required_topics g = map (VStr \<circ> cr_topic) (doc_requests doc)"
    if "generate_service_client jcs sha256 cd service_name None = Inr g" for service_name g
    using service_client_parts [OF that] c(2,3) by simp
  ultimately show ?thesis by blast
qed

text \<open>The stock service: its client is generated, with the hash it serves.\<close>

definition stock_payload :: "pydict outcome" where
  "stock_payload = and_then stock_document (to_payload (\<lambda>v. Inr (repr_val v)) id)"

definition stock_parsed :: "client_document outcome" where
  "stock_parsed = and_then stock_payload (\<lambda>p. parse_document (VDict p))"

theorem client_hash_is_served_witness:
  "\<exists>p cd g. stock_payload = Inr p \<and> stock_parsed = Inr cd \<and>
     generate_service_client (\<lambda>v. Inr (repr_val v)) id cd ''stock'' None = Inr g \<and>
     vget p ''contractHash'' = VStr (gc_contract_hash g) \<and> gc_required_topics g = [VStr ''stock:take'']"
proof -
  have "case stock_document of Inl _ \<Rightarrow> False | Inr doc \<Rightarrow> map cr_topic (doc_requests doc) = [''stock:take'']" by code_simp
  then obtain doc where doc: "stock_document = Inr doc" "map cr_topic (doc_requests doc) = [''stock:take'']" by (auto split: sum.splits)
  have "case stock_parsed of Inl _ \<Rightarrow> False | Inr cd \<Rightarrow>
      (case (render_schemas (cd_schemas cd), each topic_text (cd_requests cd)) of (Inr _, Inr _) \<Rightarrow> True | _ \<Rightarrow> False)" by code_simp
  then obtain cd s ts where cd: "stock_parsed = Inr cd" "render_schemas (cd_schemas cd) = Inr s" "each topic_text (cd_requests cd) = Inr ts"
    by (auto split: sum.splits)
  obtain p where p: "stock_payload = Inr p" "parse_document (VDict p) = Inr cd"
    using cd(1) by (auto simp: stock_parsed_def and_then_def split: sum.splits)
  then have "to_payload (\<lambda>v. Inr (repr_val v)) id doc = Inr p" by (simp add: stock_payload_def doc)
  from client_hash_is_served [OF doc(1) [unfolded stock_document_def] this] p(2)
  obtain h where h: "compute (\<lambda>v. Inr (repr_val v)) id (drop_hashes cd) = Inr h" "vget p ''contractHash'' = VStr h"
      "\<forall>service_name g. generate_service_client (\<lambda>v. Inr (repr_val v)) id cd service_name None = Inr g \<longrightarrow>
         gc_contract_hash g = h \<and> gc_required_topics g = map (VStr \<circ> cr_topic) (doc_requests doc)"
    by (auto simp: apply_topic_scope_def)
  obtain g where "generate_service_client (\<lambda>v. Inr (repr_val v)) id cd ''stock'' None = Inr g"
    using service_client_total [OF h(1) cd(2,3)] by blast
  moreover from this h(3) have "gc_contract_hash g = h" "gc_required_topics g = map VStr (map cr_topic (doc_requests doc))" by auto
  ultimately show ?thesis using p cd(1) h(2) doc(2) by (intro exI [of _ p] exI [of _ cd] exI [of _ g]) simp
qed

end
