(* ===== verification/Worker.thy ===== *)
theory Worker
  imports Prelude PyStr
begin

text \<open>
  \<open>benzene.core.worker\<close>: several long-lived workers on one event loop with one coordinated
  shutdown. The event loop interleaves the workers and the host; the host is a step relation whose
  moves are the points where \<open>WorkerHost.run\<close> resumes, and what happens to it is that a worker ends (in
  any way, at any time or never), that the stop signal is set from outside, and that it is cancelled. \<open>background_worker\<close>, which wraps one coroutine, is not modelled.
\<close>

section \<open>Registration\<close>

text \<open>\<open>StopSignal\<close> is its flag.\<close>

definition stop_set :: "bool \<Rightarrow> bool" where
  "stop_set stop = True"

definition should_continue :: "bool \<Rightarrow> bool" where
  "should_continue stop = (\<not> stop)"

record 'k worker_host =
  wh_workers :: "(string \<times> 'k) list"
  wh_shutdown_timeout :: "rat option"
  wh_stop :: bool

definition new_worker_host :: "rat option \<Rightarrow> 'k worker_host" where
  "new_worker_host timeout = \<lparr>wh_workers = [], wh_shutdown_timeout = timeout, wh_stop = False\<rparr>"

definition worker_names :: "'k worker_host \<Rightarrow> string list" where
  "worker_names h = map fst (wh_workers h)"

definition worker_add :: "string \<times> 'k \<Rightarrow> 'k worker_host \<Rightarrow> pyexn + 'k worker_host" where
  "worker_add entry h =
     (if fst entry \<in> set (worker_names h) then
        Inl (PyException ''DuplicateWorkerError'' (''WorkerHost already has a worker named '' @ repr_str (fst entry)
          @ '' (workers: '' @ py_join '', '' (worker_names h) @ ''). Give this one a different name, e.g. ''
          @ repr_str (fst entry) @ '' and '' @ repr_str (fst entry @ ''-2'')
          @ '', so shutdown and error reporting can tell them apart.''))
      else Inr (h\<lparr>wh_workers := wh_workers h @ [entry]\<rparr>))"

interpretation workers: keyed_registry worker_add fst
  "\<lambda>h name. map_option (Pair name) (map_of (wh_workers h) name)"
proof
  fix entry :: "string \<times> 'k" and h h' :: "'k worker_host"
  assume a: "worker_add entry h = Inr h'"
  then have "map_of (wh_workers h) (fst entry) = None" "wh_workers h' = wh_workers h @ [entry]"
    by (auto simp: worker_add_def worker_names_def map_of_eq_None_iff split: if_splits)
  then show "map_option (Pair (fst entry)) (map_of (wh_workers h) (fst entry)) = None"
    "(\<lambda>name. map_option (Pair name) (map_of (wh_workers h') name)) =
      (\<lambda>name. map_option (Pair name) (map_of (wh_workers h) name))(fst entry \<mapsto> entry)"
    by (cases entry; auto simp: fun_eq_iff map_add_def split: option.splits)+
qed

section \<open>Running\<close>

text \<open>A task of \<open>run\<close>: a worker under \<open>_supervise\<close>. A task that ended with \<open>CancelledError\<close> is cancelled.\<close>

datatype task = Running | Returned | Raised pyexn | Cancelled

text \<open>
  Where \<open>run\<close> is: in the first \<open>asyncio.wait\<close>, in the wait bounded by the timeout, in the wait for
  the cancelled stragglers, in the \<open>gather\<close> after its own cancellation, or ended, returning or raising.
\<close>

datatype run_phase = WaitFirst | WaitAll | WaitStragglers | HostCancelled | Ended "pyexn option"

record host_state =
  hs_tasks :: "task list"
  hs_cancelled :: "nat set"
  hs_stop :: bool
  hs_phase :: run_phase

definition no_workers_error :: pyexn where
  "no_workers_error = PyException ''NoWorkersError'' (''WorkerHost.run() was called with no workers, so this ''
     @ ''process would start up and handle nothing. Add at least one before running, e.g. host.add(\"http\", ''
     @ ''uvicorn_worker(app, port=8080)) or host.add(\"sqs\", sqs_consumer_worker(app, client, queue_url)).'')"

definition start_run :: "'k worker_host \<Rightarrow> host_state outcome" where
  "start_run h =
     (if wh_workers h = [] then Inl no_workers_error
      else Inr \<lparr>hs_tasks = map (\<lambda>_. Running) (wh_workers h), hs_cancelled = {}, hs_stop = wh_stop h,
                hs_phase = WaitFirst\<rparr>)"

definition task_done :: "task \<Rightarrow> bool" where
  "task_done t = (t \<noteq> Running)"

definition running :: "task list \<Rightarrow> nat set" where
  "running ts = {i. i < length ts \<and> ts ! i = Running}"

text \<open>The failure \<open>run\<close> raises: the first, in registration order, that is not a cancellation.\<close>

definition first_failure :: "task list \<Rightarrow> pyexn option" where
  "first_failure ts = (case filter (\<lambda>t. case t of Raised _ \<Rightarrow> True | _ \<Rightarrow> False) ts of
     Raised e # _ \<Rightarrow> Some e
   | _ \<Rightarrow> None)"

text \<open>The host's own moves: the points of \<open>run\<close> and \<open>_gather_then_wind_down\<close> where the event loop resumes it.\<close>

inductive host_move :: "rat option \<Rightarrow> host_state \<Rightarrow> host_state \<Rightarrow> bool" for timeout where
  first_completed: "\<lbrakk>hs_phase s = WaitFirst; list_ex task_done (hs_tasks s); running (hs_tasks s) \<noteq> {}\<rbrakk> \<Longrightarrow>
     host_move timeout s (s\<lparr>hs_phase := WaitAll\<rparr>)"
| all_completed: "\<lbrakk>hs_phase s \<in> {WaitFirst, WaitAll, WaitStragglers}; running (hs_tasks s) = {}\<rbrakk> \<Longrightarrow>
     host_move timeout s (s\<lparr>hs_phase := Ended (first_failure (hs_tasks s))\<rparr>)"
| times_out: "\<lbrakk>hs_phase s = WaitAll; timeout \<noteq> None; running (hs_tasks s) \<noteq> {}\<rbrakk> \<Longrightarrow>
     host_move timeout s (s\<lparr>hs_cancelled := running (hs_tasks s), hs_phase := WaitStragglers\<rparr>)"
| gathered: "\<lbrakk>hs_phase s = HostCancelled; running (hs_tasks s) = {}\<rbrakk> \<Longrightarrow>
     host_move timeout s (s\<lparr>hs_phase := Ended (Some PyCancelled)\<rparr>)"

text \<open>
  What happens to the host: a worker under \<open>_supervise\<close> ends, the stop signal is set from outside, or the
  task of \<open>run\<close> is cancelled. None of these has to happen: a worker may run for ever.
\<close>

inductive env_step :: "host_state \<Rightarrow> host_state \<Rightarrow> bool" where
  worker_ends: "\<lbrakk>i \<in> running (hs_tasks s); t \<notin> {Running, Raised PyCancelled}; \<nexists>r. hs_phase s = Ended r\<rbrakk> \<Longrightarrow>
     env_step s (s\<lparr>hs_tasks := (hs_tasks s)[i := t], hs_stop := stop_set (hs_stop s)\<rparr>)"
| stop_requested: "\<lbrakk>\<not> hs_stop s\<rbrakk> \<Longrightarrow> env_step s (s\<lparr>hs_stop := stop_set (hs_stop s)\<rparr>)"
| host_cancelled: "\<lbrakk>hs_phase s \<in> {WaitFirst, WaitAll, WaitStragglers}\<rbrakk> \<Longrightarrow>
     env_step s (s\<lparr>hs_stop := stop_set (hs_stop s), hs_cancelled := {..< length (hs_tasks s)},
       hs_phase := HostCancelled\<rparr>)"

definition host_step :: "rat option \<Rightarrow> host_state \<Rightarrow> host_state \<Rightarrow> bool" where
  "host_step timeout s s' \<longleftrightarrow> host_move timeout s s' \<or> env_step s s'"

inductive_simps host_move_simps: "host_move timeout s s'"
inductive_cases env_stepE: "env_step s s'"

section \<open>Shutdown\<close>

text \<open>
  The invariant: a task that ended, and a host that was cancelled, set the stop signal; after the
  first wait some task has ended; the host has not ended while a task runs; and what it ends with
  is its own cancellation, if it was cancelled, or else the first failure.
\<close>

definition host_ok :: "bool \<Rightarrow> host_state \<Rightarrow> bool" where
  "host_ok cancelled s \<longleftrightarrow> hs_tasks s \<noteq> [] \<and>
     (list_ex task_done (hs_tasks s) \<or> hs_phase s = HostCancelled \<longrightarrow> hs_stop s) \<and>
     (hs_phase s \<in> {WaitAll, WaitStragglers} \<longrightarrow> list_ex task_done (hs_tasks s)) \<and>
     (\<forall>r. hs_phase s = Ended r \<longrightarrow> running (hs_tasks s) = {} \<and>
        r = (if cancelled then Some PyCancelled else first_failure (hs_tasks s))) \<and>
     (hs_phase s \<in> {WaitStragglers, HostCancelled} \<longrightarrow> running (hs_tasks s) \<subseteq> hs_cancelled s) \<and>
     (hs_phase s = HostCancelled \<longrightarrow> cancelled) \<and>
     (hs_phase s \<in> {WaitFirst, WaitAll, WaitStragglers} \<longrightarrow> \<not> cancelled)"

lemma running_update: "t \<noteq> Running \<Longrightarrow> running (ts[i := t]) = running ts - {i}"
  by (cases "i < length ts") (auto simp: running_def nth_list_update)

lemma running_nth: "i \<in> running ts \<Longrightarrow> i < length ts"
  by (simp add: running_def)

lemma finite_running [simp]: "finite (running ts)"
  by (simp add: running_def)

lemma none_running: "running ts = {} \<longleftrightarrow> (\<forall>t \<in> set ts. t \<noteq> Running)"
  by (auto simp: running_def in_set_conv_nth)

lemma none_done: "\<not> list_ex task_done ts \<Longrightarrow> i < length ts \<Longrightarrow> i \<in> running ts"
  by (auto simp: list_ex_iff task_done_def running_def)

lemma all_done: "running ts = {} \<Longrightarrow> ts \<noteq> [] \<Longrightarrow> list_ex task_done ts"
  using none_done [of ts 0] by (cases ts) auto

lemma done_update: "i < length ts \<Longrightarrow> t \<noteq> Running \<Longrightarrow> list_ex task_done (ts[i := t])"
  by (auto simp: list_ex_iff task_done_def intro!: bexI [of _ t] set_update_memI)

lemma host_ok_start: "start_run h = Inr s \<Longrightarrow> host_ok False s"
  by (auto simp: start_run_def host_ok_def list_ex_iff task_done_def split: if_splits)

lemma start_phase: "start_run h = Inr s \<Longrightarrow> hs_phase s = WaitFirst \<and> length (hs_tasks s) = length (wh_workers h)"
  by (auto simp: start_run_def split: if_splits)

lemma host_ok_step:
  assumes "host_step timeout s s'" "host_ok c s"
  shows "host_ok (c \<or> hs_phase s' = HostCancelled) s'"
proof (cases "env_step s s'")
  case True
  then show ?thesis using assms(2)
  proof (induction rule: env_step.induct)
    case (worker_ends i s t)
    then show ?case
      using done_update [of i "hs_tasks s" t] running_nth [of i "hs_tasks s"]
      by (auto simp: host_ok_def stop_set_def running_update)
  qed (auto simp: host_ok_def stop_set_def running_nth)
next
  case False
  then have "host_move timeout s s'" using assms(1) by (simp add: host_step_def)
  then show ?thesis using assms(2)
    by (induction rule: host_move.induct) (auto simp: host_ok_def dest: all_done)
qed

text \<open>Every step uses up a worker, a phase or the stop signal.\<close>

definition phases_left :: "run_phase \<Rightarrow> nat" where
  "phases_left p = (case p of WaitFirst \<Rightarrow> 4 | WaitAll \<Rightarrow> 3 | WaitStragglers \<Rightarrow> 2 | HostCancelled \<Rightarrow> 1 | Ended _ \<Rightarrow> 0)"

definition steps_left :: "host_state \<Rightarrow> nat" where
  "steps_left s = card (running (hs_tasks s)) + phases_left (hs_phase s) + (if hs_stop s then 0 else 1)"

lemma steps_decrease:
  assumes "host_step timeout s s'"
  shows "steps_left s' < steps_left s"
proof (cases "env_step s s'")
  case True
  then show ?thesis
  proof (induction rule: env_step.induct)
    case (worker_ends i s t)
    then show ?case using card_Diff1_less [OF finite_running worker_ends(1)]
      by (simp add: steps_left_def running_update stop_set_def)
  qed (auto simp: steps_left_def phases_left_def stop_set_def split: run_phase.splits)
next
  case False
  then have "host_move timeout s s'" using assms by (simp add: host_step_def)
  then show ?thesis
    by (induction rule: host_move.induct) (auto simp: steps_left_def phases_left_def split: run_phase.splits)
qed

text \<open>
  A run, as the event loop sees it: at every moment the host moves, something happens to it, or neither.
  The loop is fair to the host: a move that stays possible is made. Of a worker only its own contract
  is known: it ends some time after it was cancelled and, where it is one that \<open>heeds\<close> the stop signal,
  some time after that was set.
\<close>

definition host_run :: "rat option \<Rightarrow> (nat \<Rightarrow> host_state) \<Rightarrow> bool" where
  "host_run timeout f \<longleftrightarrow> (\<forall>n. f (Suc n) = f n \<or> host_step timeout (f n) (f (Suc n)))"

definition fair_to_host :: "rat option \<Rightarrow> (nat \<Rightarrow> host_state) \<Rightarrow> bool" where
  "fair_to_host timeout f \<longleftrightarrow>
     (\<forall>n. (\<forall>m \<ge> n. \<exists>s. host_move timeout (f m) s) \<longrightarrow> (\<exists>m \<ge> n. host_move timeout (f m) (f (Suc m))))"

definition workers_end :: "nat set \<Rightarrow> (nat \<Rightarrow> host_state) \<Rightarrow> bool" where
  "workers_end heeds f \<longleftrightarrow> (\<forall>n i. i \<in> hs_cancelled (f n) \<or> hs_stop (f n) \<and> i \<in> heeds \<longrightarrow>
     (\<exists>m \<ge> n. i \<notin> running (hs_tasks (f m))))"

definition was_cancelled :: "(nat \<Rightarrow> host_state) \<Rightarrow> nat \<Rightarrow> bool" where
  "was_cancelled f n \<longleftrightarrow> (\<exists>m \<le> n. hs_phase (f m) = HostCancelled)"

lemma run_ok:
  assumes "start_run h = Inr (f 0)" "host_run timeout f"
  shows "host_ok (was_cancelled f n) (f n)"
proof (induction n)
  case 0
  then show ?case using host_ok_start [OF assms(1)] start_phase [OF assms(1)] by (simp add: was_cancelled_def)
next
  case (Suc n)
  have c: "was_cancelled f (Suc n) \<longleftrightarrow> was_cancelled f n \<or> hs_phase (f (Suc n)) = HostCancelled"
    by (auto simp: was_cancelled_def le_Suc_eq)
  show ?case
  proof (cases "f (Suc n) = f n")
    case True
    then have "was_cancelled f (Suc n) = was_cancelled f n" unfolding c by (auto simp: was_cancelled_def)
    with Suc True show ?thesis by simp
  next
    case False
    then have "host_step timeout (f n) (f (Suc n))" using assms(2) by (auto simp: host_run_def)
    from host_ok_step [OF this Suc] show ?thesis unfolding c .
  qed
qed

lemma run_length:
  assumes "host_run timeout f"
  shows "length (hs_tasks (f n)) = length (hs_tasks (f 0))"
proof (induction n)
  case (Suc n)
  have "length (hs_tasks s') = length (hs_tasks s)" if "host_step timeout s s'" for s s'
    using that unfolding host_step_def by (elim disjE host_move.cases env_stepE) simp_all
  with Suc assms show ?case unfolding host_run_def by metis
qed simp

text \<open>A run comes to rest: from some moment on nothing happens any more.\<close>

lemma run_settles:
  assumes "host_run timeout f"
  shows "\<exists>n \<ge> k. \<forall>m \<ge> n. f m = f n"
proof -
  define n where "n = (ARG_MIN (\<lambda>n. steps_left (f n)) n. n \<ge> k)"
  have n: "n \<ge> k" "\<And>m. m \<ge> k \<Longrightarrow> steps_left (f n) \<le> steps_left (f m)"
    using arg_min_nat_lemma [of "\<lambda>n. n \<ge> k" k "\<lambda>n. steps_left (f n)"] unfolding n_def by auto
  have "f (n + j) = f n" for j
  proof (induction j)
    case (Suc j)
    have "\<not> host_step timeout (f (n + j)) (f (Suc (n + j)))"
      using n(2) [of "Suc (n + j)"] n(1) steps_decrease [of timeout "f (n + j)" "f (Suc (n + j))"] Suc by auto
    moreover have "f (Suc (n + j)) = f (n + j) \<or> host_step timeout (f (n + j)) (f (Suc (n + j)))"
      using assms unfolding host_run_def by blast
    ultimately show ?case using Suc by simp
  qed simp
  with n(1) show ?thesis by (metis le_Suc_ex)
qed

text \<open>What has once happened stays: a task that ended, a stop signal that was set, a cancellation.\<close>

definition winding_down :: "nat set \<Rightarrow> host_state \<Rightarrow> bool" where
  "winding_down heeds s \<longleftrightarrow> list_ex task_done (hs_tasks s) \<or> hs_phase s \<noteq> WaitFirst \<or>
     hs_stop s \<and> (\<exists>i < length (hs_tasks s). i \<in> heeds)"

lemma winding_down_step: "host_step timeout s s' \<Longrightarrow> winding_down heeds s \<Longrightarrow> winding_down heeds s'"
  unfolding host_step_def
  by (elim disjE host_move.cases env_stepE)
    (auto simp: winding_down_def stop_set_def running_nth done_update)

lemma winding_down_later:
  assumes "host_run timeout f" "winding_down heeds (f k)" "k \<le> n"
  shows "winding_down heeds (f n)"
  using assms(3,2)
proof (induction rule: dec_induct)
  case (step n)
  then show ?case using assms(1) winding_down_step [of timeout "f n" "f (Suc n)"]
    unfolding host_run_def by metis
qed

text \<open>At rest, a host that is winding down has ended.\<close>

lemma rest_is_end:
  assumes ok: "host_ok c s" and rest: "\<nexists>s'. host_move timeout s s'"
    and heeded: "\<And>i. i \<in> hs_cancelled s \<or> hs_stop s \<and> i \<in> heeds \<Longrightarrow> i \<notin> running (hs_tasks s)"
    and all: "timeout = None \<Longrightarrow> {..< length (hs_tasks s)} \<subseteq> heeds" and down: "winding_down heeds s"
  shows "\<exists>r. hs_phase s = Ended r"
proof (rule ccontr)
  assume going: "\<nexists>r. hs_phase s = Ended r"
  have busy: "running (hs_tasks s) \<noteq> {}"
    using going rest host_move.all_completed host_move.gathered by (cases "hs_phase s") blast+
  then obtain i where i: "i \<in> running (hs_tasks s)" by blast
  show False
  proof (cases "hs_phase s")
    case WaitFirst
    then have "\<not> list_ex task_done (hs_tasks s)" using busy rest host_move.first_completed by blast
    with WaitFirst down heeded none_done show False unfolding winding_down_def by metis
  next
    case WaitAll
    then have "timeout = None" using busy rest host_move.times_out by blast
    with all heeded [of i] i running_nth [OF i] ok WaitAll show False by (auto simp: host_ok_def)
  next
    case WaitStragglers
    with ok i heeded [of i] show False by (auto simp: host_ok_def)
  next
    case HostCancelled
    with ok i heeded [of i] show False by (auto simp: host_ok_def)
  qed (use going in blast)
qed

text \<open>With \<open>shutdown_timeout=None\<close> the host has no move of its own while a worker runs: it waits indefinitely.\<close>

lemma waits_indefinitely:
  "hs_phase s = WaitAll \<Longrightarrow> running (hs_tasks s) \<noteq> {} \<Longrightarrow> \<not> host_move None s s'"
  by (simp add: host_move_simps)

text \<open>
  C24. A worker host shuts down as one. Let the event loop be fair to the host and let every worker that is
  cancelled end some time after; with \<open>shutdown_timeout=None\<close>, where the host waits indefinitely, let every
  worker also end some time after the stop signal. Then, once a worker has ended in any way, the host was
  cancelled, or the stop signal is set that some worker heeds, \<open>run\<close> ends. At whatever moment it has ended,
  every worker is down, the stop signal is set, and it ends with its own cancellation if it was cancelled and
  else with the first failure in registration order. And the stop signal is set as soon as one worker is down.
\<close>

theorem worker_host_winds_down:
  assumes start: "start_run h = Inr (f 0)" and run: "host_run (wh_shutdown_timeout h) f"
    and fair: "fair_to_host (wh_shutdown_timeout h) f" and ends: "workers_end heeds f"
    and all: "wh_shutdown_timeout h = None \<Longrightarrow> {..< length (wh_workers h)} \<subseteq> heeds"
    and down: "list_ex task_done (hs_tasks (f k)) \<or> hs_phase (f k) = HostCancelled \<or>
      hs_stop (f k) \<and> heeds \<inter> {..< length (wh_workers h)} \<noteq> {}"
  shows "(\<exists>n \<ge> k. \<exists>r. hs_phase (f n) = Ended r) \<and>
    (\<forall>n r. hs_phase (f n) = Ended r \<longrightarrow> (\<forall>t \<in> set (hs_tasks (f n)). t \<noteq> Running) \<and> hs_stop (f n) \<and>
       r = (if was_cancelled f n then Some PyCancelled else first_failure (hs_tasks (f n)))) \<and>
    (\<forall>n. list_ex task_done (hs_tasks (f n)) \<longrightarrow> hs_stop (f n))"
proof (intro conjI)
  note ok = run_ok [OF start run]
  obtain n where n: "n \<ge> k" "\<And>m. m \<ge> n \<Longrightarrow> f m = f n" using run_settles [OF run] by blast
  have len: "length (hs_tasks (f j)) = length (wh_workers h)" for j
    using run_length [OF run] start_phase [OF start] by simp
  have rest: "\<nexists>s. host_move (wh_shutdown_timeout h) (f n) s"
  proof
    assume "\<exists>s. host_move (wh_shutdown_timeout h) (f n) s"
    then obtain m where "m \<ge> n" "host_move (wh_shutdown_timeout h) (f m) (f (Suc m))"
      using fair n(2) unfolding fair_to_host_def by metis
    then show False using steps_decrease [of "wh_shutdown_timeout h" "f n" "f n"] n(2) [of m] n(2) [of "Suc m"]
      by (simp add: host_step_def)
  qed
  have heeded: "i \<notin> running (hs_tasks (f n))" if "i \<in> hs_cancelled (f n) \<or> hs_stop (f n) \<and> i \<in> heeds" for i
    using ends that n(2) unfolding workers_end_def by metis
  have "winding_down heeds (f k)" using down len by (auto simp: winding_down_def)
  from winding_down_later [OF run this n(1)] have "\<exists>r. hs_phase (f n) = Ended r"
    by (intro rest_is_end [OF ok rest heeded _ ]) (auto simp: len dest!: all)
  with n(1) show "\<exists>n \<ge> k. \<exists>r. hs_phase (f n) = Ended r" by blast
  show "\<forall>n r. hs_phase (f n) = Ended r \<longrightarrow> (\<forall>t \<in> set (hs_tasks (f n)). t \<noteq> Running) \<and> hs_stop (f n) \<and>
       r = (if was_cancelled f n then Some PyCancelled else first_failure (hs_tasks (f n)))"
  proof (intro allI impI)
    fix n r
    assume "hs_phase (f n) = Ended r"
    then have "running (hs_tasks (f n)) = {}" "hs_tasks (f n) \<noteq> []" "list_ex task_done (hs_tasks (f n)) \<longrightarrow> hs_stop (f n)"
      "r = (if was_cancelled f n then Some PyCancelled else first_failure (hs_tasks (f n)))"
      using ok [of n] by (simp_all add: host_ok_def)
    then show "(\<forall>t \<in> set (hs_tasks (f n)). t \<noteq> Running) \<and> hs_stop (f n) \<and>
       r = (if was_cancelled f n then Some PyCancelled else first_failure (hs_tasks (f n)))"
      using all_done [of "hs_tasks (f n)"] unfolding none_running [symmetric] by blast
  qed
  show "\<forall>n. list_ex task_done (hs_tasks (f n)) \<longrightarrow> hs_stop (f n)" using ok by (auto simp: host_ok_def)
qed

text \<open>One worker that returns: the host resumes once more and ends without a failure.\<close>

definition short_run :: "nat \<Rightarrow> host_state" where
  "short_run n = \<lparr>hs_tasks = [if n = 0 then Running else Returned], hs_cancelled = {}, hs_stop = (n \<noteq> 0),
     hs_phase = (if n \<le> 1 then WaitFirst else Ended None)\<rparr>"

lemma short_run_moves: "host_move None (short_run 1) (short_run (Suc 1))"
proof -
  have "running (hs_tasks (short_run 1)) = {}" by (simp add: none_running short_run_def)
  then show ?thesis using host_move.all_completed [of "short_run 1" None]
    by (simp add: short_run_def first_failure_def)
qed

theorem worker_host_winds_down_witness:
  "start_run \<lparr>wh_workers = [(''http'', ())], wh_shutdown_timeout = None, wh_stop = False\<rparr> = Inr (short_run 0) \<and>
   (\<exists>n r. hs_phase (short_run n) = Ended r \<and> \<not> was_cancelled short_run n)"
proof -
  let ?h = "\<lparr>wh_workers = [(''http'', ())], wh_shutdown_timeout = None, wh_stop = False\<rparr>"
  have s: "start_run ?h = Inr (short_run 0)" by (simp add: start_run_def short_run_def)
  have ended: "env_step (short_run 0) (short_run (Suc 0))"
    using env_step.worker_ends [of 0 "short_run 0" Returned] by (simp add: short_run_def running_def stop_set_def)
  have "short_run (Suc n) = short_run n \<or> host_step None (short_run n) (short_run (Suc n))" for n
  proof -
    consider "n = 0" | "n = 1" | "n \<ge> 2" by linarith
    then show ?thesis using ended short_run_moves by cases (auto simp: host_step_def short_run_def)
  qed
  then have r: "host_run (wh_shutdown_timeout ?h) short_run" by (simp add: host_run_def)
  have "\<not> host_move None (short_run m) s" if "m \<ge> 2" for m s
    using that by (auto simp: host_move_simps short_run_def)
  then have f: "fair_to_host (wh_shutdown_timeout ?h) short_run"
    unfolding fair_to_host_def by (metis max.cobounded1 max.cobounded2 worker_host.select_convs(2))
  have e: "workers_end {0} short_run"
    unfolding workers_end_def
  proof (intro allI impI)
    fix n i
    show "\<exists>m \<ge> n. i \<notin> running (hs_tasks (short_run m))"
      by (rule exI [of _ "Suc n"], cases i) (simp_all add: short_run_def running_def)
  qed
  have "list_ex task_done (hs_tasks (short_run 1))" by (simp add: short_run_def task_done_def)
  then have d: "list_ex task_done (hs_tasks (short_run 1)) \<or> hs_phase (short_run 1) = HostCancelled \<or>
      hs_stop (short_run 1) \<and> {0} \<inter> {..< length (wh_workers ?h)} \<noteq> {}" by (rule disjI1)
  have a: "{..< length (wh_workers ?h)} \<subseteq> {0}" by auto
  from worker_host_winds_down [OF s r f e a d] obtain n v where "hs_phase (short_run n) = Ended v" by blast
  moreover have "\<not> was_cancelled short_run n" by (auto simp: was_cancelled_def short_run_def)
  ultimately show ?thesis using s by blast
qed

end
