(* ===== verification/Probe.thy ===== *)
theory Probe
  imports SpecDoc HttpClient Health HttpApp
begin

text \<open>
  \<open>benzene.mesh.probe\<close>: the audit of a running service over HTTP against the Cloud Service Profile. The HTTP call is an argument, an
  action that returns a status and a text or raises. The theorem says what each verdict is evidence of, and that failing to reach a
  service is never held against it.
\<close>

section \<open>Reports\<close>

definition PROBE_PREFIX :: string where "PROBE_PREFIX = ''/benzene''"

datatype audit_verdict = Satisfied | NotSatisfied | Inconclusive

fun verdict_value :: "audit_verdict \<Rightarrow> string" where
  "verdict_value Satisfied = ''satisfied''"
| "verdict_value NotSatisfied = ''not-satisfied''"
| "verdict_value Inconclusive = ''inconclusive''"

record requirement_probe =
  rp_id :: string
  rp_verdict :: audit_verdict
  rp_reason :: string

record probe_report =
  pr_base_url :: string
  pr_probes :: "requirement_probe list"
  pr_mesh :: "requirement_probe list"

definition mk_probe :: "string \<Rightarrow> audit_verdict \<Rightarrow> string \<Rightarrow> requirement_probe" where
  "mk_probe rid v reason = \<lparr>rp_id = rid, rp_verdict = v, rp_reason = reason\<rparr>"

definition probe_verdict :: "probe_report \<Rightarrow> string \<Rightarrow> audit_verdict outcome" where
  "probe_verdict r rid = (case find (\<lambda>p. rp_id p = rid) (pr_probes r @ pr_mesh r) of
     Some p \<Rightarrow> Inr (rp_verdict p)
   | None \<Rightarrow> Inl (PyException ''KeyError'' (repr_str rid)))"

definition probe_not_satisfied :: "probe_report \<Rightarrow> string list" where
  "probe_not_satisfied r = map rp_id (filter (\<lambda>p. rp_verdict p = NotSatisfied) (pr_probes r))"

definition probe_inconclusive :: "probe_report \<Rightarrow> string list" where
  "probe_inconclusive r = map rp_id (filter (\<lambda>p. rp_verdict p = Inconclusive) (pr_probes r))"

definition is_clean :: "probe_report \<Rightarrow> bool" where
  "is_clean r = (probe_not_satisfied r = [])"

definition probe_payload :: "requirement_probe \<Rightarrow> pyval" where
  "probe_payload p = VDict [(''id'', VStr (rp_id p)), (''verdict'', VStr (verdict_value (rp_verdict p))), (''reason'', VStr (rp_reason p))]"

definition probe_report_payload :: "probe_report \<Rightarrow> pydict" where
  "probe_report_payload r = [(''baseUrl'', VStr (pr_base_url r)), (''requirements'', VList (map probe_payload (pr_probes r))),
     (''mesh'', VList (map probe_payload (pr_mesh r)))]"

section \<open>Requests\<close>

record fetched =
  ft_reached :: bool
  ft_status :: int
  ft_document :: "pydict option"
  ft_envelope :: bool
  ft_detail :: string

type_synonym 'w http_call = "string \<Rightarrow> string \<Rightarrow> string option \<Rightarrow> ('w, int \<times> string) action"

definition mk_fetched :: "bool \<Rightarrow> int \<Rightarrow> pydict option \<Rightarrow> bool \<Rightarrow> string \<Rightarrow> fetched" where
  "mk_fetched reached status document envelope detail =
     \<lparr>ft_reached = reached, ft_status = status, ft_document = document, ft_envelope = envelope, ft_detail = detail\<rparr>"

definition unreachable :: "string \<Rightarrow> pyexn \<Rightarrow> fetched" where
  "unreachable url e = mk_fetched False 0 None False (url @ '' was unreachable: '' @ exn_text e)"

definition parse_object :: "string \<Rightarrow> pydict option" where
  "parse_object text = (if text = [] then None else case loads text of Some (VDict d) \<Rightarrow> Some d | _ \<Rightarrow> None)"

definition read_surface :: "string \<Rightarrow> int list \<Rightarrow> int \<times> string \<Rightarrow> fetched" where
  "read_surface url ok_statuses reply = (case reply of (status, text) \<Rightarrow>
     if status = 404 then mk_fetched True 404 None False (url @ '' returned 404 (surface not exposed)'')
     else if status \<notin> set ok_statuses then mk_fetched True status None False (url @ '' returned status '' @ int_text status)
     else mk_fetched True status (parse_object text) False (url @ '' returned status '' @ int_text status))"

definition probe_get_json :: "'w http_call \<Rightarrow> string \<Rightarrow> int list \<Rightarrow> ('w, fetched) action" where
  "probe_get_json call url ok_statuses =
     act_except (act_bind (call ''GET'' url None) (\<lambda>reply. act_return (read_surface url ok_statuses reply)))
       (\<lambda>e. act_return (unreachable url e))"

definition read_envelope :: "string \<Rightarrow> int \<times> string \<Rightarrow> fetched" where
  "read_envelope url reply = (case reply of (status, text) \<Rightarrow>
     if status = 404 then mk_fetched True 404 None False (url @ '' returned 404 (endpoint not exposed)'')
     else case parse_object text of
       Some envelope \<Rightarrow>
         if dict_mem ''statusCode'' envelope then
           mk_fetched True status (case vget envelope ''body'' of VStr b \<Rightarrow> parse_object b | _ \<Rightarrow> None) True
             (url @ '' returned a response envelope'')
         else mk_fetched True status None False (url @ '' did not return a response envelope'')
     | None \<Rightarrow> mk_fetched True status None False (url @ '' did not return a response envelope''))"

definition envelope_text :: "string \<Rightarrow> string" where
  "envelope_text topic = json_text (VDict [(''topic'', VStr topic), (''headers'', VDict []), (''body'', VStr [])])"

definition probe_invoke :: "'w http_call \<Rightarrow> string \<Rightarrow> string \<Rightarrow> ('w, fetched) action" where
  "probe_invoke call url topic =
     act_except (act_bind (call ''POST'' url (Some (envelope_text topic))) (\<lambda>reply. act_return (read_envelope url reply)))
       (\<lambda>e. act_return (unreachable url e))"

section \<open>Grading\<close>

definition is_health_report :: "pydict \<Rightarrow> bool" where
  "is_health_report document = (case vget document ''isHealthy'' of VBool _ \<Rightarrow> True | _ \<Rightarrow> False)"

definition has_document_that :: "(pydict \<Rightarrow> bool) \<Rightarrow> fetched \<Rightarrow> bool" where
  "has_document_that P f = (case ft_document f of Some d \<Rightarrow> P d | None \<Rightarrow> False)"

definition surface_verdict :: "string \<Rightarrow> fetched \<Rightarrow> (pydict \<Rightarrow> bool) \<Rightarrow> string \<Rightarrow> string \<Rightarrow> requirement_probe" where
  "surface_verdict rid f predicate present malformed =
     (if \<not> ft_reached f then mk_probe rid Inconclusive (ft_detail f)
      else if ft_status f = 404 then mk_probe rid NotSatisfied (ft_detail f)
      else if has_document_that predicate f then mk_probe rid Satisfied present
      else mk_probe rid NotSatisfied malformed)"

definition topic_verdict :: "string \<Rightarrow> fetched \<Rightarrow> (pydict \<Rightarrow> bool) \<Rightarrow> string \<Rightarrow> string \<Rightarrow> string \<Rightarrow> requirement_probe" where
  "topic_verdict rid f predicate present malformed unobserved =
     (if ft_envelope f \<and> has_document_that predicate f then mk_probe rid Satisfied present
      else if ft_envelope f then mk_probe rid NotSatisfied malformed
      else mk_probe rid Inconclusive (unobserved @ ft_detail f))"

definition combine :: "string \<Rightarrow> requirement_probe list \<Rightarrow> requirement_probe" where
  "combine rid halves = mk_probe rid
     (if list_ex (\<lambda>h. rp_verdict h = NotSatisfied) halves then NotSatisfied
      else if list_all (\<lambda>h. rp_verdict h = Satisfied) halves then Satisfied else Inconclusive)
     (py_join ''; '' (map rp_reason halves))"

definition health_verdict :: "fetched \<Rightarrow> fetched \<Rightarrow> requirement_probe" where
  "health_verdict health checked = combine ''R3''
     [surface_verdict ''R3'' health is_health_report ''/benzene/health returns the {isHealthy, healthChecks} aggregate''
        ''/benzene/health did not return a health aggregate'',
      topic_verdict ''R3'' checked is_health_report ''benzene:healthcheck over /benzene/invoke answers with the report''
        ''benzene:healthcheck over /benzene/invoke did not answer with a health report''
        ''the benzene:healthcheck topic could not be probed: '']"

definition spec_verdict :: "fetched \<Rightarrow> fetched \<Rightarrow> requirement_probe" where
  "spec_verdict spec described = combine ''R5''
     [surface_verdict ''R5'' spec is_contract_document ''/benzene/spec returns a Contract Document''
        (''/benzene/spec did not return a Contract Document ({schemaDialect: '' @ [CHR 0x22] @ ''openapi-3.0'' @ [CHR 0x22]
         @ '', service, requests, events, sends, components})''),
      topic_verdict ''R5'' described is_contract_document ''benzene:spec over /benzene/invoke answers with it''
        ''benzene:spec over /benzene/invoke did not answer with a Contract Document''
        ''the benzene:spec topic could not be probed: '']"

definition binding_verdict :: "bool \<Rightarrow> requirement_probe" where
  "binding_verdict reachable =
     (if reachable then mk_probe ''R1'' Satisfied ''the service answered on its HTTP surface''
      else mk_probe ''R1'' Inconclusive ''no /benzene/* surface was reachable to audit'')"

definition topics_verdict :: "fetched \<Rightarrow> requirement_probe" where
  "topics_verdict spec =
     (if \<not> ft_reached spec then mk_probe ''R2'' Inconclusive (ft_detail spec)
      else case ft_document spec of
        None \<Rightarrow> mk_probe ''R2'' NotSatisfied ''/benzene/spec did not return a document''
      | Some document \<Rightarrow>
          (let app_topics = spec_topic_ids document [''requests'']
           in if app_topics \<noteq> [] then mk_probe ''R2'' Satisfied (''spec lists '' @ nat_text (length app_topics) @ '' application topic(s)'')
              else mk_probe ''R2'' NotSatisfied ''spec lists no non-reserved application topics''))"

definition invoke_verdict :: "fetched \<Rightarrow> requirement_probe" where
  "invoke_verdict described =
     (if ft_reached described \<and> ft_envelope described then
        mk_probe ''R4'' Satisfied ''/benzene/invoke accepted an envelope and returned one''
      else if ft_status described = 404 then mk_probe ''R4'' NotSatisfied (ft_detail described)
      else mk_probe ''R4'' Inconclusive (ft_detail described))"

definition paths_verdict :: "string \<Rightarrow> bool \<Rightarrow> bool \<Rightarrow> requirement_probe" where
  "paths_verdict prefix reachable surfaces_answered =
     (if prefix \<noteq> PROBE_PREFIX then mk_probe ''R7'' Inconclusive
        (''probed a non-default prefix '' @ repr_str prefix @ ''; the service'' @ [CHR 0x27] @ ''s own defaults are unknown'')
      else if surfaces_answered then mk_probe ''R7'' Satisfied ''the well-known surfaces answer under the default /benzene/ prefix''
      else if reachable then mk_probe ''R7'' NotSatisfied
        ''the service is reachable but no /benzene/ surface answered at the default paths''
      else mk_probe ''R7'' Inconclusive ''no /benzene/ surface was reachable to audit the default paths'')"

definition probe_mesh :: "requirement_probe list" where
  "probe_mesh =
     [mk_probe ''M1'' Inconclusive (''registration, heartbeat and trace delivery to a collector is not observable from outside ''
        @ ''(the register body is the Contract Document R5 audits)''),
      mk_probe ''M2'' Inconclusive ''propagation needs a second service or a collector to observe forwarded traceparent'']"

definition grade :: "string \<Rightarrow> string \<Rightarrow> fetched \<Rightarrow> fetched \<Rightarrow> fetched \<Rightarrow> fetched \<Rightarrow> probe_report" where
  "grade base prefix spec health described checked =
     (let reachable = (ft_reached spec \<or> ft_reached health \<or> ft_reached described);
          surfaces_answered = (ft_document spec \<noteq> None \<or> ft_document health \<noteq> None \<or> ft_envelope described)
      in \<lparr>pr_base_url = base,
          pr_probes = sort_key rp_id
            [binding_verdict reachable, topics_verdict spec, health_verdict health checked, invoke_verdict described,
             spec_verdict spec described, paths_verdict prefix reachable surfaces_answered],
          pr_mesh = probe_mesh\<rparr>)"

definition probe_cloud_service :: "'w http_call \<Rightarrow> string \<Rightarrow> string \<Rightarrow> ('w, probe_report) action" where
  "probe_cloud_service call base_url prefix =
     (let base = rstrip_slash base_url in
      act_bind (probe_get_json call (base @ prefix @ ''/spec'') [200]) (\<lambda>spec.
      act_bind (probe_get_json call (base @ prefix @ ''/health'') [200, 503]) (\<lambda>health.
      act_bind (probe_invoke call (base @ prefix @ ''/invoke'') SPEC_TOPIC) (\<lambda>described.
      act_bind (probe_invoke call (base @ prefix @ ''/invoke'') HEALTH_TOPIC) (\<lambda>checked.
        act_return (grade base prefix spec health described checked))))))"

section \<open>What the verdicts are evidence of\<close>

text \<open>A reply that shows a document with a property, on a surface and in an envelope.\<close>

definition surface_shows :: "(pydict \<Rightarrow> bool) \<Rightarrow> int list \<Rightarrow> (int \<times> string) outcome \<Rightarrow> bool" where
  "surface_shows P ok_statuses reply = (case reply of
     Inr (status, text) \<Rightarrow> status \<in> set ok_statuses \<and> (case parse_object text of Some d \<Rightarrow> P d | None \<Rightarrow> False)
   | Inl _ \<Rightarrow> False)"

definition is_envelope :: "(int \<times> string) outcome \<Rightarrow> bool" where
  "is_envelope reply = (case reply of
     Inr (status, text) \<Rightarrow> status \<noteq> 404 \<and> (case parse_object text of Some e \<Rightarrow> dict_mem ''statusCode'' e | None \<Rightarrow> False)
   | Inl _ \<Rightarrow> False)"

definition envelope_shows :: "(pydict \<Rightarrow> bool) \<Rightarrow> (int \<times> string) outcome \<Rightarrow> bool" where
  "envelope_shows P reply = (is_envelope reply \<and> (case reply of
     Inr (_, text) \<Rightarrow> (case parse_object text of
         Some e \<Rightarrow> (case vget e ''body'' of VStr b \<Rightarrow> (case parse_object b of Some d \<Rightarrow> P d | None \<Rightarrow> False) | _ \<Rightarrow> False)
       | None \<Rightarrow> False)
   | Inl _ \<Rightarrow> False))"

definition surface_of :: "string \<Rightarrow> int list \<Rightarrow> (int \<times> string) outcome \<Rightarrow> fetched" where
  "surface_of url ok_statuses reply = (case reply of Inl e \<Rightarrow> unreachable url e | Inr x \<Rightarrow> read_surface url ok_statuses x)"

definition envelope_of :: "string \<Rightarrow> (int \<times> string) outcome \<Rightarrow> fetched" where
  "envelope_of url reply = (case reply of Inl e \<Rightarrow> unreachable url e | Inr x \<Rightarrow> read_envelope url x)"

lemma probe_get_json_eq:
  "probe_get_json call url oks w = (case call ''GET'' url None w of (reply, w') \<Rightarrow>
     (case reply of Inl e \<Rightarrow> if catchable e then Inr (surface_of url oks reply) else Inl e | Inr _ \<Rightarrow> Inr (surface_of url oks reply), w'))"
  by (auto simp: probe_get_json_def act_except_def act_bind_def act_return_def surface_of_def split: prod.splits sum.splits)

lemma probe_invoke_eq:
  "probe_invoke call url topic w = (case call ''POST'' url (Some (envelope_text topic)) w of (reply, w') \<Rightarrow>
     (case reply of Inl e \<Rightarrow> if catchable e then Inr (envelope_of url reply) else Inl e | Inr _ \<Rightarrow> Inr (envelope_of url reply), w'))"
  by (auto simp: probe_invoke_def act_except_def act_bind_def act_return_def envelope_of_def split: prod.splits sum.splits)

lemmas probe_kinds = surface_of_def envelope_of_def read_surface_def read_envelope_def unreachable_def mk_fetched_def

lemma surface_facts:
  assumes "404 \<notin> set oks"
  shows "ft_reached (surface_of url oks o1) \<longleftrightarrow> \<not> isl o1"
    "has_document_that P (surface_of url oks o1) \<longleftrightarrow> surface_shows P oks o1"
    "ft_status (surface_of url oks o1) = 404 \<Longrightarrow> \<not> surface_shows P oks o1"
  using assms by (auto simp: probe_kinds surface_shows_def has_document_that_def split: sum.splits prod.splits option.splits if_splits)

lemma envelope_facts:
  "ft_reached (envelope_of url o1) \<longleftrightarrow> \<not> isl o1" "ft_envelope (envelope_of url o1) \<longleftrightarrow> is_envelope o1"
  "ft_envelope (envelope_of url o1) \<and> has_document_that P (envelope_of url o1) \<longleftrightarrow> envelope_shows P o1"
  by (auto simp: probe_kinds envelope_shows_def is_envelope_def has_document_that_def
      split: sum.splits prod.splits option.splits pyval.splits if_splits)

lemma surface_verdict_exact:
  assumes "404 \<notin> set oks"
  shows "rp_verdict (surface_verdict rid (surface_of url oks o1) P present malformed) =
    (if isl o1 then Inconclusive else if surface_shows P oks o1 then Satisfied else NotSatisfied)"
  using surface_facts(1) [OF assms, of url o1] surface_facts(2,3) [OF assms, where P = P and url = url and ?o1.0 = o1] by (auto simp: surface_verdict_def mk_probe_def)

lemma topic_verdict_exact:
  "rp_verdict (topic_verdict rid (envelope_of url o1) P present malformed unobserved) =
    (if envelope_shows P o1 then Satisfied else if is_envelope o1 then NotSatisfied else Inconclusive)"
  using envelope_facts(2) [of url o1] envelope_facts(3) [of url o1 P] by (auto simp: topic_verdict_def mk_probe_def)

definition both :: "audit_verdict \<Rightarrow> audit_verdict \<Rightarrow> audit_verdict" where
  "both a b = (if a = NotSatisfied \<or> b = NotSatisfied then NotSatisfied else if a = Satisfied \<and> b = Satisfied then Satisfied else Inconclusive)"

lemma combine_both: "rp_verdict (combine rid [a, b]) = both (rp_verdict a) (rp_verdict b)"
  by (auto simp: combine_def both_def mk_probe_def)

lemma probe_ids:
  "rp_id (binding_verdict reachable) = ''R1''" "rp_id (topics_verdict spec) = ''R2''" "rp_id (health_verdict health checked) = ''R3''"
  "rp_id (invoke_verdict described) = ''R4''" "rp_id (spec_verdict spec described) = ''R5''" "rp_id (paths_verdict prefix reachable answered) = ''R7''"
  by (simp_all add: binding_verdict_def topics_verdict_def health_verdict_def invoke_verdict_def spec_verdict_def paths_verdict_def
      combine_def mk_probe_def Let_def split: option.split)

lemma grade_probes:
  "pr_probes (grade base prefix spec health described checked) =
     (let reachable = (ft_reached spec \<or> ft_reached health \<or> ft_reached described);
          surfaces_answered = (ft_document spec \<noteq> None \<or> ft_document health \<noteq> None \<or> ft_envelope described)
      in [binding_verdict reachable, topics_verdict spec, health_verdict health checked, invoke_verdict described,
          spec_verdict spec described, paths_verdict prefix reachable surfaces_answered])"
proof -
  have "sorted [''R1'', ''R2'', ''R3'', ''R4'', ''R5'', ''R7'']" by code_simp
  then show ?thesis unfolding grade_def Let_def probe_report.select_convs
    by (intro sort_key_id_if_sorted) (simp only: list.map probe_ids)
qed

lemma graded:
  fixes spec health described checked base prefix
  defines "g \<equiv> grade base prefix spec health described checked"
  shows "map rp_id (pr_probes g) = [''R1'', ''R2'', ''R3'', ''R4'', ''R5'', ''R7'']"
    "probe_verdict g ''R2'' = Inr (rp_verdict (topics_verdict spec))" "probe_verdict g ''R3'' = Inr (rp_verdict (health_verdict health checked))"
    "probe_verdict g ''R4'' = Inr (rp_verdict (invoke_verdict described))" "probe_verdict g ''R5'' = Inr (rp_verdict (spec_verdict spec described))"
  unfolding g_def probe_verdict_def grade_probes Let_def by (simp_all add: probe_ids)

lemma topics_verdict_exact:
  "rp_verdict (topics_verdict (surface_of url [200] o1)) = (if isl o1 then Inconclusive
     else if surface_shows (\<lambda>d. spec_topic_ids d [''requests''] \<noteq> []) [200] o1 then Satisfied else NotSatisfied)"
  by (auto simp: topics_verdict_def probe_kinds surface_shows_def mk_probe_def Let_def split: sum.splits prod.splits option.splits if_splits)

lemma invoke_verdict_exact: "rp_verdict (invoke_verdict (envelope_of url o1)) = Satisfied \<longleftrightarrow> is_envelope o1"
  "isl o1 \<Longrightarrow> rp_verdict (invoke_verdict (envelope_of url o1)) = Inconclusive"
  by (auto simp: invoke_verdict_def probe_kinds is_envelope_def mk_probe_def split: sum.splits prod.splits option.splits if_splits)

lemma probe_replies:
  assumes "probe_cloud_service call base_url prefix w = (Inr r, w')"
  defines "u \<equiv> rstrip_slash base_url @ prefix"
  obtains o1 o2 o3 o4 w1 w2 w3 where "call ''GET'' (u @ ''/spec'') None w = (o1, w1)" "call ''GET'' (u @ ''/health'') None w1 = (o2, w2)"
    "call ''POST'' (u @ ''/invoke'') (Some (envelope_text SPEC_TOPIC)) w2 = (o3, w3)"
    "call ''POST'' (u @ ''/invoke'') (Some (envelope_text HEALTH_TOPIC)) w3 = (o4, w')"
    "r = grade (rstrip_slash base_url) prefix (surface_of (u @ ''/spec'') [200] o1) (surface_of (u @ ''/health'') [200, 503] o2)
       (envelope_of (u @ ''/invoke'') o3) (envelope_of (u @ ''/invoke'') o4)"
  using assms(1) unfolding probe_cloud_service_def Let_def act_bind_def probe_get_json_eq probe_invoke_eq act_return_def
  by (auto simp: u_def split: prod.splits sum.splits if_splits)

text \<open>
  C39. An audit's verdicts are what was observed. Every audit that ends grades the six requirements, once each and in order. Application
  topics, health, invocability and the spec are satisfied exactly when the service's replies show them: a document with an application topic
  at the spec path; a health report at its path and in an envelope; an envelope; a Contract Document at its path and in an
  envelope. When no call gets a reply, nothing is found unmet.
\<close>

theorem probe_evidence:
  assumes "probe_cloud_service call base_url prefix w = (Inr r, w')"
  defines "u \<equiv> rstrip_slash base_url @ prefix"
  shows "\<exists>o1 o2 o3 o4 w1 w2 w3. call ''GET'' (u @ ''/spec'') None w = (o1, w1) \<and> call ''GET'' (u @ ''/health'') None w1 = (o2, w2) \<and>
    call ''POST'' (u @ ''/invoke'') (Some (envelope_text SPEC_TOPIC)) w2 = (o3, w3) \<and>
    call ''POST'' (u @ ''/invoke'') (Some (envelope_text HEALTH_TOPIC)) w3 = (o4, w') \<and>
    map rp_id (pr_probes r) = [''R1'', ''R2'', ''R3'', ''R4'', ''R5'', ''R7''] \<and>
    (probe_verdict r ''R2'' = Inr Satisfied \<longleftrightarrow> surface_shows (\<lambda>d. spec_topic_ids d [''requests''] \<noteq> []) [200] o1) \<and>
    (probe_verdict r ''R3'' = Inr Satisfied \<longleftrightarrow> surface_shows is_health_report [200, 503] o2 \<and> envelope_shows is_health_report o4) \<and>
    (probe_verdict r ''R4'' = Inr Satisfied \<longleftrightarrow> is_envelope o3) \<and>
    (probe_verdict r ''R5'' = Inr Satisfied \<longleftrightarrow> surface_shows is_contract_document [200] o1 \<and> envelope_shows is_contract_document o3) \<and>
    (isl o1 \<and> isl o2 \<and> isl o3 \<and> isl o4 \<longrightarrow> is_clean r)"
proof -
  from assms(1) obtain o1 o2 o3 o4 w1 w2 w3 where c: "call ''GET'' (u @ ''/spec'') None w = (o1, w1)" "call ''GET'' (u @ ''/health'') None w1 = (o2, w2)"
      "call ''POST'' (u @ ''/invoke'') (Some (envelope_text SPEC_TOPIC)) w2 = (o3, w3)"
      "call ''POST'' (u @ ''/invoke'') (Some (envelope_text HEALTH_TOPIC)) w3 = (o4, w')"
    and r: "r = grade (rstrip_slash base_url) prefix (surface_of (u @ ''/spec'') [200] o1) (surface_of (u @ ''/health'') [200, 503] o2)
       (envelope_of (u @ ''/invoke'') o3) (envelope_of (u @ ''/invoke'') o4)"
    unfolding u_def by (rule probe_replies)
  have R3: "rp_verdict (health_verdict (surface_of (u @ ''/health'') [200, 503] o2) (envelope_of (u @ ''/invoke'') o4)) =
      both (if isl o2 then Inconclusive else if surface_shows is_health_report [200, 503] o2 then Satisfied else NotSatisfied)
        (if envelope_shows is_health_report o4 then Satisfied else if is_envelope o4 then NotSatisfied else Inconclusive)"
    unfolding health_verdict_def combine_both topic_verdict_exact by (subst surface_verdict_exact) simp_all
  have R5: "rp_verdict (spec_verdict (surface_of (u @ ''/spec'') [200] o1) (envelope_of (u @ ''/invoke'') o3)) =
      both (if isl o1 then Inconclusive else if surface_shows is_contract_document [200] o1 then Satisfied else NotSatisfied)
        (if envelope_shows is_contract_document o3 then Satisfied else if is_envelope o3 then NotSatisfied else Inconclusive)"
    unfolding spec_verdict_def combine_both topic_verdict_exact by (subst surface_verdict_exact) simp_all
  have l: "\<not> surface_shows P oks o'" "\<not> is_envelope o'" "\<not> envelope_shows P o'" if "isl o'" for P oks o'
    using that by (cases o'; simp add: surface_shows_def is_envelope_def envelope_shows_def)+
  have "is_clean r" if "isl o1" "isl o2" "isl o3" "isl o4"
  proof -
    have "rp_verdict (binding_verdict False) \<noteq> NotSatisfied" "rp_verdict (paths_verdict prefix False False) \<noteq> NotSatisfied"
      by (simp_all add: binding_verdict_def paths_verdict_def mk_probe_def)
    moreover have "ft_document (surface_of v oks o') = None" "\<not> ft_reached (surface_of v oks o')" "\<not> ft_reached (envelope_of v o')"
        "\<not> ft_envelope (envelope_of v o')" if "isl o'" for v oks o'
      using that by (cases o'; simp add: probe_kinds)+
    ultimately show ?thesis using that R3 R5 l topics_verdict_exact [of "u @ ''/spec''" o1] invoke_verdict_exact(2) [of o3 "u @ ''/invoke''"]
      by (simp add: is_clean_def probe_not_satisfied_def r grade_probes both_def)
  qed
  note clean = this
  note g = graded [of "rstrip_slash base_url" prefix "surface_of (u @ ''/spec'') [200] o1" "surface_of (u @ ''/health'') [200, 503] o2"
      "envelope_of (u @ ''/invoke'') o3" "envelope_of (u @ ''/invoke'') o4", folded r]
  have v2: "probe_verdict r ''R2'' = Inr Satisfied \<longleftrightarrow> surface_shows (\<lambda>d. spec_topic_ids d [''requests''] \<noteq> []) [200] o1"
    using l(1) [of o1] by (auto simp: g(2) topics_verdict_exact)
  have v3: "probe_verdict r ''R3'' = Inr Satisfied \<longleftrightarrow> surface_shows is_health_report [200, 503] o2 \<and> envelope_shows is_health_report o4"
    using l(1) [of o2] by (auto simp: g(3) R3 both_def)
  have v4: "probe_verdict r ''R4'' = Inr Satisfied \<longleftrightarrow> is_envelope o3" by (simp add: g(4) invoke_verdict_exact)
  have v5: "probe_verdict r ''R5'' = Inr Satisfied \<longleftrightarrow> surface_shows is_contract_document [200] o1 \<and> envelope_shows is_contract_document o3"
    using l(1) [of o1] by (auto simp: g(5) R5 both_def)
  show ?thesis
    by (intro exI [of _ o1] exI [of _ o2] exI [of _ o3] exI [of _ o4] exI [of _ w1] exI [of _ w2] exI [of _ w3] conjI impI)
      (fact c v2 v3 v4 v5 g(1) | blast intro: clean)+
qed

text \<open>A service that answers every call, and the same audit where nothing is listening.\<close>

definition stock_spec_text :: string where
  "stock_spec_text = json_text (VDict [(''schemaDialect'', VStr SCHEMA_DIALECT), (''service'', VStr ''stock''),
     (''requests'', VList [VDict [(''topic'', VStr ''stock:take'')]])])"

definition stock_health_text :: string where
  "stock_health_text = json_text (VDict [(''isHealthy'', VBool True)])"

definition in_envelope :: "string \<Rightarrow> string" where
  "in_envelope body = json_text (VDict [(''statusCode'', VStr ''ok''), (''body'', VStr body)])"

definition stock_call :: "unit http_call" where
  "stock_call verb url body = act_return (200,
     if verb = ''POST'' then in_envelope (if body = Some (envelope_text SPEC_TOPIC) then stock_spec_text else stock_health_text)
     else if ends_with ''/spec'' url then stock_spec_text else stock_health_text)"

lemma stock_replies:
  "surface_shows (\<lambda>d. spec_topic_ids d [''requests''] \<noteq> []) [200] (Inr (200, stock_spec_text))"
  "surface_shows is_contract_document [200] (Inr (200, stock_spec_text))" "surface_shows is_health_report [200, 503] (Inr (200, stock_health_text))"
  "envelope_shows is_contract_document (Inr (200, in_envelope stock_spec_text))" "envelope_shows is_health_report (Inr (200, in_envelope stock_health_text))"
  "ends_with ''/spec'' (rstrip_slash ''http://stock'' @ PROBE_PREFIX @ ''/spec'')"
  "\<not> ends_with ''/spec'' (rstrip_slash ''http://stock'' @ PROBE_PREFIX @ ''/health'')"
  "envelope_text SPEC_TOPIC \<noteq> envelope_text HEALTH_TOPIC"
  by code_simp+

theorem probe_evidence_witness:
  "\<exists>r. probe_cloud_service stock_call ''http://stock'' PROBE_PREFIX () = (Inr r, ()) \<and>
     list_all (\<lambda>i. probe_verdict r i = Inr Satisfied) [''R2'', ''R3'', ''R4'', ''R5'']"
proof -
  have "\<exists>r. probe_cloud_service stock_call ''http://stock'' PROBE_PREFIX () = (Inr r, ())"
    by (simp add: probe_cloud_service_def Let_def act_bind_def probe_get_json_eq probe_invoke_eq stock_call_def act_return_def)
  then obtain r where r: "probe_cloud_service stock_call ''http://stock'' PROBE_PREFIX () = (Inr r, ())" by blast
  from probe_evidence [OF r] r show ?thesis
    using stock_replies by (auto simp: stock_call_def act_return_def envelope_shows_def [of is_contract_document])
qed

end
