(* ===== verification/Issues.thy ===== *)
theory Issues
  imports Results Dynamic "HOL-Library.Product_Lexorder"
begin

text \<open>
  \<open>benzene.mesh.issues\<close>: failure signatures. A service classifies and counts its failures and reports
  them as deltas; the collector merges the deltas. The SHA-256 digest that makes a fingerprint is the
  argument \<open>digest\<close>, from the joined text to the first sixteen bytes in hexadecimal.
\<close>

section \<open>Classification\<close>

definition CLASSIFICATIONS :: "string list" where
  "CLASSIFICATIONS = [''exception'', ''validation'', ''config-wiring'', ''dependency'', ''contract-drift'',
     ''unclassified'']"

definition classify :: "string \<Rightarrow> string option \<Rightarrow> string" where
  "classify status exception_type =
     (if status \<in> set [''bad-request'', ''validation-error''] then ''validation''
      else if (case exception_type of None \<Rightarrow> False | Some t \<Rightarrow> t \<noteq> []) then ''exception''
      else if status \<in> set [''not-found'', ''unauthorized'', ''forbidden'', ''not-implemented''] \<or> status = []
        then ''config-wiring''
      else if status \<in> set [''service-unavailable'', ''timeout'', ''too-many-requests''] then ''dependency''
      else if status = ''unexpected-error'' then ''exception''
      else ''unclassified'')"

definition issue_fingerprint ::
  "(string \<Rightarrow> string) \<Rightarrow> string \<Rightarrow> string \<Rightarrow> string \<Rightarrow> string \<Rightarrow> string \<Rightarrow> string" where
  "issue_fingerprint digest service topic version classification discriminator =
     digest (py_join ''|'' [service, topic, version, classification, discriminator])"

section \<open>Error detail\<close>

definition MAX_ISSUE_ERRORS :: nat where "MAX_ISSUE_ERRORS = 10"

definition MAX_PENDING_ISSUE_ERRORS :: nat where "MAX_PENDING_ISSUE_ERRORS = 100"

text \<open>\<open>IssueError\<close>; its identity is the pair of its members.\<close>

record issue_error =
  ie_field :: "string option"
  ie_code :: "string option"
  ie_count :: int

type_synonym error_pair = "string option \<times> string option"

definition issue_error_to_payload :: "issue_error \<Rightarrow> pyval" where
  "issue_error_to_payload e = VDict
     (opt_member ''field'' (ie_field e) @ opt_member ''code'' (ie_code e) @ [(''count'', VInt (ie_count e))])"

text \<open>An empty member is an absent one.\<close>

definition absent_if_empty :: "string option \<Rightarrow> string option" where
  "absent_if_empty x = (case x of Some s \<Rightarrow> if s = [] then None else Some s | None \<Rightarrow> None)"

definition pair_of :: "issue_error \<Rightarrow> error_pair" where
  "pair_of e = (absent_if_empty (ie_field e), absent_if_empty (ie_code e))"

text \<open>The sort key: count descending, then field, then code, an absent member first.\<close>

definition issue_error_order :: "issue_error \<Rightarrow> int \<times> bool \<times> string \<times> bool \<times> string" where
  "issue_error_order e = (- ie_count e, ie_field e \<noteq> None, (case ie_field e of None \<Rightarrow> [] | Some f \<Rightarrow> f),
     ie_code e \<noteq> None, (case ie_code e of None \<Rightarrow> [] | Some c \<Rightarrow> c))"

definition add_error :: "issue_error \<Rightarrow> (error_pair, int) dict \<Rightarrow> (error_pair, int) dict" where
  "add_error e counts =
     (if pair_of e = (None, None) then counts
      else dict_set (pair_of e) ((case dict_get counts (pair_of e) of None \<Rightarrow> 0 | Some n \<Rightarrow> n) + ie_count e) counts)"

definition errors_of :: "(error_pair, int) dict \<Rightarrow> issue_error list" where
  "errors_of counts = map (\<lambda>((f, c), n). \<lparr>ie_field = f, ie_code = c, ie_count = n\<rparr>) counts"

definition merge_issue_errors :: "issue_error list \<Rightarrow> issue_error list \<Rightarrow> issue_error list" where
  "merge_issue_errors existing delta =
     (let counts = fold add_error (existing @ delta) []
      in take MAX_ISSUE_ERRORS (sort_key issue_error_order (errors_of counts)))"

text \<open>The lenient reading of the wire member: a malformed entry is skipped.\<close>

definition member_text :: "pyval \<Rightarrow> string option option" where
  \<comment> \<open>\<open>None\<close> is a member of a wrong type\<close>
  "member_text v = (case v of
     VNone \<Rightarrow> Some None
   | VStr s \<Rightarrow> Some (absent_if_empty (Some s))
   | _ \<Rightarrow> None)"

definition decode_issue_error :: "pyval \<Rightarrow> issue_error option" where
  "decode_issue_error item = (case item of
     VDict d \<Rightarrow> (case vget d ''count'' of
       VInt n \<Rightarrow>
         if n \<le> 0 then None
         else (case (member_text (vget d ''field''), member_text (vget d ''code'')) of
           (Some f, Some c) \<Rightarrow> if f = None \<and> c = None then None
              else Some \<lparr>ie_field = f, ie_code = c, ie_count = n\<rparr>
         | _ \<Rightarrow> None)
     | _ \<Rightarrow> None)
   | _ \<Rightarrow> None)"

definition decode_issue_errors :: "pyval \<Rightarrow> issue_error list" where
  "decode_issue_errors raw = (case raw of VList items \<Rightarrow> List.map_filter decode_issue_error items | _ \<Rightarrow> [])"

section \<open>Issues\<close>

record issue =
  is_fingerprint :: string
  is_classification :: string
  is_service :: string
  is_topic :: string
  is_status :: string
  is_version :: string
  is_transport :: "string option"
  is_exception_type :: "string option"
  is_count :: int
  is_first_seen :: "string option"
  is_last_seen :: "string option"
  is_exemplars :: "string list"
  is_resolution_hint :: "string option"
  is_errors :: "issue_error list"

definition issue_to_payload :: "issue \<Rightarrow> pydict" where
  "issue_to_payload i =
     [(''fingerprint'', VStr (is_fingerprint i)), (''classification'', VStr (is_classification i)),
      (''service'', VStr (is_service i)), (''topic'', VStr (is_topic i)), (''status'', VStr (is_status i)),
      (''count'', VInt (is_count i))]
     @ (if is_version i = [] then [] else [(''version'', VStr (is_version i))])
     @ opt_member ''transport'' (is_transport i) @ opt_member ''exceptionType'' (is_exception_type i)
     @ opt_member ''firstSeen'' (is_first_seen i) @ opt_member ''lastSeen'' (is_last_seen i)
     @ opt_member ''resolutionHint'' (is_resolution_hint i)
     @ (if is_exemplars i = [] then [] else [(''exemplarTraceIds'', VList (map VStr (is_exemplars i)))])
     @ (if is_errors i = [] then [] else [(''errors'', VList (map issue_error_to_payload (is_errors i)))])"

record issue_batch =
  ib_service :: string
  ib_issues :: "issue list"

definition batch_to_payload :: "issue_batch \<Rightarrow> pydict" where
  "batch_to_payload b = [(''service'', VStr (ib_service b)),
     (''issues'', VList (map (VDict \<circ> issue_to_payload) (ib_issues b)))]"

section \<open>The aggregator\<close>

record aggregator =
  ag_service :: string
  ag_issues :: "(string, issue) dict"
  ag_errors :: "(string, (error_pair, int) dict) dict"

definition new_aggregator :: "string \<Rightarrow> aggregator" where
  "new_aggregator service = \<lparr>ag_service = service, ag_issues = [], ag_errors = []\<rparr>"

text \<open>The arguments of \<open>record\<close>; \<open>fa_at\<close> is the time of the call when the caller gives none.\<close>

record failure_args =
  fa_topic :: string
  fa_status :: string
  fa_version :: string
  fa_transport :: "string option"
  fa_exception_type :: "string option"
  fa_trace_id :: "string option"
  fa_resolution_hint :: "string option"
  fa_at :: string
  fa_errors :: "error_like list"

definition text_or :: "string option \<Rightarrow> string \<Rightarrow> string" where
  "text_or x d = (case x of Some s \<Rightarrow> if s = [] then d else s | None \<Rightarrow> d)"

definition count_error :: "error_like \<Rightarrow> (error_pair, int) dict \<Rightarrow> (error_pair, int) dict" where
  "count_error error pending =
     (let e = coerce_error error; pair = (absent_if_empty (be_field e), absent_if_empty (be_code e))
      in if pair = (None, None) then pending
         else if dict_mem pair pending \<or> length pending < MAX_PENDING_ISSUE_ERRORS
         then dict_set pair ((case dict_get pending pair of None \<Rightarrow> 0 | Some n \<Rightarrow> n) + 1) pending
         else pending)"

definition count_errors :: "string \<Rightarrow> error_like list \<Rightarrow> aggregator \<Rightarrow> aggregator" where
  "count_errors fingerprint errors ag =
     (let pending = (case dict_get (ag_errors ag) fingerprint of None \<Rightarrow> [] | Some p \<Rightarrow> p)
      in ag\<lparr>ag_errors := dict_set fingerprint (fold count_error errors pending) (ag_errors ag)\<rparr>)"

definition AGGREGATOR_EXEMPLARS :: nat where "AGGREGATOR_EXEMPLARS = 5"

definition failure_fingerprint :: "(string \<Rightarrow> string) \<Rightarrow> string \<Rightarrow> failure_args \<Rightarrow> string" where
  "failure_fingerprint digest service a = issue_fingerprint digest service (fa_topic a) (fa_version a)
     (classify (fa_status a) (fa_exception_type a)) (text_or (fa_exception_type a) (fa_status a))"

definition first_issue :: "string \<Rightarrow> string \<Rightarrow> failure_args \<Rightarrow> issue" where
  "first_issue service fingerprint a =
     \<lparr>is_fingerprint = fingerprint, is_classification = classify (fa_status a) (fa_exception_type a),
      is_service = service, is_topic = fa_topic a, is_status = fa_status a, is_version = fa_version a,
      is_transport = fa_transport a, is_exception_type = fa_exception_type a, is_count = 0,
      is_first_seen = Some (fa_at a), is_last_seen = Some (fa_at a), is_exemplars = [],
      is_resolution_hint = fa_resolution_hint a, is_errors = []\<rparr>"

definition observe :: "failure_args \<Rightarrow> issue \<Rightarrow> issue" where
  "observe a i = i\<lparr>is_count := is_count i + 1, is_last_seen := Some (fa_at a),
     is_exemplars := (case fa_trace_id a of
        Some t \<Rightarrow> if t \<noteq> [] \<and> length (is_exemplars i) < AGGREGATOR_EXEMPLARS then is_exemplars i @ [t] else is_exemplars i
      | None \<Rightarrow> is_exemplars i)\<rparr>"

definition record_failure :: "(string \<Rightarrow> string) \<Rightarrow> failure_args \<Rightarrow> aggregator \<Rightarrow> issue \<times> aggregator" where
  "record_failure digest a ag =
     (let fp = failure_fingerprint digest (ag_service ag) a;
          i = observe a (case dict_get (ag_issues ag) fp of
                None \<Rightarrow> first_issue (ag_service ag) fp a | Some i \<Rightarrow> i)
      in (i, count_errors fp (fa_errors a) (ag\<lparr>ag_issues := dict_set fp i (ag_issues ag)\<rparr>)))"

definition flush :: "aggregator \<Rightarrow> issue_batch \<times> aggregator" where
  "flush ag =
     (\<lparr>ib_service = ag_service ag,
       ib_issues = map (\<lambda>(fp, i). i\<lparr>is_errors := merge_issue_errors []
         (errors_of (case dict_get (ag_errors ag) fp of None \<Rightarrow> [] | Some p \<Rightarrow> p))\<rparr>) (ag_issues ag)\<rparr>,
      ag\<lparr>ag_issues := [], ag_errors := []\<rparr>)"

section \<open>What a merge keeps\<close>

text \<open>The occurrences a list of entries reports for a pair.\<close>

definition reported :: "error_pair \<Rightarrow> issue_error list \<Rightarrow> int" where
  "reported p es = sum_list (map ie_count (filter (\<lambda>e. pair_of e = p) es))"

definition named_pairs :: "issue_error list \<Rightarrow> error_pair set" where
  "named_pairs es = pair_of ` set es - {(None, None)}"

lemma reported_simps [simp]:
  "reported p [] = 0"
  "reported p (e # es) = (if pair_of e = p then ie_count e + reported p es else reported p es)"
  by (simp_all add: reported_def)

lemma reported_append [simp]: "reported p (es @ fs) = reported p es + reported p fs"
  by (simp add: reported_def)

lemma named_pairs_simps [simp]:
  "named_pairs [] = {}"
  "named_pairs (e # es) = (if pair_of e = (None, None) then named_pairs es else insert (pair_of e) (named_pairs es))"
  by (auto simp: named_pairs_def)

lemma unnamed [simp]: "(None, None) \<notin> named_pairs es"
  by (simp add: named_pairs_def)

lemma fold_add_error:
  "map_of (fold add_error es d) p =
     (if p \<in> named_pairs es then Some ((case map_of d p of None \<Rightarrow> 0 | Some n \<Rightarrow> n) + reported p es) else map_of d p)"
proof (induction es arbitrary: d)
  case (Cons e es)
  have "reported p es = 0" if "p \<notin> named_pairs es" "p \<noteq> (None, None)"
  proof -
    have "filter (\<lambda>e. pair_of e = p) es = []" using that by (auto simp: filter_empty_conv named_pairs_def)
    then show ?thesis by (simp add: reported_def)
  qed
  moreover have "pair_of e \<noteq> (None, None)" if "p = pair_of e" "p \<in> named_pairs es"
    using that by (metis unnamed)
  ultimately show ?case using Cons by (auto simp: add_error_def [of e] split: option.splits)
qed simp

lemma fold_add_error_ok: "dict_ok d \<Longrightarrow> dict_ok (fold add_error es d)"
  by (induction es arbitrary: d) (simp_all add: add_error_def)

text \<open>The entries of a count table: one per pair, so that they are determined by it.\<close>

lemma pair_of_errors: "\<forall>(f, c) \<in> fst ` set counts. f \<noteq> Some [] \<and> c \<noteq> Some [] \<Longrightarrow>
    map pair_of (errors_of counts) = map fst counts"
  by (induction counts) (auto simp: errors_of_def pair_of_def absent_if_empty_def split: option.splits)

lemma absent_not_empty [simp]: "absent_if_empty x \<noteq> Some []"
  by (auto simp: absent_if_empty_def split: option.splits)

lemma absent_idem [simp]: "absent_if_empty (absent_if_empty x) = absent_if_empty x"
  by (auto simp: absent_if_empty_def split: option.splits)

lemma named_not_empty: "(f, c) \<in> named_pairs es \<Longrightarrow> f \<noteq> Some [] \<and> c \<noteq> Some []"
  by (auto simp: named_pairs_def pair_of_def)

definition all_errors :: "issue_error list \<Rightarrow> issue_error list" where
  "all_errors es = sort_key issue_error_order (errors_of (fold add_error es []))"

lemma merge_all_errors: "merge_issue_errors es fs = take MAX_ISSUE_ERRORS (all_errors (es @ fs))"
  by (simp add: merge_issue_errors_def all_errors_def Let_def)

lemma counts_keys: "fst ` set (fold add_error es []) = named_pairs es"
proof -
  have "fst ` set (fold add_error es []) = dom (map_of (fold add_error es []))" by (simp add: dom_map_of_conv_image_fst)
  also have "\<dots> = named_pairs es" by (auto simp: fold_add_error split: if_splits)
  finally show ?thesis .
qed

lemma set_all_errors: "set (all_errors es) =
    (\<lambda>p. \<lparr>ie_field = fst p, ie_code = snd p, ie_count = reported p es\<rparr>) ` named_pairs es"
proof -
  let ?d = "fold add_error es []"
  have "dict_ok ?d" by (simp add: fold_add_error_ok)
  then have "(p, n) \<in> set ?d \<longleftrightarrow> p \<in> named_pairs es \<and> n = reported p es" for p n
    using map_of_eq_Some_iff [of ?d p n] by (auto simp: dict_ok_def fold_add_error split: if_splits)
  then have "set ?d = (\<lambda>p. (p, reported p es)) ` named_pairs es" by auto
  then show ?thesis by (auto simp: all_errors_def errors_of_def image_image case_prod_beta)
qed

lemma pair_of_all: "e \<in> set (all_errors es) \<Longrightarrow> pair_of e = (ie_field e, ie_code e)"
  using named_not_empty by (auto simp: set_all_errors pair_of_def) (auto simp: absent_if_empty_def split: option.splits)

lemma distinct_all_errors: "distinct (map pair_of (all_errors es))"
proof -
  have "map pair_of (errors_of (fold add_error es [])) = map fst (fold add_error es [])"
    using named_not_empty by (intro pair_of_errors) (auto simp: counts_keys)
  then have "distinct (map pair_of (errors_of (fold add_error es [])))"
    using fold_add_error_ok [of "[]" es] by (simp add: dict_ok_def)
  then show ?thesis
    by (simp add: all_errors_def distinct_map distinct_sort)
qed

lemma inj_order: "inj issue_error_order"
  by (rule injI) (auto simp: issue_error_order_def split: option.splits intro!: issue_error.equality)

lemma sorted_all_errors: "sorted (map issue_error_order (all_errors es))"
  by (simp add: all_errors_def)

lemma all_errors_cong:
  assumes "named_pairs es = named_pairs fs" "\<And>p. reported p es = reported p fs"
  shows "all_errors es = all_errors fs"
proof -
  have d: "distinct (map issue_error_order (all_errors es))" for es
    using distinct_all_errors [of es] inj_order by (simp add: distinct_map inj_on_def)
  have "set (map issue_error_order (all_errors es)) = set (map issue_error_order (all_errors fs))"
    using assms by (simp add: set_all_errors image_image)
  with sorted_distinct_set_unique [OF sorted_all_errors d sorted_all_errors d]
  have "map issue_error_order (all_errors es) = map issue_error_order (all_errors fs)" .
  then show ?thesis using inj_order by (simp add: inj_map_eq_map)
qed

lemma take_sorted_le:
  "sorted xs \<Longrightarrow> x \<in> set (take n xs) \<Longrightarrow> y \<in> set (drop n xs) \<Longrightarrow> x \<le> y"
  using sorted_append [of "take n xs" "drop n xs"] by (simp del: sorted_append)

lemma length_all_errors: "length (all_errors es) = card (named_pairs es)"
proof -
  have "card (named_pairs es) = card (pair_of ` set (all_errors es))"
    using pair_of_all by (auto simp: set_all_errors image_image intro!: arg_cong [of _ _ card])
  then show ?thesis using distinct_card [OF distinct_all_errors [of es]] by simp
qed

text \<open>
  C25. The error detail of an issue is exact and bounded: merging a delta keeps at most ten entries, one per
  pair of field and code, each with the sum of all the occurrences reported for its pair, in the
  normative order; a pair is left out only when there are ten others, none with fewer occurrences. The
  outcome does not depend on which side of the feed merges into which, and an entry that names neither a
  field nor a code is dropped.
\<close>

theorem merge_issue_errors_exact:
  "let merged = merge_issue_errors existing delta; entries = existing @ delta
   in length merged = min MAX_ISSUE_ERRORS (card (named_pairs entries)) \<and>
      distinct (map pair_of merged) \<and> sorted (map issue_error_order merged) \<and>
      (\<forall>e \<in> set merged. pair_of e \<in> named_pairs entries \<and> ie_count e = reported (pair_of e) entries) \<and>
      (\<forall>p \<in> named_pairs entries - pair_of ` set merged. \<forall>e \<in> set merged. reported p entries \<le> ie_count e) \<and>
      merged = merge_issue_errors delta existing"
proof -
  let ?es = "existing @ delta" and ?m = "merge_issue_errors existing delta"
  have m: "?m = take MAX_ISSUE_ERRORS (all_errors ?es)" by (rule merge_all_errors)
  have mem: "pair_of e \<in> named_pairs ?es \<and> ie_count e = reported (pair_of e) ?es" if "e \<in> set (all_errors ?es)" for e
    using that pair_of_all [OF that] by (auto simp: set_all_errors)
  have left: "reported p ?es \<le> ie_count e"
    if p: "p \<in> named_pairs ?es - pair_of ` set ?m" and e: "e \<in> set ?m" for p e
  proof -
    let ?f = "\<lparr>ie_field = fst p, ie_code = snd p, ie_count = reported p ?es\<rparr>"
    have f: "?f \<in> set (all_errors ?es)" using p by (auto simp: set_all_errors)
    then have "pair_of ?f = p" using pair_of_all by fastforce
    with p have "?f \<notin> set ?m" by force
    with f have "?f \<in> set (drop MAX_ISSUE_ERRORS (all_errors ?es))"
      unfolding m by (metis Un_iff append_take_drop_id set_append)
    with e have "issue_error_order e \<le> issue_error_order ?f"
      unfolding m using sorted_all_errors by (intro take_sorted_le [of "map issue_error_order (all_errors ?es)" _ MAX_ISSUE_ERRORS])
        (auto simp: take_map drop_map)
    then show ?thesis by (auto simp: issue_error_order_def)
  qed
  have "?m = merge_issue_errors delta existing"
    unfolding merge_all_errors by (intro arg_cong [of _ _ "take _"] all_errors_cong) (auto simp: named_pairs_def)
  moreover have "distinct (map pair_of ?m)"
    using distinct_all_errors [of ?es] unfolding m by (metis distinct_take take_map)
  moreover have "sorted (map issue_error_order ?m)"
    using sorted_all_errors [of ?es] unfolding m by (metis sorted_wrt_take take_map)
  moreover have "length ?m = min MAX_ISSUE_ERRORS (card (named_pairs ?es))"
    by (simp add: m length_all_errors min.commute)
  moreover have "\<forall>e \<in> set ?m. pair_of e \<in> named_pairs ?es \<and> ie_count e = reported (pair_of e) ?es"
    using mem in_set_takeD unfolding m by metis
  ultimately show ?thesis using left unfolding Let_def by blast
qed

theorem merge_issue_errors_exact_witness:
  "\<exists>e. merge_issue_errors [\<lparr>ie_field = Some ''sku'', ie_code = Some [], ie_count = 2\<rparr>]
      [\<lparr>ie_field = Some ''sku'', ie_code = None, ie_count = 3\<rparr>, \<lparr>ie_field = Some [], ie_code = None, ie_count = 1\<rparr>] = [e] \<and>
     pair_of e = (Some ''sku'', None) \<and> ie_count e = 5"
proof -
  let ?a = "[\<lparr>ie_field = Some ''sku'', ie_code = Some [], ie_count = 2\<rparr>]"
  let ?b = "[\<lparr>ie_field = Some ''sku'', ie_code = None, ie_count = 3\<rparr>, \<lparr>ie_field = Some [], ie_code = None, ie_count = 1\<rparr>]"
  have p: "pair_of \<lparr>ie_field = Some ''sku'', ie_code = Some [], ie_count = 2\<rparr> = (Some ''sku'', None)"
    "pair_of \<lparr>ie_field = Some ''sku'', ie_code = None, ie_count = 3\<rparr> = (Some ''sku'', None)"
    "pair_of \<lparr>ie_field = Some [], ie_code = None, ie_count = 1\<rparr> = (None, None)"
    by (simp_all add: pair_of_def absent_if_empty_def)
  have n: "named_pairs (?a @ ?b) = {(Some ''sku'', None)}" "reported (Some ''sku'', None) (?a @ ?b) = 5"
    by (simp_all add: p)
  note t = merge_issue_errors_exact [of ?a ?b, unfolded Let_def n]
  from t have "length (merge_issue_errors ?a ?b) = min MAX_ISSUE_ERRORS (card {(Some ''sku'', None :: string option)})"
    by blast
  then have "length (merge_issue_errors ?a ?b) = Suc 0" by (simp add: MAX_ISSUE_ERRORS_def)
  then obtain e where e: "merge_issue_errors ?a ?b = [e]" by (auto simp only: length_Suc_conv length_0_conv)
  have "e \<in> set (merge_issue_errors ?a ?b)" unfolding e by (rule list.set_intros)
  with t have "pair_of e \<in> {(Some ''sku'', None)}" "ie_count e = reported (pair_of e) (?a @ ?b)" by blast+
  then have "pair_of e = (Some ''sku'', None)" "ie_count e = 5" unfolding n(2) [symmetric] by (simp_all only: singleton_iff)
  with e show ?thesis by blast
qed

section \<open>The wire form of error detail\<close>

text \<open>What the lenient reader produces: positive counts, no empty member, at least one member.\<close>

definition proper_error :: "issue_error \<Rightarrow> bool" where
  "proper_error e \<longleftrightarrow> 0 < ie_count e \<and> pair_of e = (ie_field e, ie_code e) \<and> pair_of e \<noteq> (None, None)"

lemma member_text_absent: "member_text v = Some f \<Longrightarrow> absent_if_empty f = f"
  by (cases v) (auto simp: member_text_def absent_if_empty_def)

lemma decode_error_proper: "decode_issue_error item = Some e \<Longrightarrow> proper_error e"
proof (cases item)
  case (VDict d)
  assume "decode_issue_error item = Some e"
  with VDict obtain n f c where "vget d ''count'' = VInt n" "0 < n" "member_text (vget d ''field'') = Some f"
    "member_text (vget d ''code'') = Some c" "f \<noteq> None \<or> c \<noteq> None"
    "e = \<lparr>ie_field = f, ie_code = c, ie_count = n\<rparr>"
    by (cases "vget d ''count''") (auto simp: decode_issue_error_def split: option.splits if_splits)
  with member_text_absent show ?thesis by (auto simp: proper_error_def pair_of_def)
qed (simp_all add: decode_issue_error_def)

lemma decode_proper: "e \<in> set (decode_issue_errors raw) \<Longrightarrow> proper_error e"
  by (cases raw) (auto simp: decode_issue_errors_def map_filter_def dest: decode_error_proper)

lemma decode_payload: "proper_error e \<Longrightarrow> decode_issue_error (issue_error_to_payload e) = Some e"
  by (cases e) (auto simp: proper_error_def decode_issue_error_def issue_error_to_payload_def opt_member_def vget_def
      member_text_def pair_of_def absent_if_empty_def split: option.splits if_splits)

lemma decode_payloads:
  "\<forall>e \<in> set es. proper_error e \<Longrightarrow> decode_issue_errors (VList (map issue_error_to_payload es)) = es"
  by (induction es) (auto simp: decode_issue_errors_def List.map_filter_def decode_payload)

lemma reported_positive:
  "\<forall>e \<in> set es. 0 < ie_count e \<Longrightarrow> p \<in> pair_of ` set es \<Longrightarrow> 0 < reported p es"
proof (induction es)
  case (Cons e es)
  have "0 \<le> reported p es"
    using Cons.prems(1) by (force simp: reported_def intro: sum_list_nonneg)
  with Cons show ?case by (cases "pair_of e = p") auto
qed simp

lemma merged_proper:
  assumes "\<forall>e \<in> set es \<union> set fs. 0 < ie_count e" "e \<in> set (merge_issue_errors es fs)"
  shows "proper_error e"
proof -
  have "e \<in> set (all_errors (es @ fs))" using assms(2) by (auto simp: merge_all_errors dest: in_set_takeD)
  then have "pair_of e = (ie_field e, ie_code e)" "pair_of e \<in> named_pairs (es @ fs)"
    "ie_count e = reported (pair_of e) (es @ fs)"
    using pair_of_all [of e "es @ fs"] by (auto simp: set_all_errors)
  moreover have "0 < reported (pair_of e) (es @ fs)"
    using assms(1) \<open>pair_of e \<in> named_pairs (es @ fs)\<close> by (intro reported_positive) (auto simp: named_pairs_def)
  moreover have "pair_of e \<noteq> (None, None)" using \<open>pair_of e \<in> named_pairs (es @ fs)\<close> by (metis unnamed)
  ultimately show ?thesis by (simp add: proper_error_def)
qed

section \<open>What a flush reports\<close>

definition record_all :: "(string \<Rightarrow> string) \<Rightarrow> failure_args list \<Rightarrow> aggregator \<Rightarrow> aggregator" where
  "record_all digest as ag = fold (\<lambda>a g. snd (record_failure digest a g)) as ag"

text \<open>The window so far: one issue per fingerprint recorded, counting its failures.\<close>

definition window_ok :: "(string \<Rightarrow> string) \<Rightarrow> string \<Rightarrow> failure_args list \<Rightarrow> aggregator \<Rightarrow> bool" where
  "window_ok digest service as ag \<longleftrightarrow> ag_service ag = service \<and> dict_ok (ag_issues ag) \<and>
     fst ` set (ag_issues ag) = failure_fingerprint digest service ` set as \<and>
     (\<forall>(fp, i) \<in> set (ag_issues ag). is_fingerprint i = fp \<and> is_service i = service \<and>
        is_count i = int (length (filter (\<lambda>a. failure_fingerprint digest service a = fp) as)) \<and>
        length (is_exemplars i) \<le> AGGREGATOR_EXEMPLARS)"

lemma window_ok_get:
  assumes "window_ok digest service as ag"
  shows "dict_get (ag_issues ag) fp = None \<Longrightarrow> filter (\<lambda>a. failure_fingerprint digest service a = fp) as = []"
    and "dict_get (ag_issues ag) fp = Some i \<Longrightarrow> is_fingerprint i = fp \<and> is_service i = service \<and>
      is_count i = int (length (filter (\<lambda>a. failure_fingerprint digest service a = fp) as)) \<and>
      length (is_exemplars i) \<le> AGGREGATOR_EXEMPLARS"
  using assms by (auto simp: window_ok_def map_of_eq_None_iff filter_empty_conv dest!: map_of_SomeD)

lemma dict_set_entries: "dict_ok d \<Longrightarrow> set (dict_set k v d) = insert (k, v) {p \<in> set d. fst p \<noteq> k}"
proof -
  assume ok: "dict_ok d"
  have "(a, b) \<in> set (dict_set k v d) \<longleftrightarrow> (a, b) \<in> insert (k, v) {p \<in> set d. fst p \<noteq> k}" for a b
    using map_of_eq_Some_iff [of "dict_set k v d" a b] map_of_eq_Some_iff [of d a b] ok dict_ok_set [OF ok, of k v]
    by (auto simp: dict_ok_def split: if_splits)
  then show ?thesis by auto
qed

lemma window_ok_record:
  assumes "window_ok digest service as ag"
  shows "window_ok digest service (as @ [a]) (snd (record_failure digest a ag))"
proof -
  let ?fp = "failure_fingerprint digest service a"
  define i where "i = observe a (case dict_get (ag_issues ag) ?fp of
    None \<Rightarrow> first_issue service ?fp a | Some i \<Rightarrow> i)"
  have s: "ag_service ag = service" and ok: "dict_ok (ag_issues ag)" using assms by (auto simp: window_ok_def)
  have i: "is_fingerprint i = ?fp \<and> is_service i = service \<and>
      is_count i = 1 + int (length (filter (\<lambda>b. failure_fingerprint digest service b = ?fp) as)) \<and>
      length (is_exemplars i) \<le> AGGREGATOR_EXEMPLARS"
  proof (cases "dict_get (ag_issues ag) ?fp")
    case None
    with window_ok_get(1) [OF assms None] show ?thesis
      by (simp add: i_def observe_def first_issue_def AGGREGATOR_EXEMPLARS_def split: option.splits)
  next
    case (Some j)
    with window_ok_get(2) [OF assms Some] show ?thesis by (simp add: i_def observe_def split: option.splits)
  qed
  have g: "ag_issues (snd (record_failure digest a ag)) = dict_set ?fp i (ag_issues ag)"
    "ag_service (snd (record_failure digest a ag)) = service"
    unfolding record_failure_def Let_def i_def count_errors_def s by (simp_all add: s)
  show ?thesis
    unfolding window_ok_def g dict_set_entries [OF ok]
  proof (intro conjI refl)
    show "dict_ok (dict_set ?fp i (ag_issues ag))" using ok by simp
    have "fst ` insert (?fp, i) {p \<in> set (ag_issues ag). fst p \<noteq> ?fp} = insert ?fp (fst ` set (ag_issues ag))"
      by (auto simp: image_iff)
    then show "fst ` insert (?fp, i) {p \<in> set (ag_issues ag). fst p \<noteq> ?fp} =
        failure_fingerprint digest service ` set (as @ [a])"
      using assms by (simp add: window_ok_def)
    show "\<forall>(fp, j) \<in> insert (?fp, i) {p \<in> set (ag_issues ag). fst p \<noteq> ?fp}. is_fingerprint j = fp \<and>
        is_service j = service \<and>
        is_count j = int (length (filter (\<lambda>a. failure_fingerprint digest service a = fp) (as @ [a]))) \<and>
        length (is_exemplars j) \<le> AGGREGATOR_EXEMPLARS"
      using assms i by (fastforce simp: window_ok_def)
  qed
qed

lemma window_ok_all: "window_ok digest service as (record_all digest as (new_aggregator service))"
proof (induction as rule: rev_induct)
  case Nil
  show ?case by (simp add: record_all_def window_ok_def new_aggregator_def)
next
  case (snoc a as)
  from window_ok_record [OF this, of a] show ?case by (simp add: record_all_def)
qed

text \<open>
  A flush reports the window and nothing else: recording failures and flushing gives one issue per
  fingerprint recorded, each with the number of failures that have it since the previous flush, at most
  five exemplars and at most ten entries of error detail, so that the counts of a batch add up to the
  failures recorded; and the aggregator is then as new.
\<close>

lemma flush_reports_window:
  "let (batch, rest) = flush (record_all digest as (new_aggregator service))
   in rest = new_aggregator service \<and> ib_service batch = service \<and>
      distinct (map is_fingerprint (ib_issues batch)) \<and>
      set (map is_fingerprint (ib_issues batch)) = failure_fingerprint digest service ` set as \<and>
      (\<forall>i \<in> set (ib_issues batch).
         is_count i = int (length (filter (\<lambda>a. failure_fingerprint digest service a = is_fingerprint i) as)) \<and>
         length (is_exemplars i) \<le> AGGREGATOR_EXEMPLARS \<and> length (is_errors i) \<le> MAX_ISSUE_ERRORS) \<and>
      sum_list (map is_count (ib_issues batch)) = int (length as)"
proof -
  let ?ag = "record_all digest as (new_aggregator service)"
  let ?fp = "failure_fingerprint digest service"
  obtain batch rest where f: "flush ?ag = (batch, rest)" by (cases "flush ?ag")
  have w: "window_ok digest service as ?ag" by (rule window_ok_all)
  have r: "rest = new_aggregator service" and sv: "ib_service batch = service"
    using f w by (auto simp: flush_def new_aggregator_def window_ok_def)
  have fps: "map is_fingerprint (ib_issues batch) = map fst (ag_issues ?ag)"
    using f w by (fastforce simp: flush_def window_ok_def)
  have counts: "map is_count (ib_issues batch) =
      map (\<lambda>fp. int (length (filter (\<lambda>a. ?fp a = fp) as))) (map fst (ag_issues ?ag))"
    using f w by (fastforce simp: flush_def window_ok_def)
  have d: "distinct (map fst (ag_issues ?ag))" and st: "set (map fst (ag_issues ?ag)) = ?fp ` set as"
    using w by (auto simp: window_ok_def dict_ok_def)
  have "\<forall>i \<in> set (ib_issues batch). is_count i = int (length (filter (\<lambda>a. ?fp a = is_fingerprint i) as)) \<and>
         length (is_exemplars i) \<le> AGGREGATOR_EXEMPLARS \<and> length (is_errors i) \<le> MAX_ISSUE_ERRORS"
    using f w by (fastforce simp: flush_def window_ok_def merge_all_errors)
  moreover have "sum_list (map is_count (ib_issues batch)) = int (length as)"
  proof -
    have "sum_list (map is_count (ib_issues batch)) = (\<Sum>fp \<in> ?fp ` set as. int (length (filter (\<lambda>a. ?fp a = fp) as)))"
      unfolding counts using d st by (simp only: sum_list_distinct_conv_sum_set)
    also have "\<dots> = int (\<Sum>fp \<in> ?fp ` set as. count_list (map ?fp as) fp)"
      by (simp add: count_list_eq_length_filter filter_map o_def eq_commute)
    also have "\<dots> = int (length as)" by (simp add: sum_count_set flip: set_map)
    finally show ?thesis .
  qed
  ultimately show ?thesis using r sv d st unfolding fps [symmetric] by (simp add: f)
qed

end
