(* ===== verification/Collector.thy ===== *)
theory Collector
  imports Issues SpecDoc
begin

text \<open>
  \<open>benzene.mesh.collector\<close>: the catalogue of a fleet. Services push registrations (their Contract
  Document), heartbeats, traces and issues; the collector keeps them and derives who consumes and who
  provides each topic. Bodies are decoded JSON objects that may be malformed, so an ingest may raise
  midway, and what it did before is kept, as in Python. The store a snapshot is written to is the
  argument \<open>save\<close>, an action on the rest of the world. The fleet view's trace summaries, which need
  calendar arithmetic, are not modelled.
\<close>

section \<open>The catalogue\<close>

text \<open>Fields that hold whatever the wire carried are values; \<open>None\<close> is \<open>VNone\<close>.\<close>

record instance_info =
  in_healthy :: bool
  in_registration_hash :: pyval
  in_service_version :: pyval
  in_health_checks :: pydict

record service_record =
  sv_name :: string
  sv_registered :: bool
  sv_registration_hash :: pyval
  sv_previous_registration_hash :: pyval
  sv_consumed :: "string list"
  sv_produced :: "string list"
  sv_known :: "string list"
  sv_document :: pydict
  sv_topic_specs :: "(string, pydict) dict"
  sv_previous_topic_specs :: "(string, pydict) dict"
  sv_instances :: "(string, instance_info) dict"
  sv_reported_issues :: bool

record trace_event =
  ev_trace_id :: string
  ev_span_id :: string
  ev_parent_span_id :: pyval
  ev_service :: string
  ev_topic :: string
  ev_status :: string
  ev_started_at :: pyval
  ev_duration_ms :: pyval

record collector =
  co_services :: "(string, service_record) dict"
  co_topics :: "string set"
  co_ever_consumed :: "string set"
  co_events :: "trace_event list"
  co_span_owner :: "(string, string) dict"
  co_issues :: "(string, pydict) dict"

definition new_service :: "string \<Rightarrow> service_record" where
  "new_service name = \<lparr>sv_name = name, sv_registered = False, sv_registration_hash = VNone,
     sv_previous_registration_hash = VNone, sv_consumed = [], sv_produced = [], sv_known = [], sv_document = [],
     sv_topic_specs = [], sv_previous_topic_specs = [], sv_instances = [], sv_reported_issues = False\<rparr>"

definition empty_collector :: collector where
  "empty_collector = \<lparr>co_services = [], co_topics = {}, co_ever_consumed = {}, co_events = [],
     co_span_owner = [], co_issues = []\<rparr>"

text \<open>\<open>_service\<close>: the record of a name, created when there is none.\<close>

definition service_of :: "collector \<Rightarrow> string \<Rightarrow> service_record" where
  "service_of c name = (case dict_get (co_services c) name of None \<Rightarrow> new_service name | Some r \<Rightarrow> r)"

definition put_service :: "string \<Rightarrow> service_record \<Rightarrow> collector \<Rightarrow> collector" where
  "put_service name r c = c\<lparr>co_services := dict_set name r (co_services c)\<rparr>"

definition ensure_service :: "string \<Rightarrow> collector \<Rightarrow> collector" where
  "ensure_service name c = (if dict_mem name (co_services c) then c
     else put_service name (new_service name) c)"

section \<open>Reading a body\<close>

definition bad_request_error :: "string \<Rightarrow> pyexn" where
  "bad_request_error key = PyException ''CollectorBadRequest'' (repr_str key @ '' is required'')"

definition require :: "pydict \<Rightarrow> string \<Rightarrow> string outcome" where
  "require body key = (if truthy (vget body key) then Inr (str_val (vget body key)) else Inl (bad_request_error key))"

text \<open>\<open>float(value)\<close> of an integer raises past the range of a double.\<close>

definition duration_ms :: "pyval \<Rightarrow> pyval outcome" where
  "duration_ms v = (case v of
     VInt i \<Rightarrow>
       if double_limit \<le> \<bar>of_int i\<bar> then Inl (PyException ''OverflowError'' ''int too large to convert to float'')
       else Inr (VFloat (if 0 \<le> i then int_text i @ ''.0'' else ''0.0''))
   | VFloat t \<Rightarrow> Inr (VFloat (case float_value t of None \<Rightarrow> ''0.0'' | Some x \<Rightarrow> if 0 \<le> x then t else ''0.0''))
   | _ \<Rightarrow> Inr (VFloat ''0.0''))"

definition safe_int :: "pyval \<Rightarrow> int outcome" where
  "safe_int v = (case v of
     VBool b \<Rightarrow> Inr (if b then 1 else 0)
   | VInt i \<Rightarrow> Inr i
   | VStr s \<Rightarrow> Inr (case int_of_str s of None \<Rightarrow> 0 | Some i \<Rightarrow> i)
   | VFloat t \<Rightarrow> (case float_value t of
       Some x \<Rightarrow> Inr (truncate_rat x)
     | None \<Rightarrow> if t = ''NaN'' then Inr 0
         else Inl (PyException ''OverflowError'' ''cannot convert float infinity to integer''))
   | _ \<Rightarrow> Inr 0)"

definition member_or :: "pydict \<Rightarrow> string \<Rightarrow> pyval \<Rightarrow> pyval" where
  "member_or d key dflt = (case dict_get d key of None \<Rightarrow> dflt | Some v \<Rightarrow> v)"

section \<open>Issues\<close>

definition COLLECTOR_EXEMPLARS :: nat where "COLLECTOR_EXEMPLARS = 3"

definition AGGREGATED_ISSUE_FIELDS :: "string list" where
  "AGGREGATED_ISSUE_FIELDS = [''count'', ''errors'', ''exemplarTraceIds'', ''firstSeen'', ''lastSeen'']"

text \<open>\<open>_merge_issue_errors\<close>\<close>

definition merge_errors_into :: "pyval \<Rightarrow> pydict \<Rightarrow> pydict" where
  "merge_errors_into incoming merged =
     (let combined = merge_issue_errors (decode_issue_errors (vget merged ''errors'')) (decode_issue_errors incoming)
      in if combined = [] then dict_del ''errors'' merged
         else dict_set ''errors'' (VList (map issue_error_to_payload combined)) merged)"

definition first_merge :: "pydict \<Rightarrow> pyval list \<Rightarrow> pydict outcome" where
  "first_merge issue incoming_exemplars = and_then (safe_int (member_or issue ''count'' (VInt 0))) (\<lambda>n.
     Inr (merge_errors_into (vget issue ''errors'')
       (dict_del ''errors'' (dict_set ''exemplarTraceIds'' (VList (last_n COLLECTOR_EXEMPLARS incoming_exemplars))
         (dict_set ''count'' (VInt n) issue)))))"

definition exemplars_of :: "pydict \<Rightarrow> pyval list" where
  "exemplars_of issue = (case vget issue ''exemplarTraceIds'' of VList xs \<Rightarrow> xs | _ \<Rightarrow> [])"

definition merge_exemplars :: "pyval list \<Rightarrow> pydict \<Rightarrow> pydict" where
  "merge_exemplars incoming existing =
     (let old = exemplars_of existing
      in dict_set ''exemplarTraceIds''
           (VList (last_n COLLECTOR_EXEMPLARS (old @ filter (\<lambda>t. \<not> list_ex (py_eq t) old) incoming))) existing)"

text \<open>The bounds of the observation window: \<open>min\<close> or \<open>max\<close> of the old and the new, unless that is null.\<close>

definition span_member ::
  "(pyval \<Rightarrow> pyval \<Rightarrow> pyval outcome) \<Rightarrow> string \<Rightarrow> pydict \<Rightarrow> (pydict, unit) action" where
  "span_member pick key issue existing =
     (let new = vget issue key
      in if new = VNone then (Inr (), existing)
         else (case pick (v_or (vget existing key) new) new of
           Inl e \<Rightarrow> (Inl e, existing)
         | Inr v \<Rightarrow> (Inr (), dict_set key v existing)))"

text \<open>Merging into an issue that is there, in place.\<close>

definition latest_wins :: "pydict \<Rightarrow> pydict \<Rightarrow> pydict" where
  "latest_wins issue existing =
     dict_update existing (filter (\<lambda>(k, _). k \<notin> set AGGREGATED_ISSUE_FIELDS) issue)"

definition add_counts :: "pydict \<Rightarrow> (pydict, unit) action" where
  "add_counts issue existing =
     (case and_then (safe_int (member_or existing ''count'' (VInt 0))) (\<lambda>m.
           and_then (safe_int (member_or issue ''count'' (VInt 0))) (\<lambda>n. Inr (m + n))) of
        Inl e \<Rightarrow> (Inl e, existing)
      | Inr n \<Rightarrow> (Inr (), dict_set ''count'' (VInt n) existing))"

definition later_merge :: "pydict \<Rightarrow> pyval list \<Rightarrow> (pydict, unit) action" where
  "later_merge issue incoming_exemplars =
     act_bind (act_modify (latest_wins issue)) (\<lambda>_.
     act_bind (add_counts issue) (\<lambda>_.
     act_bind (act_modify (merge_exemplars incoming_exemplars)) (\<lambda>_.
     act_bind (act_modify (merge_errors_into (vget issue ''errors''))) (\<lambda>_.
     act_bind (span_member py_min ''firstSeen'' issue) (\<lambda>_.
     span_member py_max ''lastSeen'' issue)))))"

definition put_issue :: "string \<Rightarrow> pydict \<Rightarrow> collector \<Rightarrow> collector" where
  "put_issue fingerprint issue c = c\<lparr>co_issues := dict_set fingerprint issue (co_issues c)\<rparr>"

definition merge_issue :: "string \<Rightarrow> pydict \<Rightarrow> (collector, unit) action" where
  "merge_issue fingerprint issue c =
     (case elements_of (member_or issue ''exemplarTraceIds'' (VList [])) of
        Inl e \<Rightarrow> (Inl e, c)
      | Inr incoming \<Rightarrow>
          (case dict_get (co_issues c) fingerprint of
             None \<Rightarrow> (case first_merge issue incoming of
                 Inl e \<Rightarrow> (Inl e, c)
               | Inr merged \<Rightarrow> (Inr (), put_issue fingerprint merged c))
           | Some existing \<Rightarrow> (case later_merge issue incoming existing of
                 (r, merged) \<Rightarrow> (r, put_issue fingerprint merged c))))"

section \<open>Ingest\<close>

definition topic_spec :: "pydict \<Rightarrow> pydict \<Rightarrow> pydict" where
  "topic_spec entry catalogue =
     (let version = vget entry ''version'';
          request = resolve_schema (vget entry ''request'') catalogue [];
          response = resolve_schema (vget entry ''response'') catalogue []
      in (if truthy version then [(''version'', VStr (str_val version))] else [])
         @ (if request = [] then [] else [(''requestSchema'', VDict request)])
         @ (if response = [] then [] else [(''responseSchema'', VDict response)]))"

definition register_service :: "string \<Rightarrow> pydict \<Rightarrow> collector \<Rightarrow> collector" where
  "register_service service body c =
     (let r = service_of c service;
          new_hash = vget body ''registrationHash'';
          r' = r\<lparr>sv_previous_registration_hash :=
                  (if sv_registered r \<and> truthy (sv_registration_hash r) \<and> \<not> py_eq new_hash (sv_registration_hash r)
                   then sv_registration_hash r else sv_previous_registration_hash r),
                sv_known := sort (known_members body),
                sv_consumed := spec_topic_ids body [''requests''],
                sv_produced := spec_topic_ids body [''events'', ''sends''],
                sv_previous_topic_specs := sv_topic_specs r,
                sv_topic_specs := dict_of (map (\<lambda>e. (entry_topic e, topic_spec e (schema_catalogue body)))
                  (spec_entries body ''requests'')),
                sv_document := body,
                sv_registered := True,
                sv_registration_hash := (if truthy new_hash then VStr (str_val new_hash) else VNone)\<rparr>;
          c' = put_service service r' c
      in c'\<lparr>co_topics := co_topics c \<union> set (sv_consumed r') \<union> set (sv_produced r'),
            co_ever_consumed := co_ever_consumed c \<union> set (sv_consumed r')\<rparr>)"

definition heartbeat :: "string \<Rightarrow> pydict \<Rightarrow> (collector, unit) action" where
  "heartbeat service body c =
     (let r = service_of c service;
          health = v_or (vget body ''health'') (VDict []);
          version = vget body ''serviceVersion''
      in case and_then (get_or health ''healthChecks'' VNone) (\<lambda>checks.
           and_then (get_or health ''isHealthy'' (VBool False)) (\<lambda>healthy. Inr (checks, healthy))) of
           Inl e \<Rightarrow> (Inl e, ensure_service service c)
         | Inr (checks, healthy) \<Rightarrow>
             (Inr (), put_service service (r\<lparr>sv_instances := dict_set (str_val (member_or body ''instanceId'' (VStr [])))
                \<lparr>in_healthy = truthy healthy, in_registration_hash = vget body ''registrationHash'',
                 in_service_version = (if truthy version then VStr (str_val version) else VNone),
                 in_health_checks = (case checks of VDict d \<Rightarrow> d | _ \<Rightarrow> [])\<rparr> (sv_instances r)\<rparr>) c))"

text \<open>A trace event as it arrives: a \<open>raw\<close> that is not an object raises.\<close>

definition event_of :: "pyval \<Rightarrow> trace_event outcome" where
  "event_of raw = (case raw of
     VDict d \<Rightarrow> and_then (duration_ms (vget d ''durationMs'')) (\<lambda>duration.
       (let text = (\<lambda>key. str_val (member_or d key (VStr [])))
        in Inr \<lparr>ev_trace_id = text ''traceId'', ev_span_id = text ''spanId'', ev_parent_span_id = vget d ''parentSpanId'',
                ev_service = text ''service'', ev_topic = text ''topic'', ev_status = text ''status'',
                ev_started_at = vget d ''startedAt'', ev_duration_ms = duration\<rparr>))
   | _ \<Rightarrow> Inl (attribute_error ''get''))"

text \<open>\<open>self._span_owner.get(parent) if parent else None\<close>: a list or an object is not hashable.\<close>

definition owner_of :: "collector \<Rightarrow> pyval \<Rightarrow> string option outcome" where
  "owner_of c parent =
     (if \<not> truthy parent then Inr None
      else case parent of
        VStr s \<Rightarrow> Inr (dict_get (co_span_owner c) s)
      | VList _ \<Rightarrow> Inl (PyException ''TypeError'' (''unhashable type: '' @ repr_str ''list''))
      | VDict _ \<Rightarrow> Inl (PyException ''TypeError'' (''unhashable type: '' @ repr_str ''dict''))
      | _ \<Rightarrow> Inr None)"

definition drift_issue :: "string \<Rightarrow> string \<Rightarrow> string \<Rightarrow> string \<Rightarrow> pydict" where
  "drift_issue fingerprint service topic trace_id =
     [(''fingerprint'', VStr fingerprint), (''classification'', VStr ''contract-drift''), (''service'', VStr service),
      (''topic'', VStr topic), (''status'', VStr []), (''count'', VInt 1),
      (''exemplarTraceIds'', VList (if trace_id = [] then [] else [VStr trace_id]))]"

definition drift_fingerprint :: "(string \<Rightarrow> string) \<Rightarrow> string \<Rightarrow> string \<Rightarrow> string" where
  "drift_fingerprint digest service topic =
     issue_fingerprint digest service topic [] ''contract-drift'' ''undeclared-edge''"

definition flag_drift_if_undeclared ::
  "(string \<Rightarrow> string) \<Rightarrow> service_record \<Rightarrow> string \<Rightarrow> string list \<Rightarrow> string \<Rightarrow> (collector, unit) action" where
  "flag_drift_if_undeclared digest r topic declared trace_id =
     (if \<not> sv_registered r \<or> topic \<in> set declared \<or> is_reserved_topic topic then act_return ()
      else (let fp = drift_fingerprint digest (sv_name r) topic
            in merge_issue fp (drift_issue fp (sv_name r) topic trace_id)))"

text \<open>What one event does to the catalogue before drift is looked for.\<close>

definition note_event :: "trace_event \<Rightarrow> collector \<Rightarrow> collector" where
  "note_event e c = ensure_service (ev_service e)
     (c\<lparr>co_events := co_events c @ [e], co_span_owner := dict_set (ev_span_id e) (ev_service e) (co_span_owner c),
        co_topics := insert (ev_topic e) (co_topics c)\<rparr>)"

definition callee_drift :: "(string \<Rightarrow> string) \<Rightarrow> trace_event \<Rightarrow> (collector, unit) action" where
  "callee_drift digest e c =
     (let callee = service_of c (ev_service e)
      in if ''requests'' \<in> set (sv_known callee)
         then flag_drift_if_undeclared digest callee (ev_topic e) (sv_consumed callee) (ev_trace_id e) c
         else (Inr (), c))"

definition caller_drift :: "(string \<Rightarrow> string) \<Rightarrow> trace_event \<Rightarrow> (collector, unit) action" where
  "caller_drift digest e c = (case owner_of c (ev_parent_span_id e) of
     Inl x \<Rightarrow> (Inl x, c)
   | Inr None \<Rightarrow> (Inr (), c)
   | Inr (Some caller_name) \<Rightarrow>
       if caller_name = [] \<or> caller_name = ev_service e then (Inr (), c)
       else (case dict_get (co_services c) caller_name of
         None \<Rightarrow> (Inr (), c)
       | Some caller \<Rightarrow>
           if {''events'', ''sends''} \<subseteq> set (sv_known caller)
           then flag_drift_if_undeclared digest caller (ev_topic e) (sv_produced caller) (ev_trace_id e) c
           else (Inr (), c)))"

definition ingest_event :: "(string \<Rightarrow> string) \<Rightarrow> pyval \<Rightarrow> (collector, unit) action" where
  "ingest_event digest raw c = (case event_of raw of
     Inl x \<Rightarrow> (Inl x, c)
   | Inr e \<Rightarrow> act_bind (callee_drift digest e) (\<lambda>_. caller_drift digest e) (note_event e c))"

fun ingest_each :: "('x \<Rightarrow> (collector, unit) action) \<Rightarrow> 'x list \<Rightarrow> (collector, unit) action" where
  "ingest_each step [] = act_return ()"
| "ingest_each step (x # xs) = act_bind (step x) (\<lambda>_. ingest_each step xs)"

text \<open>An entry of an issues batch: one without a fingerprint is skipped. The count is of those merged.\<close>

definition identified :: "pyval \<Rightarrow> bool" where
  "identified raw = (case raw of VDict d \<Rightarrow> truthy (vget d ''fingerprint'') | _ \<Rightarrow> True)"

definition ingest_issue :: "pyval \<Rightarrow> (collector, unit) action" where
  "ingest_issue raw = (case raw of
     VDict issue \<Rightarrow>
       if truthy (vget issue ''fingerprint'') then merge_issue (str_val (vget issue ''fingerprint'')) issue
       else act_return ()
   | _ \<Rightarrow> act_raise (attribute_error ''get''))"

section \<open>Snapshots\<close>

definition SNAPSHOT_VERSION :: int where "SNAPSHOT_VERSION = 4"

definition texts :: "string list \<Rightarrow> pyval" where
  "texts ss = VList (map VStr ss)"

definition objects :: "(string, pydict) dict \<Rightarrow> pyval" where
  "objects d = VDict (map (\<lambda>(k, v). (k, VDict v)) d)"

definition instance_snapshot :: "string \<times> instance_info \<Rightarrow> pyval" where
  "instance_snapshot = (\<lambda>(instance_id, i). VDict
     [(''instanceId'', VStr instance_id), (''healthy'', VBool (in_healthy i)),
      (''registrationHash'', in_registration_hash i), (''serviceVersion'', in_service_version i),
      (''healthChecks'', VDict (in_health_checks i))])"

definition service_snapshot :: "service_record \<Rightarrow> pyval" where
  "service_snapshot r = VDict
     [(''name'', VStr (sv_name r)), (''registered'', VBool (sv_registered r)),
      (''registrationHash'', sv_registration_hash r),
      (''previousRegistrationHash'', sv_previous_registration_hash r),
      (''consumed'', texts (sv_consumed r)), (''produced'', texts (sv_produced r)), (''known'', texts (sv_known r)),
      (''document'', VDict (sv_document r)), (''topicSpecs'', objects (sv_topic_specs r)),
      (''previousTopicSpecs'', objects (sv_previous_topic_specs r)),
      (''reportedIssues'', VBool (sv_reported_issues r)),
      (''instances'', VList (map instance_snapshot (sv_instances r)))]"

definition event_snapshot :: "trace_event \<Rightarrow> pyval" where
  "event_snapshot e = VDict
     [(''traceId'', VStr (ev_trace_id e)), (''spanId'', VStr (ev_span_id e)), (''parentSpanId'', ev_parent_span_id e),
      (''service'', VStr (ev_service e)), (''topic'', VStr (ev_topic e)), (''status'', VStr (ev_status e)),
      (''startedAt'', ev_started_at e), (''durationMs'', ev_duration_ms e)]"

definition snapshot :: "collector \<Rightarrow> pydict" where
  "snapshot c =
     [(''version'', VInt SNAPSHOT_VERSION),
      (''services'', VList (map (service_snapshot \<circ> snd) (co_services c))),
      (''topics'', texts (sorted_list_of_set (co_topics c))),
      (''everConsumed'', texts (sorted_list_of_set (co_ever_consumed c))),
      (''events'', VList (map event_snapshot (co_events c))),
      (''issues'', objects (co_issues c))]"

text \<open>
  Reading one back. The entries of a snapshot are objects, and the lists and objects in them hold texts
  and objects; where one does not, iterating or indexing it raises or it reads as empty.
\<close>

definition read_texts :: "pyval \<Rightarrow> string list outcome" where
  "read_texts v = and_then (elements_of v) (\<lambda>xs. Inr (map str_val xs))"

definition as_object :: "pyval \<Rightarrow> pydict" where
  "as_object v = (case v of VDict d \<Rightarrow> d | _ \<Rightarrow> [])"

definition read_objects :: "pyval \<Rightarrow> (string, pydict) dict" where
  "read_objects v = map (\<lambda>(k, x). (k, as_object x)) (as_object v)"

definition key_error :: "string \<Rightarrow> pyexn" where
  "key_error key = PyException ''KeyError'' (repr_str key)"

definition member_of :: "pydict \<Rightarrow> string \<Rightarrow> pyval outcome" where
  "member_of d key = (case dict_get d key of None \<Rightarrow> Inl (key_error key) | Some v \<Rightarrow> Inr v)"

definition read_instance :: "pyval \<Rightarrow> (string \<times> instance_info) outcome" where
  "read_instance v = and_then (items_of v) (\<lambda>d. and_then (member_of d ''instanceId'') (\<lambda>i.
     Inr (str_val i, \<lparr>in_healthy = truthy (member_or d ''healthy'' (VBool False)),
       in_registration_hash = vget d ''registrationHash'', in_service_version = vget d ''serviceVersion'',
       in_health_checks = as_object (member_or d ''healthChecks'' (VDict []))\<rparr>)))"

definition read_service :: "pyval \<Rightarrow> (string \<times> service_record) outcome" where
  "read_service v = and_then (items_of v) (\<lambda>d. and_then (member_of d ''name'') (\<lambda>name.
     and_then (read_texts (member_or d ''consumed'' (VList []))) (\<lambda>consumed.
     and_then (read_texts (member_or d ''produced'' (VList []))) (\<lambda>produced.
     and_then (read_texts (member_or d ''known'' (VList []))) (\<lambda>known.
     and_then (elements_of (member_or d ''instances'' (VList []))) (\<lambda>insts.
     and_then (each read_instance insts) (\<lambda>instances.
       Inr (str_val name, \<lparr>sv_name = str_val name, sv_registered = truthy (member_or d ''registered'' (VBool False)),
         sv_registration_hash = vget d ''registrationHash'',
         sv_previous_registration_hash = vget d ''previousRegistrationHash'',
         sv_consumed = consumed, sv_produced = produced, sv_known = known,
         sv_document = as_object (member_or d ''document'' (VDict [])),
         sv_topic_specs = read_objects (member_or d ''topicSpecs'' (VDict [])),
         sv_previous_topic_specs = read_objects (member_or d ''previousTopicSpecs'' (VDict [])),
         sv_instances = dict_of instances,
         sv_reported_issues = truthy (member_or d ''reportedIssues'' (VBool False))\<rparr>))))))))"

definition restore :: "pydict \<Rightarrow> collector \<Rightarrow> collector outcome" where
  "restore snap c =
     (if \<not> py_eq (vget snap ''version'') (VInt SNAPSHOT_VERSION) then Inr c
      else
        and_then (elements_of (member_or snap ''services'' (VList []))) (\<lambda>entries.
        and_then (each read_service entries) (\<lambda>services.
        and_then (read_texts (member_or snap ''topics'' (VList []))) (\<lambda>topics.
        and_then (read_texts (member_or snap ''everConsumed'' (VList []))) (\<lambda>ever.
        and_then (elements_of (member_or snap ''events'' (VList []))) (\<lambda>raws.
        and_then (each event_of raws) (\<lambda>events.
          Inr \<lparr>co_services = dict_of services, co_topics = set topics, co_ever_consumed = set ever,
               co_events = events, co_span_owner = dict_of (map (\<lambda>e. (ev_span_id e, ev_service e)) events),
               co_issues = read_objects (member_or snap ''issues'' (VDict []))\<rparr>)))))))"

section \<open>The operations\<close>

text \<open>
  A collector and the world its store is in. Every ingest that does not raise writes a snapshot through
  the store before it answers.
\<close>

type_synonym 'w mesh = "collector \<times> 'w"

definition on_collector :: "(collector, 'a) action \<Rightarrow> ('w mesh, 'a) action" where
  "on_collector act = (\<lambda>(c, w). case act c of (r, c') \<Rightarrow> (r, (c', w)))"

definition persisted :: "(pydict \<Rightarrow> ('w, unit) action) \<Rightarrow> pydict \<Rightarrow> ('w mesh, pydict) action" where
  "persisted save reply = (\<lambda>(c, w). case save (snapshot c) w of
     (Inl e, w') \<Rightarrow> (Inl e, (c, w'))
   | (Inr _, w') \<Rightarrow> (Inr reply, (c, w')))"

definition accepted_reply :: "nat \<Rightarrow> pydict" where
  "accepted_reply n = [(''accepted'', VInt (int n))]"

definition with_required :: "pydict \<Rightarrow> string \<Rightarrow> (string \<Rightarrow> ('s, 'a) action) \<Rightarrow> ('s, 'a) action" where
  "with_required body key act = (case require body key of Inl e \<Rightarrow> act_raise e | Inr x \<Rightarrow> act x)"

definition with_elements :: "pyval \<Rightarrow> (pyval list \<Rightarrow> ('s, 'a) action) \<Rightarrow> ('s, 'a) action" where
  "with_elements v act = (case elements_of v of Inl e \<Rightarrow> act_raise e | Inr xs \<Rightarrow> act xs)"

definition new_collector :: "pydict option \<Rightarrow> collector outcome" where
  "new_collector saved = (case saved of None \<Rightarrow> Inr empty_collector | Some snap \<Rightarrow> restore snap empty_collector)"

definition ingest_register :: "(pydict \<Rightarrow> ('w, unit) action) \<Rightarrow> pydict \<Rightarrow> ('w mesh, pydict) action" where
  "ingest_register save body = with_required body ''service'' (\<lambda>service.
     act_bind (on_collector (act_modify (register_service service body))) (\<lambda>_. persisted save (accepted_reply 1)))"

definition ingest_heartbeat :: "(pydict \<Rightarrow> ('w, unit) action) \<Rightarrow> pydict \<Rightarrow> ('w mesh, pydict) action" where
  "ingest_heartbeat save body = with_required body ''service'' (\<lambda>service.
     act_bind (on_collector (heartbeat service body)) (\<lambda>_. persisted save (accepted_reply 1)))"

definition ingest_traces ::
  "(string \<Rightarrow> string) \<Rightarrow> (pydict \<Rightarrow> ('w, unit) action) \<Rightarrow> pydict \<Rightarrow> ('w mesh, pydict) action" where
  "ingest_traces digest save body = with_elements (v_or (vget body ''events'') (VList [])) (\<lambda>events.
     act_bind (on_collector (ingest_each (ingest_event digest) events)) (\<lambda>_.
     persisted save (accepted_reply (length events))))"

definition reporting :: "string \<Rightarrow> collector \<Rightarrow> collector" where
  "reporting service c = put_service service ((service_of c service)\<lparr>sv_reported_issues := True\<rparr>) c"

definition ingest_issues :: "(pydict \<Rightarrow> ('w, unit) action) \<Rightarrow> pydict \<Rightarrow> ('w mesh, pydict) action" where
  "ingest_issues save body = with_required body ''service'' (\<lambda>service.
     act_bind (on_collector (act_modify (reporting service))) (\<lambda>_.
     with_elements (v_or (vget body ''issues'') (VList [])) (\<lambda>issues.
     act_bind (on_collector (ingest_each ingest_issue issues)) (\<lambda>_.
     persisted save (accepted_reply (length (filter identified issues)))))))"

end
