(* ===== verification/CollectorViews.thy ===== *)
theory CollectorViews
  imports Collector Dispatch
begin

text \<open>
  The read models of \<open>benzene.mesh.collector\<close> and the collector as a Benzene service: the queries for a
  service, a topic and a trace, and the handlers of the ingest and query topics.
\<close>

section \<open>The declared graph\<close>

definition providers_of :: "collector \<Rightarrow> string \<Rightarrow> string list" where
  "providers_of c topic = sort (map fst (filter (\<lambda>(_, r). topic \<in> set (sv_produced r)) (co_services c)))"

definition consumers_of :: "collector \<Rightarrow> string \<Rightarrow> string list" where
  "consumers_of c topic = sort (map fst (filter (\<lambda>(_, r). topic \<in> set (sv_consumed r)) (co_services c)))"

section \<open>The observed signal\<close>

text \<open>Services to the time they were last observed, \<open>VNone\<close> for none; a comparison may raise.\<close>

definition note_observed :: "string \<Rightarrow> pyval \<Rightarrow> pydict \<Rightarrow> pydict outcome" where
  "note_observed service started_at observed =
     (let current = vget observed service;
          later = (if \<not> truthy started_at then Inr False
                   else if current = VNone then Inr True else py_less current started_at)
      in and_then later (\<lambda>l. Inr (if l then dict_set service started_at observed
           else if \<not> dict_mem service observed then dict_set service VNone observed else observed)))"

fun observed_handlers :: "string \<Rightarrow> trace_event list \<Rightarrow> pydict \<Rightarrow> pydict outcome" where
  "observed_handlers topic [] observed = Inr observed"
| "observed_handlers topic (e # es) observed =
     (if ev_topic e = topic
      then and_then (note_observed (ev_service e) (ev_started_at e) observed) (observed_handlers topic es)
      else observed_handlers topic es observed)"

fun observed_callers :: "collector \<Rightarrow> string \<Rightarrow> trace_event list \<Rightarrow> pydict \<Rightarrow> pydict outcome" where
  "observed_callers c topic [] observed = Inr observed"
| "observed_callers c topic (e # es) observed =
     (if ev_topic e \<noteq> topic \<or> \<not> truthy (ev_parent_span_id e) then observed_callers c topic es observed
      else and_then (owner_of c (ev_parent_span_id e)) (\<lambda>owner. case owner of
        Some caller \<Rightarrow>
          if caller \<noteq> [] \<and> caller \<noteq> ev_service e
          then and_then (note_observed caller (ev_started_at e) observed) (observed_callers c topic es)
          else observed_callers c topic es observed
      | None \<Rightarrow> observed_callers c topic es observed))"

definition edge_activity :: "pydict \<Rightarrow> string list \<Rightarrow> pydict" where
  "edge_activity observed declared = dict_of (map (\<lambda>name.
     (name, VDict (if truthy (vget observed name) then [(''lastObservedAt'', vget observed name)] else []))) declared)"

section \<open>Summaries\<close>

definition invocations_on :: "collector \<Rightarrow> string \<Rightarrow> nat" where
  "invocations_on c topic = length (filter (\<lambda>e. ev_topic e = topic) (co_events c))"

definition invocations_by :: "collector \<Rightarrow> string \<Rightarrow> nat" where
  "invocations_by c service = length (filter (\<lambda>e. ev_service e = service) (co_events c))"

definition health_of :: "service_record \<Rightarrow> string" where
  "health_of r =
     (let healths = map (in_healthy \<circ> snd) (sv_instances r)
      in if sv_instances r = [] then ''unknown''
         else if list_all id healths then ''healthy''
         else if \<not> list_ex id healths then ''unhealthy''
         else ''degraded'')"

definition missing_feeds :: "collector \<Rightarrow> service_record \<Rightarrow> string list" where
  "missing_feeds c r =
     (let has_failure = list_ex (\<lambda>e. ev_service e = sv_name r \<and> \<not> is_successful (ev_status e)) (co_events c)
      in map fst (filter (\<lambda>(_, present). \<not> present)
           [(''descriptor'', sv_registered r), (''health'', sv_instances r \<noteq> []),
            (''traces'', 0 < invocations_by c (sv_name r)),
            (''issues'', sv_reported_issues r \<or> \<not> has_failure)]))"

definition fleet_service_entry :: "collector \<Rightarrow> service_record \<Rightarrow> pydict" where
  "fleet_service_entry c r =
     [(''service'', VStr (sv_name r)), (''topics'', VInt (int (length (sv_consumed r)))),
      (''health'', VStr (health_of r)), (''missingFeeds'', texts (missing_feeds c r))]
     @ (if sv_instances r = [] then [] else [(''instances'', VInt (int (length (sv_instances r))))])"

definition fleet_topic_entry :: "collector \<Rightarrow> string \<Rightarrow> pydict" where
  "fleet_topic_entry c topic = [(''topic'', VStr topic), (''consumers'', texts (consumers_of c topic)),
     (''invocations'', VInt (int (invocations_on c topic)))]"

section \<open>Queries\<close>

definition not_found_error :: "string \<Rightarrow> string \<Rightarrow> pyexn" where
  "not_found_error kind name = PyException ''CollectorNotFound'' (''No '' @ kind @ '' '' @ repr_str name @ '' in the catalog'')"

definition query_service :: "collector \<Rightarrow> pydict \<Rightarrow> pydict outcome" where
  "query_service c body = and_then (require body ''service'') (\<lambda>name.
     case dict_get (co_services c) name of
       None \<Rightarrow> Inl (not_found_error ''service'' name)
     | Some r \<Rightarrow> Inr
         ([(''service'', VStr name)]
          @ (if sv_instances r = [] then [] else
               [(''health'', VStr (health_of r)),
                (''instances'', VList (map (\<lambda>(i, info). VDict
                   [(''instanceId'', VStr i), (''healthy'', VBool (in_healthy info)),
                    (''hashMatches'', VBool (py_eq (in_registration_hash info) (sv_registration_hash r)))])
                  (sv_instances r)))])
          @ (if invocations_by c name = 0 then [] else [(''invocations'', VInt (int (invocations_by c name)))])
          @ (if missing_feeds c r = [] then [] else [(''missingFeeds'', texts (missing_feeds c r))])))"

text \<open>\<open>dict(Counter(...))\<close>\<close>

definition counter :: "string list \<Rightarrow> (string, nat) dict" where
  "counter xs = map (\<lambda>x. (x, count_list xs x)) (fold add_new xs [])"

definition query_topic :: "collector \<Rightarrow> pydict \<Rightarrow> pydict outcome" where
  "query_topic c body = and_then (require body ''topic'') (\<lambda>topic.
     if topic \<notin> co_topics c then Inl (not_found_error ''topic'' topic)
     else
       (let events = filter (\<lambda>e. ev_topic e = topic) (co_events c);
            providers = providers_of c topic;
            consumers = consumers_of c topic;
            base = [(''topic'', VStr topic), (''providers'', texts providers), (''consumers'', texts consumers),
                    (''invocations'', VInt (int (length events)))]
              @ (if events = [] then [] else
                   [(''errors'', VInt (int (length (filter (\<lambda>e. \<not> is_successful (ev_status e)) events)))),
                    (''statusCounts'', VDict (map (\<lambda>(s, n). (s, VInt (int n))) (counter (map ev_status events))))])
        in and_then (if providers = [] then Inr []
                     else and_then (observed_callers c topic (co_events c) []) (\<lambda>o1.
                       Inr [(''providerActivity'', VDict (edge_activity o1 providers))])) (\<lambda>pa.
           and_then (if consumers = [] then Inr []
                     else and_then (observed_handlers topic (co_events c) []) (\<lambda>o2.
                       Inr [(''consumerActivity'', VDict (edge_activity o2 consumers))])) (\<lambda>ca.
           Inr (base @ pa @ ca)))))"

definition query_trace :: "collector \<Rightarrow> pydict \<Rightarrow> pydict outcome" where
  "query_trace c body = and_then (require body ''traceId'') (\<lambda>trace_id.
     let events = filter (\<lambda>e. ev_trace_id e = trace_id) (co_events c)
     in if events = [] then Inl (not_found_error ''trace'' trace_id)
        else Inr [(''traceId'', VStr trace_id),
          (''events'', VList (map (\<lambda>e. VDict [(''spanId'', VStr (ev_span_id e)), (''service'', VStr (ev_service e))]) events))])"

section \<open>The collector as a service\<close>

definition REGISTER_TOPIC :: string where "REGISTER_TOPIC = ''benzene:mesh:register''"
definition HEARTBEAT_TOPIC :: string where "HEARTBEAT_TOPIC = ''benzene:mesh:heartbeat''"
definition TRACES_TOPIC :: string where "TRACES_TOPIC = ''benzene:mesh:traces''"
definition ISSUES_TOPIC :: string where "ISSUES_TOPIC = ''benzene:mesh:issues''"
definition QUERY_SERVICE_TOPIC :: string where "QUERY_SERVICE_TOPIC = ''benzene:mesh:query:service''"
definition QUERY_TOPIC_TOPIC :: string where "QUERY_TOPIC_TOPIC = ''benzene:mesh:query:topic''"
definition QUERY_TRACE_TOPIC :: string where "QUERY_TRACE_TOPIC = ''benzene:mesh:query:trace''"

text \<open>A request that is not an object has no \<open>get\<close>.\<close>

definition call_method :: "(pydict \<Rightarrow> ('s, pydict) action) \<Rightarrow> pyval \<Rightarrow> ('s, pydict) action" where
  "call_method method request = (case request of
     VDict body \<Rightarrow> method body
   | _ \<Rightarrow> act_raise (attribute_error ''get''))"

definition ingest_handler :: "(pydict \<Rightarrow> ('s, pydict) action) \<Rightarrow> 's handler" where
  "ingest_handler method request s = (case call_method method request s of
     (Inr reply, s') \<Rightarrow> (Inr (Some (ok (VDict reply))), s')
   | (Inl (PyException cls txt), s') \<Rightarrow>
       if cls = ''CollectorBadRequest'' then (Inr (Some (bad_request [ErrText txt])), s')
       else (Inl (PyException cls txt), s')
   | (Inl PyCancelled, s') \<Rightarrow> (Inl PyCancelled, s'))"

definition query_handler :: "(collector \<Rightarrow> pydict \<Rightarrow> pydict outcome) \<Rightarrow> 'w mesh handler" where
  "query_handler query request s =
     (case call_method (\<lambda>body (c, w). (query c body, (c, w))) request s of
        (Inr reply, s') \<Rightarrow> (Inr (Some (ok (VDict reply))), s')
      | (Inl (PyException cls txt), s') \<Rightarrow>
          if cls = ''CollectorBadRequest'' then (Inr (Some (bad_request [ErrText txt])), s')
          else if cls = ''CollectorNotFound'' then (Inr (Some (not_found [ErrText txt])), s')
          else (Inl (PyException cls txt), s')
      | (Inl PyCancelled, s') \<Rightarrow> (Inl PyCancelled, s'))"

definition collector_handlers ::
  "(string \<Rightarrow> string) \<Rightarrow> (pydict \<Rightarrow> ('w, unit) action) \<Rightarrow> (string \<times> 'w mesh handler) list" where
  "collector_handlers digest save =
     [(REGISTER_TOPIC, ingest_handler (ingest_register save)),
      (HEARTBEAT_TOPIC, ingest_handler (ingest_heartbeat save)),
      (TRACES_TOPIC, ingest_handler (ingest_traces digest save)),
      (ISSUES_TOPIC, ingest_handler (ingest_issues save)),
      (QUERY_SERVICE_TOPIC, query_handler query_service),
      (QUERY_TOPIC_TOPIC, query_handler query_topic),
      (QUERY_TRACE_TOPIC, query_handler query_trace)]"

text \<open>The annotation \<open>dict[str, Any]\<close> of the handlers' parameter is a generic, from which no request type is inferred.\<close>

definition collector_registry ::
  "(string \<Rightarrow> string) \<Rightarrow> (pydict \<Rightarrow> ('w, unit) action) \<Rightarrow> pyexn + 'w mesh handler registry" where
  "collector_registry digest save =
     add_all (\<lambda>(topic, h). register topic h [] None None False None) (collector_handlers digest save) []"

end
