(* ===== verification/MeshFeeds.thy ===== *)
theory MeshFeeds
  imports Trace CollectorViews HttpClient
begin

text \<open>
  How a collector learns of a service: the feeds a service pushes (\<open>benzene.mesh.feeds\<close>) and the poller that pulls the same from its
  well-known paths (\<open>benzene.mesh.poller\<close>). What a source answers is its outcome in one sweep, and so is the HTTP GET it makes.
  Pulling a service leaves the collector exactly as if the service had pushed, and a service that is down changes nothing.
\<close>

section \<open>Pushing\<close>


definition registration_document :: "reflection \<Rightarrow> 'w app_definition \<Rightarrow> contract_document outcome" where
  "registration_document rf ad = and_then (app_contract_document rf ad) (\<lambda>document. case document of
     Some d \<Rightarrow> Inr d
   | None \<Rightarrow> Inl (PyException ''ValueError'' (''A mesh registration is the service'' @ [CHR 0x27] @ ''s Contract Document: declare ''
       @ ''AppDefinition(contract=ContractInfo(...)) to derive it (mesh.md '' @ [CHR 0xA7] @ ''2).'')))"

record heartbeat_feed =
  hb_service :: string
  hb_sent_at :: string
  hb_instance_id :: "string option"
  hb_registration_hash :: "string option"
  hb_service_version :: "string option"
  hb_is_healthy :: bool
  hb_health_checks :: "pydict option"

definition heartbeat_for ::
  "(pyval \<Rightarrow> string outcome) \<Rightarrow> (string \<Rightarrow> string) \<Rightarrow> contract_document \<Rightarrow> string \<Rightarrow> string option \<Rightarrow> bool \<Rightarrow> pydict option \<Rightarrow>
   heartbeat_feed outcome" where
  "heartbeat_for jcs sha256 d sent_at instance_id is_healthy health_checks =
     and_then (registration_hash jcs sha256 (document_body d)) (\<lambda>h.
       Inr \<lparr>hb_service = doc_service d, hb_sent_at = sent_at, hb_instance_id = instance_id, hb_registration_hash = Some h,
            hb_service_version = (if doc_service_version d = [] then None else Some (doc_service_version d)),
            hb_is_healthy = is_healthy, hb_health_checks = health_checks\<rparr>)"

definition text_member :: "string \<Rightarrow> string option \<Rightarrow> pydict" where
  "text_member key v = (case v of None \<Rightarrow> [] | Some t \<Rightarrow> [(key, VStr t)])"

definition heartbeat_payload :: "heartbeat_feed \<Rightarrow> pydict" where
  "heartbeat_payload hb = [(''service'', VStr (hb_service hb))]
     @ (case hb_service_version hb of None \<Rightarrow> [] | Some v \<Rightarrow> some_text ''serviceVersion'' v)
     @ text_member ''instanceId'' (hb_instance_id hb) @ text_member ''registrationHash'' (hb_registration_hash hb)
     @ [(''sentAt'', VStr (hb_sent_at hb)),
        (''health'', VDict [(''isHealthy'', VBool (hb_is_healthy hb)),
           (''healthChecks'', VDict (case hb_health_checks hb of None \<Rightarrow> [] | Some cs \<Rightarrow> cs))])]"

text \<open>\<open>MeshFeedSender\<close> over a sender.\<close>

definition feed_register ::
  "'w sender \<Rightarrow> (pyval \<Rightarrow> string outcome) \<Rightarrow> (string \<Rightarrow> string) \<Rightarrow> contract_document \<Rightarrow> ('w, result) action" where
  "feed_register sender jcs sha256 d = (case to_payload jcs sha256 d of
     Inl e \<Rightarrow> act_raise e
   | Inr p \<Rightarrow> sender REGISTER_TOPIC (VDict p) None)"

definition publish_heartbeat :: "'w sender \<Rightarrow> heartbeat_feed \<Rightarrow> ('w, result) action" where
  "publish_heartbeat sender hb = sender HEARTBEAT_TOPIC (VDict (heartbeat_payload hb)) None"

definition publish_traces :: "'w sender \<Rightarrow> (rat \<Rightarrow> string) \<Rightarrow> emitted_event list \<Rightarrow> ('w, result) action" where
  "publish_traces sender float_text events =
     sender TRACES_TOPIC (VDict [(''events'', VList (map (VDict \<circ> event_to_payload float_text) events))]) None"

definition publish_issues :: "'w sender \<Rightarrow> issue_batch \<Rightarrow> ('w, result) action" where
  "publish_issues sender batch = sender ISSUES_TOPIC (VDict (batch_to_payload batch)) None"

section \<open>Pulling\<close>

text \<open>A source in one sweep: what its two fetches return or raise.\<close>

record service_source =
  ss_name :: string
  ss_spec :: "pydict outcome"
  ss_health :: "pydict outcome"

definition poll_error :: "string \<Rightarrow> pyexn" where
  "poll_error text = PyException ''PollError'' text"

text \<open>
  \<open>HttpServiceSource\<close> over a GET. The prefix argument is given in full; the name of the class in the last error is the one of a
  decoded JSON value.
\<close>

definition source_url :: "string \<Rightarrow> string \<Rightarrow> string \<Rightarrow> string" where
  "source_url base_url prefix surface = rstrip_slash base_url @ prefix @ surface"

fun json_class :: "pyval \<Rightarrow> string" where
  "json_class VNone = ''NoneType''"
| "json_class (VBool _) = ''bool''"
| "json_class (VInt _) = ''int''"
| "json_class (VFloat _) = ''float''"
| "json_class (VStr _) = ''str''"
| "json_class (VList _) = ''list''"
| "json_class _ = ''dict''"

definition source_get_json :: "(string \<Rightarrow> (int \<times> string) outcome) \<Rightarrow> string \<Rightarrow> pydict outcome" where
  "source_get_json get url = and_then (get url) (\<lambda>(status, body).
     case (if body = [] then Some (VDict []) else loads body) of
       None \<Rightarrow> Inl (poll_error (url @ '' returned a non-JSON body (status '' @ int_text status @ '')''))
     | Some (VDict d) \<Rightarrow> Inr d
     | Some v \<Rightarrow> Inl (poll_error (url @ '' returned '' @ json_class v @ '', expected an object'')))"

definition http_service_source :: "(string \<Rightarrow> (int \<times> string) outcome) \<Rightarrow> string \<Rightarrow> string \<Rightarrow> string \<Rightarrow> service_source" where
  "http_service_source get name base_url prefix = \<lparr>ss_name = name,
     ss_spec = source_get_json get (source_url base_url prefix ''/spec''),
     ss_health = source_get_json get (source_url base_url prefix ''/health'')\<rparr>"

record poll_result =
  po_service :: string
  po_ok :: bool
  po_error :: "string option"

definition pulled_heartbeat :: "service_source \<Rightarrow> string \<Rightarrow> pydict \<Rightarrow> pydict \<Rightarrow> pydict" where
  "pulled_heartbeat source service spec health =
     [(''service'', VStr service), (''instanceId'', VStr (ss_name source)), (''health'', VDict health)]
     @ text_member ''registrationHash'' (spec_registration_hash spec) @ text_member ''serviceVersion'' (spec_service_version spec)"

definition poll_source :: "(pydict \<Rightarrow> ('w, unit) action) \<Rightarrow> service_source \<Rightarrow> ('w mesh, poll_result) action" where
  "poll_source save source =
     (case and_then (ss_spec source) (\<lambda>spec. and_then (ss_health source) (\<lambda>health. Inr (spec, health))) of
        Inl e \<Rightarrow> if catchable e then act_return \<lparr>po_service = ss_name source, po_ok = False, po_error = Some (exn_text e)\<rparr>
                 else act_raise e
      | Inr (spec, health) \<Rightarrow>
          (let service = spec_service spec (ss_name source) in
           act_bind (ingest_register save (dict_set ''service'' (VStr service) spec)) (\<lambda>_.
           act_bind (ingest_heartbeat save (pulled_heartbeat source service spec health)) (\<lambda>_.
           act_return \<lparr>po_service = service, po_ok = True, po_error = None\<rparr>))))"

text \<open>
  A sweep. The polls run concurrently and each folds what it fetched in without a break, so the collector sees them in the
  order in which the fetches end, an argument here. A poll that raises does not stop the others; the sweep then raises the first such
  exception. The results are those of the sources in their own order.
\<close>

fun poll_in_order ::
  "(pydict \<Rightarrow> ('w, unit) action) \<Rightarrow> service_source list \<Rightarrow> nat list \<Rightarrow> 'w mesh \<Rightarrow> (nat \<times> poll_result outcome) list \<times> 'w mesh" where
  "poll_in_order save sources [] s = ([], s)"
| "poll_in_order save sources (i # is) s = (case poll_source save (sources ! i) s of
     (r, s') \<Rightarrow> (case poll_in_order save sources is s' of (rs, s'') \<Rightarrow> ((i, r) # rs, s'')))"

definition poll_once ::
  "(pydict \<Rightarrow> ('w, unit) action) \<Rightarrow> service_source list \<Rightarrow> nat list \<Rightarrow> ('w mesh, poll_result list) action" where
  "poll_once save sources completion s = (case poll_in_order save sources completion s of
     (rs, s') \<Rightarrow> (case List.find (isl \<circ> snd) rs of
        Some (_, Inl e) \<Rightarrow> (Inl e, s')
      | _ \<Rightarrow> (Inr (List.map_filter (\<lambda>i. case map_of rs i of Some (Inr r) \<Rightarrow> Some r | _ \<Rightarrow> None) [0..<length sources]), s')))"

section \<open>Pulling is pushing\<close>

lemma set_same: "map_of d k = Some v \<Longrightarrow> dict_set k v d = d"
  by (induction d) (auto split: if_splits)

lemma heartbeat_cong:
  assumes "v_or (vget b ''health'') (VDict []) = VDict h" "v_or (vget b' ''health'') (VDict []) = VDict h'"
    and "vget h ''isHealthy'' = VBool alive" "vget h' ''isHealthy'' = VBool alive" "vget h ''healthChecks'' = VDict cs" "vget h' ''healthChecks'' = VDict cs"
    and "vget b ''serviceVersion'' = vget b' ''serviceVersion''" "vget b ''registrationHash'' = vget b' ''registrationHash''"
    "member_or b ''instanceId'' (VStr []) = member_or b' ''instanceId'' (VStr [])"
  shows "heartbeat service b = heartbeat service b'"
proof -
  have g: "get_or (VDict m) k d = Inr v" if "vget m k = v" "v \<noteq> VNone" for m k d v
    using that by (auto simp: get_or_def vget_def split: option.splits)
  have "get_or (VDict h) ''healthChecks'' VNone = Inr (VDict cs)" "get_or (VDict h') ''healthChecks'' VNone = Inr (VDict cs)"
    "get_or (VDict h) ''isHealthy'' (VBool False) = Inr (VBool alive)" "get_or (VDict h') ''isHealthy'' (VBool False) = Inr (VBool alive)"
    by (rule g; use assms in simp)+
  then show ?thesis by (intro ext) (simp add: heartbeat_def assms Let_def)
qed

lemma head_version: "vget (document_head d) ''serviceVersion'' = (if doc_service_version d = [] then VNone else VStr (doc_service_version d))"
  by (simp add: document_head_def vget_def some_text_def some_dict_def some_texts_def split: option.split)

lemma hash_text: "registration_hash jcs sha256 d = Inr h \<Longrightarrow> h \<noteq> []"
  by (auto simp: registration_hash_def hash_projection_def and_then_def split: sum.splits)

text \<open>
  C38. Pulling a service is as good as its pushing. When a source answers with the document the service serves and with its health, the
  poller does to the collector and its store exactly what the service's own registration and heartbeat would do, effect
  for effect, with the source as the instance; the pushed heartbeat is the one built from the same document, whenever it was sent.
\<close>

theorem pull_is_push:
  assumes "derive_document ct annotation_of defs info outbound endpoint routes = Inr doc" "to_payload jcs sha256 doc = Inr p"
    and "heartbeat_for jcs sha256 doc sent_at (Some name) healthy (Some checks) = Inr hb"
    and "vget health ''isHealthy'' = VBool healthy" "vget health ''healthChecks'' = VDict checks"
  shows "poll_source save \<lparr>ss_name = name, ss_spec = Inr p, ss_health = Inr health\<rparr> =
    act_bind (ingest_register save p) (\<lambda>_. act_bind (ingest_heartbeat save (heartbeat_payload hb)) (\<lambda>_.
      act_return \<lparr>po_service = doc_service doc, po_ok = True, po_error = None\<rparr>))"
proof -
  let ?source = "\<lparr>ss_name = name, ss_spec = Inr p, ss_health = Inr health\<rparr>"
  let ?pulled = "pulled_heartbeat ?source (doc_service doc) p health"
  have "doc_service doc \<noteq> []"
    using assms(1) by (elim derive_document_Inr) (auto simp: build_document_def document_error_def split: if_splits)
  obtain r where r: "registration_hash jcs sha256 (document_body doc) = Inr r" "vget p ''registrationHash'' = VStr r"
    using payload_members [OF assms(2)] by blast
  have s: "vget p ''service'' = VStr (doc_service doc)"
    using payload_head [OF assms(2), of "''service''"] by (simp add: head_identity)
  then have "map_of p ''service'' = Some (VStr (doc_service doc))" by (auto simp: vget_def split: option.splits)
  note same = set_same [OF this]
  have v: "vget p ''serviceVersion'' = (if doc_service_version doc = [] then VNone else VStr (doc_service_version doc))"
    using payload_head [OF assms(2), of "''serviceVersion''"] by (simp add: head_version)
  have hb: "hb = \<lparr>hb_service = doc_service doc, hb_sent_at = sent_at, hb_instance_id = Some name, hb_registration_hash = Some r,
      hb_service_version = (if doc_service_version doc = [] then None else Some (doc_service_version doc)),
      hb_is_healthy = healthy, hb_health_checks = Some checks\<rparr>"
    using assms(3) r(1) by (simp add: heartbeat_for_def)
  have n: "spec_service p name = doc_service doc" using s \<open>doc_service doc \<noteq> []\<close> by (simp add: spec_service_def text_if_any_def)
  have t: "spec_registration_hash p = Some r"
    "spec_service_version p = (if doc_service_version doc = [] then None else Some (doc_service_version doc))"
    using r(2) hash_text [OF r(1)] v by (simp_all add: spec_registration_hash_def spec_service_version_def text_if_any_def)
  have members: "vget ?pulled ''registrationHash'' = VStr r" "vget (heartbeat_payload hb) ''registrationHash'' = VStr r"
    "vget ?pulled ''serviceVersion'' = vget p ''serviceVersion''" "vget (heartbeat_payload hb) ''serviceVersion'' = vget p ''serviceVersion''"
    "member_or ?pulled ''instanceId'' (VStr []) = VStr name" "member_or (heartbeat_payload hb) ''instanceId'' (VStr []) = VStr name"
    by (simp_all add: pulled_heartbeat_def heartbeat_payload_def hb t v vget_def [of "_ # _"] vget_def [of "_ @ _"] some_text_def text_member_def member_or_def)
  have health: "vget health ''isHealthy'' = VBool healthy \<Longrightarrow> health \<noteq> []" by (auto simp: vget_def)
  have "heartbeat service ?pulled = heartbeat service (heartbeat_payload hb)" for service
    by (rule heartbeat_cong [where h = health and h' = "[(''isHealthy'', VBool healthy), (''healthChecks'', VDict checks)]"])
      (use assms(4,5) health members in \<open>auto simp: v_or_def pulled_heartbeat_def heartbeat_payload_def hb vget_def [of "_ # _"] some_text_def text_member_def\<close>)
  moreover have "require ?pulled ''service'' = require (heartbeat_payload hb) ''service''"
    by (simp add: require_def pulled_heartbeat_def heartbeat_payload_def hb vget_def)
  ultimately have "ingest_heartbeat save ?pulled = ingest_heartbeat save (heartbeat_payload hb)"
    by (simp add: ingest_heartbeat_def with_required_def split: sum.split)
  then show ?thesis by (simp add: poll_source_def n same Let_def)
qed

text \<open>The stock service with no health checks.\<close>

definition stock_health :: pydict where
  "stock_health = [(''isHealthy'', VBool True), (''healthChecks'', VDict [])]"

theorem pull_is_push_witness:
  "\<exists>doc p hb. stock_document = Inr doc \<and> to_payload (\<lambda>v. Inr (repr_val v)) id doc = Inr p \<and>
     heartbeat_for (\<lambda>v. Inr (repr_val v)) id doc ''2026-01-01'' (Some ''stock-1'') True (Some []) = Inr hb \<and>
     poll_source (\<lambda>_. act_return () :: (unit, unit) action) \<lparr>ss_name = ''stock-1'', ss_spec = Inr p, ss_health = Inr stock_health\<rparr> =
       act_bind (ingest_register (\<lambda>_. act_return ()) p) (\<lambda>_. act_bind (ingest_heartbeat (\<lambda>_. act_return ()) (heartbeat_payload hb)) (\<lambda>_.
         act_return \<lparr>po_service = ''stock'', po_ok = True, po_error = None\<rparr>))"
proof -
  have "case stock_document of Inl _ \<Rightarrow> False | Inr doc \<Rightarrow> doc_service doc = ''stock'' \<and>
      (case to_payload (\<lambda>v. Inr (repr_val v)) id doc of Inl _ \<Rightarrow> False | Inr p \<Rightarrow> True)" by code_simp
  then obtain doc p where d: "stock_document = Inr doc" "doc_service doc = ''stock''" "to_payload (\<lambda>v. Inr (repr_val v)) id doc = Inr p"
    by (auto split: sum.splits)
  obtain hb where hb: "heartbeat_for (\<lambda>v. Inr (repr_val v)) id doc ''2026-01-01'' (Some ''stock-1'') True (Some []) = Inr hb"
    using payload_members [OF d(3)] by (auto simp: heartbeat_for_def)
  have h: "vget stock_health ''isHealthy'' = VBool True" "vget stock_health ''healthChecks'' = VDict []" by code_simp+
  from pull_is_push [OF d(1) [unfolded stock_document_def] d(3) hb h, of "\<lambda>_. act_return ()"] d hb show ?thesis
    by (intro exI [of _ doc] exI [of _ p] exI [of _ hb]) simp
qed

section \<open>A sweep\<close>

text \<open>A source whose fetch raised an exception is down: its poll reports it and touches nothing.\<close>

definition down :: "service_source \<Rightarrow> bool" where
  "down source = (case ss_spec source of Inl e \<Rightarrow> catchable e | Inr _ \<Rightarrow> (case ss_health source of Inl e \<Rightarrow> catchable e | Inr _ \<Rightarrow> False))"

lemma poll_down: "down source \<Longrightarrow> \<exists>e. poll_source save source s = (Inr \<lparr>po_service = ss_name source, po_ok = False, po_error = Some e\<rparr>, s)"
  by (auto simp: down_def poll_source_def and_then_def act_return_def split: sum.splits)

text \<open>
  Whatever the order in which the fetches end, the sweep leaves the collector as a sweep of the services that are up would, and those
  are polled as if the others were not there.
\<close>

lemma sweep_isolated:
  "snd (poll_in_order save sources completion s) = snd (poll_in_order save sources (filter (\<lambda>i. \<not> down (sources ! i)) completion) s) \<and>
   filter (\<lambda>(i, _). \<not> down (sources ! i)) (fst (poll_in_order save sources completion s)) =
     fst (poll_in_order save sources (filter (\<lambda>i. \<not> down (sources ! i)) completion) s)"
proof (induction completion arbitrary: s)
  case (Cons i completion)
  show ?case
  proof (cases "down (sources ! i)")
    case True
    then obtain e where "poll_source save (sources ! i) s = (Inr \<lparr>po_service = ss_name (sources ! i), po_ok = False, po_error = Some e\<rparr>, s)"
      using poll_down by blast
    then show ?thesis using Cons.IH [of s] True by (simp add: case_prod_beta)
  qed (use Cons.IH in \<open>simp add: case_prod_beta\<close>)
qed simp

end
