(* ===== verification/Artifacts.thy ===== *)
theory Artifacts
  imports CollectorViews
begin

text \<open>
  \<open>benzene.mesh.artifacts\<close>: the documents of the mesh UI, projected from a collector's catalogue. The entries of the snapshot the
  projection reads are the service records they are written from. Of the fleet query only the services and the topics
  are read. The topology is exactly the declared graph, usage counts every event once, and the retired topics are those no service handles
  any more.
\<close>

section \<open>Endpoints and the manifest\<close>

definition HEALTH_TO_STATUS :: "(string, string) dict" where
  "HEALTH_TO_STATUS = [(''healthy'', ''healthy''), (''degraded'', ''unhealthy''), (''unhealthy'', ''unhealthy''), (''unknown'', ''unreachable'')]"

text \<open>A source that can name its service and its URLs; \<open>None\<close> for an attribute it lacks.\<close>

record service_endpoint =
  se_name :: "string option"
  se_spec_url :: "string option"
  se_health_url :: "string option"

definition endpoints_of :: "service_endpoint list \<Rightarrow> (string, string \<times> string) dict" where
  "endpoints_of sources = dict_of (List.map_filter (\<lambda>s. case (se_name s, se_spec_url s, se_health_url s) of
     (Some n, Some spec, Some health) \<Rightarrow> if n \<noteq> [] \<and> spec \<noteq> [] \<and> health \<noteq> [] then Some (n, spec, health) else None
   | _ \<Rightarrow> None) sources)"

definition fleet_names :: "collector \<Rightarrow> string list" where
  "fleet_names c = map (sv_name \<circ> snd) (co_services c)"

definition fleet_topics :: "collector \<Rightarrow> string list" where
  "fleet_topics c = sorted_list_of_set (co_topics c)"

definition drifted :: "pydict \<Rightarrow> bool" where
  "drifted detail = (case vget detail ''instances'' of
     VList is \<Rightarrow> list_ex (\<lambda>i. case i of VDict d \<Rightarrow> \<not> truthy (vget d ''hashMatches'') | _ \<Rightarrow> False) is
   | _ \<Rightarrow> False)"

definition manifest_entry :: "collector \<Rightarrow> (string, string \<times> string) dict \<Rightarrow> service_record \<Rightarrow> pyval outcome" where
  "manifest_entry c endpoints r =
     and_then (query_service c [(''service'', VStr (sv_name r))]) (\<lambda>detail.
       Inr (VDict [(''name'', VStr (sv_name r)),
         (''status'', VStr (case dict_get HEALTH_TO_STATUS (health_of r) of Some s \<Rightarrow> s | None \<Rightarrow> ''unreachable'')),
         (''contractDrift'', VBool (drifted detail)),
         (''specUrl'', case dict_get endpoints (sv_name r) of Some (spec, _) \<Rightarrow> VStr spec | None \<Rightarrow> VNone),
         (''healthUrl'', case dict_get endpoints (sv_name r) of Some (_, health) \<Rightarrow> VStr health | None \<Rightarrow> VNone)]))"

definition manifest :: "collector \<Rightarrow> (string, string \<times> string) dict \<Rightarrow> string \<Rightarrow> pydict outcome" where
  "manifest c endpoints generated_at =
     and_then (each (manifest_entry c endpoints \<circ> snd) (co_services c)) (\<lambda>services.
       Inr [(''generatedAtUtc'', VStr generated_at), (''services'', VList services)])"

section \<open>The topology\<close>

definition detail_texts :: "pydict \<Rightarrow> string \<Rightarrow> string list" where
  "detail_texts detail key = (case vget detail key of VList vs \<Rightarrow> map str_val vs | _ \<Rightarrow> [])"

definition detail_count :: "pydict \<Rightarrow> string \<Rightarrow> int" where
  "detail_count detail key = (case vget detail key of VInt n \<Rightarrow> n | _ \<Rightarrow> 0)"

text \<open>Clients and servers, with the invocations and errors of the topics between them.\<close>

type_synonym pairs = "(string \<times> string, int \<times> int) dict"

definition add_edge :: "int \<Rightarrow> int \<Rightarrow> string \<times> string \<Rightarrow> pairs \<Rightarrow> pairs" where
  "add_edge invocations errors pair ps = (if fst pair = snd pair then ps
     else (case dict_get ps pair of
       None \<Rightarrow> dict_set pair (invocations, errors) ps
     | Some (i, e) \<Rightarrow> dict_set pair (i + invocations, e + errors) ps))"

definition topic_pairs :: "pydict \<Rightarrow> pairs \<Rightarrow> pairs" where
  "topic_pairs detail = fold (add_edge (detail_count detail ''invocations'') (detail_count detail ''errors''))
     (concat (map (\<lambda>client. map (\<lambda>server. (client, server)) (detail_texts detail ''consumers'')) (detail_texts detail ''providers'')))"

definition topic_detail :: "collector \<Rightarrow> string \<Rightarrow> pydict outcome" where
  "topic_detail c topic = query_topic c [(''topic'', VStr topic)]"

definition topology_pairs :: "collector \<Rightarrow> pairs outcome" where
  "topology_pairs c = and_then (each (topic_detail c) (fleet_topics c)) (\<lambda>details. Inr (fold topic_pairs details []))"

definition edge_document :: "(rat \<Rightarrow> string) \<Rightarrow> (string \<times> string) \<times> int \<times> int \<Rightarrow> pyval" where
  "edge_document float_text = (\<lambda>((client, server), invocations, errors). VDict
     [(''client'', VStr client), (''server'', VStr server), (''source'', VStr ''collector''), (''requestsPerMinute'', VNone),
      (''errorRate'', if invocations = 0 then VNone else VFloat (float_text (of_int errors / of_int invocations))),
      (''p50LatencyMs'', VNone), (''p95LatencyMs'', VNone), (''p99LatencyMs'', VNone)])"

definition topology :: "(rat \<Rightarrow> string) \<Rightarrow> collector \<Rightarrow> string \<Rightarrow> pydict outcome" where
  "topology float_text c generated_at = and_then (topology_pairs c) (\<lambda>ps.
     Inr [(''generatedAtUtc'', VStr generated_at), (''edges'', VList (map (edge_document float_text) (sort_key fst ps)))])"

section \<open>Topics\<close>

definition spec_of :: "collector \<Rightarrow> string \<Rightarrow> string \<Rightarrow> pydict option" where
  "spec_of c topic service = (case dict_get (co_services c) service of None \<Rightarrow> None | Some r \<Rightarrow> dict_get (sv_topic_specs r) topic)"

definition previous_spec_of :: "collector \<Rightarrow> string \<Rightarrow> string \<Rightarrow> pydict option" where
  "previous_spec_of c topic service =
     (case dict_get (co_services c) service of None \<Rightarrow> None | Some r \<Rightarrow> dict_get (sv_previous_topic_specs r) topic)"

definition topic_changes :: "collector \<Rightarrow> string \<Rightarrow> string list \<Rightarrow> pyval list" where
  "topic_changes c topic consumers = List.map_filter (\<lambda>consumer. case (spec_of c topic consumer, previous_spec_of c topic consumer) of
     (Some current, Some previous) \<Rightarrow>
       if py_eq (VDict current) (VDict previous) then None
       else Some (VDict [(''kind'', VStr ''schema-changed''), (''description'', VStr (consumer @ '' changed the contract for '' @ topic))])
   | _ \<Rightarrow> None) consumers"

definition removed_topics :: "collector \<Rightarrow> string list" where
  "removed_topics c = sorted_list_of_set (co_ever_consumed c - set (concat (map (sv_consumed \<circ> snd) (co_services c))))"

definition topic_document :: "collector \<Rightarrow> string \<Rightarrow> pyval outcome" where
  "topic_document c topic = and_then (topic_detail c topic) (\<lambda>detail.
     (let consumers = detail_texts detail ''consumers'';
          present = filter (\<lambda>s. s \<noteq> []) (List.map_filter (spec_of c topic) consumers);
          representative = (case present of [] \<Rightarrow> [] | s # _ \<Rightarrow> s)
      in Inr (VDict [(''topic'', VStr topic), (''version'', member_or representative ''version'' (VStr [])),
           (''reserved'', VBool (is_reserved_topic topic)),
           (''consumers'', VList (map (\<lambda>s. VDict [(''service'', VStr s)]) consumers)),
           (''producers'', VList (map (\<lambda>s. VDict [(''service'', VStr s)]) (detail_texts detail ''providers''))),
           (''status'', VNone), (''requestSchema'', vget representative ''requestSchema''),
           (''responseSchema'', vget representative ''responseSchema''), (''messageSchema'', vget representative ''messageSchema''),
           (''schemaMismatch'', VBool (list_ex (\<lambda>s. \<not> py_eq (VDict s) (VDict representative)) (tl present))),
           (''changes'', VList (topic_changes c topic consumers))])))"

definition active_topics :: "collector \<Rightarrow> string list" where
  "active_topics c = filter (\<lambda>t. t \<notin> set (removed_topics c)) (fleet_topics c)"

definition topics_artifact :: "collector \<Rightarrow> string \<Rightarrow> pydict outcome" where
  "topics_artifact c generated_at = and_then (each (topic_document c) (active_topics c)) (\<lambda>topics.
     Inr [(''generatedAtUtc'', VStr generated_at), (''topics'', VList topics), (''removedTopics'', texts (removed_topics c))])"

section \<open>Services\<close>

text \<open>\<open>json.dumps(v, ensure_ascii=False)\<close>\<close>

definition escape_plain :: "char \<Rightarrow> string" where
  "escape_plain c = (if 127 \<le> (of_char c :: nat) then [c] else escape_char c)"

definition plain_string :: "string \<Rightarrow> string" where
  "plain_string s = CHR 0x22 # concat (map escape_plain s) @ [CHR 0x22]"

fun plain_text :: "pyval \<Rightarrow> string" where
  "plain_text (VStr s) = plain_string s"
| "plain_text (VList vs) = ''['' @ py_join '', '' (map plain_text vs) @ '']''"
| "plain_text (VTuple vs) = ''['' @ py_join '', '' (map plain_text vs) @ '']''"
| "plain_text (VDict ms) = ''{'' @ py_join '', '' (map (\<lambda>(k, v). plain_string k @ '': '' @ plain_text v) ms) @ ''}''"
| "plain_text v = json_text v"

definition spec_json :: "string \<Rightarrow> service_record \<Rightarrow> pyval" where
  "spec_json name r = (if \<not> sv_registered r then VNone
     else VStr (plain_text (VDict (if dict_mem ''service'' (sv_document r) then sv_document r
       else sv_document r @ [(''service'', VStr name)]))))"

definition service_health :: "pydict \<Rightarrow> service_record \<Rightarrow> pydict" where
  "service_health detail r =
     [(''isHealthy'', VBool (vget detail ''health'' = VStr ''healthy'')),
      (''healthChecks'', VDict (fold (\<lambda>(_, i) checks. dict_update checks (in_health_checks i)) (sv_instances r) []))]"

definition service_document :: "collector \<Rightarrow> string \<Rightarrow> string \<Rightarrow> pyval outcome" where
  "service_document c generated_at name =
     and_then (query_service c [(''service'', VStr name)]) (\<lambda>detail.
       (let r = (case dict_get (co_services c) name of Some r \<Rightarrow> r | None \<Rightarrow> new_service name)
        in Inr (VDict [(''name'', VStr name), (''fetchedAtUtc'', VStr generated_at), (''specJson'', spec_json name r),
             (''specHash'', sv_registration_hash r), (''previousSpecHash'', sv_previous_registration_hash r),
             (''contractDrift'', VBool (drifted detail)), (''health'', VDict (service_health detail r)), (''error'', VNone)])))"

section \<open>Usage\<close>

definition usage_key :: "trace_event \<Rightarrow> string \<times> string \<times> string" where
  "usage_key e = (ev_topic e, ev_service e, ev_status e)"

definition usage_counts :: "trace_event list \<Rightarrow> ((string \<times> string \<times> string) \<times> nat) list" where
  "usage_counts es = (let keys = map usage_key es in map (\<lambda>k. (k, count_list keys k)) (fold add_new keys []))"

definition usage_entry :: "(string \<times> string \<times> string) \<times> nat \<Rightarrow> pyval" where
  "usage_entry = (\<lambda>((topic, service, status), count). VDict
     [(''topic'', VStr topic), (''version'', VNone), (''service'', VStr service), (''transport'', VNone), (''status'', VStr status),
      (''count'', VInt (int count)), (''avgDurationMs'', VNone), (''source'', VStr ''collector'')])"

definition usage_artifact :: "collector \<Rightarrow> string \<Rightarrow> pydict" where
  "usage_artifact c generated_at = [(''generatedAtUtc'', VStr generated_at), (''windowStartUtc'', VNone), (''windowEndUtc'', VNone),
     (''entries'', VList (map usage_entry (sort_key fst (usage_counts (co_events c)))))]"

definition annotations_artifact :: "string \<Rightarrow> pydict" where
  "annotations_artifact generated_at = [(''generatedAtUtc'', VStr generated_at), (''annotations'', VList [])]"

section \<open>AsyncAPI\<close>

definition channel_key :: "string \<Rightarrow> string" where
  "channel_key topic = map (\<lambda>ch. if ch = CHR '':'' then CHR ''_'' else ch) topic"

definition ref_to :: "string \<Rightarrow> pyval" where
  "ref_to target = VDict [(''$ref'', VStr target)]"

definition operation_document :: "string \<Rightarrow> string \<Rightarrow> pyval" where
  "operation_document action key = VDict [(''action'', VStr action), (''channel'', ref_to (''#/channels/'' @ key))]"

text \<open>The channels, operations and messages; the schema of a message is the one of the first consumer that declares any.\<close>

definition add_channel :: "collector \<Rightarrow> string \<times> pydict \<Rightarrow> pydict \<times> pydict \<times> pydict \<Rightarrow> pydict \<times> pydict \<times> pydict" where
  "add_channel c = (\<lambda>(topic, detail) (channels, operations, msgs).
     (let consumers = detail_texts detail ''consumers'';
          spec = (case filter (\<lambda>s. s \<noteq> []) (List.map_filter (spec_of c topic) consumers) of [] \<Rightarrow> [] | s # _ \<Rightarrow> s);
          key = channel_key topic;
          message_key = key @ ''Message'';
          payload = v_or (vget spec ''requestSchema'') (vget spec ''responseSchema'')
      in (dict_set key (VDict [(''address'', VStr topic),
            (''messages'', VDict [(message_key, ref_to (''#/components/messages/'' @ message_key))])]) channels,
          (let receiving = (if consumers = [] then operations
                 else dict_set (key @ ''_receive'') (operation_document ''receive'' key) operations)
           in if detail_texts detail ''providers'' = [] then receiving
              else dict_set (key @ ''_send'') (operation_document ''send'' key) receiving),
          dict_set message_key (VDict [(''name'', VStr topic),
            (''payload'', if truthy payload then payload else VDict [(''type'', VStr ''object'')])]) msgs)))"

definition asyncapi :: "collector \<Rightarrow> string \<Rightarrow> pydict outcome" where
  "asyncapi c generated_at =
     and_then (each (\<lambda>t. and_then (topic_detail c t) (\<lambda>d. Inr (t, d))) (filter (\<lambda>t. \<not> is_reserved_topic t) (fleet_topics c))) (\<lambda>ds.
       (case fold (add_channel c) ds ([], [], []) of (channels, operations, msgs) \<Rightarrow>
          Inr [(''asyncapi'', VStr ''3.0.0''),
            (''info'', VDict [(''title'', VStr ''Benzene Mesh''), (''version'', VStr ''1.0.0''),
               (''description'', VStr (''Derived from the mesh catalog at '' @ generated_at @ ''.''))]),
            (''channels'', VDict channels), (''operations'', VDict operations), (''components'', VDict [(''messages'', VDict msgs)])]))"

section \<open>All of them\<close>

record artifacts =
  ar_manifest :: pydict
  ar_topology :: pydict
  ar_topics :: pydict
  ar_services :: pydict
  ar_usage :: pydict
  ar_asyncapi :: pydict
  ar_annotations :: pydict

definition build_artifacts :: "(rat \<Rightarrow> string) \<Rightarrow> collector \<Rightarrow> service_endpoint list \<Rightarrow> string \<Rightarrow> artifacts outcome" where
  "build_artifacts float_text c sources generated_at =
     and_then (manifest c (endpoints_of sources) generated_at) (\<lambda>m.
     and_then (topology float_text c generated_at) (\<lambda>t.
     and_then (topics_artifact c generated_at) (\<lambda>ts.
     and_then (each (\<lambda>n. and_then (service_document c generated_at n) (\<lambda>d. Inr (n, d))) (fleet_names c)) (\<lambda>ss.
     and_then (asyncapi c generated_at) (\<lambda>api.
       Inr \<lparr>ar_manifest = m, ar_topology = t, ar_topics = ts, ar_services = dict_of ss, ar_usage = usage_artifact c generated_at,
            ar_asyncapi = api, ar_annotations = annotations_artifact generated_at\<rparr>)))))"

text \<open>The files \<open>write_artifacts\<close> writes, by their paths below the directory, in order.\<close>

definition artifact_files :: "artifacts \<Rightarrow> (string \<times> pydict) list" where
  "artifact_files a = [(''manifest.json'', ar_manifest a), (''topology.json'', ar_topology a), (''topics.json'', ar_topics a),
     (''usage.json'', ar_usage a), (''asyncapi.json'', ar_asyncapi a), (''annotations.json'', ar_annotations a)]
     @ map (\<lambda>(name, d). (''services/'' @ name @ ''.json'', case d of VDict ms \<Rightarrow> ms | _ \<Rightarrow> [])) (ar_services a)"

section \<open>The topology is the declared graph\<close>

definition errors_on :: "collector \<Rightarrow> string \<Rightarrow> nat" where
  "errors_on c topic = length (filter (\<lambda>e. ev_topic e = topic \<and> \<not> is_successful (ev_status e)) (co_events c))"

lemma detail_members:
  assumes "topic_detail c topic = Inr d"
  shows "detail_texts d ''providers'' = providers_of c topic" "detail_texts d ''consumers'' = consumers_of c topic"
    "detail_count d ''invocations'' = int (invocations_on c topic)" "detail_count d ''errors'' = int (errors_on c topic)"
proof -
  let ?events = "filter (\<lambda>e. ev_topic e = topic) (co_events c)"
  obtain rest where d: "d = [(''topic'', VStr topic), (''providers'', texts (providers_of c topic)), (''consumers'', texts (consumers_of c topic)),
      (''invocations'', VInt (int (length ?events)))]
      @ (if ?events = [] then [] else [(''errors'', VInt (int (length (filter (\<lambda>e. \<not> is_successful (ev_status e)) ?events)))),
           (''statusCounts'', VDict (map (\<lambda>(s, n). (s, VInt (int n))) (counter (map ev_status ?events))))]) @ rest"
      "map_of rest ''errors'' = None"
    using assms unfolding topic_detail_def query_topic_def require_def
    by (auto simp: vget_def Let_def and_then_def split: if_splits sum.splits)
  have e: "length (filter (\<lambda>e. \<not> is_successful (ev_status e)) ?events) = errors_on c topic"
    by (simp add: errors_on_def conj_commute)
  show "detail_texts d ''providers'' = providers_of c topic" "detail_texts d ''consumers'' = consumers_of c topic"
    by (simp_all add: detail_texts_def d(1) vget_def texts_def comp_def)
  show "detail_count d ''invocations'' = int (invocations_on c topic)"
    by (simp add: detail_count_def d(1) vget_def invocations_on_def)
  show "detail_count d ''errors'' = int (errors_on c topic)"
    by (cases "?events = []") (use e d(2) in \<open>simp_all add: detail_count_def d(1) vget_def\<close>)
qed

text \<open>Adding a list of pairs, none twice: every pair of two services gets the counts once.\<close>

lemma add_edge_get:
  "map_of (add_edge i e pair ps) = (if fst pair = snd pair then map_of ps
     else (map_of ps)(pair \<mapsto> (case map_of ps pair of None \<Rightarrow> (i, e) | Some (i', e') \<Rightarrow> (i' + i, e' + e))))"
  by (auto simp: add_edge_def split: option.splits)

definition tally :: "(int \<times> int) option \<Rightarrow> int \<times> int" where
  "tally v = (case v of None \<Rightarrow> (0, 0) | Some x \<Rightarrow> x)"

lemma fold_edges:
  assumes "distinct pairs"
  shows "map_of (fold (add_edge i e) pairs ps) pair =
    (if pair \<in> set pairs \<and> fst pair \<noteq> snd pair then Some (fst (tally (map_of ps pair)) + i, snd (tally (map_of ps pair)) + e) else map_of ps pair)"
  using assms
proof (induction pairs arbitrary: ps)
  case (Cons p pairs)
  then show ?case by (cases "pair = p") (auto simp: add_edge_get tally_def split: option.splits prod.splits)
qed simp

lemma dict_ok_edges: "dict_ok ps \<Longrightarrow> dict_ok (fold (add_edge i e) pairs ps)"
  by (induction pairs arbitrary: ps) (auto simp: add_edge_def split: option.splits)

lemma distinct_sides: "dict_ok (co_services c) \<Longrightarrow> distinct (providers_of c t) \<and> distinct (consumers_of c t)"
  by (auto simp: providers_of_def consumers_of_def dict_ok_def intro: distinct_map_filter)

text \<open>The topics one service sends and another handles.\<close>

definition between :: "collector \<Rightarrow> string \<times> string \<Rightarrow> string list \<Rightarrow> string list" where
  "between c = (\<lambda>(client, server) ts. filter (\<lambda>t. client \<in> set (providers_of c t) \<and> server \<in> set (consumers_of c t)) ts)"

lemma topic_pairs_get:
  assumes "topic_detail c t = Inr d" "dict_ok (co_services c)"
  shows "map_of (topic_pairs d ps) pair = (if fst pair \<noteq> snd pair \<and> between c pair [t] \<noteq> [] then
      Some (fst (tally (map_of ps pair)) + int (invocations_on c t), snd (tally (map_of ps pair)) + int (errors_on c t)) else map_of ps pair)"
proof -
  let ?pairs = "concat (map (\<lambda>p. map (\<lambda>s. (p, s)) (consumers_of c t)) (providers_of c t))"
  have "?pairs = List.product (providers_of c t) (consumers_of c t)" by (simp add: product_concat_map)
  then have "distinct ?pairs" using distinct_sides [OF assms(2)] by (simp add: distinct_product)
  moreover have "pair \<in> set ?pairs \<longleftrightarrow> between c pair [t] \<noteq> []" by (cases pair) (auto simp: between_def)
  ultimately show ?thesis unfolding topic_pairs_def detail_members [OF assms(1)] by (simp add: fold_edges)
qed

lemma between_Cons: "between c pair (t # ts) = between c pair [t] @ between c pair ts"
  by (cases pair) (simp add: between_def)

lemma between_single: "between c pair [t] = [] \<or> between c pair [t] = [t]"
  by (cases pair) (simp add: between_def)

lemma fold_topics:
  assumes "each (topic_detail c) ts = Inr ds" "dict_ok (co_services c)"
  shows "map_of (fold topic_pairs ds ps) pair = (if fst pair \<noteq> snd pair \<and> between c pair ts \<noteq> [] then
      Some (fst (tally (map_of ps pair)) + (\<Sum>t \<leftarrow> between c pair ts. int (invocations_on c t)),
            snd (tally (map_of ps pair)) + (\<Sum>t \<leftarrow> between c pair ts. int (errors_on c t))) else map_of ps pair)"
  using assms(1)
proof (induction ts arbitrary: ds ps)
  case Nil
  then show ?case by (cases pair) (simp add: between_def)
next
  case (Cons t ts)
  then obtain d ds' where d: "topic_detail c t = Inr d" "each (topic_detail c) ts = Inr ds'" "ds = d # ds'"
    by (auto simp: and_then_def split: sum.splits)
  show ?case
    using Cons.IH [OF d(2), of "topic_pairs d ps"] topic_pairs_get [OF d(1) assms(2), of ps pair] between_single [of c pair t]
    by (auto simp: d(3) between_Cons [of c pair t ts] tally_def split: if_splits)
qed

lemma topology_pairs_exact:
  assumes "topology_pairs c = Inr ps" "dict_ok (co_services c)"
  shows "dict_ok ps \<and> (\<forall>pair. map_of ps pair = (if fst pair \<noteq> snd pair \<and> between c pair (fleet_topics c) \<noteq> [] then
      Some (\<Sum>t \<leftarrow> between c pair (fleet_topics c). int (invocations_on c t), \<Sum>t \<leftarrow> between c pair (fleet_topics c). int (errors_on c t))
    else None))"
proof -
  obtain ds where ds: "each (topic_detail c) (fleet_topics c) = Inr ds" "ps = fold topic_pairs ds []"
    using assms(1) by (auto simp: topology_pairs_def and_then_def split: sum.splits)
  have "dict_ok (fold topic_pairs ds qs)" if "dict_ok qs" for qs
    using that by (induction ds arbitrary: qs) (simp_all add: topic_pairs_def dict_ok_edges)
  then show ?thesis using fold_topics [OF ds(1) assms(2), of "[]"] by (simp add: ds(2) tally_def)
qed

text \<open>
  C40. The topology shows the declared graph. When it is built, its edges are, in order and each once, exactly the pairs of two services
  of which one declares to send a topic the other declares to handle; the error rate of an edge is that of all events on the
  topics between the two, and is left open when there are none.
\<close>

theorem topology_exact:
  assumes "topology float_text c generated_at = Inr doc" "dict_ok (co_services c)" "finite (co_topics c)"
  shows "\<exists>ps. vget doc ''edges'' = VList (map (edge_document float_text) ps) \<and> sorted (map fst ps) \<and> distinct (map fst ps) \<and>
    (\<forall>client server. (client, server) \<in> fst ` set ps \<longleftrightarrow>
       client \<noteq> server \<and> (\<exists>t \<in> co_topics c. client \<in> set (providers_of c t) \<and> server \<in> set (consumers_of c t))) \<and>
    (\<forall>pair counts. (pair, counts) \<in> set ps \<longrightarrow>
       counts = (\<Sum>t \<leftarrow> between c pair (fleet_topics c). int (invocations_on c t), \<Sum>t \<leftarrow> between c pair (fleet_topics c). int (errors_on c t)))"
proof -
  obtain ps where ps: "topology_pairs c = Inr ps" "doc = [(''generatedAtUtc'', VStr generated_at),
      (''edges'', VList (map (edge_document float_text) (sort_key fst ps)))]"
    using assms(1) by (auto simp: topology_def and_then_def split: sum.splits)
  note e = topology_pairs_exact [OF ps(1) assms(2)]
  have "(pair, counts) \<in> set (sort_key fst ps) \<longleftrightarrow> map_of ps pair = Some counts" for pair counts
    using e by (simp add: dict_ok_def map_of_eq_Some_iff)
  note m = this
  have "(client, server) \<in> fst ` set (sort_key fst ps) \<longleftrightarrow> between c (client, server) (fleet_topics c) \<noteq> [] \<and> client \<noteq> server" for client server
  proof -
    have "(client, server) \<in> fst ` set (sort_key fst ps) \<longleftrightarrow> map_of ps (client, server) \<noteq> None"
      by (simp add: map_of_eq_None_iff)
    then show ?thesis using conjunct2 [OF e] by auto
  qed
  moreover have "between c (client, server) (fleet_topics c) \<noteq> [] \<longleftrightarrow>
      (\<exists>t \<in> co_topics c. client \<in> set (providers_of c t) \<and> server \<in> set (consumers_of c t))" for client server
    using assms(3) by (auto simp: between_def fleet_topics_def filter_empty_conv)
  moreover have "distinct (map fst (sort_key fst ps))"
    using e by (simp add: dict_ok_def distinct_map)
  moreover have "vget doc ''edges'' = VList (map (edge_document float_text) (sort_key fst ps))" by (simp add: ps(2) vget_def)
  moreover have "sorted (map fst (sort_key fst ps))" by simp
  moreover have "counts = (\<Sum>t \<leftarrow> between c pair (fleet_topics c). int (invocations_on c t), \<Sum>t \<leftarrow> between c pair (fleet_topics c). int (errors_on c t))"
    if "(pair, counts) \<in> set (sort_key fst ps)" for pair counts
    using conjunct2 [OF e, THEN spec, of pair] m [of pair counts] that by (simp split: if_splits)
  ultimately show ?thesis by blast
qed

text \<open>Two services, one of which sends what the other handles.\<close>

definition pair_collector :: collector where
  "pair_collector = empty_collector\<lparr>co_services := [(''orders'', (new_service ''orders'')\<lparr>sv_produced := [''stock:take'']\<rparr>),
     (''stock'', (new_service ''stock'')\<lparr>sv_consumed := [''stock:take'']\<rparr>)], co_topics := {''stock:take''}\<rparr>"

theorem topology_exact_witness:
  "\<exists>doc ps. topology (\<lambda>_. ''0.0'') pair_collector ''now'' = Inr doc \<and> vget doc ''edges'' = VList (map (edge_document (\<lambda>_. ''0.0'')) ps) \<and>
     fst ` set ps = {(''orders'', ''stock'')}"
proof -
  have "case topology (\<lambda>_. ''0.0'') pair_collector ''now'' of Inl _ \<Rightarrow> False | Inr _ \<Rightarrow> True" by code_simp
  then obtain doc where doc: "topology (\<lambda>_. ''0.0'') pair_collector ''now'' = Inr doc" by (auto split: sum.splits)
  have ok: "dict_ok (co_services pair_collector)" by code_simp
  have t: "co_topics pair_collector = {''stock:take''}" by (simp add: pair_collector_def)
  then have fin: "finite (co_topics pair_collector)" by simp
  have "providers_of pair_collector ''stock:take'' = [''orders'']" "consumers_of pair_collector ''stock:take'' = [''stock'']" by code_simp+
  note sides = this
  obtain ps where ps: "vget doc ''edges'' = VList (map (edge_document (\<lambda>_. ''0.0'')) ps)"
      "\<And>client server. (client, server) \<in> fst ` set ps \<longleftrightarrow> client \<noteq> server \<and> (\<exists>t \<in> co_topics pair_collector.
         client \<in> set (providers_of pair_collector t) \<and> server \<in> set (consumers_of pair_collector t))"
    using topology_exact [OF doc ok fin] by blast
  have "x \<in> fst ` set ps \<longleftrightarrow> x = (''orders'', ''stock'')" for x
    using ps(2) [of "fst x" "snd x"] by (cases x) (auto simp: t sides)
  then show ?thesis using doc ps(1) by blast
qed

section \<open>Usage and retired topics\<close>

lemma fold_add_new: "set (fold add_new xs ys) = set xs \<union> set ys \<and> (distinct ys \<longrightarrow> distinct (fold add_new xs ys))"
  by (induction xs arbitrary: ys) (auto simp: add_new_def)

text \<open>Every event is counted once, under its topic, service and status.\<close>

lemma usage_counts_all:
  "(\<Sum>(_, n) \<leftarrow> usage_counts es. n) = length es" "distinct (map fst (usage_counts es))"
  "(k, n) \<in> set (usage_counts es) \<Longrightarrow> n = count_list (map usage_key es) k"
proof -
  let ?keys = "map usage_key es"
  have d: "distinct (fold add_new ?keys [])" "set (fold add_new ?keys []) = set ?keys" using fold_add_new [of ?keys "[]"] by simp_all
  have "(\<Sum>(_, n) \<leftarrow> usage_counts es. n) = (\<Sum>k \<leftarrow> fold add_new ?keys []. count_list ?keys k)"
    by (simp add: usage_counts_def Let_def comp_def case_prod_beta)
  also have "\<dots> = (\<Sum>k \<in> set ?keys. count_list ?keys k)" using d by (metis sum_list_distinct_conv_sum_set)
  also have "\<dots> = length ?keys" by (rule sum_count_set) simp_all
  finally show "(\<Sum>(_, n) \<leftarrow> usage_counts es. n) = length es" by simp
  show "distinct (map fst (usage_counts es))" using d(1) by (simp add: usage_counts_def Let_def comp_def)
  show "(k, n) \<in> set (usage_counts es) \<Longrightarrow> n = count_list ?keys k" by (auto simp: usage_counts_def Let_def)
qed

text \<open>A topic is listed as removed exactly when it was once handled and no service handles it now; the others stay listed.\<close>

lemma removed_topics_exact:
  assumes "finite (co_ever_consumed c)" "finite (co_topics c)"
  shows "t \<in> set (removed_topics c) \<longleftrightarrow> t \<in> co_ever_consumed c \<and> (\<forall>(_, r) \<in> set (co_services c). t \<notin> set (sv_consumed r))"
    "set (active_topics c) = co_topics c - set (removed_topics c)"
  using assms by (auto simp: removed_topics_def active_topics_def fleet_topics_def)

text \<open>Two topics that differ in a colon and an underscore share a channel key, so the later one replaces the other in the export.\<close>

lemma channel_keys_collide: "channel_key ''order:paid'' = channel_key ''order_paid''"
  by code_simp

text \<open>A service's document is written to a path made of the name it registered under, whatever that is.\<close>

lemma service_path_escapes:
  "(''../../x'', d) \<in> set (ar_services a) \<Longrightarrow> ''services/../../x.json'' \<in> fst ` set (artifact_files a)"
  by (force simp: artifact_files_def)

end
