(* ===== verification/CollectorProps.thy ===== *)
theory CollectorProps
  imports CollectorViews
begin

text \<open>
  What the mesh collector guarantees over whole histories of feeds: the graph is the one the latest
  registrations declare, drift is filed only against a declaration, issue counts add up, and a
  snapshot restores the catalogue.
\<close>

section \<open>Histories\<close>

datatype feed = Register pydict | Heartbeat pydict | Traces pydict | IssueFeed pydict

fun ingest :: "(string \<Rightarrow> string) \<Rightarrow> (pydict \<Rightarrow> ('w, unit) action) \<Rightarrow> feed \<Rightarrow> ('w mesh, pydict) action" where
  "ingest digest save (Register body) = ingest_register save body"
| "ingest digest save (Heartbeat body) = ingest_heartbeat save body"
| "ingest digest save (Traces body) = ingest_traces digest save body"
| "ingest digest save (IssueFeed body) = ingest_issues save body"

text \<open>Feeds arrive as messages: one that raises is answered with a failure and the next one is handled.\<close>

definition ingest_history ::
  "(string \<Rightarrow> string) \<Rightarrow> (pydict \<Rightarrow> ('w, unit) action) \<Rightarrow> feed list \<Rightarrow> 'w mesh \<Rightarrow> 'w mesh" where
  "ingest_history digest save feeds m = fold (\<lambda>f s. snd (ingest digest save f s)) feeds m"

lemma ingest_history_simps [simp]:
  "ingest_history digest save [] m = m"
  "ingest_history digest save (fs @ [f]) m = snd (ingest digest save f (ingest_history digest save fs m))"
  by (simp_all add: ingest_history_def)

text \<open>What a feed does to the collector, whatever its store does.\<close>

fun effect :: "(string \<Rightarrow> string) \<Rightarrow> feed \<Rightarrow> collector \<Rightarrow> collector" where
  "effect digest (Register body) c =
     (case require body ''service'' of Inl _ \<Rightarrow> c | Inr s \<Rightarrow> register_service s body c)"
| "effect digest (Heartbeat body) c =
     (case require body ''service'' of Inl _ \<Rightarrow> c | Inr s \<Rightarrow> snd (heartbeat s body c))"
| "effect digest (Traces body) c =
     (case elements_of (v_or (vget body ''events'') (VList [])) of
        Inl _ \<Rightarrow> c | Inr es \<Rightarrow> snd (ingest_each (ingest_event digest) es c))"
| "effect digest (IssueFeed body) c =
     (case require body ''service'' of Inl _ \<Rightarrow> c
      | Inr s \<Rightarrow> (case elements_of (v_or (vget body ''issues'') (VList [])) of
          Inl _ \<Rightarrow> reporting s c | Inr is \<Rightarrow> snd (ingest_each ingest_issue is (reporting s c))))"

lemma persisted_fst: "fst (snd (persisted save reply (c, w))) = c"
  by (simp add: persisted_def split: prod.splits sum.splits)

lemma on_collector_then:
  "fst (snd (act_bind (on_collector act) (\<lambda>_. persisted save reply) (c, w))) = snd (act c)"
  by (auto simp: act_bind_def on_collector_def persisted_fst split: prod.splits sum.splits)

lemma fst_ingest: "fst (snd (ingest digest save f (c, w))) = effect digest f c"
proof (cases f)
  case (Register body)
  then show ?thesis
    by (simp add: ingest_register_def with_required_def act_raise_def on_collector_then act_modify_def split: sum.splits)
next
  case (Heartbeat body)
  then show ?thesis
    by (simp add: ingest_heartbeat_def with_required_def act_raise_def on_collector_then split: sum.splits)
next
  case (Traces body)
  then show ?thesis
    by (simp add: ingest_traces_def with_elements_def act_raise_def on_collector_then split: sum.splits)
next
  case (IssueFeed body)
  have m: "on_collector (act_modify f) (c, w) = (Inr (), (f c, w))" for f
    by (simp add: on_collector_def act_modify_def)
  from IssueFeed show ?thesis
    by (simp add: ingest_issues_def with_required_def with_elements_def act_raise_def m on_collector_then split: sum.splits)
qed

lemma history_effect:
  "fst (ingest_history digest save feeds (c, w)) = fold (effect digest) feeds c"
proof (induction feeds rule: rev_induct)
  case (snoc f fs)
  show ?case using fst_ingest [of digest save f "fst (ingest_history digest save fs (c, w))" "snd (ingest_history digest save fs (c, w))"]
    by (simp flip: snoc)
qed simp

text \<open>An invariant of the catalogue is one of every step of an ingest, raising or not.\<close>

lemma ingest_each_invariant:
  assumes "\<And>x c. P c \<Longrightarrow> P (snd (step x c))" "P c"
  shows "P (snd (ingest_each step xs c))"
  using assms(2)
proof (induction xs arbitrary: c)
  case (Cons x xs)
  show ?case using assms(1) [OF Cons.prems, of x] Cons.IH
    by (cases "step x c"; cases "fst (step x c)") auto
qed (simp add: act_return_def)

lemma merge_issue_frame:
  "snd (merge_issue fp issue c) = c \<or> (\<exists>i. snd (merge_issue fp issue c) = put_issue fp i c)"
  by (auto simp: merge_issue_def split: sum.splits option.splits prod.splits)

lemma flag_drift_frame:
  "snd (flag_drift_if_undeclared digest r topic declared t c) = c \<or>
   (\<exists>i. snd (flag_drift_if_undeclared digest r topic declared t c) = put_issue (drift_fingerprint digest (sv_name r) topic) i c)"
  using merge_issue_frame by (simp add: flag_drift_if_undeclared_def act_return_def Let_def)

lemma put_issue_simps [simp]:
  "co_services (put_issue fp i c) = co_services c" "co_topics (put_issue fp i c) = co_topics c"
  "co_ever_consumed (put_issue fp i c) = co_ever_consumed c" "co_events (put_issue fp i c) = co_events c"
  "co_span_owner (put_issue fp i c) = co_span_owner c"
  "co_issues (put_issue fp i c) = dict_set fp i (co_issues c)"
  by (simp_all add: put_issue_def)

lemma put_service_simps [simp]:
  "co_services (put_service n r c) = dict_set n r (co_services c)" "co_topics (put_service n r c) = co_topics c"
  "co_ever_consumed (put_service n r c) = co_ever_consumed c" "co_events (put_service n r c) = co_events c"
  "co_span_owner (put_service n r c) = co_span_owner c" "co_issues (put_service n r c) = co_issues c"
  by (simp_all add: put_service_def)

lemma ensure_service_simps [simp]:
  "co_topics (ensure_service n c) = co_topics c" "co_ever_consumed (ensure_service n c) = co_ever_consumed c"
  "co_events (ensure_service n c) = co_events c" "co_span_owner (ensure_service n c) = co_span_owner c"
  "co_issues (ensure_service n c) = co_issues c"
  by (simp_all add: ensure_service_def)

text \<open>Everything but the issues is left alone by the search for drift and by an issues entry.\<close>

definition same_but_issues :: "collector \<Rightarrow> collector \<Rightarrow> bool" where
  "same_but_issues c c' \<longleftrightarrow> (\<exists>is. c' = c\<lparr>co_issues := is\<rparr>)"

lemma same_but_issues_refl [simp]: "same_but_issues c c"
  unfolding same_but_issues_def by (rule exI [of _ "co_issues c"]) simp

lemma same_but_issues_trans: "same_but_issues a b \<Longrightarrow> same_but_issues b c \<Longrightarrow> same_but_issues a c"
  by (auto simp: same_but_issues_def)

lemma same_merge: "same_but_issues c (snd (merge_issue fp issue c))"
  using merge_issue_frame [of fp issue c] by (elim disjE exE) (simp, auto simp: same_but_issues_def put_issue_def)

lemma same_flag: "same_but_issues c (snd (flag_drift_if_undeclared digest r topic declared t c))"
  by (simp add: flag_drift_if_undeclared_def act_return_def Let_def same_merge)

lemma same_callee: "same_but_issues c (snd (callee_drift digest e c))"
  by (simp add: callee_drift_def Let_def same_flag)

lemma same_caller: "same_but_issues c (snd (caller_drift digest e c))"
  by (simp add: caller_drift_def same_flag split: sum.splits option.splits)

lemma snd_act_bind: "snd (act_bind m k s) = (case m s of (Inl e, s') \<Rightarrow> s' | (Inr a, s') \<Rightarrow> snd (k a s'))"
  by (simp add: act_bind_def split: prod.splits sum.splits)

lemma same_event: "event_of raw = Inr e \<Longrightarrow> same_but_issues (note_event e c) (snd (ingest_event digest raw c))"
  using same_callee [of "note_event e c" digest e] same_caller [of _ digest e]
  by (auto simp: ingest_event_def snd_act_bind split: prod.splits sum.splits intro: same_but_issues_trans)

lemma event_raises: "event_of raw = Inl x \<Longrightarrow> snd (ingest_event digest raw c) = c"
  by (simp add: ingest_event_def)

lemma same_ingest_issue: "same_but_issues c (snd (ingest_issue raw c))"
  by (cases raw) (simp_all add: ingest_issue_def act_return_def act_raise_def same_merge)

lemma same_issues: "same_but_issues c (snd (ingest_each ingest_issue raws c))"
  by (rule ingest_each_invariant [of "same_but_issues c"]) (auto intro: same_but_issues_trans same_ingest_issue)

lemma same_service_of: "same_but_issues c c' \<Longrightarrow> service_of c' = service_of c"
  by (auto simp: same_but_issues_def service_of_def)

section \<open>The graph is the declared one\<close>

text \<open>The edges of a service: the topics it consumes and the topics it provides.\<close>

definition edges :: "collector \<Rightarrow> string \<Rightarrow> string list \<times> string list" where
  "edges c name = (sv_consumed (service_of c name), sv_produced (service_of c name))"

fun latest_registration :: "string \<Rightarrow> feed list \<Rightarrow> pydict option" where
  "latest_registration name [] = None"
| "latest_registration name (f # fs) = (case latest_registration name fs of
     Some body \<Rightarrow> Some body
   | None \<Rightarrow> (case f of
       Register body \<Rightarrow> if require body ''service'' = Inr name then Some body else None
     | _ \<Rightarrow> None))"

definition listed_edges :: "pydict option \<Rightarrow> string list \<times> string list" where
  "listed_edges registration = (case registration of
     None \<Rightarrow> ([], [])
   | Some body \<Rightarrow> (spec_topic_ids body [''requests''], spec_topic_ids body [''events'', ''sends'']))"

text \<open>
  What a registration declares: the entries of its known members. A member that is absent, or named in
  \<open>degraded\<close>, is unknown and declares nothing. \<open>nothing_degraded\<close>: \<open>degraded\<close> names none of the lists it carries.
\<close>

definition declared_edges :: "pydict option \<Rightarrow> string list \<times> string list" where
  "declared_edges registration = (case registration of
     None \<Rightarrow> ([], [])
   | Some body \<Rightarrow> (spec_topic_ids body (filter (\<lambda>m. m \<in> set (known_members body)) [''requests'']),
                   spec_topic_ids body (filter (\<lambda>m. m \<in> set (known_members body)) [''events'', ''sends''])))"

definition nothing_degraded :: "pydict option \<Rightarrow> bool" where
  "nothing_degraded registration = (case registration of
     None \<Rightarrow> True
   | Some body \<Rightarrow> list_all (\<lambda>m. is_list (vget body m) \<longrightarrow> m \<in> set (known_members body)) MEMBERS)"

lemma topics_of_known:
  assumes "\<And>m. m \<in> set members \<Longrightarrow> is_list (vget body m) \<Longrightarrow> P m"
  shows "spec_topic_ids body members = spec_topic_ids body (filter P members)"
proof -
  have "spec_entries body m = []" if "m \<in> set members" "\<not> P m" for m
    using assms [OF that(1)] that(2) by (cases "vget body m") (auto simp: spec_entries_def is_list_def)
  then have "concat (map (\<lambda>m. map entry_topic (spec_entries body m)) members) =
      concat (map (\<lambda>m. map entry_topic (spec_entries body m)) (filter P members))"
    by (induction members) auto
  then show ?thesis by (simp only: spec_topic_ids_def)
qed

lemma listed_is_declared: "nothing_degraded registration \<Longrightarrow> listed_edges registration = declared_edges registration"
  by (cases registration)
    (auto simp: nothing_degraded_def listed_edges_def declared_edges_def MEMBERS_def
      intro!: topics_of_known simp del: filter.simps)

lemma service_of_put: "service_of (put_service n r c) m = (if m = n then r else service_of c m)"
  by (simp add: service_of_def)

lemma service_of_ensure [simp]: "service_of (ensure_service n c) = service_of c"
  by (auto simp: fun_eq_iff ensure_service_def service_of_def dict_mem_def)

lemma service_of_note [simp]: "service_of (note_event e c) = service_of c"
  by (auto simp: note_event_def fun_eq_iff) (simp add: service_of_def)

lemma service_of_topics [simp]:
  "service_of (c\<lparr>co_topics := t, co_ever_consumed := u\<rparr>) = service_of c"
  by (simp add: fun_eq_iff service_of_def)

lemma edges_register: "edges (register_service s body c) name =
    (if name = s then listed_edges (Some body) else edges c name)"
  by (simp add: edges_def register_service_def Let_def service_of_put listed_edges_def)

lemma edges_heartbeat: "edges (snd (heartbeat s body c)) = edges c"
  by (auto simp: fun_eq_iff edges_def heartbeat_def Let_def service_of_put split: sum.splits)

lemma edges_reporting: "edges (reporting s c) = edges c"
  by (auto simp: fun_eq_iff edges_def reporting_def service_of_put)

lemma edges_traces: "edges (snd (ingest_each (ingest_event digest) es c)) = edges c"
proof (rule ingest_each_invariant [of "\<lambda>c'. edges c' = edges c"])
  show "edges (snd (ingest_event digest raw c')) = edges c" if "edges c' = edges c" for raw c'
    using that event_raises [of raw _ digest c'] same_service_of [OF same_event [of raw _ c' digest]]
    by (cases "event_of raw") (auto simp: edges_def fun_eq_iff)
qed simp

lemma edges_effect: "edges (effect digest f c) name =
    (case f of Register body \<Rightarrow> if require body ''service'' = Inr name then listed_edges (Some body) else edges c name
     | _ \<Rightarrow> edges c name)"
proof (cases f)
  case (IssueFeed body)
  have "edges (snd (ingest_each ingest_issue is c')) = edges c'" for "is" c'
    using same_service_of [OF same_issues [of c' "is"]] by (simp add: edges_def fun_eq_iff)
  with IssueFeed show ?thesis by (simp add: edges_reporting split: sum.splits)
qed (auto simp: edges_register edges_heartbeat edges_traces split: sum.splits)

lemma latest_registration_append: "latest_registration name (fs @ [f]) =
    (case f of Register body \<Rightarrow> if require body ''service'' = Inr name then Some body else latest_registration name fs
     | _ \<Rightarrow> latest_registration name fs)"
  by (induction fs) (auto split: feed.splits option.splits)

lemma history_edges:
  "edges (fold (effect digest) feeds empty_collector) name = listed_edges (latest_registration name feeds)"
proof (induction feeds rule: rev_induct)
  case Nil
  show ?case by (simp add: edges_def service_of_def new_service_def empty_collector_def listed_edges_def)
next
  case (snoc f fs)
  then show ?case by (simp add: edges_effect latest_registration_append split: feed.splits)
qed

section \<open>The shape of the catalogue\<close>

text \<open>
  What every history keeps: keys are unique, a record is filed under its name, the sets are finite,
  durations are floats in range, and the index of span owners is the one the events determine.
\<close>

definition span_index :: "trace_event list \<Rightarrow> (string, string) dict" where
  "span_index events = dict_of (map (\<lambda>e. (ev_span_id e, ev_service e)) events)"

definition collector_ok :: "collector \<Rightarrow> bool" where
  "collector_ok c \<longleftrightarrow> dict_ok (co_services c) \<and>
     (\<forall>(n, r) \<in> set (co_services c). sv_name r = n \<and> dict_ok (sv_instances r)) \<and>
     finite (co_topics c) \<and> finite (co_ever_consumed c) \<and>
     (\<forall>e \<in> set (co_events c). duration_ms (ev_duration_ms e) = Inr (ev_duration_ms e)) \<and>
     co_span_owner c = span_index (co_events c)"

lemma collector_ok_same: "same_but_issues c c' \<Longrightarrow> collector_ok c' = collector_ok c"
  by (auto simp: same_but_issues_def collector_ok_def)

lemma service_of_ok: "collector_ok c \<Longrightarrow> sv_name (service_of c n) = n \<and> dict_ok (sv_instances (service_of c n))"
  by (auto simp: collector_ok_def service_of_def new_service_def split: option.splits dest!: map_of_SomeD)

lemma put_service_ok:
  "collector_ok c \<Longrightarrow> sv_name r = n \<Longrightarrow> dict_ok (sv_instances r) \<Longrightarrow> collector_ok (put_service n r c)"
proof -
  assume ok: "collector_ok c" and r: "sv_name r = n" "dict_ok (sv_instances r)"
  then have "set (dict_set n r (co_services c)) = insert (n, r) {p \<in> set (co_services c). fst p \<noteq> n}"
    by (intro dict_set_entries) (simp add: collector_ok_def)
  with ok r show ?thesis by (auto simp: collector_ok_def)
qed

lemma topics_ok:
  "collector_ok c \<Longrightarrow> finite t \<Longrightarrow> finite u \<Longrightarrow> collector_ok (c\<lparr>co_topics := t, co_ever_consumed := u\<rparr>)"
  by (simp add: collector_ok_def)

lemma ensure_service_ok: "collector_ok c \<Longrightarrow> collector_ok (ensure_service n c)"
  by (auto simp: ensure_service_def new_service_def intro!: put_service_ok)

lemma register_ok: "collector_ok c \<Longrightarrow> collector_ok (register_service s body c)"
  using service_of_ok [of c s] unfolding register_service_def Let_def
  by (intro topics_ok put_service_ok) (simp_all add: collector_ok_def)

lemma heartbeat_ok: "collector_ok c \<Longrightarrow> collector_ok (snd (heartbeat s body c))"
  using service_of_ok [of c s]
  by (auto simp: heartbeat_def Let_def ensure_service_ok split: sum.splits prod.splits intro!: put_service_ok)

lemma reporting_ok: "collector_ok c \<Longrightarrow> collector_ok (reporting s c)"
  using service_of_ok [of c s] by (auto simp: reporting_def intro!: put_service_ok)

text \<open>Reading a duration twice is reading it once.\<close>

lemma float_zero: "float_value ''0.0'' = Some 0"
  by code_simp

lemma duration_idem: "duration_ms v = Inr d \<Longrightarrow> duration_ms d = Inr d"
proof (cases v)
  case (VInt i)
  assume d: "duration_ms v = Inr d"
  show ?thesis
  proof (cases "0 \<le> i")
    case True
    then have "int_text i = nat_text (nat i)" "of_nat (nat i) < double_limit"
      using d VInt by (auto simp: int_text_def duration_ms_def split: if_splits)
    with d VInt True float_value_nat [of "nat i"] show ?thesis by (auto simp: duration_ms_def split: if_splits)
  qed (use d VInt float_zero in \<open>auto simp: duration_ms_def split: if_splits\<close>)
qed (use float_zero in \<open>auto simp: duration_ms_def split: option.splits if_splits\<close>)

lemma span_index_snoc: "span_index (es @ [e]) = dict_set (ev_span_id e) (ev_service e) (span_index es)"
  by (simp add: span_index_def dict_of_def)

lemma event_duration: "event_of raw = Inr e \<Longrightarrow> duration_ms (ev_duration_ms e) = Inr (ev_duration_ms e)"
  by (cases raw) (auto simp: event_of_def Let_def and_then_def duration_idem split: sum.splits)

lemma note_event_ok: "collector_ok c \<Longrightarrow> event_of raw = Inr e \<Longrightarrow> collector_ok (note_event e c)"
  using event_duration [of raw e] unfolding note_event_def
  by (intro ensure_service_ok) (auto simp: collector_ok_def span_index_snoc)

lemma traces_ok: "collector_ok c \<Longrightarrow> collector_ok (snd (ingest_each (ingest_event digest) es c))"
proof (rule ingest_each_invariant [of collector_ok])
  show "collector_ok (snd (ingest_event digest raw c))" if "collector_ok c" for raw c
    using that event_raises [of raw _ digest c] collector_ok_same [OF same_event [of raw _ c digest]]
    by (cases "event_of raw") (auto simp: note_event_ok)
qed

lemma effect_ok: "collector_ok c \<Longrightarrow> collector_ok (effect digest f c)"
  using collector_ok_same [OF same_issues]
  by (cases f) (auto simp: register_ok heartbeat_ok traces_ok reporting_ok split: sum.splits)

lemma history_ok: "collector_ok (fold (effect digest) feeds empty_collector)"
proof (induction feeds rule: rev_induct)
  case Nil
  show ?case by (simp add: collector_ok_def empty_collector_def span_index_def dict_of_def)
qed (simp add: effect_ok)

lemma edge_members:
  assumes "dict_ok (co_services c)"
  shows "name \<in> set (consumers_of c topic) \<longleftrightarrow> topic \<in> set (fst (edges c name))"
    and "name \<in> set (providers_of c topic) \<longleftrightarrow> topic \<in> set (snd (edges c name))"
proof -
  have "(name, r) \<in> set (co_services c) \<longleftrightarrow> dict_get (co_services c) name = Some r" for r
    using assms by (simp add: dict_ok_def)
  then show "name \<in> set (consumers_of c topic) \<longleftrightarrow> topic \<in> set (fst (edges c name))"
    "name \<in> set (providers_of c topic) \<longleftrightarrow> topic \<in> set (snd (edges c name))"
    by (auto simp: consumers_of_def providers_of_def edges_def service_of_def new_service_def image_iff
        split: option.splits)
qed

text \<open>The catalogue a history leaves.\<close>

definition catalogue ::
  "(string \<Rightarrow> string) \<Rightarrow> (pydict \<Rightarrow> ('w, unit) action) \<Rightarrow> feed list \<Rightarrow> 'w \<Rightarrow> collector" where
  "catalogue digest save feeds w = fst (ingest_history digest save feeds (empty_collector, w))"

lemma catalogue_effect: "catalogue digest save feeds w = fold (effect digest) feeds empty_collector"
  by (simp add: catalogue_def history_effect)

lemma catalogue_ok: "collector_ok (catalogue digest save feeds w)"
  by (simp add: catalogue_effect history_ok)

lemma graph_lists: "dict_ok (co_services c) \<Longrightarrow> sorted (consumers_of c topic) \<and> distinct (consumers_of c topic) \<and>
    sorted (providers_of c topic) \<and> distinct (providers_of c topic)"
  by (auto simp: consumers_of_def providers_of_def dict_ok_def distinct_map intro: inj_on_subset)

lemma catalogue_dict_ok: "dict_ok (co_services (catalogue digest save feeds w))"
  using catalogue_ok [of digest save feeds w] by (simp add: collector_ok_def)

lemma catalogue_edges:
  "name \<in> set (consumers_of (catalogue digest save feeds w) topic) \<longleftrightarrow> topic \<in> set (fst (listed_edges (latest_registration name feeds)))"
  "name \<in> set (providers_of (catalogue digest save feeds w) topic) \<longleftrightarrow> topic \<in> set (snd (listed_edges (latest_registration name feeds)))"
  using edge_members [OF catalogue_dict_ok, of name digest save feeds w topic]
  by (simp_all add: catalogue_effect history_edges)

text \<open>
  C26. The graph is built from the latest registrations alone: after any history of feeds, malformed ones
  and failing stores included, a service whose latest registration names none of its lists in \<open>degraded\<close> is
  listed as a consumer of a topic exactly when that registration declares the topic among its requests, and as
  a provider exactly when it declares it among its events or sends. So a re-registration replaces a
  service's edges wholesale, and no heartbeat, trace or issue ever adds or removes one.
\<close>

theorem graph_is_declared:
  "(nothing_degraded (latest_registration name feeds) \<longrightarrow>
      (name \<in> set (consumers_of (catalogue digest save feeds w) topic) \<longleftrightarrow>
         topic \<in> set (fst (declared_edges (latest_registration name feeds)))) \<and>
      (name \<in> set (providers_of (catalogue digest save feeds w) topic) \<longleftrightarrow>
         topic \<in> set (snd (declared_edges (latest_registration name feeds))))) \<and>
   ((\<nexists>body. f = Register body) \<longrightarrow>
      consumers_of (catalogue digest save (feeds @ [f]) w) topic = consumers_of (catalogue digest save feeds w) topic \<and>
      providers_of (catalogue digest save (feeds @ [f]) w) topic = providers_of (catalogue digest save feeds w) topic)"
proof -
  have ok: "dict_ok (co_services (catalogue digest save fs w))" for fs by (rule catalogue_dict_ok)
  have mem: "n \<in> set (consumers_of (catalogue digest save fs w) topic) \<longleftrightarrow> topic \<in> set (fst (listed_edges (latest_registration n fs)))"
    "n \<in> set (providers_of (catalogue digest save fs w) topic) \<longleftrightarrow> topic \<in> set (snd (listed_edges (latest_registration n fs)))" for n fs
    by (rule catalogue_edges)+
  have keeps: "consumers_of (catalogue digest save (feeds @ [f]) w) topic = consumers_of (catalogue digest save feeds w) topic"
    "providers_of (catalogue digest save (feeds @ [f]) w) topic = providers_of (catalogue digest save feeds w) topic"
    if "\<nexists>body. f = Register body"
  proof -
    have l: "latest_registration n (feeds @ [f]) = latest_registration n feeds" for n
      using that by (auto simp: latest_registration_append split: feed.splits)
    show "consumers_of (catalogue digest save (feeds @ [f]) w) topic = consumers_of (catalogue digest save feeds w) topic"
      using graph_lists [OF ok] mem(1) l by (intro sorted_distinct_set_unique) auto
    show "providers_of (catalogue digest save (feeds @ [f]) w) topic = providers_of (catalogue digest save feeds w) topic"
      using graph_lists [OF ok] mem(2) l by (intro sorted_distinct_set_unique) auto
  qed
  with mem show ?thesis by (simp add: listed_is_declared)
qed

definition sample_registration :: pydict where
  "sample_registration = [(''service'', VStr ''orders''),
     (''requests'', VList [VDict [(''topic'', VStr ''order:create'')], VDict [(''topic'', VStr ''benzene:spec'')]])]"

lemma sample_topics: "spec_topic_ids sample_registration [''requests''] = [''order:create'']"
  by code_simp

lemma sample_declared:
  "nothing_degraded (Some sample_registration)" "declared_edges (Some sample_registration) = ([''order:create''], [])"
  by code_simp+

lemma sample_require: "require sample_registration ''service'' = Inr ''orders''"
  by (simp add: require_def sample_registration_def vget_def)

theorem graph_is_declared_witness:
  "''orders'' \<in> set (consumers_of (catalogue id (\<lambda>_. act_return ()) [Register sample_registration] ()) ''order:create'') \<and>
   ''orders'' \<notin> set (consumers_of (catalogue id (\<lambda>_. act_return ()) [Register sample_registration] ()) ''order:ship'') \<and>
   consumers_of (catalogue id (\<lambda>_. act_return ()) ([Register sample_registration] @ [Traces []]) ()) ''order:create'' =
   consumers_of (catalogue id (\<lambda>_. act_return ()) [Register sample_registration] ()) ''order:create''"
  using graph_is_declared [of "''orders''" "[Register sample_registration]" id "\<lambda>_. act_return ()" "()" "''order:create''"
      "Traces []"]
    graph_is_declared [of "''orders''" "[Register sample_registration]" id "\<lambda>_. act_return ()" "()" "''order:ship''"]
  by (simp add: sample_require sample_declared)

text \<open>
  A member named in \<open>degraded\<close> is meant to contribute no edge. The collector does not look: it lists the
  service as a consumer of a topic that an unknown member of its registration carries.
\<close>

definition degraded_registration :: pydict where
  "degraded_registration = sample_registration @ [(''degraded'', VList [VStr ''requests''])]"

lemma degraded_member_keeps_edges:
  "''orders'' \<in> set (consumers_of (catalogue id (\<lambda>_. act_return ()) [Register degraded_registration] ()) ''order:create'') \<and>
   declared_edges (latest_registration ''orders'' [Register degraded_registration]) = ([], [])"
proof -
  have "latest_registration ''orders'' [Register degraded_registration] = Some degraded_registration"
    "''order:create'' \<in> set (fst (listed_edges (Some degraded_registration)))"
    "declared_edges (Some degraded_registration) = ([], [])" by code_simp+
  then show ?thesis by (simp add: catalogue_edges del: latest_registration.simps)
qed

section \<open>A snapshot restores the catalogue\<close>

lemma each_map: "\<forall>x \<in> set xs. f (g x) = Inr (h x) \<Longrightarrow> each f (map g xs) = Inr (map h xs)"
  by (induction xs) auto

lemma read_texts_texts [simp]: "read_texts (texts ss) = Inr ss"
  by (simp add: read_texts_def texts_def elements_of_def comp_def)

lemma read_objects_objects [simp]: "read_objects (objects d) = d"
  by (simp add: read_objects_def objects_def as_object_def comp_def case_prod_beta)

lemma read_instance_snapshot: "read_instance (instance_snapshot p) = Inr p"
  by (cases p) (simp add: read_instance_def instance_snapshot_def items_of_def member_of_def member_or_def vget_def
      as_object_def)

lemma read_service_snapshot:
  assumes "dict_ok (sv_instances r)"
  shows "read_service (service_snapshot r) = Inr (sv_name r, r)"
proof -
  have i: "each read_instance (map instance_snapshot (sv_instances r)) = Inr (sv_instances r)"
    using each_map [of "sv_instances r" read_instance instance_snapshot id] by (simp add: read_instance_snapshot)
  show ?thesis
    using assms by (simp add: read_service_def service_snapshot_def items_of_def member_of_def member_or_def vget_def
        as_object_def elements_of_def i dict_of_ok)
qed

lemma event_of_snapshot:
  "duration_ms (ev_duration_ms e) = Inr (ev_duration_ms e) \<Longrightarrow> event_of (event_snapshot e) = Inr e"
  by (simp add: event_of_def event_snapshot_def vget_def member_or_def Let_def)

lemma restore_snapshot:
  assumes ok: "collector_ok c"
  shows "restore (snapshot c) c0 = Inr c"
proof -
  have s: "each read_service (map (service_snapshot \<circ> snd) (co_services c)) = Inr (co_services c)"
    using ok each_map [of "co_services c" read_service "service_snapshot \<circ> snd" id]
    by (force simp: collector_ok_def read_service_snapshot)
  have e: "each event_of (map event_snapshot (co_events c)) = Inr (co_events c)"
    using ok each_map [of "co_events c" event_of event_snapshot id]
    by (simp add: collector_ok_def event_of_snapshot)
  have v: "py_eq (vget (snapshot c) ''version'') (VInt SNAPSHOT_VERSION)"
    by (simp add: snapshot_def vget_def number_of_def)
  have m: "member_or (snapshot c) ''services'' d = VList (map (service_snapshot \<circ> snd) (co_services c))"
    "member_or (snapshot c) ''topics'' d = texts (sorted_list_of_set (co_topics c))"
    "member_or (snapshot c) ''everConsumed'' d = texts (sorted_list_of_set (co_ever_consumed c))"
    "member_or (snapshot c) ''events'' d = VList (map event_snapshot (co_events c))"
    "member_or (snapshot c) ''issues'' d = objects (co_issues c)" for d
    by (simp_all add: snapshot_def member_or_def)
  show ?thesis
    unfolding restore_def m using v ok
    by (simp add: elements_of_def s e collector_ok_def span_index_def dict_of_ok)
qed

text \<open>
  The contract of a \<open>CollectorStore\<close>, as an action on what it holds: \<open>save\<close> replaces it, and \<open>load\<close> (the
  argument of \<open>new_collector\<close>) is what it holds.
\<close>

definition keep_snapshot :: "pydict \<Rightarrow> (pydict option, unit) action" where
  "keep_snapshot snap _ = (Inr (), Some snap)"

definition saves :: "(pydict option mesh, 'a) action \<Rightarrow> bool" where
  "saves act \<longleftrightarrow> (\<forall>m r c' w'. act m = (Inr r, (c', w')) \<longrightarrow> w' = Some (snapshot c'))"

lemma savesI [intro]:
  "saves (persisted keep_snapshot reply)"
  "saves (act_raise e)"
  "(\<And>a. saves (k a)) \<Longrightarrow> saves (act_bind act k)"
  by (auto simp: saves_def persisted_def keep_snapshot_def act_raise_def act_bind_def split: prod.splits sum.splits)

lemma ingest_saves: "saves (ingest digest keep_snapshot f)"
  by (cases f) (auto simp: ingest_register_def ingest_heartbeat_def ingest_traces_def ingest_issues_def with_required_def
      with_elements_def split: sum.splits)

text \<open>
  C28. A restart forgets nothing the collector acknowledged: whatever history came before, once a feed has
  been answered, a collector started from the store has exactly the catalogue of the one that answered,
  so every query answers as before. Restoring a snapshot replaces whatever a collector held, and a
  snapshot of another version is ignored, leaving the catalogue as it was.
\<close>

theorem restart_keeps_catalogue:
  assumes "ingest digest keep_snapshot f (ingest_history digest keep_snapshot feeds (empty_collector, None)) =
     (Inr reply, (c', w'))"
  shows "new_collector w' = Inr c' \<and> restore (snapshot c') c = Inr c' \<and>
     restore (dict_set ''version'' (VInt 3) (snapshot c')) c = Inr c"
proof -
  have "c' = catalogue digest keep_snapshot (feeds @ [f]) None" using assms by (simp add: catalogue_def)
  then have "collector_ok c'" by (simp add: catalogue_ok)
  then have "restore (snapshot c') c0 = Inr c'" for c0 by (rule restore_snapshot)
  moreover have "restore (dict_set ''version'' (VInt 3) (snapshot c')) c = Inr c"
    by (simp add: restore_def snapshot_def vget_def number_of_def SNAPSHOT_VERSION_def)
  moreover have "w' = Some (snapshot c')" using ingest_saves [of digest f] assms unfolding saves_def by blast
  ultimately show ?thesis by (simp add: new_collector_def)
qed

theorem restart_keeps_catalogue_witness:
  "\<exists>c' w'. ingest id keep_snapshot (Register sample_registration) (empty_collector, None) =
      (Inr (accepted_reply 1), (c', w')) \<and> new_collector w' = Inr c'"
proof -
  let ?m = "ingest id keep_snapshot (Register sample_registration) (empty_collector, None)"
  have "fst ?m = Inr (accepted_reply 1)"
    by (simp add: ingest_register_def with_required_def sample_require act_bind_def on_collector_def act_modify_def
        persisted_def keep_snapshot_def)
  then have m: "?m = (Inr (accepted_reply 1), (fst (snd ?m), snd (snd ?m)))" by (simp add: prod_eq_iff)
  from restart_keeps_catalogue [of id "Register sample_registration" "[]", unfolded ingest_history_simps(1), OF m] m show ?thesis by blast
qed

section \<open>Issue counts add up\<close>

text \<open>The shape of a merged issue: an integral count, at most three exemplars, bounded proper detail.\<close>

definition merged_ok :: "pydict \<Rightarrow> bool" where
  "merged_ok d \<longleftrightarrow> (\<exists>n. dict_get d ''count'' = Some (VInt n)) \<and>
     (\<exists>xs. dict_get d ''exemplarTraceIds'' = Some (VList xs) \<and> length xs \<le> COLLECTOR_EXEMPLARS) \<and>
     (dict_get d ''errors'' = None \<or>
      (\<exists>es. dict_get d ''errors'' = Some (VList (map issue_error_to_payload es)) \<and> es \<noteq> [] \<and>
         length es \<le> MAX_ISSUE_ERRORS \<and> (\<forall>e \<in> set es. proper_error e)))"

definition issues_ok :: "collector \<Rightarrow> bool" where
  "issues_ok c \<longleftrightarrow> (\<forall>fp d. dict_get (co_issues c) fp = Some d \<longrightarrow> merged_ok d)"

definition count_of :: "pydict \<Rightarrow> int" where
  "count_of d = (case dict_get d ''count'' of Some (VInt n) \<Rightarrow> n | _ \<Rightarrow> 0)"

definition issue_count :: "collector \<Rightarrow> string \<Rightarrow> int" where
  "issue_count c fp = (case dict_get (co_issues c) fp of None \<Rightarrow> 0 | Some d \<Rightarrow> count_of d)"

lemma merge_errors_get:
  "k \<noteq> ''errors'' \<Longrightarrow> dict_get (merge_errors_into incoming d) k = dict_get d k"
  by (simp add: merge_errors_into_def Let_def)

lemma merge_errors_detail:
  "dict_get (merge_errors_into incoming d) ''errors'' = None \<or>
   (\<exists>es. dict_get (merge_errors_into incoming d) ''errors'' = Some (VList (map issue_error_to_payload es)) \<and> es \<noteq> [] \<and>
      length es \<le> MAX_ISSUE_ERRORS \<and> (\<forall>e \<in> set es. proper_error e))"
proof -
  let ?es = "merge_issue_errors (decode_issue_errors (vget d ''errors'')) (decode_issue_errors incoming)"
  have "length ?es \<le> MAX_ISSUE_ERRORS" by (simp add: merge_all_errors)
  moreover have "\<forall>e \<in> set (decode_issue_errors (vget d ''errors'')) \<union> set (decode_issue_errors incoming). 0 < ie_count e"
    using decode_proper by (auto simp: proper_error_def)
  then have "\<forall>e \<in> set ?es. proper_error e" using merged_proper by blast
  ultimately show ?thesis by (auto simp: merge_errors_into_def Let_def)
qed

lemma merge_errors_ok: "(\<exists>n. dict_get d ''count'' = Some (VInt n)) \<Longrightarrow>
    (\<exists>xs. dict_get d ''exemplarTraceIds'' = Some (VList xs) \<and> length xs \<le> COLLECTOR_EXEMPLARS) \<Longrightarrow>
    merged_ok (merge_errors_into incoming d) \<and> count_of (merge_errors_into incoming d) = count_of d"
  using merge_errors_detail [of incoming d] by (simp add: merged_ok_def merge_errors_get count_of_def)

lemma first_merge_ok: "first_merge issue xs = Inr d \<Longrightarrow> merged_ok d \<and>
    (\<exists>n. safe_int (member_or issue ''count'' (VInt 0)) = Inr n \<and> count_of d = n)"
  unfolding first_merge_def and_then_def
  by (auto split: sum.splits) (subst merge_errors_ok; simp add: count_of_def)+

lemma latest_wins_get: "k \<in> set AGGREGATED_ISSUE_FIELDS \<Longrightarrow> dict_get (latest_wins issue d) k = dict_get d k"
proof -
  assume k: "k \<in> set AGGREGATED_ISSUE_FIELDS"
  have "dict_get (rev (filter (\<lambda>(k, _). k \<notin> set AGGREGATED_ISSUE_FIELDS) issue)) k = None"
    using k by (auto simp: map_of_eq_None_iff)
  then show ?thesis by (simp add: latest_wins_def dict_get_update map_add_def)
qed

lemma merged_ok_latest: "merged_ok (latest_wins issue d) = merged_ok d" "count_of (latest_wins issue d) = count_of d"
  by (simp_all add: merged_ok_def count_of_def latest_wins_get AGGREGATED_ISSUE_FIELDS_def)

lemma add_counts_ok:
  assumes "merged_ok d"
  shows "merged_ok (snd (add_counts issue d)) \<and> (fst (add_counts issue d) = Inr () \<longrightarrow>
    (\<exists>n. safe_int (member_or issue ''count'' (VInt 0)) = Inr n \<and> count_of (snd (add_counts issue d)) = count_of d + n))"
proof -
  obtain m where "dict_get d ''count'' = Some (VInt m)" using assms by (auto simp: merged_ok_def)
  with assms show ?thesis
    by (cases "safe_int (member_or issue ''count'' (VInt 0))")
      (auto simp: add_counts_def member_or_def safe_int_def merged_ok_def count_of_def)
qed

lemma merge_exemplars_ok: "merged_ok d \<Longrightarrow> merged_ok (merge_exemplars xs d) \<and> count_of (merge_exemplars xs d) = count_of d"
  by (auto simp: merged_ok_def merge_exemplars_def Let_def count_of_def)

lemma span_member_ok:
  "key \<notin> {''count'', ''errors'', ''exemplarTraceIds''} \<Longrightarrow> merged_ok d \<Longrightarrow>
   merged_ok (snd (span_member pick key issue d)) \<and> count_of (snd (span_member pick key issue d)) = count_of d"
  by (auto simp: span_member_def Let_def merged_ok_def count_of_def split: sum.splits)

text \<open>Steps on a merged issue that keep its shape, and whose success adds a known number to its count.\<close>

definition merges :: "int \<Rightarrow> (pydict, unit) action \<Rightarrow> bool" where
  "merges n act \<longleftrightarrow> (\<forall>d. merged_ok d \<longrightarrow> merged_ok (snd (act d)) \<and>
     (fst (act d) = Inr () \<longrightarrow> count_of (snd (act d)) = count_of d + n))"

lemma merges_modify: "(\<And>d. merged_ok d \<Longrightarrow> merged_ok (f d) \<and> count_of (f d) = count_of d) \<Longrightarrow> merges 0 (act_modify f)"
  by (simp add: merges_def act_modify_def)

lemma merges_bind: "merges m act \<Longrightarrow> merges n act' \<Longrightarrow> merges (m + n) (act_bind act (\<lambda>_. act'))"
  unfolding merges_def act_bind_def by (fastforce split: prod.splits sum.splits)

lemma later_merge_ok:
  assumes "safe_int (member_or issue ''count'' (VInt 0)) = Inr n \<or> n = 0 \<and> (\<exists>e. safe_int (member_or issue ''count'' (VInt 0)) = Inl e)"
  shows "merges n (later_merge issue xs)"
proof -
  have "merges n (add_counts issue)" using add_counts_ok [of _ issue] assms unfolding merges_def by fastforce
  moreover have "merges 0 (act_modify (merge_errors_into (vget issue ''errors'')))"
    using merge_errors_ok by (intro merges_modify) (simp add: merged_ok_def)
  moreover have "merges 0 (span_member py_min ''firstSeen'' issue)" "merges 0 (span_member py_max ''lastSeen'' issue)"
    using span_member_ok by (simp_all add: merges_def)
  moreover have "merges 0 (act_modify (latest_wins issue))" "merges 0 (act_modify (merge_exemplars xs))"
    using merged_ok_latest merge_exemplars_ok by (auto intro!: merges_modify)
  ultimately have "merges (0 + (n + (0 + (0 + (0 + 0))))) (later_merge issue xs)"
    unfolding later_merge_def by (intro merges_bind)
  then show ?thesis by simp
qed

text \<open>The count an entry of a batch contributes to a fingerprint.\<close>

definition delta :: "string \<Rightarrow> pydict \<Rightarrow> string \<Rightarrow> int" where
  "delta fp issue fp' = (if fp' = fp then (case safe_int (member_or issue ''count'' (VInt 0)) of Inr n \<Rightarrow> n | Inl _ \<Rightarrow> 0) else 0)"

lemma merge_issue_ok:
  assumes "issues_ok c"
  shows "issues_ok (snd (merge_issue fp issue c)) \<and> (fst (merge_issue fp issue c) = Inr () \<longrightarrow>
     (\<forall>fp'. issue_count (snd (merge_issue fp issue c)) fp' = issue_count c fp' + delta fp issue fp'))"
proof (cases "elements_of (member_or issue ''exemplarTraceIds'' (VList []))")
  case (Inl e)
  then show ?thesis using assms by (simp add: merge_issue_def)
next
  case (Inr xs)
  show ?thesis
  proof (cases "dict_get (co_issues c) fp")
    case None
    then show ?thesis using Inr assms first_merge_ok [of issue xs]
      by (cases "first_merge issue xs") (auto simp: merge_issue_def issues_ok_def issue_count_def delta_def)
  next
    case (Some d)
    define n where "n = (case safe_int (member_or issue ''count'' (VInt 0)) of Inr n \<Rightarrow> n | Inl _ \<Rightarrow> 0)"
    have "merges n (later_merge issue xs)"
      by (rule later_merge_ok) (auto simp: n_def split: sum.splits)
    moreover have "merged_ok d" using assms Some by (auto simp: issues_ok_def)
    ultimately have "merged_ok (snd (later_merge issue xs d)) \<and>
        (fst (later_merge issue xs d) = Inr () \<longrightarrow> count_of (snd (later_merge issue xs d)) = count_of d + n)"
      by (simp add: merges_def)
    then show ?thesis using Inr Some assms
      by (auto simp: merge_issue_def issues_ok_def issue_count_def delta_def n_def split: prod.splits)
  qed
qed

definition entry_delta :: "string \<Rightarrow> pyval \<Rightarrow> int" where
  "entry_delta fp' raw = (case raw of
     VDict issue \<Rightarrow> if truthy (vget issue ''fingerprint'') then delta (str_val (vget issue ''fingerprint'')) issue fp' else 0
   | _ \<Rightarrow> 0)"

lemma ingest_issue_ok:
  assumes "issues_ok c"
  shows "issues_ok (snd (ingest_issue raw c)) \<and> (fst (ingest_issue raw c) = Inr () \<longrightarrow>
     (\<forall>fp. issue_count (snd (ingest_issue raw c)) fp = issue_count c fp + entry_delta fp raw))"
  using assms merge_issue_ok [OF assms]
  by (cases raw) (auto simp: ingest_issue_def act_return_def act_raise_def entry_delta_def)

lemma batch_counts:
  "issues_ok c \<Longrightarrow> issues_ok (snd (ingest_each ingest_issue raws c)) \<and>
     (fst (ingest_each ingest_issue raws c) = Inr () \<longrightarrow>
      (\<forall>fp. issue_count (snd (ingest_each ingest_issue raws c)) fp = issue_count c fp + sum_list (map (entry_delta fp) raws)))"
proof (induction raws arbitrary: c)
  case (Cons raw raws)
  note step = ingest_issue_ok [OF Cons.prems, of raw]
  show ?case using step Cons.IH [of "snd (ingest_issue raw c)"]
    by (cases "ingest_issue raw c"; cases "fst (ingest_issue raw c)") auto
qed (simp add: act_return_def)

lemma issues_ok_flag: "issues_ok c \<Longrightarrow> issues_ok (snd (flag_drift_if_undeclared digest r topic declared t c))"
  using merge_issue_ok by (simp add: flag_drift_if_undeclared_def act_return_def Let_def)

lemma issues_ok_callee: "issues_ok c \<Longrightarrow> issues_ok (snd (callee_drift digest e c))"
  by (simp add: callee_drift_def Let_def issues_ok_flag)

lemma issues_ok_caller: "issues_ok c \<Longrightarrow> issues_ok (snd (caller_drift digest e c))"
  by (simp add: caller_drift_def issues_ok_flag split: sum.splits option.splits)

lemma issues_ok_event: "issues_ok c \<Longrightarrow> issues_ok (snd (ingest_event digest raw c))"
proof (cases "event_of raw")
  case (Inr e)
  assume "issues_ok c"
  then have "issues_ok (note_event e c)" by (simp add: issues_ok_def note_event_def)
  with Inr show ?thesis using issues_ok_callee [of "note_event e c" digest e] issues_ok_caller [of _ digest e]
    by (auto simp: ingest_event_def snd_act_bind split: prod.splits sum.splits)
qed (simp add: ingest_event_def)

lemma issues_ok_effect: "issues_ok c \<Longrightarrow> issues_ok (effect digest f c)"
proof (cases f)
  case (Heartbeat body)
  assume "issues_ok c"
  with Heartbeat show ?thesis by (auto simp: heartbeat_def Let_def issues_ok_def split: sum.splits prod.splits)
next
  case (Traces body)
  assume "issues_ok c"
  with Traces show ?thesis
    using ingest_each_invariant [of issues_ok "ingest_event digest" c, OF issues_ok_event] by (simp split: sum.splits)
next
  case (IssueFeed body)
  assume "issues_ok c"
  then have "issues_ok (reporting s c)" for s by (simp add: reporting_def issues_ok_def)
  with IssueFeed batch_counts \<open>issues_ok c\<close> show ?thesis by (simp split: sum.splits)
qed (simp add: register_service_def Let_def issues_ok_def split: sum.splits)

lemma catalogue_issues_ok: "issues_ok (catalogue digest save feeds w)"
  unfolding catalogue_effect
  by (induction feeds rule: rev_induct) (simp_all add: issues_ok_effect, simp add: issues_ok_def empty_collector_def)

text \<open>
  Issue counts are conserved: on top of any history, a batch of issues that is answered adds to the count
  of each fingerprint exactly the deltas its entries carry for it, an entry without a fingerprint
  adding nothing; the answer says how many entries were merged. Every stored issue keeps an integral count, at most
  three exemplars and at most ten well-formed entries of error detail, also when a batch fails midway.
\<close>

lemma issue_counts_add_up:
  assumes "ingest_issues save body (catalogue digest save feeds w, v) = (r, (c', v'))"
    and "elements_of (v_or (vget body ''issues'') (VList [])) = Inr entries"
  shows "(\<forall>reply. r = Inr reply \<longrightarrow> reply = accepted_reply (length (filter identified entries)) \<and>
       (\<forall>fp. issue_count c' fp = issue_count (catalogue digest save feeds w) fp + sum_list (map (entry_delta fp) entries))) \<and>
     (\<forall>fp d. dict_get (co_issues c') fp = Some d \<longrightarrow> merged_ok d)"
proof -
  let ?c = "catalogue digest save feeds w"
  have ok: "issues_ok (reporting s ?c)" for s
    using catalogue_issues_ok by (simp add: reporting_def issues_ok_def)
  have cnt: "issue_count (reporting s ?c) fp = issue_count ?c fp" for s fp
    by (simp add: reporting_def issue_count_def)
  show ?thesis
  proof (cases "require body ''service''")
    case (Inl e)
    with assms catalogue_issues_ok [of digest save feeds w] show ?thesis
      by (auto simp: ingest_issues_def with_required_def act_raise_def issues_ok_def)
  next
    case (Inr s)
    note b = batch_counts [OF ok, of entries s, unfolded cnt]
    from assms Inr b show ?thesis
      by (auto simp: ingest_issues_def with_required_def with_elements_def act_bind_def on_collector_def act_modify_def
          persisted_def issues_ok_def split: prod.splits sum.splits)
  qed
qed

definition sample_batch :: pydict where
  "sample_batch = [(''service'', VStr ''orders''), (''issues'', VList [
     VDict [(''fingerprint'', VStr ''f1''), (''count'', VInt 2)], VDict [(''count'', VInt 9)],
     VDict [(''fingerprint'', VStr ''f1''), (''count'', VStr ''3'')]])]"

section \<open>Drift\<close>

text \<open>
  A service that observed traffic contradicts: it has registered, its registration asserts the
  relevant members, and the topic is neither declared there nor reserved.
\<close>

definition undeclared :: "service_record \<Rightarrow> string list \<Rightarrow> string list \<Rightarrow> string \<Rightarrow> bool" where
  "undeclared r members declared topic \<longleftrightarrow> sv_registered r \<and> set members \<subseteq> set (sv_known r) \<and>
     topic \<notin> set declared \<and> \<not> is_reserved_topic topic"

definition contradicted :: "collector \<Rightarrow> trace_event \<Rightarrow> string \<Rightarrow> bool" where
  "contradicted c e name \<longleftrightarrow>
     name = ev_service e \<and> undeclared (service_of c name) [''requests''] (sv_consumed (service_of c name)) (ev_topic e) \<or>
     name \<noteq> ev_service e \<and> owner_of c (ev_parent_span_id e) = Inr (Some name) \<and>
       undeclared (service_of c name) [''events'', ''sends''] (sv_produced (service_of c name)) (ev_topic e)"

lemma flag_drift_changes:
  assumes "dict_get (co_issues (snd (flag_drift_if_undeclared digest r topic declared t c))) fp \<noteq> dict_get (co_issues c) fp"
  shows "fp = drift_fingerprint digest (sv_name r) topic \<and> sv_registered r \<and> topic \<notin> set declared \<and> \<not> is_reserved_topic topic"
  using assms flag_drift_frame [of digest r topic declared t c]
  by (auto simp: flag_drift_if_undeclared_def act_return_def split: if_splits)

lemma callee_drift_changes:
  assumes "collector_ok c" "dict_get (co_issues (snd (callee_drift digest e c))) fp \<noteq> dict_get (co_issues c) fp"
  shows "\<exists>name. fp = drift_fingerprint digest name (ev_topic e) \<and> contradicted c e name"
proof -
  let ?r = "service_of c (ev_service e)"
  have k: "''requests'' \<in> set (sv_known ?r)"
    "dict_get (co_issues (snd (flag_drift_if_undeclared digest ?r (ev_topic e) (sv_consumed ?r) (ev_trace_id e) c))) fp
       \<noteq> dict_get (co_issues c) fp"
    using assms(2) by (auto simp: callee_drift_def Let_def split: if_splits)
  with flag_drift_changes [OF k(2)] service_of_ok [OF assms(1), of "ev_service e"] show ?thesis
    by (intro exI [of _ "ev_service e"]) (simp add: contradicted_def undeclared_def)
qed

lemma caller_drift_changes:
  assumes "collector_ok c" "dict_get (co_issues (snd (caller_drift digest e c))) fp \<noteq> dict_get (co_issues c) fp"
  shows "\<exists>name. fp = drift_fingerprint digest name (ev_topic e) \<and> contradicted c e name"
proof -
  obtain name r where o: "owner_of c (ev_parent_span_id e) = Inr (Some name)" "name \<noteq> ev_service e"
    "dict_get (co_services c) name = Some r" "{''events'', ''sends''} \<subseteq> set (sv_known r)"
    "dict_get (co_issues (snd (flag_drift_if_undeclared digest r (ev_topic e) (sv_produced r) (ev_trace_id e) c))) fp
       \<noteq> dict_get (co_issues c) fp"
    using assms(2) by (auto simp: caller_drift_def split: sum.splits option.splits if_splits)
  then have "service_of c name = r" by (simp add: service_of_def)
  with o flag_drift_changes [OF o(5)] service_of_ok [OF assms(1), of name] show ?thesis
    by (intro exI [of _ name]) (simp add: contradicted_def undeclared_def)
qed

lemma contradicted_same: "same_but_issues c c' \<Longrightarrow> contradicted c' e name = contradicted c e name"
proof -
  assume s: "same_but_issues c c'"
  then have "owner_of c' = owner_of c" by (auto simp: same_but_issues_def owner_of_def fun_eq_iff split: pyval.splits)
  with same_service_of [OF s] show ?thesis by (simp add: contradicted_def)
qed

text \<open>
  Drift is filed only against a declaration: a trace event, on top of any history, changes the catalogue's
  issues only under the drift fingerprint of a service that handled or called its topic although that service's
  registration asserts the members in question and does not declare the topic there. So a
  service that never registered, a member left unknown and a reserved topic are never flagged.
\<close>

lemma drift_only_against_declaration:
  assumes "event_of raw = Inr e"
    and "ingest_event digest raw (catalogue digest save feeds w) = (x, c')"
    and "dict_get (co_issues c') fp \<noteq> dict_get (co_issues (catalogue digest save feeds w)) fp"
  shows "\<exists>name. fp = drift_fingerprint digest name (ev_topic e) \<and> contradicted (note_event e (catalogue digest save feeds w)) e name"
proof -
  let ?c = "catalogue digest save feeds w"
  let ?n = "note_event e ?c"
  have ok: "collector_ok ?n" using note_event_ok [OF catalogue_ok assms(1)] .
  obtain y c1 where y: "callee_drift digest e ?n = (y, c1)" by (cases "callee_drift digest e ?n")
  have n: "co_issues ?n = co_issues ?c" by (simp add: note_event_def)
  have s1: "same_but_issues ?n c1" using same_callee [of ?n digest e] by (simp add: y)
  have ok1: "collector_ok c1" using ok collector_ok_same [OF s1] by simp
  show ?thesis
  proof (cases "dict_get (co_issues c1) fp = dict_get (co_issues ?n) fp")
    case False
    then show ?thesis using callee_drift_changes [OF ok, of digest e fp] by (simp add: y)
  next
    case True
    have "snd (caller_drift digest e c1) = c'"
    proof (cases y)
      case (Inl z)
      with assms True y n show ?thesis by (simp add: ingest_event_def)
    next
      case (Inr u)
      with assms y show ?thesis by (simp add: ingest_event_def)
    qed
    then show ?thesis using caller_drift_changes [OF ok1, of digest e fp] True assms(3) n contradicted_same [OF s1]
      by simp
  qed
qed

definition sample_event :: pyval where
  "sample_event = VDict [(''traceId'', VStr ''t1''), (''spanId'', VStr ''s1''), (''service'', VStr ''orders''),
     (''topic'', VStr ''order:ship''), (''status'', VStr ''ok'')]"

section \<open>Malformed parts\<close>

lemma list_parent_raises:
  assumes "e \<in> set es" "ev_topic e = topic" "ev_parent_span_id e = VList (v # vs)"
  shows "\<exists>x. observed_callers c topic es obs = Inl x"
  using assms
proof (induction es arbitrary: obs)
  case (Cons f es)
  show ?case
  proof (cases "f = e")
    case True
    with Cons.prems show ?thesis by (simp add: owner_of_def)
  next
    case False
    with Cons.prems Cons.IH show ?thesis
      by (auto simp: and_then_def split: sum.splits option.splits)
  qed
qed simp

text \<open>
  Malformed parts of a feed are not always skipped. An entry of an issues batch whose exemplars are null
  raises, so the batch fails at it; so does a new one whose count is infinite. A trace event
  whose parent is a list raises too, but only after it has been recorded: from then on the query for its
  topic raises as well, whenever the topic has a provider.
\<close>

lemma malformed_parts_raise:
  "(dict_get issue ''exemplarTraceIds'' = Some VNone \<longrightarrow>
      (\<exists>x. ingest_issue (VDict ((''fingerprint'', VStr (f # fs)) # issue)) c = (Inl x, c))) \<and>
   (dict_get issue ''count'' = Some (VFloat ''Infinity'') \<longrightarrow>
      dict_get issue ''exemplarTraceIds'' = None \<longrightarrow> dict_get (co_issues c) (f # fs) = None \<longrightarrow>
      (\<exists>x. ingest_issue (VDict ((''fingerprint'', VStr (f # fs)) # issue)) c = (Inl x, c))) \<and>
   (event_of raw = Inr e \<longrightarrow> ev_parent_span_id e = VList (v # vs) \<longrightarrow>
      (\<exists>x c'. ingest_event digest raw c = (Inl x, c') \<and> e \<in> set (co_events c') \<and>
        (providers_of c' (ev_topic e) \<noteq> [] \<longrightarrow> ev_topic e \<noteq> [] \<longrightarrow>
           (\<exists>y. query_topic c' [(''topic'', VStr (ev_topic e))] = Inl y))))"
proof (intro conjI impI)
  assume "dict_get issue ''exemplarTraceIds'' = Some VNone"
  then show "\<exists>x. ingest_issue (VDict ((''fingerprint'', VStr (f # fs)) # issue)) c = (Inl x, c)"
    by (simp add: ingest_issue_def vget_def merge_issue_def member_or_def elements_of_def)
next
  have inf: "float_value ''Infinity'' = None" by (simp add: float_value_def)
  assume "dict_get issue ''count'' = Some (VFloat ''Infinity'')" "dict_get issue ''exemplarTraceIds'' = None"
    "dict_get (co_issues c) (f # fs) = None"
  then show "\<exists>x. ingest_issue (VDict ((''fingerprint'', VStr (f # fs)) # issue)) c = (Inl x, c)"
    by (simp add: ingest_issue_def vget_def merge_issue_def member_or_def elements_of_def first_merge_def safe_int_def inf)
next
  assume e: "event_of raw = Inr e" "ev_parent_span_id e = VList (v # vs)"
  define c' where "c' = snd (ingest_event digest raw c)"
  have "fst (act_bind (callee_drift digest e) (\<lambda>_. caller_drift digest e) (note_event e c)) \<noteq> Inr ()"
    using e(2) by (auto simp: act_bind_def caller_drift_def owner_of_def split: prod.splits sum.splits)
  then obtain x where x: "ingest_event digest raw c = (Inl x, c')"
    using e(1) by (cases "fst (ingest_event digest raw c)") (auto simp: c'_def ingest_event_def prod_eq_iff)
  have s: "same_but_issues (note_event e c) c'" using same_event [OF e(1)] by (simp add: c'_def)
  then have mem: "e \<in> set (co_events c')" "ev_topic e \<in> co_topics c'"
    by (auto simp: same_but_issues_def note_event_def)
  obtain y where y: "observed_callers c' (ev_topic e) (co_events c') [] = Inl y"
    using list_parent_raises [OF mem(1) refl e(2)] by blast
  have "\<exists>y. query_topic c' [(''topic'', VStr (ev_topic e))] = Inl y"
    if "providers_of c' (ev_topic e) \<noteq> []" "ev_topic e \<noteq> []"
    using that mem(2) y by (simp add: query_topic_def require_def vget_def Let_def)
  with x mem(1) show "\<exists>x c'. ingest_event digest raw c = (Inl x, c') \<and> e \<in> set (co_events c') \<and>
        (providers_of c' (ev_topic e) \<noteq> [] \<longrightarrow> ev_topic e \<noteq> [] \<longrightarrow>
           (\<exists>y. query_topic c' [(''topic'', VStr (ev_topic e))] = Inl y))" by blast
qed

end
