(* ===== verification/Spec2Isabelle.thy ===== *)
theory Spec2Isabelle
  imports Settlement Outbound Health CircuitBreaker Bulkhead RateLimit Idempotency Saga Cache Pointer Casting
    HttpClient AzureClients Gcp Grpc Auth Trace ClientCode Worker Probe MeshFeeds Artifacts CollectorProps
begin

text \<open>
  A verification development of Benzene for Python, a framework for message handlers that run
  unchanged behind HTTP, queues, streams, Lambda functions and in-process calls. Sources are under
  \<open>src/packages/\<close>; a name like \<open>benzene.core.envelope\<close> is the file
  \<open>benzene-core/benzene/core/envelope.py\<close> there.

  \<^bold>\<open>The program.\<close> A transport binding turns a native message into an envelope \<open>{topic, headers, body}\<close>
  and hands it to the message application, which parses the body, resolves the version, and runs a
  middleware pipeline that ends in the router. The router finds a handler in the registry, maps the
  body to its request type, and runs it in a scope of the dependency container. The handler's result is
  encoded as a response envelope; a request/response binding renders it, a one-way binding settles
  the message by it. Resilience guards, health checks, casting and idempotency are middleware; senders
  (HTTP, in-process, guarded, retrying) are the outbound side. A mesh collector, itself such a
  service, receives what services report about themselves and derives a picture of the fleet.

  \<^bold>\<open>How it is modelled.\<close> An awaited call is an action on the state it may change, which returns or raises;
  what it did before it raised is kept. The state of a component is a record, an operation is one
  function on it, and the world a handler works on is a type variable, so every theorem holds
  for every application. Interleavings of asynchronous tasks (circuit breaker, bulkhead, worker host)
  are step relations whose steps are the points where Python suspends. The worker host's own moves are kept apart
  from what happens to it, so that it ends is shown for every infinite run that is fair to the host, from the
  contract of its workers: each ends after it was cancelled, or after the stop signal where nothing cancels it. Dictionaries are association
  lists in insertion order; decoded JSON is the type \<open>pyval\<close>. Client libraries are arguments, with
  their documented behaviour as hypotheses or as the laws of a locale.

  \<^bold>\<open>Theories and sources.\<close>
  \<^item> \<open>Prelude\<close>, \<open>PyStr\<close>, \<open>Json\<close>, \<open>JsonProps\<close>, \<open>Dynamic\<close>: exceptions and actions, dictionaries, the
    locale \<open>keyed_registry\<close>, string operations, values, \<open>json.dumps\<close> and \<open>json.loads\<close> with their round
    trip, and what untyped code does with a decoded value (access, iteration, order, conversion).
  \<^item> \<open>Results\<close>, \<open>PayloadMapping\<close>: \<open>benzene.results\<close> (statuses, errors, problem documents, factories) and
    \<open>benzene.core.mapping\<close> (camelCase names, request mapping, wire forms).
  \<^item> \<open>Registry\<close>, \<open>Dependencies\<close>, \<open>Dispatch\<close>, \<open>Envelope\<close>: \<open>benzene.core\<close>'s registry, container, context,
    pipeline, router, metadata, envelope. Version selection, lifetimes, middleware order, the
    classification of every message, that the entry point answers, and the envelope round trip.
  \<^item> \<open>Settlement\<close>, \<open>Polling\<close>, \<open>Consumers\<close>: \<open>benzene.core.settlement\<close> and the SQS, Kafka and RabbitMQ workers.
    \<open>Polling\<close> is the abstract consumer with the contract of a client as locales; \<open>Consumers\<close> shows that
    the three loops refine it and what each deletes, commits or acknowledges, and interprets the
    locales on the packages' recording clients.
  \<^item> \<open>InProcess\<close>, \<open>Outbound\<close>, \<open>Health\<close>, \<open>Pointer\<close>, \<open>Casting\<close>, \<open>Worker\<close>: the modules of those names in
    \<open>benzene.core\<close>: isolation of a fan-out, bounds of a retry, health answers, pointer round trips,
    shortest cast chains, orderly shutdown.
  \<^item> \<open>Guard\<close>, \<open>CircuitBreaker\<close>, \<open>Bulkhead\<close>, \<open>RateLimit\<close>, \<open>Idempotency\<close>, \<open>Saga\<close>: \<open>benzene.resilience\<close>. \<open>Guard\<close> is
    the interface the guards share as middleware and as senders. The breaker's cycle and invariant,
    the bulkhead's bounds, the token bucket's rate, replay of a remembered result whatever other keys do meanwhile, and that a saga
    completes or compensates in reverse.
  \<^item> \<open>Cache\<close>: \<open>benzene.cache\<close>, with the cache contract as a locale.
  \<^item> \<open>StatusMaps\<close>, \<open>HttpRouting\<close>, \<open>HttpApp\<close>, \<open>HttpClient\<close>: \<open>benzene.http\<close> and the status table of
    \<open>benzene.grpc\<close>: exact route matching, totality of the HTTP binding, the envelope endpoint, and
    that the client reads back what the server renders.
  \<^item> \<open>AwsEvents\<close>, \<open>AwsLambda\<close>: \<open>benzene.aws\<close>: classification of Lambda events, partial batch failures,
    whole-event failures at the first record that is refused.
  \<^item> \<open>Producers\<close>, \<open>Codecs\<close>, \<open>Azure\<close>, \<open>AzureClients\<close>, \<open>Gcp\<close>: the senders of \<open>benzene.aws\<close>, \<open>benzene.kafka\<close> and
    \<open>benzene.rabbitmq\<close>; \<open>benzene.azure\<close> and \<open>benzene.gcp\<close>. What a sender writes, the trigger or consumer on the other
    side dispatches as the message that was sent.
  \<^item> \<open>Grpc\<close>, \<open>Auth\<close>: \<open>benzene.grpc\<close>'s error details, server binding and sender with the round trip of a call, and
    \<open>benzene.auth\<close>'s principals, Basic and bearer middleware and API Gateway authorizer: whom the gates let through, and
    that everyone else is answered \<open>unauthorized\<close>.
  \<^item> \<open>ContractHash\<close>, \<open>Declarations\<close>, \<open>ContractSchema\<close>, \<open>Contract\<close>: \<open>benzene.core\<close>'s contract documents: what moves
    a hash, schemas derived from annotations with their catalogue, and that a derived document is closed
    and carries the hashes of its own content.
  \<^item> \<open>Startup\<close>, \<open>Profile\<close>: \<open>benzene.core.startup\<close>, the composition root, and \<open>benzene.mesh.profile\<close>: a definition
    that assesses itself conformant is built into an application that answers what the profile asks for.
  \<^item> \<open>Trace\<close>: \<open>benzene.mesh.trace\<close>: one event for each invocation, and senders that carry the trace on.
  \<^item> \<open>ClientScope\<close>, \<open>ClientNames\<close>, \<open>ClientCode\<close>: \<open>benzene.codegen_client\<close>: documents, their restriction to topics and to the
    components a topic reaches, the hashes a generated client embeds; the names it declares, the order of its classes and its source
    text. Topic names are identifiers, classes read the properties they are named after.
  \<^item> \<open>Issues\<close>, \<open>SpecDoc\<close>, \<open>Collector\<close>, \<open>CollectorViews\<close>, \<open>CollectorProps\<close>: \<open>benzene.mesh\<close>: failure
    signatures, contract reading, the collector and its queries. Over every history of feeds: the
    graph is the declared one (of services that name none of their lists in \<open>degraded\<close>: the collector reads those
    lists all the same, as \<open>degraded_member_keeps_edges\<close> shows), issue counts add up, drift is filed only against a declaration, a
    restart restores the catalogue.
  \<^item> \<open>MeshFeeds\<close>, \<open>Artifacts\<close>, \<open>Probe\<close>: \<open>benzene.mesh\<close>'s feed sender and poller, the artifacts of its UI, and the
    audit of a running service: pulling is pushing, the topology is the declared graph, verdicts are what was observed.

  \<^bold>\<open>Bounds and fuel.\<close> Loops of the code that end are total functions here. The consumer loops may run
  for ever, so \<open>poll_loop\<close>, \<open>sqs_loop\<close>, \<open>kafka_loop\<close> and \<open>rabbitmq_loop\<close> take the number of polls and
  return \<open>None\<close> when they have not ended by then; their theorems hold for every number. \<open>scan_value\<close> of the
  JSON scanner takes the length of its text as fuel, which \<open>JsonProps\<close> shows to be enough for every
  text \<open>dumps\<close> writes. Service resolution takes the nesting depth of factories. \<open>derive\<close> takes the number of classes
  as fuel, which \<open>ContractSchema\<close> shows to be enough.

  \<^bold>\<open>Not modelled.\<close> Code points of 256 and above, UTF-8 octets (arguments where a binding decodes them), rounding of
  floats (a float is the decimal its text denotes), Decimal and Enum values, the reading of annotations from Python types and generic
  classes in them (annotations are given), logging and warnings beyond their texts, recursion limits and
  memory. An em dash in a message is written as a hyphen. Clocks and randomness are read from the state. Left out are code that only
  calls a library or a platform: the ASGI adapter, the urllib transport, the creation of SDK clients, \<open>background_worker\<close>, the decoding of
  an API Gateway request, the OpenTelemetry and pydantic bridges, fleet discovery over cloud listings; and, of the program's own logic,
  the trace summaries of the collector's fleet query, the S3 trace inbox, the second schema projection (\<open>benzene.core.schema\<close>),
  the OpenAPI document, the command line of the client generator, the test harness, examples and deployment scripts.

  \<^bold>\<open>Plan.\<close> Next are the trace summaries of the fleet query, the second schema projection and the OpenAPI document.
\<close>

section \<open>The collector behind the application\<close>

text \<open>The message a feed arrives as.\<close>

fun feed_topic :: "feed \<Rightarrow> string" where
  "feed_topic (Register _) = REGISTER_TOPIC"
| "feed_topic (Heartbeat _) = HEARTBEAT_TOPIC"
| "feed_topic (Traces _) = TRACES_TOPIC"
| "feed_topic (IssueFeed _) = ISSUES_TOPIC"

fun feed_body :: "feed \<Rightarrow> pydict" where
  "feed_body (Register body) = body"
| "feed_body (Heartbeat body) = body"
| "feed_body (Traces body) = body"
| "feed_body (IssueFeed body) = body"

definition collector_definition :: "string \<Rightarrow> 'h \<Rightarrow> 'h handler_definition" where
  "collector_definition topic h = \<lparr>hd_topic = topic, hd_handler = h, hd_version = [], hd_request_type = None,
     hd_response_type = None, hd_is_default = False\<rparr>"

lemmas mesh_topics = REGISTER_TOPIC_def HEARTBEAT_TOPIC_def TRACES_TOPIC_def ISSUES_TOPIC_def
  QUERY_SERVICE_TOPIC_def QUERY_TOPIC_TOPIC_def QUERY_TRACE_TOPIC_def

text \<open>An unversioned definition whose topic is new is appended.\<close>

lemma register_fresh:
  assumes "topic \<notin> hd_topic ` snd ` set reg" "\<forall>(k, d) \<in> set reg. k = hd_key d"
  shows "register topic h [] None None False None reg = Inr (reg @ [((topic, []), collector_definition topic h)])"
proof -
  have n: "dict_get reg (topic, []) = None"
    using assms by (force simp: map_of_eq_None_iff hd_key_def)
  then show ?thesis
    by (auto simp: register_def add_definition_def collector_definition_def hd_key_def dict_mem_def dict_set_fresh
        split: option.splits)
qed

lemma register_all:
  assumes "distinct (map fst hs)" "fst ` set hs \<inter> hd_topic ` snd ` set reg = {}" "\<forall>(k, d) \<in> set reg. k = hd_key d"
  shows "add_all (\<lambda>(topic, h). register topic h [] None None False None) hs reg =
    Inr (reg @ map (\<lambda>(topic, h). ((topic, []), collector_definition topic h)) hs)"
  using assms
proof (induction hs arbitrary: reg)
  case (Cons p hs)
  obtain t h where p: "p = (t, h)" by (cases p)
  have r: "register t h [] None None False None reg = Inr (reg @ [((t, []), collector_definition t h)])"
    using Cons.prems by (intro register_fresh) (auto simp: p)
  show ?case
    using Cons.prems by (simp add: p r, subst Cons.IH) (auto simp: p collector_definition_def hd_key_def)
qed simp

lemma collector_registry_entries:
  "collector_registry digest save =
     Inr (map (\<lambda>(topic, h). ((topic, []), collector_definition topic h)) (collector_handlers digest save))"
  unfolding collector_registry_def
  by (subst register_all) (simp_all add: collector_handlers_def mesh_topics)

lemma collector_lookup:
  assumes "collector_registry digest save = Inr reg"
  shows "exact_version reg (VStr (feed_topic f)) (VStr []) =
    Inr (Some (collector_definition (feed_topic f) (ingest_handler (case f of
      Register _ \<Rightarrow> ingest_register save | Heartbeat _ \<Rightarrow> ingest_heartbeat save
    | Traces _ \<Rightarrow> ingest_traces digest save | IssueFeed _ \<Rightarrow> ingest_issues save))))"
  using assms by (cases f) (auto simp: collector_registry_entries collector_handlers_def mesh_topics exact_version_def
      default_for_def find_handler_def)

text \<open>What the caller of an ingest hears.\<close>

definition feed_answer :: "pydict outcome \<Rightarrow> result" where
  "feed_answer x = (case x of
     Inr reply \<Rightarrow> ok (VDict reply)
   | Inl e \<Rightarrow> if exn_class e = ''CollectorBadRequest'' then bad_request [ErrText (exn_text e)]
       else service_unavailable [ErrText (exn_text e)])"

lemma run_ingest_handler:
  assumes "method body s = (x, s')" "x \<noteq> Inl PyCancelled" "ctx_request ctx = VDict body"
  shows "run_handler ct (collector_definition topic (ingest_handler method)) (ctx, s) =
    (Inr (), (set_result_of (Some (feed_answer x)) ctx, s'))"
proof (cases x)
  case (Inl e)
  with assms obtain cls msg where "e = PyException cls msg" by (cases e) auto
  with assms Inl show ?thesis
    by (simp add: run_handler_def collector_definition_def to_request_def ingest_handler_def call_method_def feed_answer_def)
next
  case (Inr reply)
  with assms show ?thesis
    by (simp add: run_handler_def collector_definition_def to_request_def ingest_handler_def call_method_def feed_answer_def)
qed

lemma ingest_reply: "ingest digest save f m = (Inr reply, m') \<Longrightarrow> \<exists>n. reply = accepted_reply n"
  by (cases f) (auto simp: ingest_register_def ingest_heartbeat_def ingest_traces_def ingest_issues_def with_required_def
      with_elements_def act_raise_def act_bind_def persisted_def split: sum.splits prod.splits)

lemma encode_feed_answer:
  assumes "ingest digest save f m = (x, m')"
  shows "\<exists>rsp. encode_response (Some (feed_answer x)) = Inr rsp \<and>
    rsp_status_code rsp = Some (res_status (feed_answer x)) \<and> rsp_is_successful rsp = VBool (\<not> isl x)"
proof (cases x)
  case (Inl e)
  then have "\<not> result_is_successful (feed_answer x)"
    by (simp add: feed_answer_def bad_request_def service_unavailable_def failure_def mk_result_def result_is_successful_def
        is_successful_def SUCCESS_STATUSES_def)
  from encode_failure [OF this] Inl show ?thesis by simp
next
  case (Inr reply)
  then obtain n where n: "reply = accepted_reply n" using ingest_reply assms by blast
  have s: "result_is_successful (feed_answer x)" "res_payload (feed_answer x) = VDict (accepted_reply n)"
    by (simp_all add: Inr n feed_answer_def ok_def mk_result_def result_is_successful_def is_successful_def SUCCESS_STATUSES_def)
  then have "json_ok (to_jsonable (res_payload (feed_answer x)))"
    by (simp add: accepted_reply_def)
  with encode_success [OF s(1)] Inr show ?thesis by simp
qed

definition feed_message :: "feed \<Rightarrow> string \<Rightarrow> pydict" where
  "feed_message f text = [(''topic'', VStr (feed_topic f)), (''body'', VStr text)]"

lemma feed_message_handled:
  assumes reg: "collector_registry digest save = Inr reg" "new_application ct reg None None None None = Inr app"
    and wire: "loads text = Some (VDict (feed_body f))" "text \<noteq> []"
    and run: "ingest digest save f s = (x, s')" "x \<noteq> Inl PyCancelled"
  shows "\<exists>rsp. app_handle app (feed_message f text) False s = (Inr rsp, s') \<and>
    rsp_status_code rsp = Some (res_status (feed_answer x)) \<and> rsp_is_successful rsp = VBool (\<not> isl x)"
proof -
  obtain rsp where rsp: "encode_response (Some (feed_answer x)) = Inr rsp"
    "rsp_status_code rsp = Some (res_status (feed_answer x))" "rsp_is_successful rsp = VBool (\<not> isl x)"
    using encode_feed_answer [OF run(1)] by blast
  let ?op = "case f of Register _ \<Rightarrow> ingest_register save | Heartbeat _ \<Rightarrow> ingest_heartbeat save
    | Traces _ \<Rightarrow> ingest_traces digest save | IssueFeed _ \<Rightarrow> ingest_issues save"
  have m: "?op (feed_body f) s = (x, s')" using run(1) by (cases f) simp_all
  have pipe: "app_pipeline app = [message_router ct reg exact_version]"
    using reg(2) by (auto simp: new_application_def pipeline_use_def Let_def)
  have "feed_topic f \<noteq> []" "feed_topic f \<noteq> PING_TOPIC" by (cases f; simp add: mesh_topics PING_TOPIC_def)+
  then have "app_handle app (feed_message f text) False s = (Inr rsp, s')"
    using wire collector_lookup [OF reg(1), of f] run_ingest_handler [of ?op "feed_body f" s x, OF m run(2)] rsp(1)
    by (simp add: app_handle_def feed_message_def vget_def v_or_def lower_keys_def dict_of_def resolve_version_def
        loads_val_def pipe message_router_def mk_context_def set_result_of_def Let_def)
  with rsp show ?thesis by blast
qed

text \<open>Reading a value and merging never cancel a task: only the store can.\<close>

definition uncancelled :: "('s, 'a) action \<Rightarrow> bool" where
  "uncancelled act \<longleftrightarrow> (\<forall>s. fst (act s) \<noteq> Inl PyCancelled)"

lemma read_uncancelled:
  "elements_of v \<noteq> Inl PyCancelled" "safe_int v \<noteq> Inl PyCancelled" "duration_ms v \<noteq> Inl PyCancelled"
  "get_or v key d \<noteq> Inl PyCancelled" "owner_of c v \<noteq> Inl PyCancelled"
  by (cases v; simp add: elements_of_def safe_int_def duration_ms_def get_or_def attribute_error_def owner_of_def
      split: option.splits)+

lemma and_then_cancelled [simp]:
  "and_then x f = Inl PyCancelled \<longleftrightarrow> x = Inl PyCancelled \<or> (\<exists>a. x = Inr a \<and> f a = Inl PyCancelled)"
  by (cases x) simp_all

lemma py_less_uncancelled: "py_less a b \<noteq> Inl PyCancelled"
proof (induction a b rule: py_less.induct)
  case (2 xs b)
  then show ?case by (cases b) (auto split: option.splits)
qed (auto split: pyval.splits option.splits)

lemma event_uncancelled: "event_of raw \<noteq> Inl PyCancelled"
  by (cases raw) (simp_all add: event_of_def Let_def attribute_error_def read_uncancelled)

lemma uncancelledI [intro]:
  "uncancelled (act_return a)" "uncancelled (act_modify f)" "e \<noteq> PyCancelled \<Longrightarrow> uncancelled (act_raise e)"
  "uncancelled act \<Longrightarrow> (\<And>a. uncancelled (k a)) \<Longrightarrow> uncancelled (act_bind act k)"
  "uncancelled act' \<Longrightarrow> uncancelled (on_collector act')"
  by (auto simp: uncancelled_def act_return_def act_modify_def act_raise_def act_bind_def on_collector_def
      split: prod.splits sum.splits) (metis fst_conv)+

lemma merge_issue_uncancelled: "uncancelled (merge_issue fp issue)"
proof -
  have "uncancelled (add_counts issue)"
    by (auto simp: uncancelled_def add_counts_def read_uncancelled split: sum.splits)
  moreover have "uncancelled (span_member py_min key issue)" "uncancelled (span_member py_max key issue)" for key
    by (auto simp: uncancelled_def span_member_def Let_def py_min_def py_max_def py_less_uncancelled split: sum.splits)
  ultimately have "uncancelled (later_merge issue xs)" for xs unfolding later_merge_def by blast
  then show ?thesis
    by (auto simp: uncancelled_def merge_issue_def first_merge_def read_uncancelled case_prod_beta
        split: sum.splits option.splits)
qed

lemma drift_uncancelled: "uncancelled (flag_drift_if_undeclared digest r topic topics t)"
  using merge_issue_uncancelled by (auto simp: flag_drift_if_undeclared_def Let_def)

lemma ingest_event_uncancelled: "uncancelled (ingest_event digest raw)"
proof -
  have "uncancelled (callee_drift digest e)" for e
    using drift_uncancelled by (auto simp: uncancelled_def callee_drift_def Let_def)
  moreover have "uncancelled (caller_drift digest e)" for e
    using drift_uncancelled by (auto simp: uncancelled_def caller_drift_def read_uncancelled split: sum.splits option.splits)
  ultimately have "uncancelled (act_bind (callee_drift digest e) (\<lambda>_. caller_drift digest e))" for e by blast
  then show ?thesis by (auto simp: uncancelled_def ingest_event_def event_uncancelled split: sum.splits)
qed

lemma ingest_issue_uncancelled: "uncancelled (ingest_issue raw)"
  using merge_issue_uncancelled by (cases raw) (auto simp: ingest_issue_def attribute_error_def)

lemma ingest_each_uncancelled: "(\<And>x. uncancelled (step x)) \<Longrightarrow> uncancelled (ingest_each step xs)"
  by (induction xs) auto

lemma with_uncancelled:
  "(\<And>x. uncancelled (act x)) \<Longrightarrow> uncancelled (with_required body key act)"
  "(\<And>xs. uncancelled (act' xs)) \<Longrightarrow> uncancelled (with_elements v act')"
  using read_uncancelled(1) [of v]
  by (auto simp: with_required_def with_elements_def require_def bad_request_error_def split: sum.splits if_splits)

lemma ingest_uncancelled:
  assumes "\<And>snap. uncancelled (save snap)"
  shows "uncancelled (ingest digest save f)"
proof -
  have "uncancelled (persisted save reply)" for reply
    using assms by (auto simp: uncancelled_def persisted_def split: prod.splits sum.splits) (metis fst_conv)
  moreover have "uncancelled (heartbeat service body)" for service body
    by (auto simp: uncancelled_def heartbeat_def Let_def read_uncancelled split: sum.splits prod.splits)
  ultimately show ?thesis
    by (cases f) (auto simp: ingest_register_def ingest_heartbeat_def ingest_traces_def ingest_issues_def
        intro!: uncancelledI with_uncancelled ingest_each_uncancelled ingest_event_uncancelled ingest_issue_uncancelled)
qed

definition serve :: "'w mesh application \<Rightarrow> (feed \<times> string) list \<Rightarrow> 'w mesh \<Rightarrow> 'w mesh" where
  "serve app ms s = fold (\<lambda>(f, doc) t. snd (app_handle app (feed_message f doc) False t)) ms s"

text \<open>
  C27. The collector behind the application: as long as its store does not cancel the task, a service
  built from the collector's registry answers every feed message that parses, as \<open>ok\<close>, \<open>bad-request\<close> or \<open>service-unavailable\<close> and never with an exception,
  and its catalogue after any sequence of such messages is the one the feeds themselves give. So,
  end to end, from envelopes through the router to the catalogue, the consumers listed for a topic
  are exactly the services whose latest registration message declares it, for every service whose latest
  registration names none of its lists in \<open>degraded\<close>.
\<close>

theorem collector_service:
  assumes service: "collector_registry digest save = Inr reg" "new_application ct reg None None None None = Inr app"
    and wire: "\<forall>(f, doc) \<in> set ms. doc \<noteq> [] \<and> loads doc = Some (VDict (feed_body f))"
    and store: "\<And>snap. uncancelled (save snap)"
  shows "(\<forall>(f, doc) \<in> set ms. \<forall>s. \<exists>rsp s'. app_handle app (feed_message f doc) False s = (Inr rsp, s') \<and>
        rsp_status_code rsp \<in> Some ` {''ok'', ''bad-request'', ''service-unavailable''}) \<and>
     fst (serve app ms (empty_collector, w)) = catalogue digest save (map fst ms) w \<and>
     (nothing_degraded (latest_registration name (map fst ms)) \<longrightarrow>
       (name \<in> set (consumers_of (fst (serve app ms (empty_collector, w))) topic) \<longleftrightarrow>
          topic \<in> set (fst (declared_edges (latest_registration name (map fst ms))))))"
proof -
  have running: "fst (ingest digest save f s) \<noteq> Inl PyCancelled" for f s
    using ingest_uncancelled [of save digest f, OF store] unfolding uncancelled_def by blast
  have handled: "\<exists>rsp. app_handle app (feed_message f doc) False s = (Inr rsp, snd (ingest digest save f s)) \<and>
      rsp_status_code rsp = Some (res_status (feed_answer (fst (ingest digest save f s))))"
    if "(f, doc) \<in> set ms" for f doc s
  proof -
    have w: "loads doc = Some (VDict (feed_body f))" "doc \<noteq> []" using wire that by auto
    from feed_message_handled [OF service w surjective_pairing running] show ?thesis by blast
  qed
  have status: "res_status (feed_answer x) \<in> {''ok'', ''bad-request'', ''service-unavailable''}" for x
    by (simp add: feed_answer_def ok_def bad_request_def service_unavailable_def failure_def mk_result_def split: sum.splits)
  have run: "serve app ns s = ingest_history digest save (map fst ns) s" if "set ns \<subseteq> set ms" for ns s
    using that
  proof (induction ns arbitrary: s)
    case (Cons p ns)
    obtain f doc where p: "p = (f, doc)" by (cases p)
    with Cons.prems handled [of f doc s] have "snd (app_handle app (feed_message f doc) False s) = snd (ingest digest save f s)"
      by auto
    with Cons show ?case by (simp add: p serve_def ingest_history_def)
  qed (simp add: serve_def)
  have c: "fst (serve app ms (empty_collector, w)) = catalogue digest save (map fst ms) w"
    by (simp add: run catalogue_def)
  have "name \<in> set (consumers_of (catalogue digest save (map fst ms) w) topic) \<longleftrightarrow>
      topic \<in> set (fst (declared_edges (latest_registration name (map fst ms))))"
    if "nothing_degraded (latest_registration name (map fst ms))"
    using that by (simp add: catalogue_edges listed_is_declared)
  moreover have "\<exists>rsp s'. app_handle app (feed_message f doc) False s = (Inr rsp, s') \<and>
      rsp_status_code rsp \<in> Some ` {''ok'', ''bad-request'', ''service-unavailable''}"
    if "(f, doc) \<in> set ms" for f doc s
    using handled [OF that, of s] status by (metis imageI)
  ultimately show ?thesis unfolding c by blast
qed

theorem collector_service_witness:
  "\<exists>reg app. collector_registry id (\<lambda>_. act_return ()) = Inr reg \<and>
     new_application (\<lambda>_ _. Inr VNone, \<lambda>_ _. Inr VNone) reg None None None None = Inr app \<and>
     ''orders'' \<in> set (consumers_of (fst (serve app
       [(Register [(''service'', VStr ''orders''), (''requests'', VList [VDict [(''topic'', VStr ''order:create'')]])],
         ''{\"service\": \"orders\", \"requests\": [{\"topic\": \"order:create\"}]}'')] (empty_collector, ()))) ''order:create'')"
proof -
  let ?b = "[(''service'', VStr ''orders''), (''requests'', VList [VDict [(''topic'', VStr ''order:create'')]])]"
  let ?t = "''{\"service\": \"orders\", \"requests\": [{\"topic\": \"order:create\"}]}''"
  obtain reg where reg: "collector_registry id (\<lambda>_. act_return ()) = Inr (reg :: unit mesh handler registry)"
    by (simp add: collector_registry_entries)
  obtain app where app: "new_application (\<lambda>_ _. Inr VNone, \<lambda>_ _. Inr VNone) reg None None None None = Inr app"
    by (simp add: new_application_def Let_def)
  have t: "loads ?t = Some (VDict ?b)" by code_simp
  have b: "declared_edges (Some ?b) = ([''order:create''], [])" "nothing_degraded (Some ?b)" "require ?b ''service'' = Inr ''orders''"
    by code_simp+
  have run: "uncancelled ((\<lambda>_. act_return ()) snap)" for snap :: pydict by (rule uncancelledI)
  have "\<forall>(f, doc) \<in> set [(Register ?b, ?t)]. doc \<noteq> [] \<and> loads doc = Some (VDict (feed_body f))" by (simp add: t)
  from collector_service [OF reg app this run, of "()" "''orders''" "''order:create''"] show ?thesis
    using reg app b by auto
qed

end
